(* ===== verification/Prelude.thy ===== *)
theory Prelude
  imports Main "HOL-Library.Word" "HOL-Library.Sublist"
begin

unbundle bit_operations_syntax

section \<open>Prelude: machine types, collections of facts and shared lemmas\<close>

text \<open>
  The types every component shares and the generic facts on lists and words their proofs use.
  A byte of memory or of a socket is an \<open>8 word\<close>; a \<open>std::string\<close> that carries raw bytes is a
  \<open>byte list\<close>, one that carries text is a \<open>string\<close>. The fixed-width C++ integers are words of
  the same width, and a signed \<open>int\<close> that the code only compares is an \<open>int\<close>.
\<close>

type_synonym byte = "8 word"
type_synonym u8 = "8 word"
type_synonym u16 = "16 word"
type_synonym u32 = "32 word"
type_synonym u64 = "64 word"

text \<open>
  \<open>word_bits\<close> collects the bit-level facts of the codecs, \<open>step_defs\<close> the definitions that the
  step relations of the concurrent components unfold.
\<close>

named_theorems word_bits
named_theorems step_defs

subsection \<open>Exclusive or\<close>

lemma xor_eq_zero_iff [word_bits]: "v XOR w = 0 \<longleftrightarrow> v = w" for v w :: "'a::len word"
proof
  assume z: "v XOR w = 0"
  show "v = w"
  proof (rule bit_eqI)
    fix i
    have "bit (v XOR w) i = bit (0 :: 'a word) i" by (simp add: z)
    then show "bit v i = bit w i" by (simp add: bit_simps)
  qed
qed simp

lemma xor_cancel_right [word_bits]: "u XOR w = v XOR w \<longleftrightarrow> u = v" for u v w :: "'a::len word"
  by (metis xor.right_neutral xor.assoc xor_self_eq)

lemma xor_cancel_left [word_bits]: "w XOR u = w XOR v \<longleftrightarrow> u = v" for u v w :: "'a::len word"
  by (metis xor.commute xor_cancel_right)

subsection \<open>Bytes of a word, least significant first\<close>

primrec le_bytes :: "nat \<Rightarrow> 'a::len word \<Rightarrow> byte list" where
  "le_bytes 0 w = []"
| "le_bytes (Suc n) w = ucast w # le_bytes n (drop_bit 8 w)"

primrec le_value :: "byte list \<Rightarrow> 'a::len word" where
  "le_value [] = 0"
| "le_value (b # bs) = ucast b OR push_bit 8 (le_value bs)"

lemma length_le_bytes [simp]: "length (le_bytes n w) = n"
  by (induction n arbitrary: w) simp_all

lemma bit_le_value [word_bits]:
  "bit (le_value bs :: 'a::len word) i \<longleftrightarrow>
     i < LENGTH('a) \<and> i div 8 < length bs \<and> bit (bs ! (i div 8)) (i mod 8)"
proof (induction bs arbitrary: i)
  case Nil
  show ?case by simp
next
  case (Cons b bs)
  show ?case
  proof (cases "i < 8")
    case True
    then show ?thesis by (auto simp: bit_simps)
  next
    case False
    then obtain j where j: "i = j + 8" by (metis add.commute le_add_diff_inverse not_less)
    have "\<not> bit b i" using False by (auto dest: bit_imp_le_length)
    moreover have "(j + 8) div 8 = Suc (j div 8)" by simp
    ultimately show ?thesis using Cons.IH [of j] by (auto simp: j bit_simps)
  qed
qed

lemma nth_le_bytes:
  "k < n \<Longrightarrow> le_bytes n w ! k = ucast (drop_bit (8 * k) w)"
proof (induction n arbitrary: w k)
  case 0
  then show ?case by simp
next
  case (Suc n)
  then show ?case by (cases k) (simp_all add: algebra_simps)
qed

lemma le_value_le_bytes:
  assumes "LENGTH('a) \<le> 8 * n"
  shows "le_value (le_bytes n (w :: 'a::len word)) = w"
proof (rule bit_word_eqI)
  fix i assume "i < LENGTH('a)"
  moreover from this assms have "i div 8 < n" by (simp add: less_mult_imp_div_less mult.commute)
  ultimately show "bit (le_value (le_bytes n w) :: 'a word) i = bit w i"
    by (simp add: bit_le_value nth_le_bytes bit_simps)
qed

lemma le_bytes_le_value:
  assumes "8 * length bs \<le> LENGTH('a)"
  shows "le_bytes (length bs) (le_value bs :: 'a::len word) = bs"
proof (rule nth_equalityI)
  show "length (le_bytes (length bs) (le_value bs :: 'a word)) = length bs" by simp
next
  fix k assume "k < length (le_bytes (length bs) (le_value bs :: 'a word))"
  then have k: "k < length bs" by simp
  show "le_bytes (length bs) (le_value bs :: 'a word) ! k = bs ! k"
  proof (rule bit_word_eqI)
    fix i :: nat assume i: "i < LENGTH(8)"
    have "8 * k + i < LENGTH('a)" using assms k i by simp
    then show "bit (le_bytes (length bs) (le_value bs :: 'a word) ! k) i = bit (bs ! k) i"
      using k i by (simp add: nth_le_bytes bit_simps bit_le_value)
  qed
qed

subsection \<open>Searching a string\<close>

text \<open>
  \<open>find_from c pos xs\<close> is \<open>std::string::find(c, pos)\<close> and \<open>find_last c xs\<close> is \<open>find_last_of\<close>
  for a single character; \<open>None\<close> is \<open>npos\<close>.
\<close>

primrec find_char :: "'a \<Rightarrow> 'a list \<Rightarrow> nat option" where
  "find_char c [] = None"
| "find_char c (x # xs) = (if x = c then Some 0 else map_option Suc (find_char c xs))"

definition find_from :: "'a \<Rightarrow> nat \<Rightarrow> 'a list \<Rightarrow> nat option" where
  "find_from c pos xs =
     (if pos \<le> length xs then map_option ((+) pos) (find_char c (drop pos xs)) else None)"

definition find_last :: "'a \<Rightarrow> 'a list \<Rightarrow> nat option" where
  "find_last c xs = map_option (\<lambda>i. length xs - 1 - i) (find_char c (rev xs))"

lemma find_char_None_iff: "find_char c xs = None \<longleftrightarrow> c \<notin> set xs"
  by (induction xs) auto

lemma find_char_Some_split:
  "find_char c xs = Some i \<Longrightarrow> \<exists>ys zs. xs = ys @ c # zs \<and> c \<notin> set ys \<and> length ys = i"
proof (induction xs arbitrary: i)
  case Nil
  then show ?case by simp
next
  case (Cons x xs)
  show ?case
  proof (cases "x = c")
    case True
    with Cons.prems show ?thesis by auto
  next
    case False
    with Cons.prems obtain j where "i = Suc j" and "find_char c xs = Some j" by auto
    with Cons.IH obtain ys zs where "xs = ys @ c # zs" "c \<notin> set ys" "length ys = j" by blast
    with False \<open>i = Suc j\<close> have "x # xs = (x # ys) @ c # zs \<and> c \<notin> set (x # ys) \<and> length (x # ys) = i"
      by simp
    then show ?thesis by blast
  qed
qed

lemma find_char_split:
  assumes "find_char c xs = Some i"
  obtains ys zs where "xs = ys @ c # zs" and "c \<notin> set ys" and "length ys = i"
  using find_char_Some_split [OF assms] by blast

lemma find_char_append:
  "c \<notin> set ys \<Longrightarrow> find_char c (ys @ c # zs) = Some (length ys)"
  by (induction ys) auto

lemma find_last_append:
  "c \<notin> set zs \<Longrightarrow> find_last c (ys @ c # zs) = Some (length ys)"
  by (simp add: find_last_def find_char_append)

lemma find_last_None_iff: "find_last c xs = None \<longleftrightarrow> c \<notin> set xs"
  by (simp add: find_last_def find_char_None_iff)

end
