(* ===== verification/Byte_Order.thy ===== *)
theory Byte_Order
  imports Prelude
begin

section \<open>Byte order: \<open>src/common/utils/byteorder_utils.h\<close>\<close>

text \<open>
  \<open>ByteOrderUtils\<close> wraps the C library's conversions between host and network order. The byte
  order of the host is a parameter of every definition, because \<open>htons\<close> and its kin are defined
  by what they do to the bytes in memory. \<open>mem_store\<close> and \<open>mem_load\<close> are the two directions of
  the \<open>memcpy\<close> between an integer and a byte buffer that the callers of these functions make.
  The locale \<open>net_codec\<close> is the contract those callers rely on; it is interpreted at 16, 32 and
  64 bits.
\<close>

datatype endian = LittleEndian | BigEndian

definition mem_store :: "endian \<Rightarrow> nat \<Rightarrow> 'a::len word \<Rightarrow> byte list" where
  "mem_store e n w = (case e of LittleEndian \<Rightarrow> le_bytes n w | BigEndian \<Rightarrow> rev (le_bytes n w))"

definition mem_load :: "endian \<Rightarrow> byte list \<Rightarrow> 'a::len word" where
  "mem_load e bs = (case e of LittleEndian \<Rightarrow> le_value bs | BigEndian \<Rightarrow> le_value (rev bs))"

definition bswap :: "nat \<Rightarrow> 'a::len word \<Rightarrow> 'a word" where
  "bswap n w = le_value (rev (le_bytes n w))"

definition to_net :: "nat \<Rightarrow> endian \<Rightarrow> 'a::len word \<Rightarrow> 'a word" where
  "to_net n e w = (case e of LittleEndian \<Rightarrow> bswap n w | BigEndian \<Rightarrow> w)"

definition hostToNet16 :: "endian \<Rightarrow> u16 \<Rightarrow> u16" where
  "hostToNet16 e val = to_net 2 e val"

definition hostToNet32 :: "endian \<Rightarrow> u32 \<Rightarrow> u32" where
  "hostToNet32 e val = to_net 4 e val"

definition hostToNet64 :: "endian \<Rightarrow> u64 \<Rightarrow> u64" where
  "hostToNet64 e val = to_net 8 e val"

definition netToHost16 :: "endian \<Rightarrow> u16 \<Rightarrow> u16" where
  "netToHost16 e val = to_net 2 e val"

definition netToHost32 :: "endian \<Rightarrow> u32 \<Rightarrow> u32" where
  "netToHost32 e val = to_net 4 e val"

definition netToHost64 :: "endian \<Rightarrow> u64 \<Rightarrow> u64" where
  "netToHost64 e val = to_net 8 e val"

text \<open>Network order: most significant byte first.\<close>

definition be_bytes :: "nat \<Rightarrow> 'a::len word \<Rightarrow> byte list" where
  "be_bytes n w = rev (le_bytes n w)"

lemma length_mem_store [simp]: "length (mem_store e n w) = n"
  by (cases e) (simp_all add: mem_store_def)

lemma length_be_bytes [simp]: "length (be_bytes n w) = n"
  by (simp add: be_bytes_def)

lemma mem_load_store:
  "LENGTH('a) \<le> 8 * n \<Longrightarrow> mem_load e (mem_store e n (w :: 'a::len word)) = w"
  by (cases e) (simp_all add: mem_load_def mem_store_def le_value_le_bytes)

lemma le_bytes_bswap:
  assumes "8 * n \<le> LENGTH('a)"
  shows "le_bytes n (bswap n (w :: 'a::len word)) = rev (le_bytes n w)"
  using le_bytes_le_value [of "rev (le_bytes n w)", where 'a = 'a] assms
  by (simp add: bswap_def)

lemma bswap_bswap:
  assumes "LENGTH('a) = 8 * n"
  shows "bswap n (bswap n (w :: 'a::len word)) = w"
proof -
  have "bswap n (bswap n w) = le_value (rev (rev (le_bytes n w)))"
    using assms le_bytes_bswap [of n w] by (simp add: bswap_def [of n "bswap n w"])
  then show ?thesis using assms by (simp add: le_value_le_bytes)
qed

lemma to_net_to_net:
  "LENGTH('a) = 8 * n \<Longrightarrow> to_net n e (to_net n e (w :: 'a::len word)) = w"
  by (cases e) (simp_all add: to_net_def bswap_bswap)

lemma mem_store_to_net:
  "LENGTH('a) = 8 * n \<Longrightarrow> mem_store e n (to_net n e (w :: 'a::len word)) = be_bytes n w"
  by (cases e) (simp_all add: mem_store_def to_net_def be_bytes_def le_bytes_bswap)

lemma be_bytes_inj:
  assumes "LENGTH('a) \<le> 8 * n" and "be_bytes n (v :: 'a::len word) = be_bytes n w"
  shows "v = w"
  using assms by (metis be_bytes_def le_value_le_bytes rev_rev_ident)

subsection \<open>The contract of a conversion, and its interpretations\<close>

locale net_codec =
  fixes width :: nat
    and hton :: "endian \<Rightarrow> 'a::len word \<Rightarrow> 'a word"
    and ntoh :: "endian \<Rightarrow> 'a word \<Rightarrow> 'a word"
  assumes width: "LENGTH('a) = 8 * width"
    and ntoh_hton: "ntoh e (hton e w) = w"
    and net_image: "mem_store e width (hton e w) = be_bytes width w"
begin

lemma put_get: "ntoh e (mem_load e (mem_store e width (hton e w))) = w"
  by (simp add: mem_load_store width ntoh_hton)

lemma get_network: "ntoh e (mem_load e (be_bytes width w)) = w"
  by (metis net_image put_get)

lemma cross_host: "ntoh d (mem_load d (mem_store e width (hton e w))) = w"
  by (simp add: net_image get_network)

lemma image_inj: "mem_store e width (hton e v) = mem_store d width (hton d w) \<longleftrightarrow> v = w"
  using be_bytes_inj [of width v w] by (auto simp: net_image width)

end

interpretation net16: net_codec 2 hostToNet16 netToHost16
  by unfold_locales
    (simp_all add: hostToNet16_def netToHost16_def to_net_to_net mem_store_to_net)

interpretation net32: net_codec 4 hostToNet32 netToHost32
  by unfold_locales
    (simp_all add: hostToNet32_def netToHost32_def to_net_to_net mem_store_to_net)

interpretation net64: net_codec 8 hostToNet64 netToHost64
  by unfold_locales
    (simp_all add: hostToNet64_def netToHost64_def to_net_to_net mem_store_to_net)

text \<open>
  A 64-bit value written by one host after \<open>hostToNet64\<close> and read by another after
  \<open>netToHost64\<close> is the same value whatever the byte orders of the two hosts, and the bytes on
  the wire are the big-endian image of the value.
\<close>

theorem net64_cross_host:
  "netToHost64 d (mem_load d (mem_store e 8 (hostToNet64 e w))) = w \<and>
   mem_store e 8 (hostToNet64 e w) = be_bytes 8 w"
  using net64.cross_host net64.net_image by blast

end
