(* ===== verification/Checksum.thy ===== *)
theory Checksum
  imports Prelude
begin

section \<open>CRC-16/MODBUS: \<open>src/common/utils/checksum_utils.h\<close>\<close>

text \<open>
  \<open>ChecksumUtils::crc16\<close> and \<open>verifyCRC\<close> with their overloads. A \<open>(pointer, length)\<close> pair is a
  buffer and a length; reading past the buffer is undefined in C++ and is \<open>None\<close> here. The
  bit loop is \<open>crc_bit\<close> iterated eight times. The lemmas show that one round of the loop is
  invertible and linear over exclusive or, which gives the error-detection theorems.
\<close>

definition crc_bit :: "u16 \<Rightarrow> u16" where
  "crc_bit crc = (if crc AND 1 \<noteq> 0 then drop_bit 1 crc XOR 0xA001 else drop_bit 1 crc)"

primrec crc_bits :: "nat \<Rightarrow> u16 \<Rightarrow> u16" where
  "crc_bits 0 crc = crc"
| "crc_bits (Suc j) crc = crc_bits j (crc_bit crc)"

definition crc_byte :: "u16 \<Rightarrow> byte \<Rightarrow> u16" where
  "crc_byte crc b = crc_bits 8 (crc XOR ucast b)"

primrec crc_loop :: "byte list \<Rightarrow> u16 \<Rightarrow> u16" where
  "crc_loop [] crc = crc"
| "crc_loop (b # bs) crc = crc_loop bs (crc_byte crc b)"

definition crc16_ptr :: "byte list \<Rightarrow> nat \<Rightarrow> u16 option" where
  "crc16_ptr data len =
     (if len \<le> length data then Some (crc_loop (take len data) 0xFFFF) else None)"

definition crc16 :: "byte list \<Rightarrow> u16 option" where
  "crc16 data = crc16_ptr data (length data)"

definition verifyCRC_ptr :: "byte list \<Rightarrow> nat \<Rightarrow> u16 \<Rightarrow> bool option" where
  "verifyCRC_ptr data len expected_crc =
     (case crc16_ptr data len of None \<Rightarrow> None | Some c \<Rightarrow> Some (c = expected_crc))"

definition verifyCRC :: "byte list \<Rightarrow> u16 \<Rightarrow> bool option" where
  "verifyCRC data expected_crc = verifyCRC_ptr data (length data) expected_crc"

lemma crc16_eq: "crc16 data = Some (crc_loop data 0xFFFF)"
  by (simp add: crc16_def crc16_ptr_def)

lemma verifyCRC_iff: "verifyCRC data c = Some True \<longleftrightarrow> crc16 data = Some c"
  by (simp add: verifyCRC_def verifyCRC_ptr_def crc16_eq crc16_ptr_def)

lemma crc_loop_append [simp]: "crc_loop (xs @ ys) c = crc_loop ys (crc_loop xs c)"
  by (induction xs arbitrary: c) simp_all

subsection \<open>One bit of the loop\<close>

lemma and_one_nonzero: "(w :: u16) AND 1 \<noteq> 0 \<longleftrightarrow> bit w 0"
  by (simp add: and_one_eq mod_2_eq_odd bit_0)

lemma bit_poly: "bit (0xA001 :: u16) i \<longleftrightarrow> i = 0 \<or> i = 13 \<or> i = 15"
proof (cases "i < 16")
  case True
  then have "i \<in> {0, 1, 2, 3, 4, 5, 6, 7, 8, 9, 10, 11, 12, 13, 14, 15}" by simp presburger
  then show ?thesis by (elim insertE) (simp_all add: bit_numeral_rec)
next
  case False
  then show ?thesis by (auto dest: bit_imp_le_length)
qed

lemma bit_crc_bit:
  "bit (crc_bit w) i \<longleftrightarrow> (bit w (Suc i) \<noteq> (bit w 0 \<and> (i = 0 \<or> i = 13 \<or> i = 15)))"
  by (simp add: crc_bit_def and_one_nonzero bit_xor_iff bit_drop_bit_eq bit_poly [simplified])

lemma crc_bit_xor: "crc_bit (v XOR w) = crc_bit v XOR crc_bit w"
  by (rule bit_eqI) (auto simp: bit_crc_bit bit_simps)

lemma crc_bit_zero [simp]: "crc_bit 0 = 0"
  by (simp add: crc_bit_def)

lemma crc_bit_eq_zero: "crc_bit w = 0 \<Longrightarrow> w = 0"
proof (rule bit_eqI)
  fix i assume z: "crc_bit w = 0"
  have "\<not> bit w 16" by (auto dest: bit_imp_le_length)
  then have "\<not> bit w 0" using z bit_crc_bit [of w 15] by (simp add: eval_nat_numeral)
  then have "\<not> bit w (Suc j)" for j using z bit_crc_bit [of w j] by simp
  with \<open>\<not> bit w 0\<close> show "bit w i = bit (0 :: u16) i" by (cases i) simp_all
qed

lemma crc_bits_xor: "crc_bits n (v XOR w) = crc_bits n v XOR crc_bits n w"
  by (induction n arbitrary: v w) (simp_all add: crc_bit_xor)

lemma crc_bits_zero [simp]: "crc_bits n 0 = 0"
  by (induction n) simp_all

lemma crc_bits_eq_zero: "crc_bits n w = 0 \<Longrightarrow> w = 0"
  by (induction n arbitrary: w) (auto dest: crc_bit_eq_zero)

lemma crc_bits_inj: "crc_bits n v = crc_bits n w \<longleftrightarrow> v = w"
proof
  assume "crc_bits n v = crc_bits n w"
  then have "crc_bits n (v XOR w) = 0" by (simp add: crc_bits_xor)
  then have "v XOR w = 0" by (rule crc_bits_eq_zero)
  then show "v = w" by (simp add: word_bits)
qed simp

lemma crc_bits_add: "crc_bits (m + n) w = crc_bits n (crc_bits m w)"
  by (induction m arbitrary: w) simp_all

text \<open>A word whose low \<open>n\<close> bits are clear is only shifted by \<open>n\<close> rounds.\<close>

lemma crc_bits_shift:
  assumes "\<forall>i < n. \<not> bit w i"
  shows "crc_bits n w = drop_bit n w"
  using assms
proof (induction n arbitrary: w)
  case 0
  then show ?case by simp
next
  case (Suc n)
  have step: "crc_bit w = drop_bit 1 w"
    using Suc.prems by (simp add: crc_bit_def and_one_nonzero)
  have "\<forall>i < n. \<not> bit (crc_bit w) i"
    using Suc.prems by (simp add: step bit_simps)
  then show ?case by (simp add: Suc.IH step)
qed

subsection \<open>One byte and two bytes of the loop\<close>

lemma crc_byte_inj: "crc_byte c b = crc_byte d b \<longleftrightarrow> c = d"
  by (simp add: crc_byte_def crc_bits_inj word_bits)

lemma crc_loop_inj: "crc_loop bs c = crc_loop bs d \<longleftrightarrow> c = d"
  by (induction bs arbitrary: c d) (simp_all add: crc_byte_inj)

lemma crc_loop_xor:
  "length xs = length ys \<Longrightarrow>
   crc_loop (map2 (XOR) xs ys) (c XOR d) = crc_loop xs c XOR crc_loop ys d"
proof (induction xs ys arbitrary: c d rule: list_induct2)
  case Nil
  show ?case by simp
next
  case (Cons x xs y ys)
  have "(c XOR d) XOR ucast (x XOR y) = (c XOR ucast x) XOR (d XOR ucast y)"
    by (rule bit_eqI) (auto simp: bit_simps)
  then have "crc_byte (c XOR d) (x XOR y) = crc_byte c x XOR crc_byte d y"
    by (simp add: crc_byte_def crc_bits_xor)
  then show ?case by (simp add: Cons.IH)
qed

text \<open>Two bytes are sixteen rounds over the little-endian word they form.\<close>

lemma crc_two_bytes:
  "crc_byte (crc_byte c a) b = crc_bits 16 (c XOR (ucast a OR push_bit 8 (ucast b)))"
proof -
  let ?h = "push_bit 8 (ucast b) :: u16"
  have "crc_bits 8 ?h = ucast b"
  proof -
    have "\<forall>i < 8. \<not> bit ?h i" by (simp add: bit_simps)
    then have "crc_bits 8 ?h = drop_bit 8 ?h" by (rule crc_bits_shift)
    also have "\<dots> = ucast b" by (rule bit_eqI) (auto simp: bit_simps dest: bit_imp_le_length)
    finally show ?thesis .
  qed
  then have "crc_byte (crc_byte c a) b = crc_bits 8 (crc_bits 8 (c XOR ucast a XOR ?h))"
    by (simp add: crc_byte_def crc_bits_xor xor.assoc)
  also have "c XOR ucast a XOR ?h = c XOR (ucast a OR ?h)"
    by (rule bit_eqI) (auto simp: bit_simps dest: bit_imp_le_length)
  finally show ?thesis using crc_bits_add [of 8 8] by simp
qed

lemma two_bytes_inj:
  "(ucast a OR push_bit 8 (ucast b) :: u16) = ucast a' OR push_bit 8 (ucast b') \<longleftrightarrow> a = a' \<and> b = b'"
  for a b a' b' :: byte
proof
  assume "(ucast a OR push_bit 8 (ucast b) :: u16) = ucast a' OR push_bit 8 (ucast b')"
  then have "(le_value [a, b] :: u16) = le_value [a', b']" by simp
  moreover have "le_bytes 2 (le_value [x, y] :: u16) = [x, y]" for x y
    using le_bytes_le_value [of "[x, y]", where 'a = 16] by (simp add: numeral_2_eq_2)
  ultimately show "a = a' \<and> b = b'" by (metis list.inject)
qed simp

subsection \<open>Detection theorems\<close>

text \<open>
  The checksum detects every error confined to two adjacent bytes (so every burst of up to
  nine bits, and every burst of sixteen bits on a byte boundary): two messages that agree
  outside two adjacent bytes have the same CRC exactly when they agree there too.
\<close>

theorem crc16_detects_two_byte_errors:
  "crc16 (xs @ [a, b] @ ys) = crc16 (xs @ [a', b'] @ ys) \<longleftrightarrow> a = a' \<and> b = b'"
  by (simp add: crc16_eq crc_loop_inj crc_two_bytes crc_bits_inj word_bits two_bytes_inj)

text \<open>
  Appending the CRC of a message, low byte first, gives a frame whose CRC is zero: the
  residue a receiver of MODBUS frames checks.
\<close>

theorem crc16_residue:
  "crc16 (xs @ le_bytes 2 (crc_loop xs 0xFFFF)) = Some 0"
proof -
  let ?c = "crc_loop xs 0xFFFF"
  have "le_value (le_bytes 2 ?c) = ?c" by (rule le_value_le_bytes) simp
  then have "ucast (ucast ?c :: byte) OR push_bit 8 (ucast (ucast (drop_bit 8 ?c) :: byte)) = ?c"
    by (simp add: numeral_2_eq_2)
  then show ?thesis by (simp add: crc16_eq numeral_2_eq_2 crc_two_bytes)
qed

subsection \<open>The shift register the code implements\<close>

text \<open>
  The reference is the textbook division of the message polynomial by \<open>x^16 + x^15 + x^2 + 1\<close>:
  a register of sixteen coefficients, highest first, that takes the bits of each byte least
  significant first.
\<close>

definition lfsr_shift :: "bool list \<Rightarrow> bool list" where
  "lfsr_shift reg =
     map2 (\<noteq>) (tl reg @ [False])
       (map (\<lambda>i. hd reg \<and> i \<in> {15, 2, 0}) (rev [0..<16]))"

definition lfsr_bit :: "bool list \<Rightarrow> bool \<Rightarrow> bool list" where
  "lfsr_bit reg x = lfsr_shift ((hd reg \<noteq> x) # tl reg)"

definition byte_bits :: "byte \<Rightarrow> bool list" where
  "byte_bits b = map (bit b) [0..<8]"

definition crc_reference :: "byte list \<Rightarrow> bool list" where
  "crc_reference bs = foldl lfsr_bit (replicate 16 True) (concat (map byte_bits bs))"

definition register_of :: "u16 \<Rightarrow> bool list" where
  "register_of w = map (bit w) [0..<16]"

lemma upt_16: "[0..<16] = [0, 1, 2, 3, 4, 5, 6, 7, 8, 9, 10, 11, 12, 13, 14, 15]"
  by (simp add: upt_rec)

lemma register_of_crc_bit: "register_of (crc_bit w) = lfsr_shift (register_of w)"
proof -
  have "\<not> bit w 16" by (auto dest: bit_imp_le_length)
  then show ?thesis
    by (simp add: register_of_def lfsr_shift_def bit_crc_bit upt_16 eval_nat_numeral)
qed

lemma register_of_xor_bit:
  "register_of (c XOR of_bool x) = (hd (register_of c) \<noteq> x) # tl (register_of c)"
  by (simp add: register_of_def upt_16 bit_simps)

lemma lfsr_bit_register:
  "lfsr_bit (register_of c) x = register_of (crc_bit (c XOR of_bool x))"
  by (simp add: lfsr_bit_def register_of_crc_bit register_of_xor_bit)

lemma crc_bit_xor_head:
  "crc_bit (c XOR v) = crc_bit (c XOR of_bool (bit v 0)) XOR drop_bit 1 v"
  by (rule bit_eqI) (auto simp: bit_crc_bit bit_simps)

lemma register_feed:
  assumes "\<forall>i \<ge> n. \<not> bit v i"
  shows "register_of (crc_bits n (c XOR v)) = foldl lfsr_bit (register_of c) (map (bit v) [0..<n])"
  using assms
proof (induction n arbitrary: c v)
  case 0
  then have "v = 0" by (intro bit_eqI) simp
  then show ?case by simp
next
  case (Suc n)
  have bits: "map (bit v) [0..<Suc n] = bit v 0 # map (bit (drop_bit 1 v)) [0..<n]"
    by (simp add: upt_conv_Cons map_Suc_upt [symmetric] bit_simps del: upt_Suc)
  have "\<forall>i \<ge> n. \<not> bit (drop_bit 1 v) i" using Suc.prems by (simp add: bit_simps)
  then show ?case
    by (simp add: bits crc_bit_xor_head [of c v] Suc.IH lfsr_bit_register del: upt_Suc)
qed

lemma register_of_crc_byte:
  "register_of (crc_byte c b) = foldl lfsr_bit (register_of c) (byte_bits b)"
proof -
  have "\<forall>i \<ge> 8. \<not> bit (ucast b :: u16) i" by (auto simp: bit_simps dest: bit_imp_le_length)
  then have "register_of (crc_byte c b)
      = foldl lfsr_bit (register_of c) (map (bit (ucast b :: u16)) [0..<8])"
    by (simp only: crc_byte_def register_feed)
  also have "map (bit (ucast b :: u16)) [0..<8] = byte_bits b"
    by (simp add: byte_bits_def bit_simps)
  finally show ?thesis .
qed

lemma register_of_crc_loop:
  "register_of (crc_loop bs c) = foldl lfsr_bit (register_of c) (concat (map byte_bits bs))"
  by (induction bs arbitrary: c) (simp_all add: register_of_crc_byte)

text \<open>
  C6. The word-level loop of the code computes the CRC-16/MODBUS division: the bits of its
  result are the register of the reference for every message.
\<close>

theorem crc16_reference:
  "map_option register_of (crc16 bs) = Some (crc_reference bs)"
proof -
  have "register_of 0xFFFF = replicate 16 True"
    by (simp add: register_of_def upt_16 eval_nat_numeral bit_numeral_rec)
  then show ?thesis
    by (simp add: crc16_eq register_of_crc_loop crc_reference_def)
qed

end
