(* ===== verification/Fifo_Spec.thy ===== *)
theory Fifo_Spec
  imports Prelude
begin

section \<open>The contract of a stoppable bounded queue\<close>

text \<open>
  What the producers and consumers of \<open>RingBuffer\<close> rely on, stated over the list of queued
  elements: the locale \<open>bounded_fifo\<close>. \<open>fifo_run\<close> performs a sequence of operations in the order
  in which they hold the mutex; an operation that would block cannot be next, so the run is
  \<open>None\<close>. The lemmas of the locale hold for every provider of the contract.
\<close>

datatype 'a fifo_op = Push 'a | Pop | Stop

datatype 'a fifo_log = Pushed 'a | Rejected 'a | Popped 'a | Ended | Stopped

fun fifo_run ::
  "('a \<Rightarrow> 'q \<Rightarrow> (bool \<times> 'q) option) \<Rightarrow> ('q \<Rightarrow> ('a option \<times> 'q) option) \<Rightarrow> ('q \<Rightarrow> 'q) \<Rightarrow>
   'a fifo_op list \<Rightarrow> 'q \<Rightarrow> ('a fifo_log list \<times> 'q) option"
where
  "fifo_run psh pp stp [] q = Some ([], q)"
| "fifo_run psh pp stp (Push x # ops) q =
     (case psh x q of
        None \<Rightarrow> None
      | Some (ok, q') \<Rightarrow>
          map_option (map_prod ((#) (if ok then Pushed x else Rejected x)) id)
            (fifo_run psh pp stp ops q'))"
| "fifo_run psh pp stp (Pop # ops) q =
     (case pp q of
        None \<Rightarrow> None
      | Some (r, q') \<Rightarrow>
          map_option (map_prod ((#) (case r of None \<Rightarrow> Ended | Some x \<Rightarrow> Popped x)) id)
            (fifo_run psh pp stp ops q'))"
| "fifo_run psh pp stp (Stop # ops) q =
     map_option (map_prod ((#) Stopped) id) (fifo_run psh pp stp ops (stp q))"

fun pushed_of :: "'a fifo_log list \<Rightarrow> 'a list" where
  "pushed_of [] = []"
| "pushed_of (Pushed x # l) = x # pushed_of l"
| "pushed_of (_ # l) = pushed_of l"

fun popped_of :: "'a fifo_log list \<Rightarrow> 'a list" where
  "popped_of [] = []"
| "popped_of (Popped x # l) = x # popped_of l"
| "popped_of (_ # l) = popped_of l"

locale bounded_fifo =
  fixes psh :: "'a \<Rightarrow> 'q \<Rightarrow> (bool \<times> 'q) option"
    and pp :: "'q \<Rightarrow> ('a option \<times> 'q) option"
    and stp :: "'q \<Rightarrow> 'q"
    and invar :: "'q \<Rightarrow> bool"
    and elems :: "'q \<Rightarrow> 'a list"
    and bound :: "'q \<Rightarrow> nat"
    and halted :: "'q \<Rightarrow> bool"
  assumes bounded: "invar q \<Longrightarrow> length (elems q) \<le> bound q"
    and push_blocked:
      "invar q \<Longrightarrow> \<not> halted q \<Longrightarrow> length (elems q) = bound q \<Longrightarrow> psh x q = None"
    and push_halted: "invar q \<Longrightarrow> halted q \<Longrightarrow> psh x q = Some (False, q)"
    and push_room:
      "invar q \<Longrightarrow> \<not> halted q \<Longrightarrow> length (elems q) < bound q \<Longrightarrow>
       \<exists>q'. psh x q = Some (True, q') \<and> invar q' \<and> elems q' = elems q @ [x] \<and>
            halted q' = halted q \<and> bound q' = bound q"
    and pop_blocked: "invar q \<Longrightarrow> \<not> halted q \<Longrightarrow> elems q = [] \<Longrightarrow> pp q = None"
    and pop_halted: "invar q \<Longrightarrow> halted q \<Longrightarrow> elems q = [] \<Longrightarrow> pp q = Some (None, q)"
    and pop_some:
      "invar q \<Longrightarrow> elems q = x # xs \<Longrightarrow>
       \<exists>q'. pp q = Some (Some x, q') \<and> invar q' \<and> elems q' = xs \<and>
            halted q' = halted q \<and> bound q' = bound q"
    and stop_spec:
      "invar q \<Longrightarrow>
       invar (stp q) \<and> elems (stp q) = elems q \<and> halted (stp q) \<and> bound (stp q) = bound q"
begin

lemma push_cases:
  assumes "invar q"
  obtains (blocked) "\<not> halted q" "length (elems q) = bound q" "psh x q = None"
  | (refused) "halted q" "psh x q = Some (False, q)"
  | (accepted) q' where "\<not> halted q" "psh x q = Some (True, q')" "invar q'"
      "elems q' = elems q @ [x]" "halted q' = halted q" "bound q' = bound q"
  using assms push_blocked push_halted push_room bounded by (metis le_neq_implies_less)

lemma pop_cases:
  assumes "invar q"
  obtains (blocked) "\<not> halted q" "elems q = []" "pp q = None"
  | (ended) "halted q" "elems q = []" "pp q = Some (None, q)"
  | (taken) x xs q' where "elems q = x # xs" "pp q = Some (Some x, q')" "invar q'"
      "elems q' = xs" "halted q' = halted q" "bound q' = bound q"
  using assms pop_blocked pop_halted pop_some by (metis list.exhaust)

text \<open>Elements leave in the order in which they were accepted, none lost and none invented.\<close>

lemma run_fifo:
  assumes "invar q" and "fifo_run psh pp stp ops q = Some (l, q')"
  shows "invar q' \<and> bound q' = bound q \<and> elems q @ pushed_of l = popped_of l @ elems q'"
  using assms
proof (induction ops arbitrary: q l)
  case Nil
  then show ?case by simp
next
  case (Cons oper ops)
  show ?case
  proof (cases oper)
    case (Push x)
    from \<open>invar q\<close> show ?thesis
    proof (cases rule: push_cases [where x = x])
      case blocked
      with Cons.prems Push show ?thesis by simp
    next
      case refused
      with Cons Push show ?thesis by (fastforce simp: map_prod_def)
    next
      case (accepted q1)
      with Cons Push show ?thesis by (fastforce simp: map_prod_def)
    qed
  next
    case Pop
    from \<open>invar q\<close> show ?thesis
    proof (cases rule: pop_cases)
      case blocked
      with Cons.prems Pop show ?thesis by simp
    next
      case ended
      with Cons Pop show ?thesis by (fastforce simp: map_prod_def)
    next
      case (taken x xs q1)
      with Cons Pop show ?thesis by (fastforce simp: map_prod_def)
    qed
  next
    case Stop
    with Cons stop_spec [OF \<open>invar q\<close>] show ?thesis by (fastforce simp: map_prod_def)
  qed
qed

text \<open>A stopped queue drains: no pop blocks, and the end is signalled after the last element.\<close>

lemma run_drain:
  assumes "invar q" and "halted q"
  shows "\<exists>q'. fifo_run psh pp stp (replicate (length (elems q) + n) Pop) q =
           Some (map Popped (elems q) @ replicate n Ended, q') \<and> invar q' \<and> elems q' = []"
  using assms
proof (induction "elems q" arbitrary: q)
  case Nil
  then have "pp q = Some (None, q)" by (simp add: pop_halted)
  then have "fifo_run psh pp stp (replicate n Pop) q = Some (replicate n Ended, q)"
    by (induction n) simp_all
  with Nil show ?case by (metis append.left_neutral list.map(1) list.size(3) plus_nat.add_0)
next
  case (Cons x xs)
  then obtain q1 where q1: "pp q = Some (Some x, q1)" "invar q1" "elems q1 = xs" "halted q1"
    using pop_some [of q x xs] by auto
  obtain q' where "fifo_run psh pp stp (replicate (length xs + n) Pop) q1 =
      Some (map Popped xs @ replicate n Ended, q') \<and> invar q' \<and> elems q' = []"
    using Cons.hyps(1) [of q1] q1 by auto
  then show ?case using q1 Cons.hyps(2) [symmetric] by auto
qed

end

end
