(* ===== verification/Ring_Buffer.thy ===== *)
theory Ring_Buffer
  imports Fifo_Spec
begin

section \<open>The bounded queue between threads: \<open>src/common/utils/ring_buffer.h\<close>\<close>

text \<open>
  \<open>RingBuffer<T>\<close>: a circular array with a head index, a tail index and a count, guarded by one
  mutex. An operation is its critical section: from the moment the predicate of its
  \<open>condition_variable::wait\<close> holds to the unlock. While the predicate does not hold the
  operation is blocked and the model returns \<open>None\<close>. The element type is a type variable; the
  parameter \<open>moved\<close> is what \<open>std::move\<close> leaves in the slot an element is taken from, and
  \<open>dflt\<close> the value-initialised element of \<open>std::vector<T>(capacity)\<close>.
  The contract of the queue is the locale \<open>bounded_fifo\<close>; \<open>ring\<close> interprets it.
\<close>

record 'a ring_buffer =
  rb_buffer :: "'a list"
  rb_capacity :: nat
  rb_head :: nat
  rb_tail :: nat
  rb_size :: nat
  rb_stop :: bool

datatype ring_error = InvalidArgument

definition RingBuffer :: "'a \<Rightarrow> nat \<Rightarrow> ring_error + 'a ring_buffer" where
  "RingBuffer dflt capacity =
     (let rb = \<lparr>rb_buffer = replicate capacity dflt, rb_capacity = capacity, rb_head = 0,
                rb_tail = 0, rb_size = 0, rb_stop = False\<rparr>
      in if rb_capacity rb = 0 then Inl InvalidArgument else Inr rb)"

text \<open>The predicates of the two \<open>wait\<close> calls.\<close>

definition not_full :: "'a ring_buffer \<Rightarrow> bool" where
  "not_full rb \<longleftrightarrow> rb_size rb < rb_capacity rb \<or> rb_stop rb"

definition not_empty :: "'a ring_buffer \<Rightarrow> bool" where
  "not_empty rb \<longleftrightarrow> 0 < rb_size rb \<or> rb_stop rb"

definition push :: "'a \<Rightarrow> 'a ring_buffer \<Rightarrow> (bool \<times> 'a ring_buffer) option" where
  "push item rb =
     (if \<not> not_full rb then None
      else if rb_stop rb then Some (False, rb)
      else Some (True, rb\<lparr>rb_buffer := (rb_buffer rb)[rb_tail rb := item],
                          rb_tail := (rb_tail rb + 1) mod rb_capacity rb,
                          rb_size := rb_size rb + 1\<rparr>))"

definition pop :: "('a \<Rightarrow> 'a) \<Rightarrow> 'a ring_buffer \<Rightarrow> ('a option \<times> 'a ring_buffer) option" where
  "pop moved rb =
     (if \<not> not_empty rb then None
      else if rb_stop rb \<and> rb_size rb = 0 then Some (None, rb)
      else (let item = rb_buffer rb ! rb_head rb
            in Some (Some item,
                     rb\<lparr>rb_buffer := (rb_buffer rb)[rb_head rb := moved item],
                        rb_head := (rb_head rb + 1) mod rb_capacity rb,
                        rb_size := rb_size rb - 1\<rparr>)))"

definition stop :: "'a ring_buffer \<Rightarrow> 'a ring_buffer" where
  "stop rb = rb\<lparr>rb_stop := True\<rparr>"

subsection \<open>Invariant and contents\<close>

definition ring_inv :: "'a ring_buffer \<Rightarrow> bool" where
  "ring_inv rb \<longleftrightarrow>
     0 < rb_capacity rb \<and> length (rb_buffer rb) = rb_capacity rb \<and>
     rb_head rb < rb_capacity rb \<and> rb_size rb \<le> rb_capacity rb \<and>
     rb_tail rb = (rb_head rb + rb_size rb) mod rb_capacity rb"

definition contents :: "'a ring_buffer \<Rightarrow> 'a list" where
  "contents rb =
     map (\<lambda>i. rb_buffer rb ! ((rb_head rb + i) mod rb_capacity rb)) [0..<rb_size rb]"

lemma length_contents [simp]: "length (contents rb) = rb_size rb"
  by (simp add: contents_def)

lemma contents_Nil_iff: "contents rb = [] \<longleftrightarrow> rb_size rb = 0"
  by (simp add: contents_def)

text \<open>Offsets from the head below the capacity name distinct slots.\<close>

lemma slot_distinct_less:
  assumes "i < j" and "j < n"
  shows "(h + i) mod n \<noteq> (h + j) mod (n :: nat)"
proof
  assume "(h + i) mod n = (h + j) mod n"
  then have "n dvd j - i"
    using assms(1) mod_eq_dvd_iff_nat [of "h + i" "h + j" n] by simp
  moreover have "0 < j - i" and "j - i < n" using assms by simp_all
  ultimately show False by (meson dvd_imp_le not_le)
qed

lemma slot_distinct:
  assumes "i < n" and "j < n" and "i \<noteq> j"
  shows "(h + i) mod n \<noteq> (h + j) mod (n :: nat)"
  using assms slot_distinct_less [of i j n h] slot_distinct_less [of j i n h]
  by (metis linorder_neqE_nat)

lemma RingBuffer_ok:
  assumes "RingBuffer dflt n = Inr rb"
  shows "ring_inv rb \<and> contents rb = [] \<and> rb_capacity rb = n \<and> \<not> rb_stop rb"
  using assms by (auto simp: RingBuffer_def ring_inv_def contents_def Let_def split: if_splits)

subsection \<open>The operations on the contents\<close>

lemma push_None_iff: "push x rb = None \<longleftrightarrow> \<not> not_full rb"
  by (auto simp: push_def)

lemma pop_None_iff: "pop mv rb = None \<longleftrightarrow> \<not> not_empty rb"
  by (simp add: pop_def Let_def)

lemma push_accept:
  assumes inv: "ring_inv rb" and room: "rb_size rb < rb_capacity rb" and run: "\<not> rb_stop rb"
  shows "\<exists>rb'. push x rb = Some (True, rb') \<and> ring_inv rb' \<and> contents rb' = contents rb @ [x] \<and>
           rb_stop rb' = rb_stop rb \<and> rb_capacity rb' = rb_capacity rb"
proof -
  let ?c = "rb_capacity rb" and ?t = "rb_tail rb" and ?h = "rb_head rb"
  let ?rb = "rb\<lparr>rb_buffer := (rb_buffer rb)[?t := x], rb_tail := (?t + 1) mod ?c,
                rb_size := rb_size rb + 1\<rparr>"
  have t: "?t = (?h + rb_size rb) mod ?c" and tc: "?t < ?c"
    using inv by (simp_all add: ring_inv_def)
  have "?t \<noteq> (?h + i) mod ?c" if "i < rb_size rb" for i
    using slot_distinct [of "rb_size rb" ?c i ?h] that room by (simp add: t)
  then have old: "map (\<lambda>i. (rb_buffer rb)[?t := x] ! ((?h + i) mod ?c)) [0..<rb_size rb] = contents rb"
    by (auto simp: contents_def)
  have "contents ?rb = contents rb @ [x]"
    using old inv tc by (simp add: contents_def ring_inv_def t [symmetric])
  moreover have "ring_inv ?rb"
    using inv room by (simp add: ring_inv_def mod_Suc_eq)
  ultimately show ?thesis
    using room run by (simp add: push_def not_full_def)
qed

lemma pop_deliver:
  assumes inv: "ring_inv rb" and c: "contents rb = x # xs"
  shows "\<exists>rb'. pop mv rb = Some (Some x, rb') \<and> ring_inv rb' \<and> contents rb' = xs \<and>
           rb_stop rb' = rb_stop rb \<and> rb_capacity rb' = rb_capacity rb"
proof -
  let ?c = "rb_capacity rb" and ?h = "rb_head rb"
  let ?rb = "rb\<lparr>rb_buffer := (rb_buffer rb)[?h := mv (rb_buffer rb ! ?h)],
                rb_head := (?h + 1) mod ?c, rb_size := rb_size rb - 1\<rparr>"
  obtain n where n: "rb_size rb = Suc n"
    using c by (metis length_contents length_Cons)
  have unfold: "contents rb = rb_buffer rb ! ?h # map (\<lambda>i. rb_buffer rb ! ((?h + Suc i) mod ?c)) [0..<n]"
    using inv by (simp add: contents_def n upt_conv_Cons map_Suc_upt [symmetric] ring_inv_def
        comp_def del: upt_Suc)
  have "?h \<noteq> Suc (?h + i) mod ?c" if "i < n" for i
    using slot_distinct [of 0 ?c "Suc i" ?h] that inv n by (simp add: ring_inv_def)
  then have "contents ?rb = xs"
    using c unfold by (auto simp: contents_def n mod_Suc_eq mod_simps)
  moreover have "ring_inv ?rb"
    using inv n by (simp add: ring_inv_def mod_simps)
  ultimately show ?thesis
    using c unfold n by (simp add: pop_def not_empty_def Let_def)
qed

lemma stop_keeps:
  "ring_inv rb \<Longrightarrow> ring_inv (stop rb) \<and> contents (stop rb) = contents rb \<and> rb_stop (stop rb) \<and>
     rb_capacity (stop rb) = rb_capacity rb"
  by (simp add: stop_def ring_inv_def contents_def)

interpretation ring: bounded_fifo push "pop moved" stop ring_inv contents rb_capacity rb_stop
  for moved :: "'a \<Rightarrow> 'a"
proof unfold_locales
  fix rb :: "'a ring_buffer" and x
  assume "ring_inv rb" and "\<not> rb_stop rb" and "length (contents rb) < rb_capacity rb"
  then show "\<exists>rb'. push x rb = Some (True, rb') \<and> ring_inv rb' \<and> contents rb' = contents rb @ [x] \<and>
      rb_stop rb' = rb_stop rb \<and> rb_capacity rb' = rb_capacity rb"
    using push_accept [of rb x] by simp
next
  fix rb :: "'a ring_buffer" and x xs
  assume "ring_inv rb" and "contents rb = x # xs"
  then show "\<exists>rb'. pop moved rb = Some (Some x, rb') \<and> ring_inv rb' \<and> contents rb' = xs \<and>
      rb_stop rb' = rb_stop rb \<and> rb_capacity rb' = rb_capacity rb"
    by (rule pop_deliver)
qed (simp_all add: stop_keeps push_def pop_def not_full_def not_empty_def contents_Nil_iff,
     simp add: ring_inv_def)

subsection \<open>Properties of the queue\<close>

text \<open>
  C5. First in, first out: whatever sequence of pushes, pops and stops the threads make on a
  well-formed buffer, the elements delivered followed by those still queued are the elements
  queued at the start followed by those accepted, the buffer stays well formed and never holds
  more than its capacity.
\<close>

theorem ring_buffer_fifo:
  assumes "ring_inv rb" and "fifo_run push (pop moved) stop ops rb = Some (l, rb')"
  shows "ring_inv rb' \<and> rb_size rb' \<le> rb_capacity rb \<and>
         contents rb @ pushed_of l = popped_of l @ contents rb'"
  using ring.run_fifo [OF assms] by (auto simp: ring_inv_def)

definition demo_ring :: "nat ring_buffer" where
  "demo_ring = \<lparr>rb_buffer = [7, 5], rb_capacity = 2, rb_head = 1, rb_tail = 0, rb_size = 1,
                rb_stop = False\<rparr>"

lemma ring_buffer_fifo_witness:
  "\<exists>l rb'. fifo_run push (pop id) stop [Push 8, Pop, Push 9, Pop, Stop, Push 3, Pop] demo_ring
       = Some (l, rb') \<and> popped_of l = [5, 8, 9] \<and> pushed_of l = [8, 9] \<and>
     contents demo_ring @ pushed_of l = popped_of l @ contents rb'"
proof -
  let ?ops = "[Push 8, Pop, Push 9, Pop, Stop, Push 3, Pop]"
  have inv: "ring_inv demo_ring" by (simp add: ring_inv_def demo_ring_def)
  obtain l rb' where run: "fifo_run push (pop id) stop ?ops demo_ring = Some (l, rb')"
    and l: "popped_of l = [5, 8, 9]" "pushed_of l = [8, 9]"
    by (simp add: demo_ring_def push_def pop_def stop_def not_full_def not_empty_def)
  show ?thesis using run l ring_buffer_fifo [OF inv run] by blast
qed

text \<open>
  C35. Shutdown: after \<open>stop\<close>, every \<open>push\<close> returns false without changing the buffer, and
  consumers never block: the next pops return exactly the queued elements in order and every
  later pop returns \<open>nullopt\<close>.
\<close>

theorem ring_buffer_drains_after_stop:
  assumes "ring_inv rb"
  shows "push x (stop rb) = Some (False, stop rb) \<and>
    (\<exists>rb'. fifo_run push (pop moved) stop (Stop # replicate (rb_size rb + n) Pop) rb =
       Some (Stopped # map Popped (contents rb) @ replicate n Ended, rb') \<and> contents rb' = [])"
proof -
  have s: "ring_inv (stop rb)" "contents (stop rb) = contents rb" "rb_stop (stop rb)"
    using stop_keeps [OF assms] by simp_all
  then show ?thesis
    using ring.run_drain [OF s(1,3), of moved n] ring.push_halted [OF s(1,3)] by auto
qed

lemma ring_buffer_drains_witness:
  "push 1 (stop demo_ring) = Some (False, stop demo_ring) \<and>
   (\<exists>rb'. fifo_run push (pop id) stop (Stop # replicate (rb_size demo_ring + 1) Pop) demo_ring =
       Some (Stopped # map Popped (contents demo_ring) @ replicate 1 Ended, rb') \<and> contents rb' = [])"
  by (rule ring_buffer_drains_after_stop) (simp add: ring_inv_def demo_ring_def)

end
