(* ===== verification/Stream_Spec.thy ===== *)
theory Stream_Spec
  imports Prelude
begin

section \<open>The contract of an incremental stream scanner\<close>

text \<open>
  A connection keeps the bytes it has not consumed, appends every chunk it reads and runs a
  scanner that returns the messages found and the bytes to keep. \<open>scan_chunks\<close> is that loop.
  The locale \<open>stream_scanner\<close> states what a scanner must promise for the messages to be
  independent of how the network cuts the stream.
\<close>

primrec scan_chunks ::
  "('b list \<Rightarrow> 'm list \<times> 'b list) \<Rightarrow> 'b list \<Rightarrow> 'b list list \<Rightarrow> 'm list \<times> 'b list" where
  "scan_chunks scan kept [] = ([], kept)"
| "scan_chunks scan kept (c # cs) =
     (case scan (kept @ c) of (ds, rest) \<Rightarrow>
        (case scan_chunks scan rest cs of (es, left) \<Rightarrow> (ds @ es, left)))"

locale stream_scanner =
  fixes scan :: "'b list \<Rightarrow> 'm list \<times> 'b list"
  assumes scan_Nil: "scan [] = ([], [])"
    and scan_append:
      "scan (xs @ ys) =
         (case scan xs of (ds, rest) \<Rightarrow> (case scan (rest @ ys) of (es, left) \<Rightarrow> (ds @ es, left)))"
begin

lemma scan_rest: "scan xs = (ds, rest) \<Longrightarrow> scan rest = ([], rest)"
  using scan_append [of xs "[]"] by (auto split: prod.splits)

lemma chunks_from:
  "scan kept = ([], kept) \<Longrightarrow> scan_chunks scan kept cs = scan (kept @ concat cs)"
proof (induction cs arbitrary: kept)
  case Nil
  then show ?case by simp
next
  case (Cons c cs)
  obtain ds rest where s: "scan (kept @ c) = (ds, rest)" by fastforce
  then have "scan_chunks scan rest cs = scan (rest @ concat cs)"
    by (intro Cons.IH scan_rest)
  then show ?case using s scan_append [of "kept @ c" "concat cs"] by simp
qed

lemma chunks_all: "scan_chunks scan [] cs = scan (concat cs)"
  using chunks_from [OF scan_Nil] by simp

end

end
