(* ===== verification/Framing.thy ===== *)
theory Framing
  imports Stream_Spec
begin

section \<open>Frame extraction: \<open>TcpServer::processBuffer\<close> in \<open>src/core/trapper/tcp_server.cpp\<close>\<close>

text \<open>
  The receive buffer of a connection is scanned for frames \<open>0xAA ... 0xFF\<close>; the bytes between
  the delimiters are handed to the callback, an incomplete frame stays in the buffer, bytes
  before a frame head are dropped. \<open>process_loop\<close> is the loop of \<open>processBuffer\<close> on the buffer:
  the frames it passes on, in order, and what it leaves. The reference is a byte-at-a-time
  receiver (\<open>deframe\<close>), from which independence of how the stream is cut into reads follows.
\<close>

definition frame_head :: byte where "frame_head = 0xAA"
definition frame_tail :: byte where "frame_tail = 0xFF"

text \<open>One round of the loop: the next frame's data, if there is one, and the remaining buffer.\<close>

definition next_frame :: "byte list \<Rightarrow> byte list option \<times> byte list" where
  "next_frame buffer =
     (case find_from frame_head 0 buffer of
        None \<Rightarrow> (None, [])
      | Some head \<Rightarrow>
          (let buffer1 = (if head > 0 then drop head buffer else buffer) in
           case find_from frame_tail 1 buffer1 of
             None \<Rightarrow> (None, buffer1)
           | Some tail \<Rightarrow>
               (let frame = take (tail + 1) buffer1;
                    buffer2 = drop (tail + 1) buffer1;
                    payload = take (length frame - 2) (drop 1 frame)
                in (Some payload, buffer2))))"

lemma next_frame_shorter:
  "next_frame buffer = (Some d, rest) \<Longrightarrow> length rest < length buffer"
  by (auto simp: next_frame_def find_from_def Let_def split: option.splits if_splits
      elim!: find_char_split)

function process_loop :: "byte list \<Rightarrow> byte list list \<times> byte list" where
  "process_loop buffer =
     (case next_frame buffer of
        (None, rest) \<Rightarrow> ([], rest)
      | (Some d, rest) \<Rightarrow> (case process_loop rest of (ds, left) \<Rightarrow> (d # ds, left)))"
  by pat_completeness auto
termination
  by (relation "measure length") (auto dest: next_frame_shorter [OF sym])

declare process_loop.simps [simp del]

subsection \<open>The byte-at-a-time receiver\<close>

datatype frame_state = Idle | Inside "byte list"

fun deframe_byte :: "frame_state \<Rightarrow> byte \<Rightarrow> byte list list \<times> frame_state" where
  "deframe_byte Idle b = (if b = frame_head then ([], Inside []) else ([], Idle))"
| "deframe_byte (Inside acc) b =
     (if b = frame_tail then ([acc], Idle) else ([], Inside (acc @ [b])))"

primrec deframe :: "frame_state \<Rightarrow> byte list \<Rightarrow> byte list list \<times> frame_state" where
  "deframe st [] = ([], st)"
| "deframe st (b # bs) =
     (case deframe_byte st b of (ds, st1) \<Rightarrow>
        (case deframe st1 bs of (es, st2) \<Rightarrow> (ds @ es, st2)))"

fun residue :: "frame_state \<Rightarrow> byte list" where
  "residue Idle = []"
| "residue (Inside acc) = frame_head # acc"

lemma deframe_append:
  "deframe st (xs @ ys) =
     (case deframe st xs of (ds, st1) \<Rightarrow> (case deframe st1 ys of (es, st2) \<Rightarrow> (ds @ es, st2)))"
  by (induction xs arbitrary: st) (auto split: prod.splits)

lemma deframe_idle_skip: "frame_head \<notin> set xs \<Longrightarrow> deframe Idle xs = ([], Idle)"
  by (induction xs) auto

lemma deframe_inside: "frame_tail \<notin> set xs \<Longrightarrow> deframe (Inside acc) xs = ([], Inside (acc @ xs))"
  by (induction xs arbitrary: acc) auto

lemma deframe_frame:
  assumes "frame_head \<notin> set noise" and "frame_tail \<notin> set d"
  shows "deframe Idle (noise @ frame_head # d @ frame_tail # rest) =
    (case deframe Idle rest of (ds, st) \<Rightarrow> (d # ds, st))"
  using assms by (simp add: deframe_append deframe_idle_skip deframe_inside split: prod.splits)

lemma frame_delims_distinct: "frame_head \<noteq> frame_tail"
  by (simp add: frame_head_def frame_tail_def)

text \<open>The three outcomes of a round, as splits of the buffer.\<close>

lemma next_frame_cases:
  obtains (none) "frame_head \<notin> set buffer" "next_frame buffer = (None, [])"
  | (partial) noise d where "buffer = noise @ frame_head # d" "frame_head \<notin> set noise"
      "frame_tail \<notin> set d" "next_frame buffer = (None, frame_head # d)"
  | (complete) noise d rest where "buffer = noise @ frame_head # d @ frame_tail # rest"
      "frame_head \<notin> set noise" "frame_tail \<notin> set d" "next_frame buffer = (Some d, rest)"
proof (cases "find_char frame_head buffer")
  case None
  then show ?thesis
    by (intro none) (simp_all add: next_frame_def find_from_def find_char_None_iff [symmetric])
next
  case (Some h)
  then obtain noise rest where b: "buffer = noise @ frame_head # rest" "frame_head \<notin> set noise"
    "length noise = h" by (rule find_char_split)
  then have cut: "find_from frame_head 0 buffer = Some h"
    "(if h > 0 then drop h buffer else buffer) = frame_head # rest"
    using Some by (auto simp: find_from_def)
  show ?thesis
  proof (cases "find_char frame_tail rest")
    case None
    then have "next_frame buffer = (None, frame_head # rest)"
      using cut by (simp add: next_frame_def Let_def) (simp add: find_from_def)
    then show ?thesis using b None by (intro partial [of noise rest]) (auto simp: find_char_None_iff)
  next
    case (Some t)
    then obtain d more where d: "rest = d @ frame_tail # more" "frame_tail \<notin> set d" "length d = t"
      by (rule find_char_split)
    have "next_frame buffer = (Some d, more)"
      using cut Some d by (simp add: next_frame_def Let_def) (simp add: find_from_def)
    then show ?thesis using b d by (intro complete [of noise d more]) auto
  qed
qed

lemma process_loop_deframe:
  "process_loop buffer = (case deframe Idle buffer of (ds, st) \<Rightarrow> (ds, residue st))"
proof (induction buffer rule: process_loop.induct)
  case (1 buffer)
  show ?case
  proof (cases rule: next_frame_cases [of buffer])
    case none
    then show ?thesis by (subst process_loop.simps) (simp add: deframe_idle_skip)
  next
    case (partial noise d)
    then have "deframe Idle buffer = ([], Inside d)"
      by (simp add: deframe_append deframe_idle_skip deframe_inside)
    then show ?thesis using partial(4) by (subst process_loop.simps) simp
  next
    case (complete noise d rest)
    then have "process_loop rest = (case deframe Idle rest of (ds, st) \<Rightarrow> (ds, residue st))"
      by (intro "1.IH") auto
    then show ?thesis
      using complete by (subst process_loop.simps) (simp add: deframe_frame split: prod.splits)
  qed
qed

lemma deframe_residue: "deframe Idle (residue st @ xs) = deframe st xs" if "frame_tail \<notin> set (residue st)"
  using that by (cases st) (auto simp: deframe_append deframe_inside split: prod.splits)

lemma deframe_residue_tail:
  "frame_tail \<notin> set (residue st) \<Longrightarrow> deframe st xs = (ds, st') \<Longrightarrow> frame_tail \<notin> set (residue st')"
proof (induction xs arbitrary: st ds)
  case Nil
  then show ?case by simp
next
  case (Cons x xs)
  have "frame_tail \<notin> set (residue (snd (deframe_byte st x)))"
    using Cons.prems(1) frame_delims_distinct by (cases st) auto
  then show ?case using Cons by (auto split: prod.splits)
qed

subsection \<open>Properties of the framing\<close>

lemma process_loop_append:
  "process_loop (xs @ ys) =
     (case process_loop xs of (ds, rest) \<Rightarrow>
        (case process_loop (rest @ ys) of (es, left) \<Rightarrow> (ds @ es, left)))"
proof -
  obtain ds st where d: "deframe Idle xs = (ds, st)" by fastforce
  have "frame_tail \<notin> set (residue st)" by (rule deframe_residue_tail [OF _ d]) simp
  then have "process_loop (residue st @ ys) = (case deframe st ys of (es, st') \<Rightarrow> (es, residue st'))"
    by (simp add: process_loop_deframe deframe_residue)
  then show ?thesis
    using d by (simp add: process_loop_deframe [of "xs @ ys"] process_loop_deframe [of xs]
        deframe_append split: prod.splits)
qed

interpretation framing: stream_scanner process_loop
  by unfold_locales (simp add: process_loop_deframe, rule process_loop_append)

text \<open>
  C4. Half packets: the frames passed to the callback do not depend on how the network cuts the
  stream into reads. Feeding any sequence of chunks delivers the frames, and leaves the buffer,
  that one scan of the whole stream does.
\<close>

theorem framing_chunk_independent:
  "scan_chunks process_loop [] cs = process_loop (concat cs)"
  by (rule framing.chunks_all)

text \<open>
  C19. Round trip of the frame format: a stream of frames, each preceded by noise without the
  head byte, whose payloads do not contain the tail byte, is delivered as exactly those payloads
  in order with nothing left over.
\<close>

theorem framing_roundtrip:
  assumes "\<forall>(noise, d) \<in> set fs. frame_head \<notin> set noise \<and> frame_tail \<notin> set d"
  shows "process_loop (concat (map (\<lambda>(noise, d). noise @ [frame_head] @ d @ [frame_tail]) fs)) =
         (map snd fs, [])"
proof -
  have "deframe Idle (concat (map (\<lambda>(noise, d). noise @ [frame_head] @ d @ [frame_tail]) fs)) =
        (map snd fs, Idle)"
    using assms
  proof (induction fs)
    case Nil
    show ?case by simp
  next
    case (Cons f fs)
    then show ?case by (cases f) (simp add: deframe_frame)
  qed
  then show ?thesis by (simp add: process_loop_deframe)
qed

lemma framing_roundtrip_witness:
  "process_loop (concat (map (\<lambda>(noise, d). noise @ [frame_head] @ d @ [frame_tail])
      [([1, 0xFF], [2, 0xAA, 3]), ([], [])])) = ([[2, 0xAA, 3], []], [])"
proof -
  let ?fs = "[([1, 0xFF], [2, 0xAA, 3]), ([], [])] :: (byte list \<times> byte list) list"
  have "\<forall>(noise, d) \<in> set ?fs. frame_head \<notin> set noise \<and> frame_tail \<notin> set d"
    by (simp add: frame_head_def frame_tail_def)
  from framing_roundtrip [OF this] show ?thesis by (simp only: list.map snd_conv)
qed

text \<open>
  What the loop leaves in the buffer is empty or an unfinished frame: it starts with the head
  byte and contains no tail byte, so no delivered byte is scanned again and nothing complete
  waits for more input.
\<close>

theorem framing_residue:
  "snd (process_loop buffer) = [] \<or>
   (\<exists>d. snd (process_loop buffer) = frame_head # d \<and> frame_tail \<notin> set d)"
proof -
  obtain ds st where d: "deframe Idle buffer = (ds, st)" by fastforce
  have "frame_tail \<notin> set (residue st)" by (rule deframe_residue_tail [OF _ d]) simp
  then show ?thesis using d by (cases st) (simp_all add: process_loop_deframe)
qed

end
