(* ===== verification/Tcp_Server.thy ===== *)
theory Tcp_Server
  imports Framing
begin

section \<open>The TCP receiver: \<open>TcpServer\<close> in \<open>src/core/trapper/tcp_server.cpp\<close>\<close>

text \<open>
  The epoll loop, the accept and read handlers and the connection table. The record holds the
  members of the class and, after them, what the kernel and the callback know: which descriptors
  are open, non-blocking and registered with epoll, and the messages handed to the callback.
  The results of system calls are inputs: each handler takes the list of results its loop will
  see, and returns \<open>None\<close> when the list ends before the loop does. An exception that no code
  of the program catches is an \<open>Inl\<close>.
\<close>

datatype errno = EAGAIN | EWOULDBLOCK | EINTR | Errno int

datatype cpp_exception = LengthError

record tcp_server =
  port :: int
  listen_fd :: int
  epfd :: int
  message_cb :: bool
  recv_buffers :: "int \<rightharpoonup> byte list"
  send_buffers :: "int \<rightharpoonup> byte list"
  open_fds :: "int set"
  nonblock_fds :: "int set"
  ep_set :: "int set"
  delivered :: "(int \<times> byte list) list"

definition TcpServer :: "int \<Rightarrow> tcp_server" where
  "TcpServer p = \<lparr>port = p, listen_fd = -1, epfd = -1, message_cb = False,
     recv_buffers = Map.empty, send_buffers = Map.empty, open_fds = {}, nonblock_fds = {},
     ep_set = {}, delivered = []\<rparr>"

definition setMessageCallback :: "tcp_server \<Rightarrow> tcp_server" where
  "setMessageCallback s = s\<lparr>message_cb := True\<rparr>"

definition TcpServer_destroy :: "tcp_server \<Rightarrow> tcp_server" where
  "TcpServer_destroy s =
     (let s1 = (if listen_fd s \<ge> 0 then s\<lparr>open_fds := open_fds s - {listen_fd s}\<rparr> else s)
      in if epfd s1 \<ge> 0 then s1\<lparr>open_fds := open_fds s1 - {epfd s1}\<rparr> else s1)"

text \<open>
  The results of \<open>fcntl\<close> and of \<open>epoll_ctl\<close> are not looked at: \<open>done\<close> is whether the call did what was
  asked, and nothing follows from a failure.
\<close>

definition setNonBlocking :: "bool \<Rightarrow> int \<Rightarrow> tcp_server \<Rightarrow> tcp_server" where
  "setNonBlocking done fd s = (if done then s\<lparr>nonblock_fds := insert fd (nonblock_fds s)\<rparr> else s)"

definition epoll_add :: "bool \<Rightarrow> int \<Rightarrow> tcp_server \<Rightarrow> tcp_server" where
  "epoll_add done fd s = (if done then s\<lparr>ep_set := insert fd (ep_set s)\<rparr> else s)"

text \<open>
  The return values of \<open>socket\<close>, \<open>bind\<close>, \<open>listen\<close> and \<open>epoll_create1\<close>, and whether \<open>fcntl\<close> and
  \<open>epoll_ctl\<close> succeed.
\<close>

record init_calls =
  r_socket :: int
  r_bind :: int
  r_listen :: int
  r_fcntl :: bool
  r_epoll_create1 :: int
  r_epoll_ctl :: bool

definition init :: "init_calls \<Rightarrow> tcp_server \<Rightarrow> bool \<times> tcp_server" where
  "init r s =
     (let s1 = s\<lparr>listen_fd := r_socket r\<rparr> in
      if listen_fd s1 < 0 then (False, s1)
      else let s2 = s1\<lparr>open_fds := insert (listen_fd s1) (open_fds s1)\<rparr> in
      if r_bind r < 0 then (False, s2)
      else if r_listen r < 0 then (False, s2)
      else let s3 = (setNonBlocking (r_fcntl r) (listen_fd s2) s2)\<lparr>epfd := r_epoll_create1 r\<rparr> in
      if epfd s3 < 0 then (False, s3)
      else (True, epoll_add (r_epoll_ctl r) (listen_fd s3) (s3\<lparr>open_fds := insert (epfd s3) (open_fds s3)\<rparr>)))"

subsection \<open>Accepting\<close>

text \<open>An accepted descriptor comes with the outcomes of \<open>fcntl\<close> and \<open>epoll_ctl\<close> on it.\<close>

datatype accept_result = Accepted int bool bool | AcceptFailed errno

definition accept_one :: "int \<Rightarrow> bool \<Rightarrow> bool \<Rightarrow> tcp_server \<Rightarrow> tcp_server" where
  "accept_one conn_fd unblocked registered s =
     (let s1 = setNonBlocking unblocked conn_fd (s\<lparr>open_fds := insert conn_fd (open_fds s)\<rparr>);
          s2 = epoll_add registered conn_fd s1
      in s2\<lparr>recv_buffers := (recv_buffers s2)(conn_fd \<mapsto> [])\<rparr>)"

fun handleAccept :: "accept_result list \<Rightarrow> tcp_server \<Rightarrow> tcp_server option" where
  "handleAccept [] s = None"
| "handleAccept (AcceptFailed e # rs) s = Some s"
| "handleAccept (Accepted conn_fd unblocked registered # rs) s =
     handleAccept rs (accept_one conn_fd unblocked registered s)"

subsection \<open>Reading\<close>

definition closeConnection :: "int \<Rightarrow> tcp_server \<Rightarrow> tcp_server" where
  "closeConnection fd s =
     s\<lparr>ep_set := ep_set s - {fd}, open_fds := open_fds s - {fd},
       recv_buffers := (recv_buffers s)(fd := None)\<rparr>"

text \<open>\<open>recv_buffers_[fd]\<close> creates an empty buffer where there is none.\<close>

definition buffer_of :: "int \<Rightarrow> tcp_server \<Rightarrow> byte list" where
  "buffer_of fd s = (case recv_buffers s fd of None \<Rightarrow> [] | Some b \<Rightarrow> b)"

definition processBuffer :: "int \<Rightarrow> tcp_server \<Rightarrow> tcp_server" where
  "processBuffer fd s =
     (case process_loop (buffer_of fd s) of (ds, rest) \<Rightarrow>
        s\<lparr>recv_buffers := (recv_buffers s)(fd \<mapsto> rest),
          delivered := delivered s @ (if message_cb s then map (Pair fd) ds else [])\<rparr>)"

text \<open>
  \<open>read\<close> returns an \<open>ssize_t\<close>; the code stores it in a \<open>size_t\<close>, so a failure is the largest
  64-bit value. \<open>string_append\<close> is \<open>std::string::append(const char*, size_t)\<close>, which throws
  \<open>std::length_error\<close> when the result would pass \<open>max_size()\<close>, here that of a 64-bit libstdc++.
\<close>

datatype read_result = ReadBytes "byte list" | ReadFailed errno

fun read_ret :: "read_result \<Rightarrow> u64" where
  "read_ret (ReadBytes bs) = of_nat (length bs)"
| "read_ret (ReadFailed e) = - 1"

fun read_buf :: "read_result \<Rightarrow> byte list" where
  "read_buf (ReadBytes bs) = bs"
| "read_buf (ReadFailed e) = []"

fun read_errno :: "read_result \<Rightarrow> errno" where
  "read_errno (ReadBytes bs) = Errno 0"
| "read_errno (ReadFailed e) = e"

definition string_max_size :: nat where
  "string_max_size = 2 ^ 63 - 1"

definition string_append :: "byte list \<Rightarrow> byte list \<Rightarrow> u64 \<Rightarrow> cpp_exception + byte list" where
  "string_append str buf n =
     (if string_max_size - length str < unat n then Inl LengthError
      else Inr (str @ take (unat n) buf))"

text \<open>An exception leaves with the state in which it was thrown.\<close>

fun read_loop ::
  "int \<Rightarrow> read_result list \<Rightarrow> tcp_server \<Rightarrow> (cpp_exception \<times> tcp_server + u64 \<times> errno \<times> tcp_server) option"
where
  "read_loop fd [] s = None"
| "read_loop fd (r # rs) s =
     (let n = read_ret r in
      if n > 0
      then (case string_append (buffer_of fd s) (read_buf r) n of
              Inl e \<Rightarrow> Some (Inl (e, s))
            | Inr b \<Rightarrow> read_loop fd rs (s\<lparr>recv_buffers := (recv_buffers s)(fd \<mapsto> b)\<rparr>))
      else Some (Inr (n, read_errno r, s)))"

definition handleRead ::
  "int \<Rightarrow> read_result list \<Rightarrow> tcp_server \<Rightarrow> (cpp_exception \<times> tcp_server + tcp_server) option" where
  "handleRead fd rs s =
     (case read_loop fd rs s of
        None \<Rightarrow> None
      | Some (Inl e) \<Rightarrow> Some (Inl e)
      | Some (Inr (n, err, s1)) \<Rightarrow>
          Some (Inr (if n < 0
                     then if err = EAGAIN \<or> err = EWOULDBLOCK then s1 else closeConnection fd s1
                     else if n = 0 then closeConnection fd s1
                     else processBuffer fd s1)))"

subsection \<open>The event loop\<close>

type_synonym tcp_event = "int \<times> accept_result list \<times> read_result list"

datatype wait_result = Events "tcp_event list" | WaitFailed errno

definition handle_event :: "tcp_event \<Rightarrow> tcp_server \<Rightarrow> (cpp_exception \<times> tcp_server + tcp_server) option" where
  "handle_event ev s =
     (case ev of (fd, accepts, reads) \<Rightarrow>
        if fd = listen_fd s then map_option Inr (handleAccept accepts s)
        else handleRead fd reads s)"

fun handle_events :: "tcp_event list \<Rightarrow> tcp_server \<Rightarrow> (cpp_exception \<times> tcp_server + tcp_server) option" where
  "handle_events [] s = Some (Inr s)"
| "handle_events (ev # evs) s =
     (case handle_event ev s of
        None \<Rightarrow> None
      | Some (Inl e) \<Rightarrow> Some (Inl e)
      | Some (Inr s1) \<Rightarrow> handle_events evs s1)"

datatype run_state = Looping tcp_server | Returned tcp_server | Uncaught cpp_exception tcp_server

fun run_loop :: "wait_result list \<Rightarrow> tcp_server \<Rightarrow> run_state option" where
  "run_loop [] s = Some (Looping s)"
| "run_loop (WaitFailed e # ws) s = (if e = EINTR then run_loop ws s else Some (Returned s))"
| "run_loop (Events evs # ws) s =
     (case handle_events evs s of
        None \<Rightarrow> None
      | Some (Inl (e, s1)) \<Rightarrow> Some (Uncaught e s1)
      | Some (Inr s1) \<Rightarrow> run_loop ws s1)"

definition run :: "init_calls \<Rightarrow> wait_result list \<Rightarrow> tcp_server \<Rightarrow> run_state option" where
  "run r ws s =
     (case init r s of (ok, s1) \<Rightarrow> if \<not> ok then Some (Returned s1) else run_loop ws s1)"

subsection \<open>What the read handler can do\<close>

lemma read_loop_ends_at_zero:
  "read_loop fd rs s = Some (Inr (n, err, s')) \<Longrightarrow>
     n = 0 \<and> (\<exists>b. s' = s\<lparr>recv_buffers := b\<rparr> \<and> dom b \<subseteq> insert fd (dom (recv_buffers s)) \<and>
       dom (recv_buffers s) \<subseteq> insert fd (dom b))"
proof (induction rs arbitrary: s)
  case Nil
  then show ?case by simp
next
  case (Cons r rs)
  show ?case
  proof (cases "read_ret r > 0")
    case True
    then show ?thesis using Cons by (fastforce simp: Let_def split: sum.splits)
  next
    case False
    then have "s' = s" and "n = 0" using Cons.prems by (auto simp: word_gt_0 split: if_splits)
    then show ?thesis by (intro conjI exI [of _ "recv_buffers s"]) auto
  qed
qed

lemma read_loop_throws:
  "read_loop fd rs s = Some (Inl (e, s')) \<Longrightarrow> delivered s' = delivered s"
  by (induction rs arbitrary: s) (auto simp: Let_def split: if_splits sum.splits)

lemma handleRead_cases:
  assumes "handleRead fd rs s = Some r"
  obtains (threw) e s1 where "r = Inl (e, s1)" "delivered s1 = delivered s"
  | (closed) b where "r = Inr (closeConnection fd (s\<lparr>recv_buffers := b\<rparr>))"
      "dom b \<subseteq> insert fd (dom (recv_buffers s))"
  using assms read_loop_ends_at_zero [of fd rs s] read_loop_throws [of fd rs s]
  by (fastforce simp: handleRead_def split: option.splits sum.splits prod.splits)

lemma handleAccept_delivered: "handleAccept rs s = Some s' \<Longrightarrow> delivered s' = delivered s"
  by (induction rs s rule: handleAccept.induct)
    (auto simp: accept_one_def Let_def setNonBlocking_def epoll_add_def split: if_splits)

text \<open>The state that a handler leaves, by returning or by throwing.\<close>

fun left_state :: "cpp_exception \<times> tcp_server + tcp_server \<Rightarrow> tcp_server" where
  "left_state (Inl (e, s)) = s"
| "left_state (Inr s) = s"

lemma handle_event_delivered:
  assumes "handle_event ev s = Some r"
  shows "delivered (left_state r) = delivered s"
proof -
  obtain fd accepts reads where ev: "ev = (fd, accepts, reads)"
    by (cases ev) auto
  show ?thesis
  proof (cases "fd = listen_fd s")
    case True
    then show ?thesis
      using assms handleAccept_delivered by (auto simp: handle_event_def ev)
  next
    case False
    then have "handleRead fd reads s = Some r"
      using assms by (simp add: handle_event_def ev)
    then show ?thesis
      by (cases rule: handleRead_cases) (simp_all add: closeConnection_def)
  qed
qed

lemma handle_events_delivered:
  "handle_events evs s = Some r \<Longrightarrow> delivered (left_state r) = delivered s"
proof (induction evs arbitrary: s)
  case (Cons ev evs)
  then obtain r1 where r1: "handle_event ev s = Some r1"
    by (auto split: option.splits)
  show ?case
  proof (cases r1)
    case (Inl x)
    then show ?thesis
      using Cons.prems r1 handle_event_delivered [OF r1] by simp
  next
    case (Inr s1)
    then show ?thesis
      using Cons.prems Cons.IH [of s1] r1 handle_event_delivered [OF r1] by simp
  qed
qed auto

fun run_server :: "run_state \<Rightarrow> tcp_server" where
  "run_server (Looping s) = s"
| "run_server (Returned s) = s"
| "run_server (Uncaught e s) = s"

text \<open>
  C24. The receiver never delivers a message: whatever connections, data, errors and interruptions
  the kernel reports, the callback has not been invoked, be the loop still running, returned or
  left by an exception, because the read handler's loop leaves only at end of stream, when the
  connection is closed instead of processed, or by throwing.
\<close>

theorem run_loop_never_delivers:
  assumes "run_loop ws s = Some r"
  shows "delivered (run_server r) = delivered s"
  using assms
proof (induction ws s rule: run_loop.induct)
  case (3 evs ws s)
  then obtain x where x: "handle_events evs s = Some x"
    by (auto split: option.splits)
  show ?case
  proof (cases x)
    case (Inl y)
    then show ?thesis
      using "3.prems" x handle_events_delivered [OF x] by (cases y) auto
  next
    case (Inr s1)
    then show ?thesis
      using "3.prems" "3.IH" [of x s1] x handle_events_delivered [OF x] by simp
  qed
qed (auto split: if_splits)

definition demo_server :: tcp_server where
  "demo_server = snd (init \<lparr>r_socket = 3, r_bind = 0, r_listen = 0, r_fcntl = True, r_epoll_create1 = 4, r_epoll_ctl = True\<rparr>
     (setMessageCallback (TcpServer 21210)))"

definition demo_waits :: "wait_result list" where
  "demo_waits = [WaitFailed EINTR, Events [(3, [Accepted 5 True True, AcceptFailed EAGAIN], [])],
     Events [(5, [], [ReadBytes [0xAA, 1, 0xFF], ReadBytes []])]]"

lemmas tcp_eval = demo_server_def init_def setMessageCallback_def TcpServer_def Let_def
  setNonBlocking_def epoll_add_def accept_one_def handle_event_def handleRead_def closeConnection_def string_append_def
  string_max_size_def buffer_of_def

lemma run_loop_never_delivers_witness:
  "\<exists>s'. run_loop demo_waits demo_server = Some (Looping s') \<and> delivered s' = [] \<and>
     message_cb s' \<and> ep_set s' = {3}"
proof -
  obtain s' where run: "run_loop demo_waits demo_server = Some (Looping s')"
    and s': "message_cb s'" "ep_set s' = {3}"
    by (simp add: demo_waits_def tcp_eval)
  have "delivered demo_server = []" by (simp add: tcp_eval)
  with run s' run_loop_never_delivers [OF run] show ?thesis by simp
qed

text \<open>
  Any read error, the ordinary end of a non-blocking read (\<open>EAGAIN\<close>) included, ends the
  read handler with an exception: after any number of full or partial reads the \<open>-1\<close> stored in
  a \<open>size_t\<close> is taken for data, and appending it throws \<open>std::length_error\<close>.
\<close>

theorem handleRead_throws_on_error:
  assumes "\<forall>c \<in> set cs. c \<noteq> [] \<and> length c \<le> 1024"
  shows "\<exists>s'. handleRead fd (map ReadBytes cs @ ReadFailed e # rs) s = Some (Inl (LengthError, s'))"
proof -
  have "\<exists>s'. read_loop fd (map ReadBytes cs @ ReadFailed e # rs) s = Some (Inl (LengthError, s'))"
    using assms
  proof (induction cs arbitrary: s)
    case Nil
    have "unat (- 1 :: u64) = 2 ^ 64 - 1" by (simp add: unsigned_minus_1_eq_mask mask_eq_exp_minus_1)
    then have "string_append str b (- 1) = Inl LengthError" for str b
      by (simp add: string_append_def string_max_size_def)
    then show ?case by (simp add: word_gt_0)
  next
    case (Cons c cs)
    have "c \<noteq> []" and c: "length c \<le> 1024" using Cons.prems by auto
    have "unat (of_nat (length c) :: u64) = length c"
      using c by (simp add: unat_of_nat)
    then have n: "(of_nat (length c) :: u64) > 0"
      using \<open>c \<noteq> []\<close> by (metis length_0_conv unat_0 word_gt_0)
    show ?case
    proof (cases "string_append (buffer_of fd s) c (of_nat (length c))")
      case (Inl x)
      then show ?thesis using n by (cases x) (simp add: Let_def)
    next
      case (Inr b)
      then show ?thesis using n Cons by (simp add: Let_def)
    qed
  qed
  then show ?thesis by (auto simp: handleRead_def)
qed

lemma handleRead_throws_witness:
  "\<exists>s'. handleRead 5 (map ReadBytes [[0xAA, 1, 0xFF]] @ ReadFailed EAGAIN # []) demo_server =
     Some (Inl (LengthError, s'))"
  by (rule handleRead_throws_on_error) simp

subsection \<open>The connection table\<close>

fun fresh_accepts :: "int set \<Rightarrow> accept_result list \<Rightarrow> bool" where
  "fresh_accepts fds (Accepted fd unblocked registered # rs) \<longleftrightarrow>
     fd \<notin> fds \<and> unblocked \<and> registered \<and> fresh_accepts (insert fd fds) rs"
| "fresh_accepts fds rs \<longleftrightarrow> True"

text \<open>
  The states the server passes through, one handler at a time, as long as \<open>fcntl\<close> and \<open>epoll_ctl\<close>
  succeed. The kernel hands out only descriptors that are not open and reports events only for
  registered descriptors.
\<close>

inductive tcp_step :: "tcp_server \<Rightarrow> tcp_server \<Rightarrow> bool" where
  accept: "fresh_accepts (open_fds s) rs \<Longrightarrow> handleAccept rs s = Some s' \<Longrightarrow> tcp_step s s'"
| read: "fd \<in> ep_set s \<Longrightarrow> fd \<noteq> listen_fd s \<Longrightarrow> handleRead fd rs s = Some (Inr s') \<Longrightarrow> tcp_step s s'"

inductive tcp_reachable :: "tcp_server \<Rightarrow> bool" where
  start: "r_fcntl r \<Longrightarrow> r_epoll_ctl r \<Longrightarrow> init r (TcpServer p) = (True, s) \<Longrightarrow> tcp_reachable s"
| cb: "tcp_reachable s \<Longrightarrow> tcp_reachable (setMessageCallback s)"
| step: "tcp_reachable s \<Longrightarrow> tcp_step s s' \<Longrightarrow> tcp_reachable s'"

definition tcp_inv :: "tcp_server \<Rightarrow> bool" where
  "tcp_inv s \<longleftrightarrow> listen_fd s \<in> ep_set s \<and> dom (recv_buffers s) = ep_set s - {listen_fd s} \<and>
     ep_set s \<subseteq> open_fds s \<and> ep_set s \<subseteq> nonblock_fds s"

lemma accept_one_inv:
  "tcp_inv s \<Longrightarrow> fd \<notin> open_fds s \<Longrightarrow> tcp_inv (accept_one fd True True s)"
  by (auto simp: tcp_inv_def accept_one_def Let_def setNonBlocking_def epoll_add_def)

lemma open_fds_accept_one [simp]: "open_fds (accept_one fd u g s) = insert fd (open_fds s)"
  by (simp add: accept_one_def Let_def setNonBlocking_def epoll_add_def)

lemma handleAccept_inv:
  "handleAccept rs s = Some s' \<Longrightarrow> fresh_accepts (open_fds s) rs \<Longrightarrow> tcp_inv s \<Longrightarrow> tcp_inv s'"
  by (induction rs s rule: handleAccept.induct) (simp_all add: accept_one_inv)

lemma closeConnection_inv:
  assumes "tcp_inv s" and "fd \<noteq> listen_fd s"
    and "dom b \<subseteq> insert fd (dom (recv_buffers s))" and "dom (recv_buffers s) \<subseteq> insert fd (dom b)"
  shows "tcp_inv (closeConnection fd (s\<lparr>recv_buffers := b\<rparr>))"
proof -
  have "dom b - {fd} = dom (recv_buffers s) - {fd}" using assms(3,4) by blast
  then show ?thesis
    using assms(1,2) by (auto simp: tcp_inv_def closeConnection_def)
qed

lemma handleRead_inv:
  assumes "handleRead fd rs s = Some (Inr s')" and "fd \<noteq> listen_fd s" and "tcp_inv s"
  shows "tcp_inv s'"
  using assms read_loop_ends_at_zero [of fd rs s]
  by (fastforce simp: handleRead_def split: option.splits sum.splits prod.splits
      intro: closeConnection_inv)

lemma tcp_step_inv: "tcp_step s s' \<Longrightarrow> tcp_inv s \<Longrightarrow> tcp_inv s'"
  by (induction rule: tcp_step.induct) (auto intro: handleAccept_inv handleRead_inv)

text \<open>
  C36. As long as \<open>fcntl\<close> and \<open>epoll_ctl\<close>, whose results the code ignores, succeed on the accepted
  connections: in every reachable state the receive buffers are exactly those of the registered
  connections, the listening socket is registered, and everything registered is open and
  non-blocking: no buffer outlives its connection and no connection lacks its buffer.
\<close>

theorem tcp_connection_table:
  assumes "tcp_reachable s"
  shows "tcp_inv s"
  using assms
proof (induction rule: tcp_reachable.induct)
  case (start r p s)
  then show ?case
    by (auto simp: init_def TcpServer_def Let_def setNonBlocking_def epoll_add_def tcp_inv_def split: if_splits)
next
  case (cb s)
  then show ?case by (simp add: setMessageCallback_def tcp_inv_def)
next
  case (step s s')
  then show ?case by (blast intro: tcp_step_inv)
qed

lemma tcp_connection_table_witness:
  "\<exists>s. tcp_reachable s \<and> tcp_inv s \<and> recv_buffers s = [5 \<mapsto> []]"
proof -
  let ?r = "\<lparr>r_socket = 3, r_bind = 0, r_listen = 0, r_fcntl = True, r_epoll_create1 = 4, r_epoll_ctl = True\<rparr>"
  let ?s = "snd (init ?r (TcpServer 21210))"
  have "tcp_reachable ?s"
    by (rule tcp_reachable.start [where r = ?r and p = 21210])
      (simp_all add: init_def Let_def TcpServer_def setNonBlocking_def epoll_add_def)
  moreover have "tcp_step ?s (accept_one 5 True True ?s)"
    by (rule tcp_step.accept [where rs = "[Accepted 5 True True, AcceptFailed EAGAIN]"])
      (simp_all add: init_def Let_def TcpServer_def setNonBlocking_def epoll_add_def)
  ultimately have r: "tcp_reachable (accept_one 5 True True ?s)" by (rule tcp_reachable.step)
  have "recv_buffers (accept_one 5 True True ?s) = [5 \<mapsto> []]"
    by (simp add: accept_one_def init_def Let_def TcpServer_def setNonBlocking_def epoll_add_def)
  with r tcp_connection_table [OF r] show ?thesis by blast
qed

subsection \<open>Processing several connections\<close>

text \<open>
  \<open>receive\<close> is what the handlers are written to do with one read: append it to the buffer of its
  connection and run \<open>processBuffer\<close>.
\<close>

definition receive :: "int \<times> byte list \<Rightarrow> tcp_server \<Rightarrow> tcp_server" where
  "receive x s =
     (case x of (fd, c) \<Rightarrow>
        processBuffer fd (s\<lparr>recv_buffers := (recv_buffers s)(fd \<mapsto> buffer_of fd s @ c)\<rparr>))"

lemma receive_other:
  "fst x \<noteq> fd \<Longrightarrow> buffer_of fd (receive x s) = buffer_of fd s \<and>
     [d \<leftarrow> delivered (receive x s). fst d = fd] = [d \<leftarrow> delivered s. fst d = fd]"
  by (auto simp: receive_def processBuffer_def buffer_of_def split: prod.splits)

lemma receive_same:
  assumes "message_cb s" and "process_loop (buffer_of fd s @ c) = (ds, rest)"
  shows "buffer_of fd (receive (fd, c) s) = rest \<and>
    [d \<leftarrow> delivered (receive (fd, c) s). fst d = fd] = [d \<leftarrow> delivered s. fst d = fd] @ map (Pair fd) ds"
proof -
  have "buffer_of fd (s\<lparr>recv_buffers := (recv_buffers s)(fd \<mapsto> b)\<rparr>) = b" for b
    by (simp add: buffer_of_def)
  moreover have "[d \<leftarrow> map (Pair fd) ds. fst d = fd] = map (Pair fd) ds"
    by (simp add: filter_id_conv)
  ultimately show ?thesis
    using assms by (simp add: receive_def processBuffer_def) (simp add: buffer_of_def)
qed

lemma message_cb_receive [simp]: "message_cb (receive x s) = message_cb s"
  by (auto simp: receive_def processBuffer_def split: prod.splits)

lemma receive_stream:
  assumes "message_cb s"
  shows "(let s' = fold receive xs s;
              r = scan_chunks process_loop (buffer_of fd s) [c. (f, c) \<leftarrow> xs, f = fd]
          in [d \<leftarrow> delivered s'. fst d = fd] = [d \<leftarrow> delivered s. fst d = fd] @ map (Pair fd) (fst r) \<and>
             buffer_of fd s' = snd r)"
  using assms
proof (induction xs arbitrary: s)
  case Nil
  then show ?case by simp
next
  case (Cons x xs)
  obtain f c where x: "x = (f, c)" by fastforce
  have IH: "let s' = fold receive xs (receive x s);
              r = scan_chunks process_loop (buffer_of fd (receive x s)) [c. (f, c) \<leftarrow> xs, f = fd]
          in [d \<leftarrow> delivered s'. fst d = fd] =
               [d \<leftarrow> delivered (receive x s). fst d = fd] @ map (Pair fd) (fst r) \<and>
             buffer_of fd s' = snd r"
    by (rule Cons.IH) (simp add: Cons.prems)
  show ?case
  proof (cases "f = fd")
    case False
    then show ?thesis using IH receive_other [of x fd s] by (simp add: x Let_def)
  next
    case True
    obtain ds rest where p: "process_loop (buffer_of fd s @ c) = (ds, rest)" by fastforce
    from IH receive_same [OF Cons.prems p] show ?thesis
      by (simp add: x True Let_def p split: prod.splits)
  qed
qed

text \<open>
  Connections do not disturb each other: when reads of any number of connections are
  processed in any interleaving, the messages delivered for one connection are exactly the
  frames of the concatenation of its own reads, in order, and its buffer holds what that stream
  leaves unfinished.
\<close>

theorem connections_independent:
  assumes "message_cb s" and "recv_buffers s fd = Some []" and "fd \<notin> fst ` set (delivered s)"
  shows "(let s' = fold receive xs s;
              r = process_loop (concat [c. (f, c) \<leftarrow> xs, f = fd])
          in [d \<leftarrow> delivered s'. fst d = fd] = map (Pair fd) (fst r) \<and> buffer_of fd s' = snd r)"
proof -
  have "buffer_of fd s = []" using assms(2) by (simp add: buffer_of_def)
  moreover have "[d \<leftarrow> delivered s. fst d = fd] = []"
    using assms(3) by (auto simp: filter_empty_conv)
  ultimately show ?thesis
    using receive_stream [OF assms(1), of xs fd] by (simp add: framing.chunks_all Let_def)
qed

definition demo_reads :: "(int \<times> byte list) list" where
  "demo_reads = [(5, [0xAA, 1]), (6, [0xAA, 9]), (5, [0xFF]), (6, [0xFF])]"

lemma connections_independent_witness:
  "(let s' = fold receive demo_reads (accept_one 6 True True (accept_one 5 True True demo_server));
        r = process_loop (concat [c. (f, c) \<leftarrow> demo_reads, f = 5])
    in [d \<leftarrow> delivered s'. fst d = 5] = map (Pair 5) (fst r) \<and> buffer_of 5 s' = snd r)"
  by (rule connections_independent) (simp_all add: tcp_eval)

end
