(* ===== verification/Sender.thy ===== *)
theory Sender
  imports Byte_Order "HOL-Library.Multiset" "HOL-Library.Sublist"
begin

section \<open>The reporting client: \<open>Sender\<close> in \<open>src/sender/sender.cpp\<close>, \<open>include/sender/sender.h\<close>\<close>

text \<open>
  A bounded queue of JSON values filled by the callers of \<open>enqueue\<close> and emptied in batches by a
  worker thread that connects, sends, and puts a batch back when the network fails. The JSON
  values are a type variable and \<open>dump\<close>, the serialisation of a batch by the JSON library, is
  a parameter that returns: that it throws on strings that are not UTF-8, which ends the
  program, is the subject of \<open>Sender_Json\<close>. The results of the socket calls and the readings of the clock are inputs.

  The record holds the members of the class and, after them, the worker's position with the
  batch it has taken out of the queue and the history that the properties speak of: every value
  enqueued, dropped and sent, and the sockets that are open.
\<close>

record options =
  batchSize :: nat
  flushIntervalMs :: int
  maxQueueSize :: nat
  maxBackoffMs :: int

definition Options :: options where
  "Options = \<lparr>batchSize = 100, flushIntervalMs = 1000, maxQueueSize = 20000, maxBackoffMs = 8000\<rparr>"

record stats =
  totalSent :: u64
  totalDropped :: u64
  reconnectCount :: u64

datatype 'j worker_pc = AtLoop | HasBatch "'j list" | Exited

record 'j sender =
  m_ip :: string
  m_port :: int
  m_sockfd :: int
  m_opt :: options
  m_queue :: "'j list"
  m_running :: bool
  m_currentBackoff :: int
  m_stats :: stats
  m_lastFlush :: int
  worker :: "'j worker_pc"
  enqueued :: "'j list"
  dropped :: "'j list"
  sent :: "'j list"
  open_socks :: "int set"

definition Sender :: "string \<Rightarrow> int \<Rightarrow> options \<Rightarrow> int \<Rightarrow> 'j sender" where
  "Sender ip prt opt now =
     \<lparr>m_ip = ip, m_port = prt, m_sockfd = -1, m_opt = opt, m_queue = [], m_running = True,
      m_currentBackoff = 500,
      m_stats = \<lparr>totalSent = 0, totalDropped = 0, reconnectCount = 0\<rparr>,
      m_lastFlush = now, worker = AtLoop, enqueued = [], dropped = [], sent = [], open_socks = {}\<rparr>"

definition getStats :: "'j sender \<Rightarrow> stats" where
  "getStats s = m_stats s"

subsection \<open>The queue\<close>

text \<open>
  \<open>pop_front\<close> on an empty \<open>std::deque\<close> is undefined; that is the \<open>None\<close> of \<open>enqueue\<close>, possible
  only when \<open>maxQueueSize\<close> is 0.
\<close>

definition enqueue :: "'j \<Rightarrow> 'j sender \<Rightarrow> 'j sender option" where
  "enqueue j s =
     (let push = (\<lambda>s. s\<lparr>m_queue := m_queue s @ [j], enqueued := enqueued s @ [j]\<rparr>) in
      if length (m_queue s) \<ge> maxQueueSize (m_opt s)
      then (case m_queue s of
              [] \<Rightarrow> None
            | x # xs \<Rightarrow>
                Some (push (s\<lparr>m_queue := xs,
                  m_stats := (m_stats s)\<lparr>totalDropped := totalDropped (m_stats s) + 1\<rparr>,
                  dropped := dropped s @ [x]\<rparr>)))
      else Some (push s))"

definition rollback :: "'j list \<Rightarrow> 'j sender \<Rightarrow> 'j sender" where
  "rollback batch s = fold (\<lambda>x s. s\<lparr>m_queue := x # m_queue s\<rparr>) (rev batch) s"

primrec take_front :: "nat \<Rightarrow> 'j list \<Rightarrow> 'j sender \<Rightarrow> 'j list \<times> 'j sender" where
  "take_front 0 batch s = (batch, s)"
| "take_front (Suc n) batch s =
     take_front n (batch @ [hd (m_queue s)]) (s\<lparr>m_queue := tl (m_queue s)\<rparr>)"

subsection \<open>The socket\<close>

record conn_calls =
  c_socket :: int
  c_inet_pton :: int
  c_connect :: int

definition closeSocket :: "'j sender \<Rightarrow> 'j sender" where
  "closeSocket s =
     (if m_sockfd s \<ge> 0
      then s\<lparr>open_socks := open_socks s - {m_sockfd s}, m_sockfd := -1\<rparr> else s)"

definition connectSocket :: "conn_calls \<Rightarrow> 'j sender \<Rightarrow> bool \<times> 'j sender" where
  "connectSocket c s =
     (let s1 = s\<lparr>m_sockfd := c_socket c\<rparr> in
      if m_sockfd s1 < 0 then (False, s1)
      else let s2 = s1\<lparr>open_socks := insert (m_sockfd s1) (open_socks s1)\<rparr> in
      if c_inet_pton c \<le> 0 then (False, closeSocket s2)
      else if c_connect c < 0 then (False, closeSocket s2)
      else (True, s2))"

text \<open>
  Doubling the back-off is signed 32-bit arithmetic, undefined when it overflows: \<open>None\<close>.
\<close>

definition fits_i32 :: "int \<Rightarrow> bool" where
  "fits_i32 x \<longleftrightarrow> - (2 ^ 31) \<le> x \<and> x < 2 ^ 31"

definition tryReconnect :: "conn_calls \<Rightarrow> 'j sender \<Rightarrow> (bool \<times> 'j sender) option" where
  "tryReconnect c s =
     (case connectSocket c s of
        (True, s1) \<Rightarrow> Some (True, s1)
      | (False, s1) \<Rightarrow>
          (let s2 = s1\<lparr>m_stats := (m_stats s1)\<lparr>reconnectCount := reconnectCount (m_stats s1) + 1\<rparr>\<rparr>
           in if \<not> fits_i32 (m_currentBackoff s2 * 2) then None
              else Some (False, s2\<lparr>m_currentBackoff :=
                     min (m_currentBackoff s2 * 2) (maxBackoffMs (m_opt s2))\<rparr>)))"

definition buildPacket :: "endian \<Rightarrow> ('j list \<Rightarrow> byte list) \<Rightarrow> 'j list \<Rightarrow> byte list" where
  "buildPacket e dump batch =
     (let body = dump batch;
          len = hostToNet32 e (of_nat (length body))
      in mem_store e 4 len @ body)"

text \<open>
  The results of \<open>send\<close>: a number of bytes accepted (0 included) or an error, of which only
  \<open>EINTR\<close> is retried. \<open>sendAll\<close> returns whether everything was sent and the bytes the kernel
  accepted; \<open>None\<close> when the list of results ends before the loop.
\<close>

datatype send_result = SendOk nat | Interrupted | SendFailed

fun sendAll :: "byte list \<Rightarrow> nat \<Rightarrow> send_result list \<Rightarrow> (bool \<times> byte list) option" where
  "sendAll data tot rs =
     (if tot < length data
      then (case rs of
              [] \<Rightarrow> None
            | Interrupted # rs' \<Rightarrow> sendAll data tot rs'
            | SendFailed # rs' \<Rightarrow> Some (False, [])
            | SendOk n # rs' \<Rightarrow>
                if n = 0 then Some (False, [])
                else map_option (map_prod id ((@) (take n (drop tot data))))
                       (sendAll data (tot + n) rs'))
      else Some (True, []))"

declare sendAll.simps [simp del]

subsection \<open>One pass of the worker's loop\<close>

definition run_guard :: "'j sender \<Rightarrow> bool" where
  "run_guard s \<longleftrightarrow> m_running s \<or> m_queue s \<noteq> []"

definition flush_due :: "int \<Rightarrow> 'j sender \<Rightarrow> bool" where
  "flush_due now s \<longleftrightarrow>
     length (m_queue s) \<ge> batchSize (m_opt s) \<or>
     now - m_lastFlush s \<ge> flushIntervalMs (m_opt s) \<or> \<not> m_running s"

text \<open>Under the lock: nothing queued or no flush due starts the next pass, else a batch is taken.\<close>

definition run_take :: "int \<Rightarrow> 'j sender \<Rightarrow> 'j sender" where
  "run_take now s =
     (if m_queue s = [] then s
      else if flush_due now s
      then (let count = min (batchSize (m_opt s)) (length (m_queue s))
            in case take_front count [] s of (batch, s1) \<Rightarrow> s1\<lparr>worker := HasBatch batch\<rparr>)
      else s)"

record net_calls =
  first_connect :: conn_calls
  sends :: "send_result list"
  second_connect :: conn_calls
  flush_time :: int

text \<open>After the unlock: reconnect if needed, send, and roll back on failure.\<close>

definition run_send ::
  "endian \<Rightarrow> ('j list \<Rightarrow> byte list) \<Rightarrow> net_calls \<Rightarrow> 'j list \<Rightarrow> 'j sender \<Rightarrow> 'j sender option" where
  "run_send e dump io batch s =
     (case (if m_sockfd s < 0 then tryReconnect (first_connect io) s else Some (True, s)) of
        None \<Rightarrow> None
      | Some (False, s1) \<Rightarrow> Some ((rollback batch s1)\<lparr>worker := AtLoop\<rparr>)
      | Some (True, s1) \<Rightarrow>
          (case sendAll (buildPacket e dump batch) 0 (sends io) of
             None \<Rightarrow> None
           | Some (False, _) \<Rightarrow>
               (case tryReconnect (second_connect io) (closeSocket (rollback batch s1)) of
                  None \<Rightarrow> None
                | Some (_, s2) \<Rightarrow> Some (s2\<lparr>worker := AtLoop\<rparr>))
           | Some (True, _) \<Rightarrow>
               Some (s1\<lparr>m_stats := (m_stats s1)\<lparr>totalSent := totalSent (m_stats s1) + of_nat (length batch)\<rparr>,
                        m_lastFlush := flush_time io, m_currentBackoff := 500,
                        sent := sent s1 @ batch, worker := AtLoop\<rparr>)))"

text \<open>The first half of \<open>stop\<close>; its second half joins the worker and closes the socket.\<close>

definition stop_request :: "'j sender \<Rightarrow> 'j sender" where
  "stop_request s = s\<lparr>m_running := False\<rparr>"

definition stop_finish :: "'j sender \<Rightarrow> 'j sender option" where
  "stop_finish s = (if worker s = Exited then Some (closeSocket s) else None)"

text \<open>
  The interleavings of the callers and the worker. The set \<open>net\<close> holds the outcomes of socket
  calls the network allows.
\<close>

inductive sender_step ::
  "endian \<Rightarrow> ('j list \<Rightarrow> byte list) \<Rightarrow> net_calls set \<Rightarrow> 'j sender \<Rightarrow> 'j sender \<Rightarrow> bool"
  for e dump net
where
  step_enqueue: "enqueue j s = Some s' \<Longrightarrow> sender_step e dump net s s'"
| step_stop: "sender_step e dump net s (stop_request s)"
| step_take: "worker s = AtLoop \<Longrightarrow> run_guard s \<Longrightarrow> sender_step e dump net s (run_take now s)"
| step_exit: "worker s = AtLoop \<Longrightarrow> \<not> run_guard s \<Longrightarrow> sender_step e dump net s (s\<lparr>worker := Exited\<rparr>)"
| step_send: "worker s = HasBatch batch \<Longrightarrow> io \<in> net \<Longrightarrow> run_send e dump io batch s = Some s' \<Longrightarrow>
    sender_step e dump net s s'"
| step_join: "stop_finish s = Some s' \<Longrightarrow> sender_step e dump net s s'"

definition sender_run ::
  "endian \<Rightarrow> ('j list \<Rightarrow> byte list) \<Rightarrow> net_calls set \<Rightarrow> 'j sender \<Rightarrow> 'j sender \<Rightarrow> bool" where
  "sender_run e dump net = (sender_step e dump net)\<^sup>*\<^sup>*"

subsection \<open>Facts about the operations\<close>

lemma take_front_eq:
  "n \<le> length (m_queue s) \<Longrightarrow>
     take_front n b s = (b @ take n (m_queue s), s\<lparr>m_queue := drop n (m_queue s)\<rparr>)"
proof (induction n arbitrary: b s)
  case 0
  then show ?case by simp
next
  case (Suc n)
  then obtain x xs where "m_queue s = x # xs" by (cases "m_queue s") auto
  with Suc show ?case by simp
qed

lemma rollback_eq: "rollback b s = s\<lparr>m_queue := b @ m_queue s\<rparr>"
proof -
  have "fold (\<lambda>x s. s\<lparr>m_queue := x # m_queue s\<rparr>) (rev b) s = s\<lparr>m_queue := b @ m_queue s\<rparr>"
    by (induction b arbitrary: s rule: rev_induct) simp_all
  then show ?thesis by (simp add: rollback_def)
qed

lemma run_take_eq:
  "run_take now s =
     (if m_queue s = [] \<or> \<not> flush_due now s then s
      else s\<lparr>m_queue := drop (batchSize (m_opt s)) (m_queue s),
             worker := HasBatch (take (batchSize (m_opt s)) (m_queue s))\<rparr>)"
  by (auto simp: run_take_def take_front_eq Let_def min_def)

definition inflight :: "'j sender \<Rightarrow> 'j list" where
  "inflight s = (case worker s of HasBatch b \<Rightarrow> b | _ \<Rightarrow> [])"

definition sock_inv :: "'j sender \<Rightarrow> bool" where
  "sock_inv s \<longleftrightarrow> open_socks s = (if m_sockfd s < 0 then {} else {m_sockfd s})"

lemma closeSocket_sock:
  "sock_inv s \<Longrightarrow> sock_inv (closeSocket s) \<and> m_sockfd (closeSocket s) < 0"
  by (auto simp: sock_inv_def closeSocket_def)

text \<open>What the socket operations leave alone.\<close>

definition same_data :: "'j sender \<Rightarrow> 'j sender \<Rightarrow> bool" where
  "same_data s s' \<longleftrightarrow>
     m_queue s' = m_queue s \<and> m_opt s' = m_opt s \<and> m_running s' = m_running s \<and>
     m_lastFlush s' = m_lastFlush s \<and> worker s' = worker s \<and> enqueued s' = enqueued s \<and>
     dropped s' = dropped s \<and> sent s' = sent s \<and>
     totalSent (m_stats s') = totalSent (m_stats s) \<and>
     totalDropped (m_stats s') = totalDropped (m_stats s)"

lemma closeSocket_frame: "same_data s (closeSocket s)"
  by (simp add: same_data_def closeSocket_def)

lemma connectSocket_frame:
  assumes "connectSocket c s = (ok, s')"
  shows "same_data s s' \<and> m_currentBackoff s' = m_currentBackoff s \<and> (ok \<longleftrightarrow> 0 \<le> m_sockfd s') \<and>
    (sock_inv s \<and> m_sockfd s < 0 \<longrightarrow> sock_inv s')"
  using assms
  by (auto simp: connectSocket_def closeSocket_def sock_inv_def same_data_def Let_def split: if_splits)

lemma tryReconnect_frame:
  assumes "tryReconnect c s = Some (ok, s')"
  shows "same_data s s' \<and> (ok \<longleftrightarrow> 0 \<le> m_sockfd s') \<and> (sock_inv s \<and> m_sockfd s < 0 \<longrightarrow> sock_inv s')"
proof -
  obtain r s1 where c: "connectSocket c s = (r, s1)" by fastforce
  with connectSocket_frame [OF c] assms show ?thesis
    by (cases r) (auto simp: tryReconnect_def Let_def same_data_def sock_inv_def split: if_splits)
qed

subsection \<open>The outcome of one send\<close>

lemma run_send_cases:
  assumes "run_send e dump io batch s = Some s'" and "worker s = HasBatch batch"
  obtains (failed) s1 where "s' = s1\<lparr>worker := AtLoop\<rparr>" and "same_data (rollback batch s) s1"
      "sock_inv s \<longrightarrow> sock_inv s1"
  | (success) s1 where "same_data s s1" "sock_inv s \<longrightarrow> sock_inv s1" "0 \<le> m_sockfd s1"
      "s' = s1\<lparr>m_stats := (m_stats s1)\<lparr>totalSent := totalSent (m_stats s1) + of_nat (length batch)\<rparr>,
               m_lastFlush := flush_time io, m_currentBackoff := 500,
               sent := sent s1 @ batch, worker := AtLoop\<rparr>"
proof -
  obtain ok s1 where c: "(if m_sockfd s < 0 then tryReconnect (first_connect io) s else Some (True, s))
      = Some (ok, s1)"
    using assms(1) by (cases "if m_sockfd s < 0 then tryReconnect (first_connect io) s else Some (True, s)")
      (auto simp: run_send_def)
  have s1: "same_data s s1" "sock_inv s \<longrightarrow> sock_inv s1" "ok \<longleftrightarrow> 0 \<le> m_sockfd s1"
    using c tryReconnect_frame [of "first_connect io" s ok s1]
    by (auto simp: same_data_def split: if_splits)
  have roll: "same_data (rollback batch s) (rollback batch s1)" "sock_inv s1 = sock_inv (rollback batch s1)"
    using s1(1) by (simp_all add: rollback_eq same_data_def sock_inv_def)
  show thesis
  proof (cases ok)
    case False
    then show thesis
      using assms(1) c roll s1 by (intro failed [of "rollback batch s1"]) (auto simp: run_send_def)
  next
    case True
    then obtain sok w where send: "sendAll (buildPacket e dump batch) 0 (sends io) = Some (sok, w)"
      using assms(1) c by (auto simp: run_send_def split: option.splits)
    show thesis
    proof (cases sok)
      case sent: True
      then show thesis
        using assms(1) c send True s1 by (intro success [of s1]) (auto simp: run_send_def)
    next
      case False
      let ?c = "closeSocket (rollback batch s1)"
      obtain ok2 s2 where t: "tryReconnect (second_connect io) ?c = Some (ok2, s2)"
        "s' = s2\<lparr>worker := AtLoop\<rparr>"
        using assms(1) c send True False by (auto simp: run_send_def split: option.splits)
      have "same_data (rollback batch s) s2"
        using tryReconnect_frame [OF t(1)] roll(1) closeSocket_frame [of "rollback batch s1"]
        by (simp add: same_data_def)
      moreover have "sock_inv s \<longrightarrow> sock_inv s2"
        using tryReconnect_frame [OF t(1)] closeSocket_sock [of "rollback batch s1"] roll(2) s1(2) by blast
      ultimately show thesis using t(2) by (intro failed)
    qed
  qed
qed

subsection \<open>Invariants of every interleaving\<close>

text \<open>Nothing is lost or reordered: \<open>pending\<close> is what the sender still holds, oldest first.\<close>

definition pending :: "'j sender \<Rightarrow> 'j list" where
  "pending s = inflight s @ m_queue s"

definition history_inv :: "'j sender \<Rightarrow> bool" where
  "history_inv s \<longleftrightarrow>
     subseq (sent s @ pending s) (enqueued s) \<and>
     mset (enqueued s) = mset (sent s) + mset (dropped s) + mset (pending s) \<and>
     totalSent (m_stats s) = of_nat (length (sent s)) \<and>
     totalDropped (m_stats s) = of_nat (length (dropped s))"

definition bound_inv :: "'j sender \<Rightarrow> bool" where
  "bound_inv s \<longleftrightarrow>
     length (inflight s) \<le> batchSize (m_opt s) \<and>
     length (pending s) \<le> maxQueueSize (m_opt s) + batchSize (m_opt s)"

definition sender_inv :: "'j sender \<Rightarrow> bool" where
  "sender_inv s \<longleftrightarrow> history_inv s \<and> bound_inv s \<and> sock_inv s"

lemma subseq_drop_middle:
  assumes "subseq (xs @ y # ys) zs"
  shows "subseq (xs @ ys) zs"
proof -
  have "subseq (xs @ ys) (xs @ y # ys)"
    by (rule list_emb_append_mono) (auto intro: list_emb_Cons)
  then show ?thesis using assms by (rule subseq_order.trans)
qed

lemma enqueue_cases:
  assumes "enqueue j s = Some s'"
  obtains (room) "length (m_queue s) < maxQueueSize (m_opt s)"
      "s' = s\<lparr>m_queue := m_queue s @ [j], enqueued := enqueued s @ [j]\<rparr>"
  | (full) x xs where "maxQueueSize (m_opt s) \<le> length (m_queue s)" "m_queue s = x # xs"
      "s' = s\<lparr>m_stats := (m_stats s)\<lparr>totalDropped := totalDropped (m_stats s) + 1\<rparr>,
             dropped := dropped s @ [x], m_queue := xs @ [j], enqueued := enqueued s @ [j]\<rparr>"
proof (cases "length (m_queue s) < maxQueueSize (m_opt s)")
  case True
  with assms show thesis by (intro room) (simp_all add: enqueue_def Let_def)
next
  case False
  with assms obtain x xs where q: "m_queue s = x # xs"
    by (cases "m_queue s") (simp_all add: enqueue_def Let_def)
  with assms False show thesis by (intro full [of x xs]) (simp_all add: enqueue_def Let_def)
qed

lemma enqueue_frame:
  assumes "enqueue j s = Some s'"
  shows "worker s' = worker s \<and> m_opt s' = m_opt s \<and> m_sockfd s' = m_sockfd s \<and>
    open_socks s' = open_socks s \<and> m_running s' = m_running s \<and> m_queue s' \<noteq> [] \<and>
    m_currentBackoff s' = m_currentBackoff s"
  using assms by (cases rule: enqueue_cases) simp_all

lemma subseq_snoc: "subseq xs ys \<Longrightarrow> subseq (xs @ [j]) (ys @ [j])"
  by (rule list_emb_append_mono) simp_all

lemma enqueue_history:
  assumes "enqueue j s = Some s'" and "history_inv s"
  shows "history_inv s'"
  using assms(1)
proof (cases rule: enqueue_cases)
  case room
  have "subseq ((sent s @ pending s) @ [j]) (enqueued s @ [j])"
    using assms(2) by (intro subseq_snoc) (simp add: history_inv_def)
  with room assms(2) show ?thesis by (simp add: history_inv_def pending_def inflight_def)
next
  case (full x xs)
  have "subseq ((sent s @ inflight s) @ xs) (enqueued s)"
    by (rule subseq_drop_middle [where y = x])
      (use assms(2) full(2) in \<open>simp add: history_inv_def pending_def\<close>)
  then have "subseq (((sent s @ inflight s) @ xs) @ [j]) (enqueued s @ [j])" by (rule subseq_snoc)
  with full assms(2) show ?thesis by (simp add: history_inv_def pending_def inflight_def)
qed

lemma enqueue_bound:
  assumes "enqueue j s = Some s'" and "bound_inv s"
  shows "bound_inv s'"
  using assms(1)
  by (cases rule: enqueue_cases)
    (use assms(2) in \<open>simp_all add: bound_inv_def pending_def inflight_def\<close>)

text \<open>The worker moves values between the queue, the batch in flight and the network.\<close>

lemma run_take_pending:
  "worker s = AtLoop \<Longrightarrow> pending (run_take now s) = pending s"
  by (simp add: run_take_eq pending_def inflight_def)

lemma run_take_inv: "worker s = AtLoop \<Longrightarrow> sender_inv s \<Longrightarrow> sender_inv (run_take now s)"
  using run_take_pending [of s now]
  by (simp add: sender_inv_def history_inv_def bound_inv_def run_take_eq inflight_def sock_inv_def
      split: if_splits)

lemma run_send_inv:
  assumes "run_send e dump io batch s = Some s'" and "worker s = HasBatch batch" and "sender_inv s"
  shows "sender_inv s'"
  using assms(1,2)
proof (cases rule: run_send_cases)
  case (failed s1)
  then have "sock_inv s'" using assms(3) by (simp add: sender_inv_def sock_inv_def)
  then show ?thesis
    using failed(1,2) assms(2,3)
    by (simp add: sender_inv_def history_inv_def bound_inv_def pending_def inflight_def same_data_def
        rollback_eq)
next
  case (success s1)
  then have "sock_inv s'" using assms(3) by (simp add: sender_inv_def sock_inv_def)
  then show ?thesis
    using success(1,4) assms(2,3)
    by (simp add: sender_inv_def history_inv_def bound_inv_def pending_def inflight_def same_data_def
        ac_simps)
qed

lemma sender_step_inv: "sender_step e dump net s s' \<Longrightarrow> sender_inv s \<Longrightarrow> sender_inv s'"
proof (induction rule: sender_step.induct)
  case (step_enqueue j s s')
  then show ?case
    using enqueue_frame [OF step_enqueue(1)] enqueue_history [OF step_enqueue(1)]
      enqueue_bound [OF step_enqueue(1)]
    by (simp add: sender_inv_def sock_inv_def)
next
  case (step_stop s)
  then show ?case
    by (simp add: sender_inv_def history_inv_def bound_inv_def pending_def inflight_def sock_inv_def
        stop_request_def)
next
  case (step_take s now)
  then show ?case by (simp add: run_take_inv)
next
  case (step_exit s)
  then show ?case
    by (simp add: sender_inv_def history_inv_def bound_inv_def pending_def inflight_def sock_inv_def
        run_guard_def)
next
  case (step_send s batch io s')
  then show ?case by (blast intro: run_send_inv)
next
  case (step_join s s')
  then have s': "s' = closeSocket s" by (simp add: stop_finish_def split: if_splits)
  show ?case
    using step_join(2) closeSocket_sock [of s] closeSocket_frame [of s]
    by (simp add: s' sender_inv_def history_inv_def bound_inv_def pending_def inflight_def same_data_def)
qed

lemma sender_run_inv:
  "sender_run e dump net s s' \<Longrightarrow> sender_inv s \<Longrightarrow> sender_inv s'"
  unfolding sender_run_def by (induction rule: rtranclp_induct) (auto intro: sender_step_inv)

lemma Sender_inv: "sender_inv (Sender ip p opt now)"
  by (simp add: sender_inv_def history_inv_def bound_inv_def pending_def inflight_def sock_inv_def
      Sender_def)

lemma sender_step_opt: "sender_step e dump net s s' \<Longrightarrow> m_opt s' = m_opt s"
proof (induction rule: sender_step.induct)
  case (step_enqueue j s s')
  then show ?case using enqueue_frame [OF step_enqueue] by simp
next
  case (step_send s batch io s')
  from step_send(3,1) show ?case
    by (cases rule: run_send_cases) (simp_all add: same_data_def rollback_eq)
qed (auto simp: stop_request_def run_take_eq stop_finish_def closeSocket_def split: if_splits)

lemma sender_run_opt: "sender_run e dump net s s' \<Longrightarrow> m_opt s' = m_opt s"
  unfolding sender_run_def by (induction rule: rtranclp_induct) (auto dest: sender_step_opt)

text \<open>
  C2. No value is lost, duplicated or reordered, whatever the interleaving of \<open>enqueue\<close>, \<open>stop\<close>
  and the worker and whatever the network does: the values sent followed by those still held are
  a subsequence of the values enqueued, every enqueued value is sent, dropped by the queue limit
  or still held, and the statistics count the sent and the dropped ones.
\<close>

theorem sender_no_loss:
  assumes "sender_run e dump net (Sender ip p opt now) s"
  shows "subseq (sent s @ pending s) (enqueued s) \<and>
         mset (enqueued s) = mset (sent s) + mset (dropped s) + mset (pending s) \<and>
         totalSent (getStats s) = of_nat (length (sent s)) \<and>
         totalDropped (getStats s) = of_nat (length (dropped s))"
  using sender_run_inv [OF assms Sender_inv]
  by (simp add: sender_inv_def history_inv_def getStats_def)

text \<open>
  Memory and descriptors are bounded: the sender never holds more than \<open>maxQueueSize\<close> plus one
  batch of values and never more than one socket, the one in \<open>m_sockfd\<close>.
\<close>

theorem sender_bounds:
  assumes "sender_run e dump net (Sender ip p opt now) s"
  shows "length (pending s) \<le> maxQueueSize opt + batchSize opt \<and>
         open_socks s = (if m_sockfd s < 0 then {} else {m_sockfd s})"
proof -
  have "m_opt s = opt" using sender_run_opt [OF assms] by (simp add: Sender_def)
  then show ?thesis
    using sender_run_inv [OF assms Sender_inv] by (simp add: sender_inv_def bound_inv_def sock_inv_def)
qed

end
