(* ===== verification/Sender_Props.thy ===== *)
theory Sender_Props
  imports Sender
begin

section \<open>Behaviour of the sender's worker: packets, back-off, shutdown\<close>

text \<open>
  What the packets contain and how much of them reaches the kernel, the growth of the back-off,
  and when \<open>stop\<close> can return. The demonstration values at the end serve the witnesses.
\<close>

subsection \<open>Packets and partial sends\<close>

text \<open>
  C21. A packet is a 4-byte big-endian length followed by the serialised batch: a receiver of any
  byte order reads back the length of the body and the body, for bodies below 4 GiB, which the
  length field can count.
\<close>

theorem buildPacket_roundtrip:
  assumes "length (dump batch) < 2 ^ 32"
  shows "unat (netToHost32 d (mem_load d (take 4 (buildPacket e dump batch)))) = length (dump batch) \<and>
         drop 4 (buildPacket e dump batch) = dump batch"
proof -
  have "take 4 (buildPacket e dump batch) = mem_store e 4 (hostToNet32 e (of_nat (length (dump batch))))"
    by (simp add: buildPacket_def Let_def)
  moreover have "unat (of_nat (length (dump batch)) :: u32) = length (dump batch)"
    using assms by (simp add: unat_of_nat)
  ultimately show ?thesis by (simp add: net32.cross_host) (simp add: buildPacket_def Let_def)
qed

lemma buildPacket_witness:
  "unat (netToHost32 BigEndian (mem_load BigEndian
      (take 4 (buildPacket LittleEndian (\<lambda>b. map of_nat b) [123, 125])))) = 2 \<and>
   drop 4 (buildPacket LittleEndian (\<lambda>b. map of_nat b) [123, 125]) = [123, 125 :: byte]"
  using buildPacket_roundtrip [of "\<lambda>b. map of_nat b" "[123, 125]" BigEndian LittleEndian] by simp

text \<open>What one call to \<open>sendAll\<close> puts on the wire.\<close>

lemma sendAll_wire:
  "tot \<le> length data \<Longrightarrow> sendAll data tot rs = Some (ok, w) \<Longrightarrow>
     prefix w (drop tot data) \<and> (ok \<longrightarrow> w = drop tot data)"
proof (induction data tot rs arbitrary: w rule: sendAll.induct)
  case (1 data tot rs)
  show ?case
  proof (cases "tot < length data")
    case False
    then show ?thesis using "1.prems" sendAll.simps [of data tot rs] by simp
  next
    case True
    note unfold = sendAll.simps [of data tot rs]
    show ?thesis
    proof (cases rs)
      case Nil
      then show ?thesis using "1.prems" True unfold by simp
    next
      case (Cons r rs')
      show ?thesis
      proof (cases r)
        case Interrupted
        then have "sendAll data tot rs' = Some (ok, w)" using "1.prems" True unfold Cons by simp
        then show ?thesis using "1.IH"(2) [OF True Cons Interrupted] "1.prems"(1) by blast
      next
        case SendFailed
        then show ?thesis using "1.prems" True unfold Cons by simp
      next
        case (SendOk n)
        show ?thesis
        proof (cases "n = 0 \<or> tot + n > length data")
          case True
          then show ?thesis
            using "1.prems" \<open>tot < length data\<close> unfold Cons SendOk
            by (auto simp: sendAll.simps [of data "tot + n"])
        next
          case False
          then have "map_option (map_prod id ((@) (take n (drop tot data)))) (sendAll data (tot + n) rs')
              = Some (ok, w)"
            using "1.prems" True unfold Cons SendOk by simp
          then obtain w' where w': "sendAll data (tot + n) rs' = Some (ok, w')"
            "w = take n (drop tot data) @ w'"
            by auto
          have "prefix w' (drop (tot + n) data) \<and> (ok \<longrightarrow> w' = drop (tot + n) data)"
            using "1.IH"(1) [OF True Cons SendOk] False w'(1) by simp
          moreover have "drop tot data = take n (drop tot data) @ drop (tot + n) data"
            by (metis add.commute append_take_drop_id drop_drop)
          ultimately show ?thesis using w'(2) by (metis same_prefix_prefix)
        qed
      qed
    qed
  qed
qed

lemma sendAll_returns:
  "length data - tot \<le> length [r \<leftarrow> rs. r \<noteq> Interrupted] \<Longrightarrow> \<exists>r. sendAll data tot rs = Some r"
proof (induction rs arbitrary: tot)
  case Nil
  then show ?case by (auto simp: sendAll.simps)
next
  case (Cons r rs)
  show ?case
  proof (cases r)
    case (SendOk n)
    show ?thesis
    proof (cases "tot < length data \<and> n \<noteq> 0")
      case True
      then have "\<exists>x. sendAll data (tot + n) rs = Some x"
        using Cons.prems SendOk by (intro Cons.IH) auto
      then show ?thesis using True SendOk by (auto simp: sendAll.simps [of data tot])
    qed (auto simp: sendAll.simps [of data tot] SendOk)
  next
    case Interrupted
    then show ?thesis
      using Cons.IH [of tot] Cons.prems sendAll.simps [of data tot "r # rs"] by auto
  qed (auto simp: sendAll.simps [of data tot])
qed

lemma sendAll_fails_short:
  assumes "tot \<le> length data" and "sendAll data tot rs = Some (False, w)"
  shows "length w < length data - tot"
  using assms
proof (induction data tot rs arbitrary: w rule: sendAll.induct)
  case (1 data tot rs)
  have more: "tot < length data"
    using "1.prems" by (auto simp: sendAll.simps [of data tot] split: if_splits)
  show ?case
  proof (cases rs)
    case Nil
    then show ?thesis using "1.prems" more by (simp add: sendAll.simps [of data tot])
  next
    case (Cons r rs')
    show ?thesis
    proof (cases r)
      case Interrupted
      then show ?thesis using "1.prems" "1.IH"(2) more Cons by (simp add: sendAll.simps [of data tot])
    next
      case SendFailed
      then show ?thesis using "1.prems" more Cons by (simp add: sendAll.simps [of data tot])
    next
      case (SendOk n)
      show ?thesis
      proof (cases "n = 0")
        case True
        then show ?thesis using "1.prems" more Cons SendOk by (simp add: sendAll.simps [of data tot])
      next
        case False
        then obtain w' where w': "sendAll data (tot + n) rs' = Some (False, w')" "w = take n (drop tot data) @ w'"
          using "1.prems" more Cons SendOk by (auto simp: sendAll.simps [of data tot])
        then have "tot + n < length data"
          by (auto simp: sendAll.simps [of data "tot + n"] split: if_splits)
        then show ?thesis
          using "1.IH"(1) [OF more Cons SendOk False, of w'] w' by simp
      qed
    qed
  qed
qed

text \<open>
  C23. \<open>sendAll\<close> under partial writes and interruptions: once the kernel has answered as many
  calls other than with \<open>EINTR\<close> as there are bytes it has returned; the bytes accepted are a
  prefix of the data, and success is reported exactly when they are all of it.
\<close>

theorem sendAll_exact:
  assumes "length data \<le> length [r \<leftarrow> rs. r \<noteq> Interrupted]"
  shows "\<exists>ok w. sendAll data 0 rs = Some (ok, w) \<and> prefix w data \<and> (ok \<longleftrightarrow> w = data)"
proof -
  obtain ok w where r: "sendAll data 0 rs = Some (ok, w)"
    using sendAll_returns [of data 0 rs] assms by auto
  then have "prefix w data \<and> (ok \<longrightarrow> w = data)"
    using sendAll_wire [OF _ r] by auto
  moreover have "ok" if "w = data"
    using that r sendAll_fails_short [of 0 data rs w] by (cases ok) auto
  ultimately show ?thesis
    using r by blast
qed

lemma sendAll_exact_witness:
  "\<exists>ok w. sendAll [1, 2, 3] 0 [SendOk 1, Interrupted, SendOk 2, SendFailed] = Some (ok, w) \<and>
     prefix w [1, 2, 3 :: byte] \<and> (ok \<longleftrightarrow> w = [1, 2, 3])"
  by (rule sendAll_exact) simp

subsection \<open>Back-off\<close>

definition backoff_inv :: "'j sender \<Rightarrow> bool" where
  "backoff_inv s \<longleftrightarrow>
     min 500 (maxBackoffMs (m_opt s)) \<le> m_currentBackoff s \<and>
     m_currentBackoff s \<le> max 500 (maxBackoffMs (m_opt s))"

lemma tryReconnect_backoff:
  assumes "tryReconnect c s = Some (ok, s')" and "0 \<le> maxBackoffMs (m_opt s)" and "backoff_inv s"
  shows "backoff_inv s'"
proof -
  obtain r s1 where c: "connectSocket c s = (r, s1)" by fastforce
  with connectSocket_frame [OF c] assms show ?thesis
    by (cases r) (auto simp: tryReconnect_def Let_def same_data_def backoff_inv_def min_def max_def
        split: if_splits)
qed

lemma backoff_rollback: "backoff_inv (closeSocket (rollback b s)) = backoff_inv s"
  by (simp add: backoff_inv_def closeSocket_def rollback_eq)

lemma run_send_backoff:
  assumes "run_send e dump io batch s = Some s'" and "0 \<le> maxBackoffMs (m_opt s)" and "backoff_inv s"
  shows "backoff_inv s'"
proof -
  obtain ok s1 where c: "(if m_sockfd s < 0 then tryReconnect (first_connect io) s else Some (True, s))
      = Some (ok, s1)"
    using assms(1) by (cases "if m_sockfd s < 0 then tryReconnect (first_connect io) s else Some (True, s)")
      (auto simp: run_send_def)
  have b1: "backoff_inv s1" and o1: "m_opt s1 = m_opt s"
    using c assms(2,3) tryReconnect_backoff tryReconnect_frame [of "first_connect io" s ok s1]
    by (auto simp: same_data_def split: if_splits)
  have oc: "m_opt (closeSocket (rollback batch s1)) = m_opt s"
    using o1 by (simp add: closeSocket_def rollback_eq)
  have b2: "backoff_inv s2"
    if "tryReconnect (second_connect io) (closeSocket (rollback batch s1)) = Some (ok2, s2)" for ok2 s2
    using tryReconnect_backoff [OF that] b1 assms(2) oc by (simp add: backoff_rollback)
  have pc: "backoff_inv (x\<lparr>worker := AtLoop\<rparr>) = backoff_inv x" for x :: "'j sender"
    by (simp add: backoff_inv_def)
  have roll: "backoff_inv (rollback batch s1)" using b1 by (simp add: backoff_inv_def rollback_eq)
  show ?thesis
    using assms(1) c b1 o1 b2 roll
    by (auto simp: run_send_def pc split: option.splits bool.splits prod.splits)
      (auto simp: backoff_inv_def)
qed

lemma sender_step_backoff:
  "sender_step e dump net s s' \<Longrightarrow> 0 \<le> maxBackoffMs (m_opt s) \<Longrightarrow> backoff_inv s \<Longrightarrow> backoff_inv s'"
proof (induction rule: sender_step.induct)
  case (step_enqueue j s s')
  then show ?case using enqueue_frame [OF step_enqueue(1)] by (simp add: backoff_inv_def)
next
  case (step_send s batch io s')
  then show ?case by (blast intro: run_send_backoff)
qed (auto simp: backoff_inv_def stop_request_def run_take_eq stop_finish_def closeSocket_def
    split: if_splits)

lemma sender_run_backoff:
  assumes "sender_run e dump net s s'" and "0 \<le> maxBackoffMs (m_opt s)" and "backoff_inv s"
  shows "backoff_inv s'"
  using assms(1) unfolding sender_run_def
proof (induction rule: rtranclp_induct)
  case base
  show ?case by (rule assms(3))
next
  case (step t u)
  then have "m_opt t = m_opt s" using sender_run_opt [of e dump net s t] by (simp add: sender_run_def)
  with step show ?case using sender_step_backoff [of e dump net t u] assms(2) by simp
qed

lemma tryReconnect_no_overflow:
  assumes "backoff_inv s" and "0 \<le> maxBackoffMs (m_opt s)" and "maxBackoffMs (m_opt s) < 2 ^ 30"
  shows "tryReconnect c s \<noteq> None"
proof -
  obtain r s1 where c: "connectSocket c s = (r, s1)" by fastforce
  have "m_currentBackoff s1 = m_currentBackoff s" using connectSocket_frame [OF c] by simp
  moreover have "fits_i32 (m_currentBackoff s * 2)"
    using assms by (auto simp: backoff_inv_def fits_i32_def min_def max_def split: if_splits)
  ultimately show ?thesis using c by (cases r) (simp_all add: tryReconnect_def Let_def)
qed

text \<open>
  With a \<open>maxBackoffMs\<close> below 2^30 the back-off stays between its start and its limit in every
  reachable state and doubling it never overflows a 32-bit \<open>int\<close>.
\<close>

theorem sender_backoff_bounded:
  assumes "sender_run e dump net (Sender ip p opt now) s"
    and "0 \<le> maxBackoffMs opt" and "maxBackoffMs opt < 2 ^ 30"
  shows "min 500 (maxBackoffMs opt) \<le> m_currentBackoff s \<and>
         m_currentBackoff s \<le> max 500 (maxBackoffMs opt) \<and> tryReconnect c s \<noteq> None"
proof -
  have o: "m_opt s = opt" using sender_run_opt [OF assms(1)] by (simp add: Sender_def)
  have "backoff_inv s"
    by (rule sender_run_backoff [OF assms(1)]) (simp_all add: Sender_def backoff_inv_def assms(2))
  then show ?thesis using tryReconnect_no_overflow [of s c] assms(2,3) o by (simp add: backoff_inv_def)
qed

subsection \<open>Shutdown\<close>

definition conn_fails :: "conn_calls \<Rightarrow> bool" where
  "conn_fails c \<longleftrightarrow> c_socket c < 0 \<or> c_inet_pton c \<le> 0 \<or> c_connect c < 0"

lemma connectSocket_fails: "conn_fails c \<Longrightarrow> \<not> fst (connectSocket c s)"
  by (auto simp: conn_fails_def connectSocket_def Let_def)

lemma tryReconnect_fails:
  assumes "conn_fails c" and "tryReconnect c s = Some (ok, s')"
  shows "\<not> ok \<and> m_sockfd s' < 0"
proof -
  have "\<not> ok"
    using assms connectSocket_fails [OF assms(1), of s]
    by (auto simp: tryReconnect_def Let_def split: prod.splits bool.splits if_splits)
  then show ?thesis using tryReconnect_frame [OF assms(2)] by simp
qed

definition stuck :: "'j list \<Rightarrow> 'j sender \<Rightarrow> bool" where
  "stuck done s \<longleftrightarrow> m_sockfd s < 0 \<and> pending s \<noteq> [] \<and> worker s \<noteq> Exited \<and> sent s = done"

lemma run_send_stuck:
  assumes "run_send e dump io batch s = Some s'" and "worker s = HasBatch batch"
    and "conn_fails (first_connect io)" and "stuck done s"
  shows "stuck done s'"
proof -
  obtain s1 where t: "tryReconnect (first_connect io) s = Some (False, s1)"
    and s': "s' = (rollback batch s1)\<lparr>worker := AtLoop\<rparr>"
    using assms tryReconnect_fails [OF assms(3), of s]
    by (fastforce simp: run_send_def stuck_def split: option.splits)
  have "same_data s s1" and "m_sockfd s1 < 0"
    using tryReconnect_frame [OF t] by auto
  then show ?thesis
    using assms(2,4) by (simp add: s' stuck_def rollback_eq pending_def inflight_def same_data_def)
qed

lemma sender_step_stuck:
  assumes "sender_step e dump net s s'" and "\<forall>io \<in> net. conn_fails (first_connect io)" and "stuck done s"
  shows "stuck done s'"
  using assms
proof (induction rule: sender_step.induct)
  case (step_enqueue j s s')
  from step_enqueue(1) show ?case
    by (cases rule: enqueue_cases) (use step_enqueue(3) in \<open>auto simp: stuck_def pending_def inflight_def\<close>)
next
  case (step_stop s)
  then show ?case by (simp add: stuck_def stop_request_def pending_def inflight_def)
next
  case (step_take s now)
  then show ?case
    using run_take_pending [of s now] by (auto simp: stuck_def run_take_eq split: if_splits)
next
  case (step_exit s)
  then show ?case by (simp add: stuck_def run_guard_def pending_def inflight_def)
next
  case (step_send s batch io s')
  then show ?case by (blast intro: run_send_stuck)
next
  case (step_join s s')
  then show ?case by (simp add: stuck_def stop_finish_def)
qed

text \<open>
  C37. \<open>stop\<close> never returns while the server is unreachable: if every connection attempt fails
  and the sender holds at least one value, then after any number of steps, stop requests
  included, the worker has not exited, so the join in \<open>stop\<close> does not return, and nothing more
  has been sent.
\<close>

theorem stop_waits_for_unreachable_server:
  assumes "sender_run e dump net s s'" and "\<forall>io \<in> net. conn_fails (first_connect io)"
    and "m_sockfd s < 0" and "pending s \<noteq> []" and "worker s \<noteq> Exited"
  shows "worker s' \<noteq> Exited \<and> stop_finish s' = None \<and> sent s' = sent s"
proof -
  have "stuck (sent s) s'"
    using assms(1) unfolding sender_run_def
  proof (induction rule: rtranclp_induct)
    case base
    then show ?case using assms(3-5) by (simp add: stuck_def)
  next
    case (step t u)
    then show ?case using sender_step_stuck [OF _ assms(2)] by blast
  qed
  then show ?thesis by (auto simp: stuck_def stop_finish_def)
qed

text \<open>
  \<open>run_worker\<close> is \<open>Sender::run\<close> by itself, with no caller in between: \<open>io\<close> gives the outcome of
  the socket calls for each batch, \<open>now\<close> the clock reading, and fuel counts the phases.
\<close>

fun run_worker ::
  "nat \<Rightarrow> endian \<Rightarrow> ('j list \<Rightarrow> byte list) \<Rightarrow> ('j list \<Rightarrow> net_calls) \<Rightarrow> int \<Rightarrow> 'j sender \<Rightarrow> 'j sender option"
where
  "run_worker 0 e dump io now s = None"
| "run_worker (Suc n) e dump io now s =
     (case worker s of
        Exited \<Rightarrow> Some s
      | HasBatch batch \<Rightarrow>
          (case run_send e dump (io batch) batch s of
             None \<Rightarrow> None
           | Some s' \<Rightarrow> run_worker n e dump io now s')
      | AtLoop \<Rightarrow>
          if run_guard s then run_worker n e dump io now (run_take now s)
          else run_worker n e dump io now (s\<lparr>worker := Exited\<rparr>))"

definition io_ok :: "endian \<Rightarrow> ('j list \<Rightarrow> byte list) \<Rightarrow> ('j list \<Rightarrow> net_calls) \<Rightarrow> bool" where
  "io_ok e dump io \<longleftrightarrow>
     (\<forall>b. \<not> conn_fails (first_connect (io b)) \<and>
          (\<exists>w. sendAll (buildPacket e dump b) 0 (sends (io b)) = Some (True, w)))"

lemma run_send_ok:
  assumes "io_ok e dump io" and "worker s = HasBatch batch"
  shows "\<exists>s'. run_send e dump (io batch) batch s = Some s' \<and> worker s' = AtLoop \<and>
    sent s' = sent s @ batch \<and> m_queue s' = m_queue s \<and> m_running s' = m_running s \<and> m_opt s' = m_opt s"
proof -
  obtain w where w: "sendAll (buildPacket e dump batch) 0 (sends (io batch)) = Some (True, w)"
    using assms(1) by (auto simp: io_ok_def)
  have "\<exists>s1. tryReconnect (first_connect (io batch)) s = Some (True, s1) \<and> same_data s s1"
    using assms(1) by (auto simp: io_ok_def conn_fails_def tryReconnect_def connectSocket_def Let_def
        same_data_def)
  then obtain s1 where "(if m_sockfd s < 0 then tryReconnect (first_connect (io batch)) s else Some (True, s))
      = Some (True, s1)" and "same_data s s1"
    by (cases "m_sockfd s < 0") (auto simp: same_data_def)
  then show ?thesis using w by (auto simp: run_send_def same_data_def)
qed

lemma run_worker_drains:
  assumes "io_ok e dump io" and "0 < batchSize (m_opt s)" and "worker s = AtLoop"
    and "\<not> m_running s" and "2 * length (m_queue s) + 2 \<le> n"
  shows "\<exists>s'. run_worker n e dump io now s = Some s' \<and> worker s' = Exited \<and> m_queue s' = [] \<and>
    sent s' = sent s @ m_queue s"
  using assms(2-)
proof (induction "length (m_queue s)" arbitrary: s n rule: less_induct)
  case less
  define k where "k = n - 2"
  have k: "n = Suc (Suc k)" using less.prems(4) by (simp add: k_def)
  show ?case
  proof (cases "m_queue s = []")
    case True
    then show ?thesis using less.prems k by (simp add: run_guard_def)
  next
    case False
    let ?b = "batchSize (m_opt s)"
    let ?s1 = "s\<lparr>m_queue := drop ?b (m_queue s), worker := HasBatch (take ?b (m_queue s))\<rparr>"
    have t: "run_take now s = ?s1" using False less.prems(3) by (simp add: run_take_eq flush_due_def)
    obtain s2 where s2: "run_send e dump (io (take ?b (m_queue s))) (take ?b (m_queue s)) ?s1 = Some s2"
      "worker s2 = AtLoop" "sent s2 = sent s @ take ?b (m_queue s)"
      "m_queue s2 = drop ?b (m_queue s)" "m_running s2 = m_running s" "m_opt s2 = m_opt s"
      using run_send_ok [OF assms(1), of ?s1 "take ?b (m_queue s)"] by auto
    have shorter: "length (m_queue s2) < length (m_queue s)"
      using False less.prems(1) by (simp add: s2(4))
    have "2 * length (m_queue s2) + 2 \<le> k" using shorter less.prems(4) k by simp
    then obtain s' where s': "run_worker k e dump io now s2 = Some s'" "worker s' = Exited"
      "m_queue s' = []" "sent s' = sent s2 @ m_queue s2"
      using less.hyps [OF shorter, of k] s2(2,5,6) less.prems(1,3) by auto
    have "run_worker n e dump io now s = run_worker k e dump io now s2"
      using False less.prems(2) by (simp add: k t run_guard_def s2(1))
    then show ?thesis using s' s2(3,4) by simp
  qed
qed

text \<open>
  C28. Graceful shutdown: once \<open>stop\<close> has cleared \<open>m_running\<close>, with a positive batch size and a
  reachable server the worker sends every queued value, in order, and exits after at most two
  phases per queued value and two more.
\<close>

theorem stop_flushes_queue:
  assumes "io_ok e dump io" and "0 < batchSize (m_opt s)" and "worker s = AtLoop"
  shows "\<exists>s'. run_worker (2 * length (m_queue s) + 2) e dump io now (stop_request s) = Some s' \<and>
    worker s' = Exited \<and> m_queue s' = [] \<and> sent s' = sent s @ m_queue s"
  using run_worker_drains [of e dump io "stop_request s" "2 * length (m_queue s) + 2" now] assms
  by (simp add: stop_request_def)

subsection \<open>Concrete runs\<close>

definition demo_opt :: options where
  "demo_opt = \<lparr>batchSize = 2, flushIntervalMs = 1000, maxQueueSize = 2, maxBackoffMs = 8000\<rparr>"

definition demo_dump :: "nat list \<Rightarrow> byte list" where
  "demo_dump b = map of_nat b"

definition demo_io :: "nat list \<Rightarrow> net_calls" where
  "demo_io b =
     \<lparr>first_connect = \<lparr>c_socket = 7, c_inet_pton = 1, c_connect = 0\<rparr>,
      sends = [Interrupted, SendOk (4 + length b)],
      second_connect = \<lparr>c_socket = 7, c_inet_pton = 1, c_connect = 0\<rparr>, flush_time = 5\<rparr>"

definition demo_down :: net_calls where
  "demo_down =
     \<lparr>first_connect = \<lparr>c_socket = 7, c_inet_pton = 1, c_connect = -1\<rparr>, sends = [],
      second_connect = \<lparr>c_socket = 7, c_inet_pton = 1, c_connect = -1\<rparr>, flush_time = 5\<rparr>"

definition demo_start :: "nat sender" where
  "demo_start = Sender ''127.0.0.1'' 8080 demo_opt 0"

definition demo_queued :: "nat sender" where
  "demo_queued = the (enqueue 3 (the (enqueue 2 (the (enqueue 1 demo_start)))))"

definition demo_sent :: "nat sender" where
  "demo_sent = the (run_send LittleEndian demo_dump (demo_io [2, 3]) [2, 3] (run_take 0 demo_queued))"

lemmas demo_eval = demo_opt_def demo_start_def Sender_def enqueue_def Let_def

lemma demo_io_ok: "io_ok e demo_dump demo_io"
proof -
  have "\<exists>w. sendAll (buildPacket e demo_dump b) 0 (sends (demo_io b)) = Some (True, w)" for b
    by (simp add: demo_io_def demo_dump_def buildPacket_def Let_def sendAll.simps)
  then show ?thesis by (simp add: io_ok_def conn_fails_def) (simp add: demo_io_def)
qed

lemma demo_queued_eq:
  "m_queue demo_queued = [2, 3] \<and> worker demo_queued = AtLoop \<and> m_running demo_queued \<and>
   m_sockfd demo_queued = -1 \<and> m_opt demo_queued = demo_opt \<and> sent demo_queued = []"
  by (simp add: demo_queued_def demo_eval)

lemma demo_run_queued: "sender_run e dump net demo_start demo_queued"
proof -
  let ?a = "the (enqueue 1 demo_start)" and ?b = "the (enqueue 2 (the (enqueue 1 demo_start)))"
  have "sender_step e dump net demo_start ?a" "sender_step e dump net ?a ?b"
    "sender_step e dump net ?b demo_queued"
    by (rule step_enqueue, simp add: demo_eval demo_queued_def)+
  then show ?thesis unfolding sender_run_def by (meson rtranclp.intros)
qed

lemma demo_run_sent:
  "sender_run LittleEndian demo_dump {demo_io [2, 3]} demo_start demo_sent \<and> sent demo_sent = [2, 3] \<and>
   dropped demo_sent = [1]"
proof -
  let ?t = "run_take 0 demo_queued"
  have t: "worker ?t = HasBatch [2, 3]"
    using demo_queued_eq by (simp add: run_take_eq flush_due_def demo_opt_def)
  obtain s' where s': "run_send LittleEndian demo_dump (demo_io [2, 3]) [2, 3] ?t = Some s'"
    "sent s' = sent ?t @ [2, 3]"
    using run_send_ok [OF demo_io_ok t] by blast
  then have d: "demo_sent = s'" by (simp add: demo_sent_def)
  have "sender_step LittleEndian demo_dump {demo_io [2, 3]} demo_queued ?t"
    using demo_queued_eq by (intro step_take) (auto simp: run_guard_def)
  moreover have "sender_step LittleEndian demo_dump {demo_io [2, 3]} ?t demo_sent"
    using t s' d by (intro step_send) auto
  ultimately have "sender_run LittleEndian demo_dump {demo_io [2, 3]} demo_start demo_sent"
    using demo_run_queued [of LittleEndian demo_dump "{demo_io [2, 3]}"]
    unfolding sender_run_def by (meson rtranclp.intros)
  moreover have "dropped s' = dropped ?t"
    using s'(1) t by (cases rule: run_send_cases) (simp_all add: same_data_def rollback_eq)
  ultimately show ?thesis
    using s' d demo_queued_eq by (simp add: run_take_eq) (simp add: demo_queued_def demo_eval)
qed

lemma sender_no_loss_witness:
  "sent demo_sent = [2, 3] \<and> dropped demo_sent = [1] \<and>
   subseq (sent demo_sent @ pending demo_sent) (enqueued demo_sent) \<and>
   mset (enqueued demo_sent) = mset (sent demo_sent) + mset (dropped demo_sent) + mset (pending demo_sent) \<and>
   totalSent (getStats demo_sent) = of_nat (length (sent demo_sent)) \<and>
   totalDropped (getStats demo_sent) = of_nat (length (dropped demo_sent))"
  using sender_no_loss [OF conjunct1 [OF demo_run_sent, unfolded demo_start_def]] demo_run_sent by simp

lemma sender_bounds_witness:
  "length (pending demo_queued) \<le> maxQueueSize demo_opt + batchSize demo_opt \<and>
   open_socks demo_queued = (if m_sockfd demo_queued < 0 then {} else {m_sockfd demo_queued})"
  by (rule sender_bounds [OF demo_run_queued [of LittleEndian demo_dump "{}", unfolded demo_start_def]])

lemma sender_backoff_witness:
  "min 500 (maxBackoffMs demo_opt) \<le> m_currentBackoff demo_queued \<and>
   m_currentBackoff demo_queued \<le> max 500 (maxBackoffMs demo_opt) \<and>
   tryReconnect (first_connect demo_down) demo_queued \<noteq> None"
  by (rule sender_backoff_bounded [OF demo_run_queued [of LittleEndian demo_dump "{}", unfolded demo_start_def]])
    (simp_all add: demo_opt_def)

lemma stop_waits_witness:
  "worker (stop_request demo_queued) \<noteq> Exited \<and> stop_finish (stop_request demo_queued) = None \<and>
   sent (stop_request demo_queued) = sent demo_queued"
proof (rule stop_waits_for_unreachable_server)
  show "sender_run LittleEndian demo_dump {demo_down} demo_queued (stop_request demo_queued)"
    unfolding sender_run_def by (rule r_into_rtranclp) (rule step_stop)
qed (use demo_queued_eq in \<open>simp_all add: conn_fails_def demo_down_def pending_def inflight_def\<close>)

lemma stop_flushes_witness:
  "\<exists>s'. run_worker (2 * length (m_queue demo_queued) + 2) BigEndian demo_dump demo_io 9
      (stop_request demo_queued) = Some s' \<and>
     worker s' = Exited \<and> m_queue s' = [] \<and> sent s' = sent demo_queued @ m_queue demo_queued"
  by (rule stop_flushes_queue) (use demo_queued_eq in \<open>simp_all add: demo_io_ok demo_opt_def\<close>)

end
