(* ===== verification/Message.thy ===== *)
theory Message
  imports Byte_Order
begin

section \<open>The message envelope: \<open>src/common/protocol/message.h\<close>\<close>

text \<open>
  \<open>Message<MT>\<close>: a type byte, a 16-bit length in network order and a body, kept in the string
  \<open>payload_\<close>. The two virtual functions that subclasses implement, the protobuf parser and the
  indeterminate values of uninitialised members are parameters. \<open>std::string::data()\<close> points to
  the characters and a terminating zero; a copy that reads beyond it is undefined and is the
  error \<open>OutOfBounds\<close>. \<open>serialize\<close> is declared to return a string, but its return statement is commented
  out: a call that comes to the end of its body is undefined, the error \<open>No_return\<close>. What the body does to
  the object until then is \<open>serialize_payload\<close>.
\<close>

record 'm message =
  message_type :: u8
  message_len :: u16
  mt :: 'm
  body :: "byte list"
  payload :: "byte list"

datatype msg_error = InvalidMessage | OutOfBounds | No_return

definition MSG_C0 :: u8 where "MSG_C0 = 0xc0"
definition MSG_C1 :: u8 where "MSG_C1 = 0xc1"
definition MSG_D1 :: u8 where "MSG_D1 = 0xd1"
definition MSG_D2 :: u8 where "MSG_D2 = 0xd2"

definition HEADER_LENGTH :: nat where "HEADER_LENGTH = 38"

text \<open>
  The constructors; \<open>raw\<close> holds the indeterminate scalar members of the new object. The copy
  constructor copies the payload and nothing else, and the move constructor returns what it
  leaves of the source too.
\<close>

definition Message_default :: "'m message \<Rightarrow> 'm message" where
  "Message_default raw = raw\<lparr>body := [], payload := []\<rparr>"

definition Message_data :: "'m message \<Rightarrow> byte list \<Rightarrow> 'm message" where
  "Message_data raw data = (Message_default raw)\<lparr>payload := data\<rparr>"

definition Message_copy :: "'m message \<Rightarrow> 'm message \<Rightarrow> 'm message" where
  "Message_copy raw other = (Message_default raw)\<lparr>payload := payload other\<rparr>"

definition Message_move ::
  "'m message \<Rightarrow> (byte list \<Rightarrow> byte list) \<Rightarrow> 'm message \<Rightarrow> 'm message \<times> 'm message" where
  "Message_move raw moved other =
     ((Message_default raw)\<lparr>payload := payload other\<rparr>, other\<lparr>payload := moved (payload other)\<rparr>)"

definition setPayload :: "byte list \<Rightarrow> 'm message \<Rightarrow> 'm message" where
  "setPayload data m = m\<lparr>payload := data\<rparr>"

definition getPayload :: "'m message \<Rightarrow> byte list" where
  "getPayload m = payload m"

definition setMessageType :: "u8 \<Rightarrow> 'm message \<Rightarrow> 'm message" where
  "setMessageType t m = m\<lparr>message_type := t\<rparr>"

definition getMessageType :: "'m message \<Rightarrow> u8" where
  "getMessageType m = message_type m"

definition setMessageLen :: "u32 \<Rightarrow> 'm message \<Rightarrow> 'm message" where
  "setMessageLen len m = m\<lparr>message_len := ucast len\<rparr>"

definition getMessageLen :: "'m message \<Rightarrow> u32" where
  "getMessageLen m = ucast (message_len m)"

text \<open>\<open>memcpy\<close> of \<open>n\<close> bytes from \<open>data() + off\<close> of a string, and to an offset of another.\<close>

definition read_mem :: "byte list \<Rightarrow> nat \<Rightarrow> nat \<Rightarrow> byte list option" where
  "read_mem str off n =
     (if off + n \<le> length str + 1 then Some (take n (drop off (str @ [0]))) else None)"

definition write_mem :: "byte list \<Rightarrow> nat \<Rightarrow> byte list \<Rightarrow> byte list" where
  "write_mem str off bs = take off str @ bs @ drop (off + length bs) str"

definition serialize_payload ::
  "endian \<Rightarrow> ('m message \<Rightarrow> 'm message) \<Rightarrow> 'm message \<Rightarrow> msg_error + 'm message" where
  "serialize_payload e bodySerialize m =
     (let m1 = bodySerialize m;
          len = unat (message_len m1);
          p0 = replicate (HEADER_LENGTH + len) 0;
          p1 = write_mem p0 0 [message_type m1];
          net_len = hostToNet16 e (message_len m1);
          p2 = write_mem p1 1 (mem_store e 2 net_len)
      in case read_mem (body m1) 0 len of
           None \<Rightarrow> Inl OutOfBounds
         | Some bs \<Rightarrow> Inr (m1\<lparr>payload := write_mem p2 3 bs\<rparr>))"

definition serialize ::
  "endian \<Rightarrow> ('m message \<Rightarrow> 'm message) \<Rightarrow> 'm message \<Rightarrow> msg_error + byte list \<times> 'm message" where
  "serialize e bodySerialize m =
     (case serialize_payload e bodySerialize m of Inl err \<Rightarrow> Inl err | Inr _ \<Rightarrow> Inl No_return)"

definition deserialize ::
  "endian \<Rightarrow> ('m message \<Rightarrow> 'm message) \<Rightarrow> 'm message \<Rightarrow> msg_error + 'm message" where
  "deserialize e bodyDeserialize m =
     (if length (payload m) < HEADER_LENGTH then Inl InvalidMessage
      else
        let m1 = m\<lparr>message_type := payload m ! 0\<rparr>;
            net_len = mem_load e (take 2 (drop 1 (payload m)));
            m2 = m1\<lparr>message_len := netToHost16 e net_len\<rparr>
        in case read_mem (payload m) 3 (unat (message_len m2)) of
             None \<Rightarrow> Inl OutOfBounds
           | Some bs \<Rightarrow>
               (let m3 = m2\<lparr>body := bs\<rparr>
                in if unat (message_len m3) \<noteq> length (body m3) then Inl InvalidMessage
                   else Inr (bodyDeserialize m3)))"

definition parseBody :: "(byte list \<Rightarrow> 'm \<Rightarrow> bool \<times> 'm) \<Rightarrow> 'm message \<Rightarrow> bool \<times> 'm message" where
  "parseBody ParseFromString m =
     (case ParseFromString (body m) (mt m) of (ok, v) \<Rightarrow> (ok, m\<lparr>mt := v\<rparr>))"

subsection \<open>Reading and writing memory\<close>

lemma length_read_mem: "read_mem str off n = Some bs \<Longrightarrow> length bs = n"
  by (auto simp: read_mem_def split: if_splits)

lemma read_mem_exact: "off + n \<le> length str \<Longrightarrow> read_mem str off n = Some (take n (drop off str))"
  by (simp add: read_mem_def)

lemma length_write_mem [simp]:
  "off + length bs \<le> length str \<Longrightarrow> length (write_mem str off bs) = length str"
  by (simp add: write_mem_def)

text \<open>The layout \<open>serialize_payload\<close> produces: 3 bytes of header, the body, and 35 zero bytes.\<close>

lemma payload_layout:
  assumes "length bs = len"
  shows "write_mem (write_mem (write_mem (replicate (HEADER_LENGTH + len) 0) 0 [t]) 1
           (mem_store e 2 (hostToNet16 e l))) 3 bs =
         t # be_bytes 2 l @ bs @ replicate 35 0"
proof -
  have ab: "be_bytes 2 l = [ucast (drop_bit 8 l), ucast l]"
    by (simp add: be_bytes_def numeral_2_eq_2)
  have n: "HEADER_LENGTH + len = Suc (Suc (Suc (len + 35)))" by (simp add: HEADER_LENGTH_def)
  have z: "replicate (HEADER_LENGTH + len) 0 = [0, 0, 0] @ replicate len 0 @ replicate 35 (0 :: byte)"
    by (simp only: n replicate_Suc replicate_add append_Cons append_Nil)
  show ?thesis
    unfolding z write_mem_def net16.net_image ab using assms by (simp add: numeral_3_eq_3)
qed

text \<open>No call of \<open>serialize\<close> is defined.\<close>

lemma serialize_undefined: "\<exists>err \<in> {OutOfBounds, No_return}. serialize e bs m = Inl err"
  by (simp add: serialize_def serialize_payload_def Let_def split: option.split)

lemma serialize_layout:
  assumes "length (body (bs m)) = unat (message_len (bs m))"
  shows "serialize_payload e bs m = Inr ((bs m)\<lparr>payload :=
           message_type (bs m) # be_bytes 2 (message_len (bs m)) @ body (bs m) @ replicate 35 0\<rparr>)"
proof -
  have "read_mem (body (bs m)) 0 (unat (message_len (bs m))) = Some (body (bs m))"
    using assms by (simp add: read_mem_def)
  then show ?thesis
    using payload_layout [OF assms] by (simp add: serialize_payload_def Let_def)
qed

subsection \<open>Properties of the envelope\<close>

text \<open>What \<open>deserialize\<close> reads from a payload that starts with a well-formed header.\<close>

lemma deserialize_header:
  assumes "payload m = t # be_bytes 2 l @ rest" and "35 \<le> length rest" and "unat l \<le> length rest"
  shows "deserialize e bd m =
    Inr (bd (m\<lparr>message_type := t, message_len := l, body := take (unat l) rest\<rparr>))"
proof -
  have "read_mem (t # be_bytes 2 l @ rest) 3 (unat l) = Some (take (unat l) rest)"
    using assms(3) by (simp add: read_mem_exact numeral_3_eq_3)
  moreover have "\<not> length (payload m) < HEADER_LENGTH"
    using assms(1,2) by (simp add: HEADER_LENGTH_def)
  ultimately show ?thesis
    using assms(1,3) by (simp add: deserialize_def Let_def net16.get_network)
qed

text \<open>
  Envelope round trip: a message whose subclass sets a body of the announced length is
  laid out in the payload without reading out of bounds, and a receiver of any byte order that deserialises
  the payload gets back the type, the length and the body before handing over to
  \<open>bodyDeserialize\<close>.
\<close>

theorem message_roundtrip:
  assumes "length (body (bodySerialize m)) = unat (message_len (bodySerialize m))"
  shows "\<exists>m'. serialize_payload e bodySerialize m = Inr m' \<and>
    deserialize d bodyDeserialize (setPayload (getPayload m') r) =
      Inr (bodyDeserialize (r\<lparr>payload := payload m', message_type := message_type (bodySerialize m),
             message_len := message_len (bodySerialize m), body := body (bodySerialize m)\<rparr>))"
proof -
  let ?b = "bodySerialize m"
  let ?p = "message_type ?b # be_bytes 2 (message_len ?b) @ body ?b @ replicate 35 0"
  have "deserialize d bodyDeserialize (r\<lparr>payload := ?p\<rparr>) =
      Inr (bodyDeserialize (r\<lparr>payload := ?p, message_type := message_type ?b,
             message_len := message_len ?b, body := body ?b\<rparr>))"
    using deserialize_header [of "r\<lparr>payload := ?p\<rparr>" "message_type ?b" "message_len ?b"
        "body ?b @ replicate 35 0" d bodyDeserialize] assms by simp
  then show ?thesis
    using serialize_layout [of bodySerialize m, OF assms] by (simp add: setPayload_def getPayload_def)
qed

definition demo_message :: "nat message" where
  "demo_message = \<lparr>message_type = MSG_D1, message_len = 2, mt = 0, body = [8, 1], payload = []\<rparr>"

lemma message_roundtrip_witness:
  "\<exists>m'. serialize_payload LittleEndian id demo_message = Inr m' \<and>
    deserialize BigEndian id (setPayload (getPayload m') demo_message) =
      Inr (id (demo_message\<lparr>payload := payload m', message_type := message_type (id demo_message),
        message_len := message_len (id demo_message), body := body (id demo_message)\<rparr>))"
  by (rule message_roundtrip) (simp add: demo_message_def)

text \<open>
  C38. What \<open>deserialize\<close> does with every payload: it throws exactly when the payload is shorter
  than 38 bytes, its second length check never fires, and when the announced length reaches past
  the payload and its terminating zero it reads out of bounds instead of throwing.
\<close>

theorem deserialize_outcome:
  "(deserialize e bd m = Inl InvalidMessage \<longleftrightarrow> length (payload m) < 38) \<and>
   (deserialize e bd m = Inl OutOfBounds \<longleftrightarrow>
      38 \<le> length (payload m) \<and>
      length (payload m) < 2 + unat (netToHost16 e (mem_load e (take 2 (drop 1 (payload m))))))"
proof (cases "length (payload m) < 38")
  case True
  then show ?thesis by (simp add: deserialize_def HEADER_LENGTH_def)
next
  case False
  let ?n = "unat (netToHost16 e (mem_load e (take 2 (drop 1 (payload m)))))"
  show ?thesis
  proof (cases "read_mem (payload m) 3 ?n")
    case None
    then show ?thesis
      using False by (simp add: deserialize_def HEADER_LENGTH_def Let_def)
        (simp add: read_mem_def split: if_splits)
  next
    case (Some bs)
    then have "length bs = ?n" and "3 + ?n \<le> length (payload m) + 1"
      by (auto simp: read_mem_def split: if_splits)
    then show ?thesis
      using False Some by (simp add: deserialize_def HEADER_LENGTH_def Let_def)
  qed
qed

text \<open>
  Lengths beyond 16 bits are truncated: the length announced for a body set through the
  32-bit setter is the length modulo 65536, and the payload built from it drops the rest of the
  body while keeping 35 bytes of padding behind what it wrote.
\<close>

theorem setMessageLen_truncates:
  assumes "bodySerialize m = setMessageLen (of_nat (length b)) (r\<lparr>body := b\<rparr>)"
    and "length b < 2 ^ 32"
  shows "getMessageLen (bodySerialize m) = of_nat (length b mod 65536) \<and>
    (\<exists>m'. serialize_payload e bodySerialize m = Inr m' \<and>
       payload m' = message_type r # be_bytes 2 (of_nat (length b) :: u16) @
         take (length b mod 65536) b @ replicate 35 0)"
proof -
  have len: "ucast (of_nat (length b) :: u32) = (of_nat (length b) :: u16)"
    using assms(2) by (simp add: unsigned_of_nat take_bit_nat_eq_self)
  have n: "unat (of_nat (length b) :: u16) = length b mod 65536" by (simp add: unat_of_nat)
  have g: "getMessageLen (bodySerialize m) = of_nat (length b mod 65536)"
    by (simp add: assms(1) getMessageLen_def setMessageLen_def len flip: n)
  have "length b mod 65536 \<le> length b" by simp
  then have rd: "read_mem b 0 (length b mod 65536) = Some (take (length b mod 65536) b)"
    by (simp add: read_mem_def)
  have tk: "length (take (length b mod 65536) b) = unat (of_nat (length b) :: u16)" by (simp add: n)
  show ?thesis
    using g rd payload_layout [OF tk, of "message_type r" e "of_nat (length b)"]
    by (simp add: serialize_payload_def assms(1) setMessageLen_def len Let_def n)
qed

lemma setMessageLen_truncates_witness:
  "getMessageLen (setMessageLen (of_nat (length [8, 1 :: byte])) (demo_message\<lparr>body := [8, 1]\<rparr>))
      = of_nat (length [8, 1 :: byte] mod 65536) \<and>
   (\<exists>m'. serialize_payload BigEndian (\<lambda>_. setMessageLen (of_nat (length [8, 1 :: byte])) (demo_message\<lparr>body := [8, 1]\<rparr>))
        demo_message = Inr m' \<and>
      payload m' = message_type demo_message # be_bytes 2 (of_nat (length [8, 1 :: byte]) :: u16) @
        take (length [8, 1 :: byte] mod 65536) [8, 1] @ replicate 35 0)"
  by (rule setMessageLen_truncates [where b = "[8, 1]"]) simp_all

end
