(* ===== verification/Config.thy ===== *)
theory Config
  imports Prelude
begin

section \<open>Configuration: \<open>src/common/config/parameters.h\<close>, \<open>configs_loader.cpp\<close>\<close>

text \<open>
  The parameter structures and the loader. The YAML library is a parameter, the record
  \<open>yaml\<close> of the functions the loader calls: reading a file, indexing a node, testing whether
  a node is defined, and converting a node. Those that can throw return a sum. The loader
  assigns the fields of its argument as it goes, and both a missing section and a caught
  exception make it return false, so every step is a function from the parameters to a flag and
  the parameters, and \<open>run_steps\<close> stops at the first false.
\<close>

record DatabaseParams =
  db_host :: string
  db_port :: int
  db_user :: string
  db_password :: string
  db_name :: string

record RetentionParams =
  history_retention_days :: int
  trend_retention_days :: int

record LogParams =
  log_dir :: string
  max_log_file_size :: int
  max_log_file_num :: int
  log_level :: string

record ServerParams =
  srv_host :: string
  srv_port :: int

record Parameters =
  db_params :: DatabaseParams
  retention_params :: RetentionParams
  log_params :: LogParams
  http_server_params :: ServerParams
  tcp_server_params :: ServerParams

record 'n yaml =
  LoadFile :: "string \<Rightarrow> string + 'n"
  node_index :: "'n \<Rightarrow> string \<Rightarrow> string + 'n"
  node_defined :: "'n \<Rightarrow> bool"
  as_string :: "'n \<Rightarrow> string + string"
  as_int :: "'n \<Rightarrow> string + int"

type_synonym load_step = "Parameters \<Rightarrow> bool \<times> Parameters"

primrec run_steps :: "load_step list \<Rightarrow> load_step" where
  "run_steps [] p = (True, p)"
| "run_steps (f # fs) p = (case f p of (ok, p1) \<Rightarrow> if ok then run_steps fs p1 else (False, p1))"

text \<open>\<open>if (config[sec][key]) params.f = config[sec][key].as<T>();\<close> with the section's node given.\<close>

definition load_key ::
  "'n yaml \<Rightarrow> ('n \<Rightarrow> string + 'v) \<Rightarrow> 'n \<Rightarrow> string \<Rightarrow> ('v \<Rightarrow> Parameters \<Rightarrow> Parameters) \<Rightarrow> load_step" where
  "load_key y conv sec key upd p =
     (case node_index y sec key of
        Inl e \<Rightarrow> (False, p)
      | Inr n \<Rightarrow>
          if node_defined y n
          then (case conv n of Inl e \<Rightarrow> (False, p) | Inr v \<Rightarrow> (True, upd v p))
          else (True, p))"

definition load_section ::
  "'n yaml \<Rightarrow> 'n \<Rightarrow> string \<Rightarrow> ('n \<Rightarrow> load_step list) \<Rightarrow> load_step" where
  "load_section y config name steps p =
     (case node_index y config name of
        Inl e \<Rightarrow> (False, p)
      | Inr sec \<Rightarrow> if \<not> node_defined y sec then (False, p) else run_steps (steps sec) p)"

definition load_database :: "'n yaml \<Rightarrow> 'n \<Rightarrow> load_step list" where
  "load_database y sec =
     [load_key y (as_string y) sec ''host'' (\<lambda>v p. p\<lparr>db_params := (db_params p)\<lparr>db_host := v\<rparr>\<rparr>),
      load_key y (as_int y) sec ''port'' (\<lambda>v p. p\<lparr>db_params := (db_params p)\<lparr>db_port := v\<rparr>\<rparr>),
      load_key y (as_string y) sec ''username'' (\<lambda>v p. p\<lparr>db_params := (db_params p)\<lparr>db_user := v\<rparr>\<rparr>),
      load_key y (as_string y) sec ''password'' (\<lambda>v p. p\<lparr>db_params := (db_params p)\<lparr>db_password := v\<rparr>\<rparr>),
      load_key y (as_string y) sec ''database_name'' (\<lambda>v p. p\<lparr>db_params := (db_params p)\<lparr>db_name := v\<rparr>\<rparr>)]"

definition load_retention :: "'n yaml \<Rightarrow> 'n \<Rightarrow> load_step list" where
  "load_retention y sec =
     [load_key y (as_int y) sec ''history_retention_days''
        (\<lambda>v p. p\<lparr>retention_params := (retention_params p)\<lparr>history_retention_days := v\<rparr>\<rparr>),
      load_key y (as_int y) sec ''trend_retention_days''
        (\<lambda>v p. p\<lparr>retention_params := (retention_params p)\<lparr>trend_retention_days := v\<rparr>\<rparr>)]"

definition load_log :: "'n yaml \<Rightarrow> 'n \<Rightarrow> load_step list" where
  "load_log y sec =
     [load_key y (as_string y) sec ''log_dir'' (\<lambda>v p. p\<lparr>log_params := (log_params p)\<lparr>log_dir := v\<rparr>\<rparr>),
      load_key y (as_string y) sec ''log_level'' (\<lambda>v p. p\<lparr>log_params := (log_params p)\<lparr>log_level := v\<rparr>\<rparr>),
      load_key y (as_int y) sec ''max_log_file_size''
        (\<lambda>v p. p\<lparr>log_params := (log_params p)\<lparr>max_log_file_size := v\<rparr>\<rparr>),
      load_key y (as_int y) sec ''max_log_file_num''
        (\<lambda>v p. p\<lparr>log_params := (log_params p)\<lparr>max_log_file_num := v\<rparr>\<rparr>)]"

definition load_http :: "'n yaml \<Rightarrow> 'n \<Rightarrow> load_step list" where
  "load_http y sec =
     [load_key y (as_string y) sec ''host''
        (\<lambda>v p. p\<lparr>http_server_params := (http_server_params p)\<lparr>srv_host := v\<rparr>\<rparr>),
      load_key y (as_int y) sec ''port''
        (\<lambda>v p. p\<lparr>http_server_params := (http_server_params p)\<lparr>srv_port := v\<rparr>\<rparr>)]"

definition load_tcp :: "'n yaml \<Rightarrow> 'n \<Rightarrow> load_step list" where
  "load_tcp y sec =
     [load_key y (as_string y) sec ''host''
        (\<lambda>v p. p\<lparr>tcp_server_params := (tcp_server_params p)\<lparr>srv_host := v\<rparr>\<rparr>),
      load_key y (as_int y) sec ''port''
        (\<lambda>v p. p\<lparr>tcp_server_params := (tcp_server_params p)\<lparr>srv_port := v\<rparr>\<rparr>)]"

definition loadConfigs :: "'n yaml \<Rightarrow> string \<Rightarrow> load_step" where
  "loadConfigs y path p =
     (case LoadFile y path of
        Inl e \<Rightarrow> (False, p)
      | Inr config \<Rightarrow>
          run_steps
            [load_section y config ''database'' (load_database y),
             load_section y config ''retention'' (load_retention y),
             load_section y config ''log'' (load_log y),
             load_section y config ''http_server'' (load_http y),
             load_section y config ''tcp_server'' (load_tcp y)] p)"

subsection \<open>Validation\<close>

text \<open>The checks in their order; some failing checks also repair the field they reject.\<close>

definition validateConfigs :: load_step where
  "validateConfigs p =
     (if db_host (db_params p) = [] \<or> length (db_host (db_params p)) > 255 then (False, p)
      else if db_port (db_params p) \<le> 0 \<or> db_port (db_params p) > 65535 then (False, p)
      else if db_user (db_params p) = [] then (False, p)
      else if db_password (db_params p) = [] then (False, p)
      else if db_name (db_params p) = [] then (False, p)
      else if log_dir (log_params p) = []
        then (False, p\<lparr>log_params := (log_params p)\<lparr>log_dir := ''./log''\<rparr>\<rparr>)
      else if log_level (log_params p) = []
        then (False, p\<lparr>log_params := (log_params p)\<lparr>log_level := ''info''\<rparr>\<rparr>)
      else if max_log_file_size (log_params p) \<le> 0
        then (False, p\<lparr>log_params := (log_params p)\<lparr>max_log_file_size := 100\<rparr>\<rparr>)
      else if max_log_file_num (log_params p) \<le> 0
        then (False, p\<lparr>log_params := (log_params p)\<lparr>max_log_file_num := 10\<rparr>\<rparr>)
      else if history_retention_days (retention_params p) < -1
              \<or> trend_retention_days (retention_params p) < -1 then (False, p)
      else if srv_host (http_server_params p) = []
        then (False, p\<lparr>http_server_params := (http_server_params p)\<lparr>srv_host := ''localhost''\<rparr>\<rparr>)
      else if srv_port (http_server_params p) \<le> 0 \<or> srv_port (http_server_params p) > 65535
        then (False, p\<lparr>http_server_params := (http_server_params p)\<lparr>srv_port := 20317\<rparr>\<rparr>)
      else if srv_host (tcp_server_params p) = []
        then (False, p\<lparr>tcp_server_params := (tcp_server_params p)\<lparr>srv_host := ''localhost''\<rparr>\<rparr>)
      else if srv_port (tcp_server_params p) \<le> 0 \<or> srv_port (tcp_server_params p) > 65535
        then (False, p\<lparr>tcp_server_params := (tcp_server_params p)\<lparr>srv_port := 21210\<rparr>\<rparr>)
      else (True, p))"

text \<open>\<open>file_exists\<close> is whether \<open>access(path, F_OK)\<close> succeeds.\<close>

definition initConfigs :: "'n yaml \<Rightarrow> (string \<Rightarrow> bool) \<Rightarrow> string \<Rightarrow> load_step" where
  "initConfigs y file_exists path p =
     (if \<not> file_exists path then (False, p)
      else case loadConfigs y path p of
             (ok, p1) \<Rightarrow> if \<not> ok then (False, p1) else validateConfigs p1)"

subsection \<open>What a valid configuration is\<close>

definition valid_port :: "int \<Rightarrow> bool" where
  "valid_port n \<longleftrightarrow> 0 < n \<and> n \<le> 65535"

definition valid_fixed :: "Parameters \<Rightarrow> bool" where
  "valid_fixed p \<longleftrightarrow>
     db_host (db_params p) \<noteq> [] \<and> length (db_host (db_params p)) \<le> 255 \<and>
     valid_port (db_port (db_params p)) \<and> db_user (db_params p) \<noteq> [] \<and>
     db_password (db_params p) \<noteq> [] \<and> db_name (db_params p) \<noteq> [] \<and>
     -1 \<le> history_retention_days (retention_params p) \<and>
     -1 \<le> trend_retention_days (retention_params p)"

text \<open>The number of rejected fields that validation repairs.\<close>

definition repairs_left :: "Parameters \<Rightarrow> nat" where
  "repairs_left p =
     of_bool (log_dir (log_params p) = []) + of_bool (log_level (log_params p) = []) +
     of_bool (max_log_file_size (log_params p) \<le> 0) + of_bool (max_log_file_num (log_params p) \<le> 0) +
     of_bool (srv_host (http_server_params p) = []) +
     of_bool (\<not> valid_port (srv_port (http_server_params p))) +
     of_bool (srv_host (tcp_server_params p) = []) +
     of_bool (\<not> valid_port (srv_port (tcp_server_params p)))"

definition valid_config :: "Parameters \<Rightarrow> bool" where
  "valid_config p \<longleftrightarrow> valid_fixed p \<and> repairs_left p = 0"

lemma validate_accepts: "fst (validateConfigs p) \<longleftrightarrow> valid_config p"
  by (auto simp: validateConfigs_def valid_config_def valid_fixed_def repairs_left_def valid_port_def)

lemma validate_keeps: "valid_config p \<Longrightarrow> validateConfigs p = (True, p)"
  by (simp add: validateConfigs_def valid_config_def valid_fixed_def repairs_left_def valid_port_def)

lemma validate_repairs:
  assumes "valid_fixed p" and "0 < repairs_left p"
  shows "\<exists>p'. validateConfigs p = (False, p') \<and> valid_fixed p' \<and> Suc (repairs_left p') = repairs_left p"
proof -
  have "valid_port 20317" "valid_port 21210"
    by (simp_all add: valid_port_def)
  moreover have "(n \<le> 0 \<or> 65535 < n) \<longleftrightarrow> \<not> valid_port n" for n
    by (auto simp: valid_port_def)
  ultimately show ?thesis
    using assms unfolding validateConfigs_def valid_fixed_def repairs_left_def
    by (simp add: not_less) blast
qed

subsection \<open>What loading does to each field\<close>

text \<open>
  \<open>key_ok\<close>: reading the key of the section throws nothing; \<open>setting\<close>: the value the field
  holds afterwards, its old value when the key is absent.
\<close>

definition key_ok :: "'n yaml \<Rightarrow> ('n \<Rightarrow> string + 'v) \<Rightarrow> 'n \<Rightarrow> string \<Rightarrow> bool" where
  "key_ok y conv sec key \<longleftrightarrow>
     (case node_index y sec key of
        Inl e \<Rightarrow> False
      | Inr n \<Rightarrow> node_defined y n \<longrightarrow> \<not> isl (conv n))"

definition setting :: "'n yaml \<Rightarrow> ('n \<Rightarrow> string + 'v) \<Rightarrow> 'n \<Rightarrow> string \<Rightarrow> 'v \<Rightarrow> 'v" where
  "setting y conv sec key old =
     (case node_index y sec key of
        Inl e \<Rightarrow> old
      | Inr n \<Rightarrow> if node_defined y n then (case conv n of Inl e \<Rightarrow> old | Inr v \<Rightarrow> v) else old)"

definition the_section :: "'n yaml \<Rightarrow> 'n \<Rightarrow> string \<Rightarrow> 'n option" where
  "the_section y config name =
     (case node_index y config name of
        Inl e \<Rightarrow> None
      | Inr sec \<Rightarrow> if node_defined y sec then Some sec else None)"

definition keys_ok :: "'n yaml \<Rightarrow> 'n \<Rightarrow> string list \<Rightarrow> string list \<Rightarrow> bool" where
  "keys_ok y sec strings ints \<longleftrightarrow>
     (\<forall>k\<in>set strings. key_ok y (as_string y) sec k) \<and> (\<forall>k\<in>set ints. key_ok y (as_int y) sec k)"

lemma load_key_step:
  assumes "upd (sel p) p = p"
  shows "load_key y conv sec key upd p
         = (key_ok y conv sec key, upd (setting y conv sec key (sel p)) p)"
  using assms by (simp add: load_key_def key_ok_def setting_def split: sum.split)

lemma load_section_steps:
  "load_section y config name steps p
   = (case the_section y config name of None \<Rightarrow> (False, p) | Some sec \<Rightarrow> run_steps (steps sec) p)"
  by (simp add: load_section_def the_section_def split: sum.split)

lemma run_steps_key:
  assumes "\<And>p. upd (sel p) p = p"
  shows "run_steps (load_key y conv sec key upd # fs) p = (True, p') \<longleftrightarrow>
         key_ok y conv sec key \<and> run_steps fs (upd (setting y conv sec key (sel p)) p) = (True, p')"
  by (simp add: load_key_step [where sel = sel and upd = upd] assms)

lemmas run_steps_Cons = run_steps.simps(2)

declare run_steps_Cons [simp del]

lemma run_steps_section:
  "run_steps (load_section y config name steps # fs) p = (True, p') \<longleftrightarrow>
   (\<exists>sec p1. the_section y config name = Some sec \<and> run_steps (steps sec) p = (True, p1)
             \<and> run_steps fs p1 = (True, p'))"
  by (auto simp: load_section_steps run_steps_Cons split: option.split prod.splits)

definition database_of :: "'n yaml \<Rightarrow> 'n \<Rightarrow> DatabaseParams \<Rightarrow> DatabaseParams" where
  "database_of y sec d =
     \<lparr>db_host = setting y (as_string y) sec ''host'' (db_host d),
      db_port = setting y (as_int y) sec ''port'' (db_port d),
      db_user = setting y (as_string y) sec ''username'' (db_user d),
      db_password = setting y (as_string y) sec ''password'' (db_password d),
      db_name = setting y (as_string y) sec ''database_name'' (db_name d)\<rparr>"

definition retention_of :: "'n yaml \<Rightarrow> 'n \<Rightarrow> RetentionParams \<Rightarrow> RetentionParams" where
  "retention_of y sec r =
     \<lparr>history_retention_days =
        setting y (as_int y) sec ''history_retention_days'' (history_retention_days r),
      trend_retention_days =
        setting y (as_int y) sec ''trend_retention_days'' (trend_retention_days r)\<rparr>"

definition log_of :: "'n yaml \<Rightarrow> 'n \<Rightarrow> LogParams \<Rightarrow> LogParams" where
  "log_of y sec l =
     \<lparr>log_dir = setting y (as_string y) sec ''log_dir'' (log_dir l),
      max_log_file_size = setting y (as_int y) sec ''max_log_file_size'' (max_log_file_size l),
      max_log_file_num = setting y (as_int y) sec ''max_log_file_num'' (max_log_file_num l),
      log_level = setting y (as_string y) sec ''log_level'' (log_level l)\<rparr>"

definition server_of :: "'n yaml \<Rightarrow> 'n \<Rightarrow> ServerParams \<Rightarrow> ServerParams" where
  "server_of y sec h =
     \<lparr>srv_host = setting y (as_string y) sec ''host'' (srv_host h),
      srv_port = setting y (as_int y) sec ''port'' (srv_port h)\<rparr>"

lemma load_database_outcome:
  "run_steps (load_database y sec) p = (True, p') \<longleftrightarrow>
   keys_ok y sec [''host'', ''username'', ''password'', ''database_name''] [''port'']
   \<and> p' = p\<lparr>db_params := database_of y sec (db_params p)\<rparr>"
  unfolding load_database_def keys_ok_def database_of_def
  by (auto simp: run_steps_key [where sel = "\<lambda>p. db_host (db_params p)"]
      run_steps_key [where sel = "\<lambda>p. db_port (db_params p)"]
      run_steps_key [where sel = "\<lambda>p. db_user (db_params p)"]
      run_steps_key [where sel = "\<lambda>p. db_password (db_params p)"]
      run_steps_key [where sel = "\<lambda>p. db_name (db_params p)"])

lemma load_retention_outcome:
  "run_steps (load_retention y sec) p = (True, p') \<longleftrightarrow>
   keys_ok y sec [] [''history_retention_days'', ''trend_retention_days'']
   \<and> p' = p\<lparr>retention_params := retention_of y sec (retention_params p)\<rparr>"
  unfolding load_retention_def keys_ok_def retention_of_def
  by (auto simp: run_steps_key [where sel = "\<lambda>p. history_retention_days (retention_params p)"]
      run_steps_key [where sel = "\<lambda>p. trend_retention_days (retention_params p)"])

lemma load_log_outcome:
  "run_steps (load_log y sec) p = (True, p') \<longleftrightarrow>
   keys_ok y sec [''log_dir'', ''log_level''] [''max_log_file_size'', ''max_log_file_num'']
   \<and> p' = p\<lparr>log_params := log_of y sec (log_params p)\<rparr>"
  unfolding load_log_def keys_ok_def log_of_def
  by (auto simp: run_steps_key [where sel = "\<lambda>p. log_dir (log_params p)"]
      run_steps_key [where sel = "\<lambda>p. log_level (log_params p)"]
      run_steps_key [where sel = "\<lambda>p. max_log_file_size (log_params p)"]
      run_steps_key [where sel = "\<lambda>p. max_log_file_num (log_params p)"])

lemma load_http_outcome:
  "run_steps (load_http y sec) p = (True, p') \<longleftrightarrow>
   keys_ok y sec [''host''] [''port'']
   \<and> p' = p\<lparr>http_server_params := server_of y sec (http_server_params p)\<rparr>"
  unfolding load_http_def keys_ok_def server_of_def
  by (auto simp: run_steps_key [where sel = "\<lambda>p. srv_host (http_server_params p)"]
      run_steps_key [where sel = "\<lambda>p. srv_port (http_server_params p)"])

lemma load_tcp_outcome:
  "run_steps (load_tcp y sec) p = (True, p') \<longleftrightarrow>
   keys_ok y sec [''host''] [''port'']
   \<and> p' = p\<lparr>tcp_server_params := server_of y sec (tcp_server_params p)\<rparr>"
  unfolding load_tcp_def keys_ok_def server_of_def
  by (auto simp: run_steps_key [where sel = "\<lambda>p. srv_host (tcp_server_params p)"]
      run_steps_key [where sel = "\<lambda>p. srv_port (tcp_server_params p)"])

lemmas load_outcomes = load_database_outcome load_retention_outcome load_log_outcome
  load_http_outcome load_tcp_outcome

text \<open>
  C25. \<open>loadConfigs\<close> succeeds exactly when the file parses, its five sections are defined and no
  key of them fails to convert, and then every field of the parameters holds the value of its
  own key, or its previous value when the key is absent.
\<close>

theorem loadConfigs_outcome:
  "loadConfigs y path p = (True, p') \<longleftrightarrow>
   (\<exists>config db ret lg http tcp.
      LoadFile y path = Inr config
      \<and> the_section y config ''database'' = Some db
      \<and> the_section y config ''retention'' = Some ret
      \<and> the_section y config ''log'' = Some lg
      \<and> the_section y config ''http_server'' = Some http
      \<and> the_section y config ''tcp_server'' = Some tcp
      \<and> keys_ok y db [''host'', ''username'', ''password'', ''database_name''] [''port'']
      \<and> keys_ok y ret [] [''history_retention_days'', ''trend_retention_days'']
      \<and> keys_ok y lg [''log_dir'', ''log_level''] [''max_log_file_size'', ''max_log_file_num'']
      \<and> keys_ok y http [''host''] [''port''] \<and> keys_ok y tcp [''host''] [''port'']
      \<and> p' = \<lparr>db_params = database_of y db (db_params p),
               retention_params = retention_of y ret (retention_params p),
               log_params = log_of y lg (log_params p),
               http_server_params = server_of y http (http_server_params p),
               tcp_server_params = server_of y tcp (tcp_server_params p)\<rparr>)"
  by (auto simp: loadConfigs_def run_steps_section load_outcomes split: sum.splits)

lemma validate_True:
  assumes "validateConfigs p = (True, p')"
  shows "p' = p \<and> valid_config p"
proof -
  have "valid_config p"
    using validate_accepts [of p] assms by simp
  then show ?thesis
    using validate_keeps [of p] assms by simp
qed

lemma initConfigs_accepts:
  assumes "initConfigs y file_exists path p = (True, p')"
  shows "file_exists path \<and> loadConfigs y path p = (True, p')"
  using assms by (auto simp: initConfigs_def dest: validate_True split: if_splits prod.splits)

lemma initConfigs_valid:
  assumes "initConfigs y file_exists path p = (True, p')"
  shows "valid_config p'"
  using assms by (auto simp: initConfigs_def dest: validate_True split: if_splits prod.splits)

text \<open>
  C26. Starting up with the file: \<open>initConfigs\<close> returns true only for a file that exists and
  loads, and the parameters it leaves are then the loaded ones, unchanged by validation, with
  valid ports, non-empty credentials, positive log limits and retentions of at least -1 days.
\<close>

theorem initConfigs_sound:
  assumes "initConfigs y file_exists path p = (True, p')"
  shows "file_exists path \<and> loadConfigs y path p = (True, p') \<and> valid_config p'"
  using initConfigs_accepts [OF assms] initConfigs_valid [OF assms] by simp

subsection \<open>What a rejection changes\<close>

text \<open>The fields that validation repairs, in the order of its checks, and what it puts there.\<close>

definition repairable :: "Parameters \<Rightarrow> (string + int) list" where
  "repairable p =
     [Inl (log_dir (log_params p)), Inl (log_level (log_params p)),
      Inr (max_log_file_size (log_params p)), Inr (max_log_file_num (log_params p)),
      Inl (srv_host (http_server_params p)), Inr (srv_port (http_server_params p)),
      Inl (srv_host (tcp_server_params p)), Inr (srv_port (tcp_server_params p))]"

definition defaults :: "(string + int) list" where
  "defaults = [Inl ''./log'', Inl ''info'', Inr 100, Inr 10, Inl ''localhost'', Inr 20317, Inl ''localhost'', Inr 21210]"

definition acceptable :: "nat \<Rightarrow> string + int \<Rightarrow> bool" where
  "acceptable i v \<longleftrightarrow> (case v of Inl w \<Rightarrow> w \<noteq> [] | Inr n \<Rightarrow> if i < 4 then 0 < n else valid_port n)"

lemma repairs_left_count:
  "repairs_left p = length (filter (\<lambda>i. \<not> acceptable i (repairable p ! i)) [0..<8])"
  by (simp add: repairs_left_def repairable_def acceptable_def upt_rec not_less)

lemma repairs:
  "repairable (p\<lparr>log_params := (log_params p)\<lparr>log_dir := ''./log''\<rparr>\<rparr>) = (repairable p)[0 := defaults ! 0]"
  "repairable (p\<lparr>log_params := (log_params p)\<lparr>log_level := ''info''\<rparr>\<rparr>) = (repairable p)[1 := defaults ! 1]"
  "repairable (p\<lparr>log_params := (log_params p)\<lparr>max_log_file_size := 100\<rparr>\<rparr>) = (repairable p)[2 := defaults ! 2]"
  "repairable (p\<lparr>log_params := (log_params p)\<lparr>max_log_file_num := 10\<rparr>\<rparr>) = (repairable p)[3 := defaults ! 3]"
  "repairable (p\<lparr>http_server_params := (http_server_params p)\<lparr>srv_host := ''localhost''\<rparr>\<rparr>) = (repairable p)[4 := defaults ! 4]"
  "repairable (p\<lparr>http_server_params := (http_server_params p)\<lparr>srv_port := 20317\<rparr>\<rparr>) = (repairable p)[5 := defaults ! 5]"
  "repairable (p\<lparr>tcp_server_params := (tcp_server_params p)\<lparr>srv_host := ''localhost''\<rparr>\<rparr>) = (repairable p)[6 := defaults ! 6]"
  "repairable (p\<lparr>tcp_server_params := (tcp_server_params p)\<lparr>srv_port := 21210\<rparr>\<rparr>) = (repairable p)[7 := defaults ! 7]"
  by (simp_all add: repairable_def defaults_def numeral_eq_Suc)

lemma checks:
  "log_dir (log_params p) = [] \<longleftrightarrow> \<not> acceptable 0 (repairable p ! 0)"
  "log_level (log_params p) = [] \<longleftrightarrow> \<not> acceptable 1 (repairable p ! 1)"
  "max_log_file_size (log_params p) \<le> 0 \<longleftrightarrow> \<not> acceptable 2 (repairable p ! 2)"
  "max_log_file_num (log_params p) \<le> 0 \<longleftrightarrow> \<not> acceptable 3 (repairable p ! 3)"
  "srv_host (http_server_params p) = [] \<longleftrightarrow> \<not> acceptable 4 (repairable p ! 4)"
  "srv_port (http_server_params p) \<le> 0 \<or> srv_port (http_server_params p) > 65535 \<longleftrightarrow> \<not> acceptable 5 (repairable p ! 5)"
  "srv_host (tcp_server_params p) = [] \<longleftrightarrow> \<not> acceptable 6 (repairable p ! 6)"
  "srv_port (tcp_server_params p) \<le> 0 \<or> srv_port (tcp_server_params p) > 65535 \<longleftrightarrow> \<not> acceptable 7 (repairable p ! 7)"
  by (auto simp: repairable_def acceptable_def valid_port_def)

definition first_repaired :: "Parameters \<Rightarrow> Parameters \<Rightarrow> bool" where
  "first_repaired p q \<longleftrightarrow>
     (\<exists>i<8. repairable q = (repairable p)[i := defaults ! i]
        \<and> \<not> acceptable i (repairable p ! i) \<and> (\<forall>j<i. acceptable j (repairable p ! j)))"

lemma first_repairedI:
  "i < 8 \<Longrightarrow> repairable q = (repairable p)[i := defaults ! i] \<Longrightarrow> \<not> acceptable i (repairable p ! i)
   \<Longrightarrow> list_all (\<lambda>j. acceptable j (repairable p ! j)) [0..<i] \<Longrightarrow> first_repaired p q"
  by (auto simp: first_repaired_def list_all_iff)

lemmas repaired = repairs [THEN first_repairedI [rotated]]

lemma validate_branch:
  "(b \<Longrightarrow> snd x = p \<or> first_repaired p (snd x)) \<Longrightarrow> (\<not> b \<Longrightarrow> snd y = p \<or> first_repaired p (snd y))
   \<Longrightarrow> snd (if b then x else y) = p \<or> first_repaired p (snd (if b then x else y))"
  by simp

lemma validate_changes:
  "snd (validateConfigs p) = p \<or> first_repaired p (snd (validateConfigs p))"
  unfolding validateConfigs_def checks
  by (intro validate_branch; (simp; fail)?; (rule disjI2, simp only: snd_conv, rule repaired; simp add: upt_rec numeral_eq_Suc))

text \<open>
  C39. Validation accepts exactly the valid parameters, and leaves them as they are. When it rejects,
  database and retention settings are never touched, and of the eight fields that have a default at
  most one changes: the first that is not acceptable gets its default. When nothing is wrong with the
  database and retention settings, each rejection does repair one field, so that one bad field fewer is
  left.
\<close>

theorem validation_outcome:
  "fst (validateConfigs p) = valid_config p
   \<and> (valid_config p \<longrightarrow> snd (validateConfigs p) = p)
   \<and> db_params (snd (validateConfigs p)) = db_params p \<and> retention_params (snd (validateConfigs p)) = retention_params p
   \<and> (snd (validateConfigs p) = p \<or> first_repaired p (snd (validateConfigs p)))
   \<and> (valid_fixed p \<and> \<not> valid_config p \<longrightarrow> Suc (repairs_left (snd (validateConfigs p))) = repairs_left p)"
proof (intro conjI impI)
  show "db_params (snd (validateConfigs p)) = db_params p" "retention_params (snd (validateConfigs p)) = retention_params p"
    by (simp_all add: validateConfigs_def)
  show "Suc (repairs_left (snd (validateConfigs p))) = repairs_left p" if "valid_fixed p \<and> \<not> valid_config p"
    using validate_repairs [of p] that by (auto simp: valid_config_def)
qed (simp_all add: validate_accepts validate_keeps validate_changes)

subsection \<open>Witnesses\<close>

datatype demo_node = Undef | Scalar string | Num int | Map "(string \<times> demo_node) list"

definition demo_yaml :: "demo_node \<Rightarrow> demo_node yaml" where
  "demo_yaml root =
     \<lparr>LoadFile = (\<lambda>path. if path = ''c.yaml'' then Inr root else Inl ''bad file''),
      node_index = (\<lambda>n k. case n of
          Map kvs \<Rightarrow> Inr (case map_of kvs k of None \<Rightarrow> Undef | Some v \<Rightarrow> v)
        | _ \<Rightarrow> Inl ''operator[] call on a scalar''),
      node_defined = (\<lambda>n. n \<noteq> Undef),
      as_string = (\<lambda>n. case n of Scalar s \<Rightarrow> Inr s | _ \<Rightarrow> Inl ''bad conversion''),
      as_int = (\<lambda>n. case n of Num i \<Rightarrow> Inr i | _ \<Rightarrow> Inl ''bad conversion'')\<rparr>"

definition demo_file :: demo_node where
  "demo_file = Map
     [(''database'', Map [(''host'', Scalar ''db''), (''port'', Num 3306), (''username'', Scalar ''u''),
                          (''password'', Scalar ''p''), (''database_name'', Scalar ''lm'')]),
      (''retention'', Map [(''history_retention_days'', Num 7), (''trend_retention_days'', Num (-1))]),
      (''log'', Map [(''log_dir'', Scalar ''l''), (''log_level'', Scalar ''info''),
                     (''max_log_file_size'', Num 10), (''max_log_file_num'', Num 5)]),
      (''http_server'', Map [(''host'', Scalar ''h'')]),
      (''tcp_server'', Map [(''port'', Num 21210), (''host'', Scalar ''t'')])]"

definition demo_params :: Parameters where
  "demo_params =
     \<lparr>db_params = \<lparr>db_host = [], db_port = 0, db_user = [], db_password = [], db_name = []\<rparr>,
      retention_params = \<lparr>history_retention_days = 0, trend_retention_days = 0\<rparr>,
      log_params = \<lparr>log_dir = [], max_log_file_size = 0, max_log_file_num = 0, log_level = []\<rparr>,
      http_server_params = \<lparr>srv_host = [], srv_port = 80\<rparr>,
      tcp_server_params = \<lparr>srv_host = [], srv_port = 0\<rparr>\<rparr>"

definition demo_loaded :: Parameters where
  "demo_loaded =
     \<lparr>db_params = \<lparr>db_host = ''db'', db_port = 3306, db_user = ''u'', db_password = ''p'', db_name = ''lm''\<rparr>,
      retention_params = \<lparr>history_retention_days = 7, trend_retention_days = -1\<rparr>,
      log_params = \<lparr>log_dir = ''l'', max_log_file_size = 10, max_log_file_num = 5, log_level = ''info''\<rparr>,
      http_server_params = \<lparr>srv_host = ''h'', srv_port = 80\<rparr>,
      tcp_server_params = \<lparr>srv_host = ''t'', srv_port = 21210\<rparr>\<rparr>"

lemmas demo_config_defs = run_steps_Cons demo_yaml_def demo_file_def demo_params_def demo_loaded_def
  loadConfigs_def load_section_def load_key_def load_database_def load_retention_def load_log_def
  load_http_def load_tcp_def validateConfigs_def initConfigs_def

lemma demo_initConfigs:
  "initConfigs (demo_yaml demo_file) (\<lambda>f. f = ''c.yaml'') ''c.yaml'' demo_params = (True, demo_loaded)"
  by (simp add: demo_config_defs)

theorem initConfigs_sound_witness:
  "loadConfigs (demo_yaml demo_file) ''c.yaml'' demo_params = (True, demo_loaded)
   \<and> valid_config demo_loaded \<and> srv_port (http_server_params demo_loaded) = 80"
  using initConfigs_sound [OF demo_initConfigs] by (simp add: demo_loaded_def)

definition demo_broken :: Parameters where
  "demo_broken = demo_loaded\<lparr>log_params := log_params demo_params\<rparr>"

theorem validation_outcome_witness:
  "\<not> fst (validateConfigs demo_broken) \<and> repairs_left (snd (validateConfigs demo_broken)) = 3"
proof -
  have r: "repairs_left demo_broken = 4"
    by (simp add: repairs_left_def demo_broken_def demo_loaded_def demo_params_def valid_port_def)
  have "valid_fixed demo_broken"
    by (simp add: valid_fixed_def demo_broken_def demo_loaded_def valid_port_def)
  then show ?thesis
    using validation_outcome [of demo_broken] r by (simp add: valid_config_def)
qed

end
