(* ===== verification/DB_Connection.thy ===== *)
theory DB_Connection
  imports Prelude
begin

section \<open>Database connections: \<open>src/core/db/db_config.h\<close>, \<open>db_operator.cpp\<close> (\<open>DBConnection\<close>)\<close>

text \<open>
  The MySQL client library is a parameter: the record \<open>mysql_lib\<close> of the functions the code calls,
  over an abstract library state \<open>'w\<close>. Handles are numbers, a null pointer is \<open>None\<close>, and 0 is the
  library's success code. \<open>'r\<close> is the type of stored result sets, \<open>nat\<close> also names prepared
  statements. A connection is the record of its two members.
\<close>

record DBConfig =
  cfg_host :: string
  cfg_user :: string
  cfg_password :: string
  cfg_database :: string
  cfg_port :: u32
  connect_timeout :: u32
  read_timeout :: u32
  write_timeout :: u32
  pool_timeout_ms :: u32
  pool_size :: u64

definition DBConfig_defaults :: "string \<Rightarrow> string \<Rightarrow> string \<Rightarrow> string \<Rightarrow> DBConfig" where
  "DBConfig_defaults h u pw db =
     \<lparr>cfg_host = h, cfg_user = u, cfg_password = pw, cfg_database = db, cfg_port = 3306,
      connect_timeout = 3, read_timeout = 3, write_timeout = 3, pool_timeout_ms = 3000, pool_size = 10\<rparr>"

record ('w, 'r) mysql_lib =
  mysql_init :: "'w \<Rightarrow> nat option \<times> 'w"
  mysql_real_connect :: "nat \<Rightarrow> string \<Rightarrow> string \<Rightarrow> string \<Rightarrow> string \<Rightarrow> u32 \<Rightarrow> 'w \<Rightarrow> bool \<times> 'w"
  mysql_ping :: "nat \<Rightarrow> 'w \<Rightarrow> int \<times> 'w"
  mysql_close :: "nat \<Rightarrow> 'w \<Rightarrow> 'w"
  mysql_query :: "nat \<Rightarrow> string \<Rightarrow> 'w \<Rightarrow> int \<times> 'w"
  mysql_store_result :: "nat \<Rightarrow> 'w \<Rightarrow> 'r option \<times> 'w"
  mysql_stmt_init :: "nat \<Rightarrow> 'w \<Rightarrow> nat \<times> 'w"
  mysql_stmt_prepare :: "nat \<Rightarrow> string \<Rightarrow> 'w \<Rightarrow> int \<times> 'w"
  mysql_stmt_bind_param :: "nat \<Rightarrow> 'w \<Rightarrow> int \<times> 'w"
  mysql_stmt_close :: "nat \<Rightarrow> 'w \<Rightarrow> 'w"

record DBConnection =
  db_config :: DBConfig
  mysql_ptr :: "nat option"

definition new_DBConnection :: "DBConfig \<Rightarrow> DBConnection" where
  "new_DBConnection cfg = \<lparr>db_config = cfg, mysql_ptr = None\<rparr>"

definition isConnected :: "('w, 'r) mysql_lib \<Rightarrow> DBConnection \<Rightarrow> 'w \<Rightarrow> bool \<times> 'w" where
  "isConnected lib c w =
     (case mysql_ptr c of
        None \<Rightarrow> (False, w)
      | Some h \<Rightarrow> (case mysql_ping lib h w of (rc, w1) \<Rightarrow> (rc = 0, w1)))"

definition connect :: "('w, 'r) mysql_lib \<Rightarrow> DBConnection \<Rightarrow> 'w \<Rightarrow> bool \<times> DBConnection \<times> 'w" where
  "connect lib c w =
     (case isConnected lib c w of (ok, w1) \<Rightarrow>
        if ok then (True, c, w1)
        else (case mysql_init lib w1 of
                (None, w2) \<Rightarrow> (False, c\<lparr>mysql_ptr := None\<rparr>, w2)
              | (Some h, w2) \<Rightarrow>
                  (let cfg = db_config c in
                   case mysql_real_connect lib h (cfg_host cfg) (cfg_user cfg) (cfg_password cfg)
                          (cfg_database cfg) (cfg_port cfg) w2 of (up, w3) \<Rightarrow>
                     if \<not> up then (False, c\<lparr>mysql_ptr := None\<rparr>, mysql_close lib h w3)
                     else (True, c\<lparr>mysql_ptr := Some h\<rparr>, w3))))"

definition disconnect :: "('w, 'r) mysql_lib \<Rightarrow> DBConnection \<Rightarrow> 'w \<Rightarrow> bool \<times> DBConnection \<times> 'w" where
  "disconnect lib c w =
     (case mysql_ptr c of
        None \<Rightarrow> (True, c, w)
      | Some h \<Rightarrow> (True, c\<lparr>mysql_ptr := None\<rparr>, mysql_close lib h w))"

text \<open>\<open>delete conn\<close>: the destructor disconnects.\<close>

definition DBConnection_destroy :: "('w, 'r) mysql_lib \<Rightarrow> DBConnection \<Rightarrow> 'w \<Rightarrow> 'w" where
  "DBConnection_destroy lib c w = snd (snd (disconnect lib c w))"

definition execute :: "('w, 'r) mysql_lib \<Rightarrow> DBConnection \<Rightarrow> string \<Rightarrow> 'w \<Rightarrow> bool \<times> 'w" where
  "execute lib c sql w =
     (case isConnected lib c w of (ok, w1) \<Rightarrow>
        if \<not> ok then (False, w1)
        else (case mysql_query lib (the (mysql_ptr c)) sql w1 of (rc, w2) \<Rightarrow> (rc = 0, w2)))"

definition query :: "('w, 'r) mysql_lib \<Rightarrow> DBConnection \<Rightarrow> string \<Rightarrow> 'w \<Rightarrow> 'r option \<times> 'w" where
  "query lib c sql w =
     (case isConnected lib c w of (ok, w1) \<Rightarrow>
        if \<not> ok then (None, w1)
        else (case mysql_query lib (the (mysql_ptr c)) sql w1 of (rc, w2) \<Rightarrow>
                if rc \<noteq> 0 then (None, w2) else mysql_store_result lib (the (mysql_ptr c)) w2))"

text \<open>
  \<open>batchInsert\<close> binds an uninitialised array and then runs off its end without a \<open>return\<close>: that
  outcome, undefined in C++, is \<open>None\<close>. The records are never read.
\<close>

definition batchInsert ::
  "('w, 'r) mysql_lib \<Rightarrow> DBConnection \<Rightarrow> string \<Rightarrow> 't list \<Rightarrow> 'w \<Rightarrow> bool option \<times> 'w" where
  "batchInsert lib c sql records w =
     (case isConnected lib c w of (ok, w1) \<Rightarrow>
        if \<not> ok then (Some False, w1)
        else (case mysql_stmt_init lib (the (mysql_ptr c)) w1 of (stmt, w2) \<Rightarrow>
              case mysql_stmt_prepare lib stmt sql w2 of (rc, w3) \<Rightarrow>
                if rc \<noteq> 0 then (Some False, mysql_stmt_close lib stmt w3)
                else (case mysql_stmt_bind_param lib stmt w3 of (rc', w4) \<Rightarrow>
                        if rc' \<noteq> 0 then (Some False, mysql_stmt_close lib stmt w4)
                        else (None, w4))))"

definition raw :: "DBConnection \<Rightarrow> nat option" where
  "raw c = mysql_ptr c"

subsection \<open>Handles\<close>

text \<open>
  What the code relies on: \<open>opn w\<close> are the open handles of a library state. Opening yields a
  handle that was not open, closing closes that handle only, and nothing else opens or closes any.
\<close>

definition init_tracked :: "('w, 'r) mysql_lib \<Rightarrow> ('w \<Rightarrow> nat set) \<Rightarrow> bool" where
  "init_tracked lib opn \<longleftrightarrow>
     (\<forall>w. case mysql_init lib w of
            (None, w1) \<Rightarrow> opn w1 = opn w
          | (Some h, w1) \<Rightarrow> h \<notin> opn w \<and> opn w1 = insert h (opn w))"

definition calls_tracked :: "('w, 'r) mysql_lib \<Rightarrow> ('w \<Rightarrow> nat set) \<Rightarrow> bool" where
  "calls_tracked lib opn \<longleftrightarrow>
     (\<forall>h w. opn (mysql_close lib h w) = opn w - {h}) \<and>
     (\<forall>h w. opn (snd (mysql_ping lib h w)) = opn w) \<and>
     (\<forall>h a b c d n w. opn (snd (mysql_real_connect lib h a b c d n w)) = opn w) \<and>
     (\<forall>h sql w. opn (snd (mysql_query lib h sql w)) = opn w) \<and>
     (\<forall>h w. opn (snd (mysql_store_result lib h w)) = opn w)"

definition handles_tracked :: "('w, 'r) mysql_lib \<Rightarrow> ('w \<Rightarrow> nat set) \<Rightarrow> bool" where
  "handles_tracked lib opn \<longleftrightarrow> init_tracked lib opn \<and> calls_tracked lib opn"

definition handle_of :: "DBConnection \<Rightarrow> nat set" where
  "handle_of c = set_option (mysql_ptr c)"

lemma handle_of_simps [simp]:
  "handle_of (c\<lparr>mysql_ptr := None\<rparr>) = {}"
  "handle_of (c\<lparr>mysql_ptr := Some h\<rparr>) = {h}"
  "handle_of (new_DBConnection cfg) = {}"
  by (simp_all add: handle_of_def new_DBConnection_def)

lemma tracked_init:
  assumes "handles_tracked lib opn"
  shows "mysql_init lib w = (None, w1) \<Longrightarrow> opn w1 = opn w"
    and "mysql_init lib w = (Some h, w1) \<Longrightarrow> h \<notin> opn w \<and> opn w1 = insert h (opn w)"
proof -
  have t: "case mysql_init lib w of (None, w1) \<Rightarrow> opn w1 = opn w
                           | (Some h, w1) \<Rightarrow> h \<notin> opn w \<and> opn w1 = insert h (opn w)"
    using assms by (simp add: handles_tracked_def init_tracked_def)
  show "mysql_init lib w = (None, w1) \<Longrightarrow> opn w1 = opn w"
    using t by simp
  show "mysql_init lib w = (Some h, w1) \<Longrightarrow> h \<notin> opn w \<and> opn w1 = insert h (opn w)"
    using t by simp
qed

lemma tracked_calls:
  assumes "handles_tracked lib opn"
  shows "opn (mysql_close lib h w) = opn w - {h}"
    and "mysql_ping lib h w = (rc, w1) \<Longrightarrow> opn w1 = opn w"
    and "mysql_real_connect lib h a b c d n w = (ok, w1) \<Longrightarrow> opn w1 = opn w"
    and "mysql_query lib h sql w = (rc, w1) \<Longrightarrow> opn w1 = opn w"
    and "mysql_store_result lib h w = (r, w1) \<Longrightarrow> opn w1 = opn w"
  using assms unfolding handles_tracked_def calls_tracked_def by (metis snd_conv)+

lemma isConnected_tracked:
  "handles_tracked lib opn \<Longrightarrow> opn (snd (isConnected lib c w)) = opn w"
  by (simp add: isConnected_def tracked_calls split: option.split prod.split)

lemma disconnect_tracked:
  "handles_tracked lib opn \<Longrightarrow> opn (snd (snd (disconnect lib c w))) = opn w - handle_of c"
  by (simp add: disconnect_def handle_of_def tracked_calls split: option.split)

lemma connect_tracked:
  assumes t: "handles_tracked lib opn" and fresh: "mysql_ptr c = None"
    and run: "connect lib c w = (ok, c', w')"
  shows "opn w' = opn w \<union> handle_of c' \<and> handle_of c' \<inter> opn w = {} \<and> (ok \<longleftrightarrow> mysql_ptr c' \<noteq> None)
         \<and> db_config c' = db_config c"
proof (cases "mysql_init lib w")
  case (Pair i w2)
  show ?thesis
  proof (cases i)
    case None
    then show ?thesis
      using Pair run fresh tracked_init(1) [OF t, of w w2]
      by (auto simp: connect_def isConnected_def handle_of_def)
  next
    case (Some h)
    then have h: "h \<notin> opn w" "opn w2 = insert h (opn w)"
      using Pair tracked_init(2) [OF t, of w h w2] by simp_all
    let ?cfg = "db_config c"
    obtain up w3 where rc: "mysql_real_connect lib h (cfg_host ?cfg) (cfg_user ?cfg)
        (cfg_password ?cfg) (cfg_database ?cfg) (cfg_port ?cfg) w2 = (up, w3)"
      by fastforce
    have "opn w3 = opn w2"
      by (rule tracked_calls(3) [OF t rc])
    moreover have "(ok, c', w') = (if up then (True, c\<lparr>mysql_ptr := Some h\<rparr>, w3)
        else (False, c\<lparr>mysql_ptr := None\<rparr>, mysql_close lib h w3))"
      using run fresh Pair Some rc by (simp add: connect_def isConnected_def Let_def split: if_splits)
    ultimately show ?thesis
      using h tracked_calls(1) [OF t, of h w3] by (cases up) simp_all
  qed
qed

lemma execute_tracked:
  "handles_tracked lib opn \<Longrightarrow> opn (snd (execute lib c sql w)) = opn w"
  using isConnected_tracked [of lib opn c w]
  by (auto simp: execute_def dest: tracked_calls split: prod.splits)

lemma query_tracked:
  assumes "handles_tracked lib opn"
  shows "opn (snd (query lib c sql w)) = opn w"
proof -
  obtain ok w1 where i: "isConnected lib c w = (ok, w1)"
    by (cases "isConnected lib c w")
  obtain rc w2 where q: "mysql_query lib (the (mysql_ptr c)) sql w1 = (rc, w2)"
    by (cases "mysql_query lib (the (mysql_ptr c)) sql w1")
  obtain r w3 where s: "mysql_store_result lib (the (mysql_ptr c)) w2 = (r, w3)"
    by (cases "mysql_store_result lib (the (mysql_ptr c)) w2")
  show ?thesis
    using isConnected_tracked [OF assms, of c w] tracked_calls(4) [OF assms q]
      tracked_calls(5) [OF assms s] i q s
    by (simp add: query_def)
qed

subsection \<open>Results\<close>

text \<open>
  \<open>batchInsert\<close> can never report success: whatever the library answers and whatever is to be
  inserted, it returns false or it runs off the end of the function.
\<close>

theorem batchInsert_never_succeeds:
  "fst (batchInsert lib c sql records w) \<noteq> Some True"
  by (simp add: batchInsert_def split: prod.split)

text \<open>
  \<open>connect\<close> on a connection whose server went away leaks: the handle whose ping fails is
  overwritten, stays open in the library and is held by no connection afterwards. (\<open>disconnect\<close>
  first, as the pool does, avoids it.)
\<close>

theorem connect_leaks_stale_handle:
  assumes "handles_tracked lib opn" and "mysql_ptr c = Some h" and "h \<in> opn w"
    and "fst (mysql_ping lib h w) \<noteq> 0" and "connect lib c w = (ok, c', w')"
  shows "h \<in> opn w' \<and> h \<notin> handle_of c'"
proof -
  obtain rc w1 where p: "mysql_ping lib h w = (rc, w1)" and rc: "rc \<noteq> 0"
    using assms(4) by (cases "mysql_ping lib h w") auto
  have "mysql_ptr (new_DBConnection (db_config c)) = None"
    by (simp add: new_DBConnection_def)
  moreover have "connect lib (new_DBConnection (db_config c)) w1 = (ok, c'\<lparr>db_config := db_config c\<rparr>, w')"
    using assms(2,5) p rc
    by (auto simp: connect_def isConnected_def new_DBConnection_def Let_def split: prod.splits option.splits if_splits)
  ultimately have "opn w' = opn w1 \<union> handle_of (c'\<lparr>db_config := db_config c\<rparr>)
      \<and> handle_of (c'\<lparr>db_config := db_config c\<rparr>) \<inter> opn w1 = {}"
    using connect_tracked [OF assms(1)] by blast
  then show ?thesis
    using assms(3) tracked_calls(2) [OF assms(1) p] by (auto simp: handle_of_def)
qed

subsection \<open>A concrete library\<close>

text \<open>
  The witnesses run the code on a library that numbers its handles upwards; a handle on the list
  \<open>dead\<close> does not answer a ping, and the server accepts connections while \<open>up\<close> holds.
\<close>

record demo_db =
  dd_next :: nat
  dd_open :: "nat list"
  dd_dead :: "nat list"
  dd_up :: bool

definition demo_lib :: "(demo_db, string list) mysql_lib" where
  "demo_lib =
     \<lparr>mysql_init = (\<lambda>w. (Some (Suc (Max (set (dd_next w # dd_open w)))),
                         w\<lparr>dd_open := Suc (Max (set (dd_next w # dd_open w))) # dd_open w\<rparr>)),
      mysql_real_connect = (\<lambda>h a b c d n w. (dd_up w, w)),
      mysql_ping = (\<lambda>h w. (if h \<in> set (dd_dead w) then 1 else 0, w)),
      mysql_close = (\<lambda>h w. w\<lparr>dd_open := removeAll h (dd_open w)\<rparr>),
      mysql_query = (\<lambda>h sql w. (if sql = [] then 1 else 0, w)),
      mysql_store_result = (\<lambda>h w. (Some [''v''], w)),
      mysql_stmt_init = (\<lambda>h w. (0, w)),
      mysql_stmt_prepare = (\<lambda>s sql w. (0, w)),
      mysql_stmt_bind_param = (\<lambda>s w. (0, w)),
      mysql_stmt_close = (\<lambda>s w. w)\<rparr>"

definition demo_open :: "demo_db \<Rightarrow> nat set" where
  "demo_open w = set (dd_open w)"

lemma Suc_Max_notin: "Suc (Max (set (n # xs))) \<notin> set xs"
proof
  assume "Suc (Max (set (n # xs))) \<in> set xs"
  then have "Suc (Max (set (n # xs))) \<le> Max (set (n # xs))"
    by (intro Max_ge) auto
  then show False
    by simp
qed

lemma demo_lib_tracked: "handles_tracked demo_lib demo_open"
  using Suc_Max_notin
  by (auto simp: handles_tracked_def init_tracked_def calls_tracked_def demo_lib_def demo_open_def)

definition demo_config :: "nat \<Rightarrow> DBConfig" where
  "demo_config n = (DBConfig_defaults ''db'' ''u'' ''p'' ''lm'')\<lparr>pool_size := of_nat n\<rparr>"

theorem connect_leaks_witness:
  "let r = connect demo_lib \<lparr>db_config = demo_config 1, mysql_ptr = Some 4\<rparr>
              \<lparr>dd_next = 0, dd_open = [4], dd_dead = [4], dd_up = True\<rparr>
   in 4 \<in> demo_open (snd (snd r)) \<and> 4 \<notin> handle_of (fst (snd r))"
proof -
  let ?c = "\<lparr>db_config = demo_config 1, mysql_ptr = Some 4\<rparr>"
  let ?w = "\<lparr>dd_next = 0, dd_open = [4], dd_dead = [4], dd_up = True\<rparr>"
  have "connect demo_lib ?c ?w = (fst (connect demo_lib ?c ?w),
      fst (snd (connect demo_lib ?c ?w)), snd (snd (connect demo_lib ?c ?w)))"
    by simp
  from connect_leaks_stale_handle [OF demo_lib_tracked _ _ _ this, of 4] show ?thesis
    by (simp add: demo_open_def demo_lib_def Let_def)
qed

end
