(* ===== verification/DB_Pool.thy ===== *)
theory DB_Pool
  imports DB_Connection "HOL-Library.Multiset"
begin

section \<open>The connection pool: \<open>src/core/db/db_operator.cpp\<close> (\<open>DBConnectionPool\<close>)\<close>

text \<open>
  The pool's members, and around it the state its clients see: the connections handed out and
  not yet returned (each is one live \<open>shared_ptr\<close> whose deleter returns it), and the state of the
  MySQL library. Every critical section of the code, one hold of \<open>pool_mutex_\<close>, is a function;
  \<open>pool_step\<close> interleaves them. The destructor is two critical sections: it raises the flag, and
  later, when its wait is over, it drains the queue.
\<close>

record DBConnectionPool =
  pool_queue :: "DBConnection list"
  pool_config :: DBConfig
  shutting_down :: bool
  active_connections :: int

record 'w pool_sys =
  the_pool :: DBConnectionPool
  lent :: "DBConnection list"
  world :: 'w
  destroyed :: bool

subsection \<open>Construction\<close>

text \<open>
  The constructor's loop, with the number of connections still to be made. Its counter is an \<open>int\<close>, which
  would overflow, undefined, for a pool size of \<open>2 ^ 31\<close> or more: such pools are not covered.
\<close>

primrec fill_pool ::
  "('w, 'r) mysql_lib \<Rightarrow> DBConfig \<Rightarrow> nat \<Rightarrow> DBConnection list \<times> 'w \<Rightarrow> DBConnection list \<times> 'w" where
  "fill_pool lib cfg 0 s = s"
| "fill_pool lib cfg (Suc n) s =
     fill_pool lib cfg n
       (case s of (q, w) \<Rightarrow>
          case connect lib (new_DBConnection cfg) w of (ok, c, w1) \<Rightarrow>
          case isConnected lib c w1 of (up, w2) \<Rightarrow>
            if up then (q @ [c], w2) else (q, DBConnection_destroy lib c w2))"

definition new_DBConnectionPool :: "('w, 'r) mysql_lib \<Rightarrow> DBConfig \<Rightarrow> 'w \<Rightarrow> 'w pool_sys" where
  "new_DBConnectionPool lib cfg w =
     (case fill_pool lib cfg (unat (pool_size cfg)) ([], w) of (q, w1) \<Rightarrow>
        \<lparr>the_pool = \<lparr>pool_queue = q, pool_config = cfg, shutting_down = False, active_connections = 0\<rparr>,
         lent = [], world = w1, destroyed = False\<rparr>)"

subsection \<open>Operations\<close>

text \<open>
  The end of \<open>getConnection\<close>, once the wait has succeeded. \<open>None\<close> is the null pointer.
\<close>

definition take_connection :: "DBConnectionPool \<Rightarrow> DBConnection option \<times> DBConnectionPool" where
  "take_connection p =
     (if shutting_down p \<or> pool_queue p = [] then (None, p)
      else (Some (hd (pool_queue p)),
            p\<lparr>pool_queue := tl (pool_queue p), active_connections := active_connections p + 1\<rparr>))"

datatype get_outcome = Got DBConnection | Null_ptr | Timeout

text \<open>
  \<open>getConnection\<close> as one client runs it. While it waits it does not hold the mutex: \<open>env\<close> is
  what the other threads do until \<open>wait_for\<close> returns, which is when the pool is not empty or the
  timeout has passed. \<open>Timeout\<close> is the exception.
\<close>

definition getConnection ::
  "('w pool_sys \<Rightarrow> 'w pool_sys) \<Rightarrow> 'w pool_sys \<Rightarrow> get_outcome \<times> 'w pool_sys" where
  "getConnection env s =
     (if shutting_down (the_pool s) then (Null_ptr, s)
      else (let s1 = (if pool_queue (the_pool s) = [] then env s else s) in
            if pool_queue (the_pool s1) = [] then (Timeout, s1)
            else (case take_connection (the_pool s1) of
                    (None, p) \<Rightarrow> (Null_ptr, s1\<lparr>the_pool := p\<rparr>)
                  | (Some c, p) \<Rightarrow> (Got c, s1\<lparr>the_pool := p, lent := c # lent s1\<rparr>))))"

text \<open>The deleter of the \<open>shared_ptr\<close>: a dead connection is replaced before it is queued again.\<close>

definition return_connection ::
  "('w, 'r) mysql_lib \<Rightarrow> DBConnection \<Rightarrow> DBConnectionPool \<Rightarrow> 'w \<Rightarrow> DBConnectionPool \<times> 'w" where
  "return_connection lib c p w =
     (case isConnected lib c w of (up, w1) \<Rightarrow>
        case (if up then (c, w1)
              else (case disconnect lib c w1 of (_, c1, w2) \<Rightarrow>
                    case connect lib (new_DBConnection (pool_config p)) (DBConnection_destroy lib c1 w2) of
                      (_, c2, w3) \<Rightarrow> (c2, w3))) of (c', w') \<Rightarrow>
          (p\<lparr>pool_queue := pool_queue p @ [c'], active_connections := active_connections p - 1\<rparr>, w'))"

definition getPoolSize :: "DBConnectionPool \<Rightarrow> int" where
  "getPoolSize p = int (length (pool_queue p))"

definition begin_shutdown :: "DBConnectionPool \<Rightarrow> DBConnectionPool" where
  "begin_shutdown p = p\<lparr>shutting_down := True\<rparr>"

fun drain_pool :: "('w, 'r) mysql_lib \<Rightarrow> DBConnection list \<Rightarrow> 'w \<Rightarrow> 'w" where
  "drain_pool lib [] w = w"
| "drain_pool lib (c # q) w =
     (case disconnect lib c w of (_, c1, w1) \<Rightarrow> drain_pool lib q (DBConnection_destroy lib c1 w1))"

subsection \<open>Interleavings\<close>

inductive pool_step :: "('w, 'r) mysql_lib \<Rightarrow> 'w pool_sys \<Rightarrow> 'w pool_sys \<Rightarrow> bool" for lib where
  take: "\<lbrakk>\<not> destroyed s; take_connection (the_pool s) = (Some c, p)\<rbrakk>
    \<Longrightarrow> pool_step lib s (s\<lparr>the_pool := p, lent := c # lent s\<rparr>)"
| run_sql: "\<lbrakk>c \<in> set (lent s); execute lib c sql (world s) = (ok, w)\<rbrakk>
    \<Longrightarrow> pool_step lib s (s\<lparr>world := w\<rparr>)"
| run_query: "\<lbrakk>c \<in> set (lent s); query lib c sql (world s) = (res, w)\<rbrakk>
    \<Longrightarrow> pool_step lib s (s\<lparr>world := w\<rparr>)"
| give_back: "\<lbrakk>c \<in> set (lent s); return_connection lib c (the_pool s) (world s) = (p, w)\<rbrakk>
    \<Longrightarrow> pool_step lib s (s\<lparr>the_pool := p, lent := remove1 c (lent s), world := w\<rparr>)"
| shutdown: "\<not> destroyed s \<Longrightarrow> pool_step lib s (s\<lparr>the_pool := begin_shutdown (the_pool s)\<rparr>)"
| destroy: "\<lbrakk>\<not> destroyed s; shutting_down (the_pool s); active_connections (the_pool s) = 0\<rbrakk>
    \<Longrightarrow> pool_step lib s
          (s\<lparr>the_pool := (the_pool s)\<lparr>pool_queue := []\<rparr>,
             world := drain_pool lib (pool_queue (the_pool s)) (world s), destroyed := True\<rparr>)"

inductive pool_reach :: "('w, 'r) mysql_lib \<Rightarrow> DBConfig \<Rightarrow> 'w \<Rightarrow> 'w pool_sys \<Rightarrow> bool" for lib cfg w0 where
  init: "pool_reach lib cfg w0 (new_DBConnectionPool lib cfg w0)"
| step: "\<lbrakk>pool_reach lib cfg w0 s; pool_step lib s s'\<rbrakk> \<Longrightarrow> pool_reach lib cfg w0 s'"

inductive_cases pool_step_elim: "pool_step lib s s'"

subsection \<open>Counting\<close>

text \<open>
  The counter is exact, and until the pool is destroyed its connections are conserved: \<open>n\<close> is
  the number the constructor obtained.
\<close>

definition pool_count_inv :: "nat \<Rightarrow> 'w pool_sys \<Rightarrow> bool" where
  "pool_count_inv n s \<longleftrightarrow>
     active_connections (the_pool s) = int (length (lent s)) \<and>
     (if destroyed s then pool_queue (the_pool s) = [] \<and> lent s = []
      else length (pool_queue (the_pool s)) + length (lent s) = n)"

lemma fill_pool_length:
  "length (fst (fill_pool lib cfg n (q, w))) \<le> length q + n"
proof (induction n arbitrary: q w)
  case (Suc n)
  obtain ok c w1 up w2 where "connect lib (new_DBConnection cfg) w = (ok, c, w1)"
    "isConnected lib c w1 = (up, w2)"
    by (metis prod_cases3 surj_pair)
  then show ?case
    using Suc.IH [of "q @ [c]" w2] Suc.IH [of q "DBConnection_destroy lib c w2"] by simp
qed simp

lemma return_connection_counts:
  assumes "return_connection lib c p w = (p', w')"
  shows "active_connections p' = active_connections p - 1"
    and "length (pool_queue p') = Suc (length (pool_queue p))"
    and "shutting_down p' = shutting_down p" and "pool_config p' = pool_config p"
  using assms by (auto simp: return_connection_def split: prod.splits)

lemma take_connection_counts:
  assumes "take_connection p = (Some c, p')"
  shows "pool_queue p = c # pool_queue p'" and "active_connections p' = active_connections p + 1"
    and "shutting_down p' = shutting_down p" and "\<not> shutting_down p"
  using assms by (auto simp: take_connection_def split: if_splits)

lemma pool_count_step:
  assumes "pool_step lib s s'" and "pool_count_inv n s"
  shows "pool_count_inv n s'"
  using assms
proof (cases rule: pool_step.cases)
  case (take c p)
  then show ?thesis
    using take_connection_counts [OF take(3)] assms(2) by (simp add: pool_count_inv_def)
next
  case (give_back c p w)
  then obtain m where "length (lent s) = Suc m"
    by (cases "lent s") auto
  then show ?thesis
    using give_back return_connection_counts [OF give_back(3)] assms(2)
    by (auto simp: pool_count_inv_def length_remove1 split: if_splits)
qed (auto simp: pool_count_inv_def begin_shutdown_def)

lemma pool_count_reach:
  "pool_reach lib cfg w0 s
   \<Longrightarrow> pool_count_inv (length (pool_queue (the_pool (new_DBConnectionPool lib cfg w0)))) s"
proof (induction rule: pool_reach.induct)
  case init
  then show ?case
    by (simp add: pool_count_inv_def new_DBConnectionPool_def split: prod.split)
next
  case (step s s')
  then show ?case
    using pool_count_step by blast
qed

text \<open>
  In every interleaving of clients taking, using and returning connections and of the
  destructor, \<open>active_connections_\<close> is the number of connections handed out, and idle and
  handed-out connections together are, until the pool is destroyed, exactly those the constructor
  opened; there are at most \<open>pool_size\<close> of them, and once destroyed there are none.
\<close>

theorem db_pool_conservation:
  assumes "pool_reach lib cfg w0 s"
  shows "active_connections (the_pool s) = int (length (lent s))
         \<and> length (pool_queue (the_pool s)) + length (lent s)
             = (if destroyed s then 0 else length (pool_queue (the_pool (new_DBConnectionPool lib cfg w0))))
         \<and> length (pool_queue (the_pool (new_DBConnectionPool lib cfg w0))) \<le> unat (pool_size cfg)"
  using pool_count_reach [OF assms] fill_pool_length [of lib cfg "unat (pool_size cfg)" "[]" w0]
  by (auto simp: pool_count_inv_def new_DBConnectionPool_def split: prod.splits if_splits)

subsection \<open>Handles are neither leaked nor shared\<close>

definition handle_list :: "DBConnection \<Rightarrow> nat list" where
  "handle_list c = (case mysql_ptr c of None \<Rightarrow> [] | Some h \<Rightarrow> [h])"

definition handles :: "DBConnection list \<Rightarrow> nat list" where
  "handles cs = concat (map handle_list cs)"

definition pool_conns :: "'w pool_sys \<Rightarrow> DBConnection list" where
  "pool_conns s = pool_queue (the_pool s) @ lent s"

text \<open>\<open>accounted W hs w\<close>: the open handles are those of \<open>W\<close> and, each once, those of \<open>hs\<close>.\<close>

definition accounted :: "('w \<Rightarrow> nat set) \<Rightarrow> nat set \<Rightarrow> nat list \<Rightarrow> 'w \<Rightarrow> bool" where
  "accounted opn W hs w \<longleftrightarrow> distinct hs \<and> set hs \<inter> W = {} \<and> opn w = W \<union> set hs"

lemma handles_simps [simp]:
  "handles [] = []" "handles (c # cs) = handle_list c @ handles cs"
  "handles (cs @ ds) = handles cs @ handles ds"
  by (simp_all add: handles_def)

lemma set_handle_list [simp]: "set (handle_list c) = handle_of c"
  by (cases "mysql_ptr c") (simp_all add: handle_list_def handle_of_def)

lemma distinct_handle_list [simp]: "distinct (handle_list c)"
  by (simp add: handle_list_def split: option.split)

lemma mset_handles: "mset (handles cs) = (\<Sum>c\<in>#mset cs. mset (handle_list c))"
  by (induction cs) simp_all

lemma accounted_perm:
  assumes "accounted opn W (handles cs) w" and "mset cs = mset ds"
  shows "accounted opn W (handles ds) w"
proof -
  have m: "mset (handles cs) = mset (handles ds)"
    by (simp add: mset_handles assms(2))
  show ?thesis
    using assms(1) mset_eq_imp_distinct_iff [OF m] mset_eq_setD [OF m] by (simp add: accounted_def)
qed

lemma accounted_close:
  assumes "accounted opn W (handle_list c @ hs) w" and "opn w' = opn w - handle_of c"
  shows "accounted opn W hs w'"
  using assms by (auto simp: accounted_def)

lemma accounted_open:
  assumes "accounted opn W hs w" and "opn w' = opn w \<union> handle_of c" and "handle_of c \<inter> opn w = {}"
  shows "accounted opn W (handle_list c @ hs) w'"
  using assms by (auto simp: accounted_def)

lemma destroy_after_disconnect:
  assumes "disconnect lib c w = (ok, c1, w1)"
  shows "DBConnection_destroy lib c1 w1 = w1"
  using assms by (auto simp: disconnect_def DBConnection_destroy_def split: option.splits)

lemma fill_pool_accounted:
  assumes t: "handles_tracked lib opn" and "accounted opn W (handles q) w"
    and "fill_pool lib cfg n (q, w) = (q', w')"
  shows "accounted opn W (handles q') w'"
  using assms(2,3)
proof (induction n arbitrary: q w)
  case 0
  then show ?case by simp
next
  case (Suc n)
  obtain ok c w1 where c: "connect lib (new_DBConnection cfg) w = (ok, c, w1)"
    by (metis prod_cases3)
  obtain up w2 where i: "isConnected lib c w1 = (up, w2)"
    by (cases "isConnected lib c w1")
  have o2: "opn w2 = opn w1"
    using isConnected_tracked [OF t, of c w1] i by simp
  have "mysql_ptr (new_DBConnection cfg) = None"
    by (simp add: new_DBConnection_def)
  from connect_tracked [OF t this c]
  have "accounted opn W (handle_list c @ handles q) w1"
    using accounted_open [OF Suc.prems(1)] by blast
  then have a: "accounted opn W (handle_list c @ handles q) w2"
    using o2 by (simp add: accounted_def)
  show ?case
  proof (cases up)
    case True
    have "accounted opn W (handles (q @ [c])) w2"
      using a accounted_perm [of opn W "c # q" w2 "q @ [c]"] by simp
    then show ?thesis
      using Suc.IH [of "q @ [c]" w2] Suc.prems(2) c i True by simp
  next
    case False
    have "accounted opn W (handles q) (DBConnection_destroy lib c w2)"
      using accounted_close [OF a] disconnect_tracked [OF t] by (simp add: DBConnection_destroy_def)
    then show ?thesis
      using Suc.IH [of q "DBConnection_destroy lib c w2"] Suc.prems(2) c i False by simp
  qed
qed

lemma return_connection_accounted:
  assumes t: "handles_tracked lib opn" and a: "accounted opn W (handle_list c @ hs) w"
    and r: "return_connection lib c p w = (p', w')"
  shows "\<exists>c'. pool_queue p' = pool_queue p @ [c'] \<and> accounted opn W (handle_list c' @ hs) w'"
proof -
  obtain up w1 where i: "isConnected lib c w = (up, w1)"
    by (cases "isConnected lib c w")
  have "opn w1 = opn w"
    using isConnected_tracked [OF t, of c w] i by simp
  then have a1: "accounted opn W (handle_list c @ hs) w1"
    using a by (simp add: accounted_def)
  show ?thesis
  proof (cases up)
    case True
    with r i have "pool_queue p' = pool_queue p @ [c]" "w' = w1"
      by (auto simp: return_connection_def)
    with a1 show ?thesis
      by blast
  next
    case False
    obtain ok c1 w2 where d: "disconnect lib c w1 = (ok, c1, w2)"
      by (metis prod_cases3)
    obtain ok' c2 w3 where n: "connect lib (new_DBConnection (pool_config p)) w2 = (ok', c2, w3)"
      by (metis prod_cases3)
    have a2: "accounted opn W hs w2"
      using accounted_close [OF a1] disconnect_tracked [OF t, of c w1] d by simp
    have "mysql_ptr (new_DBConnection (pool_config p)) = None"
      by (simp add: new_DBConnection_def)
    then have "accounted opn W (handle_list c2 @ hs) w3"
      using connect_tracked [OF t _ n] by (intro accounted_open [OF a2]) simp_all
    moreover have "pool_queue p' = pool_queue p @ [c2]" "w' = w3"
      using r i False d n destroy_after_disconnect [OF d] by (auto simp: return_connection_def)
    ultimately show ?thesis
      by blast
  qed
qed

lemma drain_pool_accounted:
  assumes t: "handles_tracked lib opn"
  shows "accounted opn W (handles q) w \<Longrightarrow> accounted opn W [] (drain_pool lib q w)"
proof (induction q arbitrary: w)
  case (Cons c q)
  obtain ok c1 w1 where d: "disconnect lib c w = (ok, c1, w1)"
    by (metis prod_cases3)
  have "accounted opn W (handles q) w1"
    using accounted_close Cons.prems disconnect_tracked [OF t, of c w] d by fastforce
  then show ?case
    using Cons.IH d destroy_after_disconnect [OF d] by simp
qed simp

lemma pool_step_accounted:
  assumes t: "handles_tracked lib opn" and st: "pool_step lib s s'" and cnt: "pool_count_inv n s"
    and a: "accounted opn W (handles (pool_conns s)) (world s)"
  shows "accounted opn W (handles (pool_conns s')) (world s')"
  using st
proof (cases rule: pool_step.cases)
  case (take c p)
  then have "mset (pool_conns s') = mset (pool_conns s)"
    using take_connection_counts [OF take(3)] by (simp add: pool_conns_def)
  then show ?thesis
    using accounted_perm [OF a] take by simp
next
  case (run_sql c sql ok w)
  then show ?thesis
    using a execute_tracked [OF t, of c sql "world s"] by (simp add: accounted_def pool_conns_def)
next
  case (run_query c sql res w)
  then show ?thesis
    using a query_tracked [OF t, of c sql "world s"] by (simp add: accounted_def pool_conns_def)
next
  case (give_back c p w)
  let ?rest = "pool_queue (the_pool s) @ remove1 c (lent s)"
  have "mset (pool_conns s) = mset (c # ?rest)"
    using give_back(2) by (simp add: pool_conns_def)
  then have "accounted opn W (handle_list c @ handles ?rest) (world s)"
    using accounted_perm [OF a, of "c # ?rest"] by simp
  from return_connection_accounted [OF t this give_back(3)] obtain c'
    where q: "pool_queue p = pool_queue (the_pool s) @ [c']"
      and a': "accounted opn W (handle_list c' @ handles ?rest) w" by blast
  have "mset (c' # ?rest) = mset (pool_conns s')"
    using give_back(1) q by (simp add: pool_conns_def)
  then show ?thesis
    using a' accounted_perm [of opn W "c' # ?rest" w "pool_conns s'"] give_back(1) by simp
next
  case shutdown
  then show ?thesis
    using a by (simp add: pool_conns_def begin_shutdown_def)
next
  case destroy
  then have "lent s = []"
    using cnt by (simp add: pool_count_inv_def)
  then show ?thesis
    using destroy a drain_pool_accounted [OF t] by (simp add: pool_conns_def)
qed

lemma db_pool_accounted_init:
  assumes "handles_tracked lib opn"
  shows "accounted opn (opn w0) (handles (pool_conns (new_DBConnectionPool lib cfg w0)))
           (world (new_DBConnectionPool lib cfg w0))"
proof -
  have "accounted opn (opn w0) (handles []) w0"
    by (simp add: accounted_def)
  from fill_pool_accounted [OF assms this] show ?thesis
    by (simp add: new_DBConnectionPool_def pool_conns_def split: prod.split)
qed

text \<open>
  C7. No connection handle is leaked or shared. In every reachable state the handles open in the
  library are those open before the pool existed and, each exactly once, those of the idle and
  the handed-out connections, also across replaced connections and failed reconnects; when the
  pool has been destroyed the library is back to the handles it had before.
\<close>

theorem db_pool_no_leak:
  assumes "handles_tracked lib opn" and "pool_reach lib cfg w0 s"
  shows "opn (world s) = opn w0 \<union> set (handles (pool_conns s))
         \<and> distinct (handles (pool_conns s)) \<and> set (handles (pool_conns s)) \<inter> opn w0 = {}
         \<and> (destroyed s \<longrightarrow> opn (world s) = opn w0)"
proof -
  have "accounted opn (opn w0) (handles (pool_conns s)) (world s)"
    using assms(2)
  proof (induction rule: pool_reach.induct)
    case init
    show ?case
      by (rule db_pool_accounted_init [OF assms(1)])
  next
    case (step s s')
    show ?case
      by (rule pool_step_accounted [OF assms(1) step.hyps(2) pool_count_reach [OF step.hyps(1)] step.IH])
  qed
  moreover have "destroyed s \<longrightarrow> pool_conns s = []"
    using pool_count_reach [OF assms(2)] by (simp add: pool_count_inv_def pool_conns_def)
  ultimately show ?thesis
    by (auto simp: accounted_def)
qed

subsection \<open>Shutting down\<close>

lemma shutdown_step:
  assumes "pool_step lib s s'" and "shutting_down (the_pool s)"
  shows "shutting_down (the_pool s') \<and> length (lent s') \<le> length (lent s)"
  using assms
proof (cases rule: pool_step.cases)
  case (take c p)
  then show ?thesis
    using take_connection_counts [OF take(3)] assms(2) by simp
next
  case (give_back c p w)
  then show ?thesis
    using return_connection_counts [OF give_back(3)] assms(2) by (simp add: length_remove1)
qed (auto simp: begin_shutdown_def)

lemma shutdown_steps:
  assumes "(pool_step lib)\<^sup>*\<^sup>* s s'" and "shutting_down (the_pool s)"
  shows "shutting_down (the_pool s') \<and> length (lent s') \<le> length (lent s)"
  using assms(1)
proof (induction rule: rtranclp_induct)
  case base
  then show ?case using assms(2) by simp
next
  case (step s1 s2)
  then show ?case
    using shutdown_step [OF step(2)] by fastforce
qed

lemma return_all:
  assumes "pool_count_inv n s"
  shows "\<exists>s'. (pool_step lib)\<^sup>*\<^sup>* s s' \<and> lent s' = [] \<and> destroyed s' = destroyed s
              \<and> shutting_down (the_pool s') = shutting_down (the_pool s) \<and> pool_count_inv n s'"
  using assms
proof (induction "length (lent s)" arbitrary: s)
  case 0
  then show ?case by (intro exI [of _ s]) simp
next
  case (Suc m)
  then obtain c rest where l: "lent s = c # rest"
    by (cases "lent s") auto
  obtain p w where r: "return_connection lib c (the_pool s) (world s) = (p, w)"
    by (cases "return_connection lib c (the_pool s) (world s)")
  let ?s = "s\<lparr>the_pool := p, lent := remove1 c (lent s), world := w\<rparr>"
  have st: "pool_step lib s ?s"
    using l r by (intro pool_step.give_back) simp_all
  have "m = length (lent ?s)"
    using Suc.hyps(2) l by simp
  from Suc.hyps(1) [OF this pool_count_step [OF st Suc.prems]] obtain s'
    where s': "(pool_step lib)\<^sup>*\<^sup>* ?s s'" "lent s' = []" "destroyed s' = destroyed ?s"
      "shutting_down (the_pool s') = shutting_down (the_pool ?s)" "pool_count_inv n s'"
    by blast
  have "(pool_step lib)\<^sup>*\<^sup>* s s'"
    using st s'(1) by (rule converse_rtranclp_into_rtranclp)
  with s' show ?case
    using return_connection_counts(3) [OF r] by (intro exI [of _ s']) simp
qed

text \<open>
  Shutting down: once the destructor has raised the flag it stays up and no connection is
  handed out any more, the number of those handed out never grows, and the destructor is never
  stuck: from every reachable state the outstanding connections can be returned, and then it
  empties the pool.
\<close>

theorem db_pool_shutdown:
  assumes "pool_reach lib cfg w0 s" and "\<not> destroyed s" and "shutting_down (the_pool s)"
  shows "((pool_step lib)\<^sup>*\<^sup>* s s' \<longrightarrow>
            shutting_down (the_pool s') \<and> length (lent s') \<le> length (lent s)
            \<and> fst (take_connection (the_pool s')) = None \<and> fst (getConnection env s') = Null_ptr)
         \<and> (\<exists>t. (pool_step lib)\<^sup>*\<^sup>* s t \<and> destroyed t \<and> pool_queue (the_pool t) = [] \<and> lent t = [])"
proof
  show "(pool_step lib)\<^sup>*\<^sup>* s s' \<longrightarrow>
        shutting_down (the_pool s') \<and> length (lent s') \<le> length (lent s)
        \<and> fst (take_connection (the_pool s')) = None \<and> fst (getConnection env s') = Null_ptr"
    using shutdown_steps assms(3) by (auto simp: take_connection_def getConnection_def)
  obtain s1 where s1: "(pool_step lib)\<^sup>*\<^sup>* s s1" "lent s1 = []" "destroyed s1 = destroyed s"
    "shutting_down (the_pool s1) = shutting_down (the_pool s)"
    "pool_count_inv (length (pool_queue (the_pool (new_DBConnectionPool lib cfg w0)))) s1"
    using return_all [OF pool_count_reach [OF assms(1)], of lib] by blast
  let ?t = "s1\<lparr>the_pool := (the_pool s1)\<lparr>pool_queue := []\<rparr>,
              world := drain_pool lib (pool_queue (the_pool s1)) (world s1), destroyed := True\<rparr>"
  have "pool_step lib s1 ?t"
    using assms(2,3) s1 by (intro pool_step.destroy) (simp_all add: pool_count_inv_def)
  with s1(1) have "(pool_step lib)\<^sup>*\<^sup>* s ?t"
    by (rule rtranclp.rtrancl_into_rtrancl)
  then show "\<exists>t. (pool_step lib)\<^sup>*\<^sup>* s t \<and> destroyed t \<and> pool_queue (the_pool t) = [] \<and> lent t = []"
    using s1(2) by (intro exI [of _ ?t]) simp
qed

text \<open>
  A client that is waiting for a connection when the pool starts to shut down is not told so:
  the wait's condition does not look at the flag, so as long as no connection comes back the
  client waits on and leaves with the timeout exception, and not with the null pointer that
  \<open>getConnection\<close> returns to later callers.
\<close>

theorem shutdown_does_not_release_waiters:
  assumes "\<not> shutting_down (the_pool s)" and "pool_queue (the_pool s) = []"
    and "the_pool (env s) = begin_shutdown (the_pool s)"
  shows "fst (getConnection env s) = Timeout \<and> fst (getConnection env (env s)) = Null_ptr"
  using assms by (simp add: getConnection_def begin_shutdown_def)

subsection \<open>Witnesses\<close>

definition demo_db0 :: demo_db where
  "demo_db0 = \<lparr>dd_next = 0, dd_open = [], dd_dead = [], dd_up = True\<rparr>"

definition demo_pool :: "demo_db pool_sys" where
  "demo_pool = new_DBConnectionPool demo_lib (demo_config 2) demo_db0"

definition demo_lent :: "demo_db pool_sys" where
  "demo_lent =
     (case take_connection (the_pool demo_pool) of (c, p) \<Rightarrow>
        demo_pool\<lparr>the_pool := p, lent := [the c]\<rparr>)"

lemma demo_pool_size: "unat (pool_size (demo_config 2)) = Suc (Suc 0)"
  by (simp add: demo_config_def)

lemmas demo_db_defs = demo_db0_def demo_lib_def demo_pool_size new_DBConnection_def connect_def isConnected_def new_DBConnectionPool_def

lemma demo_pool_eq:
  "demo_pool =
   \<lparr>the_pool = \<lparr>pool_queue = [\<lparr>db_config = demo_config 2, mysql_ptr = Some 1\<rparr>,
                              \<lparr>db_config = demo_config 2, mysql_ptr = Some 2\<rparr>],
                 pool_config = demo_config 2, shutting_down = False, active_connections = 0\<rparr>,
    lent = [], world = \<lparr>dd_next = 0, dd_open = [2, 1], dd_dead = [], dd_up = True\<rparr>,
    destroyed = False\<rparr>"
  by (simp add: demo_pool_def demo_db_defs Let_def)

lemma demo_lent_eq:
  "demo_lent =
   \<lparr>the_pool = \<lparr>pool_queue = [\<lparr>db_config = demo_config 2, mysql_ptr = Some 2\<rparr>],
                 pool_config = demo_config 2, shutting_down = False, active_connections = 1\<rparr>,
    lent = [\<lparr>db_config = demo_config 2, mysql_ptr = Some 1\<rparr>],
    world = \<lparr>dd_next = 0, dd_open = [2, 1], dd_dead = [], dd_up = True\<rparr>, destroyed = False\<rparr>"
  by (simp add: demo_lent_def demo_pool_eq take_connection_def)

lemma demo_reach_init: "pool_reach demo_lib (demo_config 2) demo_db0 demo_pool"
  unfolding demo_pool_def by (rule pool_reach.init)

lemma demo_reach_lent: "pool_reach demo_lib (demo_config 2) demo_db0 demo_lent"
proof (rule pool_reach.step [OF demo_reach_init])
  have "take_connection (the_pool demo_pool)
        = (Some (hd (lent demo_lent)), the_pool demo_lent)" "\<not> destroyed demo_pool"
    by (simp_all add: demo_pool_eq demo_lent_eq take_connection_def)
  from pool_step.take [OF this(2,1), of demo_lib]
  show "pool_step demo_lib demo_pool demo_lent"
    by (simp add: demo_pool_eq demo_lent_eq)
qed

definition demo_closing :: "demo_db pool_sys" where
  "demo_closing = demo_lent\<lparr>the_pool := begin_shutdown (the_pool demo_lent)\<rparr>"

lemma demo_reach_closing: "pool_reach demo_lib (demo_config 2) demo_db0 demo_closing"
  unfolding demo_closing_def
  by (rule pool_reach.step [OF demo_reach_lent pool_step.shutdown]) (simp add: demo_lent_eq)

theorem db_pool_conservation_witness:
  "active_connections (the_pool demo_lent) = 1
   \<and> length (pool_queue (the_pool demo_lent)) + length (lent demo_lent) = length (pool_queue (the_pool demo_pool))"
  using db_pool_conservation [OF demo_reach_lent] by (simp add: demo_lent_eq flip: demo_pool_def)

theorem db_pool_no_leak_witness:
  "demo_open (world demo_lent) = demo_open demo_db0 \<union> {1, 2}"
  using db_pool_no_leak [OF demo_lib_tracked demo_reach_lent]
  by (auto simp: demo_lent_eq pool_conns_def handle_list_def)

theorem db_pool_shutdown_witness:
  "fst (take_connection (the_pool demo_closing)) = None
   \<and> (\<exists>t. (pool_step demo_lib)\<^sup>*\<^sup>* demo_closing t \<and> destroyed t)"
proof -
  have c: "\<not> destroyed demo_closing" "shutting_down (the_pool demo_closing)"
    by (simp_all add: demo_closing_def demo_lent_eq begin_shutdown_def)
  show ?thesis
    using db_pool_shutdown [OF demo_reach_closing c, of demo_closing] by blast
qed

definition demo_empty :: "demo_db pool_sys" where
  "demo_empty = demo_pool\<lparr>the_pool := (the_pool demo_pool)\<lparr>pool_queue := []\<rparr>\<rparr>"

theorem shutdown_waiters_witness:
  "fst (getConnection (\<lambda>s. s\<lparr>the_pool := begin_shutdown (the_pool s)\<rparr>) demo_empty) = Timeout"
proof -
  let ?env = "\<lambda>s. s\<lparr>the_pool := begin_shutdown (the_pool s)\<rparr>"
  have "\<not> shutting_down (the_pool demo_empty)" "pool_queue (the_pool demo_empty) = []"
    by (simp_all add: demo_empty_def demo_pool_eq)
  from shutdown_does_not_release_waiters [OF this, of ?env] show ?thesis
    by simp
qed

end
