(* ===== verification/DB_Result.thy ===== *)
theory DB_Result
  imports Prelude
begin

section \<open>Query results: \<open>src/core/db/db_result.hpp\<close>\<close>

text \<open>
  A stored result set is an abstract \<open>'r\<close>, read through the library functions of the record
  \<open>res_api\<close>: the number and the names of its fields, and its next row. A cell is \<open>None\<close> for an SQL
  NULL, which the library hands out as a null pointer. A null pointer result of \<open>getRaw\<close> is \<open>None\<close>.
\<close>

type_synonym db_row = "string option list"

record 'r res_api =
  mysql_num_fields :: "'r \<Rightarrow> u32"
  mysql_fetch_fields :: "'r \<Rightarrow> string list"
  mysql_fetch_row :: "'r \<Rightarrow> db_row option \<times> 'r"
  mysql_fetch_lengths :: "'r \<Rightarrow> nat list option"

record 'r DBResult =
  result :: "'r option"
  row :: "db_row option"
  num_fields :: u32
  lengths :: "nat list option"
  field_index_map :: "(string \<times> int) list"

definition DBResult_default :: "'r DBResult" where
  "DBResult_default =
     \<lparr>result = None, row = None, num_fields = 0, lengths = None, field_index_map = []\<rparr>"

text \<open>\<open>emplace\<close> keeps an entry that is already there.\<close>

definition emplace :: "string \<Rightarrow> int \<Rightarrow> (string \<times> int) list \<Rightarrow> (string \<times> int) list" where
  "emplace k v m = (if map_of m k = None then (k, v) # m else m)"

primrec index_fields :: "string list \<Rightarrow> nat \<Rightarrow> (string \<times> int) list \<Rightarrow> (string \<times> int) list" where
  "index_fields [] i m = m"
| "index_fields (f # fs) i m =
     index_fields fs (Suc i) (emplace f (sint (word_of_nat i :: 32 word)) m)"

definition new_DBResult :: "'r res_api \<Rightarrow> 'r option \<Rightarrow> 'r DBResult" where
  "new_DBResult api res =
     (case res of
        None \<Rightarrow> DBResult_default
      | Some r \<Rightarrow>
          DBResult_default\<lparr>result := Some r, num_fields := mysql_num_fields api r,
            field_index_map :=
              index_fields (take (unat (mysql_num_fields api r)) (mysql_fetch_fields api r)) 0 []\<rparr>)"

definition getNumFields :: "'r DBResult \<Rightarrow> u32" where
  "getNumFields d = num_fields d"

definition nextRow :: "'r res_api \<Rightarrow> 'r DBResult \<Rightarrow> bool \<times> 'r DBResult" where
  "nextRow api d =
     (case result d of
        None \<Rightarrow> (False, d)
      | Some r \<Rightarrow>
          (case mysql_fetch_row api r of (rw, r1) \<Rightarrow>
             (rw \<noteq> None, d\<lparr>result := Some r1, row := rw, lengths := mysql_fetch_lengths api r1\<rparr>)))"

definition getRaw_index :: "'r DBResult \<Rightarrow> u32 \<Rightarrow> string option" where
  "getRaw_index d index =
     (case row d of
        None \<Rightarrow> None
      | Some cells \<Rightarrow> if index \<ge> num_fields d then None else cells ! unat index)"

definition getRaw :: "'r DBResult \<Rightarrow> string \<Rightarrow> string option" where
  "getRaw d field_name =
     (case map_of (field_index_map d) field_name of
        None \<Rightarrow> None
      | Some i \<Rightarrow> getRaw_index d (word_of_int i))"

subsection \<open>Fields by name\<close>

lemma map_of_index_fields:
  "map_of (index_fields fs i m) k
   = (case map_of m k of
        Some v \<Rightarrow> Some v
      | None \<Rightarrow> if k \<in> set fs then Some (sint (word_of_nat (i + length (takeWhile (\<lambda>f. f \<noteq> k) fs)) :: 32 word))
                else None)"
proof (induction fs arbitrary: i m)
  case (Cons f fs)
  show ?case
    by (cases "f = k") (auto simp: Cons.IH emplace_def split: option.split)
qed (simp split: option.split)

lemma takeWhile_first:
  assumes "i < length fs" and "\<forall>j<i. fs ! j \<noteq> fs ! i"
  shows "length (takeWhile (\<lambda>f. f \<noteq> fs ! i) fs) = i"
proof -
  have "takeWhile (\<lambda>f. f \<noteq> fs ! i) fs = take i fs"
    using assms by (intro takeWhile_eq_take_P_nth) auto
  then show ?thesis
    using assms(1) by simp
qed

text \<open>
  What the library promises of a result set: as many field names as fields, rows of that width,
  and a cursor \<open>rows\<close> over them.
\<close>

definition res_ok :: "'r res_api \<Rightarrow> ('r \<Rightarrow> db_row list) \<Rightarrow> bool" where
  "res_ok api rows \<longleftrightarrow>
     (\<forall>r. length (mysql_fetch_fields api r) = unat (mysql_num_fields api r)
          \<and> list_all (\<lambda>cells. length cells = unat (mysql_num_fields api r)) (rows r)
          \<and> (case mysql_fetch_row api r of
               (None, r1) \<Rightarrow> rows r = [] \<and> rows r1 = []
             | (Some cells, r1) \<Rightarrow> rows r = cells # rows r1))"

primrec next_rows :: "'r res_api \<Rightarrow> nat \<Rightarrow> 'r DBResult \<Rightarrow> bool \<times> 'r DBResult" where
  "next_rows api 0 d = (True, d)"
| "next_rows api (Suc k) d = nextRow api (snd (next_rows api k d))"

lemma nextRow_keeps:
  "num_fields (snd (nextRow api d)) = num_fields d"
  "field_index_map (snd (nextRow api d)) = field_index_map d"
  by (simp_all add: nextRow_def split: option.split prod.split)

lemma next_rows_keeps:
  "num_fields (snd (next_rows api k d)) = num_fields d
   \<and> field_index_map (snd (next_rows api k d)) = field_index_map d"
  by (induction k) (simp_all add: nextRow_keeps)

lemma next_rows_cursor:
  assumes "res_ok api rows" and "result d = Some r"
  shows "\<exists>r'. result (snd (next_rows api k d)) = Some r' \<and> rows r' = drop k (rows r)"
proof (induction k)
  case 0
  then show ?case using assms(2) by simp
next
  case (Suc k)
  then obtain r' where r': "result (snd (next_rows api k d)) = Some r'" "rows r' = drop k (rows r)"
    by blast
  obtain cells r1 where f: "mysql_fetch_row api r' = (cells, r1)"
    by (cases "mysql_fetch_row api r'")
  have "case mysql_fetch_row api r' of (None, r1) \<Rightarrow> rows r' = [] \<and> rows r1 = []
                               | (Some cells, r1) \<Rightarrow> rows r' = cells # rows r1"
    using assms(1) by (simp add: res_ok_def)
  then have "rows r1 = tl (rows r')"
    using f by (cases cells) auto
  then show ?case
    using r' f by (simp add: nextRow_def drop_Suc tl_drop)
qed

lemma next_rows_row:
  assumes "res_ok api rows" and "result d = Some r"
  shows "fst (next_rows api (Suc k) d) = (k < length (rows r))
         \<and> row (snd (next_rows api (Suc k) d)) = (if k < length (rows r) then Some (rows r ! k) else None)"
proof -
  obtain r' where r': "result (snd (next_rows api k d)) = Some r'" "rows r' = drop k (rows r)"
    using next_rows_cursor [OF assms] by blast
  obtain cells r1 where f: "mysql_fetch_row api r' = (cells, r1)"
    by (cases "mysql_fetch_row api r'")
  have c: "case mysql_fetch_row api r' of (None, r1) \<Rightarrow> rows r' = [] \<and> rows r1 = []
                               | (Some cells, r1) \<Rightarrow> rows r' = cells # rows r1"
    using assms(1) by (simp add: res_ok_def)
  show ?thesis
  proof (cases cells)
    case None
    then show ?thesis using c f r' by (simp add: nextRow_def)
  next
    case (Some x)
    then have "drop k (rows r) = x # rows r1"
      using c f r'(2) by simp
    then have "k < length (rows r) \<and> rows r ! k = x"
      by (metis drop_all list.distinct(1) nth_via_drop not_le)
    then show ?thesis
      using Some f r'(1) by (simp add: nextRow_def)
  qed
qed

lemma row_columns:
  assumes "res_ok api rows" and "mysql_num_fields api r < 2 ^ 31"
    and "(ok, d) = next_rows api (Suc k) (new_DBResult api (Some r))"
  shows "ok \<longleftrightarrow> k < length (rows r)"
    and "name \<notin> set (mysql_fetch_fields api r) \<or> \<not> ok \<Longrightarrow> getRaw d name = None"
    and "\<lbrakk>ok; i < length (mysql_fetch_fields api r); mysql_fetch_fields api r ! i = name;
          \<forall>j<i. mysql_fetch_fields api r ! j \<noteq> name\<rbrakk> \<Longrightarrow> getRaw d name = rows r ! k ! i"
proof -
  let ?d0 = "new_DBResult api (Some r)" and ?fs = "mysql_fetch_fields api r"
  have r0: "result ?d0 = Some r"
    by (simp add: new_DBResult_def)
  have len: "length ?fs = unat (mysql_num_fields api r)"
    using assms(1) by (simp add: res_ok_def)
  have m: "field_index_map d = index_fields ?fs 0 []" "num_fields d = mysql_num_fields api r"
    using next_rows_keeps [of api "Suc k" ?d0] assms(3) [symmetric] len
    by (simp_all add: new_DBResult_def del: next_rows.simps)
  have row: "ok = (k < length (rows r))" "row d = (if ok then Some (rows r ! k) else None)"
    using next_rows_row [OF assms(1) r0, of k] assms(3) [symmetric] by (simp_all del: next_rows.simps)
  show "ok \<longleftrightarrow> k < length (rows r)"
    by (rule row(1))
  show "getRaw d name = None" if "name \<notin> set ?fs \<or> \<not> ok"
    using that row(2)
    by (auto simp: getRaw_def getRaw_index_def m map_of_index_fields split: option.split)
  show "getRaw d name = rows r ! k ! i"
    if "ok" "i < length ?fs" "?fs ! i = name" "\<forall>j<i. ?fs ! j \<noteq> name"
  proof -
    have "map_of (field_index_map d) name = Some (sint (word_of_nat i :: 32 word))"
      using takeWhile_first [of i ?fs] that nth_mem [OF that(2)] by (simp add: m map_of_index_fields)
    then have "getRaw d name = getRaw_index d (word_of_nat i)"
      by (simp add: getRaw_def)
    moreover have "i < 2 ^ 31"
      using that(2) len assms(2) by (simp add: word_less_nat_alt)
    then have "unat (word_of_nat i :: 32 word) = i"
      by (simp add: unat_of_nat)
    moreover have "\<not> num_fields d \<le> (word_of_nat i :: 32 word)"
      using that(2) len m(2) \<open>unat (word_of_nat i :: 32 word) = i\<close> by (simp add: word_le_nat_alt)
    ultimately show ?thesis
      using that(1) row(2) by (simp add: getRaw_index_def)
  qed
qed

text \<open>
  Reading a result set by column name: after the \<open>k+1\<close>-st call \<open>nextRow\<close> has returned true
  exactly when the set has a row \<open>k\<close>, and then \<open>getRaw\<close> of a column's name returns row \<open>k\<close>'s cell of
  the first column of that name. A name that no column has, and any name after the last row,
  gives a null pointer.
\<close>

theorem db_result_columns:
  assumes "res_ok api rows" and "mysql_num_fields api r < 2 ^ 31"
    and "(ok, d) = next_rows api (Suc k) (new_DBResult api (Some r))"
  shows "(ok \<longleftrightarrow> k < length (rows r))
    \<and> (name \<notin> set (mysql_fetch_fields api r) \<or> \<not> ok \<longrightarrow> getRaw d name = None)
    \<and> (\<forall>i. ok \<and> i < length (mysql_fetch_fields api r) \<and> mysql_fetch_fields api r ! i = name
           \<and> (\<forall>j<i. mysql_fetch_fields api r ! j \<noteq> name) \<longrightarrow> getRaw d name = rows r ! k ! i)"
  using row_columns [OF assms] by blast

definition demo_res_api :: "(string list \<times> db_row list) res_api" where
  "demo_res_api =
     \<lparr>mysql_num_fields = (\<lambda>(fs, rs). 2),
      mysql_fetch_fields = (\<lambda>(fs, rs). [''id'', ''name'']),
      mysql_fetch_row = (\<lambda>(fs, rs). case rs of [] \<Rightarrow> (None, (fs, []))
         | c # cs \<Rightarrow> (Some (take 2 (c @ [None, None])), (fs, cs))),
      mysql_fetch_lengths = (\<lambda>(fs, rs). None)\<rparr>"

lemma demo_res_ok: "res_ok demo_res_api (\<lambda>(fs, rs). map (\<lambda>c. take 2 (c @ [None, None])) rs)"
  by (auto simp: res_ok_def demo_res_api_def list_all_iff split: list.split)

theorem db_result_columns_witness:
  "let r = (([] :: string list), [[Some ''7'', Some ''cpu''], [Some ''8'', None]]);
       d = snd (next_rows demo_res_api 1 (new_DBResult demo_res_api (Some r)))
   in getRaw d ''name'' = Some ''cpu'' \<and> getRaw d ''mem'' = None"
proof -
  let ?r = "(([] :: string list), [[Some ''7'', Some ''cpu''], [Some ''8'', None]])"
  let ?n = "next_rows demo_res_api (Suc 0) (new_DBResult demo_res_api (Some ?r))"
  have small: "mysql_num_fields demo_res_api ?r < 2 ^ 31"
    by (simp add: demo_res_api_def)
  have fs: "mysql_fetch_fields demo_res_api ?r = [''id'', ''name'']"
    by (simp add: demo_res_api_def)
  note p = db_result_columns [OF demo_res_ok small prod.collapse [of ?n]]
  have "getRaw (snd ?n) ''name'' = Some ''cpu''"
    using p [of "''name''", THEN conjunct2, THEN conjunct2, THEN spec, of 1] p [THEN conjunct1]
    by (simp add: fs)
  moreover have "getRaw (snd ?n) ''mem'' = None"
    using p [of "''mem''"] by (simp add: fs)
  ultimately show ?thesis
    by simp
qed

end
