(* ===== verification/DB_Operator.thy ===== *)
theory DB_Operator
  imports DB_Pool DB_Result
begin

section \<open>The database facade: \<open>src/core/db/db_operator.cpp\<close> (\<open>DBOperator\<close>)\<close>

text \<open>
  The singleton that owns the pool. Its operations take a connection, use it and give it back when
  the \<open>shared_ptr\<close> leaves its scope, which it does on every path. \<open>env\<close> is what the other threads do
  while \<open>getConnection\<close> waits; \<open>lib_init\<close> and \<open>lib_end\<close> are \<open>mysql_library_init\<close> and
  \<open>mysql_library_end\<close>.
\<close>

record 'w DBOperator =
  op_config :: DBConfig
  op_pool :: "'w pool_sys option"

text \<open>\<open>initDBPool\<close> returns its verdict, the pool it set (null when the library failed) and the library.\<close>

definition initDBPool ::
  "('w, 'r) mysql_lib \<Rightarrow> ('w \<Rightarrow> int \<times> 'w) \<Rightarrow> DBConfig \<Rightarrow> 'w \<Rightarrow> bool \<times> 'w pool_sys option \<times> 'w" where
  "initDBPool lib lib_init cfg w =
     (case lib_init w of (rc, w1) \<Rightarrow>
        if rc \<noteq> 0 then (False, None, w1)
        else (let s = new_DBConnectionPool lib cfg w1 in
              (getPoolSize (the_pool s) > 0, Some s, world s)))"

text \<open>The constructor: \<open>Inl\<close> is the exception, with the library state it leaves.\<close>

definition new_DBOperator ::
  "('w, 'r) mysql_lib \<Rightarrow> ('w \<Rightarrow> int \<times> 'w) \<Rightarrow> DBConfig \<Rightarrow> 'w \<Rightarrow> 'w + 'w DBOperator" where
  "new_DBOperator lib lib_init cfg w =
     (case initDBPool lib lib_init cfg w of (ok, p, w1) \<Rightarrow>
        if \<not> ok then Inl w1 else Inr \<lparr>op_config = cfg, op_pool = p\<rparr>)"

text \<open>
  The function-local static: constructed by the first call that succeeds, with that call's
  configuration. Before, the state is the library's, afterwards the instance.
\<close>

definition getInstance ::
  "('w, 'r) mysql_lib \<Rightarrow> ('w \<Rightarrow> int \<times> 'w) \<Rightarrow> DBConfig \<Rightarrow> 'w + 'w DBOperator \<Rightarrow> 'w + 'w DBOperator" where
  "getInstance lib lib_init cfg inst =
     (case inst of Inr oper \<Rightarrow> Inr oper | Inl w \<Rightarrow> new_DBOperator lib lib_init cfg w)"

text \<open>
  The destructor's body runs before the members are destroyed: the library is ended first and the
  pool's connections are closed afterwards.
\<close>

definition DBOperator_destroy ::
  "('w, 'r) mysql_lib \<Rightarrow> ('w \<Rightarrow> 'w) \<Rightarrow> 'w DBOperator \<Rightarrow> 'w \<Rightarrow> 'w" where
  "DBOperator_destroy lib lib_end oper w =
     (case op_pool oper of
        None \<Rightarrow> lib_end w
      | Some s \<Rightarrow> drain_pool lib (pool_queue (the_pool s)) (lib_end w))"

definition release ::
  "('w, 'r) mysql_lib \<Rightarrow> DBConnection \<Rightarrow> 'w pool_sys \<Rightarrow> 'w pool_sys" where
  "release lib c s =
     (case return_connection lib c (the_pool s) (world s) of (p, w) \<Rightarrow>
        s\<lparr>the_pool := p, lent := remove1 c (lent s), world := w\<rparr>)"

text \<open>A null pool pointer is dereferenced by \<open>queryDB\<close>, which has no guard: \<open>None\<close>.\<close>

definition queryDB ::
  "('w, 'r) mysql_lib \<Rightarrow> 'r res_api \<Rightarrow> ('w pool_sys \<Rightarrow> 'w pool_sys) \<Rightarrow> string \<Rightarrow> 'w DBOperator
   \<Rightarrow> ('r DBResult \<times> 'w DBOperator) option" where
  "queryDB lib api env sql oper =
     (case op_pool oper of
        None \<Rightarrow> None
      | Some s \<Rightarrow>
          Some (case getConnection env s of
                  (Got c, s1) \<Rightarrow>
                    (case query lib c sql (world s1) of (res, w) \<Rightarrow>
                       (new_DBResult api res, oper\<lparr>op_pool := Some (release lib c (s1\<lparr>world := w\<rparr>))\<rparr>))
                | (_, s1) \<Rightarrow> (DBResult_default, oper\<lparr>op_pool := Some s1\<rparr>)))"

definition executeDB ::
  "('w, 'r) mysql_lib \<Rightarrow> ('w pool_sys \<Rightarrow> 'w pool_sys) \<Rightarrow> string \<Rightarrow> 'w DBOperator
   \<Rightarrow> bool \<times> 'w DBOperator" where
  "executeDB lib env sql oper =
     (case op_pool oper of
        None \<Rightarrow> (False, oper)
      | Some s \<Rightarrow>
          (case getConnection env s of
             (Got c, s1) \<Rightarrow>
               (case execute lib c sql (world s1) of (ok, w) \<Rightarrow>
                  (ok, oper\<lparr>op_pool := Some (release lib c (s1\<lparr>world := w\<rparr>))\<rparr>))
           | (_, s1) \<Rightarrow> (False, oper\<lparr>op_pool := Some s1\<rparr>)))"

definition batchInsertDB ::
  "('w, 'r) mysql_lib \<Rightarrow> ('w pool_sys \<Rightarrow> 'w pool_sys) \<Rightarrow> string \<Rightarrow> 't list \<Rightarrow> 'w DBOperator
   \<Rightarrow> bool option \<times> 'w DBOperator" where
  "batchInsertDB lib env sql records oper =
     (case op_pool oper of
        None \<Rightarrow> (Some False, oper)
      | Some s \<Rightarrow>
          (case getConnection env s of
             (Got c, s1) \<Rightarrow>
               (case batchInsert lib c sql records (world s1) of (ok, w) \<Rightarrow>
                  (ok, oper\<lparr>op_pool := Some (release lib c (s1\<lparr>world := w\<rparr>))\<rparr>))
           | (_, s1) \<Rightarrow> (Some False, oper\<lparr>op_pool := Some s1\<rparr>)))"

subsection \<open>The facade's operations are pool steps\<close>

lemma release_step:
  "c \<in> set (lent s) \<Longrightarrow> pool_step lib s (release lib c s)"
  by (cases "return_connection lib c (the_pool s) (world s)")
    (simp add: release_def pool_step.give_back)

lemma getConnection_steps:
  assumes "getConnection env s = (r, s1)" and "\<not> destroyed s"
    and "(pool_step lib)\<^sup>*\<^sup>* s (env s)" and "\<not> destroyed (env s)"
  shows "(pool_step lib)\<^sup>*\<^sup>* s s1 \<and> (\<forall>c. r = Got c \<longrightarrow> c \<in> set (lent s1))"
proof -
  let ?s1 = "if pool_queue (the_pool s) = [] then env s else s"
  have reach: "(pool_step lib)\<^sup>*\<^sup>* s ?s1" and alive: "\<not> destroyed ?s1"
    using assms(2-4) by simp_all
  show ?thesis
  proof (cases "\<not> shutting_down (the_pool s) \<and> fst (take_connection (the_pool ?s1)) \<noteq> None")
    case True
    then obtain c p where t: "take_connection (the_pool ?s1) = (Some c, p)"
      by (cases "take_connection (the_pool ?s1)") auto
    then have "s1 = ?s1\<lparr>the_pool := p, lent := c # lent ?s1\<rparr>" "r = Got c"
      using assms(1) True by (auto simp: getConnection_def Let_def take_connection_def split: if_splits)
    moreover have "pool_step lib ?s1 (?s1\<lparr>the_pool := p, lent := c # lent ?s1\<rparr>)"
      by (rule pool_step.take [OF alive t])
    ultimately show ?thesis
      using reach rtranclp.rtrancl_into_rtrancl [OF reach] by simp
  next
    case False
    then have "(s1 = s \<or> s1 = ?s1) \<and> (r = Null_ptr \<or> r = Timeout)"
      using assms(1) by (auto simp: getConnection_def Let_def take_connection_def split: if_splits)
    then show ?thesis
      using reach by auto
  qed
qed

definition op_steps :: "('w, 'r) mysql_lib \<Rightarrow> 'w DBOperator \<Rightarrow> 'w DBOperator \<Rightarrow> bool" where
  "op_steps lib oper oper' \<longleftrightarrow>
     (case (op_pool oper, op_pool oper') of
        (Some s, Some s') \<Rightarrow> (pool_step lib)\<^sup>*\<^sup>* s s'
      | (None, None) \<Rightarrow> True
      | _ \<Rightarrow> False)"

lemma use_and_release:
  assumes "(pool_step lib)\<^sup>*\<^sup>* s s1" and "c \<in> set (lent s1)" and "pool_step lib s1 (s1\<lparr>world := w\<rparr>)"
  shows "(pool_step lib)\<^sup>*\<^sup>* s (release lib c (s1\<lparr>world := w\<rparr>))"
  using assms(1,3) release_step [of c "s1\<lparr>world := w\<rparr>" lib] assms(2)
  by (simp add: rtranclp.rtrancl_into_rtrancl)

lemma operations_are_steps:
  assumes "op_pool oper = Some s" and "\<not> destroyed s" and "\<not> destroyed (env s)"
    and "(pool_step lib)\<^sup>*\<^sup>* s (env s)"
  shows "op_steps lib oper (snd (executeDB lib env sql oper))"
    and "\<exists>d oper'. queryDB lib api env sql oper = Some (d, oper') \<and> op_steps lib oper oper'"
proof -
  obtain r s1 where g: "getConnection env s = (r, s1)"
    by (cases "getConnection env s")
  have st: "(pool_step lib)\<^sup>*\<^sup>* s s1" and held: "\<And>c. r = Got c \<Longrightarrow> c \<in> set (lent s1)"
    using getConnection_steps [OF g assms(2,4,3)] by auto
  have e: "(pool_step lib)\<^sup>*\<^sup>* s (release lib c (s1\<lparr>world := w\<rparr>))"
    if "r = Got c" "execute lib c sql (world s1) = (ok, w)" for c ok w
    using use_and_release [OF st held [OF that(1)] pool_step.run_sql [OF held [OF that(1)] that(2)]] .
  have q: "(pool_step lib)\<^sup>*\<^sup>* s (release lib c (s1\<lparr>world := w\<rparr>))"
    if "r = Got c" "query lib c sql (world s1) = (res, w)" for c res w
    using use_and_release [OF st held [OF that(1)] pool_step.run_query [OF held [OF that(1)] that(2)]] .
  show "op_steps lib oper (snd (executeDB lib env sql oper))"
    using assms(1) g st e by (cases r) (auto simp: op_steps_def executeDB_def split: prod.split)
  show "\<exists>d oper'. queryDB lib api env sql oper = Some (d, oper') \<and> op_steps lib oper oper'"
    using assms(1) g st q by (cases r) (auto simp: op_steps_def queryDB_def split: prod.split)
qed

text \<open>
  What an operation leaves that took the first connection \<open>c\<close> of the pool \<open>s\<close> and came to the library
  state \<open>w\<close> with it: nothing more is lent than before, and at the end of the queue there is the
  same connection, or another if it was lost.
\<close>

definition released ::
  "('w, 'r) mysql_lib \<Rightarrow> DBConnection \<Rightarrow> 'w pool_sys \<Rightarrow> 'w \<Rightarrow> 'w DBOperator \<Rightarrow> bool" where
  "released lib c s w oper \<longleftrightarrow>
     (\<exists>t c'. op_pool oper = Some t \<and> lent t = lent s \<and> destroyed t = destroyed s
        \<and> active_connections (the_pool t) = active_connections (the_pool s)
        \<and> shutting_down (the_pool t) = shutting_down (the_pool s)
        \<and> pool_queue (the_pool t) = tl (pool_queue (the_pool s)) @ [c']
        \<and> (fst (isConnected lib c w) \<longrightarrow> c' = c \<and> world t = snd (isConnected lib c w)))"

lemma released_release:
  assumes "pool_queue (the_pool s) = c # q"
  shows "released lib c s w (oper\<lparr>op_pool := Some (release lib c
    (s\<lparr>the_pool := (the_pool s)\<lparr>pool_queue := q, active_connections := active_connections (the_pool s) + 1\<rparr>,
       lent := c # lent s, world := w\<rparr>))\<rparr>)"
  using assms
  by (auto simp: released_def release_def return_connection_def split: prod.split)

definition awaited :: "('w pool_sys \<Rightarrow> 'w pool_sys) \<Rightarrow> 'w pool_sys \<Rightarrow> 'w pool_sys" where
  "awaited env s = (if shutting_down (the_pool s) \<or> pool_queue (the_pool s) \<noteq> [] then s else env s)"

lemma getConnection_none:
  assumes "shutting_down (the_pool (awaited env s)) \<or> pool_queue (the_pool (awaited env s)) = []"
  shows "\<exists>r \<in> {Null_ptr, Timeout}. getConnection env s = (r, awaited env s)"
  using assms by (auto simp: getConnection_def awaited_def take_connection_def Let_def split: if_splits)

lemma getConnection_first:
  assumes "\<not> shutting_down (the_pool (awaited env s))" and "pool_queue (the_pool (awaited env s)) = c # q"
  shows "getConnection env s = (Got c, (awaited env s)
    \<lparr>the_pool := (the_pool (awaited env s))\<lparr>pool_queue := q, active_connections := active_connections (the_pool (awaited env s)) + 1\<rparr>,
     lent := c # lent (awaited env s)\<rparr>)"
  using assms by (auto simp: getConnection_def awaited_def take_connection_def Let_def split: if_splits)


text \<open>
  One statement on a pool with an idle connection: \<open>executeDB\<close> runs it on the connection at the
  front of the queue and reports that connection's verdict, and whatever the verdict the
  connection, or its replacement, is back at the end of the queue with the counters unchanged.
  With no idle connection and none coming back, and likewise while shutting down, it reports
  failure and changes nothing.
\<close>

theorem executeDB_outcome:
  assumes "op_pool oper = Some s"
  shows "(pool_queue (the_pool s) = c # q \<and> \<not> shutting_down (the_pool s) \<longrightarrow>
            fst (executeDB lib env sql oper) = fst (execute lib c sql (world s))
            \<and> (\<exists>s' c'. op_pool (snd (executeDB lib env sql oper)) = Some s'
                 \<and> pool_queue (the_pool s') = q @ [c'] \<and> lent s' = lent s
                 \<and> active_connections (the_pool s') = active_connections (the_pool s)))
         \<and> ((pool_queue (the_pool s) = [] \<and> env s = s) \<or> shutting_down (the_pool s) \<longrightarrow>
            executeDB lib env sql oper = (False, oper))"
proof
  show "pool_queue (the_pool s) = c # q \<and> \<not> shutting_down (the_pool s) \<longrightarrow>
            fst (executeDB lib env sql oper) = fst (execute lib c sql (world s))
            \<and> (\<exists>s' c'. op_pool (snd (executeDB lib env sql oper)) = Some s'
                 \<and> pool_queue (the_pool s') = q @ [c'] \<and> lent s' = lent s
                 \<and> active_connections (the_pool s') = active_connections (the_pool s))"
    using assms
    by (auto simp: executeDB_def getConnection_def take_connection_def release_def
        return_connection_def split: prod.split)
  show "(pool_queue (the_pool s) = [] \<and> env s = s) \<or> shutting_down (the_pool s) \<longrightarrow>
            executeDB lib env sql oper = (False, oper)"
    using assms by (auto simp: executeDB_def getConnection_def)
qed

text \<open>
  The singleton: an instance exists only with at least one working connection, the first
  successful call's configuration stays for good, and a failed construction leaves no instance
  and no open handle behind.
\<close>

theorem getInstance_singleton:
  assumes "handles_tracked lib opn" and "\<And>w. opn (snd (lib_init w)) = opn w"
  shows "(getInstance lib lib_init cfg (Inl w) = Inr oper \<longrightarrow>
            op_config oper = cfg \<and> (\<exists>s. op_pool oper = Some s \<and> pool_queue (the_pool s) \<noteq> [])
            \<and> getInstance lib lib_init cfg' (Inr oper) = Inr oper)
         \<and> (getInstance lib lib_init cfg (Inl w) = Inl w' \<longrightarrow> opn w' = opn w)"
proof
  show "getInstance lib lib_init cfg (Inl w) = Inr oper \<longrightarrow>
            op_config oper = cfg \<and> (\<exists>s. op_pool oper = Some s \<and> pool_queue (the_pool s) \<noteq> [])
            \<and> getInstance lib lib_init cfg' (Inr oper) = Inr oper"
    by (auto simp: getInstance_def new_DBOperator_def initDBPool_def getPoolSize_def Let_def
        split: prod.splits if_splits)
  have i: "opn w1 = opn w" if "lib_init w = (rc, w1)" for rc w1
    using assms(2) [of w] that by simp
  have p: "opn (world (new_DBConnectionPool lib cfg w1)) = opn w1"
    if "pool_queue (the_pool (new_DBConnectionPool lib cfg w1)) = []" for w1
    using db_pool_accounted_init [OF assms(1), of w1 cfg] that
    by (simp add: accounted_def pool_conns_def new_DBConnectionPool_def split: prod.splits)
  show "getInstance lib lib_init cfg (Inl w) = Inl w' \<longrightarrow> opn w' = opn w"
    using i p
    by (auto simp: getInstance_def new_DBOperator_def initDBPool_def getPoolSize_def Let_def
        split: prod.splits if_splits)
qed

subsection \<open>Witnesses\<close>

definition demo_operator :: "demo_db DBOperator" where
  "demo_operator = \<lparr>op_config = demo_config 2, op_pool = Some demo_pool\<rparr>"


theorem executeDB_outcome_witness:
  "fst (executeDB demo_lib (\<lambda>s. s) ''delete'' demo_operator)
   \<and> (\<exists>s'. op_pool (snd (executeDB demo_lib (\<lambda>s. s) ''delete'' demo_operator)) = Some s'
           \<and> lent s' = [] \<and> length (pool_queue (the_pool s')) = 2)"
proof -
  let ?c = "\<lambda>n. \<lparr>db_config = demo_config 2, mysql_ptr = Some n\<rparr>"
  have "op_pool demo_operator = Some demo_pool"
    by (simp add: demo_operator_def)
  from executeDB_outcome [OF this, of "?c 1" "[?c 2]" demo_lib "\<lambda>s. s" "''delete''"]
  have o: "fst (executeDB demo_lib (\<lambda>s. s) ''delete'' demo_operator)
             = fst (execute demo_lib (?c 1) ''delete'' (world demo_pool))
           \<and> (\<exists>s' c'. op_pool (snd (executeDB demo_lib (\<lambda>s. s) ''delete'' demo_operator)) = Some s'
                 \<and> pool_queue (the_pool s') = [?c 2] @ [c'] \<and> lent s' = lent demo_pool)"
    by (fastforce simp: demo_pool_eq)
  moreover have "fst (execute demo_lib (?c 1) ''delete'' (world demo_pool))"
    by (simp add: execute_def isConnected_def demo_lib_def demo_pool_eq)
  moreover have "lent demo_pool = []"
    by (simp add: demo_pool_eq)
  ultimately show ?thesis
    by auto
qed

theorem getInstance_singleton_witness:
  "getInstance demo_lib (\<lambda>w. (0, w)) (demo_config 5) (Inr demo_operator) = Inr demo_operator
   \<and> op_config demo_operator = demo_config 2"
proof -
  have "getInstance demo_lib (\<lambda>w. (0, w)) (demo_config 2) (Inl demo_db0) = Inr demo_operator"
    by (simp add: getInstance_def new_DBOperator_def initDBPool_def demo_operator_def getPoolSize_def
        demo_pool_eq flip: demo_pool_def)
  then show ?thesis
    using getInstance_singleton [OF demo_lib_tracked, of "\<lambda>w. (0, w)"] by simp
qed

end
