(* ===== verification/Path_Utils.thy ===== *)
theory Path_Utils
  imports Prelude
begin

section \<open>Paths: \<open>src/common/utils/path_utils.cpp\<close>\<close>

text \<open>
  The parameter \<open>exe\<close> is the target of the link \<open>/proc/self/exe\<close>, \<open>None\<close> when it cannot be read.
  \<open>readlink\<close> copies at most the \<open>PATH_MAX\<close> bytes of the buffer. \<open>Inl\<close> is the thrown message.
\<close>

definition PATH_MAX :: nat where "PATH_MAX = 4096"

definition CONFIGS_PATH :: string where "CONFIGS_PATH = ''../etc/lite_monitor.yaml''"
definition INIT_SQL_SCRIPT_PATH :: string where "INIT_SQL_SCRIPT_PATH = ''../scripts/init.sql''"
definition PARTITION_SQL_SCRIPT_PATH :: string where
  "PARTITION_SQL_SCRIPT_PATH = ''../scripts/partition.sql''"

definition readlink :: "string option \<Rightarrow> nat \<Rightarrow> string option" where
  "readlink exe bufsiz = map_option (take bufsiz) exe"

definition getModuleDir :: "string option \<Rightarrow> string + string" where
  "getModuleDir exe =
     (case readlink exe PATH_MAX of
        None \<Rightarrow> Inl ''Failed to read /proc/self/exe''
      | Some full_path \<Rightarrow>
          (case find_last (CHR ''/'') full_path of
             None \<Rightarrow> Inr ''.''
           | Some last_slash \<Rightarrow> Inr (take last_slash full_path)))"

definition joinAppPath :: "string option \<Rightarrow> string \<Rightarrow> string + string" where
  "joinAppPath exe relative_path = map_sum id (\<lambda>d. d @ ''/'' @ relative_path) (getModuleDir exe)"

definition getInitSqlScriptPath :: "string option \<Rightarrow> string + string" where
  "getInitSqlScriptPath exe = map_sum id (\<lambda>d. d @ ''/'' @ INIT_SQL_SCRIPT_PATH) (getModuleDir exe)"

definition getConfigsPath :: "string option \<Rightarrow> string + string" where
  "getConfigsPath exe = map_sum id (\<lambda>d. d @ ''/'' @ CONFIGS_PATH) (getModuleDir exe)"

lemma getModuleDir_split:
  assumes "length (dir @ ''/'' @ name) \<le> PATH_MAX" and "CHR ''/'' \<notin> set name"
  shows "getModuleDir (Some (dir @ ''/'' @ name)) = Inr dir"
  using assms by (simp add: getModuleDir_def readlink_def find_last_append)

text \<open>
  For an executable \<open>dir/name\<close> whose path fits the buffer, all application paths are relative to
  its own directory: the configuration is \<open>dir/../etc/lite_monitor.yaml\<close>, the script
  \<open>dir/../scripts/init.sql\<close>, and \<open>joinAppPath\<close> appends any relative path to \<open>dir/\<close>.
\<close>

theorem app_paths:
  assumes "length (dir @ ''/'' @ name) \<le> PATH_MAX" and "CHR ''/'' \<notin> set name"
  shows "getConfigsPath (Some (dir @ ''/'' @ name)) = Inr (dir @ ''/../etc/lite_monitor.yaml'')
         \<and> getInitSqlScriptPath (Some (dir @ ''/'' @ name)) = Inr (dir @ ''/../scripts/init.sql'')
         \<and> joinAppPath (Some (dir @ ''/'' @ name)) rel = Inr (dir @ ''/'' @ rel)"
  unfolding getConfigsPath_def getInitSqlScriptPath_def joinAppPath_def getModuleDir_split [OF assms]
  by (simp add: CONFIGS_PATH_def INIT_SQL_SCRIPT_PATH_def)

theorem app_paths_witness:
  "getConfigsPath (Some ''/opt/lm/bin/lite_monitor'') = Inr ''/opt/lm/bin/../etc/lite_monitor.yaml''"
  using app_paths [of "''/opt/lm/bin''" "''lite_monitor''"] by (simp add: PATH_MAX_def)

text \<open>
  A path longer than the buffer is cut without notice: when the first \<open>PATH_MAX\<close> bytes end in
  the middle of a directory name, the module directory is one of the executable's ancestors.
\<close>

theorem long_path_truncated:
  assumes "length (dir @ ''/'' @ part) = PATH_MAX" and "CHR ''/'' \<notin> set part"
  shows "getModuleDir (Some (dir @ ''/'' @ part @ rest)) = Inr dir"
proof -
  have "take PATH_MAX ((dir @ ''/'' @ part) @ rest) = dir @ ''/'' @ part"
    unfolding assms(1) [symmetric] by (simp only: take_append) simp
  then have "take PATH_MAX (dir @ ''/'' @ part @ rest) = dir @ ''/'' @ part"
    by simp
  then show ?thesis
    using assms(2) by (simp add: getModuleDir_def readlink_def find_last_append)
qed

theorem long_path_witness:
  "getModuleDir (Some (''/a'' @ ''/'' @ replicate 4093 (CHR ''x'') @ ''yz/bin/lm'')) = Inr ''/a''"
  by (rule long_path_truncated) (simp_all add: PATH_MAX_def)

end
