(* ===== verification/File_Helper.thy ===== *)
theory File_Helper
  imports Prelude
begin

section \<open>Log files: \<open>spdlog/details/os-inl.h\<close> and \<open>file_helper-inl.h\<close>\<close>

text \<open>
  The system calls and stdio functions that spdlog uses, on an explicit file system, and
  \<open>file_helper\<close> on top of them. A \<open>world\<close> holds the regular files by path, the directories, the
  table of \<open>FILE\<close> streams of the process and a script of what the next calls do; a call beyond the
  end of the script succeeds. A stream buffers what is written to it and is bound to its path: the
  code closes a log file before it renames or removes it.

  A call can fail. \<open>failed\<close> is then \<open>Some n\<close>, where \<open>n\<close> bounds what a failing call still takes over:
  the bytes that \<open>fwrite\<close> accepts, the bytes that stay buffered after \<open>fflush\<close>. \<open>drained\<close> is how much
  of its buffer a stream passes on to the file during \<open>fwrite\<close> (at any time a full buffer may be
  written out) or during a failing \<open>fflush\<close> or \<open>fclose\<close>.
\<close>

record stream =
  stream_path :: string
  stream_buf :: "byte list"

record call_outcome =
  failed :: "nat option"
  drained :: nat

record world =
  files :: "string \<rightharpoonup> byte list"
  dirs :: "string list"
  streams :: "stream option list"
  outcomes :: "call_outcome list"

definition next_outcome :: "world \<Rightarrow> call_outcome \<times> world" where
  "next_outcome w =
     (case outcomes w of
        [] \<Rightarrow> (\<lparr>failed = None, drained = 0\<rparr>, w)
      | c # cs \<Rightarrow> (c, w\<lparr>outcomes := cs\<rparr>))"

definition stream_at :: "world \<Rightarrow> nat \<Rightarrow> stream option" where
  "stream_at w d = (if d < length (streams w) then streams w ! d else None)"

definition append_file :: "string \<Rightarrow> byte list \<Rightarrow> (string \<rightharpoonup> byte list) \<Rightarrow> (string \<rightharpoonup> byte list)" where
  "append_file p bs fs = (case fs p of None \<Rightarrow> fs | Some c \<Rightarrow> fs(p \<mapsto> c @ bs))"

text \<open>The first \<open>k\<close> bytes of \<open>buf\<close> go to the file of stream \<open>d\<close>, \<open>keep\<close> of the others stay buffered.\<close>

definition drain :: "nat \<Rightarrow> nat \<Rightarrow> nat \<Rightarrow> byte list \<Rightarrow> world \<Rightarrow> world" where
  "drain d k keep buf w =
     (case stream_at w d of
        None \<Rightarrow> w
      | Some s \<Rightarrow>
          w\<lparr>files := append_file (stream_path s) (take k buf) (files w),
            streams := (streams w)[d := Some (s\<lparr>stream_buf := take keep (drop k buf)\<rparr>)]\<rparr>)"

definition buffered :: "world \<Rightarrow> nat \<Rightarrow> byte list" where
  "buffered w d = (case stream_at w d of None \<Rightarrow> [] | Some s \<Rightarrow> stream_buf s)"

subsection \<open>System calls\<close>

text \<open>\<open>fopen_s\<close> with the mode \<open>"wb"\<close>, which empties the file, or \<open>"ab"\<close>; the new stream or \<open>None\<close>.\<close>

definition fopen_s :: "string \<Rightarrow> bool \<Rightarrow> world \<Rightarrow> nat option \<times> world" where
  "fopen_s p wb w =
     (let (c, w1) = next_outcome w in
      if failed c \<noteq> None then (None, w1)
      else (Some (length (streams w1)),
            w1\<lparr>files := (files w1)(p \<mapsto> (if wb then [] else case files w1 p of None \<Rightarrow> [] | Some b \<Rightarrow> b)),
               streams := streams w1 @ [Some \<lparr>stream_path = p, stream_buf = []\<rparr>]\<rparr>))"

text \<open>\<open>fwrite\<close> returns the number of bytes it accepted.\<close>

definition fwrite :: "byte list \<Rightarrow> nat \<Rightarrow> world \<Rightarrow> nat \<times> world" where
  "fwrite bs d w =
     (let (c, w1) = next_outcome w;
          n = (case failed c of None \<Rightarrow> length bs | Some k \<Rightarrow> min k (length bs));
          buf = buffered w1 d @ take n bs in
      (n, drain d (drained c) (length buf) buf w1))"

definition fflush_stream :: "nat \<Rightarrow> world \<Rightarrow> bool \<times> world" where
  "fflush_stream d w =
     (let (c, w1) = next_outcome w; buf = buffered w1 d in
      case failed c of
        None \<Rightarrow> (True, drain d (length buf) 0 buf w1)
      | Some k \<Rightarrow> (False, drain d (drained c) k buf w1))"

fun fflush_streams :: "nat list \<Rightarrow> world \<Rightarrow> bool \<times> world" where
  "fflush_streams [] w = (True, w)"
| "fflush_streams (d # ds) w =
     (let (ok1, w1) = fflush_stream d w; (ok2, w2) = fflush_streams ds w1 in (ok1 \<and> ok2, w2))"

text \<open>\<open>fflush(nullptr)\<close> flushes every stream of the process.\<close>

definition fflush :: "nat option \<Rightarrow> world \<Rightarrow> bool \<times> world" where
  "fflush fd w =
     (case fd of Some d \<Rightarrow> fflush_stream d w | None \<Rightarrow> fflush_streams [0..<length (streams w)] w)"

definition fclose :: "nat \<Rightarrow> world \<Rightarrow> world" where
  "fclose d w = (let w1 = snd (fflush_stream d w) in w1\<lparr>streams := (streams w1)[d := None]\<rparr>)"

definition remove_path :: "string \<Rightarrow> world \<Rightarrow> bool \<times> world" where
  "remove_path p w =
     (let (c, w1) = next_outcome w in
      if failed c \<noteq> None \<or> files w1 p = None then (False, w1)
      else (True, w1\<lparr>files := (files w1)(p := None)\<rparr>))"

definition rename_path :: "string \<Rightarrow> string \<Rightarrow> world \<Rightarrow> bool \<times> world" where
  "rename_path p q w =
     (let (c, w1) = next_outcome w in
      case files w1 p of
        None \<Rightarrow> (False, w1)
      | Some b \<Rightarrow>
          if failed c \<noteq> None then (False, w1)
          else if p = q then (True, w1)
          else (True, w1\<lparr>files := (files w1)(p := None, q \<mapsto> b)\<rparr>))"

definition path_exists :: "string \<Rightarrow> world \<Rightarrow> bool \<times> world" where
  "path_exists p w =
     (let (c, w1) = next_outcome w in
      (failed c = None \<and> (files w1 p \<noteq> None \<or> p \<in> set (dirs w1)), w1))"

definition mkdir :: "string \<Rightarrow> world \<Rightarrow> bool \<times> world" where
  "mkdir p w =
     (let (c, w1) = next_outcome w in
      if failed c \<noteq> None then (False, w1) else (True, w1\<lparr>dirs := p # dirs w1\<rparr>))"

text \<open>\<open>fstat\<close> on the descriptor of a stream: what has reached the file.\<close>

definition filesize :: "nat \<Rightarrow> world \<Rightarrow> nat option \<times> world" where
  "filesize d w =
     (let (c, w1) = next_outcome w in
      case stream_at w1 d of
        None \<Rightarrow> (None, w1)
      | Some s \<Rightarrow>
          (case files w1 (stream_path s) of
             None \<Rightarrow> (None, w1)
           | Some b \<Rightarrow> (if failed c = None then (Some (length b), w1) else (None, w1))))"

subsection \<open>Directories\<close>

definition dir_name :: "string \<Rightarrow> string" where
  "dir_name path = (case find_last (CHR ''/'') path of Some pos \<Rightarrow> take pos path | None \<Rightarrow> [])"

text \<open>The loop of \<open>create_dir\<close> from \<open>search_offset\<close> on.\<close>

function create_dir_loop :: "string \<Rightarrow> nat \<Rightarrow> world \<Rightarrow> bool \<times> world" where
  "create_dir_loop path offset w =
     (let token_pos = (case find_from (CHR ''/'') offset path of Some i \<Rightarrow> i | None \<Rightarrow> length path);
          subdir = take token_pos path;
          (made, w1) =
            (if subdir = [] then (True, w)
             else let (there, w1) = path_exists subdir w in if there then (True, w1) else mkdir subdir w1) in
      if \<not> made then (False, w1)
      else if token_pos + 1 < length path then create_dir_loop path (token_pos + 1) w1
      else (True, w1))"
  by pat_completeness auto
termination
  by (relation "measure (\<lambda>(path, offset, w). length path - offset)")
     (auto simp: find_from_def split: option.splits if_splits)

declare create_dir_loop.simps [simp del]

definition create_dir :: "string \<Rightarrow> world \<Rightarrow> bool \<times> world" where
  "create_dir path w =
     (let (there, w1) = path_exists path w in
      if there then (True, w1)
      else if path = [] then (False, w1)
      else create_dir_loop path 0 w1)"

subsection \<open>\<open>file_helper\<close>\<close>

text \<open>
  \<open>fd\<close> is \<open>nullptr\<close> (\<open>None\<close>) or a stream. Every operation changes the helper and the world and then
  returns, throws \<open>spdlog_ex\<close>, or is undefined behaviour: \<open>fwrite\<close> on the null pointer. No event
  handlers are installed.
\<close>

datatype spdlog_ex =
    Open_failed string
  | Not_opened_before
  | Flush_failed string
  | Write_failed string
  | Size_of_closed string
  | Size_unknown
  | Zero_max_size
  | Too_many_files
  | Rename_failed string string

datatype ending = Returns | Throws spdlog_ex | Undefined_behaviour

record file_helper =
  filename :: string
  fd :: "nat option"

definition open_tries :: nat where "open_tries = 5"

definition fh_close :: "file_helper \<Rightarrow> world \<Rightarrow> file_helper \<times> world" where
  "fh_close fh w = (case fd fh of None \<Rightarrow> (fh, w) | Some d \<Rightarrow> (fh\<lparr>fd := None\<rparr>, fclose d w))"

definition truncate_file :: "string \<Rightarrow> world \<Rightarrow> bool \<times> world" where
  "truncate_file p w =
     (let (tmp, w1) = fopen_s p True w in
      case tmp of None \<Rightarrow> (False, w1) | Some d \<Rightarrow> (True, fclose d w1))"

primrec open_loop :: "nat \<Rightarrow> string \<Rightarrow> bool \<Rightarrow> world \<Rightarrow> nat option \<times> world" where
  "open_loop 0 p trunc w = (None, w)"
| "open_loop (Suc tries) p trunc w =
     (let w1 = snd (create_dir (dir_name p) w);
          (emptied, w2) = (if trunc then truncate_file p w1 else (True, w1)) in
      if \<not> emptied then open_loop tries p trunc w2
      else let (d, w3) = fopen_s p False w2 in
           if d \<noteq> None then (d, w3) else open_loop tries p trunc w3)"

definition fh_open :: "string \<Rightarrow> bool \<Rightarrow> file_helper \<Rightarrow> world \<Rightarrow> ending \<times> file_helper \<times> world" where
  "fh_open fname trunc fh w =
     (let (fh1, w1) = fh_close fh w; (d, w2) = open_loop open_tries fname trunc w1 in
      (if d = None then Throws (Open_failed fname) else Returns, fh1\<lparr>filename := fname, fd := d\<rparr>, w2))"

definition fh_reopen :: "bool \<Rightarrow> file_helper \<Rightarrow> world \<Rightarrow> ending \<times> file_helper \<times> world" where
  "fh_reopen trunc fh w =
     (if filename fh = [] then (Throws Not_opened_before, fh, w) else fh_open (filename fh) trunc fh w)"

definition fh_flush :: "file_helper \<Rightarrow> world \<Rightarrow> ending \<times> world" where
  "fh_flush fh w =
     (let (ok, w1) = fflush (fd fh) w in (if ok then Returns else Throws (Flush_failed (filename fh)), w1))"

definition fh_write :: "byte list \<Rightarrow> file_helper \<Rightarrow> world \<Rightarrow> ending \<times> world" where
  "fh_write buf fh w =
     (case fd fh of
        None \<Rightarrow> (Undefined_behaviour, w)
      | Some d \<Rightarrow>
          (let (n, w1) = fwrite buf d w in
           (if n \<noteq> length buf then Throws (Write_failed (filename fh)) else Returns, w1)))"

definition fh_size :: "file_helper \<Rightarrow> world \<Rightarrow> (spdlog_ex + nat) \<times> world" where
  "fh_size fh w =
     (case fd fh of
        None \<Rightarrow> (Inl (Size_of_closed (filename fh)), w)
      | Some d \<Rightarrow>
          (let (n, w1) = filesize d w in
           (case n of None \<Rightarrow> Inl Size_unknown | Some k \<Rightarrow> Inr k, w1)))"

definition split_by_extension :: "string \<Rightarrow> string \<times> string" where
  "split_by_extension fname =
     (case find_last (CHR ''.'') fname of
        None \<Rightarrow> (fname, [])
      | Some ext_index \<Rightarrow>
          if ext_index = 0 \<or> ext_index = length fname - 1 then (fname, [])
          else (case find_last (CHR ''/'') fname of
                  Some folder_index \<Rightarrow>
                    if folder_index \<ge> ext_index - 1 then (fname, [])
                    else (take ext_index fname, drop ext_index fname)
                | None \<Rightarrow> (take ext_index fname, drop ext_index fname)))"

end
