(* ===== verification/Rotating_Sink.thy ===== *)
theory Rotating_Sink
  imports File_Helper
begin

section \<open>Rotation: \<open>spdlog/sinks/rotating_file_sink-inl.h\<close>\<close>

text \<open>
  The sink that writes \<open>lite_monitor.log\<close> and its siblings. An operation returns how it ended with
  the sink and the world it leaves, also when it throws: what had been done by then stays done.
  A message is the text that the formatter made of it.
\<close>

record rotating_sink =
  base_filename :: string
  max_size :: nat
  max_files :: nat
  current_size :: nat
  helper :: file_helper

text \<open>The decimal notation of an index, as \<open>fmt_lib::format\<close> writes a \<open>std::size_t\<close>.\<close>

fun index_chars :: "nat \<Rightarrow> string" where
  "index_chars n =
     (if n < 10 then [char_of (48 + n)] else index_chars (n div 10) @ [char_of (48 + n mod 10)])"

declare index_chars.simps [simp del]

definition calc_filename :: "string \<Rightarrow> nat \<Rightarrow> string" where
  "calc_filename fname index =
     (if index = 0 then fname
      else let (basename, ext) = split_by_extension fname in basename @ ''.'' @ index_chars index @ ext)"

definition rename_file :: "string \<Rightarrow> string \<Rightarrow> world \<Rightarrow> bool \<times> world" where
  "rename_file src_filename target_filename w =
     rename_path src_filename target_filename (snd (remove_path target_filename w))"

text \<open>The loop of \<open>rotate_\<close> with \<open>i\<close> files to go; the result is the rename that failed twice, if any.\<close>

primrec rotate_loop :: "string \<Rightarrow> nat \<Rightarrow> world \<Rightarrow> (string \<times> string) option \<times> world" where
  "rotate_loop base 0 w = (None, w)"
| "rotate_loop base (Suc i) w =
     (let src = calc_filename base i; (there, w1) = path_exists src w in
      if \<not> there then rotate_loop base i w1
      else let target = calc_filename base (Suc i); (renamed, w2) = rename_file src target w1 in
           if renamed then rotate_loop base i w2
           else let (again, w3) = rename_file src target w2 in
                if again then rotate_loop base i w3 else (Some (src, target), w3))"

definition rotate_files :: "rotating_sink \<Rightarrow> world \<Rightarrow> ending \<times> rotating_sink \<times> world" where
  "rotate_files s w =
     (let (fh1, w1) = fh_close (helper s) w;
          (failure, w2) = rotate_loop (base_filename s) (max_files s) w1;
          (e, fh2, w3) = fh_reopen True fh1 w2; s1 = s\<lparr>helper := fh2\<rparr> in
      case failure of
        None \<Rightarrow> (e, s1, w3)
      | Some (src, target) \<Rightarrow>
          if e = Returns then (Throws (Rename_failed src target), s1\<lparr>current_size := 0\<rparr>, w3)
          else (e, s1, w3))"

definition write_formatted ::
  "byte list \<Rightarrow> nat \<Rightarrow> rotating_sink \<Rightarrow> world \<Rightarrow> ending \<times> rotating_sink \<times> world" where
  "write_formatted formatted new_size s w =
     (let (e, w1) = fh_write formatted (helper s) w in
      (e, if e = Returns then s\<lparr>current_size := new_size\<rparr> else s, w1))"

definition sink_it :: "byte list \<Rightarrow> rotating_sink \<Rightarrow> world \<Rightarrow> ending \<times> rotating_sink \<times> world" where
  "sink_it formatted s w =
     (let new_size = (current_size s + length formatted) mod 2 ^ 64 in
      if new_size > max_size s
      then let (e, w1) = fh_flush (helper s) w in
           if e \<noteq> Returns then (e, s, w1)
           else let (size, w2) = fh_size (helper s) w1 in
                case size of
                  Inl ex \<Rightarrow> (Throws ex, s, w2)
                | Inr n \<Rightarrow>
                    if n > 0
                    then let (e, s1, w3) = rotate_files s w2 in
                         if e \<noteq> Returns then (e, s1, w3)
                         else write_formatted formatted (length formatted) s1 w3
                    else write_formatted formatted new_size s w2
      else write_formatted formatted new_size s w)"

definition sink_flush :: "rotating_sink \<Rightarrow> world \<Rightarrow> ending \<times> world" where
  "sink_flush s w = fh_flush (helper s) w"

text \<open>The constructor; when it throws, the destructor of the member \<open>file_helper_\<close> closes the file.\<close>

definition new_rotating_sink ::
  "string \<Rightarrow> nat \<Rightarrow> nat \<Rightarrow> bool \<Rightarrow> world \<Rightarrow> (spdlog_ex + rotating_sink) \<times> world" where
  "new_rotating_sink base mx_size mx_files rotate_on_open w =
     (if mx_size = 0 then (Inl Zero_max_size, w)
      else if mx_files > 200000 then (Inl Too_many_files, w)
      else let (e, fh, w1) = fh_open (calc_filename base 0) False \<lparr>filename = [], fd = None\<rparr> w in
           case e of
             Throws ex \<Rightarrow> (Inl ex, w1)
           | _ \<Rightarrow>
             (let (size, w2) = fh_size fh w1 in
              case size of
                Inl ex \<Rightarrow> (Inl ex, snd (fh_close fh w2))
              | Inr n \<Rightarrow>
                (let s = \<lparr>base_filename = base, max_size = mx_size, max_files = mx_files,
                          current_size = n, helper = fh\<rparr> in
                 if rotate_on_open \<and> n > 0
                 then (case rotate_files s w2 of
                         (Throws ex, s1, w3) \<Rightarrow> (Inl ex, snd (fh_close (helper s1) w3))
                       | (_, s1, w3) \<Rightarrow> (Inr (s1\<lparr>current_size := 0\<rparr>), w3))
                 else (Inr s, w2))))"

subsection \<open>File names\<close>

primrec read_index :: "nat \<Rightarrow> string \<Rightarrow> nat" where
  "read_index acc [] = acc"
| "read_index acc (c # cs) = read_index (acc * 10 + (of_char c - 48)) cs"

lemma read_index_append: "read_index acc (xs @ ys) = read_index (read_index acc xs) ys"
  by (induction xs arbitrary: acc) simp_all

lemma read_index_chars: "read_index 0 (index_chars n) = n"
proof (induction n rule: index_chars.induct)
  case (1 n)
  then show ?case
    by (subst index_chars.simps) (simp add: read_index_append)
qed

lemma index_chars_inj: "index_chars m = index_chars n \<longleftrightarrow> m = n"
  by (metis read_index_chars)

lemma split_by_extension_append: "fst (split_by_extension f) @ snd (split_by_extension f) = f"
  by (simp add: split_by_extension_def split: option.splits)

lemma calc_filename_0 [simp]: "calc_filename base 0 = base"
  by (simp add: calc_filename_def)

text \<open>The names of the files of one log are all different, whatever its base name is.\<close>

lemma calc_filename_inj [simp]: "calc_filename base i = calc_filename base j \<longleftrightarrow> i = j"
proof -
  obtain b e where se: "split_by_extension base = (b, e)"
    by (meson surj_pair)
  have "base = b @ e"
    using split_by_extension_append [of base] se by simp
  moreover have "calc_filename base k = (if k = 0 then base else b @ ''.'' @ index_chars k @ e)" for k
    by (simp add: calc_filename_def se)
  ultimately show ?thesis
    by (auto simp: index_chars_inj dest: arg_cong [where f = length])
qed

end
