(* ===== verification/Logger.thy ===== *)
theory Logger
  imports Config
begin

section \<open>Logging: \<open>src/common/logger.h\<close> and the spdlog routines it relies on\<close>

text \<open>
  \<open>initLogger\<close> and, from \<open>thirdpart/include/spdlog\<close>, what decides where a message goes: the levels and
  their names, \<open>sink::should_log\<close>, \<open>logger::should_log\<close> and the dispatch of \<open>logger::sink_it_\<close>. The
  parameters are whether the log directory exists, whether creating it works, and whether a log
  file can be opened.
\<close>

datatype level_enum = L_trace | L_debug | L_info | L_warn | L_err | L_critical | L_off

definition level_code :: "level_enum \<Rightarrow> nat" where
  "level_code l = (case l of L_trace \<Rightarrow> 0 | L_debug \<Rightarrow> 1 | L_info \<Rightarrow> 2 | L_warn \<Rightarrow> 3 | L_err \<Rightarrow> 4
                           | L_critical \<Rightarrow> 5 | L_off \<Rightarrow> 6)"

lemma level_code_eq: "level_code a = level_code b \<longleftrightarrow> a = b"
  by (cases a; cases b) (simp_all add: level_code_def)

instantiation level_enum :: linorder
begin

definition less_eq_level_enum :: "level_enum \<Rightarrow> level_enum \<Rightarrow> bool" where
  "less_eq_level_enum a b \<longleftrightarrow> level_code a \<le> level_code b"

definition less_level_enum :: "level_enum \<Rightarrow> level_enum \<Rightarrow> bool" where
  "less_level_enum a b \<longleftrightarrow> level_code a < level_code b"

instance
  by standard (auto simp: less_eq_level_enum_def less_level_enum_def level_code_eq)

end

definition level_string_views :: "(string \<times> level_enum) list" where
  "level_string_views =
     [(''trace'', L_trace), (''debug'', L_debug), (''info'', L_info), (''warning'', L_warn),
      (''error'', L_err), (''critical'', L_critical), (''off'', L_off)]"

definition from_str :: "string \<Rightarrow> level_enum" where
  "from_str name =
     (case map_of level_string_views name of
        Some l \<Rightarrow> l
      | None \<Rightarrow> if name = ''warn'' then L_warn else if name = ''err'' then L_err else L_off)"

record sink =
  sink_file :: "string option"
  sink_level :: level_enum
  sink_max_size :: nat
  sink_max_files :: nat

record logger =
  logger_sinks :: "sink list"
  logger_level :: level_enum
  flush_level :: level_enum

definition sink_should_log :: "sink \<Rightarrow> level_enum \<Rightarrow> bool" where
  "sink_should_log s l \<longleftrightarrow> l \<ge> sink_level s"

definition logger_should_log :: "logger \<Rightarrow> level_enum \<Rightarrow> bool" where
  "logger_should_log lg l \<longleftrightarrow> l \<ge> logger_level lg"

definition should_flush :: "logger \<Rightarrow> level_enum \<Rightarrow> bool" where
  "should_flush lg l \<longleftrightarrow> l \<ge> flush_level lg \<and> l \<noteq> L_off"

text \<open>The sinks that are handed a message of level \<open>l\<close>, in order; \<open>None\<close> is the console.\<close>

definition log_targets :: "logger \<Rightarrow> level_enum \<Rightarrow> string option list" where
  "log_targets lg l =
     (if logger_should_log lg l
      then map sink_file (filter (\<lambda>s. sink_should_log s l) (logger_sinks lg)) else [])"

text \<open>The checks of \<open>rotating_file_sink\<close>'s constructor; \<open>None\<close> is the exception.\<close>

definition rotating_file_sink ::
  "(string \<Rightarrow> bool) \<Rightarrow> string \<Rightarrow> nat \<Rightarrow> nat \<Rightarrow> level_enum \<Rightarrow> sink option" where
  "rotating_file_sink can_open base max_size max_files lvl =
     (if max_size = 0 \<or> max_files > 200000 \<or> \<not> can_open base then None
      else Some \<lparr>sink_file = Some base, sink_level = lvl, sink_max_size = max_size,
                 sink_max_files = max_files\<rparr>)"

subsection \<open>\<open>initLogger\<close>\<close>

text \<open>Signed multiplication; an overflow, which C++ leaves undefined, is \<open>None\<close>.\<close>

definition int_mul :: "int \<Rightarrow> int \<Rightarrow> int option" where
  "int_mul a b = (if - (2 ^ 31) \<le> a * b \<and> a * b < 2 ^ 31 then Some (a * b) else None)"

definition to_size_t :: "int \<Rightarrow> nat" where
  "to_size_t n = nat (n mod 2 ^ 64)"

datatype logger_outcome = Installs logger | Keeps_default | Undefined

definition initLogger ::
  "(string \<Rightarrow> bool) \<Rightarrow> (string \<Rightarrow> bool) \<Rightarrow> (string \<Rightarrow> bool) \<Rightarrow> LogParams \<Rightarrow> logger_outcome" where
  "initLogger dir_exists mkdir can_open params =
     (case Option.bind (int_mul (max_log_file_size params) 1024) (\<lambda>k. int_mul k 1024) of
        None \<Rightarrow> Undefined
      | Some max_size \<Rightarrow>
          (let dir = log_dir params; n = to_size_t (max_log_file_num params);
               global_level = from_str (log_level params) in
           if \<not> dir_exists dir \<and> \<not> mkdir dir then Keeps_default
           else (case (rotating_file_sink can_open (dir @ ''/lite_monitor.log'') (to_size_t max_size) n global_level,
                       rotating_file_sink can_open (dir @ ''/lite_monitor.warn'') (to_size_t max_size) n L_warn,
                       rotating_file_sink can_open (dir @ ''/lite_monitor.error'') (to_size_t max_size) n L_err) of
                   (Some info_sink, Some warn_sink, Some error_sink) \<Rightarrow>
                     Installs \<lparr>logger_sinks =
                                [\<lparr>sink_file = None, sink_level = global_level, sink_max_size = 0, sink_max_files = 0\<rparr>,
                                 info_sink, warn_sink, error_sink],
                              logger_level = global_level, flush_level = L_warn\<rparr>
                 | _ \<Rightarrow> Keeps_default)))"

subsection \<open>Routing\<close>

lemma initLogger_Installs:
  assumes "initLogger dir_exists mkdir can_open params = Installs lg"
  obtains k n where "lg = \<lparr>logger_sinks =
        [\<lparr>sink_file = None, sink_level = from_str (log_level params), sink_max_size = 0, sink_max_files = 0\<rparr>,
         \<lparr>sink_file = Some (log_dir params @ ''/lite_monitor.log''),
          sink_level = from_str (log_level params), sink_max_size = k, sink_max_files = n\<rparr>,
         \<lparr>sink_file = Some (log_dir params @ ''/lite_monitor.warn''), sink_level = L_warn,
          sink_max_size = k, sink_max_files = n\<rparr>,
         \<lparr>sink_file = Some (log_dir params @ ''/lite_monitor.error''), sink_level = L_err,
          sink_max_size = k, sink_max_files = n\<rparr>],
       logger_level = from_str (log_level params), flush_level = L_warn\<rparr>"
  using assms
  by (auto simp: initLogger_def rotating_file_sink_def Let_def split: option.splits if_splits)

text \<open>
  Routing: a message below the configured level reaches no sink. Any other reaches the console
  and \<open>lite_monitor.log\<close>, from warning level on also \<open>lite_monitor.warn\<close> and from error level on
  also \<open>lite_monitor.error\<close>; the logger flushes exactly the messages from warning level on.
\<close>

theorem logger_routing:
  assumes "initLogger dir_exists mkdir can_open params = Installs lg" and "l \<noteq> L_off"
  shows "log_targets lg l =
           (if l \<ge> from_str (log_level params)
            then [None, Some (log_dir params @ ''/lite_monitor.log'')]
                 @ (if l \<ge> L_warn then [Some (log_dir params @ ''/lite_monitor.warn'')] else [])
                 @ (if l \<ge> L_err then [Some (log_dir params @ ''/lite_monitor.error'')] else [])
            else [])
         \<and> (should_flush lg l \<longleftrightarrow> l \<ge> L_warn)"
  using assms(1)
proof (rule initLogger_Installs)
  fix k n
  assume lg: "lg = \<lparr>logger_sinks =
        [\<lparr>sink_file = None, sink_level = from_str (log_level params), sink_max_size = 0, sink_max_files = 0\<rparr>,
         \<lparr>sink_file = Some (log_dir params @ ''/lite_monitor.log''),
          sink_level = from_str (log_level params), sink_max_size = k, sink_max_files = n\<rparr>,
         \<lparr>sink_file = Some (log_dir params @ ''/lite_monitor.warn''), sink_level = L_warn,
          sink_max_size = k, sink_max_files = n\<rparr>,
         \<lparr>sink_file = Some (log_dir params @ ''/lite_monitor.error''), sink_level = L_err,
          sink_max_size = k, sink_max_files = n\<rparr>],
       logger_level = from_str (log_level params), flush_level = L_warn\<rparr>"
  then show ?thesis
    using assms(2)
    by (simp add: log_targets_def logger_should_log_def sink_should_log_def should_flush_def)
qed

lemma from_str_off:
  "from_str name = L_off \<longleftrightarrow>
   name \<notin> {''trace'', ''debug'', ''info'', ''warning'', ''error'', ''critical'', ''warn'', ''err''}"
  by (simp add: from_str_def level_string_views_def)

text \<open>
  A level name that spdlog does not know passes the validation of the configuration, which only
  asks for a non-empty one, and turns all logging off: no message reaches any sink. Names in upper
  case are among them.
\<close>

theorem unknown_level_silences:
  assumes "initLogger dir_exists mkdir can_open params = Installs lg" and "l \<noteq> L_off"
    and "log_level params \<notin> {''trace'', ''debug'', ''info'', ''warning'', ''error'', ''critical'', ''warn'', ''err''}"
  shows "log_targets lg l = []"
proof -
  have "from_str (log_level params) = L_off"
    using assms(3) from_str_off by blast
  moreover have "\<not> L_off \<le> l"
    using assms(2) by (cases l) (simp_all add: less_eq_level_enum_def level_code_def)
  ultimately show ?thesis
    using assms(1)
    by (auto simp: log_targets_def logger_should_log_def elim: initLogger_Installs)
qed

lemma int_mul_mega:
  assumes "0 < n"
  shows "Option.bind (int_mul n 1024) (\<lambda>k. int_mul k 1024) = (if n < 2048 then Some (n * 1048576) else None)"
  using assms by (auto simp: int_mul_def)

lemma initLogger_defined:
  assumes "valid_config p"
  shows "initLogger dir_exists mkdir can_open (log_params p) = Undefined
         \<longleftrightarrow> 2048 \<le> max_log_file_size (log_params p)"
proof -
  have pos: "0 < max_log_file_size (log_params p)"
    using assms by (auto simp: valid_config_def repairs_left_def)
  show ?thesis
    unfolding initLogger_def int_mul_mega [OF pos] rotating_file_sink_def Let_def by auto
qed

text \<open>
  C16. The file size limit is computed in \<open>int\<close>: for valid parameters, the number of files being an
  \<open>int\<close> too, initialisation is defined exactly when the limit is below 2048 MB, and a larger one, which validation accepts, overflows.
  Below, the new logger is installed exactly when the directory is there or can be created, the
  number of files is at most 200000 and the three files can be opened.
\<close>

theorem initLogger_outcome:
  assumes "valid_config p" and "max_log_file_num (log_params p) < 2 ^ 31"
  shows "(initLogger dir_exists mkdir can_open (log_params p) = Undefined
            \<longleftrightarrow> 2048 \<le> max_log_file_size (log_params p))
         \<and> ((\<exists>lg. initLogger dir_exists mkdir can_open (log_params p) = Installs lg) \<longleftrightarrow>
              max_log_file_size (log_params p) < 2048
              \<and> (dir_exists (log_dir (log_params p)) \<or> mkdir (log_dir (log_params p)))
              \<and> max_log_file_num (log_params p) \<le> 200000
              \<and> can_open (log_dir (log_params p) @ ''/lite_monitor.log'')
              \<and> can_open (log_dir (log_params p) @ ''/lite_monitor.warn'')
              \<and> can_open (log_dir (log_params p) @ ''/lite_monitor.error''))"
proof -
  let ?n = "max_log_file_size (log_params p)" and ?k = "max_log_file_num (log_params p)"
  have pos: "0 < ?n" "0 < ?k"
    using assms(1) by (auto simp: valid_config_def repairs_left_def)
  have s: "to_size_t (?n * 1048576) > 0" if "?n < 2048"
    using pos(1) that by (simp add: to_size_t_def)
  have k: "to_size_t ?k = nat ?k"
    using pos(2) assms(2) by (simp add: to_size_t_def)
  show ?thesis
    using pos(2) s unfolding initLogger_def int_mul_mega [OF pos(1)] k rotating_file_sink_def Let_def
    by auto
qed

subsection \<open>Witnesses\<close>

definition demo_log :: "string \<Rightarrow> LogParams" where
  "demo_log lv = \<lparr>log_dir = ''l'', max_log_file_size = 10, max_log_file_num = 5, log_level = lv\<rparr>"

definition demo_logger :: "level_enum \<Rightarrow> logger" where
  "demo_logger g =
     \<lparr>logger_sinks =
        [\<lparr>sink_file = None, sink_level = g, sink_max_size = 0, sink_max_files = 0\<rparr>,
         \<lparr>sink_file = Some ''l/lite_monitor.log'', sink_level = g, sink_max_size = 10485760, sink_max_files = 5\<rparr>,
         \<lparr>sink_file = Some ''l/lite_monitor.warn'', sink_level = L_warn, sink_max_size = 10485760, sink_max_files = 5\<rparr>,
         \<lparr>sink_file = Some ''l/lite_monitor.error'', sink_level = L_err, sink_max_size = 10485760, sink_max_files = 5\<rparr>],
      logger_level = g, flush_level = L_warn\<rparr>"

lemma demo_initLogger:
  "initLogger (\<lambda>d. False) (\<lambda>d. True) (\<lambda>f. True) (demo_log lv) = Installs (demo_logger (from_str lv))"
  by (simp add: initLogger_def demo_log_def demo_logger_def int_mul_def to_size_t_def rotating_file_sink_def Let_def)

theorem logger_routing_witness:
  "log_targets (demo_logger L_info) L_warn = [None, Some ''l/lite_monitor.log'', Some ''l/lite_monitor.warn'']"
  using logger_routing [OF demo_initLogger [of "''info''"], of L_warn]
  by (simp add: demo_log_def from_str_def level_string_views_def less_eq_level_enum_def level_code_def)

theorem unknown_level_witness: "log_targets (demo_logger L_off) L_critical = []"
  using unknown_level_silences [OF demo_initLogger [of "''INFO''"], of L_critical]
  by (simp add: demo_log_def from_str_def level_string_views_def)

theorem initLogger_outcome_witness:
  "initLogger (\<lambda>d. True) (\<lambda>d. True) (\<lambda>f. True)
     (log_params (demo_loaded\<lparr>log_params := (demo_log ''info'')\<lparr>max_log_file_size := 4096\<rparr>\<rparr>)) = Undefined"
proof -
  let ?p = "demo_loaded\<lparr>log_params := (demo_log ''info'')\<lparr>max_log_file_size := 4096\<rparr>\<rparr>"
  have "valid_config ?p" "max_log_file_num (log_params ?p) < 2 ^ 31"
    by (simp_all add: valid_config_def valid_fixed_def repairs_left_def valid_port_def demo_loaded_def demo_log_def)
  from initLogger_outcome [OF this] show ?thesis
    by (simp add: demo_log_def)
qed

end
