(* ===== verification/Json_Numbers.thy ===== *)
theory Json_Numbers
  imports Prelude
begin

section \<open>Integers in JSON text: \<open>serializer::dump_integer\<close>\<close>

text \<open>
  \<open>include/nlohmann/json.hpp\<close> writes an integer into a fixed buffer from the back, two digits at a time
  through a table, at the position \<open>count_digits\<close> computes. The reference is the decimal notation of
  a number. A write before the start of the buffer is \<open>None\<close>.
\<close>

subsection \<open>The code\<close>

function count_digits_from :: "u64 \<Rightarrow> nat \<Rightarrow> nat" where
  "count_digits_from x n_digits =
     (if x < 10 then n_digits
      else if x < 100 then n_digits + 1
      else if x < 1000 then n_digits + 2
      else if x < 10000 then n_digits + 3
      else count_digits_from (x div 10000) (n_digits + 4))"
  by pat_completeness auto
termination
proof (relation "measure (\<lambda>(x, n). unat x)")
  fix x :: u64 and n :: nat
  assume "\<not> x < 10"
  then have "unat x div 10000 < unat x"
    by (simp add: word_less_nat_alt)
  then show "((x div 10000, n + 4), (x, n)) \<in> measure (\<lambda>(x, n). unat x)"
    by (simp add: unat_div)
qed simp

declare count_digits_from.simps [simp del]

definition count_digits :: "u64 \<Rightarrow> nat" where
  "count_digits x = count_digits_from x 1"

text \<open>\<open>digits_to_99\<close>, the two characters of each number below 100.\<close>

definition digits_to_99 :: "(byte \<times> byte) list" where
  "digits_to_99 =
     [(48, 48), (48, 49), (48, 50), (48, 51), (48, 52), (48, 53), (48, 54), (48, 55), (48, 56), (48, 57),
      (49, 48), (49, 49), (49, 50), (49, 51), (49, 52), (49, 53), (49, 54), (49, 55), (49, 56), (49, 57),
      (50, 48), (50, 49), (50, 50), (50, 51), (50, 52), (50, 53), (50, 54), (50, 55), (50, 56), (50, 57),
      (51, 48), (51, 49), (51, 50), (51, 51), (51, 52), (51, 53), (51, 54), (51, 55), (51, 56), (51, 57),
      (52, 48), (52, 49), (52, 50), (52, 51), (52, 52), (52, 53), (52, 54), (52, 55), (52, 56), (52, 57),
      (53, 48), (53, 49), (53, 50), (53, 51), (53, 52), (53, 53), (53, 54), (53, 55), (53, 56), (53, 57),
      (54, 48), (54, 49), (54, 50), (54, 51), (54, 52), (54, 53), (54, 54), (54, 55), (54, 56), (54, 57),
      (55, 48), (55, 49), (55, 50), (55, 51), (55, 52), (55, 53), (55, 54), (55, 55), (55, 56), (55, 57),
      (56, 48), (56, 49), (56, 50), (56, 51), (56, 52), (56, 53), (56, 54), (56, 55), (56, 56), (56, 57),
      (57, 48), (57, 49), (57, 50), (57, 51), (57, 52), (57, 53), (57, 54), (57, 55), (57, 56), (57, 57)]"

text \<open>The signed value is a word; its sign is its highest bit.\<close>

definition is_negative_number :: "u64 \<Rightarrow> bool" where
  "is_negative_number x \<longleftrightarrow> sint x < 0"

definition remove_sign :: "u64 \<Rightarrow> u64" where
  "remove_sign x = - (x + 1) + 1"

text \<open>\<open>*(--buffer_ptr) = c\<close>\<close>

definition put_back :: "byte \<Rightarrow> nat \<times> byte list \<Rightarrow> (nat \<times> byte list) option" where
  "put_back c pb = (case pb of (p, buf) \<Rightarrow> if p = 0 then None else Some (p - 1, buf[p - 1 := c]))"

definition put_pair :: "u64 \<Rightarrow> nat \<times> byte list \<Rightarrow> (nat \<times> byte list) option" where
  "put_pair digits_index pb =
     Option.bind (put_back (snd (digits_to_99 ! unat digits_index)) pb)
       (put_back (fst (digits_to_99 ! unat digits_index)))"

function fill_digits :: "u64 \<Rightarrow> nat \<times> byte list \<Rightarrow> (nat \<times> byte list) option" where
  "fill_digits abs_value pb =
     (if abs_value \<ge> 100
      then (case put_pair (abs_value mod 100) pb of
              None \<Rightarrow> None
            | Some pb' \<Rightarrow> fill_digits (abs_value div 100) pb')
      else if abs_value \<ge> 10 then put_pair abs_value pb
      else put_back (48 + ucast abs_value) pb)"
  by pat_completeness auto
termination
proof (relation "measure (\<lambda>(x, pb). unat x)")
  fix x :: u64 and pb pb' :: "nat \<times> byte list"
  assume "100 \<le> x"
  then have "unat x div 100 < unat x"
    by (simp add: word_le_nat_alt)
  then show "((x div 100, pb'), (x, pb)) \<in> measure (\<lambda>(x, pb). unat x)"
    by (simp add: unat_div)
qed simp

declare fill_digits.simps [simp del]

definition dump_abs :: "byte list \<Rightarrow> nat \<Rightarrow> u64 \<Rightarrow> byte list option" where
  "dump_abs buf n_chars abs_value =
     map_option (\<lambda>(p, buf'). take n_chars buf') (fill_digits abs_value (n_chars, buf))"

definition dump_unsigned :: "byte list \<Rightarrow> u64 \<Rightarrow> byte list option" where
  "dump_unsigned number_buffer x =
     (if x = 0 then Some [48] else dump_abs number_buffer (count_digits x) x)"

definition dump_signed :: "byte list \<Rightarrow> u64 \<Rightarrow> byte list option" where
  "dump_signed number_buffer x =
     (if x = 0 then Some [48]
      else if is_negative_number x
        then (let abs_value = remove_sign x in
              dump_abs (number_buffer[0 := 45]) (1 + count_digits abs_value) abs_value)
      else dump_abs number_buffer (count_digits x) x)"

subsection \<open>The reference\<close>

fun decimal :: "nat \<Rightarrow> byte list" where
  "decimal n = (if n < 10 then [of_nat (48 + n)] else decimal (n div 10) @ [of_nat (48 + n mod 10)])"

declare decimal.simps [simp del]

definition decimal_int :: "int \<Rightarrow> byte list" where
  "decimal_int i = (if i < 0 then 45 # decimal (nat (- i)) else decimal (nat i))"

subsection \<open>Digits\<close>

lemma decimal_small: "n < 10 \<Longrightarrow> decimal n = [of_nat (48 + n)]"
  by (simp add: decimal.simps)

lemma decimal_large: "10 \<le> n \<Longrightarrow> decimal n = decimal (n div 10) @ [of_nat (48 + n mod 10)]"
  by (subst decimal.simps) simp

lemma length_decimal_small: "n < 10 \<Longrightarrow> length (decimal n) = 1"
  by (simp add: decimal_small)

lemma length_decimal_large: "10 \<le> n \<Longrightarrow> length (decimal n) = Suc (length (decimal (n div 10)))"
  by (simp add: decimal_large)

lemma count_digits_from_eq: "count_digits_from x n = length (decimal (unat x)) + n - 1"
proof (induction x n rule: count_digits_from.induct)
  case (1 x n)
  have c: "x < 10 \<longleftrightarrow> unat x < 10" "x < 100 \<longleftrightarrow> unat x < 100" "x < 1000 \<longleftrightarrow> unat x < 1000"
    "x < 10000 \<longleftrightarrow> unat x < 10000"
    by (simp_all add: word_less_nat_alt)
  show ?case
  proof (cases "x < 10000")
    case True
    then show ?thesis
      unfolding count_digits_from.simps [of x n] c
      by (auto simp: c length_decimal_small length_decimal_large not_less div_mult2_eq [symmetric])
  next
    case False
    have "length (decimal (unat x)) = length (decimal (unat x div 10000)) + 4"
      using False by (simp add: c not_less length_decimal_large div_mult2_eq [symmetric])
    then show ?thesis
      using 1 False unfolding count_digits_from.simps [of x n] c by (simp add: unat_div c not_less)
  qed
qed

lemma count_digits_eq: "count_digits x = length (decimal (unat x))"
  by (simp add: count_digits_def count_digits_from_eq)

lemma length_decimal_le: "n < 10 ^ Suc k \<Longrightarrow> length (decimal n) \<le> Suc k"
proof (induction k arbitrary: n)
  case 0
  then show ?case by (simp add: length_decimal_small)
next
  case (Suc k)
  then have "n div 10 < 10 ^ Suc k"
    by (simp add: less_mult_imp_div_less mult.commute)
  then show ?case
    using Suc.IH [of "n div 10"] by (cases "n < 10") (simp_all add: length_decimal_small length_decimal_large)
qed

lemma length_decimal_u64: "length (decimal (unat (x :: u64))) \<le> 20"
proof -
  have "unat x < 2 ^ LENGTH(64)" by (rule unsigned_less)
  then have "unat x < 10 ^ Suc 19" by simp
  then show ?thesis using length_decimal_le by fastforce
qed

lemma digits_to_99_nth:
  assumes "n < 100"
  shows "digits_to_99 ! n = (of_nat (48 + n div 10), of_nat (48 + n mod 10))"
proof -
  have "digits_to_99 = map (\<lambda>n. (of_nat (48 + n div 10), of_nat (48 + n mod 10))) [0..<100]"
    by code_simp
  then show ?thesis
    using nth_map_upt [of n 100 0 "\<lambda>n. (of_nat (48 + n div 10), of_nat (48 + n mod 10)) :: byte \<times> byte"] assms
    by (simp only: diff_zero add_0)
qed

lemma put_pair_eq:
  assumes "2 \<le> p" and "p \<le> length buf" and "unat d < 100"
  shows "put_pair d (p, buf)
         = Some (p - 2, take (p - 2) buf @ [of_nat (48 + unat d div 10), of_nat (48 + unat d mod 10)] @ drop p buf)"
proof -
  obtain q where q: "p = Suc (Suc q)" using assms(1) by (metis add_2_eq_Suc le_iff_add)
  have "buf = take q buf @ (buf ! q) # (buf ! Suc q) # drop p buf"
    using assms(2) q by (metis Cons_nth_drop_Suc Suc_le_lessD append_take_drop_id less_Suc_eq_le less_imp_le_nat)
  moreover have "length (take q buf) = q" using assms(2) q by simp
  ultimately obtain xs a b ys where buf: "buf = xs @ a # b # ys" "length xs = q" by metis
  then show ?thesis
    by (simp add: q put_pair_def put_back_def digits_to_99_nth [OF assms(3)] list_update_append del: of_nat_add)
qed

lemma decimal_two:
  assumes "10 \<le> n" and "n < 100"
  shows "decimal n = [of_nat (48 + n div 10), of_nat (48 + n mod 10)]"
  using assms decimal_large [of n] decimal_small [of "n div 10"] by (simp del: of_nat_add)

lemma div_10_mod: "n div 10 mod 10 = n mod 100 div 10" for n :: nat
  using mod_mult2_eq [of n 10 10] by simp

lemma decimal_pair:
  assumes "100 \<le> n"
  shows "decimal n = decimal (n div 100) @ [of_nat (48 + n mod 100 div 10), of_nat (48 + n mod 100 mod 10)]"
proof -
  have "decimal n = (decimal (n div 10 div 10) @ [of_nat (48 + n div 10 mod 10)]) @ [of_nat (48 + n mod 10)]"
    using assms decimal_large [of n] decimal_large [of "n div 10"] by (simp del: of_nat_add)
  moreover have "n div 10 mod 10 = n mod 100 div 10" "n mod 10 = n mod 100 mod 10"
    by (rule div_10_mod) (simp add: mod_mod_cancel)
  ultimately show ?thesis by (simp add: div_mult2_eq [symmetric] del: of_nat_add)
qed

lemma take_take_append: "k \<le> m \<Longrightarrow> m \<le> length xs \<Longrightarrow> take k (take m xs @ ys) = take k xs"
  by (simp add: min_absorb1)

lemma fill_digits_eq:
  "length (decimal (unat x)) \<le> p \<Longrightarrow> p \<le> length buf \<Longrightarrow>
   fill_digits x (p, buf) = Some (p - length (decimal (unat x)),
     take (p - length (decimal (unat x))) buf @ decimal (unat x) @ drop p buf)"
proof (induction x "(p, buf)" arbitrary: p buf rule: fill_digits.induct)
  case (1 x)
  have c: "x \<ge> 100 \<longleftrightarrow> 100 \<le> unat x" "x \<ge> 10 \<longleftrightarrow> 10 \<le> unat x"
    by (simp_all add: word_le_nat_alt)
  consider "unat x < 10" | "10 \<le> unat x" "unat x < 100" | "100 \<le> unat x" by linarith
  then show ?case
  proof cases
    case 1
    then obtain q where q: "p = Suc q" using "1.prems"(1) by (cases p) (simp_all add: length_decimal_small)
    have "(48 + ucast x :: byte) = of_nat (48 + unat x)" by (simp add: unsigned_of_nat of_nat_unat)
    then show ?thesis
      using 1 q "1.prems"(2) unfolding fill_digits.simps [of x] c
      by (simp add: decimal_small put_back_def upd_conv_take_nth_drop del: of_nat_add)
  next
    case 2
    then show ?thesis
      using "1.prems" put_pair_eq [of p buf x] unfolding fill_digits.simps [of x] c
      by (simp add: decimal_two numeral_2_eq_2 del: of_nat_add)
  next
    case 3
    let ?n = "unat x"
    let ?ds = "[of_nat (48 + ?n mod 100 div 10), of_nat (48 + ?n mod 100 mod 10)] :: byte list"
    let ?buf = "take (p - 2) buf @ ?ds @ drop p buf"
    have len: "length (decimal ?n) = length (decimal (?n div 100)) + 2"
      using decimal_pair [OF 3] by simp
    have p: "2 \<le> p" "length (decimal (?n div 100)) \<le> p - 2" "p - 2 \<le> length ?buf"
      using "1.prems" len by simp_all
    have pp: "put_pair (x mod 100) (p, buf) = Some (p - 2, ?buf)"
      using put_pair_eq [OF p(1) "1.prems"(2), of "x mod 100"] by (simp add: unat_mod del: of_nat_add)
    have u: "unat (x div 100) = ?n div 100" by (simp add: unat_div)
    have "fill_digits (x div 100) (p - 2, ?buf) = Some (p - 2 - length (decimal (?n div 100)),
        take (p - 2 - length (decimal (?n div 100))) ?buf @ decimal (?n div 100) @ drop (p - 2) ?buf)"
      using "1.hyps" [OF _ pp] p(2,3) 3 c u by simp
    moreover have "drop (p - 2) ?buf = ?ds @ drop p buf" "p - 2 - length (decimal (?n div 100)) = p - length (decimal ?n)"
      using "1.prems"(2) len by simp_all
    moreover have "take (p - length (decimal ?n)) ?buf = take (p - length (decimal ?n)) buf"
      using "1.prems"(2) len p(1,2) by (intro take_take_append) simp_all
    ultimately show ?thesis
      using 3 pp decimal_pair [OF 3] unfolding fill_digits.simps [of x] c by simp
  qed
qed

lemma dump_abs_eq:
  assumes "length (decimal (unat x)) \<le> n" and "n \<le> length buf"
  shows "dump_abs buf n x = Some (take (n - length (decimal (unat x))) buf @ decimal (unat x))"
  using fill_digits_eq [OF assms] assms by (simp add: dump_abs_def)

lemma decimal_0: "decimal 0 = [48]"
  by (simp add: decimal_small)

lemma dump_unsigned_eq:
  assumes "length buf = 64"
  shows "dump_unsigned buf x = Some (decimal (unat x))"
  using dump_abs_eq [of x "count_digits x" buf] length_decimal_u64 [of x] assms
  by (simp add: dump_unsigned_def count_digits_eq decimal_0)

lemma unat_remove_sign:
  assumes "sint (x :: u64) < 0"
  shows "unat (remove_sign x) = nat (- sint x)"
proof -
  have "- (2 ^ (LENGTH(64) - 1)) \<le> sint x"
    by (rule sint_ge)
  then have "- sint x < 2 ^ 64" by simp
  then have "(- sint x) mod 2 ^ LENGTH(64) = - sint x"
    using assms by (simp add: mod_pos_pos_trivial)
  moreover have "remove_sign x = word_of_int (- sint x)"
    by (simp add: remove_sign_def wi_hom_neg [symmetric])
  ultimately have "uint (remove_sign x) = - sint x"
    by (simp only: uint_word_of_int)
  then show ?thesis
    by (metis nat_uint_eq)
qed

lemma dump_signed_eq:
  assumes "length buf = 64"
  shows "dump_signed buf x = Some (decimal_int (sint x))"
proof (cases "x = 0")
  case True
  then show ?thesis by (simp add: dump_signed_def decimal_int_def decimal_0)
next
  case False
  show ?thesis
  proof (cases "sint x < 0")
    case True
    let ?a = "remove_sign x"
    have "dump_abs (buf[0 := 45]) (1 + count_digits ?a) ?a = Some (take 1 (buf[0 := 45]) @ decimal (unat ?a))"
      using dump_abs_eq [of ?a "1 + count_digits ?a" "buf[0 := 45]"] length_decimal_u64 [of ?a] assms
      by (simp add: count_digits_eq)
    moreover have "take 1 (buf[0 := 45]) = [45]" using assms by (cases buf) simp_all
    ultimately show ?thesis
      using False True
      by (simp add: dump_signed_def is_negative_number_def Let_def decimal_int_def unat_remove_sign [OF True])
  next
    case nonneg: False
    have "sint x < 2 ^ (LENGTH(64) - 1)"
      by (rule sint_lt)
    then have "uint x = sint x"
      using nonneg by (simp add: uint_sint take_bit_int_eq_self)
    then have "nat (sint x) = unat x"
      by (metis nat_uint_eq)
    then show ?thesis
      using False nonneg dump_abs_eq [of x "count_digits x" buf] length_decimal_u64 [of x] assms
      by (simp add: dump_signed_def is_negative_number_def decimal_int_def count_digits_eq)
  qed
qed

text \<open>
  Integers are written exactly: for every 64-bit value, signed or unsigned, the two-digits-at-a-time
  loop started at the position \<open>count_digits\<close> computes stays inside the 64-byte buffer and leaves the
  decimal notation of the value there, whatever the buffer held before. The most negative value,
  whose absolute value is not a signed number, is included.
\<close>

theorem dump_integer_decimal:
  assumes "length number_buffer = 64"
  shows "dump_unsigned number_buffer x = Some (decimal (unat x))
         \<and> dump_signed number_buffer x = Some (decimal_int (sint x))"
  using dump_unsigned_eq [OF assms] dump_signed_eq [OF assms] by simp

theorem dump_integer_decimal_witness:
  "dump_signed (replicate 64 0) 0x8000000000000000 = Some (decimal_int (sint (0x8000000000000000 :: u64)))"
  using dump_integer_decimal [of "replicate 64 0" "0x8000000000000000"] by simp

end
