(* ===== verification/Pattern_Formatter.thy ===== *)
theory Pattern_Formatter
  imports Logger Json_Numbers "HOL-Library.Signed_Division"
begin

section \<open>Formatting a message: \<open>spdlog/pattern_formatter-inl.h\<close> and \<open>details/fmt_helper.h\<close>\<close>

text \<open>
  A pattern is compiled into a list of flag formatters, each of which appends its part of the line.
  The parameters are \<open>localtime\<close> of the C library and the process id. Times count nanoseconds since
  the epoch, and \<open>duration_cast\<close> rounds towards zero. \<open>None\<close> is undefined behaviour (a day or month
  outside its table) or a resize to a negative size, which does not return.
\<close>

record tm =
  tm_sec :: int
  tm_min :: int
  tm_hour :: int
  tm_mday :: int
  tm_mon :: int
  tm_year :: int
  tm_wday :: int
  tm_gmtoff :: int

record source_loc =
  loc_filename :: "byte list"
  loc_line :: int
  loc_funcname :: "byte list"

record log_msg =
  logger_name :: "byte list"
  msg_level :: level_enum
  msg_time :: int
  thread_id :: nat
  color_range_start :: nat
  color_range_end :: nat
  msg_source :: source_loc
  msg_payload :: "byte list"

definition text_bytes :: "string \<Rightarrow> byte list" where
  "text_bytes s = map of_char s"

subsection \<open>\<open>fmt_helper\<close>\<close>

definition append_int :: "int \<Rightarrow> byte list" where
  "append_int n = decimal_int n"

text \<open>Beyond two digits \<open>{:02}\<close> has nothing to pad: a negative number has two characters already.\<close>

definition pad2 :: "int \<Rightarrow> byte list" where
  "pad2 n = (if 0 \<le> n \<and> n < 100 then [of_int (48 + n div 10), of_int (48 + n mod 10)] else decimal_int n)"

definition pad3 :: "nat \<Rightarrow> byte list" where
  "pad3 n =
     (if n < 1000 then [of_nat (n div 100 + 48), of_nat (n mod 100 div 10 + 48), of_nat (n mod 100 mod 10 + 48)]
      else decimal n)"

definition pad_uint :: "nat \<Rightarrow> nat \<Rightarrow> byte list" where
  "pad_uint n width = replicate (width - length (decimal n)) 48 @ decimal n"

definition seconds_of :: "int \<Rightarrow> int" where
  "seconds_of t = t sdiv 1000000000"

text \<open>\<open>time_fraction\<close> in units of \<open>unit\<close> nanoseconds.\<close>

definition time_fraction :: "int \<Rightarrow> int \<Rightarrow> int" where
  "time_fraction unit t = t sdiv unit - seconds_of t * (1000000000 sdiv unit)"

subsection \<open>Padding\<close>

datatype pad_side = Pad_left | Pad_right | Pad_center

record padding_info =
  pad_width :: nat
  pad_side_of :: pad_side
  pad_truncate :: bool
  pad_enabled :: bool

definition no_padding :: padding_info where
  "no_padding = \<lparr>pad_width = 0, pad_side_of = Pad_left, pad_truncate = False, pad_enabled = False\<rparr>"

definition spaces :: "nat \<Rightarrow> byte list" where
  "spaces n = replicate n 32"

text \<open>A \<open>scoped_padder\<close> around the text that is appended while it lives; \<open>null_scoped_padder\<close> does nothing.\<close>

definition padded :: "padding_info \<Rightarrow> nat \<Rightarrow> byte list \<Rightarrow> byte list \<Rightarrow> byte list option" where
  "padded pad wrapped_size txt dest =
     (if \<not> pad_enabled pad then Some (dest @ txt)
      else if wrapped_size < pad_width pad
      then let k = pad_width pad - wrapped_size in
           Some (case pad_side_of pad of
                   Pad_left \<Rightarrow> dest @ spaces k @ txt
                 | Pad_center \<Rightarrow> dest @ spaces (k div 2) @ txt @ spaces (k div 2 + k mod 2)
                 | Pad_right \<Rightarrow> dest @ txt @ spaces k)
      else if pad_width pad < wrapped_size \<and> pad_truncate pad
      then let k = wrapped_size - pad_width pad; all = dest @ txt in
           if k \<le> length all then Some (take (length all - k) all) else None
      else Some (dest @ txt))"

subsection \<open>Flag formatters\<close>

datatype field =
    Name | Level | Short_level | Weekday | Full_weekday | Month | Full_month | Date_time | Year_2 | Date | Year_4
  | Month_num | Day_num | Hour_24 | Hour_12 | Minute | Second | Millis | Micros | Nanos | Epoch_secs
  | Am_pm | Clock_12 | Clock_hm | Clock_hms | Thread | Pid | Payload
  | Source_location | Source_filename | Short_filename | Source_line | Source_function

datatype flag_formatter =
    Flag_field padding_info field
  | Ch char
  | Aggregate string
  | Color_start
  | Color_stop
  | Zone padding_info int int
  | Elapsed padding_info int int
  | Full int "byte list"

definition level_name :: "level_enum \<Rightarrow> string" where
  "level_name l = fst (level_string_views ! level_code l)"

definition short_level_names :: "string list" where
  "short_level_names = [''T'', ''D'', ''I'', ''W'', ''E'', ''C'', ''O'']"

definition days :: "string list" where
  "days = [''Sun'', ''Mon'', ''Tue'', ''Wed'', ''Thu'', ''Fri'', ''Sat'']"

definition full_days :: "string list" where
  "full_days = [''Sunday'', ''Monday'', ''Tuesday'', ''Wednesday'', ''Thursday'', ''Friday'', ''Saturday'']"

definition months :: "string list" where
  "months = [''Jan'', ''Feb'', ''Mar'', ''Apr'', ''May'', ''Jun'', ''Jul'', ''Aug'', ''Sept'', ''Oct'', ''Nov'', ''Dec'']"

definition full_months :: "string list" where
  "full_months = [''January'', ''February'', ''March'', ''April'', ''May'', ''June'', ''July'', ''August'',
                  ''September'', ''October'', ''November'', ''December'']"

definition table_at :: "string list \<Rightarrow> int \<Rightarrow> byte list option" where
  "table_at xs i = (if 0 \<le> i \<and> i < int (length xs) then Some (text_bytes (xs ! nat i)) else None)"

definition ampm :: "tm \<Rightarrow> byte list" where
  "ampm t = text_bytes (if tm_hour t \<ge> 12 then ''PM'' else ''AM'')"

definition to12h :: "tm \<Rightarrow> int" where
  "to12h t = (if tm_hour t > 12 then tm_hour t - 12 else tm_hour t)"

text \<open>The part of a path after its last separator.\<close>

definition path_basename :: "byte list \<Rightarrow> byte list" where
  "path_basename f = (case find_last 47 f of Some i \<Rightarrow> drop (i + 1) f | None \<Rightarrow> f)"

definition to_u32 :: "int \<Rightarrow> nat" where
  "to_u32 n = nat (n mod 2 ^ 32)"

definition sized :: "byte list \<Rightarrow> nat \<times> byte list" where
  "sized t = (length t, t)"

text \<open>The size a formatter announces to the padder and the text it appends.\<close>

definition field_text :: "nat \<Rightarrow> tm \<Rightarrow> log_msg \<Rightarrow> field \<Rightarrow> (nat \<times> byte list) option" where
  "field_text pid t msg f =
     (let src = msg_source msg; sep = [58]; hms = pad2 (tm_hour t) @ sep @ pad2 (tm_min t) @ sep @ pad2 (tm_sec t);
          located = (\<lambda>x. if loc_line src = 0 then (0, []) else x) in
      case f of
        Name \<Rightarrow> Some (sized (logger_name msg))
      | Level \<Rightarrow> Some (sized (text_bytes (level_name (msg_level msg))))
      | Short_level \<Rightarrow> Some (sized (text_bytes (short_level_names ! level_code (msg_level msg))))
      | Weekday \<Rightarrow> map_option sized (table_at days (tm_wday t))
      | Full_weekday \<Rightarrow> map_option sized (table_at full_days (tm_wday t))
      | Month \<Rightarrow> map_option sized (table_at months (tm_mon t))
      | Full_month \<Rightarrow> map_option sized (table_at full_months (tm_mon t))
      | Date_time \<Rightarrow>
          (case (table_at days (tm_wday t), table_at months (tm_mon t)) of
             (Some d, Some m) \<Rightarrow>
               Some (24, d @ [32] @ m @ [32] @ append_int (tm_mday t) @ [32] @ hms @ [32] @ append_int (tm_year t + 1900))
           | _ \<Rightarrow> None)
      | Year_2 \<Rightarrow> Some (2, pad2 (tm_year t smod 100))
      | Date \<Rightarrow> Some (10, pad2 (tm_mon t + 1) @ [47] @ pad2 (tm_mday t) @ [47] @ pad2 (tm_year t smod 100))
      | Year_4 \<Rightarrow> Some (4, append_int (tm_year t + 1900))
      | Month_num \<Rightarrow> Some (2, pad2 (tm_mon t + 1))
      | Day_num \<Rightarrow> Some (2, pad2 (tm_mday t))
      | Hour_24 \<Rightarrow> Some (2, pad2 (tm_hour t))
      | Hour_12 \<Rightarrow> Some (2, pad2 (to12h t))
      | Minute \<Rightarrow> Some (2, pad2 (tm_min t))
      | Second \<Rightarrow> Some (2, pad2 (tm_sec t))
      | Millis \<Rightarrow> Some (3, pad3 (to_u32 (time_fraction 1000000 (msg_time msg))))
      | Micros \<Rightarrow> Some (6, pad_uint (to_size_t (time_fraction 1000 (msg_time msg))) 6)
      | Nanos \<Rightarrow> Some (9, pad_uint (to_size_t (time_fraction 1 (msg_time msg))) 9)
      | Epoch_secs \<Rightarrow> Some (10, append_int (seconds_of (msg_time msg)))
      | Am_pm \<Rightarrow> Some (2, ampm t)
      | Clock_12 \<Rightarrow> Some (11, pad2 (to12h t) @ sep @ pad2 (tm_min t) @ sep @ pad2 (tm_sec t) @ [32] @ ampm t)
      | Clock_hm \<Rightarrow> Some (5, pad2 (tm_hour t) @ sep @ pad2 (tm_min t))
      | Clock_hms \<Rightarrow> Some (8, hms)
      | Thread \<Rightarrow> Some (sized (decimal (thread_id msg)))
      | Pid \<Rightarrow> Some (sized (decimal (pid mod 2 ^ 32)))
      | Payload \<Rightarrow> Some (sized (msg_payload msg))
      | Source_location \<Rightarrow>
          Some (located (length (loc_filename src) + length (decimal (to_u32 (loc_line src))) + 1,
                         loc_filename src @ sep @ append_int (loc_line src)))
      | Source_filename \<Rightarrow> Some (located (sized (loc_filename src)))
      | Short_filename \<Rightarrow> Some (located (sized (path_basename (loc_filename src))))
      | Source_line \<Rightarrow> Some (located (length (decimal (to_u32 (loc_line src))), append_int (loc_line src)))
      | Source_function \<Rightarrow> Some (located (sized (loc_funcname src))))"


text \<open>\<open>z_formatter\<close>: the time of the last update and the offset then.\<close>

definition get_cached_offset :: "int \<Rightarrow> int \<Rightarrow> tm \<Rightarrow> log_msg \<Rightarrow> int \<times> int" where
  "get_cached_offset last_update offset t msg =
     (if msg_time msg - last_update \<ge> 10 * 1000000000 then (msg_time msg, tm_gmtoff t sdiv 60)
      else (last_update, offset))"

definition zone_text :: "int \<Rightarrow> byte list" where
  "zone_text mins = (if mins < 0 then [45] else [43]) @ pad2 (\<bar>mins\<bar> sdiv 60) @ [58] @ pad2 (\<bar>mins\<bar> smod 60)"

text \<open>\<open>full_formatter\<close>: the date and time of the second \<open>ts\<close> are kept in \<open>cached\<close>.\<close>

definition full_datetime :: "tm \<Rightarrow> byte list" where
  "full_datetime t =
     [91] @ append_int (tm_year t + 1900) @ [45] @ pad2 (tm_mon t + 1) @ [45] @ pad2 (tm_mday t) @ [32]
     @ pad2 (tm_hour t) @ [58] @ pad2 (tm_min t) @ [58] @ pad2 (tm_sec t) @ [46]"

definition full_format ::
  "int \<Rightarrow> byte list \<Rightarrow> tm \<Rightarrow> log_msg \<Rightarrow> byte list \<Rightarrow> flag_formatter \<times> log_msg \<times> byte list" where
  "full_format ts cached t msg dest =
     (let secs = seconds_of (msg_time msg);
          (ts1, cached1) = (if ts \<noteq> secs \<or> cached = [] then (secs, full_datetime t) else (ts, cached));
          dest1 = dest @ cached1 @ pad3 (to_u32 (time_fraction 1000000 (msg_time msg))) @ [93, 32];
          dest2 = (if logger_name msg = [] then dest1 else dest1 @ [91] @ logger_name msg @ [93, 32]);
          dest3 = dest2 @ [91]; dest4 = dest3 @ text_bytes (level_name (msg_level msg));
          src = msg_source msg; dest5 = dest4 @ [93, 32];
          dest6 = (if loc_line src = 0 then dest5
                   else dest5 @ [91] @ path_basename (loc_filename src) @ [58] @ append_int (loc_line src) @ [93, 32]) in
      (Full ts1 cached1, msg\<lparr>color_range_start := length dest3, color_range_end := length dest4\<rparr>,
       dest6 @ msg_payload msg))"

definition flag_format ::
  "nat \<Rightarrow> tm \<Rightarrow> flag_formatter \<Rightarrow> log_msg \<Rightarrow> byte list \<Rightarrow> (flag_formatter \<times> log_msg \<times> byte list) option" where
  "flag_format pid t ff msg dest =
     (case ff of
        Flag_field pad f \<Rightarrow>
          (case field_text pid t msg f of
             None \<Rightarrow> None
           | Some (n, txt) \<Rightarrow> map_option (\<lambda>d. (ff, msg, d)) (padded pad n txt dest))
      | Ch c \<Rightarrow> Some (ff, msg, dest @ [of_char c])
      | Aggregate s \<Rightarrow> Some (ff, msg, dest @ text_bytes s)
      | Color_start \<Rightarrow> Some (ff, msg\<lparr>color_range_start := length dest\<rparr>, dest)
      | Color_stop \<Rightarrow> Some (ff, msg\<lparr>color_range_end := length dest\<rparr>, dest)
      | Zone pad last_update offset \<Rightarrow>
          (let (lu, off) = get_cached_offset last_update offset t msg in
           map_option (\<lambda>d. (Zone pad lu off, msg, d)) (padded pad 6 (zone_text off) dest))
      | Elapsed pad unit prev \<Rightarrow>
          (let delta = to_size_t (max (msg_time msg - prev) 0 sdiv unit); txt = decimal delta in
           map_option (\<lambda>d. (Elapsed pad unit (msg_time msg), msg, d)) (padded pad (length txt) txt dest))
      | Full ts cached \<Rightarrow> Some (full_format ts cached t msg dest))"

subsection \<open>Compiling a pattern\<close>

definition flag_fields :: "(char \<times> field) list" where
  "flag_fields =
     [(CHR ''n'', Name), (CHR ''l'', Level), (CHR ''L'', Short_level), (CHR ''t'', Thread), (CHR ''v'', Payload),
      (CHR ''a'', Weekday), (CHR ''A'', Full_weekday), (CHR ''b'', Month), (CHR ''h'', Month), (CHR ''B'', Full_month),
      (CHR ''c'', Date_time), (CHR ''C'', Year_2), (CHR ''Y'', Year_4), (CHR ''D'', Date), (CHR ''x'', Date),
      (CHR ''m'', Month_num), (CHR ''d'', Day_num), (CHR ''H'', Hour_24), (CHR ''I'', Hour_12), (CHR ''M'', Minute),
      (CHR ''S'', Second), (CHR ''e'', Millis), (CHR ''f'', Micros), (CHR ''F'', Nanos), (CHR ''E'', Epoch_secs),
      (CHR ''p'', Am_pm), (CHR ''r'', Clock_12), (CHR ''R'', Clock_hm), (CHR ''T'', Clock_hms), (CHR ''X'', Clock_hms),
      (CHR ''P'', Pid), (CHR ''@'', Source_location), (CHR ''s'', Short_filename), (CHR ''g'', Source_filename),
      (CHR ''#'', Source_line), (CHR ''!'', Source_function)]"

text \<open>The flags for which \<open>need_localtime_\<close> is set.\<close>

definition localtime_flags :: string where
  "localtime_flags = ''+aAbhBcCYDxmdHIMSprRTXz''"

definition elapsed_units :: "(char \<times> int) list" where
  "elapsed_units = [(CHR ''u'', 1), (CHR ''i'', 1000), (CHR ''o'', 1000000), (CHR ''O'', 1000000000)]"

text \<open>
  \<open>handle_flag_\<close> without custom flags; \<open>now\<close> is the time at which the pattern is compiled. The result
  is the formatters to append and whether the local time is needed.
\<close>

definition handle_flag :: "int \<Rightarrow> char \<Rightarrow> padding_info \<Rightarrow> flag_formatter list \<times> bool" where
  "handle_flag now flag pad =
     (case map_of flag_fields flag of
        Some f \<Rightarrow> [Flag_field pad f]
      | None \<Rightarrow>
          (case map_of elapsed_units flag of
             Some unit \<Rightarrow> [Elapsed pad unit now]
           | None \<Rightarrow>
               if flag = CHR ''+'' then [Full 0 []]
               else if flag = CHR ''z'' then [Zone pad 0 0]
               else if flag = CHR ''^'' then [Color_start]
               else if flag = CHR ''$'' then [Color_stop]
               else if flag = CHR ''%'' then [Ch CHR ''%'']
               else if \<not> pad_truncate pad then [Aggregate [CHR ''%'', flag]]
               else [Flag_field (pad\<lparr>pad_truncate := False\<rparr>) Source_function, Aggregate [flag]]),
      flag \<in> set localtime_flags)"

definition is_digit_char :: "char \<Rightarrow> bool" where
  "is_digit_char c \<longleftrightarrow> 48 \<le> (of_char c :: nat) \<and> (of_char c :: nat) \<le> 57"

fun pad_digits :: "nat \<Rightarrow> string \<Rightarrow> nat \<times> string" where
  "pad_digits width [] = (width, [])"
| "pad_digits width (c # cs) =
     (if is_digit_char c then pad_digits ((width * 10 + (of_char c - 48)) mod 2 ^ 64) cs else (width, c # cs))"

text \<open>\<open>handle_padspec_\<close> after the side has been read; then the whole.\<close>

definition padspec_width :: "pad_side \<Rightarrow> string \<Rightarrow> padding_info \<times> string" where
  "padspec_width side it =
     (case it of
        [] \<Rightarrow> (no_padding, it)
      | d # ds \<Rightarrow>
          if \<not> is_digit_char d then (no_padding, it)
          else let (width, it2) = pad_digits (of_char d - 48) ds;
                   truncate = (it2 \<noteq> [] \<and> hd it2 = CHR ''!'') in
               (\<lparr>pad_width = min width 64, pad_side_of = side, pad_truncate = truncate, pad_enabled = True\<rparr>,
                if truncate then tl it2 else it2))"

definition handle_padspec :: "string \<Rightarrow> padding_info \<times> string" where
  "handle_padspec cs =
     (case cs of
        [] \<Rightarrow> (no_padding, [])
      | c # rest \<Rightarrow>
          if c = CHR ''-'' then padspec_width Pad_right rest
          else if c = CHR ''='' then padspec_width Pad_center rest
          else padspec_width Pad_left cs)"

lemma length_pad_digits: "length (snd (pad_digits n cs)) \<le> length cs"
  by (induction n cs rule: pad_digits.induct) auto

lemma length_padspec_width: "length (snd (padspec_width side it)) \<le> length it"
proof (cases it)
  case (Cons d ds)
  have "length (snd (pad_digits (of_char d - 48) ds)) \<le> length ds"
    by (rule length_pad_digits)
  then show ?thesis
    by (auto simp: padspec_width_def Cons Let_def split_beta)
qed (simp add: padspec_width_def)

lemma length_handle_padspec: "length (snd (handle_padspec cs)) \<le> length cs"
  by (auto simp: handle_padspec_def length_padspec_width le_SucI split: list.split)
     (metis length_Cons length_padspec_width)

lemma padspec_rest_shorter: "(pad, flag # rest) = handle_padspec cs \<Longrightarrow> length rest < Suc (length cs)"
  using length_handle_padspec [of cs] by (metis length_Cons less_Suc_eq_le snd_conv Suc_leD)

text \<open>\<open>compile_pattern_\<close>; \<open>user_chars\<close> are the plain characters read so far.\<close>

definition flush_chars :: "string \<Rightarrow> flag_formatter list" where
  "flush_chars user_chars = (if user_chars = [] then [] else [Aggregate user_chars])"

function compile_pattern :: "int \<Rightarrow> string \<Rightarrow> string \<Rightarrow> flag_formatter list \<times> bool" where
  "compile_pattern now user_chars [] = (flush_chars user_chars, False)"
| "compile_pattern now user_chars (c # cs) =
     (if c = CHR ''%''
      then case handle_padspec cs of
             (pad, []) \<Rightarrow> (flush_chars user_chars, False)
           | (pad, flag # rest) \<Rightarrow>
               (let (fs, need) = handle_flag now flag pad; (gs, need2) = compile_pattern now [] rest in
                (flush_chars user_chars @ fs @ gs, need \<or> need2))
      else compile_pattern now (user_chars @ [c]) cs)"
  by pat_completeness auto
termination
  by (relation "measure (\<lambda>(now, user_chars, cs). length cs)") (auto dest: padspec_rest_shorter)

subsection \<open>\<open>pattern_formatter\<close>\<close>

record pattern_formatter =
  pf_eol :: "byte list"
  need_localtime :: bool
  cached_tm :: tm
  last_log_secs :: int
  formatters :: "flag_formatter list"

definition zero_tm :: tm where
  "zero_tm = \<lparr>tm_sec = 0, tm_min = 0, tm_hour = 0, tm_mday = 0, tm_mon = 0, tm_year = 0, tm_wday = 0, tm_gmtoff = 0\<rparr>"

definition new_pattern_formatter :: "int \<Rightarrow> string \<Rightarrow> pattern_formatter" where
  "new_pattern_formatter now pattern =
     (let (fs, need) = compile_pattern now [] pattern in
      \<lparr>pf_eol = [10], need_localtime = need, cached_tm = zero_tm, last_log_secs = 0, formatters = fs\<rparr>)"

fun format_all ::
  "nat \<Rightarrow> tm \<Rightarrow> flag_formatter list \<Rightarrow> log_msg \<Rightarrow> byte list \<Rightarrow> (flag_formatter list \<times> log_msg \<times> byte list) option" where
  "format_all pid t [] msg dest = Some ([], msg, dest)"
| "format_all pid t (ff # ffs) msg dest =
     (case flag_format pid t ff msg dest of
        None \<Rightarrow> None
      | Some (ff1, msg1, dest1) \<Rightarrow>
          (case format_all pid t ffs msg1 dest1 of
             None \<Rightarrow> None
           | Some (ffs1, msg2, dest2) \<Rightarrow> Some (ff1 # ffs1, msg2, dest2)))"

definition pf_format ::
  "(int \<Rightarrow> tm) \<Rightarrow> nat \<Rightarrow> pattern_formatter \<Rightarrow> log_msg \<Rightarrow> byte list \<Rightarrow> (pattern_formatter \<times> log_msg \<times> byte list) option" where
  "pf_format localtime pid pf msg dest =
     (let secs = seconds_of (msg_time msg);
          pf1 = (if need_localtime pf \<and> secs \<noteq> last_log_secs pf
                 then pf\<lparr>cached_tm := localtime secs, last_log_secs := secs\<rparr> else pf) in
      case format_all pid (cached_tm pf1) (formatters pf1) msg dest of
        None \<Rightarrow> None
      | Some (fs, msg1, dest1) \<Rightarrow> Some (pf1\<lparr>formatters := fs\<rparr>, msg1, dest1 @ pf_eol pf1))"

end
