(* ===== verification/Log_Lines.thy ===== *)
theory Log_Lines
  imports Pattern_Formatter
begin

section \<open>The lines of the log: the pattern that \<open>initLogger\<close> sets\<close>

text \<open>
  The formatter of a sink keeps the broken-down time of the last second it has seen. The lines it
  writes are nevertheless those of a formatter without memory, and the level and the text of a
  message can be read back from its line.
\<close>

definition logger_pattern :: string where
  "logger_pattern = ''[%Y-%m-%d %H:%M:%S.%e] [%^%l%$] %v''"

definition logger_formatters :: "flag_formatter list" where
  "logger_formatters =
     (let f = Flag_field no_padding in
      [Aggregate ''['', f Year_4, Aggregate ''-'', f Month_num, Aggregate ''-'', f Day_num, Aggregate '' '',
       f Hour_24, Aggregate '':'', f Minute, Aggregate '':'', f Second, Aggregate ''.'', f Millis, Aggregate ''] ['',
       Color_start, f Level, Color_stop, Aggregate ''] '', f Payload])"

lemma compile_logger_pattern: "compile_pattern now [] logger_pattern = (logger_formatters, True)"
  by (simp add: logger_pattern_def logger_formatters_def handle_padspec_def padspec_width_def is_digit_char_def
      handle_flag_def flag_fields_def elapsed_units_def localtime_flags_def flush_chars_def Let_def)

subsection \<open>A line\<close>

definition log_line :: "tm \<Rightarrow> log_msg \<Rightarrow> byte list" where
  "log_line t msg =
     full_datetime t @ pad3 (to_u32 (time_fraction 1000000 (msg_time msg)))
     @ text_bytes ''] ['' @ text_bytes (level_name (msg_level msg)) @ text_bytes ''] '' @ msg_payload msg @ [10]"

text \<open>Formatting changes nothing in a message but the colour range.\<close>

definition same_msg :: "log_msg \<Rightarrow> log_msg \<Rightarrow> bool" where
  "same_msg m m' \<longleftrightarrow> (\<exists>a b. m' = m\<lparr>color_range_start := a, color_range_end := b\<rparr>)"

lemma format_logger:
  "\<exists>msg'. format_all pid t logger_formatters msg [] = Some (logger_formatters, msg', butlast (log_line t msg))
          \<and> same_msg msg msg'"
  by (simp add: logger_formatters_def flag_format_def field_text_def padded_def no_padding_def sized_def Let_def
      log_line_def full_datetime_def append_int_def text_bytes_def butlast_append same_msg_def) blast

subsection \<open>The cache\<close>

definition pf_ok :: "(int \<Rightarrow> tm) \<Rightarrow> pattern_formatter \<Rightarrow> bool" where
  "pf_ok localtime pf \<longleftrightarrow>
     formatters pf = logger_formatters \<and> need_localtime pf \<and> pf_eol pf = [10]
     \<and> (last_log_secs pf = 0 \<or> cached_tm pf = localtime (last_log_secs pf))"

lemma new_pf_ok: "pf_ok localtime (new_pattern_formatter now logger_pattern)"
  by (simp add: pf_ok_def new_pattern_formatter_def compile_logger_pattern)

lemma pf_format_ok:
  assumes "pf_ok localtime pf" and "seconds_of (msg_time msg) \<noteq> 0"
  obtains pf' msg' where "pf_format localtime pid pf msg [] =
      Some (pf', msg', log_line (localtime (seconds_of (msg_time msg))) msg)" and "pf_ok localtime pf'"
    and "same_msg msg msg'"
proof -
  let ?s = "seconds_of (msg_time msg)"
  let ?pf = "if ?s \<noteq> last_log_secs pf then pf\<lparr>cached_tm := localtime ?s, last_log_secs := ?s\<rparr> else pf"
  have pf: "cached_tm ?pf = localtime ?s" "pf_ok localtime ?pf" "pf_eol ?pf = [10]" "formatters ?pf = logger_formatters"
    using assms by (auto simp: pf_ok_def)
  obtain msg' where m: "format_all pid (localtime ?s) logger_formatters msg [] =
      Some (logger_formatters, msg', butlast (log_line (localtime ?s) msg))" and sm: "same_msg msg msg'"
    using format_logger by blast
  have "butlast (log_line t msg) @ [10] = log_line t msg" for t
    by (simp add: log_line_def butlast_append)
  then have "pf_format localtime pid pf msg [] =
      Some (?pf\<lparr>formatters := logger_formatters\<rparr>, msg', log_line (localtime ?s) msg)"
    using assms(1) m pf(1,3,4) by (simp add: pf_format_def pf_ok_def Let_def)
  moreover have "pf_ok localtime (?pf\<lparr>formatters := logger_formatters\<rparr>)"
    using pf(2) by (auto simp: pf_ok_def)
  ultimately show ?thesis
    using sm by (rule that)
qed

text \<open>The messages that one sink formats, in order.\<close>

fun format_msgs :: "(int \<Rightarrow> tm) \<Rightarrow> nat \<Rightarrow> pattern_formatter \<Rightarrow> log_msg list \<Rightarrow> byte list list option" where
  "format_msgs localtime pid pf [] = Some []"
| "format_msgs localtime pid pf (m # ms) =
     (case pf_format localtime pid pf m [] of
        None \<Rightarrow> None
      | Some (pf1, m1, line) \<Rightarrow> map_option ((#) line) (format_msgs localtime pid pf1 ms))"

lemma format_msgs_ok:
  assumes "pf_ok localtime pf" and "\<forall>m\<in>set msgs. seconds_of (msg_time m) \<noteq> 0"
  shows "format_msgs localtime pid pf msgs = Some (map (\<lambda>m. log_line (localtime (seconds_of (msg_time m))) m) msgs)"
  using assms
proof (induction msgs arbitrary: pf)
  case (Cons m msgs)
  obtain pf' m' where "pf_format localtime pid pf m [] = Some (pf', m', log_line (localtime (seconds_of (msg_time m))) m)"
      "pf_ok localtime pf'"
    by (rule pf_format_ok [OF Cons.prems(1)]) (use Cons.prems(2) in auto)
  then show ?case
    using Cons.IH Cons.prems(2) by simp
qed simp

subsection \<open>Reading a line\<close>

definition read_line :: "byte list \<Rightarrow> level_enum \<times> byte list" where
  "read_line bs =
     (let rest = drop 3 (dropWhile (\<lambda>b. b \<noteq> 93) bs);
          name = takeWhile (\<lambda>b. b \<noteq> 93) rest; rest2 = drop 2 (dropWhile (\<lambda>b. b \<noteq> 93) rest) in
      (from_str (map (\<lambda>b. char_of (unat b)) name), butlast rest2))"


lemma digit_no_bracket: "d < 10 \<Longrightarrow> (93 :: byte) \<noteq> of_nat (48 + d)"
  by (auto simp: unsigned_of_nat take_bit_eq_mod simp del: of_nat_add dest: arg_cong [where f = unat])

lemma decimal_no_bracket: "93 \<notin> set (decimal n)"
proof (induction n rule: decimal.induct)
  case (1 n)
  then show ?case
    using digit_no_bracket [of n] digit_no_bracket [of "n mod 10"]
    by (subst decimal.simps) (auto simp del: of_nat_add)
qed

lemma decimal_int_no_bracket: "93 \<notin> set (decimal_int n)"
  by (simp add: decimal_int_def decimal_no_bracket)

lemma pad2_no_bracket: "93 \<notin> set (pad2 n)"
proof (cases "0 \<le> n \<and> n < 100")
  case True
  then obtain k where k: "n = int k" "k < 100"
    by (metis nonneg_int_cases of_nat_less_iff of_nat_numeral)
  have "48 + n div 10 = int (48 + k div 10)" "48 + n mod 10 = int (48 + k mod 10)"
    by (simp_all add: k zdiv_int zmod_int)
  then have "of_int (48 + n div 10) = (of_nat (48 + k div 10) :: byte)" "of_int (48 + n mod 10) = (of_nat (48 + k mod 10) :: byte)"
    by (simp_all only: of_int_of_nat_eq)
  then show ?thesis
    using k(2) digit_no_bracket [of "k div 10"] digit_no_bracket [of "k mod 10"] True
    by (simp add: pad2_def del: of_nat_add)
next
  case False
  then have "pad2 n = decimal_int n"
    unfolding pad2_def by (rule if_not_P)
  then show ?thesis
    by (simp add: decimal_int_no_bracket)
qed

lemma pad3_no_bracket: "93 \<notin> set (pad3 n)"
  using digit_no_bracket [of "n div 100"] digit_no_bracket [of "n mod 100 div 10"] digit_no_bracket [of "n mod 100 mod 10"]
  by (auto simp: pad3_def decimal_no_bracket add.commute simp del: of_nat_add)

lemma char_of_byte: "char_of (unat (of_char c :: byte)) = c"
proof -
  have "(of_char c :: byte) = of_nat (of_char c)"
    by (simp only: of_nat_of_char)
  moreover have "unat (of_nat (of_char c) :: byte) = of_char c"
    by (simp only: unsigned_of_nat take_bit_eq_mod) simp
  ultimately show ?thesis
    by simp
qed

lemma level_name_chars:
  "93 \<notin> set (text_bytes (level_name l))"
  "from_str (map (\<lambda>b. char_of (unat b)) (text_bytes (level_name l))) = l"
proof -
  have "CHR '']'' \<notin> set (level_name l)"
    by (cases l) (simp_all add: level_name_def level_string_views_def level_code_def)
  moreover have "c = CHR '']''" if "(93 :: byte) = of_char c" for c
  proof -
    have "char_of (93 :: nat) = CHR '']''"
      by code_simp
    then show ?thesis
      using char_of_byte [of c] that [symmetric] by simp
  qed
  ultimately show "93 \<notin> set (text_bytes (level_name l))"
    by (auto simp: text_bytes_def)
  have "from_str (level_name l) = l"
    by (cases l) (simp_all add: level_name_def level_string_views_def level_code_def from_str_def)
  then show "from_str (map (\<lambda>b. char_of (unat b)) (text_bytes (level_name l))) = l"
    by (simp add: text_bytes_def char_of_byte comp_def)
qed


lemma full_datetime_no_bracket: "93 \<notin> set (full_datetime t)"
  by (simp add: full_datetime_def append_int_def pad2_no_bracket decimal_int_no_bracket)

lemma read_log_line: "read_line (log_line t msg) = (msg_level msg, msg_payload msg)"
proof -
  let ?d = "full_datetime t @ pad3 (to_u32 (time_fraction 1000000 (msg_time msg)))"
  let ?l = "text_bytes (level_name (msg_level msg))"
  have d: "\<And>x. x \<in> set ?d \<Longrightarrow> x \<noteq> 93" "\<And>x. x \<in> set ?l \<Longrightarrow> x \<noteq> 93"
    using full_datetime_no_bracket pad3_no_bracket level_name_chars(1) by auto
  have "log_line t msg = ?d @ [93, 32, 91] @ ?l @ [93, 32] @ msg_payload msg @ [10]"
    by (simp add: log_line_def text_bytes_def)
  then show ?thesis
    using dropWhile_append2 [of ?d "\<lambda>b. b \<noteq> 93"] dropWhile_append2 [of ?l "\<lambda>b. b \<noteq> 93"]
      takeWhile_append2 [of ?l "\<lambda>b. b \<noteq> 93"] d
    by (simp add: read_line_def Let_def level_name_chars(2) butlast_append del: append_assoc flip: append_assoc)
qed

text \<open>
  C31. The lines of a log: with the pattern that \<open>initLogger\<close> sets, the formatter of a sink turns any
  messages after the first second of the epoch into lines that hold date, time and milliseconds of
  the message, its level and its text. The cached broken-down time never shows: each line is that
  of a formatter without memory. The level and the text are read back from the line.
\<close>

theorem log_lines_faithful:
  assumes "\<forall>m\<in>set msgs. seconds_of (msg_time m) \<noteq> 0"
  shows "format_msgs localtime pid (new_pattern_formatter now logger_pattern) msgs
           = Some (map (\<lambda>m. log_line (localtime (seconds_of (msg_time m))) m) msgs)
         \<and> map read_line (map (\<lambda>m. log_line (localtime (seconds_of (msg_time m))) m) msgs)
           = map (\<lambda>m. (msg_level m, msg_payload m)) msgs"
  using format_msgs_ok [OF new_pf_ok assms] by (simp add: read_log_line)

definition demo_tm :: tm where
  "demo_tm = \<lparr>tm_sec = 5, tm_min = 4, tm_hour = 13, tm_mday = 2, tm_mon = 0, tm_year = 124, tm_wday = 2, tm_gmtoff = 0\<rparr>"

definition demo_msg :: "level_enum \<Rightarrow> byte list \<Rightarrow> log_msg" where
  "demo_msg l txt =
     \<lparr>logger_name = [], msg_level = l, msg_time = 1704200645007000000, thread_id = 1, color_range_start = 0,
      color_range_end = 0, msg_source = \<lparr>loc_filename = [], loc_line = 0, loc_funcname = []\<rparr>, msg_payload = txt\<rparr>"

lemma demo_line: "log_line demo_tm (demo_msg L_warn (text_bytes ''disk'')) = text_bytes ''[2024-01-02 13:04:05.007] [warning] disk'' @ [10]"
  by (simp add: log_line_def full_datetime_def demo_tm_def demo_msg_def append_int_def decimal_int_def decimal.simps
      pad2_def pad3_def to_u32_def time_fraction_def seconds_of_def level_name_def level_string_views_def level_code_def
      text_bytes_def)

theorem log_lines_faithful_witness:
  "format_msgs (\<lambda>s. demo_tm) 7 (new_pattern_formatter 0 logger_pattern) [demo_msg L_warn (text_bytes ''disk'')]
     = Some [text_bytes ''[2024-01-02 13:04:05.007] [warning] disk'' @ [10]]
   \<and> read_line (text_bytes ''[2024-01-02 13:04:05.007] [warning] disk'' @ [10]) = (L_warn, text_bytes ''disk'')"
  using log_lines_faithful [of "[demo_msg L_warn (text_bytes ''disk'')]" "\<lambda>s. demo_tm" 7 0]
  by (simp add: demo_line) (simp add: demo_msg_def seconds_of_def)

end
