(* ===== verification/Log_Dispatch.thy ===== *)
theory Log_Dispatch
  imports Rotating_Sink Log_Lines
begin

section \<open>From a message to the log files: \<open>logger.h\<close> and \<open>spdlog/logger-inl.h\<close>\<close>

text \<open>
  The logger that \<open>initLogger\<close> builds, with its real sinks on the file system, each with its own
  formatter. An exception of a sink is caught and reported by \<open>SPDLOG_LOGGER_CATCH\<close>, and the other
  sinks still get the message. The console sink writes to standard output and touches no file. The
  parameters are those of the formatter: \<open>localtime\<close> and the process id.
\<close>

datatype sink_body = Console_sink | Rotating_sink rotating_sink

record log_sink =
  ls_level :: level_enum
  ls_formatter :: pattern_formatter
  ls_body :: sink_body

record multi_logger =
  ml_sinks :: "log_sink list"
  ml_level :: level_enum
  ml_flush_level :: level_enum

text \<open>\<open>sink::log\<close> and \<open>sink::flush\<close>.\<close>

definition body_log :: "byte list \<Rightarrow> sink_body \<Rightarrow> world \<Rightarrow> ending \<times> sink_body \<times> world" where
  "body_log text b w =
     (case b of
        Console_sink \<Rightarrow> (Returns, b, w)
      | Rotating_sink s \<Rightarrow> (let (e, s1, w1) = sink_it text s w in (e, Rotating_sink s1, w1)))"

definition body_flush :: "sink_body \<Rightarrow> world \<Rightarrow> ending \<times> world" where
  "body_flush b w = (case b of Console_sink \<Rightarrow> (Returns, w) | Rotating_sink s \<Rightarrow> sink_flush s w)"

text \<open>\<open>base_sink::log\<close>: the formatter of the sink makes the text; \<open>None\<close> is undefined behaviour.\<close>

definition sink_log ::
  "(int \<Rightarrow> tm) \<Rightarrow> nat \<Rightarrow> log_msg \<Rightarrow> log_sink \<Rightarrow> world \<Rightarrow> (log_msg \<times> log_sink \<times> world) option" where
  "sink_log localtime pid msg x w =
     (case pf_format localtime pid (ls_formatter x) msg [] of
        None \<Rightarrow> None
      | Some (pf, msg1, text) \<Rightarrow>
          (let (e, b, w1) = body_log text (ls_body x) w in
           if e = Undefined_behaviour then None else Some (msg1, x\<lparr>ls_formatter := pf, ls_body := b\<rparr>, w1)))"

text \<open>The loop of \<open>logger::sink_it_\<close>; the formatters note the colour range in the message.\<close>

fun sink_each ::
  "(int \<Rightarrow> tm) \<Rightarrow> nat \<Rightarrow> log_msg \<Rightarrow> log_sink list \<Rightarrow> world \<Rightarrow> (log_sink list \<times> world) option" where
  "sink_each localtime pid msg [] w = Some ([], w)"
| "sink_each localtime pid msg (x # xs) w =
     (if msg_level msg \<ge> ls_level x
      then case sink_log localtime pid msg x w of
             None \<Rightarrow> None
           | Some (msg1, y, w1) \<Rightarrow> map_option (\<lambda>(ys, w2). (y # ys, w2)) (sink_each localtime pid msg1 xs w1)
      else map_option (\<lambda>(ys, w2). (x # ys, w2)) (sink_each localtime pid msg xs w))"

text \<open>\<open>logger::flush_\<close>.\<close>

fun flush_each :: "log_sink list \<Rightarrow> world \<Rightarrow> world" where
  "flush_each [] w = w"
| "flush_each (x # xs) w = flush_each xs (snd (body_flush (ls_body x) w))"

definition logger_sink_it ::
  "(int \<Rightarrow> tm) \<Rightarrow> nat \<Rightarrow> log_msg \<Rightarrow> multi_logger \<Rightarrow> world \<Rightarrow> (multi_logger \<times> world) option" where
  "logger_sink_it localtime pid msg lg w =
     (case sink_each localtime pid msg (ml_sinks lg) w of
        None \<Rightarrow> None
      | Some (xs, w1) \<Rightarrow>
          Some (lg\<lparr>ml_sinks := xs\<rparr>,
                if msg_level msg \<ge> ml_flush_level lg \<and> msg_level msg \<noteq> L_off then flush_each xs w1 else w1))"

text \<open>\<open>logger::log\<close> and \<open>log_it_\<close>; no backtrace is enabled.\<close>

definition log_it ::
  "(int \<Rightarrow> tm) \<Rightarrow> nat \<Rightarrow> log_msg \<Rightarrow> multi_logger \<Rightarrow> world \<Rightarrow> (multi_logger \<times> world) option" where
  "log_it localtime pid msg lg w =
     (if msg_level msg \<ge> ml_level lg then logger_sink_it localtime pid msg lg w else Some (lg, w))"

text \<open>
  What happens to a logger: a message is logged, or the worker of \<open>flush_every\<close> flushes all loggers.
  The mutex of each sink makes the two take turns.
\<close>

datatype log_event = Message log_msg | Periodic_flush

definition log_event_step ::
  "(int \<Rightarrow> tm) \<Rightarrow> nat \<Rightarrow> log_event \<Rightarrow> multi_logger \<Rightarrow> world \<Rightarrow> (multi_logger \<times> world) option" where
  "log_event_step localtime pid ev lg w =
     (case ev of
        Message m \<Rightarrow> log_it localtime pid m lg w
      | Periodic_flush \<Rightarrow> Some (lg, flush_each (ml_sinks lg) w))"

fun log_all ::
  "(int \<Rightarrow> tm) \<Rightarrow> nat \<Rightarrow> log_event list \<Rightarrow> multi_logger \<Rightarrow> world \<Rightarrow> (multi_logger \<times> world) option" where
  "log_all localtime pid [] lg w = Some (lg, w)"
| "log_all localtime pid (ev # evs) lg w =
     (case log_event_step localtime pid ev lg w of
        None \<Rightarrow> None | Some (lg1, w1) \<Rightarrow> log_all localtime pid evs lg1 w1)"

text \<open>
  The sinks of \<open>initLogger\<close> and their combination. When a constructor throws, the sinks made before
  are destroyed, which closes their files.
\<close>

definition close_sink :: "rotating_sink \<Rightarrow> world \<Rightarrow> world" where
  "close_sink s w = snd (fh_close (helper s) w)"

definition make_logger ::
  "int \<Rightarrow> string \<Rightarrow> nat \<Rightarrow> nat \<Rightarrow> level_enum \<Rightarrow> world \<Rightarrow> (spdlog_ex + multi_logger) \<times> world" where
  "make_logger now dir mx n g w =
     (case new_rotating_sink (dir @ ''/lite_monitor.log'') mx n False w of
        (Inl ex, w1) \<Rightarrow> (Inl ex, w1)
      | (Inr info, w1) \<Rightarrow>
     (case new_rotating_sink (dir @ ''/lite_monitor.warn'') mx n False w1 of
        (Inl ex, w2) \<Rightarrow> (Inl ex, close_sink info w2)
      | (Inr warn, w2) \<Rightarrow>
     (case new_rotating_sink (dir @ ''/lite_monitor.error'') mx n False w2 of
        (Inl ex, w3) \<Rightarrow> (Inl ex, close_sink info (close_sink warn w3))
      | (Inr error, w3) \<Rightarrow>
          (let sink = (\<lambda>lv b. \<lparr>ls_level = lv, ls_formatter = new_pattern_formatter now logger_pattern, ls_body = b\<rparr>) in
           (Inr \<lparr>ml_sinks = [sink g Console_sink, sink g (Rotating_sink info), sink L_warn (Rotating_sink warn),
                             sink L_err (Rotating_sink error)],
                 ml_level = g, ml_flush_level = L_warn\<rparr>, w3)))))"

end
