(* ===== verification/Rotation_Spec.thy ===== *)
theory Rotation_Spec
  imports Prelude
begin

section \<open>A rotating log, abstractly\<close>

text \<open>
  What a rotating log promises, on the list of its texts with the newest first: a message is
  appended to the newest text or, when it would pass the limit, starts a new one, which pushes the
  oldest text out. The locale \<open>rotating_log\<close> is that contract for an implementation; its lemmas say
  what is kept and how much space it takes.
\<close>

definition log_step :: "nat \<Rightarrow> byte list \<Rightarrow> byte list list \<Rightarrow> byte list list" where
  "log_step mx m v =
     (if mx < length (hd v) + length m \<and> hd v \<noteq> [] then m # butlast v else (hd v @ m) # tl v)"

text \<open>All texts in a row, the oldest first.\<close>

definition history :: "byte list list \<Rightarrow> byte list" where
  "history v = concat (rev v)"

lemma log_step_not_Nil [simp]: "log_step mx m v \<noteq> []"
  by (simp add: log_step_def)

lemma length_log_step: "v \<noteq> [] \<Longrightarrow> length (log_step mx m v) = length v"
  by (cases v) (simp_all add: log_step_def)

lemma history_log_step:
  assumes "v \<noteq> []"
  shows "suffix (history (log_step mx m v)) (history v @ m)"
proof (cases "mx < length (hd v) + length m \<and> hd v \<noteq> []")
  case True
  have "history v = last v @ history (butlast v)"
    using assms by (cases v rule: rev_cases) (simp_all add: history_def)
  moreover have "history (log_step mx m v) = history (butlast v) @ m"
    using True by (simp add: log_step_def history_def)
  ultimately show ?thesis
    by (simp add: suffix_def)
next
  case False
  then have "log_step mx m v = (hd v @ m) # tl v"
    unfolding log_step_def by (rule if_not_P)
  then have "history (log_step mx m v) = history (tl v) @ hd v @ m"
    by (simp add: history_def)
  also have "\<dots> = history v @ m"
    using assms by (cases v) (simp_all add: history_def)
  finally show ?thesis
    by simp
qed

lemma log_step_bounded:
  assumes "v \<noteq> []" and "mx \<le> b" "length m \<le> b" and "\<forall>t\<in>set v. length t \<le> b"
  shows "\<forall>t\<in>set (log_step mx m v). length t \<le> b"
  using assms by (cases v) (auto simp: log_step_def dest: in_set_butlastD)

lemma log_step_newest: "suffix m (hd (log_step mx m v))"
  by (simp add: log_step_def suffix_def)

locale rotating_log =
  fixes valid :: "'s \<Rightarrow> bool" and contents :: "'s \<Rightarrow> byte list list" and limit :: "'s \<Rightarrow> nat"
    and log_msg :: "byte list \<Rightarrow> 's \<Rightarrow> 's" and fits :: "byte list \<Rightarrow> bool"
  assumes log_valid: "valid s \<Longrightarrow> fits m \<Longrightarrow> valid (log_msg m s)"
    and log_contents: "valid s \<Longrightarrow> fits m \<Longrightarrow> contents (log_msg m s) = log_step (limit s) m (contents s)"
    and log_limit: "valid s \<Longrightarrow> fits m \<Longrightarrow> limit (log_msg m s) = limit s"
    and contents_not_Nil: "contents s \<noteq> []"
begin

lemma log_all_valid: "valid s \<Longrightarrow> \<forall>m\<in>set ms. fits m \<Longrightarrow> valid (fold log_msg ms s)"
  by (induction ms arbitrary: s) (simp_all add: log_valid)

lemma log_all_limit: "valid s \<Longrightarrow> \<forall>m\<in>set ms. fits m \<Longrightarrow> limit (fold log_msg ms s) = limit s"
  by (induction ms arbitrary: s) (simp_all add: log_valid log_limit)

text \<open>What is kept is an end of everything that was there and was logged.\<close>

lemma log_all_history:
  "valid s \<Longrightarrow> \<forall>m\<in>set ms. fits m \<Longrightarrow>
   suffix (history (contents (fold log_msg ms s))) (history (contents s) @ concat ms)"
proof (induction ms arbitrary: s)
  case (Cons m ms)
  then have "suffix (history (contents (log_msg m s))) (history (contents s) @ m)"
    by (simp add: log_contents history_log_step contents_not_Nil)
  then have "suffix (history (contents (log_msg m s)) @ concat ms) ((history (contents s) @ m) @ concat ms)"
    by (auto simp: suffix_def)
  moreover have "suffix (history (contents (fold log_msg ms (log_msg m s)))) (history (contents (log_msg m s)) @ concat ms)"
    using Cons by (simp add: log_valid)
  ultimately show ?case
    using suffix_order.order_trans by fastforce
qed simp

text \<open>Each text stays within the larger of the limit and the longest message.\<close>

lemma log_all_bounded:
  "valid s \<Longrightarrow> \<forall>m\<in>set ms. fits m \<and> length m \<le> b \<Longrightarrow> limit s \<le> b \<Longrightarrow> \<forall>t\<in>set (contents s). length t \<le> b \<Longrightarrow>
   \<forall>t\<in>set (contents (fold log_msg ms s)). length t \<le> b"
proof (induction ms arbitrary: s)
  case (Cons m ms)
  have "\<forall>t\<in>set (contents (log_msg m s)). length t \<le> b"
    using Cons.prems log_step_bounded [OF contents_not_Nil, of "limit s" b m s] by (simp add: log_contents)
  moreover have "valid (log_msg m s)" "limit (log_msg m s) \<le> b"
    using Cons.prems by (simp_all add: log_valid log_limit)
  ultimately show ?case
    using Cons.IH [of "log_msg m s"] Cons.prems(2) by simp
qed simp

text \<open>The last message is never lost.\<close>

lemma log_all_newest:
  assumes "valid s" and "\<forall>m\<in>set ms. fits m" and "ms \<noteq> []"
  shows "suffix (last ms) (hd (contents (fold log_msg ms s)))"
proof -
  obtain ks k where ms: "ms = ks @ [k]"
    using assms(3) rev_exhaust by blast
  then show ?thesis
    using assms by (simp add: log_all_valid log_contents log_step_newest)
qed

end

end
