(* ===== verification/Rotating_Props.thy ===== *)
theory Rotating_Props
  imports Rotating_Sink Rotation_Spec
begin

section \<open>Rotation: what the files of a log hold\<close>

text \<open>
  The files of one log, seen as a list of texts with the newest first, follow a simple
  specification: a message is appended to the newest text, or, when it would pass the limit, starts
  a new one, and only the newest \<open>max_files + 1\<close> texts are kept.
\<close>

subsection \<open>System calls that succeed\<close>

definition all_ok :: "world \<Rightarrow> bool" where
  "all_ok w \<longleftrightarrow> list_all (\<lambda>c. failed c = None) (outcomes w)"

definition tick :: "world \<Rightarrow> world" where
  "tick w = snd (next_outcome w)"

lemma tick_frame [simp]:
  "files (tick w) = files w" "dirs (tick w) = dirs w" "streams (tick w) = streams w"
  "stream_at (tick w) d = stream_at w d" "buffered (tick w) d = buffered w d"
  by (simp_all add: tick_def next_outcome_def stream_at_def buffered_def split: list.splits)

lemma all_ok_tick [simp]: "all_ok w \<Longrightarrow> all_ok (tick w)"
  by (auto simp: tick_def next_outcome_def all_ok_def split: list.splits)

lemma all_ok_update [simp]:
  "all_ok (w\<lparr>files := fs\<rparr>) = all_ok w" "all_ok (w\<lparr>dirs := ds\<rparr>) = all_ok w"
  "all_ok (w\<lparr>streams := ss\<rparr>) = all_ok w"
  by (simp_all add: all_ok_def)

lemma next_outcome_ok:
  assumes "all_ok w"
  obtains k where "next_outcome w = (\<lparr>failed = None, drained = k\<rparr>, tick w)"
  using assms by (cases "outcomes w") (auto simp: next_outcome_def tick_def all_ok_def call_outcome.equality
      intro: that [of "drained (hd (outcomes w))"] that [of 0])

lemma calls_ok:
  assumes "all_ok w"
  shows "fopen_s p wb w =
           (Some (length (streams w)),
            (tick w)\<lparr>files := (files w)(p \<mapsto> (if wb then [] else case files w p of None \<Rightarrow> [] | Some b \<Rightarrow> b)),
                     streams := streams w @ [Some \<lparr>stream_path = p, stream_buf = []\<rparr>]\<rparr>)"
    and "fflush_stream d w = (True, drain d (length (buffered w d)) 0 (buffered w d) (tick w))"
    and "remove_path p w =
           (files w p \<noteq> None, if files w p = None then tick w else (tick w)\<lparr>files := (files w)(p := None)\<rparr>)"
    and "rename_path p q w =
           (case files w p of
              None \<Rightarrow> (False, tick w)
            | Some b \<Rightarrow> (True, if p = q then tick w else (tick w)\<lparr>files := (files w)(p := None, q \<mapsto> b)\<rparr>))"
    and "path_exists p w = (files w p \<noteq> None \<or> p \<in> set (dirs w), tick w)"
    and "mkdir p w = (True, (tick w)\<lparr>dirs := p # dirs w\<rparr>)"
proof -
  obtain k where "next_outcome w = (\<lparr>failed = None, drained = k\<rparr>, tick w)"
    using next_outcome_ok [OF assms] .
  note n = this
  show "fopen_s p wb w =
           (Some (length (streams w)),
            (tick w)\<lparr>files := (files w)(p \<mapsto> (if wb then [] else case files w p of None \<Rightarrow> [] | Some b \<Rightarrow> b)),
                     streams := streams w @ [Some \<lparr>stream_path = p, stream_buf = []\<rparr>]\<rparr>)"
    by (simp add: fopen_s_def n)
  show "fflush_stream d w = (True, drain d (length (buffered w d)) 0 (buffered w d) (tick w))"
    by (simp add: fflush_stream_def n Let_def)
  show "remove_path p w =
           (files w p \<noteq> None, if files w p = None then tick w else (tick w)\<lparr>files := (files w)(p := None)\<rparr>)"
    by (simp add: remove_path_def n)
  show "rename_path p q w =
           (case files w p of
              None \<Rightarrow> (False, tick w)
            | Some b \<Rightarrow> (True, if p = q then tick w else (tick w)\<lparr>files := (files w)(p := None, q \<mapsto> b)\<rparr>))"
    by (simp add: rename_path_def n split: option.splits)
  show "path_exists p w = (files w p \<noteq> None \<or> p \<in> set (dirs w), tick w)"
    by (simp add: path_exists_def n)
  show "mkdir p w = (True, (tick w)\<lparr>dirs := p # dirs w\<rparr>)"
    by (simp add: mkdir_def n)
qed


lemma drain_open:
  assumes "stream_at w d = Some st" and "files w (stream_path st) = Some c"
  shows "drain d k keep buf w =
           w\<lparr>files := (files w)(stream_path st \<mapsto> c @ take k buf),
             streams := (streams w)[d := Some (st\<lparr>stream_buf := take keep (drop k buf)\<rparr>)]\<rparr>"
  using assms by (simp add: drain_def append_file_def)

lemma stream_at_Some: "stream_at w d = Some st \<longleftrightarrow> d < length (streams w) \<and> streams w ! d = Some st"
  by (auto simp: stream_at_def)

text \<open>
  Whatever the calls do, \<open>create_dir\<close> leaves files and streams alone and only adds directories
  that are prefixes of its argument.
\<close>

definition dirs_only :: "nat \<Rightarrow> world \<Rightarrow> world \<Rightarrow> bool" where
  "dirs_only n w w' \<longleftrightarrow> files w' = files w \<and> streams w' = streams w \<and> (all_ok w \<longrightarrow> all_ok w')
     \<and> set (dirs w') \<subseteq> set (dirs w) \<union> {d. length d \<le> n}"

lemma dirs_only_refl [simp]: "dirs_only n w w"
  by (simp add: dirs_only_def)

lemma dirs_only_trans: "dirs_only n u v \<Longrightarrow> dirs_only n v w \<Longrightarrow> dirs_only n u w"
  by (auto simp: dirs_only_def)

lemma next_outcome_tick: obtains c where "next_outcome w = (c, tick w)"
  by (metis tick_def prod.collapse)

lemma path_exists_dirs_only: "dirs_only n w (snd (path_exists p w))"
  by (rule next_outcome_tick [of w]) (simp add: path_exists_def dirs_only_def)

lemma mkdir_dirs_only: "length p \<le> n \<Longrightarrow> dirs_only n w (snd (mkdir p w))"
  by (rule next_outcome_tick [of w]) (auto simp: mkdir_def dirs_only_def)

lemma create_dir_loop_dirs_only: "dirs_only (length path) w (snd (create_dir_loop path offset w))"
proof (induction path offset w rule: create_dir_loop.induct)
  case (1 path offset w)
  define token where
    "token = (case find_from (CHR ''/'') offset path of Some i \<Rightarrow> i | None \<Rightarrow> length path)"
  define sub where "sub = take token path"
  define res where "res = (if sub = [] then (True, w)
      else let (there, w1) = path_exists sub w in if there then (True, w1) else mkdir sub w1)"
  have "dirs_only (length path) w (snd res)"
    using path_exists_dirs_only [of "length path" w sub]
    by (auto simp: res_def sub_def split_beta Let_def intro: dirs_only_trans [OF _ mkdir_dirs_only])
  moreover have "dirs_only (length path) (snd res) (snd (create_dir_loop path (token + 1) (snd res)))"
    if "fst res" "token + 1 < length path"
    using 1 [OF token_def sub_def, of res "fst res" "snd res"] that by (simp add: res_def)
  ultimately show ?case
    unfolding create_dir_loop.simps [of path offset w]
    by (auto simp: Let_def split_beta res_def sub_def token_def intro: dirs_only_trans)
qed

lemma create_dir_dirs_only: "dirs_only (length path) w (snd (create_dir path w))"
  using path_exists_dirs_only [of "length path" w path]
  by (auto simp: create_dir_def split_beta Let_def intro: dirs_only_trans [OF _ create_dir_loop_dirs_only])

subsection \<open>What an operation leaves alone\<close>

text \<open>
  \<open>frame P f f' n w w'\<close>: between \<open>w\<close> and \<open>w'\<close> only files in \<open>P\<close> changed, the stream \<open>f\<close> was written,
  kept or closed, a fresh stream \<open>f'\<close> may have been opened instead, every other stream is as it was,
  and new directories have names of at most \<open>n\<close> characters.
\<close>

definition frame :: "string set \<Rightarrow> nat option \<Rightarrow> nat option \<Rightarrow> nat \<Rightarrow> world \<Rightarrow> world \<Rightarrow> bool" where
  "frame P f f' n w w' \<longleftrightarrow>
     (\<forall>p. p \<notin> P \<longrightarrow> files w' p = files w p)
     \<and> (\<forall>d. f \<noteq> Some d \<and> f' \<noteq> Some d \<longrightarrow> stream_at w' d = stream_at w d)
     \<and> (\<forall>d. f' = Some d \<and> f \<noteq> Some d \<longrightarrow> stream_at w d = None)
     \<and> (\<forall>d. f = Some d \<and> f' \<noteq> Some d \<longrightarrow> stream_at w' d = None)
     \<and> set (dirs w') \<subseteq> set (dirs w) \<union> {d. length d \<le> n} \<and> (all_ok w \<longrightarrow> all_ok w')"

lemma frame_refl [simp]: "frame P f f n w w"
  by (auto simp: frame_def)

lemma frame_trans [trans]:
  assumes "frame P f f' n u v" and "frame P f' f'' n v w"
  shows "frame P f f'' n u w"
proof -
  have "stream_at w d = stream_at u d" if "f \<noteq> Some d" "f'' \<noteq> Some d" for d
    using assms that unfolding frame_def by (cases "f' = Some d") auto
  moreover have "stream_at u d = None" if "f'' = Some d" "f \<noteq> Some d" for d
    using assms that unfolding frame_def by (cases "f' = Some d") auto
  moreover have "stream_at w d = None" if "f = Some d" "f'' \<noteq> Some d" for d
    using assms that unfolding frame_def by (cases "f' = Some d") auto
  moreover have "files w p = files u p" if "p \<notin> P" for p
    using assms that by (simp add: frame_def)
  moreover have "set (dirs w) \<subseteq> set (dirs u) \<union> {d. length d \<le> n}" "all_ok u \<longrightarrow> all_ok w"
    using assms by (auto simp: frame_def)
  ultimately show ?thesis
    by (simp add: frame_def)
qed

text \<open>\<open>uses P f w\<close>: the stream \<open>f\<close>, if it is open, writes to a file in \<open>P\<close>.\<close>

definition uses :: "string set \<Rightarrow> nat option \<Rightarrow> world \<Rightarrow> bool" where
  "uses P f w \<longleftrightarrow> (\<forall>d st. f = Some d \<and> stream_at w d = Some st \<longrightarrow> stream_path st \<in> P)"

lemma uses_None [simp]: "uses P None w"
  by (simp add: uses_def)

lemma stream_at_update:
  "stream_at (w\<lparr>streams := (streams w)[d := x]\<rparr>) e =
     (if e = d \<and> d < length (streams w) then x else stream_at w e)"
  by (simp add: stream_at_def)

lemma stream_at_files [simp]: "stream_at (w\<lparr>files := fs\<rparr>) d = stream_at w d"
  by (simp add: stream_at_def)

lemma frame_tick [simp]: "frame P f f n w (tick w)"
  by (auto simp: frame_def)

lemma frame_files: "(\<And>p. p \<notin> P \<Longrightarrow> fs p = files w p) \<Longrightarrow> frame P f f n w (w\<lparr>files := fs\<rparr>)"
  by (auto simp: frame_def)

lemma frame_drain:
  assumes "uses P (Some d) w"
  shows "frame P (Some d) (Some d) n w (drain d k keep buf w)"
  using assms
  by (auto simp: drain_def uses_def frame_def append_file_def stream_at_update [of "w\<lparr>files := _\<rparr>", simplified]
      split: option.splits)

lemma uses_tick [simp]: "uses P f (tick w) = uses P f w"
  by (simp add: uses_def)

lemma frame_fwrite: "uses P (Some d) w \<Longrightarrow> frame P (Some d) (Some d) n w (snd (fwrite bs d w))"
  by (rule next_outcome_tick [of w])
     (auto simp: fwrite_def Let_def intro!: frame_trans [OF frame_tick frame_drain])

lemma frame_fflush_stream:
  "uses P (Some d) w \<Longrightarrow> frame P (Some d) (Some d) n w (snd (fflush_stream d w))"
  by (rule next_outcome_tick [of w])
     (auto simp: fflush_stream_def Let_def intro!: frame_trans [OF frame_tick frame_drain] split: option.splits)

lemma frame_forget: "frame P (Some d) None n w (w\<lparr>streams := (streams w)[d := None]\<rparr>)"
  by (auto simp: frame_def stream_at_update stream_at_def)

lemma frame_fclose: "uses P (Some d) w \<Longrightarrow> frame P (Some d) None n w (fclose d w)"
  unfolding fclose_def Let_def by (rule frame_trans [OF frame_fflush_stream frame_forget])

lemma frame_fopen: "p \<in> P \<Longrightarrow> frame P None (fst (fopen_s p wb w)) n w (snd (fopen_s p wb w))"
  by (rule next_outcome_tick [of w]) (auto simp: fopen_s_def frame_def stream_at_def nth_append)

lemma frame_remove: "p \<in> P \<Longrightarrow> frame P f f n w (snd (remove_path p w))"
  by (rule next_outcome_tick [of w])
     (auto simp: remove_path_def intro!: frame_trans [OF frame_tick frame_files])

lemma frame_rename: "p \<in> P \<Longrightarrow> q \<in> P \<Longrightarrow> frame P f f n w (snd (rename_path p q w))"
  by (rule next_outcome_tick [of w])
     (auto simp: rename_path_def intro!: frame_trans [OF frame_tick frame_files] split: option.splits)

lemma frame_path_exists: "frame P f f n w (snd (path_exists p w))"
  by (rule next_outcome_tick [of w]) (simp add: path_exists_def)

lemma frame_dirs_only: "dirs_only n w w' \<Longrightarrow> frame P f f n w w'"
  by (auto simp: dirs_only_def frame_def stream_at_def)

lemma fopen_stream:
  "fst (fopen_s p wb w) = Some d \<Longrightarrow> stream_at (snd (fopen_s p wb w)) d = Some \<lparr>stream_path = p, stream_buf = []\<rparr>"
  by (rule next_outcome_tick [of w]) (auto simp: fopen_s_def stream_at_def)

lemma frame_truncate: "p \<in> P \<Longrightarrow> frame P None None n w (snd (truncate_file p w))"
proof (cases "fst (fopen_s p True w)")
  case None
  then show "p \<in> P \<Longrightarrow> ?thesis"
    using frame_fopen [of p P True w n] by (simp add: truncate_file_def split_beta)
next
  case (Some d)
  assume p: "p \<in> P"
  have "uses P (Some d) (snd (fopen_s p True w))"
    using fopen_stream [OF Some] p by (simp add: uses_def)
  then show ?thesis
    using frame_trans [OF _ frame_fclose, of P None d n w] frame_fopen [OF p, of True w n]
    by (simp add: truncate_file_def split_beta Some)
qed

lemma frame_create_dir: "length path \<le> n \<Longrightarrow> frame P f f n w (snd (create_dir path w))"
  using create_dir_dirs_only [of path w]
  by (intro frame_dirs_only) (auto simp: dirs_only_def)

text \<open>One round of the loop of \<open>open\<close>: the part before the file is opened for appending.\<close>

definition prepare :: "string \<Rightarrow> bool \<Rightarrow> world \<Rightarrow> bool \<times> world" where
  "prepare p trunc w =
     (let w1 = snd (create_dir (dir_name p) w) in if trunc then truncate_file p w1 else (True, w1))"

lemma open_loop_Suc:
  "open_loop (Suc t) p trunc w =
     (if \<not> fst (prepare p trunc w) then open_loop t p trunc (snd (prepare p trunc w))
      else if fst (fopen_s p False (snd (prepare p trunc w))) \<noteq> None then fopen_s p False (snd (prepare p trunc w))
      else open_loop t p trunc (snd (fopen_s p False (snd (prepare p trunc w)))))"
  by (simp add: prepare_def split_beta Let_def)

declare open_loop.simps(2) [simp del]

lemma frame_prepare:
  assumes "p \<in> P" and "length (dir_name p) \<le> n"
  shows "frame P None None n w (snd (prepare p trunc w))"
  using frame_create_dir [OF assms(2), of P None w] frame_truncate [OF assms(1), of n]
  by (auto simp: prepare_def Let_def intro: frame_trans)

lemma frame_open_loop:
  assumes "p \<in> P" and "length (dir_name p) \<le> n"
  shows "frame P None (fst (open_loop t p trunc w)) n w (snd (open_loop t p trunc w))"
proof (induction t arbitrary: w)
  case 0
  show ?case by simp
next
  case (Suc t)
  let ?w = "snd (prepare p trunc w)"
  have o: "frame P None (fst (fopen_s p False ?w)) n w (snd (fopen_s p False ?w))"
    by (rule frame_trans [OF frame_prepare [OF assms] frame_fopen [OF assms(1)]])
  then have "frame P None None n w (snd (fopen_s p False ?w))" if "fst (fopen_s p False ?w) = None"
    using that by simp
  with o show ?case
    by (auto simp: open_loop_Suc intro: frame_trans [OF _ Suc.IH] frame_prepare [OF assms])
qed

lemma open_loop_stream:
  "fst (open_loop t p trunc w) = Some d \<Longrightarrow>
   stream_at (snd (open_loop t p trunc w)) d = Some \<lparr>stream_path = p, stream_buf = []\<rparr>"
proof (induction t arbitrary: w)
  case 0
  then show ?case by simp
next
  case (Suc t)
  then show ?case
    by (auto simp: open_loop_Suc fopen_stream split: if_splits)
qed

lemma frame_fh_close: "uses P (fd fh) w \<Longrightarrow> frame P (fd fh) None n w (snd (fh_close fh w))"
  by (auto simp: fh_close_def frame_fclose split: option.splits)

lemma fh_close_None [simp]: "fd fh = None \<Longrightarrow> fh_close fh w = (fh, w)"
  by (simp add: fh_close_def)

lemma fh_close_fields [simp]: "fd (fst (fh_close fh w)) = None" "filename (fst (fh_close fh w)) = filename fh"
  by (simp_all add: fh_close_def split: option.splits)

lemma fh_open_fields:
  "fh_open p trunc fh w =
     (if fst (open_loop open_tries p trunc (snd (fh_close fh w))) = None then Throws (Open_failed p) else Returns,
      \<lparr>filename = p, fd = fst (open_loop open_tries p trunc (snd (fh_close fh w)))\<rparr>,
      snd (open_loop open_tries p trunc (snd (fh_close fh w))))"
  by (simp add: fh_open_def split_beta Let_def)

lemma frame_rotate_loop:
  assumes "\<And>i. i \<le> m \<Longrightarrow> calc_filename base i \<in> P"
  shows "frame P f f n w (snd (rotate_loop base m w))"
  using assms
proof (induction m arbitrary: w)
  case 0
  show ?case by simp
next
  case (Suc m)
  have rename: "frame P f f n w v \<Longrightarrow>
      frame P f f n w (snd (rename_file (calc_filename base m) (calc_filename base (Suc m)) v))" for v
    unfolding rename_file_def
    by (blast intro: frame_trans [OF _ frame_remove] frame_trans [OF _ frame_rename] Suc.prems Suc_n_not_le_n
        le_SucI order_refl)
  have rest: "frame P f f n w v \<Longrightarrow> frame P f f n w (snd (rotate_loop base m v))" for v
    by (rule frame_trans [OF _ Suc.IH]) (simp_all add: Suc.prems)
  show ?case
    by (auto simp: split_beta Let_def intro: rename rest frame_path_exists)
qed

lemma frame_rotate:
  assumes "uses P (fd (helper s)) w" and "\<And>i. i \<le> max_files s \<Longrightarrow> calc_filename (base_filename s) i \<in> P"
    and "filename (helper s) = base_filename s" and "length (dir_name (base_filename s)) \<le> n"
  shows "frame P (fd (helper s)) (fd (helper (fst (snd (rotate_files s w))))) n w (snd (snd (rotate_files s w)))"
proof -
  let ?w = "snd (rotate_loop (base_filename s) (max_files s) (snd (fh_close (helper s) w)))"
  have base: "base_filename s \<in> P"
    using assms(2) [of 0] by simp
  have w: "frame P (fd (helper s)) None n w ?w"
    by (rule frame_trans [OF frame_fh_close frame_rotate_loop]) (simp_all add: assms)
  have reopen: "frame P None (fd (fst (snd (fh_reopen True fh v)))) n v (snd (snd (fh_reopen True fh v)))"
    if "fd fh = None" "filename fh = base_filename s" for fh v
    using that frame_open_loop [OF base assms(4), of open_tries True v]
    by (simp add: fh_reopen_def fh_open_fields fh_close_def)
  show ?thesis
    using frame_trans [OF w reopen [of "fst (fh_close (helper s) w)"]] assms(3)
    by (simp add: rotate_files_def split_beta Let_def split: option.splits)
qed

subsection \<open>Rotation without failures\<close>

lemma rename_file_ok:
  assumes "all_ok w" and "files w p = Some b" and "p \<noteq> q"
  obtains w' where "rename_file p q w = (True, w')" and "files w' = (files w)(p := None, q \<mapsto> b)"
    and "streams w' = streams w" and "dirs w' = dirs w" and "all_ok w'"
proof
  let ?w = "snd (remove_path q w)"
  have w: "all_ok ?w" "files ?w = (files w)(q := None)" "streams ?w = streams w" "dirs ?w = dirs w"
    using assms(1) by (auto simp: calls_ok)
  then have "rename_path p q ?w = (True, (tick ?w)\<lparr>files := (files ?w)(p := None, q \<mapsto> b)\<rparr>)"
    using assms by (simp add: calls_ok)
  then show "rename_file p q w = (True, (tick ?w)\<lparr>files := (files ?w)(p := None, q \<mapsto> b)\<rparr>)"
    by (simp add: rename_file_def)
  show "files ((tick ?w)\<lparr>files := (files ?w)(p := None, q \<mapsto> b)\<rparr>) = (files w)(p := None, q \<mapsto> b)"
    using w by auto
qed (use assms in \<open>auto simp: calls_ok\<close>)

text \<open>No gaps: where a numbered file is there, so are all files before it.\<close>

definition gap_free :: "string \<Rightarrow> nat \<Rightarrow> world \<Rightarrow> bool" where
  "gap_free base m w \<longleftrightarrow>
     (\<forall>i<m. files w (calc_filename base i) = None \<longrightarrow> files w (calc_filename base (Suc i)) = None)"

primrec shift_files :: "string \<Rightarrow> nat \<Rightarrow> (string \<rightharpoonup> byte list) \<Rightarrow> (string \<rightharpoonup> byte list)" where
  "shift_files base 0 fs = fs"
| "shift_files base (Suc i) fs =
     shift_files base i (fs(calc_filename base i := None, calc_filename base (Suc i) := fs (calc_filename base i)))"

lemma shift_files_above: "m < j \<Longrightarrow> shift_files base m fs (calc_filename base j) = fs (calc_filename base j)"
  by (induction m arbitrary: fs) auto

lemma shift_files_Suc: "j < m \<Longrightarrow> shift_files base m fs (calc_filename base (Suc j)) = fs (calc_filename base j)"
  by (induction m arbitrary: fs) (auto simp: less_Suc_eq shift_files_above)

lemma shift_files_base: "0 < m \<Longrightarrow> shift_files base m fs base = None"
proof (induction m arbitrary: fs)
  case (Suc m)
  then show ?case
    using calc_filename_inj [of base 0 "Suc 0"] by (cases "m = 0") auto
qed simp

lemma rotate_loop_ok:
  assumes "all_ok w" and "gap_free base m w" and "calc_filename base ` {..m} \<inter> set (dirs w) = {}"
  shows "\<exists>w'. rotate_loop base m w = (None, w') \<and> all_ok w' \<and> streams w' = streams w \<and> dirs w' = dirs w
           \<and> files w' = shift_files base m (files w)"
  using assms
proof (induction m arbitrary: w)
  case 0
  then show ?case by simp
next
  case (Suc m)
  let ?c = "calc_filename base"
  have nd: "?c m \<notin> set (dirs w)" "?c ` {..m} \<inter> set (dirs w) = {}"
    using Suc.prems(3) by (auto simp: atMost_Suc)
  obtain v where v: "files v = (files w)(?c m := None, ?c (Suc m) := files w (?c m))" "all_ok v"
      "streams v = streams w" "dirs v = dirs w" "rotate_loop base (Suc m) w = rotate_loop base m v"
  proof (cases "files w (?c m)")
    case None
    then have "files w (?c (Suc m)) = None"
      using Suc.prems(2) by (simp add: gap_free_def)
    then show ?thesis
      using None nd(1) Suc.prems(1) by (intro that [of "tick w"]) (auto simp: calls_ok)
  next
    case (Some b)
    obtain v where "rename_file (?c m) (?c (Suc m)) (tick w) = (True, v)"
        "files v = (files w)(?c m := None, ?c (Suc m) \<mapsto> b)" "streams v = streams w" "dirs v = dirs w" "all_ok v"
      by (rule rename_file_ok [of "tick w" "?c m" b "?c (Suc m)"]) (use Some Suc.prems(1) in simp_all)
    then show ?thesis
      using Some Suc.prems(1) by (intro that [of v]) (simp_all add: calls_ok)
  qed
  have "gap_free base m v"
    using Suc.prems(2) by (auto simp: gap_free_def v(1))
  from Suc.IH [OF v(2) this] show ?case
    using nd(2) by (simp only: v(1,3-5) shift_files.simps)
qed


text \<open>Opening: the file is there afterwards, emptied when asked for, with nothing buffered.\<close>

lemma truncate_file_ok:
  assumes "all_ok w"
  shows "fst (truncate_file p w) \<and> all_ok (snd (truncate_file p w))
         \<and> files (snd (truncate_file p w)) = (files w)(p \<mapsto> [])"
proof -
  let ?w = "snd (fopen_s p True w)" and ?d = "length (streams w)"
  have w: "all_ok ?w" "files ?w = (files w)(p \<mapsto> [])" "fst (fopen_s p True w) = Some ?d"
    "stream_at ?w ?d = Some \<lparr>stream_path = p, stream_buf = []\<rparr>"
    using assms by (simp_all add: calls_ok stream_at_def)
  then have b: "buffered ?w ?d = []"
    by (simp add: buffered_def)
  have "files (fclose ?d ?w) = files ?w \<and> all_ok (fclose ?d ?w)"
    using w drain_open [of "tick ?w" ?d "\<lparr>stream_path = p, stream_buf = []\<rparr>" "[]" 0 0 "[]"]
    by (simp add: fclose_def calls_ok b fun_upd_idem)
  then show ?thesis
    using w by (simp add: truncate_file_def split_beta)
qed

lemma open_loop_ok:
  assumes "all_ok w"
  shows "\<exists>d. fst (open_loop (Suc t) p trunc w) = Some d
           \<and> files (snd (open_loop (Suc t) p trunc w))
             = (files w)(p \<mapsto> (if trunc then [] else case files w p of None \<Rightarrow> [] | Some b \<Rightarrow> b))"
proof -
  let ?v = "snd (create_dir (dir_name p) w)"
  have v: "all_ok ?v" "files ?v = files w"
    using create_dir_dirs_only [of "dir_name p" w] assms by (simp_all add: dirs_only_def)
  have pr: "fst (prepare p trunc w)" "all_ok (snd (prepare p trunc w))"
    "files (snd (prepare p trunc w)) = (if trunc then (files w)(p \<mapsto> []) else files w)"
    using v truncate_file_ok [of ?v p] by (simp_all add: prepare_def Let_def)
  show ?thesis
    using pr by (simp add: open_loop_Suc calls_ok fun_upd_idem)
qed


subsection \<open>The texts of a log\<close>

definition content :: "world \<Rightarrow> string \<Rightarrow> byte list" where
  "content w p = (case files w p of None \<Rightarrow> [] | Some b \<Rightarrow> b)"

definition pending :: "rotating_sink \<Rightarrow> world \<Rightarrow> byte list" where
  "pending s w = (case fd (helper s) of None \<Rightarrow> [] | Some d \<Rightarrow> buffered w d)"

text \<open>The texts of the log of \<open>s\<close>, newest first; the newest counts with what is still buffered.\<close>

definition view :: "rotating_sink \<Rightarrow> world \<Rightarrow> byte list list" where
  "view s w =
     (content w (base_filename s) @ pending s w)
     # map (\<lambda>i. content w (calc_filename (base_filename s) (Suc i))) [0..<max_files s]"

definition log_files :: "rotating_sink \<Rightarrow> string set" where
  "log_files s = calc_filename (base_filename s) ` {..max_files s}"

definition sink_open :: "rotating_sink \<Rightarrow> world \<Rightarrow> bool" where
  "sink_open s w \<longleftrightarrow>
     all_ok w \<and> base_filename s \<noteq> [] \<and> filename (helper s) = base_filename s
     \<and> (\<exists>d buf. fd (helper s) = Some d
                \<and> stream_at w d = Some \<lparr>stream_path = base_filename s, stream_buf = buf\<rparr>)
     \<and> files w (base_filename s) \<noteq> None
     \<and> gap_free (base_filename s) (max_files s) w \<and> log_files s \<inter> set (dirs w) = {}"

definition sink_ok :: "rotating_sink \<Rightarrow> world \<Rightarrow> bool" where
  "sink_ok s w \<longleftrightarrow>
     sink_open s w \<and> current_size s = length (hd (view s w)) \<and> current_size s < 2 ^ 63 \<and> max_size s < 2 ^ 63"

lemma content_update: "content (w\<lparr>files := fs\<rparr>) p = (case fs p of None \<Rightarrow> [] | Some b \<Rightarrow> b)"
  by (simp add: content_def)

lemma content_tick [simp]: "content (tick w) p = content w p"
  by (simp add: content_def)

lemma sink_openE:
  assumes "sink_open s w"
  obtains d buf b where "fd (helper s) = Some d" "files w (base_filename s) = Some b"
    "stream_at w d = Some \<lparr>stream_path = base_filename s, stream_buf = buf\<rparr>"
    "buffered w d = buf" "view s w = (b @ buf) # tl (view s w)"
  using assms by (auto simp: sink_open_def buffered_def view_def content_def pending_def)

lemma sink_open_tick [simp]: "sink_open s w \<Longrightarrow> sink_open s (tick w)"
  by (simp add: sink_open_def gap_free_def)

lemma view_tick [simp]: "view s (tick w) = view s w"
  by (simp add: view_def pending_def split: option.split)

text \<open>Moving bytes from the buffer of the log to its file changes nothing in the list of texts.\<close>

lemma drain_view:
  assumes "sink_open s w" and "fd (helper s) = Some d"
  shows "sink_open s (drain d k (length bs) bs w)
         \<and> view s (drain d k (length bs) bs w) = (content w (base_filename s) @ bs) # tl (view s w)
         \<and> pending s (drain d k (length bs) bs w) = drop k bs"
proof -
  obtain buf b where b: "files w (base_filename s) = Some b"
    "stream_at w d = Some \<lparr>stream_path = base_filename s, stream_buf = buf\<rparr>"
    using sink_openE [OF assms(1)] assms(2) by (metis option.inject)
  let ?w = "drain d k (length bs) bs w"
  have w: "?w = w\<lparr>files := (files w)(base_filename s \<mapsto> b @ take k bs),
              streams := (streams w)[d := Some \<lparr>stream_path = base_filename s, stream_buf = drop k bs\<rparr>]\<rparr>"
    using drain_open [OF b(2), of b k "length bs" bs] b(1) by simp
  have st: "stream_at ?w d = Some \<lparr>stream_path = base_filename s, stream_buf = drop k bs\<rparr>"
    using b(2) by (simp add: w stream_at_def split: if_splits)
  have "calc_filename (base_filename s) (Suc i) \<noteq> base_filename s" for i
    using calc_filename_inj [of "base_filename s" "Suc i" 0] by simp
  then show ?thesis
    using assms b(1) st calc_filename_inj [of "base_filename s" _ 0]
    by (auto simp: sink_open_def view_def pending_def buffered_def content_def gap_free_def w)
qed


lemma drain_all: "drain d (length bs) 0 bs w = drain d (length bs) (length bs) bs w"
  by (simp add: drain_def split: option.split)

lemma sink_flush_ok:
  assumes "sink_open s w"
  shows "\<exists>w'. sink_flush s w = (Returns, w') \<and> sink_open s w' \<and> view s w' = view s w
           \<and> content w' (base_filename s) = hd (view s w) \<and> pending s w' = []"
proof -
  obtain d buf b where d: "fd (helper s) = Some d" "files w (base_filename s) = Some b"
    "buffered w d = buf" "view s w = (b @ buf) # tl (view s w)"
    by (rule sink_openE [OF assms])
  let ?w = "drain d (length buf) (length buf) buf (tick w)"
  have w: "sink_open s ?w \<and> view s ?w = view s w \<and> pending s ?w = []"
    using drain_view [OF sink_open_tick [OF assms] d(1), of "length buf" buf] d(2,4)
    by (simp add: content_def)
  moreover have "content ?w (base_filename s) = hd (view s ?w)"
    using w by (simp add: view_def)
  moreover have "sink_flush s w = (Returns, ?w)"
    using assms by (simp add: sink_flush_def fh_flush_def fflush_def d(1,3) calls_ok drain_all sink_open_def)
  ultimately show ?thesis
    by auto
qed

lemma write_formatted_ok:
  assumes "sink_open s w"
  shows "\<exists>w'. write_formatted m n s w = (Returns, s\<lparr>current_size := n\<rparr>, w')
           \<and> sink_open (s\<lparr>current_size := n\<rparr>) w'
           \<and> view (s\<lparr>current_size := n\<rparr>) w' = (hd (view s w) @ m) # tl (view s w)"
proof -
  obtain d buf b where d: "fd (helper s) = Some d" "files w (base_filename s) = Some b"
    "buffered w d = buf" "view s w = (b @ buf) # tl (view s w)"
    by (rule sink_openE [OF assms])
  have "all_ok w"
    using assms by (simp add: sink_open_def)
  then obtain k where k: "next_outcome w = (\<lparr>failed = None, drained = k\<rparr>, tick w)"
    by (rule next_outcome_ok)
  let ?w = "drain d k (length (buf @ m)) (buf @ m) (tick w)"
  have "write_formatted m n s w = (Returns, s\<lparr>current_size := n\<rparr>, ?w)"
    by (simp add: write_formatted_def fh_write_def d(1,3) fwrite_def k Let_def)
  moreover have "sink_open s ?w" "view s ?w = (hd (view s w) @ m) # tl (view s w)"
    using drain_view [OF sink_open_tick [OF assms] d(1), of k "buf @ m"] d(2,4)
    by (simp_all add: content_def) (metis append_assoc list.sel(1))
  moreover have "sink_open (s\<lparr>current_size := n\<rparr>) v = sink_open s v" "view (s\<lparr>current_size := n\<rparr>) v = view s v" for v
    by (simp_all add: sink_open_def view_def log_files_def pending_def)
  ultimately show ?thesis
    by simp
qed

lemma view_shift:
  assumes "files w' = (shift_files (base_filename s) (max_files s) (files w))(base_filename s \<mapsto> [])"
    and "base_filename s' = base_filename s" and "max_files s' = max_files s"
    and "pending s w = []" and "pending s' w' = []"
  shows "view s' w' = [] # butlast (view s w)"
proof -
  let ?c = "calc_filename (base_filename s)" and ?n = "max_files s"
  have "view s w = map (\<lambda>i. content w (?c i)) [0..<Suc ?n]"
    using assms(4) by (simp add: view_def map_upt_Suc del: upt_Suc)
  then have "butlast (view s w) = map (\<lambda>i. content w (?c i)) [0..<?n]"
    by simp
  moreover have "content w' (?c (Suc i)) = content w (?c i)" if "i < ?n" for i
    using that calc_filename_inj [of "base_filename s" "Suc i" 0]
    by (simp add: content_def assms(1) shift_files_Suc)
  ultimately show ?thesis
    using assms by (simp add: view_def content_def)
qed


lemma dir_name_shorter: "p \<noteq> [] \<Longrightarrow> length (dir_name p) < length p"
proof (cases "find_last (CHR ''/'') p")
  case (Some pos)
  assume "p \<noteq> []"
  moreover have "pos \<le> length p - 1"
    using Some by (auto simp: find_last_def)
  ultimately show ?thesis
    using Some by (cases p) (auto simp: dir_name_def)
qed (simp add: dir_name_def)

lemma calc_filename_longer: "length base \<le> length (calc_filename base i)"
  using arg_cong [OF split_by_extension_append [of base], of length]
  by (simp add: calc_filename_def split_beta)

lemma log_files_not_dirs:
  assumes "frame P f f' (length (dir_name (base_filename s))) w w'" and "log_files s \<inter> set (dirs w) = {}"
    and "base_filename s \<noteq> []"
  shows "log_files s \<inter> set (dirs w') = {}"
proof -
  have "length (dir_name (base_filename s)) < length p" if "p \<in> log_files s" for p
    using that less_le_trans [OF dir_name_shorter [OF assms(3)] calc_filename_longer]
    by (auto simp: log_files_def)
  moreover have "set (dirs w') \<subseteq> set (dirs w) \<union> {d. length d \<le> length (dir_name (base_filename s))}"
    using assms(1) by (simp add: frame_def)
  ultimately show ?thesis
    using assms(2) by fastforce
qed

lemma gap_free_shift:
  assumes "gap_free base m w" and "files w' = (shift_files base m (files w))(base \<mapsto> [])"
  shows "gap_free base m w'"
  unfolding gap_free_def
proof (intro allI impI)
  fix i assume i: "i < m" "files w' (calc_filename base i) = None"
  have "calc_filename base (Suc j) \<noteq> base" for j
    using calc_filename_inj [of base "Suc j" 0] by simp
  then have at: "files w' (calc_filename base (Suc j)) = files w (calc_filename base j)" if "j < m" for j
    using that by (simp add: assms(2) shift_files_Suc)
  show "files w' (calc_filename base (Suc i)) = None"
    using i assms(1) at [of i] at [of "i - 1"] by (cases i) (auto simp: gap_free_def assms(2))
qed

lemma rotate_ok:
  assumes "sink_open s w"
  shows "\<exists>fh w'. rotate_files s w = (Returns, s\<lparr>helper := fh\<rparr>, w') \<and> sink_open (s\<lparr>helper := fh\<rparr>) w'
           \<and> view (s\<lparr>helper := fh\<rparr>) w' = [] # butlast (view s w)"
proof -
  let ?b = "base_filename s" and ?n = "max_files s"
  obtain d where d: "fd (helper s) = Some d"
    using assms by (auto simp: sink_open_def)
  obtain v where v: "sink_flush s w = (Returns, v)" "sink_open s v" "view s v = view s w" "pending s v = []"
    using sink_flush_ok [OF assms] by auto
  let ?v = "v\<lparr>streams := (streams v)[d := None]\<rparr>"
  have close: "fh_close (helper s) w = ((helper s)\<lparr>fd := None\<rparr>, ?v)"
    using v(1) d by (simp add: fh_close_def fclose_def sink_flush_def fh_flush_def fflush_def split_beta Let_def)
  have "all_ok ?v" "gap_free ?b ?n ?v" "calc_filename ?b ` {..?n} \<inter> set (dirs ?v) = {}"
    using v(2) by (simp_all add: sink_open_def gap_free_def log_files_def)
  from rotate_loop_ok [OF this] obtain u where u: "rotate_loop ?b ?n ?v = (None, u)" "all_ok u"
      "dirs u = dirs v" "files u = shift_files ?b ?n (files v)"
    by auto
  let ?r = "open_loop open_tries ?b True u"
  let ?s = "s\<lparr>helper := \<lparr>filename = ?b, fd = fst ?r\<rparr>\<rparr>"
  obtain e where e: "fst ?r = Some e" "files (snd ?r) = (files u)(?b \<mapsto> [])"
    using open_loop_ok [OF u(2), of 4 ?b True] by (auto simp: open_tries_def)
  have fr: "frame {?b} None (fst ?r) (length (dir_name ?b)) u (snd ?r)"
    by (rule frame_open_loop) simp_all
  have st: "stream_at (snd ?r) e = Some \<lparr>stream_path = ?b, stream_buf = []\<rparr>"
    by (rule open_loop_stream [OF e(1)])
  have rot: "rotate_files s w = (Returns, ?s, snd ?r)"
    using assms e(1) by (simp add: rotate_files_def close u(1) fh_reopen_def fh_open_fields sink_open_def)
  have "log_files s \<inter> set (dirs (snd ?r)) = {}"
    by (rule log_files_not_dirs [OF fr]) (use v(2) u(3) in \<open>simp_all add: sink_open_def\<close>)
  moreover have "all_ok (snd ?r)"
    using fr u(2) by (simp add: frame_def)
  moreover have "gap_free ?b ?n (snd ?r)"
    by (rule gap_free_shift [of _ _ v]) (use v(2) e(2) u(4) in \<open>simp_all add: sink_open_def\<close>)
  ultimately have "sink_open ?s (snd ?r)"
    using v(2) e st by (simp add: sink_open_def log_files_def)
  moreover have "pending ?s (snd ?r) = []"
    by (simp add: pending_def e(1) buffered_def st)
  then have "view ?s (snd ?r) = [] # butlast (view s v)"
    by (intro view_shift) (simp_all add: e u(4) v(4))
  ultimately show ?thesis
    using rot v(3) by auto
qed


definition same_log :: "rotating_sink \<Rightarrow> rotating_sink \<Rightarrow> bool" where
  "same_log s s' \<longleftrightarrow>
     base_filename s' = base_filename s \<and> max_size s' = max_size s \<and> max_files s' = max_files s"

lemma write_formatted_sink_ok:
  assumes "sink_open s w" and "n = length (hd (view s w)) + length m" and "n < 2 ^ 63" and "max_size s < 2 ^ 63"
  obtains s' w' where "write_formatted m n s w = (Returns, s', w')" and "same_log s s'" and "sink_ok s' w'"
    and "view s' w' = (hd (view s w) @ m) # tl (view s w)"
  using write_formatted_ok [OF assms(1), of m n] assms(2-4) by (auto simp: sink_ok_def same_log_def)

lemma fh_size_ok:
  assumes "sink_open s w"
  shows "fh_size (helper s) w = (Inr (length (content w (base_filename s))), tick w)"
proof -
  have "all_ok w"
    using assms by (simp add: sink_open_def)
  then obtain k where k: "next_outcome w = (\<lparr>failed = None, drained = k\<rparr>, tick w)"
    by (rule next_outcome_ok)
  show ?thesis
    by (rule sink_openE [OF assms]) (simp add: fh_size_def filesize_def k content_def)
qed

text \<open>
  Refinement: while the calls succeed, logging a message does to the texts of the log what the
  specification says.
\<close>

lemma sink_it_ok:
  assumes "sink_ok s w" and "length m < 2 ^ 63"
  obtains s' w' where "sink_it m s w = (Returns, s', w')" and "same_log s s'" and "sink_ok s' w'"
    and "view s' w' = log_step (max_size s) m (view s w)"
proof -
  have s: "sink_open s w" "current_size s = length (hd (view s w))" "current_size s < 2 ^ 63" "max_size s < 2 ^ 63"
    using assms(1) by (simp_all add: sink_ok_def)
  have n: "(current_size s + length m) mod 2 ^ 64 = current_size s + length m"
    using s(3) assms(2) by simp
  show ?thesis
  proof (cases "max_size s < current_size s + length m")
    case False
    then have "sink_it m s w = write_formatted m (current_size s + length m) s w"
      unfolding sink_it_def n by simp
    moreover have "log_step (max_size s) m (view s w) = (hd (view s w) @ m) # tl (view s w)"
      using False s(2) by (simp add: log_step_def)
    moreover obtain s' w' where "write_formatted m (current_size s + length m) s w = (Returns, s', w')" "same_log s s'"
        "sink_ok s' w'" "view s' w' = (hd (view s w) @ m) # tl (view s w)"
      by (rule write_formatted_sink_ok [of s w "current_size s + length m" m]) (use s False in simp_all)
    ultimately show ?thesis
      by (intro that) simp_all
  next
    case over: True
    obtain v where v: "fh_flush (helper s) w = (Returns, v)" "sink_open s v" "view s v = view s w"
      "content v (base_filename s) = hd (view s w)"
      using sink_flush_ok [OF s(1)] by (auto simp: sink_flush_def)
    have size: "fh_size (helper s) v = (Inr (length (hd (view s w))), tick v)"
      using fh_size_ok [OF v(2)] v(4) by simp
    show ?thesis
    proof (cases "hd (view s w) = []")
      case True
      then have "sink_it m s w = write_formatted m (length m) s (tick v)"
        using over v(1) size s(2) unfolding sink_it_def n by simp
      moreover have "log_step (max_size s) m (view s w) = (hd (view s w) @ m) # tl (view s w)"
        using True by (simp add: log_step_def)
      moreover obtain s' w' where "write_formatted m (length m) s (tick v) = (Returns, s', w')" "same_log s s'"
          "sink_ok s' w'" "view s' w' = (hd (view s (tick v)) @ m) # tl (view s (tick v))"
        by (rule write_formatted_sink_ok [of s "tick v" "length m" m]) (use v s(4) assms(2) True in simp_all)
      ultimately show ?thesis
        using v(3) by (intro that) simp_all
    next
      case False
      obtain fh u where u: "rotate_files s (tick v) = (Returns, s\<lparr>helper := fh\<rparr>, u)"
          "sink_open (s\<lparr>helper := fh\<rparr>) u" "view (s\<lparr>helper := fh\<rparr>) u = [] # butlast (view s w)"
        using rotate_ok [OF sink_open_tick [OF v(2)]] v(3) by auto
      then have "sink_it m s w = write_formatted m (length m) (s\<lparr>helper := fh\<rparr>) u"
        using over v(1) size False unfolding sink_it_def n by simp
      moreover have "log_step (max_size s) m (view s w) = m # butlast (view s w)"
        using False over s(2) by (simp add: log_step_def)
      moreover obtain s' w' where "write_formatted m (length m) (s\<lparr>helper := fh\<rparr>) u = (Returns, s', w')" "same_log (s\<lparr>helper := fh\<rparr>) s'"
          "sink_ok s' w'" "view s' w' = (hd (view (s\<lparr>helper := fh\<rparr>) u) @ m) # tl (view (s\<lparr>helper := fh\<rparr>) u)"
        by (rule write_formatted_sink_ok [of "s\<lparr>helper := fh\<rparr>" u "length m" m]) (use u(2,3) s(4) assms(2) in simp_all)
      ultimately show ?thesis
        using u(3) by (intro that) (simp_all add: same_log_def)
    qed
  qed
qed


subsection \<open>A log keeps to its files\<close>

lemma sink_open_uses: "sink_open s w \<Longrightarrow> uses (log_files s) (fd (helper s)) w"
  by (auto simp: sink_open_def uses_def log_files_def intro!: image_eqI [of _ _ 0])

lemma base_in_log_files: "base_filename s \<in> log_files s"
  by (auto simp: log_files_def intro!: image_eqI [of _ _ 0])

lemma fh_flush_frame:
  assumes "sink_open s w"
  shows "frame (log_files s) (fd (helper s)) (fd (helper s)) n w (snd (fh_flush (helper s) w))"
  using sink_open_uses [OF assms] assms
  by (auto simp: fh_flush_def fflush_def split_beta sink_open_def intro: frame_fflush_stream)

lemma write_formatted_frame:
  assumes "sink_open s w"
  shows "frame (log_files s) (fd (helper s)) (fd (helper s)) n w (snd (snd (write_formatted m k s w)))
         \<and> fd (helper (fst (snd (write_formatted m k s w)))) = fd (helper s)"
  using sink_open_uses [OF assms] assms
  by (auto simp: write_formatted_def fh_write_def split_beta sink_open_def intro: frame_fwrite)

lemma rotate_frame:
  assumes "sink_open s w"
  shows "frame (log_files s) (fd (helper s)) (fd (helper (fst (snd (rotate_files s w)))))
           (length (dir_name (base_filename s))) w (snd (snd (rotate_files s w)))"
  by (rule frame_rotate) (use assms sink_open_uses [OF assms] in \<open>auto simp: sink_open_def log_files_def\<close>)

lemma sink_it_frame:
  assumes "sink_ok s w" and "sink_it m s w = (e, s', w')"
  shows "frame (log_files s) (fd (helper s)) (fd (helper s')) (length (dir_name (base_filename s))) w w'"
proof -
  let ?n = "length (dir_name (base_filename s))"
  have s: "sink_open s w"
    using assms(1) by (simp add: sink_ok_def)
  obtain v where v: "fh_flush (helper s) w = (Returns, v)" "sink_open s v"
    using sink_flush_ok [OF s] by (auto simp: sink_flush_def)
  have fv: "frame (log_files s) (fd (helper s)) (fd (helper s)) ?n w (tick v)"
    using frame_trans [OF fh_flush_frame [OF s] frame_tick] v(1) by simp
  obtain fh u where u: "rotate_files s (tick v) = (Returns, s\<lparr>helper := fh\<rparr>, u)" "sink_open (s\<lparr>helper := fh\<rparr>) u"
    using rotate_ok [OF sink_open_tick [OF v(2)]] by auto
  have fu: "frame (log_files s) (fd (helper s)) (fd fh) ?n w u"
    using frame_trans [OF fv rotate_frame [OF sink_open_tick [OF v(2)]]] u(1) by simp
  have fw: "frame (log_files s) (fd (helper s)) (fd (helper s')) ?n w w'"
    if "write_formatted m k r x = (e, s', w')" "frame (log_files s) (fd (helper s)) (fd (helper r)) ?n w x"
      "sink_open r x" "log_files r = log_files s" for r x k
    using frame_trans [OF that(2)] write_formatted_frame [OF that(3), of ?n m k] that(1,4) by simp
  have "\<exists>k. sink_it m s w = write_formatted m k s w \<or> sink_it m s w = write_formatted m k s (tick v)
            \<or> sink_it m s w = write_formatted m k (s\<lparr>helper := fh\<rparr>) u"
    using v(1) fh_size_ok [OF v(2)] u(1) by (simp add: sink_it_def Let_def) blast
  moreover have "log_files (s\<lparr>helper := fh\<rparr>) = log_files s"
    by (simp add: log_files_def)
  ultimately show ?thesis
    using assms(2) fw [OF _ frame_refl s] fw [OF _ fv sink_open_tick [OF v(2)]]
      fw [of _ "s\<lparr>helper := fh\<rparr>" u] fu u(2) by auto
qed


text \<open>The constructor opens the log on the texts that its files hold.\<close>

lemma new_rotating_sink_ok:
  assumes "all_ok w" and "base \<noteq> []" and "0 < mx" "mx < 2 ^ 63" and "n \<le> 200000"
    and "gap_free base n w" and "calc_filename base ` {..n} \<inter> set (dirs w) = {}"
    and "length (content w base) < 2 ^ 63"
  obtains s w' where "new_rotating_sink base mx n False w = (Inr s, w')" and "sink_ok s w'"
    and "base_filename s = base" "max_size s = mx" "max_files s = n"
    and "view s w' = map (\<lambda>i. content w (calc_filename base i)) [0..<Suc n]" and "pending s w' = []"
    and "frame (log_files s) None (fd (helper s)) (length (dir_name base)) w w'"
proof -
  let ?r = "open_loop open_tries base False w"
  obtain d where d: "fst ?r = Some d" "files (snd ?r) = (files w)(base \<mapsto> content w base)"
    using open_loop_ok [OF assms(1), of 4 base False] by (auto simp: open_tries_def content_def)
  have st: "stream_at (snd ?r) d = Some \<lparr>stream_path = base, stream_buf = []\<rparr>"
    by (rule open_loop_stream [OF d(1)])
  define s where "s = \<lparr>base_filename = base, max_size = mx, max_files = n, current_size = length (content w base),
                       helper = \<lparr>filename = base, fd = Some d\<rparr>\<rparr>"
  have lf: "log_files s = calc_filename base ` {..n}"
    by (simp add: log_files_def s_def)
  have fr: "frame (log_files s) None (Some d) (length (dir_name base)) w (snd ?r)"
    using frame_open_loop [of base "log_files s" "length (dir_name base)" open_tries False w] d(1)
      base_in_log_files [of s] by (simp add: s_def)
  have c: "content (snd ?r) p = content w p" for p
    by (simp add: content_def d(2))
  have "gap_free base n (snd ?r)"
    using assms(6) calc_filename_inj [of base _ 0] by (auto simp: gap_free_def d(2))
  moreover have "log_files s \<inter> set (dirs (snd ?r)) = {}"
    by (rule log_files_not_dirs) (use fr assms(2,7) in \<open>simp_all add: s_def log_files_def\<close>)
  ultimately have so: "sink_open s (snd ?r)"
    using fr assms(1,2) st by (simp add: sink_open_def s_def frame_def d(2))
  have pend: "pending s (snd ?r) = []"
    by (simp add: pending_def s_def buffered_def st)
  have vw: "view s (snd ?r) = map (\<lambda>i. content w (calc_filename base i)) [0..<Suc n]"
    using pend by (simp add: view_def c s_def map_upt_Suc del: upt_Suc)
  have hdv: "hd (view s (snd ?r)) = content w base"
    by (simp add: view_def c pend) (simp add: s_def)
  show ?thesis
  proof (rule that [of s "tick (snd ?r)"])
    have "fh_size \<lparr>filename = base, fd = Some d\<rparr> (snd ?r) = (Inr (length (content w base)), tick (snd ?r))"
      using fh_size_ok [OF so] by (simp add: c) (simp add: s_def c)
    then show "new_rotating_sink base mx n False w = (Inr s, tick (snd ?r))"
      using assms(3,5) d(1) by (simp add: new_rotating_sink_def fh_open_fields s_def)
    show "sink_ok s (tick (snd ?r))"
      using so assms(4,8) hdv by (simp add: sink_ok_def) (simp add: s_def)
  qed (use pend vw fr in \<open>auto simp: s_def pending_def intro: frame_trans [OF _ frame_tick]\<close>)
qed


subsection \<open>A sink is a rotating log\<close>

definition sink_state_ok :: "rotating_sink \<times> world \<Rightarrow> bool" where
  "sink_state_ok = (\<lambda>(s, w). sink_ok s w)"

definition log_one :: "byte list \<Rightarrow> rotating_sink \<times> world \<Rightarrow> rotating_sink \<times> world" where
  "log_one m = (\<lambda>(s, w). snd (sink_it m s w))"

definition text_fits :: "byte list \<Rightarrow> bool" where
  "text_fits m \<longleftrightarrow> length m < 2 ^ 63"

interpretation rs: rotating_log sink_state_ok "\<lambda>(s, w). view s w" "\<lambda>(s, w). max_size s" log_one text_fits
proof unfold_locales
  fix x m assume a: "sink_state_ok x" "text_fits m"
  obtain s w where x: "x = (s, w)"
    by (cases x)
  have "sink_ok s w" "length m < 2 ^ 63"
    using a by (simp_all add: x sink_state_ok_def text_fits_def)
  then obtain s' w' where r: "sink_it m s w = (Returns, s', w')" "same_log s s'" "sink_ok s' w'"
      "view s' w' = log_step (max_size s) m (view s w)"
    by (rule sink_it_ok)
  show "sink_state_ok (log_one m x)"
    "(case log_one m x of (s, w) \<Rightarrow> view s w) = log_step (case x of (s, w) \<Rightarrow> max_size s) m (case x of (s, w) \<Rightarrow> view s w)"
    "(case log_one m x of (s, w) \<Rightarrow> max_size s) = (case x of (s, w) \<Rightarrow> max_size s)"
    using r by (simp_all add: x log_one_def sink_state_ok_def same_log_def)
qed (simp add: view_def split: prod.split)



definition small_sink :: rotating_sink where
  "small_sink = \<lparr>base_filename = ''a'', max_size = 4, max_files = 1, current_size = 3,
                 helper = \<lparr>filename = ''a'', fd = Some 0\<rparr>\<rparr>"

definition small_world :: world where
  "small_world = \<lparr>files = [''a'' \<mapsto> [1, 2, 3]], dirs = [], streams = [Some \<lparr>stream_path = ''a'', stream_buf = []\<rparr>],
                  outcomes = []\<rparr>"

lemma small_sink_ok: "sink_ok small_sink small_world" "view small_sink small_world = [[1, 2, 3], []]"
proof -
  have "calc_filename ''a'' (Suc 0) \<noteq> ''a''"
    using calc_filename_inj [of "''a''" "Suc 0" 0] by simp
  then show v: "view small_sink small_world = [[1, 2, 3], []]"
    by (simp add: view_def small_sink_def small_world_def content_def pending_def buffered_def stream_at_def)
  then show "sink_ok small_sink small_world"
    using \<open>calc_filename ''a'' (Suc 0) \<noteq> ''a''\<close>
    by (simp add: sink_ok_def sink_open_def all_ok_def)
       (simp add: small_sink_def small_world_def stream_at_def gap_free_def less_Suc_eq)
qed


end
