(* ===== verification/Log_Sinks.thy ===== *)
theory Log_Sinks
  imports Log_Dispatch Rotating_Props
begin

section \<open>One logger, several logs\<close>

text \<open>
  Logs whose files, streams and directories are apart do not disturb each other. From that and the
  refinement of a single log follows what a message, a flush and any sequence of them do to the
  texts of all sinks of a logger.
\<close>

subsection \<open>Separate logs\<close>

definition separate :: "rotating_sink \<Rightarrow> rotating_sink \<Rightarrow> bool" where
  "separate s c \<longleftrightarrow>
     log_files s \<inter> log_files c = {} \<and> fd (helper s) \<noteq> fd (helper c)
     \<and> length (dir_name (base_filename s)) < length (base_filename c)
     \<and> length (dir_name (base_filename c)) < length (base_filename s)"

lemma separate_sym: "separate s c \<Longrightarrow> separate c s"
  by (auto simp: separate_def)

text \<open>What one log does leaves a separate log as it is.\<close>

lemma separate_keeps:
  assumes "frame (log_files s) (fd (helper s)) (fd (helper s')) (length (dir_name (base_filename s))) w w'"
    and "same_log s s'" and "separate s c" and "sink_ok c w"
  shows "sink_ok c w'" and "view c w' = view c w" and "pending c w' = pending c w" and "separate s' c"
proof -
  obtain d buf where d: "fd (helper c) = Some d"
      "stream_at w d = Some \<lparr>stream_path = base_filename c, stream_buf = buf\<rparr>"
    using assms(4) by (auto simp: sink_ok_def sink_open_def)
  have ne: "fd (helper s) \<noteq> Some d" "fd (helper s') \<noteq> Some d"
    using assms(1,3) d by (auto simp: separate_def frame_def)
  then have st: "stream_at w' d = stream_at w d"
    using assms(1) by (simp add: frame_def)
  have fs: "files w' p = files w p" if "p \<in> log_files c" for p
    using that assms(1,3) by (auto simp: frame_def separate_def)
  have c: "files w' (calc_filename (base_filename c) i) = files w (calc_filename (base_filename c) i)" if "i \<le> max_files c" for i
    using that by (intro fs) (simp add: log_files_def)
  have "log_files c \<inter> set (dirs w') = {}"
  proof -
    have "length (dir_name (base_filename s)) < length p" if "p \<in> log_files c" for p
      using that assms(3) less_le_trans [OF _ calc_filename_longer]
      by (auto simp: log_files_def separate_def)
    then show ?thesis
      using assms(1,4) by (fastforce simp: frame_def sink_ok_def sink_open_def)
  qed
  moreover have "gap_free (base_filename c) (max_files c) w'"
    using assms(4) by (auto simp: sink_ok_def sink_open_def gap_free_def c)
  ultimately have "sink_open c w'"
    using assms(1,4) d st c [of 0] by (auto simp: sink_ok_def sink_open_def frame_def)
  moreover show pd: "pending c w' = pending c w"
    using d(1) st by (simp add: pending_def buffered_def)
  moreover show vw: "view c w' = view c w"
    using c c [of 0] pd by (auto simp: view_def content_def)
  ultimately show "sink_ok c w'"
    using assms(4) by (simp add: sink_ok_def)
  show "separate s' c"
    using assms(2,3) ne(2) d(1) by (simp add: separate_def same_log_def log_files_def)
qed

subsection \<open>One message to all sinks\<close>

definition body_ok :: "sink_body \<Rightarrow> world \<Rightarrow> bool" where
  "body_ok b w = (case b of Console_sink \<Rightarrow> True | Rotating_sink s \<Rightarrow> sink_ok s w)"

definition body_view :: "sink_body \<Rightarrow> world \<Rightarrow> byte list list" where
  "body_view b w = (case b of Console_sink \<Rightarrow> [] | Rotating_sink s \<Rightarrow> view s w)"

definition body_pending :: "sink_body \<Rightarrow> world \<Rightarrow> byte list" where
  "body_pending b w = (case b of Console_sink \<Rightarrow> [] | Rotating_sink s \<Rightarrow> pending s w)"

definition body_separate :: "sink_body \<Rightarrow> sink_body \<Rightarrow> bool" where
  "body_separate a b =
     (case (a, b) of (Rotating_sink s, Rotating_sink c) \<Rightarrow> separate s c | _ \<Rightarrow> True)"

text \<open>What does not change while a sink is in use: its level, limit and files.\<close>

definition body_spec :: "log_sink \<Rightarrow> level_enum \<times> (nat \<times> string \<times> nat) option" where
  "body_spec x =
     (ls_level x, case ls_body x of
                    Console_sink \<Rightarrow> None
                  | Rotating_sink s \<Rightarrow> Some (max_size s, base_filename s, max_files s))"

definition text_step :: "level_enum \<Rightarrow> byte list \<Rightarrow> level_enum \<times> (nat \<times> 'a) option \<Rightarrow> byte list list \<Rightarrow> byte list list" where
  "text_step l m sp v =
     (case sp of (lv, Some (mx, _)) \<Rightarrow> if l \<ge> lv then log_step mx m v else v | (lv, None) \<Rightarrow> v)"

definition sinks_ok :: "(int \<Rightarrow> tm) \<Rightarrow> log_sink list \<Rightarrow> world \<Rightarrow> bool" where
  "sinks_ok localtime xs w \<longleftrightarrow>
     (\<forall>x\<in>set xs. body_ok (ls_body x) w \<and> pf_ok localtime (ls_formatter x)) \<and> sorted_wrt (\<lambda>x y. body_separate (ls_body x) (ls_body y)) xs"

definition texts :: "log_sink list \<Rightarrow> world \<Rightarrow> byte list list list" where
  "texts xs w = map (\<lambda>x. body_view (ls_body x) w) xs"

definition body_files :: "sink_body \<Rightarrow> string set" where
  "body_files b = (case b of Console_sink \<Rightarrow> {} | Rotating_sink s \<Rightarrow> log_files s)"

text \<open>\<open>undisturbed a b w w'\<close>: only the files of \<open>a\<close> change, and a log separate from \<open>a\<close> survives the step from \<open>w\<close> to \<open>w'\<close>, which makes \<open>a\<close> into \<open>b\<close>.\<close>

definition undisturbed :: "sink_body \<Rightarrow> sink_body \<Rightarrow> world \<Rightarrow> world \<Rightarrow> bool" where
  "undisturbed a b w w' \<longleftrightarrow>
     (\<forall>p. p \<notin> body_files a \<longrightarrow> files w' p = files w p)
     \<and> (\<forall>c. body_separate a c \<and> body_ok c w \<longrightarrow>
        body_ok c w' \<and> body_view c w' = body_view c w \<and> body_pending c w' = body_pending c w \<and> body_separate b c)"

lemma undisturbed_frame:
  assumes "frame (log_files s) (fd (helper s)) (fd (helper s')) (length (dir_name (base_filename s))) w w'"
    and "same_log s s'"
  shows "undisturbed (Rotating_sink s) (Rotating_sink s') w w'"
  using separate_keeps [OF assms] assms(1)
  by (auto simp: undisturbed_def body_files_def frame_def body_ok_def body_view_def body_pending_def body_separate_def split: sink_body.splits)

lemma body_log_ok:
  assumes "body_ok (ls_body x) w" and "length m < 2 ^ 63" and "l \<ge> ls_level x"
  obtains b w' where "body_log m (ls_body x) w = (Returns, b, w')" and "body_ok b w'"
    and "\<And>pf. body_spec (x\<lparr>ls_formatter := pf, ls_body := b\<rparr>) = body_spec x"
    and "body_view b w' = text_step l m (body_spec x) (body_view (ls_body x) w)"
    and "undisturbed (ls_body x) b w w'"
proof (cases "ls_body x")
  case Console_sink
  then show ?thesis
    by (intro that [of Console_sink w])
       (simp_all add: body_log_def body_ok_def body_spec_def text_step_def undisturbed_def body_separate_def)
next
  case (Rotating_sink s)
  then have "sink_ok s w"
    using assms(1) by (simp add: body_ok_def)
  from sink_it_ok [OF this assms(2)] obtain s' w' where s': "sink_it m s w = (Returns, s', w')" "same_log s s'"
      "sink_ok s' w'" "view s' w' = log_step (max_size s) m (view s w)" .
  with sink_it_frame [OF \<open>sink_ok s w\<close> s'(1)] have "undisturbed (Rotating_sink s) (Rotating_sink s') w w'"
    by (intro undisturbed_frame)
  then show ?thesis
    using s' assms(3) Rotating_sink
    by (intro that [of "Rotating_sink s'" w'])
       (simp_all add: body_log_def body_ok_def body_spec_def body_view_def text_step_def same_log_def)
qed

lemma body_flush_ok:
  assumes "body_ok b w"
  obtains w' where "body_flush b w = (Returns, w')" and "body_ok b w'" and "body_view b w' = body_view b w"
    and "body_pending b w' = []" and "undisturbed b b w w'"
proof (cases b)
  case Console_sink
  then show ?thesis
    by (intro that [of w])
       (simp_all add: body_flush_def body_ok_def body_pending_def undisturbed_def body_separate_def)
next
  case (Rotating_sink s)
  then have s: "sink_ok s w"
    using assms by (simp add: body_ok_def)
  then have so: "sink_open s w"
    by (simp add: sink_ok_def)
  from sink_flush_ok [OF this] obtain w' where w': "sink_flush s w = (Returns, w')" "sink_open s w'"
      "view s w' = view s w" "pending s w' = []"
    by auto
  have "frame (log_files s) (fd (helper s)) (fd (helper s)) (length (dir_name (base_filename s))) w w'"
    using fh_flush_frame [OF so] w'(1) by (simp add: sink_flush_def)
  then have "undisturbed b b w w'"
    using Rotating_sink undisturbed_frame [of s s] by (simp add: same_log_def)
  then show ?thesis
    using w' s Rotating_sink
    by (intro that [of w']) (simp_all add: body_flush_def body_ok_def body_view_def body_pending_def sink_ok_def)
qed

definition survives :: "log_sink list \<Rightarrow> log_sink list \<Rightarrow> world \<Rightarrow> world \<Rightarrow> bool" where
  "survives xs ys w w' \<longleftrightarrow>
     (\<forall>p. p \<notin> (\<Union>x\<in>set xs. body_files (ls_body x)) \<longrightarrow> files w' p = files w p)
     \<and> (\<forall>c. (\<forall>x\<in>set xs. body_separate (ls_body x) c) \<and> body_ok c w \<longrightarrow>
        body_ok c w' \<and> body_view c w' = body_view c w \<and> body_pending c w' = body_pending c w
        \<and> (\<forall>y\<in>set ys. body_separate (ls_body y) c))"

lemma survives_files:
  "survives xs ys w w' \<Longrightarrow> p \<notin> (\<Union>x\<in>set xs. body_files (ls_body x)) \<Longrightarrow> files w' p = files w p"
  by (simp add: survives_def)

lemma body_separate_sym: "body_separate a b \<Longrightarrow> body_separate b a"
  by (auto simp: body_separate_def separate_sym split: sink_body.splits)

lemma undisturbed_refl: "undisturbed b b w w"
  by (simp add: undisturbed_def)

text \<open>One sink acts, then the others: how the steps combine.\<close>

lemma sinks_ok_first:
  assumes "sinks_ok localtime (x # xs) w" and "undisturbed (ls_body x) b w w1"
  shows "sinks_ok localtime xs w1" and "texts xs w1 = texts xs w" and "\<forall>y\<in>set xs. body_separate (ls_body y) b"
  using assms by (auto simp: sinks_ok_def undisturbed_def texts_def intro: body_separate_sym)

lemma sinks_ok_rest:
  assumes "survives xs ys w1 w2" and "sinks_ok localtime ys w2" and "body_ok (ls_body y) w1"
    and "pf_ok localtime (ls_formatter y)" and "\<forall>x\<in>set xs. body_separate (ls_body x) (ls_body y)"
  shows "sinks_ok localtime (y # ys) w2" and "body_view (ls_body y) w2 = body_view (ls_body y) w1"
    and "body_pending (ls_body y) w2 = body_pending (ls_body y) w1"
  using assms by (auto simp: sinks_ok_def survives_def intro: body_separate_sym)

lemma survives_Cons:
  assumes "undisturbed (ls_body x) (ls_body y) w w1" and "survives xs ys w1 w2"
  shows "survives (x # xs) (y # ys) w w2"
  unfolding survives_def
proof (intro allI impI conjI)
  fix p assume "p \<notin> (\<Union>y\<in>set (x # xs). body_files (ls_body y))"
  then show "files w2 p = files w p"
    using assms by (simp add: undisturbed_def survives_def)
next
  fix c assume c: "(\<forall>y\<in>set (x # xs). body_separate (ls_body y) c) \<and> body_ok c w"
  then have 1: "body_ok c w1" "body_view c w1 = body_view c w" "body_pending c w1 = body_pending c w"
      "body_separate (ls_body y) c"
    using assms(1) unfolding undisturbed_def by auto
  then have "body_ok c w2 \<and> body_view c w2 = body_view c w1 \<and> body_pending c w2 = body_pending c w1
      \<and> (\<forall>y\<in>set ys. body_separate (ls_body y) c)"
    using assms(2) c unfolding survives_def by auto
  with 1 show "body_ok c w2" "body_view c w2 = body_view c w" "body_pending c w2 = body_pending c w"
      "\<forall>z\<in>set (y # ys). body_separate (ls_body z) c"
    by simp_all
qed

text \<open>The text of a message, and that a sink can take it.\<close>

definition line_of :: "(int \<Rightarrow> tm) \<Rightarrow> log_msg \<Rightarrow> byte list" where
  "line_of localtime msg = log_line (localtime (seconds_of (msg_time msg))) msg"

definition loggable :: "(int \<Rightarrow> tm) \<Rightarrow> log_msg \<Rightarrow> bool" where
  "loggable localtime msg \<longleftrightarrow> seconds_of (msg_time msg) \<noteq> 0 \<and> length (line_of localtime msg) < 2 ^ 63"

lemma same_msg_simps:
  assumes "same_msg m m'"
  shows "msg_level m' = msg_level m" and "line_of localtime m' = line_of localtime m"
    and "loggable localtime m' = loggable localtime m"
  using assms by (auto simp: same_msg_def line_of_def log_line_def loggable_def)

lemma sink_log_ok:
  assumes "body_ok (ls_body x) w" and "pf_ok localtime (ls_formatter x)" and "loggable localtime msg"
    and "msg_level msg \<ge> ls_level x"
  obtains msg1 y w1 where "sink_log localtime pid msg x w = Some (msg1, y, w1)" and "same_msg msg msg1"
    and "body_ok (ls_body y) w1" and "pf_ok localtime (ls_formatter y)" and "body_spec y = body_spec x"
    and "body_view (ls_body y) w1
         = text_step (msg_level msg) (line_of localtime msg) (body_spec x) (body_view (ls_body x) w)"
    and "undisturbed (ls_body x) (ls_body y) w w1"
proof -
  have m: "seconds_of (msg_time msg) \<noteq> 0" "length (line_of localtime msg) < 2 ^ 63"
    using assms(3) by (simp_all add: loggable_def)
  obtain pf msg1 where pf: "pf_format localtime pid (ls_formatter x) msg [] = Some (pf, msg1, line_of localtime msg)"
      "pf_ok localtime pf" "same_msg msg msg1"
    using pf_format_ok [OF assms(2) m(1)] unfolding line_of_def by metis
  obtain b w1 where b: "body_log (line_of localtime msg) (ls_body x) w = (Returns, b, w1)" "body_ok b w1"
      "\<And>pf. body_spec (x\<lparr>ls_formatter := pf, ls_body := b\<rparr>) = body_spec x"
      "body_view b w1 = text_step (msg_level msg) (line_of localtime msg) (body_spec x) (body_view (ls_body x) w)"
      "undisturbed (ls_body x) b w w1"
    using body_log_ok [OF assms(1) m(2) assms(4)] by metis
  show ?thesis
    by (rule that [of msg1 "x\<lparr>ls_formatter := pf, ls_body := b\<rparr>" w1])
       (simp_all add: sink_log_def pf b)
qed

text \<open>The first sink takes or skips the message, the others follow.\<close>

lemma sink_each_first:
  assumes ok: "body_ok (ls_body x) w" "pf_ok localtime (ls_formatter x)" "loggable localtime msg"
  obtains msg1 y w1 where "\<And>xs. sink_each localtime pid msg (x # xs) w =
        map_option (\<lambda>(ys, w2). (y # ys, w2)) (sink_each localtime pid msg1 xs w1)"
    and "same_msg msg msg1" and "body_ok (ls_body y) w1" and "pf_ok localtime (ls_formatter y)"
    and "body_spec y = body_spec x"
    and "body_view (ls_body y) w1
         = text_step (msg_level msg) (line_of localtime msg) (body_spec x) (body_view (ls_body x) w)"
    and "undisturbed (ls_body x) (ls_body y) w w1"
proof (cases "msg_level msg \<ge> ls_level x")
  case True
  from sink_log_ok [OF ok True] obtain msg1 y w1 where b: "sink_log localtime pid msg x w = Some (msg1, y, w1)"
      "same_msg msg msg1" "body_ok (ls_body y) w1" "pf_ok localtime (ls_formatter y)" "body_spec y = body_spec x"
      "body_view (ls_body y) w1
         = text_step (msg_level msg) (line_of localtime msg) (body_spec x) (body_view (ls_body x) w)"
      "undisturbed (ls_body x) (ls_body y) w w1" .
  show ?thesis
    by (rule that [OF _ b(2-7)]) (simp add: True b(1))
next
  case False
  then have "text_step (msg_level msg) (line_of localtime msg) (body_spec x) v = v" for v
    by (simp add: body_spec_def text_step_def split: sink_body.split)
  moreover have "same_msg msg msg"
    unfolding same_msg_def
    by (rule exI [of _ "color_range_start msg"], rule exI [of _ "color_range_end msg"]) simp
  ultimately show ?thesis
    by (intro that [OF _ _ ok(1,2) _ _ undisturbed_refl]) (simp_all add: False)
qed

lemma sink_each_ok:
  assumes "sinks_ok localtime xs w" and "loggable localtime msg"
  shows "\<exists>ys w'. sink_each localtime pid msg xs w = Some (ys, w') \<and> sinks_ok localtime ys w'
           \<and> map body_spec ys = map body_spec xs
           \<and> texts ys w' = map2 (text_step (msg_level msg) (line_of localtime msg)) (map body_spec xs) (texts xs w)
           \<and> survives xs ys w w'"
  using assms
proof (induction xs arbitrary: w msg)
  case Nil
  then show ?case by (simp add: texts_def survives_def sinks_ok_def)
next
  case (Cons x xs)
  have "body_ok (ls_body x) w" "pf_ok localtime (ls_formatter x)"
    using Cons.prems(1) by (simp_all add: sinks_ok_def)
  from sink_each_first [OF this Cons.prems(2)] obtain msg1 y w1 where
    b: "\<And>xs. sink_each localtime pid msg (x # xs) w =
        map_option (\<lambda>(ys, w2). (y # ys, w2)) (sink_each localtime pid msg1 xs w1)"
      "same_msg msg msg1" "body_ok (ls_body y) w1" "pf_ok localtime (ls_formatter y)" "body_spec y = body_spec x"
      "body_view (ls_body y) w1
         = text_step (msg_level msg) (line_of localtime msg) (body_spec x) (body_view (ls_body x) w)"
      "undisturbed (ls_body x) (ls_body y) w w1"
    by metis
  note f = sinks_ok_first [OF Cons.prems(1) b(7)] and m = same_msg_simps [OF b(2)]
  obtain ys w2 where ys: "sink_each localtime pid msg1 xs w1 = Some (ys, w2)" "sinks_ok localtime ys w2"
      "map body_spec ys = map body_spec xs"
      "texts ys w2 = map2 (text_step (msg_level msg) (line_of localtime msg)) (map body_spec xs) (texts xs w)"
      "survives xs ys w1 w2"
    using Cons.IH [OF f(1), of msg1] Cons.prems(2) unfolding m f(2) by blast
  have "sink_each localtime pid msg (x # xs) w = Some (y # ys, w2)"
    unfolding b(1) ys(1) by simp
  moreover note rest = sinks_ok_rest [OF ys(5,2) b(3,4) f(3)]
  moreover have "map body_spec (y # ys) = map body_spec (x # xs)"
    using b(5) ys(3) by simp
  moreover have "texts (y # ys) w2
      = map2 (text_step (msg_level msg) (line_of localtime msg)) (map body_spec (x # xs)) (texts (x # xs) w)"
    using b(6) ys(4) rest(2) by (simp add: texts_def)
  moreover have "survives (x # xs) (y # ys) w w2"
    by (rule survives_Cons [OF b(7) ys(5)])
  ultimately show ?case
    by (intro exI conjI)
qed

lemma flush_each_ok:
  assumes "sinks_ok localtime xs w"
  shows "sinks_ok localtime xs (flush_each xs w) \<and> texts xs (flush_each xs w) = texts xs w
         \<and> (\<forall>x\<in>set xs. body_pending (ls_body x) (flush_each xs w) = []) \<and> survives xs xs w (flush_each xs w)"
  using assms
proof (induction xs arbitrary: w)
  case Nil
  then show ?case by (simp add: survives_def)
next
  case (Cons x xs)
  have pf: "pf_ok localtime (ls_formatter x)" and "body_ok (ls_body x) w"
    using Cons.prems by (simp_all add: sinks_ok_def)
  from this(2) obtain w1 where w1: "body_flush (ls_body x) w = (Returns, w1)" "body_ok (ls_body x) w1"
      "body_view (ls_body x) w1 = body_view (ls_body x) w" "body_pending (ls_body x) w1 = []"
      "undisturbed (ls_body x) (ls_body x) w w1"
    by (rule body_flush_ok)
  note f = sinks_ok_first [OF Cons.prems w1(5)]
  let ?w = "flush_each xs w1"
  have IH: "sinks_ok localtime xs ?w" "texts xs ?w = texts xs w" "\<forall>x\<in>set xs. body_pending (ls_body x) ?w = []" "survives xs xs w1 ?w"
    using Cons.IH [OF f(1)] f(2) by auto
  show ?case
    using w1 IH sinks_ok_rest [OF IH(4,1) w1(2) pf f(3)] survives_Cons [OF w1(5) IH(4)]
    by (simp add: texts_def)
qed


subsection \<open>The logger\<close>

definition msg_step ::
  "(log_msg \<Rightarrow> byte list) \<Rightarrow> level_enum \<Rightarrow> log_msg \<Rightarrow> level_enum \<times> (nat \<times> 'a) option \<Rightarrow> byte list list \<Rightarrow> byte list list" where
  "msg_step fmt g m sp v = (if msg_level m \<ge> g then text_step (msg_level m) (fmt m) sp v else v)"

text \<open>A message that makes the logger flush.\<close>

definition urgent :: "multi_logger \<Rightarrow> log_msg \<Rightarrow> bool" where
  "urgent lg m \<longleftrightarrow> msg_level m \<ge> ml_level lg \<and> msg_level m \<ge> ml_flush_level lg \<and> msg_level m \<noteq> L_off"

definition logger_files :: "multi_logger \<Rightarrow> string set" where
  "logger_files lg = (\<Union>x\<in>set (ml_sinks lg). body_files (ls_body x))"

definition same_logger :: "multi_logger \<Rightarrow> multi_logger \<Rightarrow> bool" where
  "same_logger lg lg' \<longleftrightarrow>
     map body_spec (ml_sinks lg') = map body_spec (ml_sinks lg) \<and> ml_level lg' = ml_level lg
     \<and> ml_flush_level lg' = ml_flush_level lg"

definition all_flushed :: "multi_logger \<Rightarrow> world \<Rightarrow> bool" where
  "all_flushed lg w \<longleftrightarrow> (\<forall>x\<in>set (ml_sinks lg). body_pending (ls_body x) w = [])"

lemma body_files_spec: "body_files (ls_body x) =
    (case snd (body_spec x) of None \<Rightarrow> {} | Some (mx, base, n) \<Rightarrow> calc_filename base ` {..n})"
  by (simp add: body_files_def body_spec_def log_files_def split: sink_body.split)

lemma logger_files_spec:
  "logger_files lg = (\<Union>sp\<in>set (map body_spec (ml_sinks lg)).
     case snd sp of None \<Rightarrow> {} | Some (mx, base, n) \<Rightarrow> calc_filename base ` {..n})"
  by (simp add: logger_files_def body_files_spec)

lemma same_logger_files: "same_logger lg lg' \<Longrightarrow> logger_files lg' = logger_files lg"
  unfolding same_logger_def logger_files_spec by (simp only:)

lemma length_texts: "length (texts xs w) = length xs"
  by (simp add: texts_def)

lemma map2_skip: "length as = length bs \<Longrightarrow> map2 (\<lambda>a b. b) as bs = bs"
  by (induction as bs rule: list_induct2) simp_all

lemma log_it_ok:
  assumes "sinks_ok localtime (ml_sinks lg) w" and "loggable localtime m"
  obtains lg' w' where "log_it localtime pid m lg w = Some (lg', w')" and "same_logger lg lg'"
    and "sinks_ok localtime (ml_sinks lg') w'"
    and "texts (ml_sinks lg') w'
         = map2 (msg_step (line_of localtime) (ml_level lg) m) (map body_spec (ml_sinks lg)) (texts (ml_sinks lg) w)"
    and "urgent lg m \<longrightarrow> all_flushed lg' w'"
    and "\<forall>p. p \<notin> logger_files lg \<longrightarrow> files w' p = files w p"
proof (cases "msg_level m \<ge> ml_level lg")
  case False
  then show ?thesis
    using assms(1)
    by (intro that [of lg w]) (simp_all add: log_it_def same_logger_def msg_step_def map2_skip length_texts urgent_def)
next
  case True
  obtain ys w1 where ys: "sink_each localtime pid m (ml_sinks lg) w = Some (ys, w1)" "sinks_ok localtime ys w1"
      "map body_spec ys = map body_spec (ml_sinks lg)"
      "texts ys w1 = map2 (text_step (msg_level m) (line_of localtime m)) (map body_spec (ml_sinks lg)) (texts (ml_sinks lg) w)"
      "survives (ml_sinks lg) ys w w1"
    using sink_each_ok [OF assms(1,2)] by blast
  let ?lg = "lg\<lparr>ml_sinks := ys\<rparr>" and ?w = "if urgent lg m then flush_each ys w1 else w1"
  have same: "same_logger lg ?lg"
    using ys(3) by (simp add: same_logger_def)
  note fl = flush_each_ok [OF ys(2)]
  have "log_it localtime pid m lg w = Some (?lg, ?w)"
    using True ys(1) by (simp add: log_it_def logger_sink_it_def urgent_def Let_def)
  moreover have "sinks_ok localtime (ml_sinks ?lg) ?w" "urgent lg m \<longrightarrow> all_flushed ?lg ?w"
    using ys(2) fl by (simp_all add: all_flushed_def)
  moreover have "texts (ml_sinks ?lg) ?w
      = map2 (msg_step (line_of localtime) (ml_level lg) m) (map body_spec (ml_sinks lg)) (texts (ml_sinks lg) w)"
    using True ys(4) fl by (simp add: msg_step_def)
  moreover have "files w1 p = files w p" "files (flush_each ys w1) p = files w1 p" if p: "p \<notin> logger_files lg" for p
  proof -
    show "files w1 p = files w p"
      by (rule survives_files [OF ys(5) p [unfolded logger_files_def]])
    have "p \<notin> logger_files ?lg"
      using p same_logger_files [OF same] by simp
    then show "files (flush_each ys w1) p = files w1 p"
      using fl by (intro survives_files [of ys ys]) (simp_all add: logger_files_def)
  qed
  then have "\<forall>p. p \<notin> logger_files lg \<longrightarrow> files ?w p = files w p"
    by simp
  ultimately show ?thesis
    using that same by blast
qed


definition event_step ::
  "(log_msg \<Rightarrow> byte list) \<Rightarrow> level_enum \<Rightarrow> log_event \<Rightarrow> level_enum \<times> (nat \<times> 'a) option \<Rightarrow> byte list list \<Rightarrow> byte list list" where
  "event_step fmt g ev sp v = (case ev of Message m \<Rightarrow> msg_step fmt g m sp v | Periodic_flush \<Rightarrow> v)"

definition flushes :: "multi_logger \<Rightarrow> log_event \<Rightarrow> bool" where
  "flushes lg ev \<longleftrightarrow> (case ev of Message m \<Rightarrow> urgent lg m | Periodic_flush \<Rightarrow> True)"

definition messages :: "log_event list \<Rightarrow> log_msg list" where
  "messages evs = concat (map (\<lambda>ev. case ev of Message m \<Rightarrow> [m] | Periodic_flush \<Rightarrow> []) evs)"

lemma log_event_ok:
  assumes "sinks_ok localtime (ml_sinks lg) w" and "\<forall>m\<in>set (messages [ev]). loggable localtime m"
  obtains lg' w' where "log_event_step localtime pid ev lg w = Some (lg', w')" and "same_logger lg lg'"
    and "sinks_ok localtime (ml_sinks lg') w'"
    and "texts (ml_sinks lg') w'
         = map2 (event_step (line_of localtime) (ml_level lg) ev) (map body_spec (ml_sinks lg)) (texts (ml_sinks lg) w)"
    and "flushes lg ev \<longrightarrow> all_flushed lg' w'"
    and "\<forall>p. p \<notin> logger_files lg \<longrightarrow> files w' p = files w p"
proof (cases ev)
  case (Message m)
  then have "loggable localtime m"
    using assms(2) by (simp add: messages_def)
  then show ?thesis
    by (rule log_it_ok [OF assms(1)])
       (use that Message in \<open>simp add: log_event_step_def event_step_def flushes_def\<close>)
next
  case Periodic_flush
  note fl = flush_each_ok [OF assms(1)]
  have "files (flush_each (ml_sinks lg) w) p = files w p" if "p \<notin> logger_files lg" for p
    using survives_files [OF _ that [unfolded logger_files_def]] fl by blast
  then show ?thesis
    using fl Periodic_flush
    by (intro that [of lg "flush_each (ml_sinks lg) w"])
       (simp_all add: log_event_step_def event_step_def same_logger_def all_flushed_def map2_skip length_texts)
qed

lemma map2_fold:
  "length as = length vs \<Longrightarrow> fold (\<lambda>m. map2 (f m) as) ms vs = map2 (\<lambda>a v. fold (\<lambda>m. f m a) ms v) as vs"
proof (induction ms arbitrary: vs)
  case Nil
  then show ?case by (simp add: map2_skip)
next
  case (Cons m ms)
  then show ?case
    by (simp add: list_eq_iff_nth_eq)
qed

lemma log_all_ok:
  assumes "sinks_ok localtime (ml_sinks lg) w" and "\<forall>ev\<in>set (messages evs). loggable localtime ev"
  shows "\<exists>lg' w'. log_all localtime pid evs lg w = Some (lg', w') \<and> same_logger lg lg' \<and> sinks_ok localtime (ml_sinks lg') w'
           \<and> texts (ml_sinks lg') w'
             = fold (\<lambda>ev. map2 (event_step (line_of localtime) (ml_level lg) ev) (map body_spec (ml_sinks lg))) evs (texts (ml_sinks lg) w)
           \<and> (evs \<noteq> [] \<and> flushes lg (last evs) \<longrightarrow> all_flushed lg' w')
           \<and> (\<forall>p. p \<notin> logger_files lg \<longrightarrow> files w' p = files w p)"
  using assms
proof (induction evs arbitrary: lg w)
  case Nil
  then show ?case by (simp add: same_logger_def)
next
  case (Cons ev evs)
  have "\<forall>k\<in>set (messages [ev]). loggable localtime k"
    using Cons.prems(2) by (simp add: messages_def)
  from log_event_ok [OF Cons.prems(1) this] obtain lg1 w1 where
    1: "log_event_step localtime pid ev lg w = Some (lg1, w1)" "same_logger lg lg1" "sinks_ok localtime (ml_sinks lg1) w1"
      "texts (ml_sinks lg1) w1
         = map2 (event_step (line_of localtime) (ml_level lg) ev) (map body_spec (ml_sinks lg)) (texts (ml_sinks lg) w)"
      "flushes lg ev \<longrightarrow> all_flushed lg1 w1" "\<forall>p. p \<notin> logger_files lg \<longrightarrow> files w1 p = files w p" .
  have eq: "map body_spec (ml_sinks lg1) = map body_spec (ml_sinks lg)" "ml_level lg1 = ml_level lg"
      "flushes lg1 k = flushes lg k" "same_logger lg1 x = same_logger lg x" "logger_files lg1 = logger_files lg" for k x
    using 1(2) same_logger_files [OF 1(2)] by (simp_all add: same_logger_def flushes_def urgent_def cong: log_event.case_cong)
  obtain lg2 w2 where 2: "log_all localtime pid evs lg1 w1 = Some (lg2, w2)" "same_logger lg lg2" "sinks_ok localtime (ml_sinks lg2) w2"
      "texts (ml_sinks lg2) w2
         = fold (\<lambda>ev. map2 (event_step (line_of localtime) (ml_level lg) ev) (map body_spec (ml_sinks lg))) evs (texts (ml_sinks lg1) w1)"
      "evs \<noteq> [] \<and> flushes lg (last evs) \<longrightarrow> all_flushed lg2 w2" "\<forall>p. p \<notin> logger_files lg \<longrightarrow> files w2 p = files w1 p"
    using Cons.IH [OF 1(3)] Cons.prems(2) unfolding eq by (auto simp: eq messages_def)
  have "log_all localtime pid (ev # evs) lg w = Some (lg2, w2)"
    using 1(1) 2(1) by simp
  moreover have "ev # evs \<noteq> [] \<and> flushes lg (last (ev # evs)) \<longrightarrow> all_flushed lg2 w2"
    using 1(5) 2(1,5) by (cases evs) auto
  moreover have "\<forall>p. p \<notin> logger_files lg \<longrightarrow> files w2 p = files w p"
    using 1(6) 2(6) by simp
  ultimately show ?case
    using 2(2-4) 1(4) by (intro exI [of _ lg2] exI [of _ w2]) simp
qed

end
