(* ===== verification/Log_Files.thy ===== *)
theory Log_Files
  imports Log_Sinks
begin

section \<open>The log files of the program\<close>

text \<open>
  The three logs that \<open>initLogger\<close> opens have different files, so the results on loggers apply to
  them: the theorem at the end says what is in the log directory after any run.
\<close>

subsection \<open>The three logs of \<open>initLogger\<close>\<close>

lemma split_log_name:
  assumes "CHR ''.'' \<notin> set e" and "CHR ''/'' \<notin> set e" and "e \<noteq> []"
  shows "split_by_extension (dir @ ''/lite_monitor.'' @ e) = (dir @ ''/lite_monitor'', CHR ''.'' # e)"
proof -
  have "find_last (CHR ''.'') ((dir @ ''/lite_monitor'') @ CHR ''.'' # e) = Some (length (dir @ ''/lite_monitor''))"
    by (rule find_last_append [OF assms(1)])
  moreover have "find_last (CHR ''/'') (dir @ CHR ''/'' # (''lite_monitor.'' @ e)) = Some (length dir)"
    by (rule find_last_append) (simp add: assms(2))
  ultimately show ?thesis
    using assms(3) by (simp add: split_by_extension_def)
qed

lemma dir_name_log: "CHR ''/'' \<notin> set e \<Longrightarrow> dir_name (dir @ ''/lite_monitor.'' @ e) = dir"
  using find_last_append [of "CHR ''/''" "''lite_monitor.'' @ e" dir] by (simp add: dir_name_def)

lemma last_log_name:
  assumes "CHR ''.'' \<notin> set e" and "CHR ''/'' \<notin> set e" and "e \<noteq> []"
  shows "last (calc_filename (dir @ ''/lite_monitor.'' @ e) i) = last e"
  using split_log_name [OF assms, of dir] assms(3) by (simp add: calc_filename_def)

definition log_start :: "string \<Rightarrow> nat \<Rightarrow> world \<Rightarrow> bool" where
  "log_start base n w \<longleftrightarrow>
     gap_free base n w \<and> calc_filename base ` {..n} \<inter> set (dirs w) = {} \<and> length (content w base) < 2 ^ 63"

text \<open>The texts in the files of a log, newest first.\<close>

definition disk_texts :: "string \<Rightarrow> nat \<Rightarrow> world \<Rightarrow> byte list list" where
  "disk_texts base n w = map (\<lambda>i. content w (calc_filename base i)) [0..<Suc n]"

lemma log_start_keeps:
  assumes "frame P f f' k w w'" and "P \<inter> calc_filename base ` {..n} = {}" and "k < length base"
    and "log_start base n w"
  shows "log_start base n w'" and "disk_texts base n w' = disk_texts base n w"
proof -
  have c: "files w' (calc_filename base i) = files w (calc_filename base i)" if "i \<le> n" for i
    using assms(1,2) that by (auto simp: frame_def)
  have "k < length (calc_filename base i)" for i
    using assms(3) calc_filename_longer less_le_trans by blast
  moreover have "set (dirs w') \<subseteq> set (dirs w) \<union> {d. length d \<le> k}"
    using assms(1) by (simp add: frame_def)
  moreover have "calc_filename base ` {..n} \<inter> set (dirs w) = {}"
    using assms(4) by (simp add: log_start_def)
  ultimately have "calc_filename base ` {..n} \<inter> set (dirs w') = {}"
    by (fastforce simp: not_le [symmetric])
  then show "log_start base n w'"
    using assms(4) c [of 0] by (simp add: log_start_def gap_free_def content_def c)
  show "disk_texts base n w' = disk_texts base n w"
    using c by (simp add: disk_texts_def content_def del: upt_Suc)
qed

lemma view_disk: "view s w = (hd (disk_texts (base_filename s) (max_files s) w) @ pending s w)
    # tl (disk_texts (base_filename s) (max_files s) w)"
  by (simp add: view_def disk_texts_def map_upt_Suc del: upt_Suc)

text \<open>Constructing one more sink leaves the ones made before as they are.\<close>

lemma construct_keeps:
  assumes "frame (log_files s) None (fd (helper s)) (length (dir_name (base_filename s))) w w'"
    and "log_files s \<inter> log_files c = {}" and "sink_ok c w"
    and "length (dir_name (base_filename s)) < length (base_filename c)"
    and "length (dir_name (base_filename c)) < length (base_filename s)"
  shows "sink_ok c w'" and "view c w' = view c w" and "separate s c"
proof -
  let ?s = "s\<lparr>helper := \<lparr>filename = [], fd = None\<rparr>\<rparr>"
  have lf: "log_files ?s = log_files s"
    by (simp add: log_files_def)
  have "separate ?s c" "same_log ?s s"
    using assms(2-5) lf by (auto simp: separate_def same_log_def sink_ok_def sink_open_def)
  moreover have "frame (log_files ?s) (fd (helper ?s)) (fd (helper s)) (length (dir_name (base_filename ?s))) w w'"
    using assms(1) lf by simp
  ultimately show "sink_ok c w'" "view c w' = view c w" "separate s c"
    using separate_keeps [of ?s s w w' c] assms(3) by blast+
qed


definition log_name :: "string \<Rightarrow> string \<Rightarrow> string" where
  "log_name dir e = dir @ ''/lite_monitor.'' @ e"

definition plain_ext :: "string \<Rightarrow> bool" where
  "plain_ext e \<longleftrightarrow> CHR ''.'' \<notin> set e \<and> CHR ''/'' \<notin> set e \<and> e \<noteq> []"

lemma plain_exts [simp]: "plain_ext ''log''" "plain_ext ''warn''" "plain_ext ''error''"
  by (simp_all add: plain_ext_def)

lemma log_names_disjoint:
  assumes "plain_ext e" and "plain_ext e'" and "last e \<noteq> last e'"
  shows "calc_filename (log_name dir e) ` {..n} \<inter> calc_filename (log_name dir e') ` {..n} = {}"
proof -
  have "last (calc_filename (log_name dir x) i) = last x" if "plain_ext x" for x i
    unfolding log_name_def by (rule last_log_name) (use that in \<open>simp_all add: plain_ext_def\<close>)
  then show ?thesis
    using assms by (metis (no_types, lifting) disjoint_iff imageE)
qed

lemma dir_name_log_name: "plain_ext e \<Longrightarrow> dir_name (log_name dir e) = dir"
  unfolding log_name_def by (rule dir_name_log) (simp add: plain_ext_def)

lemma new_log_ok:
  assumes "plain_ext e" and "all_ok w" and "0 < mx" "mx < 2 ^ 63" and "n \<le> 200000" and "log_start (log_name dir e) n w"
  obtains s w' where "new_rotating_sink (log_name dir e) mx n False w = (Inr s, w')" and "sink_ok s w'"
    and "base_filename s = log_name dir e" "max_size s = mx" "max_files s = n"
    and "view s w' = disk_texts (log_name dir e) n w"
    and "frame (log_files s) None (fd (helper s)) (length dir) w w'"
proof (rule new_rotating_sink_ok [OF assms(2) _ assms(3-5), of "log_name dir e"])
  fix s w'
  assume "new_rotating_sink (log_name dir e) mx n False w = (Inr s, w')" "sink_ok s w'"
    "base_filename s = log_name dir e" "max_size s = mx" "max_files s = n"
    "view s w' = map (\<lambda>i. content w (calc_filename (log_name dir e) i)) [0..<Suc n]"
    "frame (log_files s) None (fd (helper s)) (length (dir_name (log_name dir e))) w w'"
  then show thesis
    by (intro that) (simp_all add: disk_texts_def dir_name_log_name [OF assms(1)])
qed (use assms(6) in \<open>simp_all add: log_start_def log_name_def\<close>)

lemma construct_log_keeps:
  assumes "frame (log_files s) None (fd (helper s)) (length dir) w w'"
    and "base_filename s = log_name dir e" "base_filename c = log_name dir e'" "max_files s = n" "max_files c = n"
    and "plain_ext e" "plain_ext e'" "last e \<noteq> last e'" and "sink_ok c w"
  shows "sink_ok c w'" and "view c w' = view c w" and "separate s c"
proof -
  have "length (dir_name (log_name dir x)) < length (log_name dir y)" if "plain_ext x" for x y
    using that by (simp add: dir_name_log_name) (simp add: log_name_def)
  moreover have "log_files s \<inter> log_files c = {}"
    using log_names_disjoint [OF assms(6-8)] assms(2-5) by (simp add: log_files_def)
  ultimately show "sink_ok c w'" "view c w' = view c w" "separate s c"
    using construct_keeps [of s w w' c] assms by (simp_all add: dir_name_log_name)
qed

lemma next_log_start:
  assumes "frame (log_files s) None (fd (helper s)) (length dir) w w'"
    and "base_filename s = log_name dir e" "max_files s = n" and "plain_ext e" "plain_ext e'" "last e \<noteq> last e'"
    and "log_start (log_name dir e') n w"
  shows "log_start (log_name dir e') n w'" and "disk_texts (log_name dir e') n w' = disk_texts (log_name dir e') n w"
  using log_start_keeps [OF assms(1), of "log_name dir e'" n] log_names_disjoint [OF assms(4-6)] assms(2,3,7)
  by (simp_all add: log_files_def) (simp_all add: log_name_def)


lemma make_logger_ok:
  assumes "all_ok w" and "0 < mx" "mx < 2 ^ 63" and "n \<le> 200000"
    and "log_start (log_name dir ''log'') n w" "log_start (log_name dir ''warn'') n w"
      "log_start (log_name dir ''error'') n w"
  obtains lg w' where "make_logger now dir mx n g w = (Inr lg, w')" and "sinks_ok localtime (ml_sinks lg) w'"
    and "ml_level lg = g" "ml_flush_level lg = L_warn"
    and "map body_spec (ml_sinks lg) =
           [(g, None), (g, Some (mx, log_name dir ''log'', n)), (L_warn, Some (mx, log_name dir ''warn'', n)),
            (L_err, Some (mx, log_name dir ''error'', n))]"
    and "texts (ml_sinks lg) w' =
           [[], disk_texts (log_name dir ''log'') n w, disk_texts (log_name dir ''warn'') n w,
            disk_texts (log_name dir ''error'') n w]"
    and "\<forall>p. p \<notin> logger_files lg \<longrightarrow> files w' p = files w p"
proof -
  note ext = plain_exts
  obtain i w1 where i: "new_rotating_sink (log_name dir ''log'') mx n False w = (Inr i, w1)" "sink_ok i w1"
      "base_filename i = log_name dir ''log''" "max_size i = mx" "max_files i = n"
      "view i w1 = disk_texts (log_name dir ''log'') n w" "frame (log_files i) None (fd (helper i)) (length dir) w w1"
    by (rule new_log_ok [OF ext(1) assms(1-5)])
  have w1: "all_ok w1"
    using i(7) assms(1) by (simp add: frame_def)
  note s1 = next_log_start [OF i(7,3,5) ext(1,2) _ assms(6)] next_log_start [OF i(7,3,5) ext(1,3) _ assms(7)]
  obtain a w2 where a: "new_rotating_sink (log_name dir ''warn'') mx n False w1 = (Inr a, w2)" "sink_ok a w2"
      "base_filename a = log_name dir ''warn''" "max_size a = mx" "max_files a = n"
      "view a w2 = disk_texts (log_name dir ''warn'') n w1" "frame (log_files a) None (fd (helper a)) (length dir) w1 w2"
    by (rule new_log_ok [OF ext(2) w1 assms(2-4) s1(1)]) simp
  have w2: "all_ok w2"
    using a(7) w1 by (simp add: frame_def)
  note s2 = next_log_start [OF a(7,3,5) ext(2,3) _ s1(3)]
  obtain e w3 where e: "new_rotating_sink (log_name dir ''error'') mx n False w2 = (Inr e, w3)" "sink_ok e w3"
      "base_filename e = log_name dir ''error''" "max_size e = mx" "max_files e = n"
      "view e w3 = disk_texts (log_name dir ''error'') n w2" "frame (log_files e) None (fd (helper e)) (length dir) w2 w3"
    by (rule new_log_ok [OF ext(3) w2 assms(2-4) s2(1)]) simp_all
  note ia = construct_log_keeps [OF a(7,3) i(3) a(5) i(5) ext(2,1) _ i(2), simplified]
  note ie = construct_log_keeps [OF e(7,3) i(3) e(5) i(5) ext(3,1) _ ia(1), simplified]
  note ae = construct_log_keeps [OF e(7,3) a(3) e(5) a(5) ext(3,2) _ a(2), simplified]
  let ?f = "new_pattern_formatter now logger_pattern"
  let ?lg = "\<lparr>ml_sinks = [\<lparr>ls_level = g, ls_formatter = ?f, ls_body = Console_sink\<rparr>,
      \<lparr>ls_level = g, ls_formatter = ?f, ls_body = Rotating_sink i\<rparr>,
      \<lparr>ls_level = L_warn, ls_formatter = ?f, ls_body = Rotating_sink a\<rparr>,
      \<lparr>ls_level = L_err, ls_formatter = ?f, ls_body = Rotating_sink e\<rparr>],
      ml_level = g, ml_flush_level = L_warn\<rparr>"
  have "make_logger now dir mx n g w = (Inr ?lg, w3)"
    using i(1) a(1) e(1) by (simp add: make_logger_def log_name_def)
  moreover have "sinks_ok localtime (ml_sinks ?lg) w3"
    using e(2) ia ie ae by (simp add: sinks_ok_def body_ok_def body_separate_def separate_sym new_pf_ok)
  moreover have "map body_spec (ml_sinks ?lg) =
               [(g, None), (g, Some (mx, log_name dir ''log'', n)), (L_warn, Some (mx, log_name dir ''warn'', n)),
                (L_err, Some (mx, log_name dir ''error'', n))]"
    using i a e by (simp add: body_spec_def)
  moreover have "texts (ml_sinks ?lg) w3 =
               [[], disk_texts (log_name dir ''log'') n w, disk_texts (log_name dir ''warn'') n w,
                disk_texts (log_name dir ''error'') n w]"
    using i(6) a(6) e(6) ia(2) ie(2) ae(2) s1 s2 by (simp add: texts_def body_view_def)
  moreover have "files w3 p = files w p" if "p \<notin> logger_files ?lg" for p
    using that i(7) a(7) e(7) by (simp add: frame_def logger_files_def body_files_def)
  ultimately show ?thesis
    by (intro that [of ?lg w3]) simp_all
qed


text \<open>The texts that a log of level \<open>lv\<close> gets, under the level \<open>g\<close> of the logger.\<close>

definition recorded :: "(log_msg \<Rightarrow> byte list) \<Rightarrow> level_enum \<Rightarrow> level_enum \<Rightarrow> log_msg list \<Rightarrow> byte list list" where
  "recorded fmt g lv msgs = map fmt (filter (\<lambda>m. msg_level m \<ge> g \<and> msg_level m \<ge> lv) msgs)"

lemma fold_event_step:
  "fold (\<lambda>ev. event_step fmt g ev (lv, Some (mx, r))) evs v = fold (log_step mx) (recorded fmt g lv (messages evs)) v"
  by (induction evs arbitrary: v)
     (simp_all add: recorded_def messages_def event_step_def msg_step_def text_step_def split: log_event.split)

text \<open>
  The files of a log hold the texts \<open>v\<close>, but for an end \<open>buf\<close> of the newest that is still buffered.
\<close>

definition log_holds :: "string \<Rightarrow> nat \<Rightarrow> byte list list \<Rightarrow> byte list \<Rightarrow> world \<Rightarrow> bool" where
  "log_holds base n v buf w \<longleftrightarrow> v = (hd (disk_texts base n w) @ buf) # tl (disk_texts base n w)"

lemma texts_hold:
  assumes "map body_spec xs = [(g, None), (l1, Some (mx, b1, n)), (l2, Some (mx, b2, n)), (l3, Some (mx, b3, n))]"
    and "texts xs w = [v0, v1, v2, v3]"
  obtains p1 p2 p3 where "log_holds b1 n v1 p1 w" "log_holds b2 n v2 p2 w" "log_holds b3 n v3 p3 w"
    and "map (\<lambda>x. body_pending (ls_body x) w) xs = [[], p1, p2, p3]"
proof -
  have body: "\<exists>s. ls_body x = Rotating_sink s \<and> base_filename s = b \<and> max_files s = k"
    if "body_spec x = (l, Some (m, b, k))" for x l m b k
    using that by (auto simp: body_spec_def split: sink_body.splits)
  have con: "ls_body x = Console_sink" if "body_spec x = (l, None)" for x l
    using that by (auto simp: body_spec_def split: sink_body.splits)
  obtain x0 x1 x2 x3 where xs: "xs = [x0, x1, x2, x3]"
    using assms(1) by (auto simp: map_eq_Cons_conv)
  obtain s1 s2 s3 where "ls_body x1 = Rotating_sink s1" "base_filename s1 = b1" "max_files s1 = n"
      "ls_body x2 = Rotating_sink s2" "base_filename s2 = b2" "max_files s2 = n"
      "ls_body x3 = Rotating_sink s3" "base_filename s3 = b3" "max_files s3 = n"
    using assms(1) body unfolding xs by (simp add: body) (metis body)
  moreover have "ls_body x0 = Console_sink"
    using assms(1) con unfolding xs by simp
  ultimately show ?thesis
    using assms(2) view_disk
    by (intro that [of "pending s1 w" "pending s2 w" "pending s3 w"])
       (auto simp: xs log_holds_def texts_def body_view_def body_pending_def)
qed

text \<open>A logger with three logs, from their texts before a sequence of events to those after it.\<close>

lemma logger_records:
  assumes "sinks_ok localtime (ml_sinks lg) w1" and "ml_level lg = g" "ml_flush_level lg = L_warn"
    and "map body_spec (ml_sinks lg) = [(g, None), (g, Some (mx, b1, n)), (L_warn, Some (mx, b2, n)), (L_err, Some (mx, b3, n))]"
    and "texts (ml_sinks lg) w1 = [[], v1, v2, v3]" and "\<forall>m\<in>set (messages evs). loggable localtime m"
  obtains lg' w' p1 p2 p3 where "log_all localtime pid evs lg w1 = Some (lg', w')"
    and "log_holds b1 n (fold (log_step mx) (recorded (line_of localtime) g g (messages evs)) v1) p1 w'"
    and "log_holds b2 n (fold (log_step mx) (recorded (line_of localtime) g L_warn (messages evs)) v2) p2 w'"
    and "log_holds b3 n (fold (log_step mx) (recorded (line_of localtime) g L_err (messages evs)) v3) p3 w'"
    and "evs \<noteq> []
        \<and> (case last evs of
             Message m \<Rightarrow> msg_level m \<in> {L_warn, L_err, L_critical} \<and> msg_level m \<ge> g
           | Periodic_flush \<Rightarrow> True)
      \<longrightarrow> p1 = [] \<and> p2 = [] \<and> p3 = []"
    and "\<forall>p. p \<notin> logger_files lg \<longrightarrow> files w' p = files w1 p"
proof -
  let ?v = "\<lambda>lv v. fold (log_step mx) (recorded (line_of localtime) g lv (messages evs)) v"
  obtain lg' w' where 2: "log_all localtime pid evs lg w1 = Some (lg', w')" "same_logger lg lg'"
      "texts (ml_sinks lg') w' = fold (\<lambda>ev. map2 (event_step (line_of localtime) g ev) (map body_spec (ml_sinks lg))) evs (texts (ml_sinks lg) w1)"
      "evs \<noteq> [] \<and> flushes lg (last evs) \<longrightarrow> all_flushed lg' w'"
      "\<forall>p. p \<notin> logger_files lg \<longrightarrow> files w' p = files w1 p"
    using log_all_ok [OF assms(1,6), of pid] unfolding assms(2) by auto
  have tx: "texts (ml_sinks lg') w' =
      [fold (\<lambda>ev. event_step (line_of localtime) g ev (g, None :: (nat \<times> string \<times> nat) option)) evs [],
       ?v g v1, ?v L_warn v2, ?v L_err v3]"
    unfolding 2(3) assms(4,5) by (simp add: map2_fold fold_event_step)
  have sp: "map body_spec (ml_sinks lg') = [(g, None), (g, Some (mx, b1, n)), (L_warn, Some (mx, b2, n)), (L_err, Some (mx, b3, n))]"
    using 2(2) assms(4) by (simp add: same_logger_def)
  obtain p1 p2 p3 where p: "log_holds b1 n (?v g v1) p1 w'" "log_holds b2 n (?v L_warn v2) p2 w'" "log_holds b3 n (?v L_err v3) p3 w'"
      "map (\<lambda>x. body_pending (ls_body x) w') (ml_sinks lg') = [[], p1, p2, p3]"
    by (rule texts_hold [OF sp tx])
  have "set [[], p1, p2, p3] \<subseteq> {[]}" if "all_flushed lg' w'"
    unfolding p(4) [symmetric] using that by (auto simp: all_flushed_def)
  moreover have "urgent lg m" if "msg_level m \<in> {L_warn, L_err, L_critical}" "msg_level m \<ge> g" for m
    using that assms(2,3) by (auto simp: urgent_def less_eq_level_enum_def level_code_def)
  ultimately show ?thesis
    using 2(4) by (intro that [OF 2(1) p(1-3) _ 2(5)]) (simp add: flushes_def split: log_event.splits)
qed

text \<open>
  C14. The log files record the messages. While the calls on files succeed, \<open>make_logger\<close> builds
  the logger, and after any sequence of messages and periodic flushes each of the three logs holds
  what the specification of a rotating log makes of the texts that were in its files and of the
  lines of the messages of its level, in order and none twice: a line goes to the newest file or,
  when it would pass the limit, starts a new one, and the oldest text beyond \<open>max_files + 1\<close> is
  dropped. At most an end of the newest text is still buffered, and nothing is after a message of
  level warning or higher or a periodic flush. No other file of the system changes.
\<close>

theorem log_files_record_messages:
  assumes "all_ok w" and "0 < mx" "mx < 2 ^ 63" and "n \<le> 200000"
    and "log_start (log_name dir ''log'') n w" "log_start (log_name dir ''warn'') n w"
      "log_start (log_name dir ''error'') n w"
    and "\<forall>m\<in>set (messages evs). loggable localtime m"
  shows "\<exists>lg w1 lg' w' p1 p2 p3.
           make_logger now dir mx n g w = (Inr lg, w1) \<and> log_all localtime pid evs lg w1 = Some (lg', w')
           \<and> log_holds (log_name dir ''log'') n
               (fold (log_step mx) (recorded (line_of localtime) g g (messages evs)) (disk_texts (log_name dir ''log'') n w)) p1 w'
           \<and> log_holds (log_name dir ''warn'') n
               (fold (log_step mx) (recorded (line_of localtime) g L_warn (messages evs)) (disk_texts (log_name dir ''warn'') n w)) p2 w'
           \<and> log_holds (log_name dir ''error'') n
               (fold (log_step mx) (recorded (line_of localtime) g L_err (messages evs)) (disk_texts (log_name dir ''error'') n w)) p3 w'
           \<and> (evs \<noteq> []
                \<and> (case last evs of
                     Message m \<Rightarrow> msg_level m \<in> {L_warn, L_err, L_critical} \<and> msg_level m \<ge> g
                   | Periodic_flush \<Rightarrow> True)
              \<longrightarrow> p1 = [] \<and> p2 = [] \<and> p3 = [])
           \<and> (\<forall>p. (\<forall>e\<in>{''log'', ''warn'', ''error''}. p \<notin> calc_filename (log_name dir e) ` {..n})
                  \<longrightarrow> files w' p = files w p)"
proof -
  let ?b = "log_name dir"
  obtain lg w1 where 1: "make_logger now dir mx n g w = (Inr lg, w1)" "sinks_ok localtime (ml_sinks lg) w1"
      "ml_level lg = g" "ml_flush_level lg = L_warn"
      "map body_spec (ml_sinks lg) = [(g, None), (g, Some (mx, ?b ''log'', n)), (L_warn, Some (mx, ?b ''warn'', n)),
         (L_err, Some (mx, ?b ''error'', n))]"
      "texts (ml_sinks lg) w1 = [[], disk_texts (?b ''log'') n w, disk_texts (?b ''warn'') n w, disk_texts (?b ''error'') n w]"
      "\<forall>p. p \<notin> logger_files lg \<longrightarrow> files w1 p = files w p"
    by (rule make_logger_ok [OF assms(1-7)])
  have fs: "logger_files lg = (\<Union>e\<in>{''log'', ''warn'', ''error''}. calc_filename (?b e) ` {..n})"
    unfolding logger_files_spec 1(5) by simp
  show ?thesis
  proof (rule logger_records [OF 1(2-6) assms(8), of pid], goal_cases)
    case (1 lg' w' p1 p2 p3)
    then have "\<forall>p. (\<forall>e\<in>{''log'', ''warn'', ''error''}. p \<notin> calc_filename (?b e) ` {..n}) \<longrightarrow> files w' p = files w p"
      using \<open>\<forall>p. p \<notin> logger_files lg \<longrightarrow> files w1 p = files w p\<close> fs by simp
    with 1 \<open>make_logger now dir mx n g w = (Inr lg, w1)\<close> show ?case
      by (intro exI conjI) assumption+
  qed
qed

lemma log_holds_flushed: "log_holds base n v [] w \<longleftrightarrow> disk_texts base n w = v"
proof -
  have "disk_texts base n w \<noteq> []"
    by (simp add: disk_texts_def)
  then show ?thesis
    by (auto simp: log_holds_def)
qed

definition empty_world :: world where
  "empty_world = \<lparr>files = Map.empty, dirs = [], streams = [], outcomes = []\<rparr>"

definition demo_msgs :: "log_msg list" where
  "demo_msgs = [demo_msg L_info (text_bytes ''up''), demo_msg L_warn (text_bytes ''disk'')]"

definition line_up :: "byte list" where
  "line_up = text_bytes ''[2024-01-02 13:04:05.007] [info] up'' @ [10]"

definition line_disk :: "byte list" where
  "line_disk = text_bytes ''[2024-01-02 13:04:05.007] [warning] disk'' @ [10]"

lemma demo_log_start: "log_start base n empty_world"
  by (simp add: log_start_def gap_free_def content_def empty_world_def)

lemma demo_disk_texts: "disk_texts base (Suc 0) empty_world = [[], []]"
  by (simp add: disk_texts_def content_def empty_world_def)

lemma demo_lines:
  "line_of (\<lambda>s. demo_tm) (demo_msg L_info (text_bytes ''up'')) = line_up"
  "line_of (\<lambda>s. demo_tm) (demo_msg L_warn (text_bytes ''disk'')) = line_disk"
  unfolding line_of_def line_disk_def demo_line
  by (simp_all add: line_up_def log_line_def full_datetime_def demo_tm_def demo_msg_def append_int_def decimal_int_def
      decimal.simps pad2_def pad3_def to_u32_def time_fraction_def seconds_of_def level_name_def level_string_views_def
      level_code_def text_bytes_def)

lemma demo_lengths: "length line_up = 36" "length line_disk = 41" "line_up \<noteq> []"
  by (simp_all add: line_up_def line_disk_def text_bytes_def)

lemma demo_levels: "msg_level (demo_msg l txt) = l"
  by (simp add: demo_msg_def)

lemma demo_recorded:
  "recorded (line_of (\<lambda>s. demo_tm)) L_info L_info demo_msgs = [line_up, line_disk]"
  "recorded (line_of (\<lambda>s. demo_tm)) L_info L_warn demo_msgs = [line_disk]"
  "recorded (line_of (\<lambda>s. demo_tm)) L_info L_err demo_msgs = []"
  by (simp_all add: recorded_def demo_msgs_def demo_levels demo_lines less_eq_level_enum_def level_code_def)

lemma demo_loggable: "\<forall>m\<in>set demo_msgs. loggable (\<lambda>s. demo_tm) m"
  by (simp add: demo_msgs_def loggable_def demo_lines demo_lengths) (simp add: demo_msg_def seconds_of_def)

lemma messages_map: "messages (map Message ms) = ms"
  by (induction ms) (simp_all add: messages_def)

theorem log_files_record_messages_witness:
  "\<exists>lg w1 lg' w'. make_logger 0 ''l'' 50 1 L_info empty_world = (Inr lg, w1)
     \<and> log_all (\<lambda>s. demo_tm) 7 (map Message demo_msgs) lg w1 = Some (lg', w')
     \<and> disk_texts (log_name ''l'' ''log'') 1 w' = [line_disk, line_up]
     \<and> disk_texts (log_name ''l'' ''warn'') 1 w' = [line_disk, []]
     \<and> disk_texts (log_name ''l'' ''error'') 1 w' = [[], []]"
proof -
  have "all_ok empty_world"
    by (simp add: all_ok_def empty_world_def)
  moreover have "fold (log_step 50) [line_up, line_disk] [[], []] = [line_disk, line_up]"
    "fold (log_step 50) [line_disk] [[], []] = [line_disk, []]"
    by (simp_all add: log_step_def demo_lengths)
  moreover have "demo_msgs \<noteq> []" "msg_level (last demo_msgs) = L_warn" "L_info \<le> L_warn"
    by (simp_all add: demo_msgs_def demo_levels less_eq_level_enum_def level_code_def)
  ultimately show ?thesis
    using log_files_record_messages [of empty_world 50 1 "''l''" "map Message demo_msgs" "\<lambda>s. demo_tm" 0 L_info 7]
      demo_log_start demo_loggable
    by (auto simp: demo_recorded demo_disk_texts log_holds_flushed messages_map last_map)
qed

end
