(* ===== verification/Rotating_Faults.thy ===== *)
theory Rotating_Faults
  imports Rotating_Props
begin

section \<open>Rotation when calls fail\<close>

text \<open>
  Any call may fail here. The files of a log, oldest first, then never hold anything but what was
  there before and what was logged since, in that order and nothing twice, although parts can be
  lost. A log whose file could not be opened again after a rotation has no stream, and the next
  message is written to a null pointer when it fits the size that was counted before.
\<close>

subsection \<open>The archive\<close>

text \<open>The texts \<open>c n, \<dots>, c 0\<close> in a row.\<close>

primrec archive_of :: "(nat \<Rightarrow> byte list) \<Rightarrow> nat \<Rightarrow> byte list" where
  "archive_of c 0 = c 0"
| "archive_of c (Suc n) = c (Suc n) @ archive_of c n"

definition text_at :: "string \<Rightarrow> world \<Rightarrow> nat \<Rightarrow> byte list" where
  "text_at base w i = content w (calc_filename base i)"

definition archive :: "rotating_sink \<Rightarrow> world \<Rightarrow> byte list" where
  "archive s w = archive_of (text_at (base_filename s) w) (max_files s) @ pending s w"

lemma archive_of_mono:
  "(\<And>i. i \<le> n \<Longrightarrow> subseq (c' i) (c i)) \<Longrightarrow> subseq (archive_of c' n) (archive_of c n)"
  by (induction n) (simp_all add: list_emb_append_mono)

lemma archive_of_cong: "(\<And>i. i \<le> n \<Longrightarrow> c' i = c i) \<Longrightarrow> archive_of c' n = archive_of c n"
  by (induction n) simp_all

lemma archive_of_split: "archive_of c n = archive_of (c(0 := [])) n @ c 0"
  by (induction n) simp_all

lemma archive_of_top: "archive_of (c(n := x)) n = x @ archive_of (c(n := [])) n"
proof (cases n)
  case (Suc m)
  have "archive_of (c(Suc m := y)) m = archive_of c m" for y
    by (rule archive_of_cong) auto
  then show ?thesis
    by (simp add: Suc)
qed simp

text \<open>A text moves to an older place that is free.\<close>

lemma archive_of_shift:
  "i < n \<Longrightarrow> subseq (archive_of (c(Suc i := c i, i := [])) n) (archive_of c n)"
proof (induction n)
  case (Suc n)
  show ?case
  proof (cases "i = n")
    case True
    have "archive_of (c(Suc n := c n, n := [])) n = archive_of (c(n := [])) n"
      by (rule archive_of_cong) auto
    then have "archive_of (c(Suc i := c i, i := [])) (Suc n) = c n @ archive_of (c(n := [])) n"
      by (simp add: True)
    also have "\<dots> = archive_of c n"
      using archive_of_top [of c n "c n"] by simp
    finally have eq: "archive_of (c(Suc i := c i, i := [])) (Suc n) = archive_of c n" .
    have "subseq (archive_of c n) (archive_of c (Suc n))"
      by (simp add: subseq_drop_many)
    then show ?thesis
      by (simp only: eq)
  next
    case False
    with Suc show ?thesis
      by (simp add: list_emb_append_mono)
  qed
qed simp


subsection \<open>Every operation keeps the archive in order\<close>

text \<open>
  \<open>held s w\<close>: the stream of the log, if there is one, writes to its base file, and no other stream
  of the process writes to one of its files.
\<close>

definition held :: "rotating_sink \<Rightarrow> world \<Rightarrow> bool" where
  "held s w \<longleftrightarrow>
     filename (helper s) = base_filename s
     \<and> (\<forall>d st. stream_at w d = Some st \<longrightarrow>
          (if fd (helper s) = Some d then stream_path st = base_filename s else stream_path st \<notin> log_files s))"

lemma text_at_tick [simp]: "text_at base (tick w) = text_at base w"
  by (simp add: text_at_def fun_eq_iff)

lemma drain_streams:
  "stream_at (drain d k keep bs w) e =
     (if e = d then map_option (\<lambda>st. st\<lparr>stream_buf := take keep (drop k bs)\<rparr>) (stream_at w d) else stream_at w e)"
  by (auto simp: drain_def stream_at_update [of "w\<lparr>files := _\<rparr>", simplified] stream_at_def split: option.splits)

lemma held_drain [simp]: "held s (drain d k keep bs w) = held s w"
  by (auto simp: held_def drain_streams)

lemma held_tick [simp]: "held s (tick w) = held s w"
  by (simp add: held_def)

lemma held_uses: "held s w \<Longrightarrow> uses (log_files s) (fd (helper s)) w"
  using base_in_log_files [of s] by (auto simp: held_def uses_def)

lemma drain_text:
  "content (drain d k keep bs w) p =
     (case stream_at w d of
        None \<Rightarrow> content w p
      | Some st \<Rightarrow> if p = stream_path st \<and> files w p \<noteq> None then content w p @ take k bs else content w p)"
  by (auto simp: drain_def content_def append_file_def split: option.splits)

text \<open>Draining the own stream with the new buffer \<open>bs\<close>.\<close>

lemma archive_drain_own:
  assumes "held s w" and "fd (helper s) = Some d"
  shows "subseq (archive s (drain d k keep bs w)) (archive_of (text_at (base_filename s) w) (max_files s) @ bs)"
proof (cases "stream_at w d")
  case None
  then show ?thesis
    using assms(2) by (simp add: archive_def drain_def pending_def buffered_def subseq_rev_drop_many)
next
  case (Some st)
  have p: "stream_path st = base_filename s"
    using assms Some by (auto simp: held_def)
  have pd: "pending s (drain d k keep bs w) = take keep (drop k bs)"
    using assms(2) Some by (simp add: pending_def buffered_def drain_streams)
  let ?c = "text_at (base_filename s) w" and ?c' = "text_at (base_filename s) (drain d k keep bs w)"
  have at0: "?c' 0 = ?c 0 @ take k bs \<or> ?c' 0 = ?c 0"
    by (simp add: text_at_def drain_text Some p)
  have "?c'(0 := []) = ?c(0 := [])"
    using calc_filename_inj [of "base_filename s" _ 0] by (auto simp: text_at_def drain_text Some p fun_eq_iff)
  then have "archive_of ?c' (max_files s) = archive_of (?c(0 := [])) (max_files s) @ ?c' 0"
    by (metis archive_of_split)
  moreover have "archive_of ?c (max_files s) = archive_of (?c(0 := [])) (max_files s) @ ?c 0"
    by (rule archive_of_split)
  moreover have "subseq (take k bs @ take keep (drop k bs)) bs"
    by (metis take_add take_is_prefix prefix_imp_subseq)
  moreover have "subseq (take keep (drop k bs)) bs"
    by (meson prefix_imp_subseq subseq_order.order_trans suffix_drop suffix_imp_subseq take_is_prefix)
  ultimately show ?thesis
    using at0 by (auto simp: archive_def pd subseq_append')
qed


lemma archive_tick [simp]: "archive s (tick w) = archive s w"
  by (simp add: archive_def pending_def split: option.split)

lemma pending_Some: "fd (helper s) = Some d \<Longrightarrow> pending s w = buffered w d"
  by (simp add: pending_def)

lemma calc_filename_log_files: "i \<le> max_files s \<Longrightarrow> calc_filename (base_filename s) i \<in> log_files s"
  by (simp add: log_files_def)

text \<open>Draining another stream.\<close>

lemma archive_drain_other:
  assumes "held s w" and "fd (helper s) \<noteq> Some d"
  shows "archive s (drain d k keep bs w) = archive s w"
proof -
  have "stream_path st \<notin> log_files s" if "stream_at w d = Some st" for st
    using assms that by (metis held_def)
  then have "text_at (base_filename s) (drain d k keep bs w) i = text_at (base_filename s) w i" if "i \<le> max_files s" for i
    using that calc_filename_log_files [OF that]
    by (auto simp: text_at_def drain_text split: option.splits)
  moreover have "pending s (drain d k keep bs w) = pending s w"
    using assms(2) by (simp add: pending_def buffered_def drain_streams split: option.split)
  ultimately show ?thesis
    by (simp add: archive_def cong: archive_of_cong)
qed

lemma archive_fflush_stream:
  assumes "held s w"
  shows "subseq (archive s (snd (fflush_stream d w))) (archive s w) \<and> held s (snd (fflush_stream d w))"
proof (cases "fd (helper s) = Some d")
  case True
  have "subseq (archive s (drain d k keep (buffered w d) (tick w))) (archive s w)" for k keep
    using archive_drain_own [of s "tick w" d k keep "buffered w d"] assms True by (simp add: archive_def pending_Some)
  then show ?thesis
    by (cases rule: next_outcome_tick [of w]) (simp add: fflush_stream_def Let_def assms split: option.split)
next
  case False
  then show ?thesis
    using assms archive_drain_other [of s "tick w" d]
    by (cases rule: next_outcome_tick [of w]) (simp add: fflush_stream_def Let_def split: option.split)
qed

lemma archive_fflush:
  assumes "held s w"
  shows "subseq (archive s (snd (fflush f w))) (archive s w) \<and> held s (snd (fflush f w))"
proof -
  have "subseq (archive s (snd (fflush_streams ds w))) (archive s w) \<and> held s (snd (fflush_streams ds w))" for ds
    using assms
  proof (induction ds arbitrary: w)
    case (Cons d ds)
    then show ?case
      using archive_fflush_stream [OF Cons.prems, of d]
      by (auto simp: split_beta Let_def intro: subseq_order.order_trans)
  qed simp
  then show ?thesis
    using archive_fflush_stream [OF assms] by (simp add: fflush_def split: option.split)
qed

lemma archive_fwrite:
  assumes "held s w" and "fd (helper s) = Some d"
  shows "subseq (archive s (snd (fwrite m d w))) (archive s w @ m) \<and> held s (snd (fwrite m d w))"
proof (rule next_outcome_tick [of w])
  fix c assume c: "next_outcome w = (c, tick w)"
  define n where "n = (case failed c of None \<Rightarrow> length m | Some k \<Rightarrow> min k (length m))"
  let ?buf = "buffered w d @ take n m"
  have "subseq (archive s (drain d (drained c) (length ?buf) ?buf (tick w)))
     (archive_of (text_at (base_filename s) w) (max_files s) @ ?buf)"
    using archive_drain_own [of s "tick w" d "drained c" "length ?buf" ?buf] assms by simp
  moreover have "subseq (archive_of (text_at (base_filename s) w) (max_files s) @ ?buf) (archive s w @ m)"
    using assms(2) by (simp add: archive_def pending_Some subseq_append' prefix_imp_subseq take_is_prefix)
  ultimately show ?thesis
    using assms(1) by (auto simp: fwrite_def c Let_def n_def intro: subseq_order.order_trans)
qed


text \<open>Opening: a file keeps its text or loses it.\<close>

definition only_emptied :: "world \<Rightarrow> world \<Rightarrow> bool" where
  "only_emptied w w' \<longleftrightarrow> (\<forall>p. content w' p = content w p \<or> content w' p = [])"

lemma only_emptied_refl [simp]: "only_emptied w w"
  by (simp add: only_emptied_def)

lemma only_emptied_trans: "only_emptied u v \<Longrightarrow> only_emptied v w \<Longrightarrow> only_emptied u w"
  unfolding only_emptied_def by metis

lemma only_emptied_fopen: "only_emptied w (snd (fopen_s p wb w))"
  by (cases rule: next_outcome_tick [of w])
     (auto simp: fopen_s_def only_emptied_def content_def split: option.splits)

lemma only_emptied_fclose: "buffered w d = [] \<Longrightarrow> only_emptied w (fclose d w)"
  by (cases rule: next_outcome_tick [of w])
     (auto simp: fclose_def fflush_stream_def Let_def only_emptied_def drain_def append_file_def content_def
       split: option.splits)

lemma only_emptied_prepare: "only_emptied w (snd (prepare p trunc w))"
proof -
  let ?v = "snd (create_dir (dir_name p) w)"
  have v: "only_emptied w ?v"
    using create_dir_dirs_only [of "dir_name p" w] by (simp add: dirs_only_def only_emptied_def content_def)
  have "buffered (snd (fopen_s p True ?v)) d = []" if "fst (fopen_s p True ?v) = Some d" for d
    using fopen_stream [OF that] by (simp add: buffered_def)
  then have "only_emptied ?v (snd (truncate_file p ?v))"
    by (auto simp: truncate_file_def split_beta split: option.split
        intro: only_emptied_fopen only_emptied_trans [OF only_emptied_fopen only_emptied_fclose])
  then show ?thesis
    using v only_emptied_trans [OF v] by (simp add: prepare_def Let_def)
qed

lemma only_emptied_open_loop: "only_emptied w (snd (open_loop t p trunc w))"
proof (induction t arbitrary: w)
  case (Suc t)
  have o: "only_emptied w (snd (fopen_s p False (snd (prepare p trunc w))))"
    by (rule only_emptied_trans [OF only_emptied_prepare only_emptied_fopen])
  show ?case
    by (simp add: open_loop_Suc o only_emptied_trans [OF o Suc.IH] only_emptied_trans [OF only_emptied_prepare Suc.IH])
qed simp

text \<open>Renaming: a text moves on or is lost.\<close>

definition arch :: "string \<Rightarrow> nat \<Rightarrow> world \<Rightarrow> byte list" where
  "arch base n w = archive_of (text_at base w) n"

lemma arch_emptied: "only_emptied w w' \<Longrightarrow> subseq (arch base n w') (arch base n w)"
  unfolding arch_def by (rule archive_of_mono) (metis text_at_def only_emptied_def list_emb_Nil subseq_order.order_refl)

lemma arch_rename_path:
  assumes "i < n"
  shows "subseq (arch base n (snd (rename_path (calc_filename base i) (calc_filename base (Suc i)) w))) (arch base n w)"
proof (cases rule: next_outcome_tick [of w])
  case (1 c)
  let ?w = "snd (rename_path (calc_filename base i) (calc_filename base (Suc i)) w)"
  have "?w = tick w \<or> text_at base ?w = (text_at base w)(Suc i := text_at base w i, i := [])"
  proof (cases "files w (calc_filename base i) = None \<or> failed c \<noteq> None")
    case True
    then show ?thesis
      using 1 by (auto simp: rename_path_def split: option.split)
  next
    case False
    then show ?thesis
      using 1 by (auto simp: rename_path_def text_at_def content_def)
  qed
  then consider "?w = tick w" | "text_at base ?w = (text_at base w)(Suc i := text_at base w i, i := [])"
    by blast
  then show ?thesis
    using archive_of_shift [OF assms, of "text_at base w"] by cases (simp_all add: arch_def)
qed

lemma only_emptied_remove: "only_emptied w (snd (remove_path p w))"
  by (cases rule: next_outcome_tick [of w]) (auto simp: remove_path_def only_emptied_def content_def)

lemma arch_rotate_loop: "m \<le> n \<Longrightarrow> subseq (arch base n (snd (rotate_loop base m w))) (arch base n w)"
proof (induction m arbitrary: w)
  case (Suc m)
  have rename: "subseq (arch base n (snd (rename_file (calc_filename base m) (calc_filename base (Suc m)) v))) X"
    if "subseq (arch base n v) X" for v X
    unfolding rename_file_def
    using that Suc.prems arch_rename_path [of m n base] arch_emptied [OF only_emptied_remove]
    by (meson Suc_le_lessD subseq_order.order_trans)
  have rest: "subseq (arch base n (snd (rotate_loop base m v))) X" if "subseq (arch base n v) X" for v X
    using Suc.IH [of v] Suc.prems that by (meson Suc_leD subseq_order.order_trans)
  have "subseq (arch base n (snd (path_exists p w))) (arch base n w)" for p
    by (cases rule: next_outcome_tick [of w]) (simp add: path_exists_def arch_def)
  then show ?case
    by (auto simp: split_beta Let_def intro: rename rest)
qed simp


subsection \<open>Rotation and logging\<close>

lemma archive_arch: "archive s w = arch (base_filename s) (max_files s) w @ pending s w"
  by (simp add: archive_def arch_def)

lemma text_at_streams [simp]: "text_at base (w\<lparr>streams := ss\<rparr>) = text_at base w"
  by (simp add: text_at_def content_def fun_eq_iff)

lemma arch_close:
  assumes "held s w"
  shows "subseq (arch (base_filename s) (max_files s) (snd (fh_close (helper s) w))) (archive s w)"
proof (cases "fd (helper s)")
  case None
  then show ?thesis
    by (simp add: archive_arch subseq_rev_drop_many)
next
  case (Some d)
  let ?v = "snd (fflush_stream d w)"
  have "arch b n (fclose d w) = arch b n ?v" for b n
    by (simp add: arch_def fclose_def Let_def)
  then have "subseq (arch (base_filename s) (max_files s) (fclose d w)) (archive s ?v)"
    by (simp add: archive_arch subseq_rev_drop_many)
  then show ?thesis
    using archive_fflush_stream [OF assms, of d] Some
    by (auto simp: fh_close_def intro: subseq_order.order_trans)
qed

text \<open>What \<open>reopen\<close> leaves, in the state where the stream has been closed.\<close>

lemma reopen_stream:
  assumes "fd fh = None"
  shows "filename (fst (snd (fh_reopen True fh w))) = filename fh"
    and "fd (fst (snd (fh_reopen True fh w))) = Some d \<Longrightarrow>
         stream_at (snd (snd (fh_reopen True fh w))) d = Some \<lparr>stream_path = filename fh, stream_buf = []\<rparr>"
    and "fst (fh_reopen True fh w) = Returns \<longleftrightarrow> fd (fst (snd (fh_reopen True fh w))) \<noteq> None"
    and "fst (fh_reopen True fh w) \<noteq> Undefined_behaviour"
    and "only_emptied w (snd (snd (fh_reopen True fh w)))"
  using assms
  by (auto simp: fh_reopen_def fh_open_fields open_loop_stream only_emptied_open_loop split: if_splits)

definition reopened :: "rotating_sink \<Rightarrow> world \<Rightarrow> ending \<times> file_helper \<times> world" where
  "reopened s w = fh_reopen True (fst (fh_close (helper s) w))
     (snd (rotate_loop (base_filename s) (max_files s) (snd (fh_close (helper s) w))))"

lemma rotate_files_reopened:
  "rotate_files s w =
     (case fst (rotate_loop (base_filename s) (max_files s) (snd (fh_close (helper s) w))) of
        None \<Rightarrow> (fst (reopened s w), s\<lparr>helper := fst (snd (reopened s w))\<rparr>, snd (snd (reopened s w)))
      | Some (src, target) \<Rightarrow>
          if fst (reopened s w) = Returns
          then (Throws (Rename_failed src target),
                s\<lparr>helper := fst (snd (reopened s w)), current_size := 0\<rparr>, snd (snd (reopened s w)))
          else (fst (reopened s w), s\<lparr>helper := fst (snd (reopened s w))\<rparr>, snd (snd (reopened s w))))"
  unfolding rotate_files_def reopened_def by (simp add: split_beta Let_def)

lemma rotate_files_fields:
  "helper (fst (snd (rotate_files s w))) = fst (snd (reopened s w))"
  "snd (snd (rotate_files s w)) = snd (snd (reopened s w))"
  "same_log s (fst (snd (rotate_files s w)))"
  by (auto simp: rotate_files_reopened same_log_def split: option.split)

lemma reopened_facts:
  shows "filename (fst (snd (reopened s w))) = filename (helper s)"
    and "fd (fst (snd (reopened s w))) = Some d \<Longrightarrow>
         stream_at (snd (snd (reopened s w))) d = Some \<lparr>stream_path = filename (helper s), stream_buf = []\<rparr>"
    and "fst (reopened s w) = Returns \<longleftrightarrow> fd (fst (snd (reopened s w))) \<noteq> None"
    and "fst (reopened s w) \<noteq> Undefined_behaviour"
  using reopen_stream(1-4) [OF fh_close_fields(1) [of "helper s" w]] unfolding reopened_def by simp_all

lemma frame_other:
  assumes "frame P f f' n w w'" and "f' \<noteq> Some d" and "stream_at w' d = Some st"
  shows "f \<noteq> Some d \<and> stream_at w d = Some st"
  using assms unfolding frame_def by (metis option.distinct(1))

lemma archive_rotate:
  assumes "held s w"
  shows "subseq (archive (fst (snd (rotate_files s w))) (snd (snd (rotate_files s w)))) (archive s w)
         \<and> held (fst (snd (rotate_files s w))) (snd (snd (rotate_files s w)))"
proof -
  let ?s = "fst (snd (rotate_files s w))" and ?w = "snd (snd (rotate_files s w))"
  let ?v = "snd (fh_close (helper s) w)" and ?b = "base_filename s" and ?n = "max_files s"
  have sl: "base_filename ?s = ?b" "max_files ?s = ?n"
    using rotate_files_fields(3) [of s w] by (simp_all add: same_log_def)
  have "only_emptied (snd (rotate_loop ?b ?n ?v)) ?w"
    unfolding rotate_files_fields reopened_def by (rule reopen_stream(5)) simp
  then have "subseq (arch ?b ?n ?w) (arch ?b ?n ?v)"
    using arch_emptied arch_rotate_loop [of ?n ?n ?b ?v] by (meson order_refl subseq_order.order_trans)
  then have "subseq (arch ?b ?n ?w) (archive s w)"
    using arch_close [OF assms] by (rule subseq_order.order_trans)
  moreover have st: "stream_at ?w d = Some \<lparr>stream_path = ?b, stream_buf = []\<rparr>" if "fd (helper ?s) = Some d" for d
    using reopened_facts(2) [of s w d] that assms by (simp add: rotate_files_fields held_def)
  then have "pending ?s ?w = []"
    by (simp add: pending_def buffered_def split: option.split)
  moreover have fr: "frame (log_files s) (fd (helper s)) (fd (helper ?s)) (length (dir_name ?b)) w ?w"
    by (rule frame_rotate) (use assms held_uses [OF assms] in \<open>auto simp: held_def calc_filename_log_files\<close>)
  have "held ?s ?w"
    unfolding held_def
  proof (intro conjI allI impI)
    show "filename (helper ?s) = base_filename ?s"
      using reopened_facts(1) assms by (simp add: rotate_files_fields sl held_def)
    fix d st assume d: "stream_at ?w d = Some st"
    show "if fd (helper ?s) = Some d then stream_path st = base_filename ?s else stream_path st \<notin> log_files ?s"
    proof (cases "fd (helper ?s) = Some d")
      case False
      then have "fd (helper s) \<noteq> Some d" "stream_at w d = Some st"
        using frame_other [OF fr False d] by simp_all
      then have "stream_path st \<notin> log_files s"
        using assms by (metis held_def)
      then show ?thesis
        using False sl by (simp add: log_files_def)
    qed (use d st sl in auto)
  qed
  ultimately show ?thesis
    by (simp add: archive_arch sl)
qed


lemma archive_write:
  assumes "held s w"
  shows "subseq (archive (fst (snd (write_formatted m k s w))) (snd (snd (write_formatted m k s w)))) (archive s w @ m)
         \<and> held (fst (snd (write_formatted m k s w))) (snd (snd (write_formatted m k s w)))"
proof -
  have upd: "archive (s\<lparr>current_size := k\<rparr>) v = archive s v" "held (s\<lparr>current_size := k\<rparr>) v = held s v" for v
    by (simp_all add: archive_arch pending_def held_def log_files_def)
  show ?thesis
    using archive_fwrite [OF assms, of _ m]
    by (simp add: write_formatted_def fh_write_def split_beta assms upd subseq_rev_drop_many split: option.split)
qed

text \<open>Whatever fails, a message leaves at most the old archive followed by the message.\<close>

lemma archive_sink_it:
  assumes "held s w"
  shows "subseq (archive (fst (snd (sink_it m s w))) (snd (snd (sink_it m s w)))) (archive s w @ m)
         \<and> held (fst (snd (sink_it m s w))) (snd (snd (sink_it m s w)))"
proof -
  let ?v = "snd (fh_flush (helper s) w)" and ?u = "snd (fh_size (helper s) (snd (fh_flush (helper s) w)))"
  have v: "subseq (archive s ?v) (archive s w)" "held s ?v"
    using archive_fflush [OF assms] by (simp_all add: fh_flush_def split_beta)
  have "?u = ?v \<or> ?u = tick ?v"
    by (cases rule: next_outcome_tick [of ?v])
       (auto simp: fh_size_def filesize_def split_beta split: option.split)
  then have u: "subseq (archive s ?u) (archive s w)" "held s ?u"
    using v by auto
  have r: "subseq (archive (fst (snd (rotate_files s ?u))) (snd (snd (rotate_files s ?u)))) (archive s w)"
      "held (fst (snd (rotate_files s ?u))) (snd (snd (rotate_files s ?u)))"
    using archive_rotate [OF u(2)] u(1) by (auto intro: subseq_order.order_trans)
  have wr: "subseq (archive (fst (snd (write_formatted m k x y))) (snd (snd (write_formatted m k x y)))) (archive s w @ m)
      \<and> held (fst (snd (write_formatted m k x y))) (snd (snd (write_formatted m k x y)))"
    if "subseq (archive x y) (archive s w)" "held x y" for x y k
  proof -
    have "subseq (archive x y @ m) (archive s w @ m)"
      using that(1) by simp
    then show ?thesis
      using archive_write [OF that(2), of m k] by (meson subseq_order.order_trans)
  qed
  show ?thesis
    using wr [OF _ assms] wr [OF u] wr [OF r] v u r
    by (auto simp: sink_it_def split_beta Let_def subseq_rev_drop_many split: sum.split)
qed


text \<open>
  Messages in a row, as the logger hands them to the sink: an exception is caught, undefined
  behaviour ends the run.
\<close>

fun sink_all :: "byte list list \<Rightarrow> rotating_sink \<Rightarrow> world \<Rightarrow> bool \<times> rotating_sink \<times> world" where
  "sink_all [] s w = (True, s, w)"
| "sink_all (m # ms) s w =
     (let (e, s1, w1) = sink_it m s w in
      if e = Undefined_behaviour then (False, s1, w1) else sink_all ms s1 w1)"

lemma archive_sink_all:
  assumes "held s w"
  shows "subseq (archive (fst (snd (sink_all ms s w))) (snd (snd (sink_all ms s w)))) (archive s w @ concat ms)"
  using assms
proof (induction ms arbitrary: s w)
  case (Cons m ms)
  let ?s = "fst (snd (sink_it m s w))" and ?w = "snd (snd (sink_it m s w))"
  have 1: "subseq (archive ?s ?w) (archive s w @ m)" "held ?s ?w"
    using archive_sink_it [OF Cons.prems, of m] by simp_all
  then have "subseq (archive ?s ?w @ concat ms) ((archive s w @ m) @ concat ms)"
    by (intro list_emb_append_mono) simp_all
  with Cons.IH [OF 1(2)] have "subseq (archive (fst (snd (sink_all ms ?s ?w))) (snd (snd (sink_all ms ?s ?w))))
      ((archive s w @ m) @ concat ms)"
    by (rule subseq_order.order_trans)
  moreover have "subseq (archive ?s ?w) ((archive s w @ m) @ concat ms)"
    by (rule subseq_rev_drop_many [OF 1(1)])
  ultimately show ?case
    by (simp add: split_beta Let_def)
qed simp

text \<open>
  C15. Under any failures of calls (opening, writing, flushing, closing, renaming, removing,
  looking up a file), the files of a log, read from the oldest to the newest, with what is still
  buffered, are a subsequence of what they held before followed by the logged messages: rotation
  and its error paths never reorder, duplicate or invent a byte.
\<close>

theorem log_never_scrambled:
  assumes "held s w" and "sink_all ms s w = (ok, s', w')"
  shows "subseq (archive s' w') (archive s w @ concat ms)"
  using archive_sink_all [OF assms(1), of ms] assms(2) by simp


subsection \<open>A log that lost its stream\<close>

lemma write_formatted_undefined:
  "fst (write_formatted m k s w) = Undefined_behaviour \<longleftrightarrow> fd (helper s) = None"
  by (simp add: write_formatted_def fh_write_def split_beta Let_def split: option.split)

lemma rotate_files_ending:
  "fst (rotate_files s w) \<noteq> Undefined_behaviour"
  "fst (rotate_files s w) = Returns \<Longrightarrow> fd (helper (fst (snd (rotate_files s w)))) \<noteq> None"
  "fst (rotate_files s w) = Throws (Open_failed p) \<Longrightarrow>
     fd (helper (fst (snd (rotate_files s w)))) = None
     \<and> current_size (fst (snd (rotate_files s w))) = current_size s"
  using reopened_facts(3,4) [of s w]
  by (auto simp: rotate_files_reopened split: option.splits if_splits)

lemma fh_flush_ending:
  "fst (fh_flush fh w) = Returns \<or> fst (fh_flush fh w) = Throws (Flush_failed (filename fh))"
  by (simp add: fh_flush_def split_beta)

lemma fh_size_ending:
  "fst (fh_size fh w) = Inr n \<Longrightarrow> fd fh \<noteq> None" "fst (fh_size fh w) \<noteq> Inl (Open_failed p)"
  by (auto simp: fh_size_def split_beta split: option.splits)

text \<open>
  C32. Undefined behaviour: a message is handed to \<open>fwrite\<close> with a null pointer exactly when the sink
  has no stream and the message fits the limit by the size counted so far. The failed reopening
  of the file after a rotation leads there: it leaves the sink without a stream, throws, which
  the logger catches, and does not reset the counted size.
\<close>

theorem lost_stream_undefined:
  "(fst (sink_it m s w) = Undefined_behaviour \<longleftrightarrow>
      fd (helper s) = None \<and> (current_size s + length m) mod 2 ^ 64 \<le> max_size s)
   \<and> (fst (sink_it m s w) = Throws (Open_failed p) \<longrightarrow>
        fd (helper (fst (snd (sink_it m s w)))) = None
        \<and> current_size (fst (snd (sink_it m s w))) = current_size s)"
proof -
  define n where "n = (current_size s + length m) mod 2 ^ 64"
  let ?v = "snd (fh_flush (helper s) w)"
  let ?u = "snd (fh_size (helper s) ?v)"
  let ?r = "rotate_files s ?u"
  have eq: "sink_it m s w =
      (if \<not> max_size s < n then write_formatted m n s w
       else if fst (fh_flush (helper s) w) \<noteq> Returns then (fst (fh_flush (helper s) w), s, ?v)
       else case fst (fh_size (helper s) ?v) of
              Inl ex \<Rightarrow> (Throws ex, s, ?u)
            | Inr k \<Rightarrow> if k = 0 then write_formatted m n s ?u
                       else if fst ?r \<noteq> Returns then ?r
                       else write_formatted m (length m) (fst (snd ?r)) (snd (snd ?r)))"
    unfolding sink_it_def n_def by (simp add: split_beta Let_def split: sum.split)
  have wr: "fst (write_formatted m k x y) \<noteq> Throws (Open_failed p)" for k x y
    by (simp add: write_formatted_def fh_write_def split_beta Let_def split: option.split)
  show ?thesis
    unfolding eq n_def [symmetric]
    using rotate_files_ending [of s ?u] fh_flush_ending [of "helper s" w]
      fh_size_ending(1) [of "helper s" ?v] fh_size_ending(2) [of "helper s" ?v p]
    by (auto simp: write_formatted_undefined wr split: sum.splits)
qed


subsection \<open>Witnesses\<close>

definition demo_sink :: rotating_sink where
  "demo_sink = \<lparr>base_filename = ''a'', max_size = 4, max_files = 0, current_size = 3,
                helper = \<lparr>filename = ''a'', fd = Some 0\<rparr>\<rparr>"

definition ok_call :: call_outcome where "ok_call = \<lparr>failed = None, drained = 0\<rparr>"
definition failing_call :: call_outcome where "failing_call = \<lparr>failed = Some 0, drained = 0\<rparr>"

text \<open>Flushing, looking at the size and closing work; then all five attempts to open the file fail.\<close>

definition demo_world :: world where
  "demo_world = \<lparr>files = [''a'' \<mapsto> [1, 2, 3]], dirs = [], streams = [Some \<lparr>stream_path = ''a'', stream_buf = []\<rparr>],
                 outcomes = replicate 3 ok_call @ replicate 10 failing_call\<rparr>"

definition demo_flushed :: world where
  "demo_flushed = demo_world\<lparr>outcomes := ok_call # replicate 10 failing_call\<rparr>"

definition demo_lost :: world where
  "demo_lost = \<lparr>files = [''a'' \<mapsto> [1, 2, 3]], dirs = [], streams = [None], outcomes = []\<rparr>"

lemma demo_flush: "fh_size (helper demo_sink) (snd (fh_flush (helper demo_sink) demo_world)) = (Inr 3, demo_flushed)"
  "fst (fh_flush (helper demo_sink) demo_world) = Returns"
  by (simp_all add: demo_sink_def demo_world_def demo_flushed_def ok_call_def fh_flush_def fflush_def
      fflush_stream_def next_outcome_def numeral_eq_Suc buffered_def stream_at_def drain_def append_file_def
      fh_size_def filesize_def Let_def)

lemma demo_rotate:
  "rotate_files demo_sink demo_flushed =
     (Throws (Open_failed ''a''), demo_sink\<lparr>helper := \<lparr>filename = ''a'', fd = None\<rparr>\<rparr>, demo_lost)"
  by (simp add: rotate_files_def demo_sink_def demo_world_def demo_flushed_def demo_lost_def ok_call_def failing_call_def
      fh_close_def fclose_def fflush_stream_def next_outcome_def numeral_eq_Suc buffered_def stream_at_def drain_def
      append_file_def Let_def fh_reopen_def fh_open_def open_tries_def open_loop.simps create_dir_def dir_name_def
      find_last_def path_exists_def truncate_file_def fopen_s_def)

lemma demo_sink_it:
  "sink_it [9, 9] demo_sink demo_world =
     (Throws (Open_failed ''a''), demo_sink\<lparr>helper := \<lparr>filename = ''a'', fd = None\<rparr>\<rparr>, demo_lost)"
  using demo_flush demo_rotate
  by (simp add: sink_it_def split_beta Let_def) (simp add: demo_sink_def)

theorem lost_stream_witness:
  "fst (sink_it [9, 9] demo_sink demo_world) = Throws (Open_failed ''a'')
   \<and> fst (sink_it [7] (fst (snd (sink_it [9, 9] demo_sink demo_world)))
            (snd (snd (sink_it [9, 9] demo_sink demo_world)))) = Undefined_behaviour"
  using lost_stream_undefined [of "[9, 9]" demo_sink demo_world "''a''"]
    lost_stream_undefined [of "[7]" "fst (snd (sink_it [9, 9] demo_sink demo_world))"
      "snd (snd (sink_it [9, 9] demo_sink demo_world))" "''a''"]
  by (simp add: demo_sink_it) (simp add: demo_sink_def)

theorem log_never_scrambled_witness:
  "subseq (archive (demo_sink\<lparr>helper := \<lparr>filename = ''a'', fd = None\<rparr>\<rparr>) demo_lost) ([1, 2, 3] @ [9, 9])
   \<and> archive demo_sink demo_world = [1, 2, 3]"
proof -
  have "held demo_sink demo_world"
    by (auto simp: held_def demo_sink_def demo_world_def stream_at_def split: if_splits)
  moreover have "sink_all [[9, 9]] demo_sink demo_world =
      (True, demo_sink\<lparr>helper := \<lparr>filename = ''a'', fd = None\<rparr>\<rparr>, demo_lost)"
    by (simp add: demo_sink_it)
  moreover have "archive demo_sink demo_world = [1, 2, 3]"
    by (simp add: archive_def demo_sink_def demo_world_def text_at_def content_def pending_def buffered_def stream_at_def)
  ultimately show ?thesis
    using log_never_scrambled [of demo_sink demo_world "[[9, 9]]"] by simp
qed

end
