(* ===== verification/Utf8.thy ===== *)
theory Utf8
  imports Prelude
begin

section \<open>The UTF-8 decoder of the JSON serializer\<close>

text \<open>
  \<open>serializer::decode\<close> of \<open>include/nlohmann/json.hpp\<close>: a table-driven automaton that reads one byte at a
  time, state 0 after a complete code point and state 1 for an error. The reference is the
  definition of UTF-8: the one to four bytes of a scalar value.
\<close>

subsection \<open>The automaton\<close>

definition utf8d :: "nat list" where
  "utf8d =
     [0, 0, 0, 0, 0, 0, 0, 0, 0, 0, 0, 0, 0, 0, 0, 0, 0, 0, 0, 0, 0, 0, 0, 0, 0, 0, 0, 0, 0, 0, 0, 0,
      0, 0, 0, 0, 0, 0, 0, 0, 0, 0, 0, 0, 0, 0, 0, 0, 0, 0, 0, 0, 0, 0, 0, 0, 0, 0, 0, 0, 0, 0, 0, 0,
      0, 0, 0, 0, 0, 0, 0, 0, 0, 0, 0, 0, 0, 0, 0, 0, 0, 0, 0, 0, 0, 0, 0, 0, 0, 0, 0, 0, 0, 0, 0, 0,
      0, 0, 0, 0, 0, 0, 0, 0, 0, 0, 0, 0, 0, 0, 0, 0, 0, 0, 0, 0, 0, 0, 0, 0, 0, 0, 0, 0, 0, 0, 0, 0,
      1, 1, 1, 1, 1, 1, 1, 1, 1, 1, 1, 1, 1, 1, 1, 1, 9, 9, 9, 9, 9, 9, 9, 9, 9, 9, 9, 9, 9, 9, 9, 9,
      7, 7, 7, 7, 7, 7, 7, 7, 7, 7, 7, 7, 7, 7, 7, 7, 7, 7, 7, 7, 7, 7, 7, 7, 7, 7, 7, 7, 7, 7, 7, 7,
      8, 8, 2, 2, 2, 2, 2, 2, 2, 2, 2, 2, 2, 2, 2, 2, 2, 2, 2, 2, 2, 2, 2, 2, 2, 2, 2, 2, 2, 2, 2, 2,
      10, 3, 3, 3, 3, 3, 3, 3, 3, 3, 3, 3, 3, 4, 3, 3,
      11, 6, 6, 6, 5, 8, 8, 8, 8, 8, 8, 8, 8, 8, 8, 8,
      0, 1, 2, 3, 5, 8, 7, 1, 1, 1, 4, 6, 1, 1, 1, 1,
      1, 1, 1, 1, 1, 1, 1, 1, 1, 1, 1, 1, 1, 1, 1, 1, 1, 0, 1, 1, 1, 1, 1, 0, 1, 0, 1, 1, 1, 1, 1, 1,
      1, 2, 1, 1, 1, 1, 1, 2, 1, 2, 1, 1, 1, 1, 1, 1, 1, 1, 1, 1, 1, 1, 1, 2, 1, 1, 1, 1, 1, 1, 1, 1,
      1, 2, 1, 1, 1, 1, 1, 1, 1, 2, 1, 1, 1, 1, 1, 1, 1, 1, 1, 1, 1, 1, 1, 3, 1, 3, 1, 1, 1, 1, 1, 1,
      1, 3, 1, 1, 1, 1, 1, 3, 1, 3, 1, 1, 1, 1, 1, 1, 1, 3, 1, 1, 1, 1, 1, 1, 1, 1, 1, 1, 1, 1, 1, 1]"

definition UTF8_ACCEPT :: nat where "UTF8_ACCEPT = 0"
definition UTF8_REJECT :: nat where "UTF8_REJECT = 1"

definition decode :: "nat \<times> u32 \<Rightarrow> byte \<Rightarrow> nat \<times> u32" where
  "decode sc b =
     (case sc of (state, codep) \<Rightarrow>
        let type = utf8d ! unat b;
            codep' = (if state \<noteq> UTF8_ACCEPT then (ucast b AND 0x3f) OR push_bit 6 codep
                      else drop_bit type 0xFF AND ucast b)
        in (utf8d ! (256 + state * 16 + type), codep'))"

definition decode_all :: "nat \<times> u32 \<Rightarrow> byte list \<Rightarrow> nat \<times> u32" where
  "decode_all sc bs = foldl decode sc bs"

subsection \<open>The reference\<close>

definition scalar :: "nat \<Rightarrow> bool" where
  "scalar c \<longleftrightarrow> c < 0x110000 \<and> \<not> (0xD800 \<le> c \<and> c < 0xE000)"

definition utf8 :: "nat \<Rightarrow> byte list" where
  "utf8 c =
     (if c < 0x80 then [of_nat c]
      else if c < 0x800 then [of_nat (0xC0 + c div 64), of_nat (0x80 + c mod 64)]
      else if c < 0x10000
        then [of_nat (0xE0 + c div 4096), of_nat (0x80 + c div 64 mod 64), of_nat (0x80 + c mod 64)]
      else [of_nat (0xF0 + c div 262144), of_nat (0x80 + c div 4096 mod 64), of_nat (0x80 + c div 64 mod 64),
            of_nat (0x80 + c mod 64)])"

definition utf8_text :: "byte list \<Rightarrow> bool" where
  "utf8_text bs \<longleftrightarrow> (\<exists>cs. list_all scalar cs \<and> bs = concat (map utf8 cs))"

subsection \<open>What the table says\<close>

definition byte_type :: "nat \<Rightarrow> nat" where
  "byte_type n =
     (if n < 0x80 then 0 else if n < 0x90 then 1 else if n < 0xA0 then 9 else if n < 0xC0 then 7
      else if n < 0xC2 then 8 else if n < 0xE0 then 2 else if n < 0xE1 then 10 else if n < 0xED then 3
      else if n < 0xEE then 4 else if n < 0xF0 then 3 else if n < 0xF1 then 11 else if n < 0xF4 then 6
      else if n < 0xF5 then 5 else 8)"

definition next_state :: "nat \<Rightarrow> nat \<Rightarrow> nat" where
  "next_state s t =
     (if s = 0 then [0, 1, 2, 3, 5, 8, 7, 1, 1, 1, 4, 6, 1, 1, 1, 1] ! t
      else if s = 2 then (if t = 1 \<or> t = 7 \<or> t = 9 then 0 else 1)
      else if s = 3 then (if t = 1 \<or> t = 7 \<or> t = 9 then 2 else 1)
      else if s = 4 then (if t = 7 then 2 else 1)
      else if s = 5 then (if t = 1 \<or> t = 9 then 2 else 1)
      else if s = 6 then (if t = 7 \<or> t = 9 then 3 else 1)
      else if s = 7 then (if t = 1 \<or> t = 7 \<or> t = 9 then 3 else 1)
      else if s = 8 then (if t = 1 then 3 else 1)
      else 1)"

lemma utf8d_split: "utf8d = map byte_type [0..<256] @ map (\<lambda>i. next_state (i div 16) (i mod 16)) [0..<144]"
  by code_simp

lemma byte_type_less: "byte_type n < 16"
  by (simp add: byte_type_def)

lemma utf8d_byte: "n < 256 \<Longrightarrow> utf8d ! n = byte_type n"
  by (simp add: utf8d_split nth_append)

lemma utf8d_state:
  assumes "s < 9" and "t < 16"
  shows "utf8d ! (256 + s * 16 + t) = next_state s t"
proof -
  have "s * 16 + t < 144" using assms by simp
  then show ?thesis
    using assms by (simp add: utf8d_split nth_append add.assoc)
qed

lemma unat_byte_less: "unat (b :: byte) < 256"
proof -
  have "unat b < 2 ^ LENGTH(8)" by (rule unsigned_less)
  then show ?thesis by simp
qed

lemma decode_state: "s < 9 \<Longrightarrow> fst (decode (s, c) b) = next_state s (byte_type (unat b))"
  using utf8d_state [of s "byte_type (unat b)"]
  by (simp add: decode_def Let_def utf8d_byte unat_byte_less byte_type_less)

lemma next_state_less: "t < 16 \<Longrightarrow> next_state s t < 9"
proof -
  assume "t < 16"
  then have "[0, 1, 2, 3, 5, 8, 7, 1, 1, 1, 4, 6, 1, 1, 1, 1] ! t \<in> set [0, 1, 2, 3, 5, 8, 7, 1, 1, 1, 4, 6, 1, 1, 1, 1 :: nat]"
    by (intro nth_mem) simp
  then show ?thesis
    by (auto simp: next_state_def)
qed

lemma decode_state_less: "s < 9 \<Longrightarrow> fst (decode (s, c) b) < 9"
  by (simp add: decode_state next_state_less byte_type_less)

text \<open>From the initial state, by ranges of the first byte.\<close>

lemma first_state:
  "next_state 0 (byte_type n) =
     (if n < 0x80 then 0 else if n < 0xC2 then 1 else if n < 0xE0 then 2 else if n < 0xE1 then 4
      else if n < 0xED then 3 else if n < 0xEE then 5 else if n < 0xF0 then 3 else if n < 0xF1 then 6
      else if n < 0xF4 then 7 else if n < 0xF5 then 8 else 1)"
  by (simp add: next_state_def byte_type_def)

lemma cont_state:
  "next_state 2 (byte_type n) = (if 0x80 \<le> n \<and> n < 0xC0 then 0 else 1)"
  "next_state 3 (byte_type n) = (if 0x80 \<le> n \<and> n < 0xC0 then 2 else 1)"
  "next_state 4 (byte_type n) = (if 0xA0 \<le> n \<and> n < 0xC0 then 2 else 1)"
  "next_state 5 (byte_type n) = (if 0x80 \<le> n \<and> n < 0xA0 then 2 else 1)"
  "next_state 6 (byte_type n) = (if 0x90 \<le> n \<and> n < 0xC0 then 3 else 1)"
  "next_state 7 (byte_type n) = (if 0x80 \<le> n \<and> n < 0xC0 then 3 else 1)"
  "next_state 8 (byte_type n) = (if 0x80 \<le> n \<and> n < 0x90 then 3 else 1)"
  by (simp_all add: next_state_def byte_type_def)

lemma reject_state: "next_state 1 t = 1"
  by (simp add: next_state_def)

subsection \<open>Code points\<close>

lemma and_low_six: "(ucast (of_nat (0x80 + k) :: byte) AND 0x3f :: u32) = of_nat k" if "k < 64"
proof -
  have "list_all (\<lambda>k. (ucast (of_nat (0x80 + k) :: byte) AND 0x3f :: u32) = of_nat k) [0..<64]"
    by code_simp
  then show ?thesis using that by (simp only: list_all_iff set_upt atLeastLessThan_iff) simp
qed

lemma or_shifted: "of_nat k OR push_bit 6 (of_nat c :: u32) = of_nat (c * 64 + k)" if "k < 64"
proof -
  have "\<not> bit (of_nat k :: u32) i \<or> \<not> bit (push_bit 6 (of_nat c :: u32)) i" for i
  proof (cases "i < 6")
    case True
    then show ?thesis by (simp add: bit_push_bit_iff)
  next
    case False
    have "take_bit 6 k = k" using that by (simp add: take_bit_nat_eq_self)
    then have "\<not> bit k i" using False by (metis bit_take_bit_iff)
    then show ?thesis by (simp add: bit_of_nat_iff)
  qed
  then have "of_nat k OR push_bit 6 (of_nat c :: u32) = of_nat k + push_bit 6 (of_nat c)"
    by (simp add: disjunctive_add)
  then show ?thesis
    by (simp add: push_bit_eq_mult mult.commute)
qed

lemma decode_cont:
  assumes "0 < s" and "s < 9" and "k < 64"
  shows "decode (s, of_nat c) (of_nat (0x80 + k)) = (next_state s (byte_type (0x80 + k)), of_nat (c * 64 + k))"
proof -
  have u: "unat (of_nat (0x80 + k) :: byte) = 0x80 + k"
    using assms(3) by (simp add: unat_of_nat del: of_nat_add)
  have "snd (decode (s, of_nat c) (of_nat (0x80 + k))) = of_nat (c * 64 + k)"
    using assms and_low_six [OF assms(3)] or_shifted [OF assms(3), of c]
    by (simp add: decode_def Let_def UTF8_ACCEPT_def del: of_nat_add)
  then show ?thesis
    using decode_state [OF assms(2), of "of_nat c" "of_nat (0x80 + k)"] u
    by (metis prod.collapse)
qed

lemma lead_bits_enum:
  "list_all (\<lambda>n. drop_bit (byte_type n) 0xFF AND (of_nat n :: u32) = of_nat n) [0..<0x80]"
  "list_all (\<lambda>n. drop_bit (byte_type (0xC0 + n)) 0xFF AND (of_nat (0xC0 + n) :: u32) = of_nat n) [2..<32]"
  "list_all (\<lambda>n. drop_bit (byte_type (0xE0 + n)) 0xFF AND (of_nat (0xE0 + n) :: u32) = of_nat n) [0..<16]"
  "list_all (\<lambda>n. drop_bit (byte_type (0xF0 + n)) 0xFF AND (of_nat (0xF0 + n) :: u32) = of_nat n) [0..<5]"
  by code_simp+

lemma lead_bits:
  "n < 0x80 \<Longrightarrow> drop_bit (byte_type n) 0xFF AND (of_nat n :: u32) = of_nat n"
  "2 \<le> n \<Longrightarrow> n < 32 \<Longrightarrow> drop_bit (byte_type (0xC0 + n)) 0xFF AND (of_nat (0xC0 + n) :: u32) = of_nat n"
  "n < 16 \<Longrightarrow> drop_bit (byte_type (0xE0 + n)) 0xFF AND (of_nat (0xE0 + n) :: u32) = of_nat n"
  "n < 5 \<Longrightarrow> drop_bit (byte_type (0xF0 + n)) 0xFF AND (of_nat (0xF0 + n) :: u32) = of_nat n"
  using lead_bits_enum unfolding list_all_iff set_upt by (auto simp del: of_nat_add)

lemma decode_first:
  assumes "n < 256"
  shows "decode (0, x) (of_nat n) = (next_state 0 (byte_type n), drop_bit (byte_type n) 0xFF AND of_nat n)"
proof -
  have u: "unat (of_nat n :: byte) = n"
    using assms by (simp add: unat_of_nat)
  have "(ucast (of_nat n :: byte) :: u32) = of_nat n"
    using u by (simp add: unsigned_of_nat take_bit_nat_eq_self assms)
  then have "snd (decode (0, x) (of_nat n)) = drop_bit (byte_type n) 0xFF AND of_nat n"
    by (simp add: decode_def Let_def UTF8_ACCEPT_def u utf8d_byte assms)
  then show ?thesis
    using decode_state [of 0 x "of_nat n"] u by (metis prod.collapse zero_less_numeral)
qed

text \<open>A path reads one code point: every state on the way is neither final nor the error.\<close>

fun cp_path :: "nat \<times> u32 \<Rightarrow> byte list \<Rightarrow> u32 \<Rightarrow> bool" where
  "cp_path sc [] v \<longleftrightarrow> False"
| "cp_path sc [b] v \<longleftrightarrow> decode sc b = (0, v)"
| "cp_path sc (b # bs) v \<longleftrightarrow> 1 < fst (decode sc b) \<and> cp_path (decode sc b) bs v"

lemma path_1: "n < 0x80 \<Longrightarrow> cp_path (0, x) [of_nat n] (of_nat n)"
  using lead_bits(1) [of n] by (simp add: decode_first first_state)

lemma path_2:
  assumes "2 \<le> n" and "n < 32" and "k < 64"
  shows "cp_path (0, x) [of_nat (0xC0 + n), of_nat (0x80 + k)] (of_nat (n * 64 + k))"
proof -
  have "decode (0, x) (of_nat (0xC0 + n)) = (2, of_nat n)"
    using assms(1,2) lead_bits(2) [of n] by (simp add: decode_first first_state del: of_nat_add)
  moreover have "decode (2, of_nat n) (of_nat (0x80 + k)) = (0, of_nat (n * 64 + k))"
    using assms(3) by (simp add: decode_cont cont_state del: of_nat_add)
  ultimately show ?thesis
    by (simp del: of_nat_add of_nat_mult)
qed

lemma path_3:
  assumes "n < 16" and "j < 64" and "k < 64" and "n = 0 \<Longrightarrow> 32 \<le> j" and "n = 13 \<Longrightarrow> j < 32"
  shows "cp_path (0, x) [of_nat (0xE0 + n), of_nat (0x80 + j), of_nat (0x80 + k)] (of_nat ((n * 64 + j) * 64 + k))"
proof -
  define s :: nat where "s = (if n = 0 then 4 else if n = 13 then 5 else 3)"
  have "decode (0, x) (of_nat (0xE0 + n)) = (s, of_nat n)"
    using assms(1) lead_bits(3) [of n] by (simp add: decode_first first_state s_def del: of_nat_add)
  moreover have "decode (s, of_nat n) (of_nat (0x80 + j)) = (2, of_nat (n * 64 + j))"
    using assms(2,4,5) by (simp add: decode_cont s_def cont_state del: of_nat_add)
  moreover have "decode (2, of_nat (n * 64 + j)) (of_nat (0x80 + k)) = (0, of_nat ((n * 64 + j) * 64 + k))"
    using assms(3) by (simp add: decode_cont cont_state del: of_nat_add of_nat_mult)
  moreover have "1 < s" by (simp add: s_def)
  ultimately show ?thesis
    by (simp del: of_nat_add of_nat_mult)
qed

lemma path_4:
  assumes "n < 5" and "i < 64" and "j < 64" and "k < 64" and "n = 0 \<Longrightarrow> 16 \<le> i" and "n = 4 \<Longrightarrow> i < 16"
  shows "cp_path (0, x) [of_nat (0xF0 + n), of_nat (0x80 + i), of_nat (0x80 + j), of_nat (0x80 + k)]
           (of_nat (((n * 64 + i) * 64 + j) * 64 + k))"
proof -
  define s :: nat where "s = (if n = 0 then 6 else if n = 4 then 8 else 7)"
  have "decode (0, x) (of_nat (0xF0 + n)) = (s, of_nat n)"
    using assms(1) lead_bits(4) [of n] by (simp add: decode_first first_state s_def del: of_nat_add)
  moreover have "decode (s, of_nat n) (of_nat (0x80 + i)) = (3, of_nat (n * 64 + i))"
    using assms(2,5,6) by (simp add: decode_cont s_def cont_state del: of_nat_add)
  moreover have "decode (3, of_nat (n * 64 + i)) (of_nat (0x80 + j)) = (2, of_nat ((n * 64 + i) * 64 + j))"
    using assms(3) by (simp add: decode_cont cont_state del: of_nat_add of_nat_mult)
  moreover have "decode (2, of_nat ((n * 64 + i) * 64 + j)) (of_nat (0x80 + k))
      = (0, of_nat (((n * 64 + i) * 64 + j) * 64 + k))"
    using assms(4) by (simp add: decode_cont cont_state del: of_nat_add of_nat_mult)
  moreover have "1 < s" by (simp add: s_def)
  ultimately show ?thesis
    by (simp del: of_nat_add of_nat_mult)
qed

lemma base64_digits: "k < 64 \<Longrightarrow> (a * 64 + k) div 64 = a" "k < 64 \<Longrightarrow> (a * 64 + k) mod 64 = k" for a k :: nat
  by simp_all

lemma div_4096: "n div 4096 = n div 64 div 64" "n div 262144 = n div 64 div 64 div 64" for n :: nat
  by (simp_all add: div_mult2_eq [symmetric])

lemma utf8_1: "c < 0x80 \<Longrightarrow> utf8 c = [of_nat c]"
  by (simp add: utf8_def)

lemma utf8_2:
  assumes "2 \<le> n" and "n < 32" and "k < 64"
  shows "utf8 (n * 64 + k) = [of_nat (0xC0 + n), of_nat (0x80 + k)]"
proof -
  have "\<not> n * 64 + k < 0x80" "n * 64 + k < 0x800"
    using assms by linarith+
  then show ?thesis
    by (simp only: utf8_def if_False if_True base64_digits [OF assms(3)])
qed

lemma utf8_3:
  assumes "n < 16" and "j < 64" and "k < 64" and "n = 0 \<Longrightarrow> 32 \<le> j"
  shows "utf8 ((n * 64 + j) * 64 + k) = [of_nat (0xE0 + n), of_nat (0x80 + j), of_nat (0x80 + k)]"
proof -
  have "\<not> (n * 64 + j) * 64 + k < 0x800"
    using assms(4) by (cases "n = 0") simp_all
  moreover from this have "\<not> (n * 64 + j) * 64 + k < 0x80" by linarith
  moreover have "(n * 64 + j) * 64 + k < 0x10000" using assms(1-3) by simp
  ultimately show ?thesis
    by (simp only: utf8_def if_False if_True div_4096 base64_digits [OF assms(3)] base64_digits [OF assms(2)])
qed

lemma utf8_4:
  assumes "n < 5" and "i < 64" and "j < 64" and "k < 64" and "n = 0 \<Longrightarrow> 16 \<le> i"
  shows "utf8 (((n * 64 + i) * 64 + j) * 64 + k)
     = [of_nat (0xF0 + n), of_nat (0x80 + i), of_nat (0x80 + j), of_nat (0x80 + k)]"
proof -
  have "\<not> ((n * 64 + i) * 64 + j) * 64 + k < 0x10000"
    using assms(5) by (cases "n = 0") simp_all
  moreover from this have "\<not> ((n * 64 + i) * 64 + j) * 64 + k < 0x800" "\<not> ((n * 64 + i) * 64 + j) * 64 + k < 0x80"
    by linarith+
  ultimately show ?thesis
    by (simp only: utf8_def if_False div_4096 base64_digits [OF assms(4)] base64_digits [OF assms(3)]
        base64_digits [OF assms(2)])
qed

lemma base64_split:
  fixes c :: nat
  obtains a k where "c = a * 64 + k" and "k < 64"
proof
  show "c = c div 64 * 64 + c mod 64" by simp
qed simp

lemma path_utf8:
  assumes "scalar c"
  shows "cp_path (0, x) (utf8 c) (of_nat c)"
proof -
  obtain a k where k: "c = a * 64 + k" "k < 64" by (rule base64_split)
  obtain b j where j: "a = b * 64 + j" "j < 64" by (rule base64_split)
  obtain n i where i: "b = n * 64 + i" "i < 64" by (rule base64_split)
  consider "c < 0x80" | "0x80 \<le> c" "c < 0x800" | "0x800 \<le> c" "c < 0x10000" | "0x10000 \<le> c"
    by linarith
  then show ?thesis
  proof cases
    case 1
    then show ?thesis by (simp only: utf8_1 path_1)
  next
    case 2
    then have n: "2 \<le> a" "a < 32" using k by simp_all
    show ?thesis
      using path_2 [OF n k(2), of x] utf8_2 [OF n k(2)] by (simp only: k(1))
  next
    case 3
    have c: "c = 4096 * b + 64 * j + k" using k(1) j(1) by simp
    have n: "b < 16" "b = 0 \<Longrightarrow> 32 \<le> j" using 3 k(2) j(2) c by simp_all
    have m: "b = 13 \<Longrightarrow> j < 32" using assms k(2) j(2) c by (simp add: scalar_def)
    show ?thesis
      using path_3 [OF n(1) j(2) k(2) n(2) m, of x] utf8_3 [OF n(1) j(2) k(2) n(2)] by (simp only: k(1) j(1))
  next
    case 4
    have c: "c = 262144 * n + 4096 * i + 64 * j + k" using k(1) j(1) i(1) by simp
    have l: "c < 1114112" using assms by (simp add: scalar_def)
    have n: "n < 5" "n = 0 \<Longrightarrow> 16 \<le> i" "n = 4 \<Longrightarrow> i < 16" using 4 l k(2) j(2) i(2) c by simp_all
    show ?thesis
      using path_4 [OF n(1) i(2) j(2) k(2) n(2,3), of x] utf8_4 [OF n(1) i(2) j(2) k(2) n(2)]
      by (simp only: k(1) j(1) i(1))
  qed
qed

subsection \<open>The automaton accepts UTF-8 and nothing else\<close>

lemma byte_cases:
  obtains n where "(b :: byte) = of_nat n" and "n < 256" and "unat b = n"
  using unat_byte_less [of b] that [of "unat b"] by simp

lemma path_Cons:
  assumes "cp_path (s, v) bs w" and "s < 9"
  obtains b where "bs = [b]" and "next_state s (byte_type (unat b)) = 0"
  | b cs s' v' where "bs = b # cs" and "next_state s (byte_type (unat b)) = s'" and "1 < s'" and "cp_path (s', v') cs w"
proof -
  obtain b cs where bs: "bs = b # cs"
    using assms(1) by (cases bs) auto
  have st: "fst (decode (s, v) b) = next_state s (byte_type (unat b))"
    by (rule decode_state [OF assms(2)])
  show thesis
  proof (cases cs)
    case Nil
    then have "decode (s, v) b = (0, w)" using assms(1) bs by simp
    then show thesis using that(1) bs Nil st by simp
  next
    case (Cons c ds)
    then have "1 < fst (decode (s, v) b) \<and> cp_path (decode (s, v) b) cs w"
      using assms(1) bs by simp
    then have "1 < next_state s (byte_type (unat b)) \<and>
      cp_path (next_state s (byte_type (unat b)), snd (decode (s, v) b)) cs w"
      unfolding st [symmetric] by simp
    then show thesis
      using that(2) [OF bs refl] by blast
  qed
qed

lemma cont_byte: "0x80 \<le> unat b \<Longrightarrow> (b :: byte) = of_nat (0x80 + (unat b - 0x80))"
  by simp

lemma path_from_2:
  assumes "cp_path (2, v) bs w"
  shows "\<exists>k<64. bs = [of_nat (0x80 + k)]"
  using assms
proof (rule path_Cons)
  fix b assume b: "bs = [b]" "next_state 2 (byte_type (unat b)) = 0"
  then have "0x80 \<le> unat b" "unat b - 0x80 < 64"
    by (auto simp: cont_state split: if_splits)
  then show ?thesis
    using b(1) cont_byte by blast
qed (simp_all add: cont_state split: if_splits)

lemma path_from_3:
  assumes "cp_path (s, v) bs w" and "s = 3 \<or> s = 4 \<or> s = 5"
  shows "\<exists>j<64. \<exists>k<64. bs = [of_nat (0x80 + j), of_nat (0x80 + k)] \<and> (s = 4 \<longrightarrow> 32 \<le> j) \<and> (s = 5 \<longrightarrow> j < 32)"
proof -
  have "s < 9" using assms(2) by auto
  with assms(1) show ?thesis
  proof (rule path_Cons)
    fix b assume "next_state s (byte_type (unat b)) = 0"
    then show ?thesis
      using assms(2) by (auto simp: cont_state split: if_splits)
  next
    fix b cs s' v'
    assume b: "bs = b # cs" "next_state s (byte_type (unat b)) = s'" "1 < s'" "cp_path (s', v') cs w"
    have r: "s' = 2" "0x80 \<le> unat b" "unat b < 0xC0" "s = 4 \<longrightarrow> 0xA0 \<le> unat b" "s = 5 \<longrightarrow> unat b < 0xA0"
      using assms(2) b(2,3) by (auto simp: cont_state split: if_splits)
    obtain k where k: "k < 64" "cs = [of_nat (0x80 + k)]"
      using path_from_2 b(4) r(1) by blast
    show ?thesis
      by (rule exI [of _ "unat b - 0x80"], intro conjI exI [of _ k])
        (use b(1) k r(2-5) cont_byte [of b] in auto)
  qed
qed

lemma path_from_6:
  assumes "cp_path (s, v) bs w" and "s = 6 \<or> s = 7 \<or> s = 8"
  shows "\<exists>i<64. \<exists>j<64. \<exists>k<64. bs = [of_nat (0x80 + i), of_nat (0x80 + j), of_nat (0x80 + k)]
           \<and> (s = 6 \<longrightarrow> 16 \<le> i) \<and> (s = 8 \<longrightarrow> i < 16)"
proof -
  have "s < 9" using assms(2) by auto
  with assms(1) show ?thesis
  proof (rule path_Cons)
    fix b assume "next_state s (byte_type (unat b)) = 0"
    then show ?thesis
      using assms(2) by (auto simp: cont_state split: if_splits)
  next
    fix b cs s' v'
    assume b: "bs = b # cs" "next_state s (byte_type (unat b)) = s'" "1 < s'" "cp_path (s', v') cs w"
    have r: "s' = 3" "0x80 \<le> unat b" "unat b < 0xC0" "s = 6 \<longrightarrow> 0x90 \<le> unat b" "s = 8 \<longrightarrow> unat b < 0x90"
      using assms(2) b(2,3) by (auto simp: cont_state split: if_splits)
    obtain j k where k: "j < 64" "k < 64" "cs = [of_nat (0x80 + j), of_nat (0x80 + k)]"
      using path_from_3 [of s' v' cs w] b(4) r(1) by blast
    show ?thesis
      by (rule exI [of _ "unat b - 0x80"], intro conjI exI [of _ j] exI [of _ k])
        (use b(1) k r(2-5) cont_byte [of b] in auto)
  qed
qed

text \<open>What follows a first byte of two, three and four bytes.\<close>

lemma path_scalar_2:
  assumes "cp_path (2, v) cs w" and "0xC2 \<le> n" "n < 0xE0"
  shows "\<exists>c. scalar c \<and> of_nat n # cs = utf8 c"
proof -
  define m where "m = n - 0xC0"
  have m: "n = 0xC0 + m" "2 \<le> m" "m < 32" using assms(2,3) by (simp_all add: m_def)
  obtain k where k: "k < 64" "cs = [of_nat (0x80 + k)]"
    using path_from_2 assms(1) by blast
  have "of_nat n # cs = utf8 (m * 64 + k)"
    by (simp only: m(1) k(2) utf8_2 [OF m(2,3) k(1)])
  moreover have "scalar (m * 64 + k)"
    using m(3) k(1) by (simp add: scalar_def)
  ultimately show ?thesis by blast
qed

lemma path_scalar_3:
  assumes "cp_path (s, v) cs w" and "0xE0 \<le> n" "n < 0xF0"
    and st: "s = 3 \<or> s = 4 \<or> s = 5" "n = 0xE0 \<longrightarrow> s = 4" "n = 0xED \<longrightarrow> s = 5"
  shows "\<exists>c. scalar c \<and> of_nat n # cs = utf8 c"
proof -
  define m where "m = n - 0xE0"
  have m: "n = 0xE0 + m" "m < 16" using assms(2,3) by (simp_all add: m_def)
  obtain j k where k: "j < 64" "k < 64" "cs = [of_nat (0x80 + j), of_nat (0x80 + k)]"
    "s = 4 \<longrightarrow> 32 \<le> j" "s = 5 \<longrightarrow> j < 32"
    using path_from_3 [OF assms(1) st(1)] by blast
  have j: "m = 0 \<Longrightarrow> 32 \<le> j" "m = 13 \<Longrightarrow> j < 32" using k(4,5) st(2,3) m(1) by simp_all
  have "of_nat n # cs = utf8 ((m * 64 + j) * 64 + k)"
    using utf8_3 [OF m(2) k(1,2) j(1)] by (simp only: m(1) k(3))
  moreover have "m < 13 \<or> m = 13 \<or> 14 \<le> m" by linarith
  then have "scalar ((m * 64 + j) * 64 + k)"
    using m(2) k(1,2) j(2) by (auto simp: scalar_def)
  ultimately show ?thesis by blast
qed

lemma path_scalar_4:
  assumes "cp_path (s, v) cs w" and "0xF0 \<le> n" "n < 0xF5"
    and st: "s = 6 \<or> s = 7 \<or> s = 8" "n = 0xF0 \<longrightarrow> s = 6" "n = 0xF4 \<longrightarrow> s = 8"
  shows "\<exists>c. scalar c \<and> of_nat n # cs = utf8 c"
proof -
  define m where "m = n - 0xF0"
  have m: "n = 0xF0 + m" "m < 5" using assms(2,3) by (simp_all add: m_def)
  obtain i j k where k: "i < 64" "j < 64" "k < 64" "cs = [of_nat (0x80 + i), of_nat (0x80 + j), of_nat (0x80 + k)]"
    "s = 6 \<longrightarrow> 16 \<le> i" "s = 8 \<longrightarrow> i < 16"
    using path_from_6 [OF assms(1) st(1)] by blast
  have i: "m = 0 \<Longrightarrow> 16 \<le> i" "m = 4 \<Longrightarrow> i < 16" using k(5,6) st(2,3) m(1) by simp_all
  have "of_nat n # cs = utf8 (((m * 64 + i) * 64 + j) * 64 + k)"
    using utf8_4 [OF m(2) k(1-3) i(1)] by (simp only: m(1) k(4))
  moreover have "m = 0 \<or> m = 4 \<or> (1 \<le> m \<and> m \<le> 3)" using m(2) by linarith
  then have "scalar (((m * 64 + i) * 64 + j) * 64 + k)"
    using m(2) k(1-3) i by (auto simp: scalar_def)
  ultimately show ?thesis by blast
qed

lemma path_scalar:
  assumes "cp_path (0, v) bs w"
  shows "\<exists>c. scalar c \<and> bs = utf8 c"
  using assms
proof (rule path_Cons)
  fix b assume b: "bs = [b]" "next_state 0 (byte_type (unat b)) = 0"
  then have "unat b < 0x80"
    by (simp add: first_state split: if_splits)
  then have "scalar (unat b)" "utf8 (unat b) = [b]"
    by (simp_all add: scalar_def utf8_1)
  then show ?thesis
    using b(1) by auto
next
  fix b cs s' v'
  assume b: "bs = b # cs" "next_state 0 (byte_type (unat b)) = s'" "1 < s'" "cp_path (s', v') cs w"
  define n where "n = unat b"
  have n: "bs = of_nat n # cs" by (simp add: n_def b(1))
  have s': "s' = (if n < 0x80 then 0 else if n < 0xC2 then 1 else if n < 0xE0 then 2 else if n < 0xE1 then 4
      else if n < 0xED then 3 else if n < 0xEE then 5 else if n < 0xF0 then 3 else if n < 0xF1 then 6
      else if n < 0xF4 then 7 else if n < 0xF5 then 8 else 1)"
    using b(2) unfolding n_def first_state by simp
  have range: "0xC2 \<le> n" "n < 0xF5"
    using b(3) s' by (simp_all split: if_splits)
  consider "n < 0xE0" | "0xE0 \<le> n" "n < 0xF0" | "0xF0 \<le> n"
    by linarith
  then show ?thesis
  proof cases
    case 1
    then have "s' = 2" using range s' by simp
    then show ?thesis
      using path_scalar_2 b(4) range(1) 1 unfolding n by blast
  next
    case 2
    then have "s' = 3 \<or> s' = 4 \<or> s' = 5" "n = 0xE0 \<longrightarrow> s' = 4" "n = 0xED \<longrightarrow> s' = 5"
      using s' by (simp_all split: if_splits)
    then show ?thesis
      unfolding n by (rule path_scalar_3 [OF b(4) 2])
  next
    case 3
    then have "s' = 6 \<or> s' = 7 \<or> s' = 8" "n = 0xF0 \<longrightarrow> s' = 6" "n = 0xF4 \<longrightarrow> s' = 8"
      using range s' by (simp_all split: if_splits)
    then show ?thesis
      unfolding n by (rule path_scalar_4 [OF b(4) 3 range(2)])
  qed
qed simp

lemma decode_all_reject: "fst (decode_all (1, v) bs) = 1"
proof (induction bs arbitrary: v)
  case (Cons b bs)
  have "fst (decode (1, v) b) = 1"
    using decode_state [of 1 v b] reject_state by (simp only:)
  then have "decode (1, v) b = (1, snd (decode (1, v) b))" by (metis prod.collapse)
  then show ?case
    using Cons.IH by (metis decode_all_def foldl_Cons)
qed (simp add: decode_all_def)

lemma decode_all_append: "decode_all sc (xs @ ys) = decode_all (decode_all sc xs) ys"
  by (simp add: decode_all_def)

lemma decode_all_path: "cp_path sc bs v \<Longrightarrow> decode_all sc bs = (0, v)"
  by (induction sc bs v rule: cp_path.induct) (auto simp: decode_all_def)

lemma path_prefix:
  assumes "fst (decode_all (s, v) bs) = 0" and "bs \<noteq> []" and "s < 9"
  shows "\<exists>p q w. bs = p @ q \<and> cp_path (s, v) p w \<and> fst (decode_all (0, w) q) = 0"
  using assms
proof (induction bs arbitrary: s v)
  case (Cons b bs)
  obtain s' v' where d: "decode (s, v) b = (s', v')" by (cases "decode (s, v) b") auto
  have run: "fst (decode_all (s', v') bs) = 0"
    using Cons.prems(1) d by (simp add: decode_all_def)
  have s': "s' < 9" using decode_state_less [OF Cons.prems(3), of v b] d by simp
  consider "s' = 0" | "s' = 1" | "1 < s'" by linarith
  then show ?case
  proof cases
    case 1
    then have "cp_path (s, v) [b] v'" using d by simp
    then show ?thesis using run 1 by (intro exI [of _ "[b]"] exI [of _ bs] exI [of _ v']) simp
  next
    case 2
    then show ?thesis using run decode_all_reject [of v' bs] by simp
  next
    case 3
    then have "bs \<noteq> []" using run by (auto simp: decode_all_def)
    then obtain p q w where p: "bs = p @ q" "cp_path (s', v') p w" "fst (decode_all (0, w) q) = 0"
      using Cons.IH [OF run _ s'] by blast
    then have "cp_path (s, v) (b # p) w"
      using d 3 by (cases p) auto
    then show ?thesis using p by (intro exI [of _ "b # p"] exI [of _ q] exI [of _ w]) simp
  qed
qed simp

lemma decode_all_utf8:
  "list_all scalar cs \<Longrightarrow> fst (decode_all (0, v) (concat (map utf8 cs))) = 0"
proof (induction cs arbitrary: v)
  case (Cons c cs)
  then show ?case
    using decode_all_path [OF path_utf8, of c v] by (simp add: decode_all_append)
qed (simp add: decode_all_def)

lemma decode_all_text: "fst (decode_all (0, v) bs) = 0 \<Longrightarrow> utf8_text bs"
proof (induction "length bs" arbitrary: bs v rule: less_induct)
  case less
  show ?case
  proof (cases "bs = []")
    case True
    then show ?thesis by (auto simp: utf8_text_def intro: exI [of _ "[]"])
  next
    case False
    obtain p q w where p: "bs = p @ q" "cp_path (0, v) p w" "fst (decode_all (0, w) q) = 0"
      using path_prefix [OF less.prems False] by auto
    have "p \<noteq> []" using p(2) by auto
    then have "utf8_text q" using less.hyps [of q w] p by simp
    moreover obtain c where "scalar c" "p = utf8 c" using path_scalar [OF p(2)] by blast
    ultimately show ?thesis
      unfolding utf8_text_def p(1) by (elim exE conjE, intro exI [of _ "_ # _"]) auto
  qed
qed

subsection \<open>Texts\<close>

lemma utf8_text_Nil [intro, simp]: "utf8_text []"
  by (auto simp: utf8_text_def intro: exI [of _ "[]"])

lemma utf8_text_append [intro]: "utf8_text xs \<Longrightarrow> utf8_text ys \<Longrightarrow> utf8_text (xs @ ys)"
  unfolding utf8_text_def by (metis concat_append list_all_append map_append)

lemma utf8_text_utf8 [intro]: "scalar c \<Longrightarrow> utf8_text (utf8 c)"
  unfolding utf8_text_def by (rule exI [of _ "[c]"]) simp

definition ascii :: "byte list \<Rightarrow> bool" where
  "ascii bs \<longleftrightarrow> list_all (\<lambda>b. unat b < 128) bs"

lemma ascii_append [simp]: "ascii (xs @ ys) \<longleftrightarrow> ascii xs \<and> ascii ys"
  by (simp add: ascii_def)

lemma ascii_Cons [simp]: "ascii (b # bs) \<longleftrightarrow> unat b < 128 \<and> ascii bs"
  by (simp add: ascii_def)

lemma ascii_Nil [simp]: "ascii []"
  by (simp add: ascii_def)

lemma utf8_text_ascii [intro]: "ascii bs \<Longrightarrow> utf8_text bs"
proof (induction bs)
  case (Cons b bs)
  then have "utf8_text (utf8 (unat b))"
    by (intro utf8_text_utf8) (simp add: scalar_def)
  then show ?case
    using Cons utf8_text_append [of "utf8 (unat b)" bs] by (simp add: utf8_1)
qed simp

text \<open>No byte of a text is 0xFE or 0xFF.\<close>

lemma unat_of_nat_below: "n < 0xF8 \<Longrightarrow> unat (of_nat n :: byte) < 0xF8"
  by (simp add: unat_of_nat)

lemma utf8_bytes:
  assumes "scalar c"
  shows "list_all (\<lambda>b. unat b < 0xF8) (utf8 c)"
proof -
  have c: "c < 0x110000" using assms by (simp add: scalar_def)
  have "c div 262144 < 5" using c by (simp add: less_mult_imp_div_less)
  moreover have "c < 0x10000 \<Longrightarrow> c div 4096 < 16" "c < 0x800 \<Longrightarrow> c div 64 < 32"
    by (simp_all add: less_mult_imp_div_less)
  moreover have "m mod 64 < 64" for m :: nat by simp
  then have "0x80 + m mod 64 < 0xF8" for m :: nat 
    using less_trans [of "0x80 + m mod 64" "0x80 + 64" "0xF8"] by simp
  ultimately show ?thesis
    unfolding utf8_def by (auto simp del: of_nat_add intro!: unat_of_nat_below)
qed

lemma utf8_text_bytes: "utf8_text bs \<Longrightarrow> list_all (\<lambda>b. unat b < 0xF8) bs"
  using utf8_bytes by (fastforce simp: utf8_text_def list_all_iff)

text \<open>The encoding is uniquely decodable.\<close>

lemma utf8_not_Nil: "utf8 c \<noteq> []"
  by (simp add: utf8_def)

lemma path_split:
  assumes "cp_path sc (b # xs) v"
  shows "xs = [] \<and> decode sc b = (0, v) \<or> xs \<noteq> [] \<and> 1 < fst (decode sc b) \<and> cp_path (decode sc b) xs v"
  using assms by (cases xs) auto

lemma path_unique_prefix:
  "cp_path sc xs v \<Longrightarrow> cp_path sc ys w \<Longrightarrow> xs @ us = ys @ vs \<Longrightarrow> xs = ys \<and> v = w"
proof (induction xs arbitrary: sc ys)
  case (Cons b xs)
  obtain ys' where ys: "ys = b # ys'" using Cons.prems by (cases ys) auto
  show ?case
    using path_split [OF Cons.prems(1)]
  proof (elim disjE conjE)
    assume "xs = []" "decode sc b = (0, v)"
    then show ?thesis using path_split [of sc b ys' w] Cons.prems(2) ys by auto
  next
    assume x: "xs \<noteq> []" "1 < fst (decode sc b)" "cp_path (decode sc b) xs v"
    then have "cp_path (decode sc b) ys' w"
      using path_split [of sc b ys' w] Cons.prems(2) ys by auto
    from Cons.IH [OF x(3) this] show ?thesis
      using Cons.prems(3) ys by simp
  qed
qed simp

lemma utf8_inj:
  "list_all scalar cs \<Longrightarrow> list_all scalar ds \<Longrightarrow> concat (map utf8 cs) = concat (map utf8 ds) \<Longrightarrow> cs = ds"
proof (induction cs arbitrary: ds)
  case Nil
  then show ?case by (cases ds) (simp_all add: utf8_not_Nil)
next
  case (Cons c cs)
  obtain d ds' where ds: "ds = d # ds'"
    using Cons.prems(3) by (cases ds) (simp_all add: utf8_not_Nil)
  have sc: "scalar c" "scalar d" "list_all scalar cs" "list_all scalar ds'"
    using Cons.prems(1,2) ds by simp_all
  have cat: "utf8 c @ concat (map utf8 cs) = utf8 d @ concat (map utf8 ds')"
    using Cons.prems(3) ds by simp
  note eq = path_unique_prefix [OF path_utf8 [OF sc(1), of 0] path_utf8 [OF sc(2), of 0] cat]
  have u: "unat (of_nat c :: u32) = c" "unat (of_nat d :: u32) = d"
    using sc(1,2) by (simp_all add: scalar_def unat_of_nat)
  have "c = d"
    using arg_cong [OF conjunct2 [OF eq], of unat] unfolding u .
  moreover have "cs = ds'"
    using cat unfolding conjunct1 [OF eq] by (intro Cons.IH [OF sc(3,4)]) (simp only: same_append_eq)
  ultimately show ?case using ds by simp
qed

text \<open>
  C27. The decoder's table is right: whatever the code point register holds, the automaton ends in its
  accepting state on exactly the texts that are sequences of UTF-8 encoded scalar values, without
  overlong forms, surrogates or values above 0x10FFFF.
\<close>

theorem decode_accepts_utf8: "fst (decode_all (UTF8_ACCEPT, v) bs) = UTF8_ACCEPT \<longleftrightarrow> utf8_text bs"
  using decode_all_utf8 decode_all_text by (auto simp: UTF8_ACCEPT_def utf8_text_def)

end
