(* ===== verification/Json_Escape.thy ===== *)
theory Json_Escape
  imports Utf8
begin

section \<open>Strings in JSON text: \<open>serializer::dump_escaped\<close>\<close>

text \<open>
  \<open>include/nlohmann/json.hpp\<close>: a string is decoded byte by byte and written, escaped, through a buffer of
  512 characters. Three handlers say what happens on bytes that are not UTF-8. The buffer's first
  \<open>bytes\<close> characters are a list; a write beyond 512 is the error \<open>Buffer_overflow\<close>.
\<close>

subsection \<open>The code\<close>

datatype error_handler_t = Strict | Replace | Ignore

datatype json_error =
    Invalid_utf8 nat "byte list"
  | Incomplete_utf8 "byte list"
  | Buffer_overflow
  | Aborted
  | Read_out_of_bounds

text \<open>The locals of \<open>dump_escaped\<close>, \<open>string_buffer\<close> up to \<open>bytes\<close>, and the output so far.\<close>

record escaping =
  e_state :: nat
  e_codepoint :: u32
  e_buffer :: "byte list"
  e_last_accept :: nat
  e_undumped :: nat
  e_out :: "byte list"

text \<open>How a round of the loop ends: with the next byte, with the same byte again, or with an exception.\<close>

datatype round = Next escaping | Again escaping | Throw json_error

definition nibble :: "nat \<Rightarrow> nat \<Rightarrow> byte" where
  "nibble a n = (if n < 10 then of_nat (48 + n) else of_nat (a + (n - 10)))"

definition hex_bytes :: "byte \<Rightarrow> byte list" where
  "hex_bytes b = [nibble 65 (unat b div 16), nibble 65 (unat b mod 16)]"

text \<open>\<open>%04x\<close> of a 16-bit value.\<close>

definition hex4 :: "u16 \<Rightarrow> byte list" where
  "hex4 w = map (\<lambda>k. nibble 97 (unat w div 16 ^ k mod 16)) [3, 2, 1, 0]"

definition short_escape :: "u32 \<Rightarrow> byte list option" where
  "short_escape c =
     (if c = 0x08 then Some [92, 98] else if c = 0x09 then Some [92, 116] else if c = 0x0A then Some [92, 110]
      else if c = 0x0C then Some [92, 102] else if c = 0x0D then Some [92, 114] else if c = 0x22 then Some [92, 34]
      else if c = 0x5C then Some [92, 92] else None)"

definition u_escape :: "u32 \<Rightarrow> byte list" where
  "u_escape c =
     (if c \<le> 0xFFFF then [92, 117] @ hex4 (ucast c)
      else [92, 117] @ hex4 (ucast (0xD7C0 + drop_bit 10 c)) @ [92, 117] @ hex4 (ucast (0xDC00 + (c AND 0x3FF))))"

definition must_escape :: "bool \<Rightarrow> u32 \<Rightarrow> bool" where
  "must_escape ensure_ascii c \<longleftrightarrow> c \<le> 0x1F \<or> ensure_ascii \<and> c \<ge> 0x7F"

definition replacement :: "bool \<Rightarrow> byte list" where
  "replacement ensure_ascii =
     (if ensure_ascii then [92, 117, 102, 102, 102, 100] else [0xEF, 0xBF, 0xBD])"

text \<open>\<open>nul\<close> is 1 when \<open>snprintf\<close> writes a terminating zero behind the characters.\<close>

definition put :: "byte list \<Rightarrow> nat \<Rightarrow> escaping \<Rightarrow> json_error + escaping" where
  "put xs nul e =
     (if length (e_buffer e) + length xs + nul \<le> 512 then Inr (e\<lparr>e_buffer := e_buffer e @ xs\<rparr>)
      else Inl Buffer_overflow)"

definition put_codepoint :: "bool \<Rightarrow> byte \<Rightarrow> escaping \<Rightarrow> json_error + escaping" where
  "put_codepoint ensure_ascii b e =
     (case short_escape (e_codepoint e) of
        Some xs \<Rightarrow> put xs 0 e
      | None \<Rightarrow> if must_escape ensure_ascii (e_codepoint e) then put (u_escape (e_codepoint e)) 1 e
               else put [b] 0 e)"

definition flush :: "escaping \<Rightarrow> escaping" where
  "flush e =
     (if 512 - length (e_buffer e) < 13 then e\<lparr>e_out := e_out e @ e_buffer e, e_buffer := []\<rparr> else e)"

definition reset :: "escaping \<Rightarrow> escaping" where
  "reset e = e\<lparr>e_buffer := take (e_last_accept e) (e_buffer e)\<rparr>"

definition put_replacement :: "bool \<Rightarrow> escaping \<Rightarrow> json_error + escaping" where
  "put_replacement ensure_ascii e =
     (case put (replacement ensure_ascii) 0 e of
        Inl err \<Rightarrow> Inl err
      | Inr e1 \<Rightarrow> let e2 = flush e1 in Inr (e2\<lparr>e_last_accept := length (e_buffer e2)\<rparr>))"

definition reject :: "error_handler_t \<Rightarrow> bool \<Rightarrow> nat \<Rightarrow> byte \<Rightarrow> escaping \<Rightarrow> round" where
  "reject handler ensure_ascii i b e =
     (if handler = Strict then Throw (Invalid_utf8 i (hex_bytes b))
      else
        let again = e_undumped e > 0 in
        case (if handler = Replace then put_replacement ensure_ascii (reset e) else Inr (reset e)) of
          Inl err \<Rightarrow> Throw err
        | Inr e1 \<Rightarrow>
            let e2 = e1\<lparr>e_undumped := 0, e_state := UTF8_ACCEPT\<rparr> in
            if again then Again e2 else Next e2)"

definition dump_byte :: "error_handler_t \<Rightarrow> bool \<Rightarrow> nat \<Rightarrow> byte \<Rightarrow> escaping \<Rightarrow> round" where
  "dump_byte handler ensure_ascii i b e0 =
     (let (state, codepoint) = decode (e_state e0, e_codepoint e0) b;
          e = e0\<lparr>e_state := state, e_codepoint := codepoint\<rparr> in
      if state = UTF8_ACCEPT then
        (case put_codepoint ensure_ascii b e of
           Inl err \<Rightarrow> Throw err
         | Inr e1 \<Rightarrow>
             let e2 = flush e1 in Next (e2\<lparr>e_last_accept := length (e_buffer e2), e_undumped := 0\<rparr>))
      else if state = UTF8_REJECT then reject handler ensure_ascii i b e
      else
        (case (if \<not> ensure_ascii then put [b] 0 e else Inr e) of
           Inl err \<Rightarrow> Throw err
         | Inr e1 \<Rightarrow> Next (e1\<lparr>e_undumped := e_undumped e1 + 1\<rparr>)))"

text \<open>Reading a byte again happens only with bytes undumped, and leaves none undumped.\<close>

lemma dump_byte_Again: "dump_byte h ea i b e = Again e' \<Longrightarrow> e_undumped e > 0 \<and> e_undumped e' = 0"
  by (auto simp: dump_byte_def reject_def put_replacement_def put_def Let_def
      split: prod.splits sum.splits if_splits)

function dump_loop :: "error_handler_t \<Rightarrow> bool \<Rightarrow> nat \<Rightarrow> byte list \<Rightarrow> escaping \<Rightarrow> json_error + escaping" where
  "dump_loop handler ensure_ascii i [] e = Inr e"
| "dump_loop handler ensure_ascii i (b # bs) e =
     (case dump_byte handler ensure_ascii i b e of
        Next e' \<Rightarrow> dump_loop handler ensure_ascii (Suc i) bs e'
      | Again e' \<Rightarrow> dump_loop handler ensure_ascii i (b # bs) e'
      | Throw err \<Rightarrow> Inl err)"
  by pat_completeness auto
termination
  by (relation "measure (\<lambda>(h, ea, i, bs, e). 2 * length bs + (if e_undumped e > 0 then 1 else 0))")
    (auto dest: dump_byte_Again)

definition dump_escaped :: "error_handler_t \<Rightarrow> bool \<Rightarrow> byte list \<Rightarrow> json_error + byte list" where
  "dump_escaped handler ensure_ascii s =
     (case dump_loop handler ensure_ascii 0 s
             \<lparr>e_state = UTF8_ACCEPT, e_codepoint = 0, e_buffer = [], e_last_accept = 0, e_undumped = 0, e_out = []\<rparr> of
        Inl err \<Rightarrow> Inl err
      | Inr e \<Rightarrow>
          if e_state e = UTF8_ACCEPT then Inr (e_out e @ e_buffer e)
          else (case handler of
                  Strict \<Rightarrow> Inl (Incomplete_utf8 (hex_bytes (last s)))
                | Ignore \<Rightarrow> Inr (e_out e @ take (e_last_accept e) (e_buffer e))
                | Replace \<Rightarrow> Inr (e_out e @ take (e_last_accept e) (e_buffer e) @ replacement ensure_ascii)))"

subsection \<open>The reference\<close>

definition escaped :: "bool \<Rightarrow> nat \<Rightarrow> byte list" where
  "escaped ensure_ascii c =
     (case short_escape (of_nat c) of
        Some xs \<Rightarrow> xs
      | None \<Rightarrow> if must_escape ensure_ascii (of_nat c) then u_escape (of_nat c) else utf8 c)"

subsection \<open>Bytes read since the last code point\<close>

fun pending :: "nat \<times> u32 \<Rightarrow> byte list \<Rightarrow> nat \<times> u32 \<Rightarrow> bool" where
  "pending sc [] sc' \<longleftrightarrow> sc = sc'"
| "pending sc (b # bs) sc' \<longleftrightarrow> 1 < fst (decode sc b) \<and> pending (decode sc b) bs sc'"

lemma pending_snoc:
  "pending sc p sc' \<Longrightarrow> 1 < fst (decode sc' b) \<Longrightarrow> pending sc (p @ [b]) (decode sc' b)"
  by (induction sc p sc' rule: pending.induct) auto

lemma pending_path: "pending sc p sc' \<Longrightarrow> decode sc' b = (0, v) \<Longrightarrow> cp_path sc (p @ [b]) v"
proof (induction sc p sc' rule: pending.induct)
  case (2 sc c bs sc')
  then show ?case by (cases bs) auto
qed simp

lemma pending_state: "pending sc p sc' \<Longrightarrow> p \<noteq> [] \<Longrightarrow> 1 < fst sc'"
proof (induction sc p sc' rule: pending.induct)
  case (2 sc c bs sc')
  then show ?case by (cases "bs = []") auto
qed simp

text \<open>At most three bytes are pending: every byte brings the automaton closer to a code point.\<close>

definition rank :: "nat \<Rightarrow> nat" where
  "rank s = (if s = 0 then 4 else if s = 2 then 1 else if s < 6 then 2 else 3)"

lemma rank_next:
  assumes "s < 9" and "s \<noteq> 1" and "1 < next_state s (byte_type n)"
  shows "rank (next_state s (byte_type n)) < rank s"
proof -
  have "s = 0 \<or> s = 2 \<or> s = 3 \<or> s = 4 \<or> s = 5 \<or> s = 6 \<or> s = 7 \<or> s = 8" using assms(1,2) by auto
  then show ?thesis
    using assms(3) by (elim disjE) (simp_all add: first_state cont_state rank_def split: if_splits)
qed

lemma pending_length:
  "pending sc p sc' \<Longrightarrow> fst sc < 9 \<Longrightarrow> fst sc \<noteq> 1 \<Longrightarrow> length p + rank (fst sc') \<le> rank (fst sc) \<and> fst sc' < 9 \<and> fst sc' \<noteq> 1"
proof (induction sc p sc' rule: pending.induct)
  case (2 sc b bs sc')
  obtain s v where sc: "sc = (s, v)" by (cases sc)
  have d: "fst (decode sc b) = next_state s (byte_type (unat b))"
    using decode_state [of s v b] "2.prems"(2) sc by simp
  have "rank (fst (decode sc b)) < rank s"
    using rank_next [of s "unat b"] "2.prems" sc d by simp
  moreover have "fst (decode sc b) < 9"
    using decode_state_less [of s v b] "2.prems"(2) sc by simp
  ultimately show ?case
    using "2.IH" "2.prems" sc by simp
qed simp

lemma rank_pos: "0 < rank s"
  by (simp add: rank_def)

lemma pending_le_3: "pending (0, x) p sc \<Longrightarrow> length p \<le> 3"
  using pending_length [of "(0, x)" p sc] rank_pos [of "fst sc"] by (simp add: rank_def [of 0])

subsection \<open>One byte\<close>

definition escaping_ok :: "bool \<Rightarrow> escaping \<Rightarrow> byte list \<Rightarrow> bool" where
  "escaping_ok ensure_ascii e p \<longleftrightarrow>
     (\<exists>x. pending (0, x) p (e_state e, e_codepoint e))
     \<and> e_last_accept e \<le> 499 \<and> e_last_accept e \<le> length (e_buffer e)
     \<and> drop (e_last_accept e) (e_buffer e) = (if ensure_ascii then [] else p)
     \<and> e_undumped e = length p"

definition written :: "escaping \<Rightarrow> byte list" where
  "written e = e_out e @ take (e_last_accept e) (e_buffer e)"

lemma escaping_ok_buffer:
  assumes "escaping_ok ea e p"
  shows "e_buffer e = take (e_last_accept e) (e_buffer e) @ (if ea then [] else p)"
  using assms append_take_drop_id [of "e_last_accept e" "e_buffer e"] by (simp add: escaping_ok_def)

lemma escaping_ok_length:
  assumes "escaping_ok ea e p"
  shows "length (e_buffer e) \<le> 502" and "length p \<le> 3"
proof -
  show "length p \<le> 3"
    using assms pending_le_3 by (auto simp: escaping_ok_def)
  then show "length (e_buffer e) \<le> 502"
    using arg_cong [OF escaping_ok_buffer [OF assms], of length] assms
    by (auto simp: escaping_ok_def split: if_splits)
qed

lemma flush_accept:
  assumes "e2 = flush e1"
  shows "written (e2\<lparr>e_last_accept := length (e_buffer e2), e_undumped := n\<rparr>) = e_out e1 @ e_buffer e1"
    and "length (e_buffer e2) \<le> 499"
  using assms by (auto simp: flush_def written_def)

lemma length_u_escape: "length (u_escape c) \<le> 12"
  by (simp add: u_escape_def hex4_def)

lemma of_nat_cp:
  assumes "c < 0x110000"
  shows "(of_nat c :: u32) \<le> 0x1F \<longleftrightarrow> c \<le> 0x1F" "(of_nat c :: u32) \<ge> 0x7F \<longleftrightarrow> 0x7F \<le> c"
  using assms by (simp_all add: word_le_nat_alt unat_of_nat)

lemma short_escape_small:
  assumes "c < 0x110000" and "short_escape (of_nat c) = Some xs"
  shows "c < 0x80" and "length xs = 2" and "ascii xs"
proof -
  have u: "unat (of_nat c :: u32) = c" using assms(1) by (simp add: unat_of_nat)
  have "unat (of_nat c :: u32) \<in> {0x08, 0x09, 0x0A, 0x0C, 0x0D, 0x22, 0x5C}"
    using assms(2) by (auto simp: short_escape_def split: if_splits)
  then show "c < 0x80" using u by auto
  show "length xs = 2" "ascii xs"
    using assms(2) by (auto simp: short_escape_def split: if_splits)
qed

lemma put_codepoint_ok:
  assumes "scalar c" and "p @ [b] = utf8 c" and "e_codepoint e = of_nat c"
    and "e_buffer e = acc @ (if ea then [] else p)" and "length acc \<le> 499" and "length p \<le> 3"
  shows "put_codepoint ea b e = Inr (e\<lparr>e_buffer := acc @ escaped ea c\<rparr>)"
proof -
  have c: "c < 0x110000" using assms(1) by (simp add: scalar_def)
  have single: "p = []" "[b] = utf8 c" if "c < 0x80"
    using assms(2) utf8_1 [OF that] by simp_all
  show ?thesis
  proof (cases "short_escape (of_nat c)")
    case (Some xs)
    then show ?thesis
      using short_escape_small [OF c Some] single assms(3-5)
      by (auto simp: put_codepoint_def put_def escaped_def)
  next
    case None
    show ?thesis
    proof (cases "must_escape ea (of_nat c)")
      case True
      then have "ea \<or> p = []"
        using single c by (auto simp: must_escape_def of_nat_cp)
      then show ?thesis
        using None True assms(3-5) length_u_escape [of "of_nat c"]
        by (auto simp: put_codepoint_def put_def escaped_def)
    next
      case False
      have "ea \<Longrightarrow> p = []"
        using False single c by (auto simp: must_escape_def of_nat_cp not_le)
      then have "(if ea then [] else p) @ [b] = utf8 c"
        using assms(2) by auto
      then show ?thesis
        using None False assms(3-6) by (auto simp: put_codepoint_def put_def escaped_def)
    qed
  qed
qed

text \<open>A byte completes a code point, or is one more pending byte, or is rejected.\<close>

lemma dump_byte_accept:
  assumes "escaping_ok ea e p" and "decode (e_state e, e_codepoint e) b = (0, v)"
  shows "\<exists>c e'. scalar c \<and> p @ [b] = utf8 c \<and> dump_byte h ea i b e = Next e'
    \<and> escaping_ok ea e' [] \<and> e_state e' = 0 \<and> e_codepoint e' = v \<and> written e' = written e @ escaped ea c"
proof -
  obtain x where x: "pending (0, x) p (e_state e, e_codepoint e)"
    using assms(1) by (auto simp: escaping_ok_def)
  have pa: "cp_path (0, x) (p @ [b]) v"
    by (rule pending_path [OF x assms(2)])
  obtain c where c: "scalar c" "p @ [b] = utf8 c"
    using path_scalar [OF pa] by blast
  have v: "v = of_nat c"
    using decode_all_path [OF pa] decode_all_path [OF path_utf8 [OF c(1), of x]] c(2) by simp
  let ?e = "e\<lparr>e_state := 0, e_codepoint := v\<rparr>"
  let ?acc = "take (e_last_accept e) (e_buffer e)"
  let ?e1 = "?e\<lparr>e_buffer := ?acc @ escaped ea c\<rparr>"
  have "put_codepoint ea b ?e = Inr ?e1"
    using put_codepoint_ok [OF c, where e = ?e and acc = ?acc and ea = ea] escaping_ok_buffer [OF assms(1)] escaping_ok_length [OF assms(1)]
      assms(1) v by (simp add: escaping_ok_def)
  then have "dump_byte h ea i b e
      = Next ((flush ?e1)\<lparr>e_last_accept := length (e_buffer (flush ?e1)), e_undumped := 0\<rparr>)"
    using assms(2) by (simp add: dump_byte_def UTF8_ACCEPT_def Let_def)
  moreover have "e_state (flush ?e1) = 0" "e_codepoint (flush ?e1) = v"
    by (simp_all add: flush_def)
  ultimately show ?thesis
    using c flush_accept(1) [of "flush ?e1" ?e1 0] flush_accept(2) [of "flush ?e1" ?e1]
    by (intro exI [of _ c] exI) (auto simp: escaping_ok_def written_def)
qed

lemma dump_byte_pending:
  assumes "escaping_ok ea e p" and "decode (e_state e, e_codepoint e) b = (s, v)" and "1 < s"
  shows "\<exists>e'. dump_byte h ea i b e = Next e' \<and> escaping_ok ea e' (p @ [b]) \<and> e_state e' = s
    \<and> e_codepoint e' = v \<and> written e' = written e"
proof -
  obtain x where x: "pending (0, x) p (e_state e, e_codepoint e)"
    using assms(1) by (auto simp: escaping_ok_def)
  have pb: "pending (0, x) (p @ [b]) (s, v)"
    using pending_snoc [OF x, of b] assms(2,3) by simp
  let ?e = "e\<lparr>e_state := s, e_codepoint := v, e_undumped := e_undumped e + 1\<rparr>"
  let ?e' = "if ea then ?e else ?e\<lparr>e_buffer := e_buffer e @ [b]\<rparr>"
  have "dump_byte h ea i b e = Next ?e'"
    using assms(2,3) escaping_ok_length [OF assms(1)]
    by (auto simp: dump_byte_def UTF8_ACCEPT_def UTF8_REJECT_def Let_def put_def)
  moreover have "escaping_ok ea ?e' (p @ [b])"
    using assms(1) pb by (auto simp: escaping_ok_def)
  moreover have "written ?e' = written e"
    using assms(1) by (simp add: written_def escaping_ok_def)
  ultimately show ?thesis by (intro exI [of _ ?e']) simp
qed

lemma dump_byte_reject:
  assumes "decode (e_state e, e_codepoint e) b = (1, v)"
  shows "dump_byte h ea i b e = reject h ea i b (e\<lparr>e_state := 1, e_codepoint := v\<rparr>)"
  using assms by (simp add: dump_byte_def UTF8_ACCEPT_def UTF8_REJECT_def)

lemma reject_lenient:
  assumes "escaping_ok ea e p" and "h \<noteq> Strict"
  shows "\<exists>e'. reject h ea i b (e\<lparr>e_state := 1, e_codepoint := v\<rparr>) = (if p \<noteq> [] then Again e' else Next e')
    \<and> escaping_ok ea e' [] \<and> e_state e' = 0
    \<and> written e' = written e @ (if h = Replace then replacement ea else [])"
proof -
  let ?e = "e\<lparr>e_state := 1, e_codepoint := v\<rparr>"
  let ?acc = "take (e_last_accept e) (e_buffer e)"
  have acc: "length ?acc = e_last_accept e" "e_last_accept e \<le> 499"
    using assms(1) by (simp_all add: escaping_ok_def)
  have un: "e_undumped e > 0 \<longleftrightarrow> p \<noteq> []"
    using assms(1) by (simp add: escaping_ok_def)
  show ?thesis
  proof (cases "h = Replace")
    case True
    let ?e1 = "(reset ?e)\<lparr>e_buffer := ?acc @ replacement ea\<rparr>"
    let ?e2 = "(flush ?e1)\<lparr>e_last_accept := length (e_buffer (flush ?e1))\<rparr>"
    have "put (replacement ea) 0 (reset ?e) = Inr ?e1"
      using acc by (simp add: put_def reset_def replacement_def)
    then have "put_replacement ea (reset ?e) = Inr ?e2"
      by (simp add: put_replacement_def Let_def)
    then have "reject h ea i b ?e = (if p \<noteq> [] then Again (?e2\<lparr>e_undumped := 0, e_state := 0\<rparr>)
        else Next (?e2\<lparr>e_undumped := 0, e_state := 0\<rparr>))"
      using assms(2) True un by (simp add: reject_def Let_def UTF8_ACCEPT_def)
    moreover have "escaping_ok ea (?e2\<lparr>e_undumped := 0, e_state := 0\<rparr>) []"
      using flush_accept(2) [of "flush ?e1" ?e1] by (simp add: escaping_ok_def)
    moreover have "written (?e2\<lparr>e_undumped := 0, e_state := 0\<rparr>) = written e @ replacement ea"
      using flush_accept(1) [of "flush ?e1" ?e1 0] by (simp add: written_def reset_def)
    ultimately show ?thesis
      using True by (intro exI [of _ "?e2\<lparr>e_undumped := 0, e_state := 0\<rparr>"]) simp
  next
    case False
    let ?e2 = "(reset ?e)\<lparr>e_undumped := 0, e_state := 0\<rparr>"
    have "reject h ea i b ?e = (if p \<noteq> [] then Again ?e2 else Next ?e2)"
      using assms(2) False un by (simp add: reject_def Let_def UTF8_ACCEPT_def reset_def)
    moreover have "escaping_ok ea ?e2 []"
      using assms(1) by (simp add: escaping_ok_def reset_def)
    moreover have "written ?e2 = written e"
      by (simp add: written_def reset_def)
    ultimately show ?thesis
      using False by (intro exI [of _ ?e2]) simp
  qed
qed

subsection \<open>Whole strings\<close>

lemma decode_state_cases:
  obtains v where "decode sc b = (0, v)" | v where "decode sc b = (1, v)" | s v where "decode sc b = (s, v)" "1 < s"
proof -
  obtain s v where "decode sc b = (s, v)" by (cases "decode sc b")
  moreover have "s = 0 \<or> s = 1 \<or> 1 < s" by linarith
  ultimately show thesis using that by auto
qed

lemma strict_loop:
  assumes "escaping_ok ea e p"
  shows "(\<exists>e' p' cs. dump_loop Strict ea i bs e = Inr e' \<and> escaping_ok ea e' p'
            \<and> decode_all (e_state e, e_codepoint e) bs = (e_state e', e_codepoint e')
            \<and> list_all scalar cs \<and> p @ bs = concat (map utf8 cs) @ p'
            \<and> written e' = written e @ concat (map (escaped ea) cs))
       \<or> (\<exists>j h. dump_loop Strict ea i bs e = Inl (Invalid_utf8 j h)
            \<and> fst (decode_all (e_state e, e_codepoint e) bs) = 1)"
  using assms
proof (induction bs arbitrary: i e p)
  case Nil
  then show ?case
    by (intro disjI1 exI [of _ e] exI [of _ p] exI [of _ "[]"]) (simp add: decode_all_def)
next
  case (Cons b bs)
  have step: "decode_all (e_state e, e_codepoint e) (b # bs) = decode_all (decode (e_state e, e_codepoint e) b) bs"
    by (simp add: decode_all_def)
  show ?case
  proof (cases rule: decode_state_cases [of "(e_state e, e_codepoint e)" b])
    case (1 v)
    obtain c e' where c: "scalar c" "p @ [b] = utf8 c" "dump_byte Strict ea i b e = Next e'"
      "escaping_ok ea e' []" "e_state e' = 0" "e_codepoint e' = v" "written e' = written e @ escaped ea c"
      using dump_byte_accept [OF Cons.prems 1] by blast
    have p: "p @ b # bs = utf8 c @ bs" using c(2) by (metis append.assoc append_Cons append_Nil)
    show ?thesis
      using Cons.IH [OF c(4), of "Suc i"]
    proof (elim disjE exE conjE)
      fix e'' p' cs
      assume "dump_loop Strict ea (Suc i) bs e' = Inr e''" "escaping_ok ea e'' p'"
        "decode_all (e_state e', e_codepoint e') bs = (e_state e'', e_codepoint e'')"
        "list_all scalar cs" "[] @ bs = concat (map utf8 cs) @ p'"
        "written e'' = written e' @ concat (map (escaped ea) cs)"
      then show ?thesis
        using c p step 1 by (intro disjI1 exI [of _ e''] exI [of _ p'] exI [of _ "c # cs"]) simp
    qed (use c step 1 in auto)
  next
    case (2 v)
    then show ?thesis
      using step decode_all_reject [of v bs] by (simp add: dump_byte_reject reject_def)
  next
    case (3 s v)
    obtain e' where e': "dump_byte Strict ea i b e = Next e'" "escaping_ok ea e' (p @ [b])" "e_state e' = s"
      "e_codepoint e' = v" "written e' = written e"
      using dump_byte_pending [OF Cons.prems 3] by blast
    show ?thesis
      using Cons.IH [OF e'(2), of "Suc i"] e' step 3 by simp
  qed
qed

definition esc_start :: escaping where
  "esc_start = \<lparr>e_state = UTF8_ACCEPT, e_codepoint = 0, e_buffer = [], e_last_accept = 0, e_undumped = 0, e_out = []\<rparr>"

lemma esc_start_ok: "escaping_ok ea esc_start []" "written esc_start = []" "e_state esc_start = 0" "e_codepoint esc_start = 0"
  by (simp_all add: escaping_ok_def esc_start_def UTF8_ACCEPT_def written_def)

lemma dump_escaped_start:
  "dump_escaped h ea s =
     (case dump_loop h ea 0 s esc_start of
        Inl err \<Rightarrow> Inl err
      | Inr e \<Rightarrow>
          if e_state e = 0 then Inr (e_out e @ e_buffer e)
          else (case h of
                  Strict \<Rightarrow> Inl (Incomplete_utf8 (hex_bytes (last s)))
                | Ignore \<Rightarrow> Inr (written e)
                | Replace \<Rightarrow> Inr (written e @ replacement ea)))"
  by (simp only: dump_escaped_def esc_start_def UTF8_ACCEPT_def written_def append_assoc)

lemma accepted_end:
  assumes "escaping_ok ea e p" and "e_state e = 0"
  shows "p = []" and "e_out e @ e_buffer e = written e"
proof -
  show p: "p = []"
    using assms pending_state by (fastforce simp: escaping_ok_def)
  then show "e_out e @ e_buffer e = written e"
    using escaping_ok_buffer [OF assms(1)] by (cases ea) (simp_all add: written_def)
qed

lemma dump_escaped_strict_cases:
  "(\<exists>cs. list_all scalar cs \<and> s = concat (map utf8 cs)
      \<and> dump_escaped Strict ea s = Inr (concat (map (escaped ea) cs)))
   \<or> (\<not> utf8_text s \<and> (\<exists>err. dump_escaped Strict ea s = Inl err \<and> err \<noteq> Buffer_overflow))"
  using strict_loop [OF esc_start_ok(1), of ea 0 s]
proof (elim disjE exE conjE)
  fix e p cs
  assume e: "dump_loop Strict ea 0 s esc_start = Inr e" "escaping_ok ea e p"
    "decode_all (e_state esc_start, e_codepoint esc_start) s = (e_state e, e_codepoint e)"
    "list_all scalar cs" "[] @ s = concat (map utf8 cs) @ p"
    "written e = written esc_start @ concat (map (escaped ea) cs)"
  show ?thesis
  proof (cases "e_state e = 0")
    case True
    then show ?thesis
      using e accepted_end [OF e(2) True] esc_start_ok(2)
      by (intro disjI1 exI [of _ cs]) (simp add: dump_escaped_start UTF8_ACCEPT_def)
  next
    case False
    then have "\<not> utf8_text s"
      using e(3) decode_all_utf8 [of _ 0] esc_start_ok(3,4) by (fastforce simp: utf8_text_def)
    then show ?thesis
      using False e(1) by (simp add: dump_escaped_start UTF8_ACCEPT_def)
  qed
next
  fix j h
  assume e: "dump_loop Strict ea 0 s esc_start = Inl (Invalid_utf8 j h)"
    "fst (decode_all (e_state esc_start, e_codepoint esc_start) s) = 1"
  then have "\<not> utf8_text s"
    using decode_all_utf8 [of _ 0] esc_start_ok(3,4) by (fastforce simp: utf8_text_def)
  then show ?thesis
    using e(1) by (simp add: dump_escaped_start)
qed

lemma lenient_loop:
  assumes "h \<noteq> Strict" and "escaping_ok ea e p"
  shows "\<exists>e' p' xs. dump_loop h ea i bs e = Inr e' \<and> escaping_ok ea e' p' \<and> written e' = written e @ concat xs
           \<and> (\<forall>x\<in>set xs. x = replacement ea \<or> (\<exists>c. scalar c \<and> x = escaped ea c))"
  using assms
proof (induction h ea i bs e arbitrary: p rule: dump_loop.induct)
  case (1 h ea i e)
  then show ?case by (intro exI [of _ e] exI [of _ p] exI [of _ "[]"]) simp
next
  case (2 h ea i b bs e)
  show ?case
  proof (cases rule: decode_state_cases [of "(e_state e, e_codepoint e)" b])
    case (1 v)
    obtain c e' where c: "scalar c" "dump_byte h ea i b e = Next e'" "escaping_ok ea e' []"
      "written e' = written e @ escaped ea c"
      using dump_byte_accept [OF "2.prems"(2) 1] by blast
    obtain e'' p' xs where "dump_loop h ea (Suc i) bs e' = Inr e''" "escaping_ok ea e'' p'"
      "written e'' = written e' @ concat xs" "\<forall>x\<in>set xs. x = replacement ea \<or> (\<exists>c. scalar c \<and> x = escaped ea c)"
      using "2.IH"(1) [OF c(2) "2.prems"(1) c(3)] by blast
    then show ?thesis
      using c by (intro exI [of _ e''] exI [of _ p'] exI [of _ "escaped ea c # xs"]) auto
  next
    case (2 v)
    obtain e' where e': "reject h ea i b (e\<lparr>e_state := 1, e_codepoint := v\<rparr>) = (if p \<noteq> [] then Again e' else Next e')"
      "escaping_ok ea e' []" "written e' = written e @ (if h = Replace then replacement ea else [])"
      using reject_lenient [OF "2.prems"(2,1)] by blast
    have "dump_byte h ea i b e = (if p \<noteq> [] then Again e' else Next e')"
      using dump_byte_reject [OF 2] e'(1) by simp
    then have "\<exists>e'' p' xs. dump_loop h ea i (b # bs) e = Inr e'' \<and> escaping_ok ea e'' p'
        \<and> written e'' = written e' @ concat xs
        \<and> (\<forall>x\<in>set xs. x = replacement ea \<or> (\<exists>c. scalar c \<and> x = escaped ea c))"
      using "2.IH"(1) [OF _ "2.prems"(1) e'(2)] "2.IH"(2) [OF _ "2.prems"(1) e'(2)]
      by (cases "p = []") simp_all
    then obtain e'' p' xs where "dump_loop h ea i (b # bs) e = Inr e''" "escaping_ok ea e'' p'"
      "written e'' = written e' @ concat xs" "\<forall>x\<in>set xs. x = replacement ea \<or> (\<exists>c. scalar c \<and> x = escaped ea c)"
      by blast
    then show ?thesis
      using e'(3)
      by (intro exI [of _ e''] exI [of _ p'] exI [of _ "(if h = Replace then [replacement ea] else []) @ xs"]) auto
  next
    case (3 s v)
    obtain e' where e': "dump_byte h ea i b e = Next e'" "escaping_ok ea e' (p @ [b])" "written e' = written e"
      using dump_byte_pending [OF "2.prems"(2) 3] by blast
    then show ?thesis
      using "2.IH"(1) [OF e'(1) "2.prems"(1) e'(2)] by simp
  qed
qed

subsection \<open>What is written\<close>

lemma unat_of_nat_ascii: "m < 128 \<Longrightarrow> unat (of_nat m :: byte) < 128"
  by (simp add: unat_of_nat)

lemma nibble_ascii:
  assumes "n < 16" and "a \<le> 97"
  shows "unat (nibble a n) < 128"
proof -
  have "48 + n < 128" "a + (n - 10) < 128" using assms by simp_all
  then show ?thesis
    unfolding nibble_def by (cases "n < 10") (simp_all only: if_True if_False unat_of_nat_ascii)
qed

lemma hex4_ascii: "ascii (hex4 w)"
  by (simp add: hex4_def nibble_ascii)

lemma u_escape_ascii: "ascii (u_escape c)"
  by (simp add: u_escape_def hex4_ascii)

lemma escaped_text:
  assumes "scalar c"
  shows "utf8_text (escaped ea c)" and "ea \<Longrightarrow> ascii (escaped ea c)"
proof -
  have c: "c < 0x110000" using assms by (simp add: scalar_def)
  show "utf8_text (escaped ea c)"
    using short_escape_small(3) [OF c] u_escape_ascii assms by (auto simp: escaped_def split: option.split)
  have "ascii (utf8 c)" if "ea" "\<not> must_escape ea (of_nat c)"
  proof -
    have "c < 0x80" using that of_nat_cp [OF c] by (auto simp: must_escape_def not_le)
    then show ?thesis by (simp add: utf8_1 unat_of_nat)
  qed
  then show "ea \<Longrightarrow> ascii (escaped ea c)"
    using short_escape_small(3) [OF c] u_escape_ascii by (auto simp: escaped_def split: option.split)
qed

lemma replacement_text: "utf8_text (replacement ea)" "ea \<Longrightarrow> ascii (replacement ea)"
proof -
  have "scalar 0xFFFD" "utf8 0xFFFD = [0xEF, 0xBF, 0xBD]"
    by (simp_all add: scalar_def utf8_def)
  then have "utf8_text [0xEF, 0xBF, 0xBD]" by (metis utf8_text_utf8)
  moreover have "ascii [92, 117, 102, 102, 102, 100]" by simp
  ultimately show "utf8_text (replacement ea)"
    using utf8_text_ascii by (auto simp: replacement_def)
qed (simp add: replacement_def)

lemma concat_text: "\<forall>x\<in>set xs. utf8_text x \<Longrightarrow> utf8_text (concat xs)"
  by (induction xs) auto

lemma concat_ascii: "\<forall>x\<in>set xs. ascii x \<Longrightarrow> ascii (concat xs)"
  by (induction xs) auto

lemma dump_escaped_lenient:
  assumes "h \<noteq> Strict"
  shows "\<exists>out. dump_escaped h ea s = Inr out \<and> utf8_text out \<and> (ea \<longrightarrow> ascii out)"
proof -
  obtain e p xs where e: "dump_loop h ea 0 s esc_start = Inr e" "escaping_ok ea e p"
    "written e = concat xs" "\<forall>x\<in>set xs. x = replacement ea \<or> (\<exists>c. scalar c \<and> x = escaped ea c)"
    using lenient_loop [OF assms esc_start_ok(1), of ea 0 s] esc_start_ok(2) by auto
  have t: "utf8_text (written e)" "ea \<Longrightarrow> ascii (written e)"
    unfolding e(3) using e(4) replacement_text escaped_text by (auto intro!: concat_text concat_ascii)
  show ?thesis
    using assms e(1) t replacement_text [of ea] accepted_end [OF e(2)]
    by (cases h) (auto simp: dump_escaped_start)
qed

lemma dump_escaped_strict_Inr:
  assumes "dump_escaped Strict ea s = Inr out"
  shows "utf8_text s" and "utf8_text out" and "ea \<Longrightarrow> ascii out"
proof -
  obtain cs where cs: "list_all scalar cs" "s = concat (map utf8 cs)" "out = concat (map (escaped ea) cs)"
    using dump_escaped_strict_cases [of s ea] assms by auto
  show "utf8_text s" using cs(1,2) by (auto simp: utf8_text_def)
  show "utf8_text out" "ea \<Longrightarrow> ascii out"
    unfolding cs(3) using cs(1) escaped_text by (auto simp: list_all_iff intro!: concat_text concat_ascii)
qed

text \<open>
  C20. Escaping with the strict handler, which \<open>dump\<close> uses by default: a string that is UTF-8 is written
  as the concatenation of its escaped code points, in one pass and across every refill of the
  buffer; on any other string the function throws, and it never writes beyond the buffer.
\<close>

theorem dump_escaped_strict:
  "(dump_escaped Strict ensure_ascii s = Inr out)
     = (\<exists>cs. list_all scalar cs \<and> s = concat (map utf8 cs) \<and> out = concat (map (escaped ensure_ascii) cs))
   \<and> (\<exists>err. dump_escaped Strict ensure_ascii s = Inl err) = (\<not> utf8_text s)
   \<and> dump_escaped Strict ensure_ascii s \<noteq> Inl Buffer_overflow"
proof -
  consider cs where "list_all scalar cs" "s = concat (map utf8 cs)" "utf8_text s"
      "dump_escaped Strict ensure_ascii s = Inr (concat (map (escaped ensure_ascii) cs))"
    | err where "\<not> utf8_text s" "dump_escaped Strict ensure_ascii s = Inl err" "err \<noteq> Buffer_overflow"
    using dump_escaped_strict_cases [of s ensure_ascii] unfolding utf8_text_def by blast
  then show ?thesis
  proof cases
    case 1
    have "cs' = cs" if "list_all scalar cs'" "s = concat (map utf8 cs')" for cs'
      using that 1(1,2) utf8_inj by metis
    then show ?thesis
      using 1 by auto
  next
    case 2
    then show ?thesis
      by (auto simp: utf8_text_def)
  qed
qed

text \<open>
  Escaping with the lenient handlers never fails and always produces UTF-8, even on arbitrary bytes;
  with \<open>ensure_ascii\<close> the result, under every handler, is plain ASCII.
\<close>

theorem dump_escaped_total:
  "(\<exists>out. dump_escaped Replace ensure_ascii s = Inr out \<and> utf8_text out)
   \<and> (\<exists>out. dump_escaped Ignore ensure_ascii s = Inr out \<and> utf8_text out)
   \<and> (case dump_escaped handler True s of Inl _ \<Rightarrow> handler = Strict \<and> \<not> utf8_text s | Inr out \<Rightarrow> ascii out)"
proof -
  have "case dump_escaped handler True s of Inl _ \<Rightarrow> handler = Strict \<and> \<not> utf8_text s | Inr out \<Rightarrow> ascii out"
  proof (cases "handler = Strict")
    case True
    then show ?thesis
      using dump_escaped_strict_cases [of s True] dump_escaped_strict_Inr(3) [of True s]
      by (auto split: sum.split)
  next
    case False
    then show ?thesis using dump_escaped_lenient [of handler True s] by auto
  qed
  then show ?thesis
    using dump_escaped_lenient [of Replace ensure_ascii s] dump_escaped_lenient [of Ignore ensure_ascii s] by auto
qed

end
