(* ===== verification/Dtoa.thy ===== *)
theory Dtoa
  imports Prelude "HOL-Library.Signed_Division"
begin

section \<open>Shortest decimal digits: \<open>to_chars\<close> of \<open>include/nlohmann/json.hpp\<close>\<close>

text \<open>
  The Grisu2 algorithm the serializer prints floating-point numbers with. A double is its bit pattern;
  significands are 64-bit words as in the code, exponents, which stay below 2000 in absolute value,
  are ints. A failing \<open>JSON_ASSERT\<close>, a write behind the end of the buffer and a loop that does not end
  are \<open>None\<close>. The buffer is the list of the characters written so far, and \<open>cap\<close> the room from the
  place the first of them has to the end of the array.
\<close>

definition json_assert :: "bool \<Rightarrow> 'a option \<Rightarrow> 'a option" where
  "json_assert b r = (if b then r else None)"

definition write_char :: "nat \<Rightarrow> byte \<Rightarrow> byte list \<Rightarrow> byte list option" where
  "write_char cap c buf = (if length buf < cap then Some (buf @ [c]) else None)"

subsection \<open>\<open>diyfp\<close>: a significand times a power of two\<close>

record diyfp =
  df_f :: u64
  df_e :: int

abbreviation diyfp :: "u64 \<Rightarrow> int \<Rightarrow> diyfp" where
  "diyfp f e \<equiv> \<lparr>df_f = f, df_e = e\<rparr>"

definition diyfp_sub :: "diyfp \<Rightarrow> diyfp \<Rightarrow> diyfp option" where
  "diyfp_sub x y =
     json_assert (df_e x = df_e y \<and> df_f x \<ge> df_f y) (Some (diyfp (df_f x - df_f y) (df_e x)))"

definition diyfp_mul :: "diyfp \<Rightarrow> diyfp \<Rightarrow> diyfp" where
  "diyfp_mul x y =
     (let u_lo = df_f x AND 0xFFFFFFFF; u_hi = drop_bit 32 (df_f x);
          v_lo = df_f y AND 0xFFFFFFFF; v_hi = drop_bit 32 (df_f y);
          p0 = u_lo * v_lo; p1 = u_lo * v_hi; p2 = u_hi * v_lo; p3 = u_hi * v_hi;
          p0_hi = drop_bit 32 p0;
          p1_lo = p1 AND 0xFFFFFFFF; p1_hi = drop_bit 32 p1;
          p2_lo = p2 AND 0xFFFFFFFF; p2_hi = drop_bit 32 p2;
          Q = p0_hi + p1_lo + p2_lo + push_bit 31 1;
          h = p3 + p2_hi + p1_hi + drop_bit 32 Q in
      diyfp h (df_e x + df_e y + 64))"

partial_function (option) normalize_loop :: "diyfp \<Rightarrow> diyfp option" where
  "normalize_loop x =
     (if drop_bit 63 (df_f x) = 0 then normalize_loop (diyfp (push_bit 1 (df_f x)) (df_e x - 1)) else Some x)"

declare normalize_loop.simps [code]

definition diyfp_normalize :: "diyfp \<Rightarrow> diyfp option" where
  "diyfp_normalize x = json_assert (df_f x \<noteq> 0) (normalize_loop x)"

definition diyfp_normalize_to :: "diyfp \<Rightarrow> int \<Rightarrow> diyfp option" where
  "diyfp_normalize_to x target_exponent =
     (let delta = df_e x - target_exponent in
      json_assert (delta \<ge> 0 \<and> drop_bit (nat delta) (push_bit (nat delta) (df_f x)) = df_f x)
        (Some (diyfp (push_bit (nat delta) (df_f x)) target_exponent)))"

subsection \<open>The neighbourhood of a double\<close>

record boundaries =
  bd_w :: diyfp
  bd_minus :: diyfp
  bd_plus :: diyfp

definition is_finite :: "u64 \<Rightarrow> bool" where
  "is_finite x \<longleftrightarrow> drop_bit 52 x AND 0x7FF \<noteq> 0x7FF"

text \<open>\<open>value > 0\<close>, for a finite value.\<close>

definition is_positive :: "u64 \<Rightarrow> bool" where
  "is_positive x \<longleftrightarrow> \<not> bit x 63 \<and> x \<noteq> 0"

definition decode_double :: "u64 \<Rightarrow> diyfp" where
  "decode_double bits =
     (let E = drop_bit 52 bits; F = bits AND (push_bit 52 1 - 1) in
      if E = 0 then diyfp F (-1074) else diyfp (F + push_bit 52 1) (uint E - 1075))"

definition compute_boundaries :: "u64 \<Rightarrow> boundaries option" where
  "compute_boundaries bits =
     json_assert (is_finite bits \<and> is_positive bits)
       (let E = drop_bit 52 bits; F = bits AND (push_bit 52 1 - 1);
            v = decode_double bits;
            lower_boundary_is_closer = (F = 0 \<and> E > 1);
            m_plus = diyfp (2 * df_f v + 1) (df_e v - 1);
            m_minus = (if lower_boundary_is_closer then diyfp (4 * df_f v - 1) (df_e v - 2)
                       else diyfp (2 * df_f v - 1) (df_e v - 1)) in
        Option.bind (diyfp_normalize m_plus) (\<lambda>w_plus.
        Option.bind (diyfp_normalize_to m_minus (df_e w_plus)) (\<lambda>w_minus.
        Option.bind (diyfp_normalize v) (\<lambda>w.
          Some \<lparr>bd_w = w, bd_minus = w_minus, bd_plus = w_plus\<rparr>))))"

subsection \<open>Cached powers of ten\<close>

record cached_power =
  cp_f :: u64
  cp_e :: int
  cp_k :: int

definition kCachedPowers :: "(u64 \<times> int \<times> int) list" where
  "kCachedPowers =
     [(0xAB70FE17C79AC6CA, -1060, -300), (0xFF77B1FCBEBCDC4F, -1034, -292), (0xBE5691EF416BD60C, -1007, -284),
      (0x8DD01FAD907FFC3C, -980, -276), (0xD3515C2831559A83, -954, -268), (0x9D71AC8FADA6C9B5, -927, -260),
      (0xEA9C227723EE8BCB, -901, -252), (0xAECC49914078536D, -874, -244), (0x823C12795DB6CE57, -847, -236),
      (0xC21094364DFB5637, -821, -228), (0x9096EA6F3848984F, -794, -220), (0xD77485CB25823AC7, -768, -212),
      (0xA086CFCD97BF97F4, -741, -204), (0xEF340A98172AACE5, -715, -196), (0xB23867FB2A35B28E, -688, -188),
      (0x84C8D4DFD2C63F3B, -661, -180), (0xC5DD44271AD3CDBA, -635, -172), (0x936B9FCEBB25C996, -608, -164),
      (0xDBAC6C247D62A584, -582, -156), (0xA3AB66580D5FDAF6, -555, -148), (0xF3E2F893DEC3F126, -529, -140),
      (0xB5B5ADA8AAFF80B8, -502, -132), (0x87625F056C7C4A8B, -475, -124), (0xC9BCFF6034C13053, -449, -116),
      (0x964E858C91BA2655, -422, -108), (0xDFF9772470297EBD, -396, -100), (0xA6DFBD9FB8E5B88F, -369, -92),
      (0xF8A95FCF88747D94, -343, -84), (0xB94470938FA89BCF, -316, -76), (0x8A08F0F8BF0F156B, -289, -68),
      (0xCDB02555653131B6, -263, -60), (0x993FE2C6D07B7FAC, -236, -52), (0xE45C10C42A2B3B06, -210, -44),
      (0xAA242499697392D3, -183, -36), (0xFD87B5F28300CA0E, -157, -28), (0xBCE5086492111AEB, -130, -20),
      (0x8CBCCC096F5088CC, -103, -12), (0xD1B71758E219652C, -77, -4), (0x9C40000000000000, -50, 4),
      (0xE8D4A51000000000, -24, 12), (0xAD78EBC5AC620000, 3, 20), (0x813F3978F8940984, 30, 28),
      (0xC097CE7BC90715B3, 56, 36), (0x8F7E32CE7BEA5C70, 83, 44), (0xD5D238A4ABE98068, 109, 52),
      (0x9F4F2726179A2245, 136, 60), (0xED63A231D4C4FB27, 162, 68), (0xB0DE65388CC8ADA8, 189, 76),
      (0x83C7088E1AAB65DB, 216, 84), (0xC45D1DF942711D9A, 242, 92), (0x924D692CA61BE758, 269, 100),
      (0xDA01EE641A708DEA, 295, 108), (0xA26DA3999AEF774A, 322, 116), (0xF209787BB47D6B85, 348, 124),
      (0xB454E4A179DD1877, 375, 132), (0x865B86925B9BC5C2, 402, 140), (0xC83553C5C8965D3D, 428, 148),
      (0x952AB45CFA97A0B3, 455, 156), (0xDE469FBD99A05FE3, 481, 164), (0xA59BC234DB398C25, 508, 172),
      (0xF6C69A72A3989F5C, 534, 180), (0xB7DCBF5354E9BECE, 561, 188), (0x88FCF317F22241E2, 588, 196),
      (0xCC20CE9BD35C78A5, 614, 204), (0x98165AF37B2153DF, 641, 212), (0xE2A0B5DC971F303A, 667, 220),
      (0xA8D9D1535CE3B396, 694, 228), (0xFB9B7CD9A4A7443C, 720, 236), (0xBB764C4CA7A44410, 747, 244),
      (0x8BAB8EEFB6409C1A, 774, 252), (0xD01FEF10A657842C, 800, 260), (0x9B10A4E5E9913129, 827, 268),
      (0xE7109BFBA19C0C9D, 853, 276), (0xAC2820D9623BF429, 880, 284), (0x80444B5E7AA7CF85, 907, 292),
      (0xBF21E44003ACDD2D, 933, 300), (0x8E679C2F5E44FF8F, 960, 308), (0xD433179D9C8CB841, 986, 316),
      (0x9E19DB92B4E31BA9, 1013, 324)]"

definition get_cached_power_for_binary_exponent :: "int \<Rightarrow> cached_power option" where
  "get_cached_power_for_binary_exponent e =
     (let f = - 60 - e - 1;
          k = (f * 78913) sdiv 2 ^ 18 + (if f > 0 then 1 else 0);
          index = (300 + k + (8 - 1)) sdiv 8 in
      json_assert (- 1500 \<le> e \<and> e \<le> 1500 \<and> 0 \<le> index \<and> nat index < length kCachedPowers)
        (case kCachedPowers ! nat index of
           (cf, ce, ck) \<Rightarrow>
             json_assert (- 60 \<le> ce + e + 64 \<and> ce + e + 64 \<le> - 32)
               (Some \<lparr>cp_f = cf, cp_e = ce, cp_k = ck\<rparr>)))"

definition find_largest_pow10 :: "u32 \<Rightarrow> nat \<times> u32" where
  "find_largest_pow10 n =
     (if n \<ge> 1000000000 then (10, 1000000000)
      else if n \<ge> 100000000 then (9, 100000000)
      else if n \<ge> 10000000 then (8, 10000000)
      else if n \<ge> 1000000 then (7, 1000000)
      else if n \<ge> 100000 then (6, 100000)
      else if n \<ge> 10000 then (5, 10000)
      else if n \<ge> 1000 then (4, 1000)
      else if n \<ge> 100 then (3, 100)
      else if n \<ge> 10 then (2, 10)
      else (1, 1))"

subsection \<open>Generating the digits\<close>

partial_function (option) round_loop :: "u64 \<Rightarrow> u64 \<Rightarrow> u64 \<Rightarrow> u64 \<Rightarrow> byte list \<Rightarrow> byte list option" where
  "round_loop dist delta ten_k rest buf =
     (if rest < dist \<and> delta - rest \<ge> ten_k \<and> (rest + ten_k < dist \<or> dist - rest > rest + ten_k - dist)
      then (if last buf \<noteq> 48 then round_loop dist delta ten_k (rest + ten_k) (butlast buf @ [last buf - 1])
            else None)
      else Some buf)"

declare round_loop.simps [code]

definition grisu2_round :: "u64 \<Rightarrow> u64 \<Rightarrow> u64 \<Rightarrow> u64 \<Rightarrow> byte list \<Rightarrow> byte list option" where
  "grisu2_round dist delta rest ten_k buf =
     json_assert (length buf \<ge> 1 \<and> dist \<le> delta \<and> rest \<le> delta \<and> ten_k > 0)
       (round_loop dist delta ten_k rest buf)"

text \<open>
  The digits of the integral part \<open>p1\<close>, with \<open>s\<close> the number of fraction bits: \<open>Inr\<close> is the return
  with the rounded buffer and the exponent, \<open>Inl\<close> the end of the loop.
\<close>

fun integral_digits ::
  "nat \<Rightarrow> nat \<Rightarrow> u64 \<Rightarrow> u64 \<Rightarrow> u64 \<Rightarrow> nat \<Rightarrow> u32 \<Rightarrow> u32 \<Rightarrow> byte list \<Rightarrow> (byte list + byte list \<times> nat) option" where
  "integral_digits cap s p2 delta dist 0 p1 pow10 buf = Some (Inl buf)"
| "integral_digits cap s p2 delta dist (Suc n) p1 pow10 buf =
     (let d = p1 div pow10; r = p1 mod pow10 in
      json_assert (d \<le> 9)
        (Option.bind (write_char cap (48 + ucast d) buf) (\<lambda>buf1.
           let rest = push_bit s (ucast r) + p2 in
           if rest \<le> delta
           then map_option (\<lambda>buf2. Inr (buf2, n)) (grisu2_round dist delta rest (push_bit s (ucast pow10)) buf1)
           else integral_digits cap s p2 delta dist n r (pow10 div 10) buf1)))"

text \<open>The digits of the fractional part \<open>p2\<close>; the result is the buffer, \<open>m\<close>, \<open>p2\<close>, \<open>delta\<close> and \<open>dist\<close>.\<close>

partial_function (option) fraction_digits ::
  "nat \<Rightarrow> nat \<Rightarrow> nat \<Rightarrow> u64 \<Rightarrow> u64 \<Rightarrow> u64 \<Rightarrow> byte list \<Rightarrow> (byte list \<times> nat \<times> u64 \<times> u64 \<times> u64) option" where
  "fraction_digits cap s m p2 delta dist buf =
     (if p2 \<le> 0xFFFFFFFFFFFFFFFF div 10 \<and> drop_bit s (p2 * 10) \<le> 9 then
        Option.bind (write_char cap (48 + ucast (drop_bit s (p2 * 10))) buf) (\<lambda>buf1.
          if (p2 * 10) AND (push_bit s 1 - 1) \<le> delta * 10
          then Some (buf1, m + 1, (p2 * 10) AND (push_bit s 1 - 1), delta * 10, dist * 10)
          else fraction_digits cap s (m + 1) ((p2 * 10) AND (push_bit s 1 - 1)) (delta * 10) (dist * 10) buf1)
      else None)"

declare fraction_digits.simps [code]

text \<open>The result is the buffer and the decimal exponent.\<close>

definition grisu2_digit_gen :: "nat \<Rightarrow> int \<Rightarrow> diyfp \<Rightarrow> diyfp \<Rightarrow> diyfp \<Rightarrow> (byte list \<times> int) option" where
  "grisu2_digit_gen cap decimal_exponent M_minus w M_plus =
     json_assert (- 60 \<le> df_e M_plus \<and> df_e M_plus \<le> - 32)
       (Option.bind (diyfp_sub M_plus M_minus) (\<lambda>delta_fp.
        Option.bind (diyfp_sub M_plus w) (\<lambda>dist_fp.
        let delta = df_f delta_fp; dist = df_f dist_fp;
            s = nat (- df_e M_plus); one_f = push_bit s 1;
            p1 = ucast (drop_bit s (df_f M_plus)) :: u32; p2 = df_f M_plus AND (one_f - 1) in
        json_assert (p1 > 0)
          (case find_largest_pow10 p1 of
             (k, pow10) \<Rightarrow>
               Option.bind (integral_digits cap s p2 delta dist k p1 pow10 []) (\<lambda>res.
                 case res of
                   Inr (buf, n) \<Rightarrow> Some (buf, decimal_exponent + int n)
                 | Inl buf \<Rightarrow>
                     json_assert (p2 > delta)
                       (Option.bind (fraction_digits cap s 0 p2 delta dist buf) (\<lambda>(buf1, m, p2', delta', dist').
                          map_option (\<lambda>buf2. (buf2, decimal_exponent - int m))
                            (grisu2_round dist' delta' p2' one_f buf1))))))))"

definition grisu2 :: "nat \<Rightarrow> diyfp \<Rightarrow> diyfp \<Rightarrow> diyfp \<Rightarrow> (byte list \<times> int) option" where
  "grisu2 cap m_minus v m_plus =
     json_assert (df_e m_plus = df_e m_minus \<and> df_e m_plus = df_e v)
       (Option.bind (get_cached_power_for_binary_exponent (df_e m_plus)) (\<lambda>cached.
          let c_minus_k = diyfp (cp_f cached) (cp_e cached);
              w = diyfp_mul v c_minus_k;
              w_minus = diyfp_mul m_minus c_minus_k;
              w_plus = diyfp_mul m_plus c_minus_k;
              M_minus = diyfp (df_f w_minus + 1) (df_e w_minus);
              M_plus = diyfp (df_f w_plus - 1) (df_e w_plus) in
          grisu2_digit_gen cap (- cp_k cached) M_minus w M_plus))"

definition grisu2_double :: "nat \<Rightarrow> u64 \<Rightarrow> (byte list \<times> int) option" where
  "grisu2_double cap bits =
     json_assert (is_finite bits \<and> is_positive bits)
       (Option.bind (compute_boundaries bits) (\<lambda>b. grisu2 cap (bd_minus b) (bd_w b) (bd_plus b)))"

subsection \<open>Formatting\<close>

definition digit_char :: "nat \<Rightarrow> byte" where
  "digit_char k = of_nat (48 + k)"

definition append_exponent :: "int \<Rightarrow> byte list option" where
  "append_exponent e =
     json_assert (- 1000 < e \<and> e < 1000)
       (let k = nat (abs e) in
        Some ((if e < 0 then [45] else [43]) @
          (if k < 10 then [48, digit_char k]
           else if k < 100 then [digit_char (k div 10), digit_char (k mod 10)]
           else [digit_char (k div 100), digit_char (k mod 100 div 10), digit_char (k mod 100 mod 10)])))"

text \<open>The formatted text has to fit into the array.\<close>

definition fitting :: "nat \<Rightarrow> byte list \<Rightarrow> byte list option" where
  "fitting cap text = (if length text \<le> cap then Some text else None)"

definition format_buffer :: "nat \<Rightarrow> byte list \<Rightarrow> int \<Rightarrow> int \<Rightarrow> int \<Rightarrow> byte list option" where
  "format_buffer cap buf decimal_exponent min_exp max_exp =
     json_assert (min_exp < 0 \<and> max_exp > 0)
       (let k = int (length buf); n = k + decimal_exponent in
        if k \<le> n \<and> n \<le> max_exp then fitting cap (buf @ replicate (nat (n - k)) 48 @ [46, 48])
        else if 0 < n \<and> n \<le> max_exp then fitting cap (take (nat n) buf @ [46] @ drop (nat n) buf)
        else if min_exp < n \<and> n \<le> 0 then fitting cap ([48, 46] @ replicate (nat (- n)) 48 @ buf)
        else
          Option.bind (append_exponent (n - 1)) (\<lambda>ex.
            if k = 1 then fitting cap (buf @ [101] @ ex)
            else fitting cap (take 1 buf @ [46] @ drop 1 buf @ [101] @ ex)))"

text \<open>\<open>cap\<close> is \<open>last - first\<close>; for a double \<open>max_digits10\<close> is 17 and \<open>digits10\<close> is 15.\<close>

definition to_chars_unsigned :: "nat \<Rightarrow> u64 \<Rightarrow> byte list option" where
  "to_chars_unsigned cap v =
     (if v = 0 then fitting cap [48, 46, 48]
      else
        json_assert (cap \<ge> 17)
          (Option.bind (grisu2_double cap v) (\<lambda>(buf, decimal_exponent).
             json_assert (length buf \<le> 17 \<and> cap \<ge> 15 + 2 \<and> cap \<ge> 2 + (4 - 1) + 17 \<and> cap \<ge> 17 + 6)
               (format_buffer cap buf decimal_exponent (- 4) 15))))"

definition to_chars :: "nat \<Rightarrow> u64 \<Rightarrow> byte list option" where
  "to_chars cap x =
     json_assert (is_finite x)
       (if bit x 63
        then Option.bind (write_char cap 45 []) (\<lambda>sign. map_option (\<lambda>text. sign @ text)
               (to_chars_unsigned (cap - 1) (x XOR push_bit 63 1)))
        else to_chars_unsigned cap x)"

end
