(* ===== verification/Dtoa_Arith.thy ===== *)
theory Dtoa_Arith
  imports Dtoa Complex_Main
begin

section \<open>Arithmetic of \<open>diyfp\<close>\<close>

text \<open>
  The operations on the significands as operations on natural numbers: the emulated multiplication
  rounds the exact product, normalisation shifts, and the boundaries of a double are the half-way
  points to its neighbours.
\<close>

subsection \<open>Words as numbers\<close>

lemma unat_mult_small: "unat x * unat y < 2 ^ LENGTH('a) \<Longrightarrow> unat (x * y) = unat x * unat y"
  for x y :: "'a::len word"
  by (simp add: unat_mult_lem)

lemma unat_add_small: "unat x + unat y < 2 ^ LENGTH('a) \<Longrightarrow> unat (x + y) = unat x + unat y"
  for x y :: "'a::len word"
  by (simp add: unat_add_lem)

lemma unat_sub_small: "y \<le> x \<Longrightarrow> unat (x - y) = unat x - unat y" for x y :: "'a::len word"
  by (simp add: unat_sub)

lemma unat_shift_small: "unat x * 2 ^ n < 2 ^ LENGTH('a) \<Longrightarrow> unat (push_bit n x) = unat x * 2 ^ n"
  for x :: "'a::len word"
  by (simp only: unsigned_push_bit_eq) (simp add: take_bit_eq_mod push_bit_eq_mult)

lemma unat_shift_64: "unat x * 2 ^ n < 2 ^ 64 \<Longrightarrow> unat (push_bit n x) = unat x * 2 ^ n" for x :: u64
  by (rule unat_shift_small) simp

lemma unat_drop: "unat (drop_bit n x) = unat x div 2 ^ n"
  for x :: "'a::len word"
  by (simp only: unat_drop_bit_eq) (simp add: drop_bit_eq_div)

lemma unat_and_ones: "n \<le> LENGTH('a) \<Longrightarrow> unat (x AND mask n) = unat x mod 2 ^ n"
  for x :: "'a::len word"
  by (simp only: take_bit_eq_mask [symmetric] unsigned_take_bit_eq) (simp add: take_bit_eq_mod)

lemma ones_32: "0xFFFFFFFF = (mask 32 :: u64)"
  by (simp add: mask_eq_exp_minus_1)

lemma one_shift_minus_1: "push_bit n 1 - 1 = (mask n :: 'a::len word)"
  by (simp add: mask_eq_exp_minus_1 push_bit_eq_mult)

subsection \<open>Multiplication\<close>

lemma product_halves:
  fixes al ah bl bh B :: nat
  assumes "B > 0"
  shows "((ah * B + al) * (bh * B + bl) + H * B) div (B * B) =
         ah * bh + (ah * bl) div B + (al * bh) div B
         + ((al * bl) div B + (al * bh) mod B + (ah * bl) mod B + H) div B"
proof -
  let ?Q = "(al * bl) div B + (al * bh) mod B + (ah * bl) mod B + H"
  have expand: "m = m div B * B + m mod B" for m by simp
  have "(ah * B + al) * (bh * B + bl) + H * B = ah * bh * (B * B) + (ah * bl + al * bh + H) * B + al * bl"
    by (simp add: algebra_simps)
  also have "\<dots> = ah * bh * (B * B) + (ah * bl div B * B + ah * bl mod B + (al * bh div B * B + al * bh mod B) + H) * B
                  + (al * bl div B * B + al * bl mod B)"
    by (simp only: expand [symmetric])
  also have "\<dots> = (ah * bh + ah * bl div B + al * bh div B) * (B * B) + (?Q * B + al * bl mod B)"
    by (simp only: distrib_right distrib_left mult.assoc add_ac)
  finally have "((ah * B + al) * (bh * B + bl) + H * B) div (B * B)
      = ah * bh + ah * bl div B + al * bh div B + (?Q * B + al * bl mod B) div (B * B)"
    using assms by simp
  also have "(?Q * B + al * bl mod B) div (B * B) = ?Q div B"
    using assms by (simp add: div_mult2_eq)
  finally show ?thesis by simp
qed

lemma diyfp_mul_e [simp]: "df_e (diyfp_mul x y) = df_e x + df_e y + 64"
  by (simp add: diyfp_mul_def Let_def)

lemma diyfp_mul_f: "unat (df_f (diyfp_mul x y)) = (unat (df_f x) * unat (df_f y) + 2 ^ 63) div 2 ^ 64"
proof -
  define a b B where "a = unat (df_f x)" and "b = unat (df_f y)" and "B = (2::nat) ^ 32"
  define al ah bl bh where "al = a mod B" and "ah = a div B" and "bl = b mod B" and "bh = b div B"
  have B: "B = 4294967296" by (simp add: B_def)
  have "a < B * B" "b < B * B"
    using unsigned_less [of "df_f x", where ?'a = nat] unsigned_less [of "df_f y", where ?'a = nat]
    by (simp_all add: a_def b_def B)
  then have le: "al \<le> B - 1" "ah \<le> B - 1" "bl \<le> B - 1" "bh \<le> B - 1"
    using less_mult_imp_div_less [of a B B] less_mult_imp_div_less [of b B B]
    by (simp_all add: al_def ah_def bl_def bh_def B)
  have prod: "u * v \<le> (B - 1) * (B - 1)" if "u \<le> B - 1" "v \<le> B - 1" for u v
    using that by (rule mult_le_mono)
  define u_lo u_hi v_lo v_hi where "u_lo = df_f x AND 0xFFFFFFFF" and "u_hi = drop_bit 32 (df_f x)"
    and "v_lo = df_f y AND 0xFFFFFFFF" and "v_hi = drop_bit 32 (df_f y)"
  have parts: "unat u_lo = al" "unat u_hi = ah" "unat v_lo = bl" "unat v_hi = bh"
    by (simp_all add: u_lo_def u_hi_def v_lo_def v_hi_def al_def ah_def bl_def bh_def a_def b_def B_def
        unat_and_ones unat_drop ones_32)
  have mult: "unat (u * v) = unat u * unat v" if "unat u \<le> B - 1" "unat v \<le> B - 1" for u v :: u64
    by (rule unat_mult_small) (use prod [OF that] in \<open>simp add: B\<close>)
  have p: "unat (u_lo * v_lo) = al * bl" "unat (u_lo * v_hi) = al * bh"
    "unat (u_hi * v_lo) = ah * bl" "unat (u_hi * v_hi) = ah * bh"
    using mult le by (simp_all add: parts)
  define Q where "Q = drop_bit 32 (u_lo * v_lo) + (u_lo * v_hi AND 0xFFFFFFFF) + (u_hi * v_lo AND 0xFFFFFFFF) + push_bit 31 1"
  define H where "H = (2::nat) ^ 31"
  have H: "unat (push_bit 31 1 :: u64) = H"
    by (subst unat_shift_small) (simp_all add: H_def)
  have half: "unat (drop_bit 32 w) = unat w div B" "unat (w AND 0xFFFFFFFF) = unat w mod B" for w :: u64
    by (simp_all add: B_def unat_and_ones unat_drop ones_32)
  have "al * bl div B < B" "al * bh mod B < B" "ah * bl mod B < B" "H < B"
    using unsigned_less [of "u_lo * v_lo", where ?'a = nat] 
    by (simp_all add: p B H_def less_mult_imp_div_less)
  then have Q: "unat Q = al * bl div B + al * bh mod B + ah * bl mod B + H"
    unfolding Q_def by (subst unat_add_small; simp add: half p H_def B)+
  have ab: "a = ah * B + al" "b = bh * B + bl"
    by (simp_all add: al_def ah_def bl_def bh_def)
  have total: "(a * b + H * B) div (B * B) = ah * bh + ah * bl div B + al * bh div B + unat Q div B"
    unfolding ab Q by (rule product_halves) (simp add: B)
  have "a * b \<le> (B * B - 1) * (B * B - 1)"
    using \<open>a < B * B\<close> \<open>b < B * B\<close> by (intro mult_le_mono) simp_all
  then have "a * b + H * B < B * B * (B * B)"
    by (simp add: B H_def)
  then have "(a * b + H * B) div (B * B) < B * B"
    by (rule less_mult_imp_div_less)
  then have "unat (u_hi * v_hi + drop_bit 32 (u_hi * v_lo) + drop_bit 32 (u_lo * v_hi) + drop_bit 32 Q)
      = (a * b + H * B) div (B * B)"
    unfolding total by (subst unat_add_small; simp add: half p B)+
  then show ?thesis
    by (simp add: diyfp_mul_def Let_def Q_def u_lo_def u_hi_def v_lo_def v_hi_def a_def b_def B H_def)
qed

subsection \<open>Normalisation\<close>

lemma normalize_loop_eq:
  "unat (df_f x) * 2 ^ n < 2 ^ 64 \<Longrightarrow> 2 ^ 63 \<le> unat (df_f x) * 2 ^ n \<Longrightarrow>
   normalize_loop x = Some (diyfp (push_bit n (df_f x)) (df_e x - int n))"
proof (induction n arbitrary: x)
  case 0
  then have "unat (drop_bit 63 (df_f x)) \<noteq> 0"
    by (simp add: unat_drop)
  then show ?case
    by (subst normalize_loop.simps) (auto simp: unat_eq_zero)
next
  case (Suc n)
  have "unat (df_f x) * 2 \<le> unat (df_f x) * 2 * 2 ^ n"
    by simp
  then have small: "unat (df_f x) * 2 < 2 ^ 64"
    using Suc.prems(1) by (simp only: power_Suc mult.assoc)
  have f: "unat (push_bit 1 (df_f x)) = unat (df_f x) * 2"
    using small by (subst unat_shift_small) simp_all
  have "unat (drop_bit 63 (df_f x)) = 0"
    using small by (simp only: unat_drop) simp
  then have "normalize_loop x = normalize_loop (diyfp (push_bit 1 (df_f x)) (df_e x - 1))"
    by (subst normalize_loop.simps) (simp only: unat_eq_0 if_True simp_thms)
  also have "\<dots> = Some (diyfp (push_bit n (push_bit 1 (df_f x))) (df_e x - 1 - int n))"
    using Suc.IH [of "diyfp (push_bit 1 (df_f x)) (df_e x - 1)"] Suc.prems by (simp only: f diyfp.simps) (simp add: ac_simps)
  finally show ?case
    by (simp add: push_bit_push_bit algebra_simps)
qed

lemma diyfp_normalize_eq:
  assumes "unat f * 2 ^ n < 2 ^ 64" and "2 ^ 63 \<le> unat f * 2 ^ n"
  shows "diyfp_normalize (diyfp f e) = Some (diyfp (push_bit n f) (e - int n))"
proof -
  have "f \<noteq> 0" using assms(2) by (metis unat_0 mult_0 not_le zero_less_numeral zero_less_power)
  then show ?thesis
    using normalize_loop_eq [of "diyfp f e" n] assms by (simp add: diyfp_normalize_def json_assert_def)
qed

lemma diyfp_normalize_to_eq:
  assumes "unat f * 2 ^ n < 2 ^ 64"
  shows "diyfp_normalize_to (diyfp f (e + int n)) e = Some (diyfp (push_bit n f) e)"
proof -
  have "unat (drop_bit n (push_bit n f)) = unat f"
    using assms by (simp only: unat_drop) (subst unat_shift_small, simp_all)
  then have "drop_bit n (push_bit n f) = f"
    by (simp only: word_unat_eq_iff)
  then show ?thesis
    by (simp add: diyfp_normalize_to_def json_assert_def)
qed

lemma exists_shift:
  fixes f :: nat
  assumes "0 < f" and "f < 2 ^ k" and "k \<le> 64"
  obtains n where "f * 2 ^ n < 2 ^ 64" and "2 ^ 63 \<le> f * 2 ^ n" and "64 - k \<le> n" and "n \<le> 63"
proof -
  obtain p where p: "2 ^ p \<le> f" "f < 2 ^ (p + 1)"
    using ex_power_ivl1 [of 2 f] assms(1) by auto
  have "(2::nat) ^ p < 2 ^ k"
    using p(1) assms(2) by linarith
  then have "p < k" by simp
  define n where "n = 63 - p"
  have pn: "Suc p + n = 64" "p + n = 63" using \<open>p < k\<close> assms(3) by (simp_all add: n_def)
  have "f * 2 ^ n < 2 ^ (p + 1) * 2 ^ n" using p(2) by simp
  also have "\<dots> = 2 ^ 64" using pn(1) by (simp only: power_add [symmetric] add_Suc_right add_0_right Suc_eq_plus1)
  finally have 1: "f * 2 ^ n < 2 ^ 64" .
  have "(2::nat) ^ 63 = 2 ^ p * 2 ^ n" by (simp only: power_add [symmetric] pn(2))
  also have "\<dots> \<le> f * 2 ^ n" using p(1) by simp
  finally have 2: "2 ^ 63 \<le> f * 2 ^ n" .
  show ?thesis
    using that [OF 1 2] \<open>p < k\<close> by (simp add: n_def)
qed

subsection \<open>The boundaries of a double\<close>

text \<open>Exponent and fraction fields of a positive double, as numbers.\<close>

definition biased_exponent :: "u64 \<Rightarrow> nat" where
  "biased_exponent x = unat x div 2 ^ 52"

definition fraction :: "u64 \<Rightarrow> nat" where
  "fraction x = unat x mod 2 ^ 52"

definition significand :: "u64 \<Rightarrow> nat" where
  "significand x = (if biased_exponent x = 0 then fraction x else fraction x + 2 ^ 52)"

definition exponent :: "u64 \<Rightarrow> int" where
  "exponent x = (if biased_exponent x = 0 then - 1074 else int (biased_exponent x) - 1075)"

definition closer_below :: "u64 \<Rightarrow> bool" where
  "closer_below x \<longleftrightarrow> fraction x = 0 \<and> biased_exponent x > 1"

lemma fraction_less: "fraction x < 2 ^ 52"
  by (simp add: fraction_def)

lemma significand_less: "significand x < 2 ^ 53"
  using fraction_less [of x] by (simp add: significand_def)

lemma unat_field_E: "unat (drop_bit 52 x) = biased_exponent x"
  by (simp only: biased_exponent_def unat_drop)

lemma unat_field_F: "unat (x AND (push_bit 52 1 - 1)) = fraction x"
  by (simp only: one_shift_minus_1 fraction_def) (simp add: unat_and_ones)

lemma decode_double_eq: "unat (df_f (decode_double x)) = significand x" "df_e (decode_double x) = exponent x"
proof -
  have e: "drop_bit 52 x = 0 \<longleftrightarrow> biased_exponent x = 0"
    by (simp only: word_unat_eq_iff unat_field_E unat_0)
  have p: "unat (push_bit 52 1 :: u64) = 2 ^ 52"
    by (subst unat_shift_small) simp_all
  have "unat ((x AND (push_bit 52 1 - 1)) + push_bit 52 1) = fraction x + 2 ^ 52"
    by (subst unat_add_small; simp only: unat_field_F p) (use fraction_less [of x] in simp)
  then show "unat (df_f (decode_double x)) = significand x"
    unfolding decode_double_def Let_def significand_def by (simp only: e unat_field_F diyfp.simps if_distrib if_splits) simp
  show "df_e (decode_double x) = exponent x"
    unfolding decode_double_def Let_def exponent_def e
    by (cases "biased_exponent x = 0") (simp_all only: diyfp.simps if_True if_False uint_nat unat_field_E simp_thms)
qed

lemma bit_63_iff: "bit x 63 \<longleftrightarrow> 2 ^ 63 \<le> unat x" for x :: u64
proof -
  have "bit (unat x) 63 \<longleftrightarrow> odd (unat x div 2 ^ 63)"
    by (rule bit_iff_odd)
  moreover have "unat x div 2 ^ 63 = 0 \<or> unat x div 2 ^ 63 = 1"
    using unsigned_less [of x, where ?'a = nat] by auto
  ultimately show ?thesis
    by (simp only: bit_unsigned_iff) auto
qed

lemma is_finite_iff: "is_finite x \<longleftrightarrow> biased_exponent x mod 2 ^ 11 \<noteq> 2047"
proof -
  have "0x7FF = (mask 11 :: u64)"
    by (simp add: mask_eq_exp_minus_1)
  then have "unat (drop_bit 52 x AND 0x7FF) = biased_exponent x mod 2 ^ 11"
    using unat_and_ones [of 11 "drop_bit 52 x"] by (simp only: unat_field_E) simp
  moreover have "unat (0x7FF :: u64) = 2047"
    by simp
  ultimately show ?thesis
    unfolding is_finite_def by (simp only: word_unat_eq_iff)
qed

lemma positive_bounds:
  assumes "is_finite x" and "is_positive x"
  shows "unat x < 2047 * 2 ^ 52" and "0 < significand x" and "biased_exponent x < 2047"
proof -
  have "unat x < 2 ^ 63"
    using assms(2) by (simp only: is_positive_def bit_63_iff not_le)
  then have "biased_exponent x < 2048" by (simp add: biased_exponent_def)
  then show b: "biased_exponent x < 2047"
    using assms(1) by (simp add: is_finite_iff)
  then show "unat x < 2047 * 2 ^ 52" by (simp add: biased_exponent_def)
  have "unat x \<noteq> 0" using assms(2) by (simp only: is_positive_def unat_eq_0) simp
  then show "0 < significand x"
    by (auto simp: significand_def fraction_def biased_exponent_def)
qed

lemma unat_linear:
  fixes f :: u64
  assumes "unat f < 2 ^ 53"
  shows "unat (2 * f + 1) = 2 * unat f + 1"
    and "unat f > 0 \<Longrightarrow> unat (2 * f - 1) = 2 * unat f - 1"
    and "unat f > 0 \<Longrightarrow> unat (4 * f - 1) = 4 * unat f - 1"
proof -
  have m: "unat (2 * f) = 2 * unat f" "unat (4 * f) = 4 * unat f"
    using assms by (subst unat_mult_small; simp)+
  show "unat (2 * f + 1) = 2 * unat f + 1"
    using assms by (subst unat_add_small) (simp_all add: m)
  show "unat f > 0 \<Longrightarrow> unat (2 * f - 1) = 2 * unat f - 1"
    by (subst unat_sub_small) (simp_all add: m word_le_nat_alt)
  show "unat f > 0 \<Longrightarrow> unat (4 * f - 1) = 4 * unat f - 1"
    by (subst unat_sub_small) (simp_all add: m word_le_nat_alt)
qed

definition lower_significand :: "u64 \<Rightarrow> nat \<Rightarrow> nat" where
  "lower_significand x n =
     (if closer_below x then (4 * significand x - 1) * 2 ^ (n - 2) else (2 * significand x - 1) * 2 ^ (n - 1))"

lemma upper_shift:
  fixes f :: nat
  assumes "f * 2 ^ n < 2 ^ 64" and "1 \<le> n" and "n \<le> 64"
  shows "(2 * f + 1) * 2 ^ (n - 1) < 2 ^ 64"
proof -
  have "2 ^ n * f < 2 ^ n * 2 ^ (64 - n)"
    using assms(1,3) by (simp add: mult.commute flip: power_add)
  then have "f < 2 ^ (64 - n)" by simp
  then have "2 ^ n * (f + 1) \<le> 2 ^ n * 2 ^ (64 - n)" by (intro mult_le_mono2) simp
  also have "\<dots> = (2::nat) ^ 64" using assms(3) by (simp flip: power_add)
  finally have "2 ^ n * (f + 1) \<le> 2 ^ 64" .
  moreover obtain k where "n = Suc k" using assms(2) by (cases n) auto
  then have "(2 * f + 1) * 2 ^ (n - 1) < 2 ^ n * (f + 1)"
    by (simp add: algebra_simps)
  ultimately show ?thesis
    by (rule order_less_le_trans [rotated])
qed

lemma lower_shift:
  assumes "significand x * 2 ^ n < 2 ^ 64" and "2 \<le> n"
  shows "lower_significand x n < 2 ^ 64"
proof -
  obtain k where "n = k + 2" using assms(2) by (metis le_add_diff_inverse2)
  then have "lower_significand x n \<le> significand x * 2 ^ n"
    by (simp add: lower_significand_def diff_mult_distrib ac_simps)
  then show ?thesis using assms(1) by simp
qed

lemma normalized_boundaries:
  assumes f: "unat f = significand x" "0 < significand x" and n: "significand x * 2 ^ n < 2 ^ 64" "2 ^ 63 \<le> significand x * 2 ^ n" "2 \<le> n" "n \<le> 64"
  shows "\<exists>w. diyfp_normalize (diyfp f e) = Some (diyfp w (e - int n)) \<and> unat w = significand x * 2 ^ n"
    and "\<exists>p. diyfp_normalize (diyfp (2 * f + 1) (e - 1)) = Some (diyfp p (e - int n)) \<and> unat p = (2 * significand x + 1) * 2 ^ (n - 1)"
    and "\<exists>m. diyfp_normalize_to (if closer_below x then diyfp (4 * f - 1) (e - 2) else diyfp (2 * f - 1) (e - 1)) (e - int n) =
           Some (diyfp m (e - int n)) \<and> unat m = lower_significand x n"
proof -
  have "unat f < 2 ^ 53" using significand_less by (simp only: f(1))
  note lin = unat_linear [OF this, unfolded f(1)]
  have en: "e - int n + int (n - 2) = e - 2" "e - int n + int (n - 1) = e - 1" "e - 1 - int (n - 1) = e - int n"
    using n(3) by simp_all
  show "\<exists>w. diyfp_normalize (diyfp f e) = Some (diyfp w (e - int n)) \<and> unat w = significand x * 2 ^ n"
    using diyfp_normalize_eq [of f n e] unat_shift_64 [of f n] n(1,2) by (simp only: f) blast
  obtain k where k: "n = Suc k" using n(3) by (cases n) auto
  have up: "(2 * significand x + 1) * 2 ^ (n - 1) < 2 ^ 64" "2 ^ 63 \<le> (2 * significand x + 1) * 2 ^ (n - 1)"
    using upper_shift [OF n(1)] n(2-4) by (simp_all add: k algebra_simps)
  then show "\<exists>p. diyfp_normalize (diyfp (2 * f + 1) (e - 1)) = Some (diyfp p (e - int n)) \<and> unat p = (2 * significand x + 1) * 2 ^ (n - 1)"
    using diyfp_normalize_eq [of "2 * f + 1" "n - 1" "e - 1"] unat_shift_64 [of "2 * f + 1" "n - 1"]
    by (simp only: lin(1) en) blast
  show "\<exists>m. diyfp_normalize_to (if closer_below x then diyfp (4 * f - 1) (e - 2) else diyfp (2 * f - 1) (e - 1)) (e - int n) =
           Some (diyfp m (e - int n)) \<and> unat m = lower_significand x n"
    using lower_shift [OF n(1,3)] f(2)
      diyfp_normalize_to_eq [of "4 * f - 1" "n - 2" "e - int n"] unat_shift_64 [of "4 * f - 1" "n - 2"]
      diyfp_normalize_to_eq [of "2 * f - 1" "n - 1" "e - int n"] unat_shift_64 [of "2 * f - 1" "n - 1"]
    by (cases "closer_below x") (simp_all only: lin en lower_significand_def if_True if_False, blast+)
qed

lemma compute_boundaries_eq:
  assumes "is_finite x" and "is_positive x"
  obtains n b where "compute_boundaries x = Some b" and "11 \<le> n" "n \<le> 63"
    and "significand x * 2 ^ n < 2 ^ 64" and "2 ^ 63 \<le> significand x * 2 ^ n"
    and "df_e (bd_w b) = exponent x - int n" "df_e (bd_minus b) = exponent x - int n" "df_e (bd_plus b) = exponent x - int n"
    and "unat (df_f (bd_w b)) = significand x * 2 ^ n"
    and "unat (df_f (bd_plus b)) = (2 * significand x + 1) * 2 ^ (n - 1)"
    and "unat (df_f (bd_minus b)) = lower_significand x n"
proof -
  define v where "v = decode_double x"
  have v: "unat (df_f v) = significand x" "df_e v = exponent x" "diyfp (df_f v) (exponent x) = v"
    by (simp_all add: v_def decode_double_eq flip: decode_double_eq(2))
  have f: "0 < significand x" "significand x < 2 ^ 53"
    using positive_bounds(2) [OF assms] significand_less by simp_all
  from exists_shift [OF f] obtain n where n: "significand x * 2 ^ n < 2 ^ 64" "2 ^ 63 \<le> significand x * 2 ^ n" "11 \<le> n" "n \<le> 63"
    by auto
  have "2 \<le> n" "n \<le> 64" using n(3,4) by simp_all
  note nb = normalized_boundaries [OF v(1) f(1) n(1,2) this, of "df_e v", unfolded v(2,3)]
  obtain W P M where
    "diyfp_normalize v = Some (diyfp W (exponent x - int n))" and u: "unat W = significand x * 2 ^ n"
    "unat P = (2 * significand x + 1) * 2 ^ (n - 1)" "unat M = lower_significand x n" and
    "diyfp_normalize (diyfp (2 * df_f v + 1) (df_e v - 1)) = Some (diyfp P (exponent x - int n))" and
    "diyfp_normalize_to (if closer_below x then diyfp (4 * df_f v - 1) (df_e v - 2) else diyfp (2 * df_f v - 1) (df_e v - 1))
       (exponent x - int n) = Some (diyfp M (exponent x - int n))"
    using nb unfolding v(2) by metis
  moreover have "(x AND (push_bit 52 1 - 1) = 0 \<and> drop_bit 52 x > 1) = closer_below x"
    unfolding closer_below_def word_unat_eq_iff word_less_nat_alt unat_field_E unat_field_F by simp
  ultimately have cb: "compute_boundaries x = Some \<lparr>bd_w = diyfp W (exponent x - int n),
      bd_minus = diyfp M (exponent x - int n), bd_plus = diyfp P (exponent x - int n)\<rparr>"
    using assms by (simp add: compute_boundaries_def Let_def v_def [symmetric] json_assert_def)
  show ?thesis
    by (rule that [OF cb n(3,4,1,2)]) (simp_all add: u)
qed

end
