(* ===== verification/Dtoa_Powers.thy ===== *)
theory Dtoa_Powers
  imports Dtoa_Arith
begin

section \<open>The cached powers of ten\<close>

text \<open>
  The table of \<open>get_cached_power_for_binary_exponent\<close>: every entry is the power of ten it stands for,
  to the nearest 64-bit significand, and for every exponent of a normalised double the entry chosen
  brings the exponent of the product into the range the digit generation needs.
\<close>

subsection \<open>The entries are correctly rounded\<close>

text \<open>
  The check walks along the table with an enclosure of the exact power by 128-bit integers, from one
  entry to the next by the factor \<open>10 ^ 8\<close>.
\<close>

definition encloses :: "int \<Rightarrow> int \<Rightarrow> int \<Rightarrow> int \<Rightarrow> bool" where
  "encloses lo hi e k \<longleftrightarrow>
     real_of_int lo \<le> 10 powi k / 2 powi (e - 64) \<and> 10 powi k / 2 powi (e - 64) \<le> real_of_int hi"

definition rounds :: "int \<Rightarrow> int \<Rightarrow> u64 \<Rightarrow> bool" where
  "rounds lo hi f \<longleftrightarrow> (2 * int (unat f) - 1) * 2 ^ 64 \<le> 2 * lo \<and> 2 * hi \<le> (2 * int (unat f) + 1) * 2 ^ 64
     \<and> 2 ^ 63 \<le> unat f"

definition scale_lo :: "int \<Rightarrow> int \<Rightarrow> int" where
  "scale_lo lo d = lo * 390625 div 2 ^ nat (d - 8)"

definition scale_hi :: "int \<Rightarrow> int \<Rightarrow> int" where
  "scale_hi hi d = hi * 390625 div 2 ^ nat (d - 8) + 1"

fun powers_ok :: "int \<Rightarrow> int \<Rightarrow> int \<Rightarrow> int \<Rightarrow> (u64 \<times> int \<times> int) list \<Rightarrow> bool" where
  "powers_ok lo hi e k [] = True"
| "powers_ok lo hi e k ((f', e', k') # ps) =
     (k' = k + 8 \<and> e' \<ge> e + 8 \<and> rounds (scale_lo lo (e' - e)) (scale_hi hi (e' - e)) f'
      \<and> powers_ok (scale_lo lo (e' - e)) (scale_hi hi (e' - e)) e' k' ps)"

definition is_power :: "u64 \<Rightarrow> int \<Rightarrow> int \<Rightarrow> bool" where
  "is_power f e k \<longleftrightarrow> \<bar>real (unat f) - 10 powi k / 2 powi e\<bar> \<le> 1 / 2 \<and> 2 ^ 63 \<le> unat f"

lemma encloses_rounds:
  assumes "encloses lo hi e k" and "rounds lo hi f"
  shows "is_power f e k"
proof -
  define X u c where "X = 10 powi k / (2 powi e :: real)" and "u = real (unat f)" and "c = (2 ^ 64 :: real)"
  have c: "c > 0" by (simp add: c_def)
  have X: "10 powi k / 2 powi (e - 64) = X * c"
    by (simp add: X_def c_def power_int_diff)
  have "real_of_int ((2 * int (unat f) - 1) * 2 ^ 64) \<le> real_of_int (2 * lo)"
    "real_of_int (2 * hi) \<le> real_of_int ((2 * int (unat f) + 1) * 2 ^ 64)"
    using assms(2) unfolding of_int_le_iff rounds_def by blast+
  then have "(2 * u - 1) * c \<le> 2 * real_of_int lo" "2 * real_of_int hi \<le> (2 * u + 1) * c"
    by (simp_all add: u_def c_def)
  then have "(2 * u - 1) * c \<le> (2 * X) * c" "(2 * X) * c \<le> (2 * u + 1) * c"
    using assms(1) unfolding encloses_def X by linarith+
  then have "2 * u - 1 \<le> 2 * X" "2 * X \<le> 2 * u + 1"
    using c by (meson mult_right_le_imp_le)+
  then have "\<bar>real (unat f) - X\<bar> \<le> 1 / 2"
    unfolding u_def by linarith
  then show ?thesis
    using assms(2) unfolding is_power_def X_def rounds_def by blast
qed

lemma encloses_step:
  assumes "encloses lo hi e k" and "e' \<ge> e + 8"
  shows "encloses (scale_lo lo (e' - e)) (scale_hi hi (e' - e)) e' (k + 8)"
proof -
  define t where "t = nat (e' - e - 8)"
  define X where "X = 10 powi k / (2 powi (e - 64) :: real)"
  have "e' - 64 = (e - 64) + int (8 + t)"
    using assms(2) by (simp add: t_def)
  then have "2 powi (e' - 64) = 2 powi (e - 64) * (2 ^ (8 + t) :: real)"
    by (metis power_int_add power_int_of_nat zero_neq_numeral)
  then have "2 powi (e' - 64) = 2 powi (e - 64) * (256 * 2 ^ t :: real)"
    by (simp add: power_add)
  moreover have "10 powi (k + 8) = 10 powi k * (100000000 :: real)"
    by (simp add: power_int_add)
  ultimately have X': "10 powi (k + 8) / 2 powi (e' - 64) = X * 390625 / 2 ^ t"
    by (simp add: X_def ac_simps)
  have "real_of_int (lo * 390625 div 2 ^ t) \<le> real_of_int (lo * 390625) / 2 ^ t"
    using real_of_int_div4 [of "lo * 390625" "2 ^ t"] by simp
  moreover have "real_of_int (hi * 390625) / 2 ^ t \<le> real_of_int (hi * 390625 div 2 ^ t + 1)"
    using real_of_int_div3 [of "hi * 390625" "2 ^ t"] by simp
  moreover have "real_of_int lo \<le> X" "X \<le> real_of_int hi"
    using assms(1) by (simp_all add: encloses_def X_def)
  then have "real_of_int (lo * 390625) / 2 ^ t \<le> X * 390625 / 2 ^ t" "X * 390625 / 2 ^ t \<le> real_of_int (hi * 390625) / 2 ^ t"
    by (simp_all add: divide_right_mono)
  ultimately show ?thesis
    unfolding encloses_def X' scale_lo_def scale_hi_def t_def by linarith
qed

lemma powers_ok_sound:
  "encloses lo hi e k \<Longrightarrow> powers_ok lo hi e k ps \<Longrightarrow> \<forall>(f', e', k') \<in> set ps. is_power f' e' k'"
proof (induction lo hi e k ps rule: powers_ok.induct)
  case (2 lo hi e k f' e' k' ps)
  then have enc: "encloses (scale_lo lo (e' - e)) (scale_hi hi (e' - e)) e' k'"
    using encloses_step [of lo hi e k e'] by simp
  then show ?case
    using 2 encloses_rounds [OF enc] by auto
qed simp

lemma kCachedPowers_ok:
  "powers_ok 227884678143438210606695688214919443462 227884678143438210606695688214919443463 (- 1060) (- 300) (tl kCachedPowers)"
  by (simp add: kCachedPowers_def rounds_def scale_lo_def scale_hi_def)

lemma first_power: "encloses 227884678143438210606695688214919443462 227884678143438210606695688214919443463 (- 1060) (- 300)"
proof -
  have "(227884678143438210606695688214919443462 :: real) * 10 ^ 300 \<le> 2 ^ 1124" "(2 :: real) ^ 1124 \<le> 227884678143438210606695688214919443463 * 10 ^ 300"
    by simp_all
  then show ?thesis
    by (simp add: encloses_def power_int_def field_simps)
qed

lemma kCachedPowers_power:
  assumes "(f, e, k) \<in> set kCachedPowers"
  shows "is_power f e k"
proof -
  have hd: "kCachedPowers = (0xAB70FE17C79AC6CA, - 1060, - 300) # tl kCachedPowers"
    by (simp add: kCachedPowers_def)
  have "rounds 227884678143438210606695688214919443462 227884678143438210606695688214919443463 0xAB70FE17C79AC6CA"
    by (simp add: rounds_def)
  then have "is_power 0xAB70FE17C79AC6CA (- 1060) (- 300)"
    by (rule encloses_rounds [OF first_power])
  moreover have "(f, e, k) = (0xAB70FE17C79AC6CA, - 1060, - 300) \<or> (f, e, k) \<in> set (tl kCachedPowers)"
    using assms by (subst (asm) hd) simp
  ultimately show ?thesis
    using powers_ok_sound [OF first_power kCachedPowers_ok] by auto
qed

subsection \<open>The right entry\<close>

text \<open>
  For the entry at index \<open>j\<close>, with the exponents \<open>f = - 61 - e\<close> for which it is chosen between
  \<open>2 ^ 18 * (8 * j - 308) / 78913\<close> and \<open>2 ^ 18 * (8 * j - 300) / 78913\<close>.
\<close>

fun exponents_ok :: "int \<Rightarrow> (u64 \<times> int \<times> int) list \<Rightarrow> bool" where
  "exponents_ok j [] = True"
| "exponents_ok j ((f, e, k) # ps) =
     (78913 * (e + 34) < 262144 * (8 * j - 308) \<and> 262144 * (8 * j - 300) < 78913 * (e + 64)
      \<and> k = 8 * j - 300 \<and> exponents_ok (j + 1) ps)"

lemma exponents_ok_nth:
  "exponents_ok j ps \<Longrightarrow> i < length ps \<Longrightarrow> ps ! i = (f, e, k) \<Longrightarrow>
   78913 * (e + 34) < 262144 * (8 * (j + int i) - 308) \<and> 262144 * (8 * (j + int i) - 300) < 78913 * (e + 64)
   \<and> k = 8 * (j + int i) - 300"
proof (induction j ps arbitrary: i rule: exponents_ok.induct)
  case (2 j f' e' k' ps)
  then show ?case
    by (cases i) (auto simp: algebra_simps)
qed simp

lemma kCachedPowers_exponents: "exponents_ok 0 kCachedPowers" and length_kCachedPowers: "length kCachedPowers = 79"
  by (simp_all add: kCachedPowers_def)

lemma sdiv_ceiling:
  fixes a b :: int
  assumes "b > 0"
  defines "k \<equiv> a sdiv b + (if a > 0 then 1 else 0)"
  shows "b * (k - 1) \<le> a" and "a \<le> b * k"
proof -
  have "a sdiv b = (if a > 0 then a div b else - ((- a) div b))"
    using assms(1) by (auto simp: signed_divide_int_def sgn_if)
  moreover have "b * (a div b) \<le> a" "a < b * (a div b) + b" "b * ((- a) div b) \<le> - a" "- a < b * ((- a) div b) + b"
    using assms(1) mult_div_mod_eq [of b a] mult_div_mod_eq [of b "- a"] pos_mod_bound [of b a] pos_mod_bound [of b "- a"]
      pos_mod_sign [of b a] pos_mod_sign [of b "- a"] by linarith+
  ultimately show "b * (k - 1) \<le> a" "a \<le> b * k"
    unfolding k_def by (simp_all add: algebra_simps split: if_splits)
qed

lemma get_cached_power_eq:
  assumes "- 1137 \<le> e" and "e \<le> 960"
  obtains f c k where "get_cached_power_for_binary_exponent e = Some \<lparr>cp_f = f, cp_e = c, cp_k = k\<rparr>"
    and "is_power f c k" and "- 60 \<le> c + e + 64" and "c + e + 64 \<le> - 32" and "- 300 \<le> k" and "k \<le> 324"
proof -
  define x where "x = - 61 - e"
  define k0 where "k0 = (x * 78913) sdiv 2 ^ 18 + (if x > 0 then 1 else 0)"
  define i where "i = (307 + k0) div 8"
  have k0: "262144 * (k0 - 1) \<le> x * 78913" "x * 78913 \<le> 262144 * k0"
    using sdiv_ceiling [of "2 ^ 18" "x * 78913"] by (simp_all add: k0_def)
  have "- 1021 \<le> x" "x \<le> 1076"
    using assms by (simp_all add: x_def)
  then have "262144 * (- 308) < 262144 * k0" "262144 * (k0 - 1) < 262144 * 324"
    using k0 by linarith+
  then have b: "0 \<le> 307 + k0" "307 + k0 \<le> 631"
    by (simp_all only: mult_less_cancel_left_pos zero_less_numeral)
  have i: "8 * i \<le> 307 + k0" "307 + k0 \<le> 8 * i + 7" "0 \<le> i" "i < 79"
    using b by (simp_all add: i_def)
  have index: "(300 + k0 + (8 - 1)) sdiv 8 = i"
    using b(1) by (simp add: signed_divide_int_def i_def sgn_if algebra_simps)
  obtain f c k where entry: "kCachedPowers ! nat i = (f, c, k)"
    by (cases "kCachedPowers ! nat i")
  have n: "nat i < length kCachedPowers" using i(3,4) by (simp add: length_kCachedPowers)
  have c: "78913 * (c + 34) < 262144 * (8 * i - 308)" "262144 * (8 * i - 300) < 78913 * (c + 64)" "k = 8 * i - 300"
    using exponents_ok_nth [OF kCachedPowers_exponents n entry] i(3) by simp_all
  have "262144 * (8 * i - 308) \<le> 262144 * (k0 - 1)" "262144 * k0 \<le> 262144 * (8 * i - 300)"
    using i(1,2) by simp_all
  then have "78913 * (c + 34) < 78913 * x" "78913 * x < 78913 * (c + 64)"
    using c(1,2) k0 by linarith+
  then have r: "- 60 \<le> c + e + 64" "c + e + 64 \<le> - 32"
    by (simp_all add: x_def)
  have "get_cached_power_for_binary_exponent e = Some \<lparr>cp_f = f, cp_e = c, cp_k = k\<rparr>"
    using assms r n i(3) index entry
    by (simp add: get_cached_power_for_binary_exponent_def Let_def json_assert_def k0_def x_def)
  moreover have "is_power f c k"
    using n entry by (metis kCachedPowers_power nth_mem)
  ultimately show ?thesis
    using that r c(3) i(3,4) by simp
qed

end
