(* ===== verification/Dtoa_Digits.thy ===== *)
theory Dtoa_Digits
  imports Dtoa_Arith
begin

section \<open>The digits Grisu2 generates\<close>

text \<open>
  The digits of the upper boundary \<open>M\<close> are generated from left to right until what is left of it does
  not exceed \<open>delta\<close>, the width of the interval; then the last digit is lowered towards the value. The
  lemmas are about natural numbers, with \<open>2 ^ s\<close> the unit of the fixed-point representation.
\<close>

subsection \<open>Decimal digits\<close>

definition is_digit :: "byte \<Rightarrow> bool" where
  "is_digit c \<longleftrightarrow> 48 \<le> unat c \<and> unat c \<le> 57"

definition digits_value :: "byte list \<Rightarrow> nat" where
  "digits_value = foldl (\<lambda>a c. 10 * a + (unat c - 48)) 0"

lemma digits_value_Nil [simp]: "digits_value [] = 0"
  by (simp add: digits_value_def)

lemma digits_value_snoc [simp]: "digits_value (xs @ [c]) = 10 * digits_value xs + (unat c - 48)"
  by (simp add: digits_value_def)

lemma digits_value_append: "digits_value (xs @ ys) = digits_value xs * 10 ^ length ys + digits_value ys"
proof (induction ys rule: rev_induct)
  case (snoc c ys)
  then show ?case
    by (simp add: algebra_simps flip: append_assoc)
qed simp

lemma digits_value_less: "list_all is_digit xs \<Longrightarrow> digits_value xs < 10 ^ length xs"
proof (induction xs rule: rev_induct)
  case (snoc c xs)
  then have "digits_value xs + 1 \<le> 10 ^ length xs" "unat c - 48 \<le> 9"
    by (auto simp: is_digit_def)
  then show ?case by simp
qed simp

lemma unat_digit:
  fixes d :: "'a::len word"
  assumes "unat d \<le> 9"
  shows "unat (48 + ucast d :: byte) = 48 + unat d" and "is_digit (48 + ucast d)"
proof -
  have "unat (ucast d :: byte) = unat d"
    using assms by (simp add: unsigned_ucast_eq take_bit_nat_eq_self_iff)
  then show "unat (48 + ucast d :: byte) = 48 + unat d"
    using assms by (subst unat_add_small) simp_all
  then show "is_digit (48 + ucast d)"
    using assms by (simp add: is_digit_def)
qed

text \<open>A number without a leading zero.\<close>

definition numeral_text :: "byte list \<Rightarrow> bool" where
  "numeral_text xs \<longleftrightarrow> xs \<noteq> [] \<and> list_all is_digit xs \<and> hd xs \<noteq> 48"

lemma numeral_text_ge:
  assumes "numeral_text xs"
  shows "10 ^ (length xs - 1) \<le> digits_value xs"
proof -
  obtain c ys where xs: "xs = [c] @ ys" "is_digit c" "c \<noteq> 48"
    using assms by (cases xs) (auto simp: numeral_text_def)
  have "unat c \<noteq> unat (48 :: byte)"
    using xs(3) unfolding word_unat_eq_iff .
  then have "48 < unat c"
    using xs(2) by (simp add: is_digit_def)
  then have "1 \<le> digits_value [c]"
    by (simp add: digits_value_def)
  then have "1 * 10 ^ length ys \<le> digits_value [c] * 10 ^ length ys"
    by (rule mult_le_mono1)
  moreover have "length xs - 1 = length ys" by (simp add: xs(1))
  moreover have "digits_value xs = digits_value [c] * 10 ^ length ys + digits_value ys"
    by (simp only: xs(1) digits_value_append)
  ultimately show ?thesis by (metis mult_1 trans_le_add1)
qed

subsection \<open>Lowering the last digit\<close>

lemma round_loop_eq:
  "unat (last buf) = 48 + d \<Longrightarrow> d \<le> 9 \<Longrightarrow> buf \<noteq> [] \<Longrightarrow> list_all is_digit buf \<Longrightarrow>
   unat rest \<le> unat delta \<Longrightarrow> unat delta < d * unat ten_k + unat rest \<Longrightarrow>
   \<exists>c t. round_loop gap delta ten_k rest buf = Some (butlast buf @ [c]) \<and> is_digit c \<and> c \<noteq> 48
      \<and> unat c + t = unat (last buf) \<and> unat rest + t * unat ten_k \<le> unat delta"
proof (induction d arbitrary: buf rest)
  case (Suc d)
  show ?case
  proof (cases "rest < gap \<and> delta - rest \<ge> ten_k \<and> (rest + ten_k < gap \<or> gap - rest > rest + ten_k - gap)")
    case False
    have "last buf \<noteq> 48" using Suc.prems(1) by auto
    then have "round_loop gap delta ten_k rest buf = Some (butlast buf @ [last buf]) \<and> is_digit (last buf) \<and> last buf \<noteq> 48
      \<and> unat (last buf) + 0 = unat (last buf) \<and> unat rest + 0 * unat ten_k \<le> unat delta"
      using False Suc.prems by (subst round_loop.simps) (auto simp: list_all_iff)
    then show ?thesis by blast
  next
    case True
    let ?buf = "butlast buf @ [last buf - 1]" and ?rest = "rest + ten_k"
    have "unat ten_k \<le> unat (delta - rest)"
      using True by (simp only: word_le_nat_alt)
    then have le: "unat rest + unat ten_k \<le> unat delta"
      using Suc.prems(5) by (subst (asm) unat_sub_small) (simp_all add: word_le_nat_alt)
    then have r: "unat ?rest = unat rest + unat ten_k"
      using unsigned_less [of delta, where ?'a = nat] by (subst unat_add_small) simp_all
    have l: "unat (last buf - 1) = 48 + d"
      using Suc.prems(1) by (subst unat_sub_small) (simp_all add: word_le_nat_alt)
    have "last buf \<noteq> 48" using Suc.prems(1) by auto
    then have "round_loop gap delta ten_k rest buf = round_loop gap delta ten_k ?rest ?buf"
      using True by (subst round_loop.simps) simp
    moreover have "list_all is_digit ?buf"
      using Suc.prems(2,4) l by (auto simp: list_all_iff is_digit_def dest: in_set_butlastD)
    ultimately obtain c t where "round_loop gap delta ten_k rest buf = Some (butlast ?buf @ [c])" "is_digit c" "c \<noteq> 48"
      "unat c + t = unat (last ?buf)" "unat ?rest + t * unat ten_k \<le> unat delta"
      using Suc.IH [of ?buf ?rest] Suc.prems(2,6) l le r by (auto simp: algebra_simps)
    then have "round_loop gap delta ten_k rest buf = Some (butlast buf @ [c]) \<and> is_digit c \<and> c \<noteq> 48
      \<and> unat c + Suc t = unat (last buf) \<and> unat rest + Suc t * unat ten_k \<le> unat delta"
      using l r Suc.prems(1) by simp
    then show ?thesis by blast
  qed
qed simp

lemma grisu2_round_digit:
  fixes d :: "'a::len word"
  assumes d: "unat d \<le> 9" and nt: "numeral_text (buf @ [48 + ucast d])" and "unat gap \<le> unat delta" "unat rest \<le> unat delta"
    and "unat delta < unat d * unat ten + unat rest"
  obtains c t where "grisu2_round gap delta rest ten (buf @ [48 + ucast d]) = Some (buf @ [c])" and "numeral_text (buf @ [c])"
    and "digits_value (buf @ [c]) + t = 10 * digits_value buf + unat d" and "unat rest + t * unat ten \<le> unat delta"
proof -
  let ?buf1 = "buf @ [48 + ucast d]"
  have l: "unat (last ?buf1) = 48 + unat d"
    by (simp only: last_snoc unat_digit(1) [OF d])
  obtain c t where round: "round_loop gap delta ten rest ?buf1 = Some (butlast ?buf1 @ [c])" "is_digit c" "c \<noteq> 48"
    "unat c + t = 48 + unat d" "unat rest + t * unat ten \<le> unat delta"
    using round_loop_eq [OF l d _ _ assms(4,5)] nt l unfolding numeral_text_def butlast_snoc by metis
  have "unat ten > 0" using assms(4,5) by (cases "unat ten = 0") auto
  then have "grisu2_round gap delta rest ten ?buf1 = Some (buf @ [c])"
    using round(1) assms(3,4) by (simp add: grisu2_round_def json_assert_def word_le_nat_alt word_less_nat_alt)
  moreover have "numeral_text (buf @ [c])"
    using nt round(2,3) by (cases buf) (auto simp: numeral_text_def)
  moreover have "digits_value (buf @ [c]) + t = 10 * digits_value buf + unat d"
    using round(2,4) by (simp add: is_digit_def)
  ultimately show ?thesis using round(5) that by blast
qed

lemma numeral_text_snoc:
  fixes d :: "'a::len word"
  assumes "unat d \<le> 9" and "if buf = [] then unat d \<noteq> 0 else numeral_text buf"
  shows "numeral_text (buf @ [48 + ucast d])"
proof -
  have "unat (48 + ucast d :: byte) \<noteq> unat (48 :: byte)" if "unat d \<noteq> 0"
    using that by (simp add: unat_digit(1) [OF assms(1)])
  then have "48 + ucast d \<noteq> (48 :: byte)" if "unat d \<noteq> 0"
    using that by metis
  then show ?thesis
    using assms(2) unat_digit(2) [OF assms(1)] by (cases buf) (auto simp: numeral_text_def)
qed

subsection \<open>The integral part\<close>

lemma find_largest_pow10_eq:
  assumes "n > 0"
  obtains k p where "find_largest_pow10 n = (k, p)" and "1 \<le> k" "k \<le> 10" and "unat p = 10 ^ (k - 1)"
    and "10 ^ (k - 1) \<le> unat n" and "unat n < 10 ^ k"
proof -
  have "1 \<le> unat n" using assms by (simp add: word_less_nat_alt)
  moreover have "unat n < 2 ^ 32" using unsigned_less [of n, where ?'a = nat] by simp
  ultimately show ?thesis
    using that by (cases "find_largest_pow10 n") (auto simp: find_largest_pow10_def word_le_nat_alt split: if_splits)
qed

text \<open>Appending a digit, and rounding the one that was appended.\<close>

lemma next_digit:
  fixes d :: "'a::len word"
  assumes "unat d \<le> 9" and "length buf < cap" and "if buf = [] then unat d \<noteq> 0 else numeral_text buf"
  shows "write_char cap (48 + ucast d) buf = Some (buf @ [48 + ucast d])"
    and "digits_value (buf @ [48 + ucast d]) = 10 * digits_value buf + unat d"
    and "numeral_text (buf @ [48 + ucast d])"
  using assms by (simp_all add: write_char_def unat_digit(1) numeral_text_snoc del: digits_value_snoc) (simp add: unat_digit(1))

lemma last_digit:
  fixes d :: "'a::len word"
  assumes "unat d \<le> 9" and "numeral_text (buf @ [48 + ucast d])" and "unat gap \<le> unat delta" "unat rest \<le> unat delta"
    and "unat delta < unat d * unat ten + unat rest" and "(10 * digits_value buf + unat d) * unat ten + unat rest = M"
  obtains c where "grisu2_round gap delta rest ten (buf @ [48 + ucast d]) = Some (buf @ [c])" and "numeral_text (buf @ [c])"
    and "digits_value (buf @ [c]) * unat ten \<le> M" and "M \<le> digits_value (buf @ [c]) * unat ten + unat delta"
proof -
  obtain c t where r: "grisu2_round gap delta rest ten (buf @ [48 + ucast d]) = Some (buf @ [c])" "numeral_text (buf @ [c])"
    "digits_value (buf @ [c]) + t = 10 * digits_value buf + unat d" "unat rest + t * unat ten \<le> unat delta"
    by (rule grisu2_round_digit [OF assms(1-5)])
  have "M = digits_value (buf @ [c]) * unat ten + (unat rest + t * unat ten)"
    unfolding assms(6) [symmetric] r(3) [symmetric] distrib_right by (simp only: ac_simps)
  with r(4) show ?thesis
    by (intro that [OF r(1,2)]) simp_all
qed

lemma integral_digits_eq:
  assumes "unat p2 < 2 ^ s" and "32 \<le> s" and "s \<le> 60" and "unat gap \<le> unat delta" and "n + length buf \<le> cap"
    and "(digits_value buf * 10 ^ n + unat p1) * 2 ^ s + unat p2 = M" and "M < 2 ^ 64"
    and "unat p1 < 10 ^ n" and "n > 0 \<Longrightarrow> unat pow10 = 10 ^ (n - 1)"
    and "unat delta < unat p1 * 2 ^ s + unat p2"
    and "if buf = [] then 0 < n \<and> 10 ^ (n - 1) \<le> unat p1 else numeral_text buf"
  shows "(\<exists>buf'. integral_digits cap s p2 delta gap n p1 pow10 buf = Some (Inl buf')
             \<and> length buf' = length buf + n \<and> numeral_text buf' \<and> digits_value buf' * 2 ^ s + unat p2 = M \<and> unat delta < unat p2)
         \<or> (\<exists>buf' n'. integral_digits cap s p2 delta gap n p1 pow10 buf = Some (Inr (buf', n'))
             \<and> n' < n \<and> length buf' = length buf + n - n' \<and> numeral_text buf'
             \<and> digits_value buf' * 10 ^ n' * 2 ^ s \<le> M \<and> M \<le> digits_value buf' * 10 ^ n' * 2 ^ s + unat delta)"
  using assms
proof (induction n arbitrary: p1 pow10 buf)
  case 0
  then show ?case by (auto split: if_splits)
next
  case (Suc n)
  define d r where "d = p1 div pow10" and "r = p1 mod pow10"
  have pow: "unat pow10 = 10 ^ n" using Suc.prems(9) by simp
  have d: "unat d = unat p1 div 10 ^ n" and r: "unat r = unat p1 mod 10 ^ n"
    by (simp_all add: d_def r_def unat_div unat_mod pow)
  have p1: "unat p1 = unat d * 10 ^ n + unat r"
    by (simp only: d r div_mult_mod_eq)
  have "unat d < 10" using Suc.prems(8) by (simp add: d less_mult_imp_div_less)
  then have d9: "unat d \<le> 9" by simp
  define buf1 where "buf1 = buf @ [48 + ucast d]"
  have "10 ^ n div 10 ^ n \<le> unat d" if "buf = []"
    using Suc.prems(11) that unfolding d by (intro div_le_mono) simp
  then have "if buf = [] then unat d \<noteq> 0 else numeral_text buf" "length buf < cap"
    using Suc.prems(5,11) by (auto split: if_splits)
  note w = next_digit(1) [OF d9 this(2,1), folded buf1_def]
    and v1 = next_digit(2) [OF d9 this(2,1), folded buf1_def] and n1 = next_digit(3) [OF d9 this(2,1), folded buf1_def]
  define rest where "rest = push_bit s (ucast r) + p2"
  have M1: "(digits_value buf1 * 10 ^ n + unat r) * 2 ^ s + unat p2 = M"
    using Suc.prems(6) by (simp add: v1 p1 algebra_simps)
  then have small: "unat r * 2 ^ s + unat p2 \<le> M"
    by (simp flip: M1 add: algebra_simps)
  have cast: "unat (ucast w :: u64) = unat w" for w :: u32
    using unsigned_less [of w, where ?'a = nat] by (simp add: unsigned_ucast_eq take_bit_nat_eq_self_iff)
  have "unat (push_bit s (ucast r) :: u64) = unat r * 2 ^ s"
    using small Suc.prems(7) by (subst unat_shift_64) (simp_all add: cast)
  then have rest: "unat rest = unat r * 2 ^ s + unat p2"
    using small Suc.prems(7) unfolding rest_def by (subst unat_add_small) simp_all
  have step: "integral_digits cap s p2 delta gap (Suc n) p1 pow10 buf =
     (if rest \<le> delta then map_option (\<lambda>buf2. Inr (buf2, n)) (grisu2_round gap delta rest (push_bit s (ucast pow10)) buf1)
      else integral_digits cap s p2 delta gap n r (pow10 div 10) buf1)"
    using d9 w by (simp add: Let_def json_assert_def d_def [symmetric] r_def [symmetric] rest_def word_le_nat_alt)
  show ?case
  proof (cases "rest \<le> delta")
    case False
    then have "unat delta < unat r * 2 ^ s + unat p2"
      by (simp only: word_le_nat_alt not_le rest)
    moreover have "unat (pow10 div 10) = 10 ^ (n - 1)" if "n > 0"
      using that by (cases n) (simp_all add: unat_div pow)
    moreover have "unat r < 10 ^ n" "n + length buf1 \<le> cap" "buf1 \<noteq> []"
      using Suc.prems(5) by (simp_all add: r buf1_def)
    ultimately show ?thesis
      using Suc.IH [of buf1 r "pow10 div 10"] Suc.prems(1-4,7) M1 n1 False step by (auto simp: buf1_def)
  next
    case True
    define ten where "ten = (push_bit s (ucast pow10) :: u64)"
    have "1 \<le> digits_value buf1"
      using numeral_text_ge [OF n1] by (meson le_trans one_le_numeral one_le_power)
    then have "1 * (10 ^ n * 2 ^ s) \<le> digits_value buf1 * (10 ^ n * 2 ^ s)"
      by (rule mult_le_mono1)
    also have "\<dots> \<le> M" by (simp flip: M1 add: algebra_simps)
    finally have ten: "unat ten = 10 ^ n * 2 ^ s"
      using Suc.prems(7) unfolding ten_def by (subst unat_shift_64) (simp_all add: cast pow)
    have "unat delta < unat d * unat ten + unat rest"
      using Suc.prems(10) by (simp add: ten rest p1 algebra_simps)
    moreover have "unat rest \<le> unat delta" using True by (simp only: word_le_nat_alt)
    moreover have "(10 * digits_value buf + unat d) * unat ten + unat rest = M"
      using M1 by (simp add: v1 ten rest algebra_simps)
    ultimately obtain c where "grisu2_round gap delta rest ten buf1 = Some (buf @ [c])" "numeral_text (buf @ [c])"
      "digits_value (buf @ [c]) * unat ten \<le> M" "M \<le> digits_value (buf @ [c]) * unat ten + unat delta"
      using last_digit [OF d9 n1 [unfolded buf1_def] Suc.prems(4), of rest ten] unfolding buf1_def by metis
    then show ?thesis
      using step True by (intro disjI2) (simp add: ten_def [symmetric] ten mult.assoc del: digits_value_snoc)
  qed
qed

subsection \<open>The fractional part\<close>

lemma at_most_16_digits:
  assumes "numeral_text buf" and "M * 10 ^ m = digits_value buf * 2 ^ s + p" and "p < 2 ^ s" and "delta0 * 10 ^ m < p"
    and "M \<le> delta0 * 10 ^ 16"
  shows "length buf \<le> 16"
proof (rule ccontr)
  assume "\<not> length buf \<le> 16"
  then have "16 \<le> length buf - 1" by simp
  then have "10 ^ 16 \<le> (10 :: nat) ^ (length buf - 1)" by (rule power_increasing) simp
  then have "10 ^ 16 \<le> digits_value buf"
    using numeral_text_ge [OF assms(1)] by (rule order_trans)
  then have "10 ^ 16 * 2 ^ s \<le> M * 10 ^ m"
    using assms(2) by (metis mult_le_mono1 trans_le_add1)
  also have "\<dots> \<le> delta0 * 10 ^ 16 * 10 ^ m"
    using assms(5) by (rule mult_le_mono1)
  finally have "10 ^ 16 * 2 ^ s \<le> 10 ^ 16 * (delta0 * 10 ^ m)" by (simp only: ac_simps)
  then have "2 ^ s \<le> delta0 * 10 ^ m"
    by (simp only: mult_le_cancel1) simp
  then show False using assms(3,4) by linarith
qed

lemma fraction_digits_eq:
  assumes "s \<le> 60" and "17 \<le> cap" and "M \<le> delta0 * 10 ^ 16" and "gap0 \<le> delta0"
    and "unat p2 < 2 ^ s" and "unat delta < unat p2" and "numeral_text buf"
    and "M * 10 ^ m = digits_value buf * 2 ^ s + unat p2" and "unat delta = delta0 * 10 ^ m" and "unat gap = gap0 * 10 ^ m"
  shows "\<exists>b m' p2' delta' gap' buf'. fraction_digits cap s m p2 delta gap buf = Some (b, m', p2', delta', gap')
     \<and> grisu2_round gap' delta' p2' (push_bit s 1) b = Some buf' \<and> numeral_text buf' \<and> length buf' \<le> 17
     \<and> m' + length buf = m + length buf' \<and> digits_value buf' * 2 ^ s \<le> M * 10 ^ m'
     \<and> M * 10 ^ m' \<le> digits_value buf' * 2 ^ s + delta0 * 10 ^ m'"
  using assms(5-)
proof (induction "17 - length buf" arbitrary: m p2 delta gap buf rule: less_induct)
  case less
  have len: "length buf \<le> 16"
    using at_most_16_digits [OF less.prems(3,4,1)] less.prems(2,5) assms(3) by simp
  have "(2 :: nat) ^ s \<le> 2 ^ 60" using assms(1) by (intro power_increasing) simp_all
  then have small: "unat p2 * 10 < 2 ^ 64" "unat p2 < 2 ^ 60"
    using less.prems(1) by simp_all
  have p10: "unat (p2 * 10) = unat p2 * 10"
    using small by (subst unat_mult_small) simp_all
  have gap: "unat gap \<le> unat delta"
    using assms(4) by (simp add: less.prems(5,6))
  then have delta10: "unat (delta * 10) = unat delta * 10" "unat (gap * 10) = unat gap * 10"
    using small less.prems(2) by (subst unat_mult_small; simp)+
  define d r where "d = drop_bit s (p2 * 10)" and "r = (p2 * 10) AND (push_bit s 1 - 1)"
  have d: "unat d = unat p2 * 10 div 2 ^ s" and r: "unat r = unat p2 * 10 mod 2 ^ s"
    using assms(1) by (simp_all only: d_def r_def unat_drop one_shift_minus_1 p10) (simp add: unat_and_ones p10)
  have p2: "unat p2 * 10 = unat d * 2 ^ s + unat r" by (simp only: d r div_mult_mod_eq)
  have "unat d < 10" using less.prems(1) by (simp add: d less_mult_imp_div_less)
  then have d9: "unat d \<le> 9" by simp
  define buf1 where "buf1 = buf @ [48 + ucast d]"
  have "if buf = [] then unat d \<noteq> 0 else numeral_text buf" "length buf < cap"
    using len assms(2) less.prems(3) by (auto simp: numeral_text_def)
  note w = next_digit(1) [OF d9 this(2,1), folded buf1_def]
    and v1 = next_digit(2) [OF d9 this(2,1), folded buf1_def] and n1 = next_digit(3) [OF d9 this(2,1), folded buf1_def]
  have M1: "M * 10 ^ (m + 1) = digits_value buf1 * 2 ^ s + unat r"
  proof -
    have "M * 10 ^ (m + 1) = (M * 10 ^ m) * 10" by simp
    also have "\<dots> = digits_value buf * 2 ^ s * 10 + unat p2 * 10" by (simp only: less.prems(4) distrib_right)
    finally show ?thesis by (simp add: v1 p2 algebra_simps)
  qed
  have bound: "p2 \<le> 0xFFFFFFFFFFFFFFFF div 10"
    using small by (simp add: word_le_nat_alt unat_div)
  have step: "fraction_digits cap s m p2 delta gap buf =
     (if r \<le> delta * 10 then Some (buf1, m + 1, r, delta * 10, gap * 10)
      else fraction_digits cap s (m + 1) r (delta * 10) (gap * 10) buf1)"
  proof -
    have "d \<le> 9" using d9 by (simp add: word_le_nat_alt)
    then show ?thesis
      using bound w by (subst fraction_digits.simps)
        (simp only: d_def [symmetric] r_def [symmetric] simp_thms if_True Option.bind.simps)
  qed
  show ?case
  proof (cases "r \<le> delta * 10")
    case False
    have "17 - length buf1 < 17 - length buf" using len by (simp add: buf1_def)
    moreover have "unat r < 2 ^ s" by (simp add: r)
    moreover have "unat (delta * 10) < unat r" using False by (simp only: word_le_nat_alt not_le)
    moreover have "unat (delta * 10) = delta0 * 10 ^ (m + 1)" "unat (gap * 10) = gap0 * 10 ^ (m + 1)"
      by (simp_all add: delta10 less.prems(5,6))
    ultimately obtain b m' p2' delta' gap' buf' where
      "fraction_digits cap s (m + 1) r (delta * 10) (gap * 10) buf1 = Some (b, m', p2', delta', gap')"
      "grisu2_round gap' delta' p2' (push_bit s 1) b = Some buf'" "numeral_text buf'" "length buf' \<le> 17"
      "m' + length buf1 = m + 1 + length buf'" "digits_value buf' * 2 ^ s \<le> M * 10 ^ m'"
      "M * 10 ^ m' \<le> digits_value buf' * 2 ^ s + delta0 * 10 ^ m'"
      using less.hyps [OF _ _ _ n1 M1] by metis
    then show ?thesis
      using step False by (simp add: buf1_def)
  next
    case True
    have ten: "unat (push_bit s 1 :: u64) = 2 ^ s"
      using \<open>2 ^ s \<le> 2 ^ 60\<close> by (subst unat_shift_64) simp_all
    have "unat (gap * 10) \<le> unat (delta * 10)" "unat r \<le> unat (delta * 10)"
      using gap True by (simp_all add: delta10 word_le_nat_alt)
    moreover have "unat (delta * 10) < unat d * unat (push_bit s 1 :: u64) + unat r"
      using less.prems(2) unfolding ten delta10 p2 [symmetric] by simp
    moreover have "(10 * digits_value buf + unat d) * unat (push_bit s 1 :: u64) + unat r = M * 10 ^ (m + 1)"
      by (simp only: M1 v1 ten)
    ultimately obtain c where c: "grisu2_round (gap * 10) (delta * 10) r (push_bit s 1) (buf @ [48 + ucast d]) = Some (buf @ [c])"
      "numeral_text (buf @ [c])" "digits_value (buf @ [c]) * unat (push_bit s 1 :: u64) \<le> M * 10 ^ (m + 1)"
      "M * 10 ^ (m + 1) \<le> digits_value (buf @ [c]) * unat (push_bit s 1 :: u64) + unat (delta * 10)"
      using last_digit [OF d9 n1 [unfolded buf1_def]] by blast
    have "unat (delta * 10) = delta0 * 10 ^ (m + 1)"
      by (simp add: delta10 less.prems(5))
    note c = c [folded buf1_def, unfolded ten this]
    show ?thesis
      by (rule exI [of _ buf1], rule exI [of _ "m + 1"], rule exI [of _ r], rule exI [of _ "delta * 10"],
          rule exI [of _ "gap * 10"], rule exI [of _ "buf @ [c]"]) (use step True len c in simp)
  qed
qed

subsection \<open>Digit generation\<close>

text \<open>The number the digits stand for, in units of \<open>2 ^ - s\<close>, lies in the interval.\<close>

definition in_interval :: "nat \<Rightarrow> nat \<Rightarrow> nat \<Rightarrow> nat \<Rightarrow> int \<Rightarrow> bool" where
  "in_interval Mm Mp s D k \<longleftrightarrow>
     real Mm \<le> real D * 10 powi k * 2 ^ s \<and> real D * 10 powi k * 2 ^ s \<le> real Mp"

lemma in_interval_nonneg:
  assumes "D * 10 ^ n * 2 ^ s \<le> Mp" and "Mp \<le> D * 10 ^ n * 2 ^ s + delta0" and "Mp = Mm + delta0"
  shows "in_interval Mm Mp s D (int n)"
proof -
  have "real (D * 10 ^ n * 2 ^ s) \<le> real Mp" "real Mm \<le> real (D * 10 ^ n * 2 ^ s)"
    using assms by (simp_all only: of_nat_le_iff)
  then show ?thesis by (simp add: in_interval_def)
qed

lemma in_interval_neg:
  assumes "D * 2 ^ s \<le> Mp * 10 ^ m" and "Mp * 10 ^ m \<le> D * 2 ^ s + delta0 * 10 ^ m" and "Mp = Mm + delta0"
  shows "in_interval Mm Mp s D (- int m)"
proof -
  have "Mm * 10 ^ m \<le> D * 2 ^ s" using assms(2,3) by (simp add: algebra_simps)
  then have "real (Mm * 10 ^ m) \<le> real (D * 2 ^ s)" "real (D * 2 ^ s) \<le> real (Mp * 10 ^ m)"
    using assms(1) by (simp_all only: of_nat_le_iff)
  then have "real Mm * 10 ^ m \<le> real D * 2 ^ s" "real D * 2 ^ s \<le> real Mp * 10 ^ m"
    by simp_all
  then show ?thesis
    by (simp add: in_interval_def power_int_minus field_simps)
qed

lemma split_significand:
  fixes f :: u64
  assumes "32 \<le> s" and "s \<le> 60" and "2 ^ 60 \<le> unat f"
  shows "unat (ucast (drop_bit s f) :: u32) = unat f div 2 ^ s" and "unat (f AND (push_bit s 1 - 1)) = unat f mod 2 ^ s"
    and "(ucast (drop_bit s f) :: u32) > 0"
proof -
  have "unat f < 2 ^ 64"
    using unsigned_less [of f, where ?'a = nat] by simp
  moreover have "(2 :: nat) ^ 64 \<le> 2 ^ 32 * 2 ^ s"
    using assms(1) power_increasing [of 64 "32 + s" "2 :: nat"] by (simp add: power_add)
  ultimately have "unat f div 2 ^ s < 2 ^ 32"
    by (intro less_mult_imp_div_less) simp
  then show p1: "unat (ucast (drop_bit s f) :: u32) = unat f div 2 ^ s"
    by (simp add: unsigned_ucast_eq unat_drop take_bit_nat_eq_self_iff)
  show "unat (f AND (push_bit s 1 - 1)) = unat f mod 2 ^ s"
    using assms(2) by (simp only: one_shift_minus_1) (simp add: unat_and_ones)
  have "2 ^ s \<le> unat f"
    using assms(3) power_increasing [OF assms(2), of "2 :: nat"] by simp
  then show "(ucast (drop_bit s f) :: u32) > 0"
    by (simp add: word_less_nat_alt p1 div_greater_zero_iff)
qed

lemma grisu2_digit_gen_eq:
  assumes e: "df_e M_plus = e" "df_e M_minus = e" "df_e w = e" "- 60 \<le> e" "e \<le> - 32"
    and le: "unat (df_f M_minus) \<le> unat (df_f w)" "unat (df_f w) \<le> unat (df_f M_plus)"
    and big: "2 ^ 60 \<le> unat (df_f M_plus)" "0 < unat (df_f M_minus)"
      "unat (df_f M_plus) \<le> (unat (df_f M_plus) - unat (df_f M_minus)) * 10 ^ 16"
    and cap: "17 \<le> cap"
  shows "\<exists>buf k. grisu2_digit_gen cap ex M_minus w M_plus = Some (buf, ex + k) \<and> numeral_text buf \<and> length buf \<le> 17
           \<and> \<bar>k\<bar> \<le> 17 \<and> in_interval (unat (df_f M_minus)) (unat (df_f M_plus)) (nat (- e)) (digits_value buf) k"
proof -
  define s where "s = nat (- e)"
  have s: "32 \<le> s" "s \<le> 60" using e(4,5) by (simp_all add: s_def)
  define M delta0 gap0 where "M = unat (df_f M_plus)" and "delta0 = unat (df_f M_plus) - unat (df_f M_minus)"
    and "gap0 = unat (df_f M_plus) - unat (df_f w)"
  define delta gap where "delta = df_f M_plus - df_f M_minus" and "gap = df_f M_plus - df_f w"
  have fp: "diyfp_sub M_plus M_minus = Some (diyfp delta e)" "diyfp_sub M_plus w = Some (diyfp gap e)"
    using e(1-3) le by (simp_all add: diyfp_sub_def json_assert_def delta_def gap_def word_le_nat_alt)
  have delta: "unat delta = delta0" "unat gap = gap0" "gap0 \<le> delta0" "M = unat (df_f M_minus) + delta0" "delta0 < M"
    using le big(2) by (simp_all add: delta_def gap_def delta0_def gap0_def M_def unat_sub_small word_le_nat_alt)
  define p1 p2 where "p1 = (ucast (drop_bit s (df_f M_plus)) :: u32)" and "p2 = df_f M_plus AND (push_bit s 1 - 1)"
  have M64: "M < 2 ^ 64"
    using unsigned_less [of "df_f M_plus", where ?'a = nat] by (simp add: M_def)
  note split = split_significand [OF s big(1), folded M_def p1_def p2_def]
  note p1 = split(1) and p2 = split(2) and p1_pos = split(3)
  obtain k p where k: "find_largest_pow10 p1 = (k, p)" "1 \<le> k" "k \<le> 10" "unat p = 10 ^ (k - 1)"
    "10 ^ (k - 1) \<le> unat p1" "unat p1 < 10 ^ k"
    using find_largest_pow10_eq [OF p1_pos] by metis
  have start: "(digits_value [] * 10 ^ k + unat p1) * 2 ^ s + unat p2 = M"
    by (simp only: p1 p2 digits_value_Nil mult_0 add_0 div_mult_mod_eq)
  have "unat delta < unat p1 * 2 ^ s + unat p2"
    using delta(1,5) by (simp only: p1 p2 div_mult_mod_eq)
  moreover have "unat gap \<le> unat delta" "k + length ([] :: byte list) \<le> cap" "unat p2 < 2 ^ s"
    using delta(1-3) k(3) cap by (simp_all add: p2)
  moreover have gen: "grisu2_digit_gen cap ex M_minus w M_plus =
     Option.bind (integral_digits cap s p2 delta gap k p1 p []) (\<lambda>res.
       case res of
         Inr (buf, n) \<Rightarrow> Some (buf, ex + int n)
       | Inl buf \<Rightarrow>
           json_assert (p2 > delta)
             (Option.bind (fraction_digits cap s 0 p2 delta gap buf) (\<lambda>(buf1, m, p2', delta', dist').
                map_option (\<lambda>buf2. (buf2, ex - int m)) (grisu2_round dist' delta' p2' (push_bit s 1) buf1))))"
    unfolding grisu2_digit_gen_def fp e(1) s_def [symmetric]
    using e(4,5) p1_pos k(1) by (simp only: json_assert_def Let_def diyfp.simps Option.bind.simps p1_def p2_def simp_thms if_True prod.case)
  ultimately consider
      (rest) buf where "integral_digits cap s p2 delta gap k p1 p [] = Some (Inl buf)" "length buf = k" "numeral_text buf"
        "digits_value buf * 2 ^ s + unat p2 = M" "unat delta < unat p2"
    | (stop) buf n where "integral_digits cap s p2 delta gap k p1 p [] = Some (Inr (buf, n))" "n < k" "length buf = k - n"
        "numeral_text buf" "digits_value buf * 10 ^ n * 2 ^ s \<le> M" "M \<le> digits_value buf * 10 ^ n * 2 ^ s + unat delta"
    using integral_digits_eq [OF _ s _ _ start M64 k(6,4), of gap delta cap] k(2,5) by auto
  then show ?thesis
  proof cases
    case rest
    have "M * 10 ^ 0 = digits_value buf * 2 ^ s + unat p2" "unat delta = delta0 * 10 ^ 0" "unat gap = gap0 * 10 ^ 0"
      using rest(4) delta(1,2) by simp_all
    from fraction_digits_eq [OF s(2) cap big(3) [folded M_def delta0_def] delta(3) \<open>unat p2 < 2 ^ s\<close> rest(5,3) this]
    obtain b m p2' delta' gap' buf' where f: "fraction_digits cap s 0 p2 delta gap buf = Some (b, m, p2', delta', gap')"
      "grisu2_round gap' delta' p2' (push_bit s 1) b = Some buf'" "numeral_text buf'" "length buf' \<le> 17"
      "m + length buf = 0 + length buf'" "digits_value buf' * 2 ^ s \<le> M * 10 ^ m"
      "M * 10 ^ m \<le> digits_value buf' * 2 ^ s + delta0 * 10 ^ m"
      by metis
    have "grisu2_digit_gen cap ex M_minus w M_plus = Some (buf', ex + (- int m))"
      using rest(5) f(1,2) by (simp add: gen rest(1) json_assert_def word_less_nat_alt del: push_bit_of_1)
    moreover have "in_interval (unat (df_f M_minus)) M s (digits_value buf') (- int m)"
      using f(6,7) delta(4) by (rule in_interval_neg)
    ultimately show ?thesis
      using f(3,4,5) unfolding M_def s_def by (intro exI [of _ buf'] exI [of _ "- int m"]) simp
  next
    case stop
    have "grisu2_digit_gen cap ex M_minus w M_plus = Some (buf, ex + int n)"
      by (simp add: gen stop(1))
    moreover have "in_interval (unat (df_f M_minus)) M s (digits_value buf) (int n)"
      using stop(5,6) delta(4) unfolding delta(1) by (rule in_interval_nonneg)
    ultimately show ?thesis
      using stop(2-4) k(3) unfolding M_def s_def by (intro exI [of _ buf] exI [of _ "int n"]) simp
  qed
qed

end
