(* ===== verification/Dtoa_Grisu.thy ===== *)
theory Dtoa_Grisu
  imports Dtoa_Powers Dtoa_Digits
begin

section \<open>Grisu2 stays between the neighbours\<close>

text \<open>
  The digits and the exponent Grisu2 computes for a positive double denote a number strictly between
  the half-way points to the neighbouring doubles.
\<close>

definition upper_bound :: "u64 \<Rightarrow> real" where
  "upper_bound x = real (2 * significand x + 1) * 2 powi (exponent x - 1)"

definition lower_bound :: "u64 \<Rightarrow> real" where
  "lower_bound x =
     (if closer_below x then real (4 * significand x - 1) * 2 powi (exponent x - 2)
      else real (2 * significand x - 1) * 2 powi (exponent x - 1))"

subsection \<open>Scaling by a cached power\<close>

definition scaled :: "nat \<Rightarrow> nat \<Rightarrow> nat" where
  "scaled x f = (x * f + 2 ^ 63) div 2 ^ 64"

lemma scaled_bounds: "x * f + 2 ^ 63 < scaled x f * 2 ^ 64 + 2 ^ 64" "scaled x f * 2 ^ 64 \<le> x * f + 2 ^ 63"
proof -
  define a d where "a = x * f + 2 ^ 63" and "d = (2 :: nat) ^ 64"
  have "a div d * d + a mod d = a" "a mod d < d" by (simp_all add: d_def)
  then show "scaled x f * 2 ^ 64 \<le> x * f + 2 ^ 63" "x * f + 2 ^ 63 < scaled x f * 2 ^ 64 + 2 ^ 64"
    unfolding scaled_def a_def [symmetric] d_def [symmetric] by linarith+
qed

lemma scaled_real:
  assumes "is_power f c k" and "x < 2 ^ 64"
  defines "T \<equiv> 10 powi k / (2 powi c :: real)"
  shows "(real (scaled x (unat f)) - 1) * 2 ^ 64 < real x * T" and "real x * T < (real (scaled x (unat f)) + 1) * 2 ^ 64"
proof -
  let ?u = "real (unat f)" and ?w = "real (scaled x (unat f))"
  have "?u - 1 / 2 \<le> T" "T \<le> ?u + 1 / 2"
    using assms(1) unfolding is_power_def T_def by linarith+
  then have "real x * (?u - 1 / 2) \<le> real x * T" "real x * T \<le> real x * (?u + 1 / 2)"
    by (simp_all add: mult_left_mono)
  then have xT: "real x * ?u - real x / 2 \<le> real x * T" "real x * T \<le> real x * ?u + real x / 2"
    by (simp_all add: algebra_simps)
  have "real (x * unat f + 2 ^ 63) < real (scaled x (unat f) * 2 ^ 64 + 2 ^ 64)"
    "real (scaled x (unat f) * 2 ^ 64) \<le> real (x * unat f + 2 ^ 63)"
    using scaled_bounds [of x "unat f"] by (simp_all only: of_nat_less_iff of_nat_le_iff)
  then have w: "real x * ?u + 2 ^ 63 < ?w * 2 ^ 64 + 2 ^ 64" "?w * 2 ^ 64 \<le> real x * ?u + 2 ^ 63"
    by simp_all
  have "real x < 2 ^ 64" using assms(2) by (simp add: of_nat_less_numeral_power_cancel_iff)
  with xT w show "(?w - 1) * 2 ^ 64 < real x * T" "real x * T < (?w + 1) * 2 ^ 64"
    by simp_all
qed

subsection \<open>The interval after scaling\<close>

lemma boundary_gaps:
  assumes "significand x * 2 ^ n < 2 ^ 64" and "2 ^ 63 \<le> significand x * 2 ^ n" and "11 \<le> n" and "n \<le> 64" and "0 < significand x"
  defines "P \<equiv> (2 * significand x + 1) * 2 ^ (n - 1)" and "W \<equiv> significand x * 2 ^ n" and "L \<equiv> lower_significand x n"
  shows "W + 1024 \<le> P" and "L + 512 \<le> W" and "P \<le> (P - L) * 2 ^ 53" and "P < 2 ^ 64"
proof -
  define k where "k = n - 2"
  have n: "n = k + 2" using assms(3) by (simp add: k_def)
  define q where "q = (2 :: nat) ^ k"
  have "(2 :: nat) ^ 9 \<le> q" unfolding q_def using assms(3) by (intro power_increasing) (simp_all add: n)
  then have q: "512 \<le> q" by simp
  have P: "P = 4 * (significand x * q) + 2 * q" and W: "W = 4 * (significand x * q)"
    by (simp_all add: P_def W_def n q_def algebra_simps)
  have L: "L + (if closer_below x then q else 2 * q) = W"
  proof -
    obtain m where "significand x = m + 1" using assms(5) by (metis Suc_eq_plus1 gr0_implies_Suc)
    then show ?thesis
      by (simp add: L_def W lower_significand_def n q_def algebra_simps)
  qed
  show "W + 1024 \<le> P" using q by (simp add: P W)
  show "L + 512 \<le> W" using q L by (simp split: if_splits)
  show "P < 2 ^ 64" unfolding P_def by (rule upper_shift) (use assms in simp_all)
  have PL: "P - L = (if closer_below x then 3 * q else 4 * q)"
    using L by (simp add: P W split: if_splits)
  show "P \<le> (P - L) * 2 ^ 53"
  proof (cases "closer_below x")
    case True
    then have "significand x = 2 ^ 52"
      by (simp add: closer_below_def significand_def)
    then have "P = (2 ^ 54 + 2) * q" by (simp add: P)
    moreover have "P - L = 3 * q" using True by (simp only: PL if_True)
    ultimately show ?thesis by simp
  next
    case False
    have "significand x * q \<le> 9007199254740991 * q"
      using significand_less [of x] by (intro mult_le_mono1) simp
    moreover have "P - L = 4 * q" using False by (simp only: PL if_False)
    then have "(P - L) * 2 ^ 53 = 36028797018963968 * q" by simp
    ultimately show ?thesis using P by linarith
  qed
qed

lemma scaled_interval:
  assumes "W + 1024 \<le> P" and "L + 512 \<le> W" and "P \<le> (P - L) * 2 ^ 53" and "P < 2 ^ 64" and "2 ^ 63 \<le> W"
    and f: "2 ^ 63 \<le> f" "f < 2 ^ 64"
  shows "scaled L f + 1 \<le> scaled W f" and "scaled W f \<le> scaled P f - 1" and "2 ^ 60 \<le> scaled P f - 1"
    and "scaled P f - 1 \<le> (scaled P f - 1 - (scaled L f + 1)) * 10 ^ 16" and "scaled P f < 2 ^ 64"
proof -
  have mono: "x * 2 ^ 63 \<le> x * f" for x using f(1) by simp
  obtain g h where gh: "P = W + 1024 + g" "W = L + 512 + h"
    using assms(1,2) by (metis le_Suc_ex)
  have "P * f = W * f + (1024 + g) * f" "W * f = L * f + (512 + h) * f"
    by (simp_all add: gh algebra_simps)
  then have step: "W * f + 1024 * 2 ^ 63 \<le> P * f" "L * f + 512 * 2 ^ 63 \<le> W * f"
    using f(1) by (simp_all add: algebra_simps)
  have "2 ^ 63 * 2 ^ 63 \<le> P * f" using assms(1,5) f(1) by (intro mult_le_mono) simp_all
  moreover note P = scaled_bounds [of P f] and W = scaled_bounds [of W f] and L = scaled_bounds [of L f]
  show "scaled L f + 1 \<le> scaled W f" using W L step by simp
  show "scaled W f \<le> scaled P f - 1" using P W step by simp
  show "2 ^ 60 \<le> scaled P f - 1" using P calculation by simp
  have "P * f \<le> (2 ^ 64 - 1) * (2 ^ 64 - 1)" using assms(4) f(2) by (intro mult_le_mono) simp_all
  then show "scaled P f < 2 ^ 64" using P by simp
  define U where "U = (P - L) * f"
  have "P * f \<le> (P - L) * 2 ^ 53 * f" using assms(3) by (rule mult_le_mono1)
  then have PU: "P * f \<le> 2 ^ 53 * U" by (simp add: U_def ac_simps)
  have LU: "L * f + U = P * f"
    using gh by (simp add: U_def flip: distrib_right)
  have "1536 * 2 ^ 63 \<le> U" unfolding U_def using gh f(1) by (intro mult_le_mono) simp_all
  define wp wl where "wp = scaled P f" and "wl = scaled L f"
  have w: "P * f < wp * 2 ^ 64 + 2 ^ 63" "wp * 2 ^ 64 \<le> P * f + 2 ^ 63" "wl * 2 ^ 64 \<le> L * f + 2 ^ 63"
    using P L by (simp_all add: wp_def wl_def)
  then have "wp \<ge> wl + 2" using LU \<open>1536 * 2 ^ 63 \<le> U\<close> by simp
  then obtain t where t: "wp = wl + 2 + t" using le_Suc_ex by blast
  show "scaled P f - 1 \<le> (scaled P f - 1 - (scaled L f + 1)) * 10 ^ 16"
    using w LU PU \<open>1536 * 2 ^ 63 \<le> U\<close> unfolding wp_def [symmetric] wl_def [symmetric] t by simp
qed

subsection \<open>Grisu2\<close>

lemma boundary_reals:
  assumes "11 \<le> n" and "0 < significand x"
  shows "real ((2 * significand x + 1) * 2 ^ (n - 1)) * 2 powi (exponent x - int n) = upper_bound x"
    and "real (lower_significand x n) * 2 powi (exponent x - int n) = lower_bound x"
proof -
  have p: "2 ^ m * 2 powi (exponent x - int n) = (2 :: real) powi (exponent x - int (n - m))" if "m \<le> n" for m
  proof -
    have "2 powi (int m + (exponent x - int n)) = 2 ^ m * (2 :: real) powi (exponent x - int n)"
      by (simp add: power_int_add)
    moreover have "int m + (exponent x - int n) = exponent x - int (n - m)" using that by simp
    ultimately show ?thesis by simp
  qed
  have e: "exponent x - int (n - (n - 1)) = exponent x - 1" "exponent x - int (n - (n - 2)) = exponent x - 2"
    using assms(1) by simp_all
  have q: "2 ^ (n - 1) * 2 powi (exponent x - int n) = (2 :: real) powi (exponent x - 1)"
    "2 ^ (n - 2) * 2 powi (exponent x - int n) = (2 :: real) powi (exponent x - 2)"
    using p [of "n - 1"] p [of "n - 2"] unfolding e by simp_all
  show "real ((2 * significand x + 1) * 2 ^ (n - 1)) * 2 powi (exponent x - int n) = upper_bound x"
    unfolding upper_bound_def q(1) [symmetric] of_nat_mult of_nat_power by simp
  show "real (lower_significand x n) * 2 powi (exponent x - int n) = lower_bound x"
    unfolding lower_bound_def lower_significand_def q [symmetric] by (simp add: mult.assoc)
qed

lemma descale:
  assumes pow: "is_power f c k" and "L < 2 ^ 64" "P < 2 ^ 64" and s: "int s = - (c + e + 64)" and "1 \<le> scaled P (unat f)"
    and iv: "in_interval (scaled L (unat f) + 1) (scaled P (unat f) - 1) s D j"
  shows "real L * 2 powi e < real D * 10 powi (- k + j)" and "real D * 10 powi (- k + j) < real P * 2 powi e"
proof -
  define A B E J where "A = (10 :: real) powi k" and "B = (2 :: real) powi c" and "E = (2 :: real) powi e"
    and "J = (10 :: real) powi j"
  have pos: "A > 0" "B > 0" "E > 0" "J > 0"
    by (simp_all add: A_def B_def E_def J_def)
  have "2 powi (int s + 64 + (c + e)) = (2 :: real) ^ s * 2 ^ 64 * (B * E)"
    by (simp add: power_int_add B_def E_def)
  then have unit: "(2 :: real) ^ s * 2 ^ 64 = 1 / (B * E)"
    using pos by (simp add: s field_simps)
  have ten: "10 powi (- k + j) = J / A"
    by (simp add: power_int_diff A_def J_def)
  define V where "V = real D * J * 2 ^ s"
  have V: "real (scaled L (unat f)) + 1 \<le> V" "V \<le> real (scaled P (unat f)) - 1"
    using iv assms(5) by (simp_all add: in_interval_def V_def J_def of_nat_diff)
  have "V * 2 ^ 64 = real D * J * (2 ^ s * 2 ^ 64)" by (simp add: V_def)
  also have "\<dots> = real D * J / (B * E)" by (simp only: unit) simp
  finally have V64: "V * 2 ^ 64 = real D * J / (B * E)" .
  have "real L * (A / B) < V * 2 ^ 64" "V * 2 ^ 64 < real P * (A / B)"
    using scaled_real [OF pow assms(2), folded A_def B_def] scaled_real [OF pow assms(3), folded A_def B_def] V by simp_all
  then have "real L * (A / B) < real D * J / (B * E)" "real D * J / (B * E) < real P * (A / B)"
    by (simp_all only: V64)
  then show "real L * 2 powi e < real D * 10 powi (- k + j)" "real D * 10 powi (- k + j) < real P * 2 powi e"
    unfolding ten E_def [symmetric] using pos by (simp_all add: field_simps)
qed

lemma grisu2_double_eq:
  assumes x: "is_finite x" "is_positive x" and cap: "17 \<le> cap"
  shows "\<exists>buf k. grisu2_double cap x = Some (buf, k) \<and> numeral_text buf \<and> length buf \<le> 17 \<and> \<bar>k\<bar> \<le> 400
           \<and> lower_bound x < real (digits_value buf) * 10 powi k \<and> real (digits_value buf) * 10 powi k < upper_bound x"
proof -
  obtain n b where b: "compute_boundaries x = Some b" and n: "11 \<le> n" "n \<le> 63"
    and sig: "significand x * 2 ^ n < 2 ^ 64" "2 ^ 63 \<le> significand x * 2 ^ n"
    and be: "df_e (bd_w b) = exponent x - int n" "df_e (bd_minus b) = exponent x - int n" "df_e (bd_plus b) = exponent x - int n"
    and bf: "unat (df_f (bd_w b)) = significand x * 2 ^ n"
      "unat (df_f (bd_plus b)) = (2 * significand x + 1) * 2 ^ (n - 1)" "unat (df_f (bd_minus b)) = lower_significand x n"
    using compute_boundaries_eq [OF x] by metis
  define e where "e = exponent x - int n"
  have pos: "0 < significand x" and "biased_exponent x < 2047"
    using positive_bounds [OF x] by simp_all
  then have "- 1137 \<le> e" "e \<le> 960"
    using n by (auto simp: e_def exponent_def)
  from get_cached_power_eq [OF this] obtain f c k where
    cached: "get_cached_power_for_binary_exponent e = Some \<lparr>cp_f = f, cp_e = c, cp_k = k\<rparr>"
    and pow: "is_power f c k" and ew: "- 60 \<le> c + e + 64" "c + e + 64 \<le> - 32" and k: "- 300 \<le> k" "k \<le> 324"
    by metis
  define P W L where "P = (2 * significand x + 1) * 2 ^ (n - 1)" and "W = significand x * 2 ^ n" and "L = lower_significand x n"
  define u where "u = unat f"
  have n64: "n \<le> 64" using n(2) by simp
  note gaps = boundary_gaps [OF sig n(1) n64 pos, folded P_def W_def L_def]
  have u: "2 ^ 63 \<le> u" "u < 2 ^ 64"
    using pow unsigned_less [of f, where ?'a = nat] by (simp_all add: is_power_def u_def)
  note iv = scaled_interval [OF gaps sig(2) [folded W_def] u]
  define Mm w Mp where "Mm = diyfp (df_f (diyfp_mul (bd_minus b) (diyfp f c)) + 1) (c + e + 64)"
    and "w = diyfp_mul (bd_w b) (diyfp f c)" and "Mp = diyfp (df_f (diyfp_mul (bd_plus b) (diyfp f c)) - 1) (c + e + 64)"
  have we: "df_e w = c + e + 64" by (simp add: w_def be e_def)
  have wf: "unat (df_f w) = scaled W u"
    by (simp only: w_def diyfp_mul_f bf scaled_def u_def W_def diyfp.simps)
  have "unat (df_f (diyfp_mul (bd_plus b) (diyfp f c))) = scaled P u" "unat (df_f (diyfp_mul (bd_minus b) (diyfp f c))) = scaled L u"
    by (simp_all only: diyfp_mul_f bf scaled_def u_def P_def L_def diyfp.simps)
  then have Mpf: "unat (df_f Mp) = scaled P u - 1" and Mmf: "unat (df_f Mm) = scaled L u + 1"
    using iv by (simp_all add: Mp_def Mm_def unat_sub_small unat_add_small word_le_nat_alt)
  have "\<exists>buf j. grisu2_digit_gen cap (- k) Mm w Mp = Some (buf, - k + j) \<and> numeral_text buf \<and> length buf \<le> 17
      \<and> \<bar>j\<bar> \<le> 17 \<and> in_interval (scaled L u + 1) (scaled P u - 1) (nat (- (c + e + 64))) (digits_value buf) j"
    using grisu2_digit_gen_eq [of Mp "c + e + 64" Mm w cap "- k"] we ew iv cap
    unfolding Mpf Mmf wf by (simp add: Mp_def Mm_def)
  then obtain buf j where buf: "grisu2_digit_gen cap (- k) Mm w Mp = Some (buf, - k + j)" "numeral_text buf" "length buf \<le> 17"
    "\<bar>j\<bar> \<le> 17" and inside: "in_interval (scaled L u + 1) (scaled P u - 1) (nat (- (c + e + 64))) (digits_value buf) j"
    by blast
  have "grisu2_double cap x = Some (buf, - k + j)"
    using x b cached buf(1) be
    by (simp add: grisu2_double_def grisu2_def json_assert_def e_def [symmetric] Let_def Mm_def Mp_def w_def add_ac)
  moreover have small: "L < 2 ^ 64" "int (nat (- (c + e + 64))) = - (c + e + 64)" "1 \<le> scaled P u"
    using gaps iv(3) ew by simp_all
  note in_reals = descale [OF pow small(1) gaps(4) small(2,3) [unfolded u_def] inside [unfolded u_def]]
  have "lower_bound x < real (digits_value buf) * 10 powi (- k + j)" "real (digits_value buf) * 10 powi (- k + j) < upper_bound x"
    using in_reals unfolding boundary_reals [OF n(1) pos, folded P_def L_def e_def] .
  ultimately show ?thesis
    using buf(2-4) k by (intro exI [of _ buf] exI [of _ "- k + j"]) auto
qed

end
