(* ===== verification/Dtoa_Text.thy ===== *)
theory Dtoa_Text
  imports Dtoa_Digits
begin

section \<open>The text of a number\<close>

text \<open>
  A reader for the numbers of the JSON grammar, and the proof that \<open>format_buffer\<close> writes a number that
  reads as the value of its digits.
\<close>

subsection \<open>Reading a number\<close>

definition read_signed :: "byte list \<Rightarrow> int option" where
  "read_signed t =
     (case t of
        c # d \<Rightarrow>
          let neg = (c = 45); ds = (if c = 45 \<or> c = 43 then d else t) in
          if ds \<noteq> [] \<and> list_all is_digit ds
          then Some (if neg then - int (digits_value ds) else int (digits_value ds)) else None
      | [] \<Rightarrow> None)"

definition read_exponent :: "byte list \<Rightarrow> int option" where
  "read_exponent s =
     (case s of [] \<Rightarrow> Some 0 | c # t \<Rightarrow> if c = 101 \<or> c = 69 then read_signed t else None)"

definition read_unsigned :: "byte list \<Rightarrow> real option" where
  "read_unsigned s =
     (let i = takeWhile is_digit s; s1 = dropWhile is_digit s;
          point = (s1 \<noteq> [] \<and> hd s1 = 46);
          f = (if point then takeWhile is_digit (tl s1) else []);
          s2 = (if point then dropWhile is_digit (tl s1) else s1) in
      if i = [] \<or> hd i = 48 \<and> length i > 1 \<or> point \<and> f = [] then None
      else map_option (\<lambda>x. real (digits_value (i @ f)) * 10 powi (x - int (length f))) (read_exponent s2))"

definition json_number :: "byte list \<Rightarrow> real option" where
  "json_number s =
     (case s of c # t \<Rightarrow> if c = 45 then map_option uminus (read_unsigned t) else read_unsigned s
      | [] \<Rightarrow> None)"

lemma takeWhile_digits: "list_all is_digit xs \<Longrightarrow> takeWhile is_digit (xs @ ys) = xs @ takeWhile is_digit ys"
  by (induction xs) simp_all

lemma dropWhile_digits: "list_all is_digit xs \<Longrightarrow> dropWhile is_digit (xs @ ys) = dropWhile is_digit ys"
  by (induction xs) simp_all

lemma not_digit [simp]: "\<not> is_digit 46" "\<not> is_digit 101" "\<not> is_digit 45" "\<not> is_digit 43"
  by (simp_all add: is_digit_def)

lemma digit_zero [simp]: "is_digit 48"
  by (simp add: is_digit_def)

lemma read_unsigned_point:
  assumes "list_all is_digit i" and "i \<noteq> []" and "hd i \<noteq> 48 \<or> i = [48]" and "list_all is_digit f" and "f \<noteq> []"
    and "rest = [] \<or> \<not> is_digit (hd rest)" and "read_exponent rest = Some x"
  shows "read_unsigned (i @ [46] @ f @ rest) = Some (real (digits_value (i @ f)) * 10 powi (x - int (length f)))"
proof -
  have "takeWhile is_digit rest = []" "dropWhile is_digit rest = rest"
    using assms(6) by (cases rest; auto)+
  then show ?thesis
    using assms by (auto simp: read_unsigned_def Let_def takeWhile_digits dropWhile_digits)
qed

lemma read_unsigned_integer:
  assumes "list_all is_digit i" and "i \<noteq> []" and "hd i \<noteq> 48 \<or> i = [48]"
    and "read_exponent (101 # rest) = Some x"
  shows "read_unsigned (i @ 101 # rest) = Some (real (digits_value i) * 10 powi x)"
  using assms by (auto simp: read_unsigned_def Let_def takeWhile_digits dropWhile_digits)

text \<open>Whatever is read as a number consists of digits, signs, a point and the letter E.\<close>

definition number_char :: "byte \<Rightarrow> bool" where
  "number_char c \<longleftrightarrow> is_digit c \<or> c \<in> {43, 45, 46, 69, 101}"

lemma digits_number_chars: "list_all is_digit xs \<Longrightarrow> list_all number_char xs"
  by (auto simp: list_all_iff number_char_def)

lemma read_signed_chars: "read_signed t = Some x \<Longrightarrow> list_all number_char t"
  using digits_number_chars by (auto simp: read_signed_def Let_def number_char_def split: list.splits if_splits)

lemma read_exponent_chars: "read_exponent t = Some x \<Longrightarrow> list_all number_char t"
  using read_signed_chars by (auto simp: read_exponent_def number_char_def split: list.splits if_splits)

lemma takeWhile_number_chars: "list_all number_char (dropWhile is_digit xs) \<Longrightarrow> list_all number_char xs"
  by (induction xs) (auto simp: number_char_def split: if_splits)

lemma read_unsigned_chars:
  assumes "read_unsigned s = Some r"
  shows "list_all number_char s"
proof (rule takeWhile_number_chars)
  show "list_all number_char (dropWhile is_digit s)"
  proof (cases "dropWhile is_digit s")
    case (Cons c t)
    show ?thesis
    proof (cases "c = 46")
      case True
      then have "list_all number_char (dropWhile is_digit t)"
        using assms Cons by (auto simp: read_unsigned_def Let_def intro: read_exponent_chars split: if_splits)
      then show ?thesis
        using Cons True takeWhile_number_chars by (simp add: number_char_def)
    next
      case False
      then show ?thesis
        using assms Cons by (auto simp: read_unsigned_def Let_def dest!: read_exponent_chars split: if_splits)
    qed
  next
    case Nil
    show ?thesis unfolding Nil by simp
  qed
qed

lemma json_number_chars: "json_number s = Some r \<Longrightarrow> list_all number_char s"
  by (auto simp: json_number_def dest!: read_unsigned_chars split: list.splits if_splits) (simp_all add: number_char_def)

subsection \<open>Writing a number\<close>

lemma unat_digit_char: "k \<le> 9 \<Longrightarrow> unat (digit_char k) = 48 + k"
  by (simp add: digit_char_def unat_of_nat del: of_nat_add)

lemma is_digit_char: "k \<le> 9 \<Longrightarrow> is_digit (digit_char k)"
  by (simp add: is_digit_def unat_digit_char)

lemma append_exponent_eq:
  assumes "\<bar>e\<bar> < 1000"
  shows "\<exists>ex. append_exponent e = Some ex \<and> length ex \<le> 4 \<and> read_signed ex = Some e"
proof -
  define k where "k = nat \<bar>e\<bar>"
  define ds where "ds = (if k < 10 then [48, digit_char k]
           else if k < 100 then [digit_char (k div 10), digit_char (k mod 10)]
           else [digit_char (k div 100), digit_char (k mod 100 div 10), digit_char (k mod 100 mod 10)])"
  have k: "k < 1000" using assms by (simp add: k_def)
  have b: "k div 100 \<le> 9" "k mod 100 div 10 \<le> 9" "k mod 100 mod 10 \<le> 9" "k mod 10 \<le> 9"
    using k by simp_all
  have v: "digits_value ds = k"
  proof -
    consider "k < 10" | "10 \<le> k" "k < 100" | "100 \<le> k" by linarith
    then show ?thesis
    proof cases
      case 3
      have "k = 100 * (k div 100) + (10 * (k mod 100 div 10) + k mod 100 mod 10)" by simp
      then show ?thesis
        using 3 by (simp add: ds_def digits_value_def unat_digit_char b)
    qed (simp_all add: ds_def digits_value_def unat_digit_char)
  qed
  moreover have "list_all is_digit ds" "ds \<noteq> []" "length ds \<le> 3"
    using b by (auto simp: ds_def is_digit_char)
  moreover have "- 1000 < e \<and> e < 1000" using assms by linarith
  then have "append_exponent e = Some ((if e < 0 then [45] else [43]) @ ds)"
    by (simp add: append_exponent_def json_assert_def Let_def ds_def k_def)
  ultimately show ?thesis
    by (auto simp: read_signed_def Let_def k_def)
qed

lemma digits_value_single [simp]: "digits_value [c] = unat c - 48"
  by (simp add: digits_value_def)

lemma digits_value_zeros [simp]: "digits_value (replicate n 48) = 0"
  by (induction n) (simp_all only: replicate_Suc replicate_0 replicate_append_same [symmetric] digits_value_snoc, simp_all)

lemma fitting_Some: "length t \<le> cap \<Longrightarrow> fitting cap t = Some t"
  by (simp add: fitting_def)

text \<open>What the formatter writes, in each of its cases.\<close>

definition formatted :: "byte list \<Rightarrow> byte list \<Rightarrow> int \<Rightarrow> bool" where
  "formatted t buf k \<longleftrightarrow>
     length t \<le> 23 \<and> t \<noteq> [] \<and> hd t \<noteq> 45 \<and> (46 \<in> set t \<or> 101 \<in> set t)
     \<and> read_unsigned t = Some (real (digits_value buf) * 10 powi k)"

lemma formatted_point:
  assumes "list_all is_digit i" and "i \<noteq> []" and "hd i \<noteq> 48 \<or> i = [48]" and "list_all is_digit f" and "f \<noteq> []"
    and "length (i @ f @ rest) \<le> 22"
    and "rest = [] \<or> \<not> is_digit (hd rest)" and "read_exponent rest = Some x"
    and "real (digits_value (i @ f)) * 10 powi (x - int (length f)) = real (digits_value buf) * 10 powi k"
  shows "formatted (i @ [46] @ f @ rest) buf k"
proof -
  have "hd (i @ [46] @ f @ rest) \<noteq> 45"
    using assms(1,2) not_digit(3) by (cases i) auto
  then show ?thesis
    using read_unsigned_point [OF assms(1-5,7,8)] assms(6,9) by (simp add: formatted_def)
qed

text \<open>Whole numbers of at most 15 digits, with \<open>.0\<close> behind them.\<close>

lemma format_whole:
  assumes buf: "numeral_text buf" and n: "0 \<le> k" "int (length buf) + k \<le> 15" and cap: "23 \<le> cap"
  shows "\<exists>t. format_buffer cap buf k (- 4) 15 = Some t \<and> formatted t buf k"
proof -
  let ?i = "buf @ replicate (nat k) 48"
  have l: "length (?i @ [48] @ []) \<le> 22" "length (?i @ [46] @ [48] @ []) \<le> cap" using n cap by simp_all
  have R: "real (digits_value (?i @ [48])) * 10 powi (0 - int (length [48 :: byte])) = real (digits_value buf) * 10 powi k"
    using n by (simp add: digits_value_append power_int_minus flip: power_int_of_nat)
  have "list_all is_digit ?i" "?i \<noteq> []" "hd ?i \<noteq> 48"
    using buf by (auto simp: numeral_text_def list_all_iff)
  then have "formatted (?i @ [46] @ [48] @ []) buf k"
    by (intro formatted_point [OF _ _ _ _ _ l(1) _ _ R]) (simp_all add: read_exponent_def)
  moreover have "format_buffer cap buf k (- 4) 15 = Some (?i @ [46] @ [48] @ [])"
    using n l(2) by (simp add: format_buffer_def json_assert_def Let_def fitting_Some)
  ultimately show ?thesis by blast
qed

text \<open>A point among the digits.\<close>

lemma format_point:
  assumes buf: "numeral_text buf" "length buf \<le> 17" and n: "k < 0" "0 < int (length buf) + k" "int (length buf) + k \<le> 15"
    and cap: "23 \<le> cap"
  shows "\<exists>t. format_buffer cap buf k (- 4) 15 = Some t \<and> formatted t buf k"
proof -
  define m where "m = nat (int (length buf) + k)"
  let ?i = "take m buf" and ?f = "drop m buf"
  have m: "m < length buf" "0 < m" "0 - int (length ?f) = k" using n by (simp_all add: m_def)
  have l: "length (?i @ ?f @ []) \<le> 22" "length (?i @ [46] @ ?f @ []) \<le> cap" using buf(2) cap by simp_all
  have R: "real (digits_value (?i @ ?f)) * 10 powi (0 - int (length ?f)) = real (digits_value buf) * 10 powi k"
    by (simp only: append_take_drop_id m(3))
  have "list_all is_digit ?i" "list_all is_digit ?f" "hd ?i \<noteq> 48" "?i \<noteq> []" "?f \<noteq> []"
    using buf m(1,2) by (auto simp: numeral_text_def list_all_iff dest: in_set_takeD in_set_dropD)
  then have "formatted (?i @ [46] @ ?f @ []) buf k"
    by (intro formatted_point [OF _ _ _ _ _ l(1) _ _ R]) (simp_all add: read_exponent_def)
  moreover have "format_buffer cap buf k (- 4) 15 = Some (?i @ [46] @ ?f @ [])"
    using n l(2) by (simp add: format_buffer_def json_assert_def Let_def m_def fitting_Some)
  ultimately show ?thesis by blast
qed

text \<open>Small numbers, with zeros behind the point.\<close>

lemma format_small:
  assumes buf: "numeral_text buf" "length buf \<le> 17" and n: "- 4 < int (length buf) + k" "int (length buf) + k \<le> 0"
    and cap: "23 \<le> cap"
  shows "\<exists>t. format_buffer cap buf k (- 4) 15 = Some t \<and> formatted t buf k"
proof -
  define z where "z = nat (- (int (length buf) + k))"
  let ?f = "replicate z 48 @ buf"
  have l: "length ([48 :: byte] @ ?f @ []) \<le> 22" "length ([48 :: byte] @ [46] @ ?f @ []) \<le> cap"
    using n(1) buf(2) cap by (simp_all add: z_def)
  have "0 - int (length ?f) = k" using n(2) by (simp add: z_def)
  moreover have "digits_value ([48] @ ?f) = digits_value buf"
    by (simp only: digits_value_append digits_value_zeros digits_value_single) simp
  ultimately have R: "real (digits_value ([48] @ ?f)) * 10 powi (0 - int (length ?f)) = real (digits_value buf) * 10 powi k"
    by (simp only:)
  have "list_all is_digit ?f" "?f \<noteq> []"
    using buf by (auto simp: numeral_text_def list_all_iff)
  then have "formatted ([48] @ [46] @ ?f @ []) buf k"
    by (intro formatted_point [OF _ _ _ _ _ l(1) _ _ R]) (simp_all add: read_exponent_def)
  moreover have "k < 0" using n(2) buf(1) by (cases buf) (auto simp: numeral_text_def)
  then have "format_buffer cap buf k (- 4) 15 = Some ([48] @ [46] @ ?f @ [])"
    using n l(2) by (simp add: format_buffer_def json_assert_def Let_def z_def fitting_Some)
  ultimately show ?thesis by blast
qed

text \<open>Scientific notation.\<close>

lemma format_scientific:
  assumes buf: "numeral_text buf" "length buf \<le> 17" and k: "\<bar>k\<bar> \<le> 400" and cap: "23 \<le> cap"
    and n: "\<not> (int (length buf) \<le> int (length buf) + k \<and> int (length buf) + k \<le> 15)"
      "\<not> (0 < int (length buf) + k \<and> int (length buf) + k \<le> 15)" "\<not> (- 4 < int (length buf) + k \<and> int (length buf) + k \<le> 0)"
  shows "\<exists>t. format_buffer cap buf k (- 4) 15 = Some t \<and> formatted t buf k"
proof -
  define e where "e = int (length buf) + k - 1"
  have "\<bar>e\<bar> < 1000" using k buf(2) by (simp add: e_def)
  then obtain ex where ex: "append_exponent e = Some ex" "length ex \<le> 4" "read_signed ex = Some e"
    using append_exponent_eq by blast
  have re: "read_exponent (101 # ex) = Some e"
    by (simp add: read_exponent_def ex(3))
  have fmt: "format_buffer cap buf k (- 4) 15 =
      (if length buf = 1 then fitting cap (buf @ [101] @ ex) else fitting cap (take 1 buf @ [46] @ drop 1 buf @ [101] @ ex))"
    unfolding format_buffer_def Let_def json_assert_def n [THEN if_not_P] ex(1) [unfolded e_def] by simp
  have digits: "list_all is_digit buf" "buf \<noteq> []" "hd buf \<noteq> 48"
    using buf by (simp_all add: numeral_text_def)
  show ?thesis
  proof (cases "length buf = 1")
    case True
    then have "formatted (buf @ 101 # ex) buf k"
      using read_unsigned_integer [OF digits(1,2) _ re] digits ex(2) not_digit(3)
      by (cases buf) (auto simp: formatted_def e_def)
    moreover have "format_buffer cap buf k (- 4) 15 = Some (buf @ 101 # ex)"
      using True ex(2) cap by (simp add: fmt fitting_Some)
    ultimately show ?thesis by blast
  next
    case False
    let ?i = "take 1 buf" and ?f = "drop 1 buf"
    have len: "0 < length buf" using digits(2) by simp
    have l: "length (?i @ ?f @ 101 # ex) \<le> 22" "length (?i @ [46] @ ?f @ 101 # ex) \<le> cap"
      using buf(2) cap ex(2) len by simp_all
    have "e - int (length ?f) = k" using digits(2) by (cases buf) (simp_all add: e_def)
    then have R: "real (digits_value (?i @ ?f)) * 10 powi (e - int (length ?f)) = real (digits_value buf) * 10 powi k"
      by (simp only: append_take_drop_id)
    have "list_all is_digit ?i" "list_all is_digit ?f" "hd ?i \<noteq> 48" "?i \<noteq> []" "?f \<noteq> []"
      using digits False by (cases buf; auto)+
    then have "formatted (?i @ [46] @ ?f @ 101 # ex) buf k"
      by (intro formatted_point [OF _ _ _ _ _ l(1) _ _ R]) (simp_all add: re)
    moreover have "format_buffer cap buf k (- 4) 15 = Some (?i @ [46] @ ?f @ 101 # ex)"
      using False l(2) by (simp add: fmt fitting_Some)
    ultimately show ?thesis by blast
  qed
qed

lemma format_buffer_eq:
  assumes "numeral_text buf" "length buf \<le> 17" and "\<bar>k\<bar> \<le> 400" and "23 \<le> cap"
  shows "\<exists>t. format_buffer cap buf k (- 4) 15 = Some t \<and> formatted t buf k"
proof -
  let ?n = "int (length buf) + k"
  consider "0 \<le> k" "?n \<le> 15" | "k < 0" "0 < ?n" "?n \<le> 15" | "- 4 < ?n" "?n \<le> 0"
    | "\<not> (int (length buf) \<le> ?n \<and> ?n \<le> 15)" "\<not> (0 < ?n \<and> ?n \<le> 15)" "\<not> (- 4 < ?n \<and> ?n \<le> 0)"
    by linarith
  then show ?thesis
    using assms by cases (blast intro: format_whole format_point format_small format_scientific)+
qed

end
