(* ===== verification/Dtoa_Props.thy ===== *)
theory Dtoa_Props
  imports Dtoa_Grisu Dtoa_Text
begin

section \<open>\<open>to_chars\<close> writes a number that reads back\<close>

text \<open>
  The real number that the bits of a double stand for, its neighbours, and the theorem that the
  text of \<open>to_chars\<close> is nearest to the double it was made of.
\<close>

subsection \<open>The value of a double\<close>

definition magnitude :: "u64 \<Rightarrow> real" where
  "magnitude x = real (significand x) * 2 powi exponent x"

definition flip_sign :: "u64 \<Rightarrow> u64" where
  "flip_sign x = x XOR push_bit 63 1"

definition double_value :: "u64 \<Rightarrow> real" where
  "double_value x = (if bit x 63 then - magnitude (flip_sign x) else magnitude x)"

text \<open>\<open>x\<close> is the double a correctly rounding reader makes of \<open>r\<close>: every other value is farther away.\<close>

definition nearest_double :: "u64 \<Rightarrow> real \<Rightarrow> bool" where
  "nearest_double x r \<longleftrightarrow>
     is_finite x \<and> (\<forall>y. is_finite y \<and> double_value y \<noteq> double_value x \<longrightarrow> \<bar>r - double_value x\<bar> < \<bar>r - double_value y\<bar>)"

subsection \<open>Neighbours\<close>

lemma unat_fields: "unat x = biased_exponent x * 2 ^ 52 + fraction x"
  by (simp add: biased_exponent_def fraction_def)

lemma magnitude_power:
  assumes "exponent x = e"
  shows "magnitude x = real (significand x) * 2 powi e"
  by (simp add: magnitude_def assms)

lemma same_exponent:
  assumes "biased_exponent x = biased_exponent y \<or> biased_exponent x = 0 \<and> biased_exponent y = 1" and "unat x < unat y"
  shows "exponent x = exponent y" and "significand x + 1 \<le> significand y"
proof -
  show "exponent x = exponent y" using assms(1) by (auto simp: exponent_def)
  show "significand x + 1 \<le> significand y"
    using assms unat_fields [of x] unat_fields [of y] fraction_less [of x] by (auto simp: significand_def)
qed

lemma higher_exponent:
  assumes "biased_exponent x < biased_exponent y" and "biased_exponent y \<noteq> 1"
  shows "exponent x + 1 \<le> exponent y" and "2 ^ 52 \<le> significand y"
  using assms by (auto simp: exponent_def significand_def)

lemma exponent_cases:
  assumes "unat x < unat y"
  obtains (same) "exponent x = exponent y" "significand x + 1 \<le> significand y"
      "biased_exponent x = biased_exponent y \<or> biased_exponent y = 1"
    | (higher) "exponent x + 1 \<le> exponent y" "2 ^ 52 \<le> significand y" "1 < biased_exponent y"
proof (cases "biased_exponent x = biased_exponent y \<or> biased_exponent x = 0 \<and> biased_exponent y = 1")
  case True
  then show ?thesis using same_exponent [OF True assms] same by blast
next
  case False
  have "biased_exponent x \<le> biased_exponent y"
    using assms by (simp add: biased_exponent_def div_le_mono)
  then show ?thesis using False higher_exponent [of x y] higher by fastforce
qed

lemma magnitude_above:
  assumes "unat x < unat y"
  shows "magnitude x + 2 powi exponent x \<le> magnitude y"
  using assms
proof (cases rule: exponent_cases)
  case same
  then have "(real (significand x) + 1) * 2 powi exponent x \<le> real (significand y) * 2 powi exponent x"
    by (intro mult_right_mono) simp_all
  then show ?thesis using same(1) by (simp add: magnitude_def algebra_simps)
next
  case higher
  have "(real (significand x) + 1) * 2 powi exponent x \<le> 2 ^ 53 * 2 powi exponent x"
    using significand_less [of x] by (intro mult_right_mono) simp_all
  also have "\<dots> = 2 ^ 52 * 2 powi (exponent x + 1)" by (simp add: power_int_add)
  also have "\<dots> \<le> real (significand y) * 2 powi exponent y"
    using higher by (intro mult_mono power_int_increasing) (simp_all add: numeral_power_le_of_nat_cancel_iff)
  finally show ?thesis by (simp add: magnitude_def algebra_simps)
qed

text \<open>The half-way points are half-way.\<close>

lemma upper_bound_half: "2 * upper_bound x = magnitude x + (magnitude x + 2 powi exponent x)"
  by (simp add: upper_bound_def magnitude_def power_int_diff field_simps)

lemma lower_bound_half:
  assumes "0 < significand x"
  shows "2 * lower_bound x = magnitude x + (magnitude x - 2 powi (if closer_below x then exponent x - 1 else exponent x))"
  using assms by (simp add: lower_bound_def magnitude_def power_int_diff of_nat_diff field_simps)

lemma magnitude_below:
  assumes "unat y < unat x"
  shows "magnitude y \<le> magnitude x - 2 powi (if closer_below x then exponent x - 1 else exponent x)"
  using assms
proof (cases rule: exponent_cases)
  case same
  have "\<not> closer_below x"
    using same(3) assms unat_fields [of x] unat_fields [of y] by (auto simp: closer_below_def)
  then show ?thesis using magnitude_above [OF assms] same(1) by simp
next
  case higher
  define E where "E = (2 :: real) powi (exponent x - 1)"
  have E: "2 powi exponent x = 2 * E" "0 < E" by (simp_all add: E_def power_int_diff)
  have y: "magnitude y \<le> 9007199254740991 * E"
    unfolding magnitude_def E_def using significand_less [of y] higher(1)
    by (intro mult_mono power_int_increasing) simp_all
  define z where "z = real (significand x) * E"
  have x: "magnitude x = 2 * z" by (simp add: magnitude_def E z_def)
  have ge: "c * E \<le> z" if "c \<le> real (significand x)" for c
    unfolding z_def using that E(2) by (intro mult_right_mono) simp_all
  show ?thesis
  proof (cases "closer_below x")
    case True
    have "4503599627370496 * E \<le> z" using higher(2) by (intro ge) simp
    then show ?thesis using x y True by (simp flip: E_def)
  next
    case False
    then have "4503599627370497 * E \<le> z"
      using higher(3) by (intro ge) (simp add: closer_below_def significand_def)
    then show ?thesis using x y E False by simp
  qed
qed

subsection \<open>The result reads back\<close>

lemma magnitude_nonneg: "0 \<le> magnitude x"
  by (simp add: magnitude_def)

lemma between_nearest:
  assumes x: "is_finite x" "is_positive x" and r: "lower_bound x < r" "r < upper_bound x"
  shows "nearest_double x r"
  unfolding nearest_double_def
proof (intro conjI allI impI x(1))
  fix y
  assume y: "is_finite y \<and> double_value y \<noteq> double_value x"
  have nx: "\<not> bit x 63" using x(2) by (simp add: is_positive_def)
  define d where "d = (2 :: real) powi (if closer_below x then exponent x - 1 else exponent x)"
  have r': "2 * magnitude x - d < 2 * r" "2 * r < 2 * magnitude x + 2 powi exponent x"
    using r lower_bound_half [OF positive_bounds(2) [OF x]] upper_bound_half [of x] unfolding d_def by linarith+
  have "magnitude y \<le> magnitude x - d \<or> magnitude x + 2 powi exponent x \<le> magnitude y" if "\<not> bit y 63"
  proof -
    have "magnitude y \<noteq> magnitude x"
      using that nx y by (simp add: double_value_def)
    then have "unat y \<noteq> unat x" by (metis word_unat_eq_iff)
    then show ?thesis
      using magnitude_below [of y x] magnitude_above [of x y] unfolding d_def by linarith
  qed
  moreover have "0 \<le> magnitude x - d"
  proof -
    have "unat (0 :: u64) < unat x" using x(2) by (simp add: is_positive_def unat_gt_0)
    from magnitude_below [OF this] show ?thesis
      using magnitude_nonneg [of 0] unfolding d_def by linarith
  qed
  ultimately have "double_value y \<le> magnitude x - d \<or> magnitude x + 2 powi exponent x \<le> double_value y"
    using magnitude_nonneg [of "flip_sign y"] by (auto simp: double_value_def)
  moreover have "0 < d" "0 < (2 :: real) powi exponent x" by (simp_all add: d_def)
  moreover have "double_value x = magnitude x" using nx by (simp add: double_value_def)
  ultimately show "\<bar>r - double_value x\<bar> < \<bar>r - double_value y\<bar>"
    using r' by linarith
qed

lemma flip_sign_flip [simp]: "flip_sign (flip_sign x) = x"
  by (simp add: flip_sign_def xor.assoc)

lemma bit_flip: "bit (flip_sign x) n \<longleftrightarrow> bit x n \<noteq> (n = 63)"
  by (simp only: flip_sign_def bit_xor_iff bit_push_bit_iff bit_1_iff) auto

lemma bit_flip_sign: "bit (flip_sign x) 63 \<longleftrightarrow> \<not> bit x 63"
  by (simp add: bit_flip)

lemma flip_sign_low: "drop_bit 52 (flip_sign x) AND 0x7FF = drop_bit 52 x AND 0x7FF"
proof (rule bit_word_eqI)
  fix n
  assume "n < LENGTH(64)"
  show "bit (drop_bit 52 (flip_sign x) AND 0x7FF) n \<longleftrightarrow> bit (drop_bit 52 x AND 0x7FF) n"
  proof (cases "n < 11")
    case True
    then show ?thesis by (simp add: bit_and_iff bit_drop_bit_eq bit_flip)
  next
    case False
    have "(0x7FF :: u64) = mask 11" by (simp add: mask_eq_exp_minus_1)
    then show ?thesis using False by (simp only: bit_simps) simp
  qed
qed

lemma is_finite_flip: "is_finite (flip_sign x) = is_finite x"
  by (simp add: is_finite_def flip_sign_low)

lemma double_value_flip: "double_value (flip_sign x) = - double_value x"
  by (simp add: double_value_def bit_flip_sign)

lemma nearest_double_flip:
  assumes "nearest_double x r"
  shows "nearest_double (flip_sign x) (- r)"
  unfolding nearest_double_def
proof (intro conjI allI impI)
  show "is_finite (flip_sign x)" using assms by (simp add: nearest_double_def is_finite_flip)
  fix y
  assume "is_finite y \<and> double_value y \<noteq> double_value (flip_sign x)"
  then have "is_finite (flip_sign y) \<and> double_value (flip_sign y) \<noteq> double_value x"
    by (auto simp: is_finite_flip double_value_flip)
  then have "\<bar>r - double_value x\<bar> < \<bar>r - double_value (flip_sign y)\<bar>"
    using assms by (simp add: nearest_double_def)
  then show "\<bar>- r - double_value (flip_sign x)\<bar> < \<bar>- r - double_value y\<bar>"
    by (simp add: double_value_flip)
qed

lemma to_chars_unsigned_eq:
  assumes "is_finite x" and "\<not> bit x 63" and "23 \<le> cap"
  shows "\<exists>t r. to_chars_unsigned cap x = Some t \<and> read_unsigned t = Some r \<and> nearest_double x r
           \<and> length t \<le> 23 \<and> t \<noteq> [] \<and> hd t \<noteq> 45 \<and> (46 \<in> set t \<or> 101 \<in> set t)"
proof (cases "x = 0")
  case True
  have "is_finite 0" "double_value 0 = 0"
    by (simp_all add: is_finite_def double_value_def magnitude_def significand_def fraction_def biased_exponent_def)
  then have "nearest_double 0 0"
    by (simp add: nearest_double_def)
  moreover have "read_unsigned [48, 46, 48] = Some 0"
    using read_unsigned_point [of "[48]" "[48]" "[]" 0] by (simp add: read_exponent_def digits_value_def)
  ultimately show ?thesis
    using True assms(3) by (intro exI [of _ "[48, 46, 48]"] exI [of _ 0]) (simp add: to_chars_unsigned_def fitting_Some)
next
  case False
  then have p: "is_positive x" using assms(2) by (simp add: is_positive_def)
  have "17 \<le> cap" using assms(3) by simp
  then obtain buf k where g: "grisu2_double cap x = Some (buf, k)" "numeral_text buf" "length buf \<le> 17" "\<bar>k\<bar> \<le> 400"
    "lower_bound x < real (digits_value buf) * 10 powi k" "real (digits_value buf) * 10 powi k < upper_bound x"
    using grisu2_double_eq [OF assms(1) p] by blast
  obtain t where t: "format_buffer cap buf k (- 4) 15 = Some t" "formatted t buf k"
    using format_buffer_eq [OF g(2,3,4) assms(3)] by blast
  have "to_chars_unsigned cap x = Some t"
    using False assms(3) g(1,3) t(1) by (simp add: to_chars_unsigned_def json_assert_def)
  then show ?thesis
    using between_nearest [OF assms(1) p g(5,6)] t(2) by (auto simp: formatted_def)
qed

lemma to_chars_outcome:
  assumes "is_finite x"
  shows "\<exists>t r. to_chars 64 x = Some t \<and> json_number t = Some r \<and> nearest_double x r
           \<and> length t \<le> 24 \<and> (hd t = 45) = bit x 63 \<and> (46 \<in> set t \<or> 101 \<in> set t)"
proof (cases "bit x 63")
  case False
  then obtain t r where t: "to_chars_unsigned 64 x = Some t" "read_unsigned t = Some r" "nearest_double x r" "length t \<le> 23"
    "t \<noteq> []" "hd t \<noteq> 45" "46 \<in> set t \<or> 101 \<in> set t"
    using to_chars_unsigned_eq [OF assms, of 64] by auto
  have "json_number t = Some r" using t(2,5,6) by (cases t) (simp_all add: json_number_def)
  then show ?thesis
    using t assms False by (simp add: to_chars_def json_assert_def)
next
  case True
  have "is_finite (flip_sign x)" "\<not> bit (flip_sign x) 63"
    using assms True by (simp_all add: is_finite_flip bit_flip_sign)
  then obtain t r where t: "to_chars_unsigned 63 (flip_sign x) = Some t" "read_unsigned t = Some r" "nearest_double (flip_sign x) r"
    "length t \<le> 23" "46 \<in> set t \<or> 101 \<in> set t"
    using to_chars_unsigned_eq [of "flip_sign x" 63] by auto
  have "nearest_double x (- r)" using nearest_double_flip [OF t(3)] by simp
  moreover have "json_number (45 # t) = Some (- r)" by (simp add: json_number_def t(2))
  moreover have "to_chars 64 x = Some (45 # t)"
    using t(1) assms True by (simp add: to_chars_def json_assert_def write_char_def flip_sign_def [symmetric] del: push_bit_of_1)
  ultimately show ?thesis
    using t(4,5) True by simp
qed

text \<open>
  C18. Every finite double is written as a number of the JSON grammar, within the 64 bytes of the
  buffer and without any assertion failing, that reads back as the same double: its value is nearer
  to this double than to any other. The sign is that of the double, negative zero included, and the
  text has a point or an exponent, so that it is not taken for an integer.
\<close>

theorem to_chars_reads_back:
  assumes "is_finite x"
  shows "\<exists>t r. to_chars 64 x = Some t \<and> json_number t = Some r \<and> nearest_double x r
           \<and> length t \<le> 24 \<and> (hd t = 45) = bit x 63 \<and> (46 \<in> set t \<or> 101 \<in> set t)"
  using assms by (rule to_chars_outcome)

lemma to_chars_minus_1_5: "to_chars 64 0xBFF8000000000000 = Some [45, 49, 46, 53]"
  by code_simp

theorem to_chars_reads_back_witness:
  "\<exists>r. json_number [45, 49, 46, 53] = Some r \<and> nearest_double 0xBFF8000000000000 r"
proof -
  have "is_finite 0xBFF8000000000000"
    by (simp add: is_finite_def)
  then show ?thesis
    using to_chars_reads_back [of "0xBFF8000000000000"] to_chars_minus_1_5 by auto
qed

end
