(* ===== verification/Json_Serializer.thy ===== *)
theory Json_Serializer
  imports Json_Numbers Json_Escape Dtoa_Props
begin

section \<open>JSON text: \<open>serializer::dump\<close> of \<open>include/nlohmann/json.hpp\<close>\<close>

text \<open>
  The JSON values of the library and the recursive serializer, compact and indented. Objects are
  \<open>std::map\<close>s, lists of members sorted by key; strings and keys are bytes; a floating-point number is
  its bit pattern. An exception, or a program that aborts, leaves the function with a value of \<open>json_error\<close>, and the text written before is lost
  with the local string of \<open>basic_json::dump\<close>.
\<close>

subsection \<open>Values\<close>

datatype json_value =
    Null
  | Boolean bool
  | Number_integer u64
  | Number_unsigned u64
  | Number_float u64
  | String_value "byte list"
  | Binary "byte list" "u64 option"
  | Array "json_value list"
  | Object "(byte list \<times> json_value) list"
  | Discarded

text \<open>
  The serializer: indentation character and error handler are fixed, the string of indentation
  characters grows.
\<close>

record serializer =
  indent_char :: byte
  error_handler :: error_handler_t

definition new_indent_string :: "serializer \<Rightarrow> byte list" where
  "new_indent_string ser = replicate 512 (indent_char ser)"

text \<open>
  \<open>operator[]\<close> with a string key followed by an assignment: a null value becomes an object, an object
  gets or overwrites the member at its place in the order of \<open>std::map\<close>, any other value throws.
\<close>

fun key_less :: "byte list \<Rightarrow> byte list \<Rightarrow> bool" where
  "key_less [] [] = False"
| "key_less [] (c # cs) = True"
| "key_less (c # cs) [] = False"
| "key_less (c # cs) (d # ds) = (if c = d then key_less cs ds else unat c < unat d)"

primrec map_insert :: "byte list \<Rightarrow> json_value \<Rightarrow> (byte list \<times> json_value) list \<Rightarrow> (byte list \<times> json_value) list"
where
  "map_insert k v [] = [(k, v)]"
| "map_insert k v (e # m) =
     (if fst e = k then (k, v) # m
      else if key_less k (fst e) then (k, v) # e # m else e # map_insert k v m)"

definition json_set :: "byte list \<Rightarrow> json_value \<Rightarrow> json_value \<Rightarrow> json_value option" where
  "json_set k v j =
     (case j of
        Null \<Rightarrow> Some (Object [(k, v)])
      | Object m \<Rightarrow> Some (Object (map_insert k v m))
      | _ \<Rightarrow> None)"

subsection \<open>Sequencing\<close>

text \<open>A writer takes the indentation string and returns its text with the string, or throws.\<close>

type_synonym writer = "byte list \<Rightarrow> json_error + (byte list \<times> byte list)"

definition emit :: "byte list \<Rightarrow> writer" where
  "emit xs ind = Inr (xs, ind)"

definition seq :: "writer \<Rightarrow> writer \<Rightarrow> writer" where
  "seq f g ind =
     (case f ind of
        Inl err \<Rightarrow> Inl err
      | Inr (xs, ind1) \<Rightarrow>
          (case g ind1 of
             Inl err \<Rightarrow> Inl err
           | Inr (ys, ind2) \<Rightarrow> Inr (xs @ ys, ind2)))"

definition lift :: "json_error + byte list \<Rightarrow> writer" where
  "lift r ind = (case r of Inl err \<Rightarrow> Inl err | Inr xs \<Rightarrow> Inr (xs, ind))"

definition lift_option :: "byte list option \<Rightarrow> writer" where
  "lift_option r ind = (case r of None \<Rightarrow> Inl Buffer_overflow | Some xs \<Rightarrow> Inr (xs, ind))"

fun seqs :: "writer list \<Rightarrow> writer" where
  "seqs [] = emit []"
| "seqs (f # fs) = seq f (seqs fs)"

subsection \<open>The code\<close>

definition lit :: "string \<Rightarrow> byte list" where
  "lit s = map of_char s"

text \<open>
  The string is doubled once when it is too short, and then its first \<open>n\<close> characters are written;
  behind the terminating zero they are out of bounds.
\<close>

definition grow_indent :: "u32 \<Rightarrow> writer" where
  "grow_indent n ind =
     Inr ([], if length ind < unat n then ind @ replicate (length ind) 32 else ind)"

definition write_indent :: "u32 \<Rightarrow> writer" where
  "write_indent n ind =
     (if unat n \<le> length ind + 1 then Inr (take (unat n) (ind @ [0]), ind) else Inl Read_out_of_bounds)"

text \<open>\<open>number_buffer\<close>; what it holds does not matter.\<close>

definition number_buffer :: "byte list" where
  "number_buffer = replicate 64 0"

definition dump_byte_value :: "byte \<Rightarrow> writer" where
  "dump_byte_value b = lift_option (dump_unsigned number_buffer (ucast b))"

text \<open>The digits are formatted in \<open>number_buffer\<close>, which has 64 bytes.\<close>

definition dump_float :: "u64 \<Rightarrow> writer" where
  "dump_float x =
     (if \<not> is_finite x then emit (lit ''null'')
      else lift (case to_chars 64 x of None \<Rightarrow> Inl Aborted | Some text \<Rightarrow> Inr text))"

fun separated :: "byte list \<Rightarrow> writer list \<Rightarrow> writer" where
  "separated sep [] = emit []"
| "separated sep [f] = f"
| "separated sep (f # fs) = seq f (seq (emit sep) (separated sep fs))"

definition dump_binary :: "bool \<Rightarrow> u32 \<Rightarrow> u32 \<Rightarrow> byte list \<Rightarrow> u64 option \<Rightarrow> writer" where
  "dump_binary pretty_print indent_step current_indent bs subtype =
     (let new_indent = current_indent + indent_step;
          sub = (case subtype of
                   Some t \<Rightarrow> lift_option (dump_unsigned number_buffer t)
                 | None \<Rightarrow> emit (lit ''null'')) in
      if pretty_print then
        seqs [emit (lit ''{'' @ [10]), grow_indent new_indent, write_indent new_indent,
              emit ([34] @ lit ''bytes'' @ [34] @ lit '': [''), separated (lit '', '') (map dump_byte_value bs),
              emit (lit ''],'' @ [10]), write_indent new_indent, emit ([34] @ lit ''subtype'' @ [34] @ lit '': ''),
              sub, emit [10], write_indent current_indent, emit (lit ''}'')]
      else
        seqs [emit (lit ''{'' @ [34] @ lit ''bytes'' @ [34] @ lit '':[''), separated (lit '','') (map dump_byte_value bs),
              emit (lit ''],'' @ [34] @ lit ''subtype'' @ [34] @ lit '':''), sub, emit (lit ''}'')])"

fun dump_value :: "serializer \<Rightarrow> bool \<Rightarrow> bool \<Rightarrow> u32 \<Rightarrow> u32 \<Rightarrow> json_value \<Rightarrow> writer"
  and dump_elements :: "serializer \<Rightarrow> bool \<Rightarrow> bool \<Rightarrow> u32 \<Rightarrow> u32 \<Rightarrow> json_value list \<Rightarrow> writer"
  and dump_members :: "serializer \<Rightarrow> bool \<Rightarrow> bool \<Rightarrow> u32 \<Rightarrow> u32 \<Rightarrow> (byte list \<times> json_value) list \<Rightarrow> writer"
where
  "dump_value ser pp ea step indent (Object ms) =
     (if ms = [] then emit (lit ''{}'')
      else if pp then
        (let new_indent = indent + step in
         seqs [emit (lit ''{'' @ [10]), grow_indent new_indent, dump_members ser True ea step new_indent ms,
               emit [10], write_indent indent, emit (lit ''}'')])
      else seqs [emit (lit ''{''), dump_members ser False ea step indent ms, emit (lit ''}'')])"
| "dump_value ser pp ea step indent (Array vs) =
     (if vs = [] then emit (lit ''[]'')
      else if pp then
        (let new_indent = indent + step in
         seqs [emit (lit ''['' @ [10]), grow_indent new_indent, dump_elements ser True ea step new_indent vs,
               emit [10], write_indent indent, emit (lit '']'')])
      else seqs [emit (lit ''[''), dump_elements ser False ea step indent vs, emit (lit '']'')])"
| "dump_value ser pp ea step indent (String_value s) =
     seqs [emit [34], lift (dump_escaped (error_handler ser) ea s), emit [34]]"
| "dump_value ser pp ea step indent (Binary bs subtype) = dump_binary pp step indent bs subtype"
| "dump_value ser pp ea step indent (Boolean b) = emit (if b then lit ''true'' else lit ''false'')"
| "dump_value ser pp ea step indent (Number_integer x) = lift_option (dump_signed number_buffer x)"
| "dump_value ser pp ea step indent (Number_unsigned x) = lift_option (dump_unsigned number_buffer x)"
| "dump_value ser pp ea step indent (Number_float x) = dump_float x"
| "dump_value ser pp ea step indent Discarded = emit (lit ''<discarded>'')"
| "dump_value ser pp ea step indent Null = emit (lit ''null'')"
| "dump_elements ser pp ea step indent [] = emit []"
| "dump_elements ser pp ea step indent (v # vs) =
     seqs [if pp then write_indent indent else emit [],
           dump_value ser pp ea step indent v,
           if vs = [] then emit [] else emit (if pp then lit '','' @ [10] else lit '',''),
           dump_elements ser pp ea step indent vs]"
| "dump_members ser pp ea step indent [] = emit []"
| "dump_members ser pp ea step indent ((k, v) # ms) =
     seqs [if pp then write_indent indent else emit [],
           emit [34], lift (dump_escaped (error_handler ser) ea k), emit (if pp then [34] @ lit '': '' else [34] @ lit '':''),
           dump_value ser pp ea step indent v,
           if ms = [] then emit [] else emit (if pp then lit '','' @ [10] else lit '',''),
           dump_members ser pp ea step indent ms]"

text \<open>\<open>basic_json::dump\<close>, with a negative \<open>indent\<close> for the compact form.\<close>

definition basic_dump ::
  "int \<Rightarrow> byte \<Rightarrow> bool \<Rightarrow> error_handler_t \<Rightarrow> json_value \<Rightarrow> json_error + byte list" where
  "basic_dump indent ichar ensure_ascii handler v =
     (let ser = \<lparr>indent_char = ichar, error_handler = handler\<rparr> in
      map_sum id fst
        (if indent \<ge> 0 then dump_value ser True ensure_ascii (word_of_int indent) 0 v (new_indent_string ser)
         else dump_value ser False ensure_ascii 0 0 v (new_indent_string ser)))"

definition dump_default :: "json_value \<Rightarrow> json_error + byte list" where
  "dump_default v = basic_dump (-1) 32 False Strict v"

subsection \<open>The compact form\<close>

text \<open>All strings of a value, object keys included.\<close>

fun json_strings :: "json_value \<Rightarrow> byte list list" where
  "json_strings (Object ms) = concat (map (\<lambda>(k, v). k # json_strings v) ms)"
| "json_strings (Array vs) = concat (map json_strings vs)"
| "json_strings (String_value s) = [s]"
| "json_strings _ = []"

text \<open>A writer that throws unless \<open>ok\<close>, and otherwise writes UTF-8 and leaves the indentation alone.\<close>

definition writes :: "bool \<Rightarrow> writer \<Rightarrow> bool" where
  "writes ok f \<longleftrightarrow>
     (\<exists>xs. utf8_text xs \<and> (\<forall>ind. (ok \<longrightarrow> f ind = Inr (xs, ind)) \<and> (\<not> ok \<longrightarrow> (\<exists>err. f ind = Inl err))))"

named_theorems writes_intros

lemma writes_emit [writes_intros]: "ascii xs \<Longrightarrow> writes True (emit xs)"
  unfolding writes_def emit_def by (rule exI [of _ xs]) auto

lemma writes_seq:
  assumes "writes a f" and "writes b g"
  shows "writes (a \<and> b) (seq f g)"
proof -
  obtain xs where xs: "utf8_text xs" "\<And>ind. a \<Longrightarrow> f ind = Inr (xs, ind)" "\<And>ind. \<not> a \<Longrightarrow> \<exists>err. f ind = Inl err"
    using assms(1) unfolding writes_def by blast
  obtain ys where ys: "utf8_text ys" "\<And>ind. b \<Longrightarrow> g ind = Inr (ys, ind)" "\<And>ind. \<not> b \<Longrightarrow> \<exists>err. g ind = Inl err"
    using assms(2) unfolding writes_def by blast
  have "(a \<and> b \<longrightarrow> seq f g ind = Inr (xs @ ys, ind)) \<and> (\<not> (a \<and> b) \<longrightarrow> (\<exists>err. seq f g ind = Inl err))" for ind
    using xs(2,3) [of ind] ys(2,3) [of ind] by (cases a; cases b) (auto simp: seq_def)
  then show ?thesis
    unfolding writes_def using xs(1) ys(1) by (intro exI [of _ "xs @ ys"]) auto
qed

lemma writes_seqs:
  "list_all2 writes oks fs \<Longrightarrow> writes (list_all (\<lambda>ok. ok) oks) (seqs fs)"
proof (induction rule: list_all2_induct)
  case Nil
  then show ?case using writes_emit [of "[]"] by simp
next
  case (Cons ok oks f fs)
  then show ?case using writes_seq [of ok f] by simp
qed

declare seqs.simps [simp del]

lemma writes_number: "writes True (lift_option (dump_signed number_buffer x))"
  "writes True (lift_option (dump_unsigned number_buffer x))"
proof -
  have d: "ascii (decimal n)" for n
  proof (induction n rule: decimal.induct)
    case (1 n)
    then show ?case
      by (cases "n < 10") (simp_all add: decimal_small decimal_large unat_of_nat_ascii del: of_nat_add)
  qed
  then have "ascii (decimal_int i)" for i
    by (simp add: decimal_int_def)
  then show "writes True (lift_option (dump_signed number_buffer x))"
    "writes True (lift_option (dump_unsigned number_buffer x))"
    unfolding writes_def lift_option_def using d
    by (auto simp: dump_signed_eq dump_unsigned_eq number_buffer_def)
qed

lemma writes_string:
  "writes (utf8_text s) (lift (dump_escaped Strict ea s))"
proof (cases "dump_escaped Strict ea s")
  case (Inl err)
  then have "\<not> utf8_text s"
    using dump_escaped_strict_cases [of s ea] by (auto simp: utf8_text_def)
  then show ?thesis
    using Inl unfolding writes_def lift_def by (intro exI [of _ "[]"]) simp
next
  case (Inr xs)
  then show ?thesis
    using dump_escaped_strict_Inr [OF Inr] unfolding writes_def lift_def by (intro exI [of _ xs]) simp
qed

lemma number_char_ascii: "number_char c \<Longrightarrow> unat c < 0x80"
  by (auto simp: number_char_def is_digit_def)

lemma writes_float: "writes True (dump_float x)"
proof (cases "is_finite x")
  case True
  then obtain t r where "to_chars 64 x = Some t" "json_number t = Some r"
    using to_chars_outcome by blast
  then have "dump_float x = emit t" "ascii t"
    using True json_number_chars number_char_ascii
    by (auto simp: dump_float_def lift_def emit_def fun_eq_iff ascii_def list_all_iff)
  then show ?thesis by (simp add: writes_emit)
next
  case False
  then show ?thesis by (simp add: dump_float_def writes_emit lit_def)
qed

lemma writes_separated:
  "ascii sep \<Longrightarrow> list_all (writes True) fs \<Longrightarrow> writes True (separated sep fs)"
proof (induction sep fs rule: separated.induct)
  case (3 sep f g fs)
  then show ?case
    using writes_seq [of True f True "seq (emit sep) (separated sep (g # fs))"]
      writes_seq [of True "emit sep" True "separated sep (g # fs)"] writes_emit [of sep] by simp
qed (simp_all add: writes_emit)

lemma lit_ascii:
  "ascii (lit ''null'')" "ascii (lit ''true'')" "ascii (lit ''false'')" "ascii (lit ''<discarded>'')"
  "ascii (lit ''{}'')" "ascii (lit ''[]'')" "ascii (lit ''{'')" "ascii (lit ''}'')" "ascii (lit ''['')"
  "ascii (lit '']'')" "ascii (lit '','')" "ascii (lit '':'')" "ascii (lit '':['')" "ascii (lit ''],'')"
  "ascii (lit ''bytes'')" "ascii (lit ''subtype'')"
  by (simp_all add: lit_def)

lemma writes_binary: "writes True (dump_binary False step indent bs subtype)"
proof -
  have "list_all (writes True) (map dump_byte_value bs)"
    by (simp add: list_all_iff dump_byte_value_def writes_number)
  then have "writes True (separated (lit '','') (map dump_byte_value bs))"
    by (intro writes_separated) (simp_all add: lit_ascii)
  moreover have "writes True (case subtype of
        Some t \<Rightarrow> lift_option (dump_unsigned number_buffer t) | None \<Rightarrow> emit (lit ''null''))"
    by (simp add: writes_number writes_emit lit_ascii split: option.split)
  ultimately show ?thesis
    using writes_seqs [of "[True, True, True, True, True]"]
    by (simp add: dump_binary_def Let_def lit_ascii writes_emit)
qed

abbreviation strings_ok :: "byte list list \<Rightarrow> bool" where
  "strings_ok ss \<equiv> list_all utf8_text ss"

lemma strings_ok_concat: "strings_ok (concat ss) \<longleftrightarrow> list_all strings_ok ss"
  by (auto simp: list_all_iff)

lemma writes_3:
  "writes a f \<Longrightarrow> writes b g \<Longrightarrow> writes c h \<Longrightarrow> writes (a \<and> b \<and> c) (seqs [f, g, h])"
  using writes_seqs [of "[a, b, c]" "[f, g, h]"] by simp

lemma writes_sep: "writes True (if xs = [] then emit [] else emit (lit '',''))"
  by (simp add: writes_emit lit_ascii)

lemma writes_dump:
  "\<not> pp \<Longrightarrow> error_handler ser = Strict \<Longrightarrow>
     writes (strings_ok (json_strings v)) (dump_value ser pp ea step indent v)"
  "\<not> pp \<Longrightarrow> error_handler ser = Strict \<Longrightarrow>
     writes (list_all (\<lambda>v. strings_ok (json_strings v)) vs) (dump_elements ser pp ea step indent vs)"
  "\<not> pp \<Longrightarrow> error_handler ser = Strict \<Longrightarrow>
     writes (list_all (\<lambda>(k, v). utf8_text k \<and> strings_ok (json_strings v)) ms) (dump_members ser pp ea step indent ms)"
proof (induction ser pp ea step indent v and ser pp ea step indent vs and ser pp ea step indent ms
    rule: dump_value_dump_elements_dump_members.induct)
  case (1 ser pp ea step indent ms)
  have e: "strings_ok (json_strings (Object ms)) = list_all (\<lambda>(k, v). utf8_text k \<and> strings_ok (json_strings v)) ms"
    by (auto simp: strings_ok_concat list_all_iff)
  show ?case
  proof (cases "ms = []")
    case True
    then show ?thesis by (simp add: lit_ascii writes_emit)
  next
    case False
    then show ?thesis
      using 1 writes_3 [OF writes_emit [of "lit ''{''"] _ writes_emit [of "lit ''}''"]] unfolding e
      by (simp add: lit_ascii)
  qed
next
  case (2 ser pp ea step indent vs)
  have e: "strings_ok (json_strings (Array vs)) = list_all (\<lambda>v. strings_ok (json_strings v)) vs"
    by (auto simp: strings_ok_concat list_all_iff)
  show ?case
  proof (cases "vs = []")
    case True
    then show ?thesis by (simp add: lit_ascii writes_emit)
  next
    case False
    then show ?thesis
      using 2 writes_3 [OF writes_emit [of "lit ''[''"] _ writes_emit [of "lit '']''"]] unfolding e
      by (simp add: lit_ascii)
  qed
next
  case (3 ser pp ea step indent s)
  then show ?case
    using writes_3 [OF writes_emit [of "[34]"] writes_string [of s ea] writes_emit [of "[34]"]] by simp
next
  case (12 ser pp ea step indent v vs)
  then show ?case
    using writes_seqs [of "[True, strings_ok (json_strings v), True, list_all (\<lambda>v. strings_ok (json_strings v)) vs]"
        "[emit [], dump_value ser False ea step indent v, if vs = [] then emit [] else emit (lit '',''),
          dump_elements ser False ea step indent vs]"]
      writes_sep [of vs]
    by (simp add: writes_emit lit_ascii split del: if_split cong: if_cong)
next
  case (14 ser pp ea step indent k v ms)
  then show ?case
    using writes_seqs [of "[True, True, utf8_text k, True, strings_ok (json_strings v), True,
          list_all (\<lambda>(k, v). utf8_text k \<and> strings_ok (json_strings v)) ms]"
        "[emit [], emit [34], lift (dump_escaped Strict ea k), emit ([34] @ lit '':''),
          dump_value ser False ea step indent v, if ms = [] then emit [] else emit (lit '',''),
          dump_members ser False ea step indent ms]"]
      writes_string [of k ea] writes_sep [of ms]
    by (simp add: writes_emit lit_ascii split del: if_split cong: if_cong)
qed (simp_all add: writes_binary writes_number writes_float writes_emit lit_ascii)

lemma dump_default_cases:
  "if strings_ok (json_strings v) then \<exists>out. dump_default v = Inr out \<and> utf8_text out
         else \<exists>err. dump_default v = Inl err"
proof -
  let ?ser = "\<lparr>indent_char = 32, error_handler = Strict\<rparr>"
  obtain xs where xs: "utf8_text xs"
    "\<And>ind. strings_ok (json_strings v) \<Longrightarrow> dump_value ?ser False False 0 0 v ind = Inr (xs, ind)"
    "\<And>ind. \<not> strings_ok (json_strings v) \<Longrightarrow> \<exists>err. dump_value ?ser False False 0 0 v ind = Inl err"
    using writes_dump(1) [of False ?ser v False 0 0] unfolding writes_def by auto
  show ?thesis
    using xs(1) xs(2,3) [of "new_indent_string ?ser"] by (auto simp: dump_default_def basic_dump_def Let_def)
qed

text \<open>
  \<open>dump()\<close> of any value: it throws exactly when some string or object key of the value is not
  UTF-8, and otherwise returns UTF-8 text, in which no byte is 0xF8 or above.
\<close>

theorem dump_default_outcome:
  "(\<exists>out. dump_default v = Inr out \<and> utf8_text out \<and> list_all (\<lambda>b. unat b < 0xF8) out)
           = list_all utf8_text (json_strings v)
         \<and> (\<exists>err. dump_default v = Inl err) = (\<not> list_all utf8_text (json_strings v))"
  using dump_default_cases [of v] utf8_text_bytes by (auto split: if_splits)

theorem dump_default_outcome_witness:
  "\<exists>out. dump_default (Array [Number_unsigned 1, Null]) = Inr out \<and> utf8_text out
     \<and> list_all (\<lambda>b. unat b < 0xF8) out"
  using dump_default_outcome [of "Array [Number_unsigned 1, Null]"] by simp

end
