(* ===== verification/Std_Regex.thy ===== *)
theory Std_Regex
  imports Prelude
begin

section \<open>Regular expressions of the C++ library\<close>

text \<open>
  The part of \<open>std::regex\<close> (ECMAScript grammar) that \<open>httplib.h\<close> uses: patterns are compiled from
  their text, and a match runs by backtracking, trying the alternatives in order. A state of a
  match is the rest of the text and the groups captured so far, the latest first; a group is its
  position and its text. \<open>regex_run\<close> lists all the ways to match, in the order in which a backtracking
  matcher finds them. \<open>None\<close> as the result of compiling is the exception \<open>regex_error\<close>. Groups
  inside a repetition, backward references, counted repetitions and look-ahead do not occur in the
  patterns of the program and are not part of the grammar here.
\<close>

datatype regex =
    Nothing
  | Letter char
  | Any_char
  | Digit
  | White
  | Non_white
  | Ranges_of "(char \<times> char) list"
  | Line_start
  | Line_end
  | Then_both regex regex
  | Either regex regex
  | Repeat bool regex
  | Maybe regex
  | Capture nat regex

type_synonym capture = "nat \<times> string"
type_synonym match_state = "string \<times> (nat \<times> capture) list"

definition code_of :: "char \<Rightarrow> int" where
  "code_of c = of_char c"

definition is_decimal :: "char \<Rightarrow> bool" where
  "is_decimal c \<longleftrightarrow> 48 \<le> code_of c \<and> code_of c \<le> 57"

definition is_white :: "char \<Rightarrow> bool" where
  "is_white c \<longleftrightarrow> code_of c = 32 \<or> 9 \<le> code_of c \<and> code_of c \<le> 13"

definition to_lower_char :: "char \<Rightarrow> char" where
  "to_lower_char c = (if 65 \<le> code_of c \<and> code_of c \<le> 90 then char_of (code_of c + 32) else c)"

subsection \<open>Matching\<close>

primrec star_runs :: "nat \<Rightarrow> bool \<Rightarrow> (match_state \<Rightarrow> match_state list) \<Rightarrow> match_state \<Rightarrow> match_state list" where
  "star_runs 0 greedy f st = [st]"
| "star_runs (Suc n) greedy f st =
     (let more = concat (map (star_runs n greedy f) (filter (\<lambda>st'. length (fst st') < length (fst st)) (f st))) in
      if greedy then more @ [st] else st # more)"

definition one_char :: "(char \<Rightarrow> bool) \<Rightarrow> match_state \<Rightarrow> match_state list" where
  "one_char P st = (case fst st of c # cs \<Rightarrow> if P c then [(cs, snd st)] else [] | [] \<Rightarrow> [])"

primrec regex_run :: "bool \<Rightarrow> nat \<Rightarrow> regex \<Rightarrow> match_state \<Rightarrow> match_state list" where
  "regex_run ic n Nothing st = [st]"
| "regex_run ic n (Letter c) st =
     one_char (\<lambda>d. if ic then to_lower_char d = to_lower_char c else d = c) st"
| "regex_run ic n Any_char st = one_char (\<lambda>c. c \<noteq> CHR 0x0A \<and> c \<noteq> CHR 0x0D) st"
| "regex_run ic n Digit st = one_char is_decimal st"
| "regex_run ic n White st = one_char is_white st"
| "regex_run ic n Non_white st = one_char (\<lambda>c. \<not> is_white c) st"
| "regex_run ic n (Ranges_of rs) st =
     one_char (\<lambda>c. list_ex (\<lambda>(a, b). code_of a \<le> code_of c \<and> code_of c \<le> code_of b) rs) st"
| "regex_run ic n Line_start st = (if length (fst st) = n then [st] else [])"
| "regex_run ic n Line_end st = (if fst st = [] then [st] else [])"
| "regex_run ic n (Then_both r s) st = concat (map (regex_run ic n s) (regex_run ic n r st))"
| "regex_run ic n (Either r s) st = regex_run ic n r st @ regex_run ic n s st"
| "regex_run ic n (Repeat greedy r) st = star_runs (length (fst st)) greedy (regex_run ic n r) st"
| "regex_run ic n (Maybe r) st = regex_run ic n r st @ [st]"
| "regex_run ic n (Capture k r) st =
     map (\<lambda>(rest, caps). (rest, (k, n - length (fst st), take (length (fst st) - length rest) (fst st)) # caps))
       (regex_run ic n r st)"

definition regex_match :: "bool \<Rightarrow> regex \<Rightarrow> string \<Rightarrow> (nat \<times> capture) list option" where
  "regex_match ic r s = map_option snd (find (\<lambda>st. fst st = []) (regex_run ic (length s) r (s, [])))"

fun search_from :: "bool \<Rightarrow> nat \<Rightarrow> regex \<Rightarrow> string \<Rightarrow> (nat \<times> capture) list option" where
  "search_from ic n r [] = (case regex_run ic n r ([], []) of [] \<Rightarrow> None | st # _ \<Rightarrow> Some (snd st))"
| "search_from ic n r (c # cs) =
     (case regex_run ic n r (c # cs, []) of [] \<Rightarrow> search_from ic n r cs | st # _ \<Rightarrow> Some (snd st))"

definition regex_search :: "bool \<Rightarrow> regex \<Rightarrow> string \<Rightarrow> (nat \<times> capture) list option" where
  "regex_search ic r s = search_from ic (length s) r s"

text \<open>The text of a group; a group that took no part in the match is empty.\<close>

definition group_text :: "nat \<Rightarrow> (nat \<times> capture) list \<Rightarrow> string" where
  "group_text k caps = (case map_of caps k of None \<Rightarrow> [] | Some (pos, w) \<Rightarrow> w)"

subsection \<open>Compiling a pattern\<close>

definition special :: "char \<Rightarrow> bool" where
  "special c \<longleftrightarrow> c \<in> set ''^$.*+?()[]{}|'' \<or> c = CHR 0x5C"

fun class_escape :: "char \<Rightarrow> regex option" where
  "class_escape c =
     (if c = CHR ''d'' then Some Digit else if c = CHR ''s'' then Some White
      else if c = CHR ''S'' then Some Non_white
      else if special c \<or> c = CHR ''/'' \<or> c = CHR ''-'' then Some (Letter c) else None)"

fun char_ranges :: "string \<Rightarrow> ((char \<times> char) list \<times> string) option" where
  "char_ranges [] = None"
| "char_ranges (c # cs) =
     (if c = CHR '']'' then Some ([], cs)
      else case cs of
             d # e # rest \<Rightarrow>
               if d = CHR ''-'' \<and> e \<noteq> CHR '']'' then map_option (\<lambda>(rs, s). ((c, e) # rs, s)) (char_ranges rest)
               else map_option (\<lambda>(rs, s). ((c, c) # rs, s)) (char_ranges cs)
           | _ \<Rightarrow> map_option (\<lambda>(rs, s). ((c, c) # rs, s)) (char_ranges cs))"

fun quantified :: "regex \<Rightarrow> string \<Rightarrow> regex \<times> string" where
  "quantified r (c # cs) =
     (if c = CHR ''*'' then (case cs of d # ds \<Rightarrow> if d = CHR ''?'' then (Repeat False r, ds) else (Repeat True r, cs)
                             | [] \<Rightarrow> (Repeat True r, cs))
      else if c = CHR ''+'' then (Then_both r (Repeat True r), cs)
      else if c = CHR ''?'' then (Maybe r, cs)
      else (r, c # cs))"
| "quantified r [] = (r, [])"

text \<open>
  \<open>pattern_alt\<close>, \<open>pattern_seq\<close> and \<open>pattern_atom\<close> parse by recursive descent; \<open>k\<close> is the number of the
  next group. Every call consumes one unit of fuel and three calls consume a character, so three
  units per character and three more are enough.
\<close>

fun pattern_alt :: "nat \<Rightarrow> nat \<Rightarrow> string \<Rightarrow> (regex \<times> nat \<times> string) option"
and pattern_seq :: "nat \<Rightarrow> nat \<Rightarrow> string \<Rightarrow> (regex \<times> nat \<times> string) option"
and pattern_atom :: "nat \<Rightarrow> nat \<Rightarrow> string \<Rightarrow> (regex \<times> nat \<times> string) option" where
  "pattern_alt 0 k s = None"
| "pattern_seq 0 k s = None"
| "pattern_atom 0 k s = None"
| "pattern_alt (Suc n) k s =
     (case pattern_seq n k s of
        None \<Rightarrow> None
      | Some (r, k1, s1) \<Rightarrow>
          if s1 \<noteq> [] \<and> hd s1 = CHR ''|''
          then map_option (\<lambda>(r2, k2, s2). (Either r r2, k2, s2)) (pattern_alt n k1 (tl s1))
          else Some (r, k1, s1))"
| "pattern_seq (Suc n) k s =
     (if s = [] \<or> hd s = CHR ''|'' \<or> hd s = CHR '')'' then Some (Nothing, k, s)
      else case pattern_atom n k s of
             None \<Rightarrow> None
           | Some (a, k1, s1) \<Rightarrow>
               (case quantified a s1 of (q, s2) \<Rightarrow>
                  map_option (\<lambda>(r, k2, s3). (Then_both q r, k2, s3)) (pattern_seq n k1 s2)))"
| "pattern_atom (Suc n) k s =
     (case s of
        [] \<Rightarrow> None
      | c # cs \<Rightarrow>
          if c = CHR ''.'' then Some (Any_char, k, cs)
          else if c = CHR ''^'' then Some (Line_start, k, cs)
          else if c = CHR ''$'' then Some (Line_end, k, cs)
          else if c = CHR 0x5C
          then (case cs of [] \<Rightarrow> None | d # ds \<Rightarrow> map_option (\<lambda>r. (r, k, ds)) (class_escape d))
          else if c = CHR ''['' then map_option (\<lambda>(rs, rest). (Ranges_of rs, k, rest)) (char_ranges cs)
          else if c = CHR ''(''
          then (let capture = take 2 cs \<noteq> ''?:'' in
                case pattern_alt n (if capture then Suc k else k) (if capture then cs else drop 2 cs) of
                  None \<Rightarrow> None
                | Some (r, k1, s1) \<Rightarrow>
                    if s1 \<noteq> [] \<and> hd s1 = CHR '')''
                    then Some (if capture then Capture k r else r, k1, tl s1) else None)
          else if special c then None
          else Some (Letter c, k, cs))"

definition std_regex :: "string \<Rightarrow> regex option" where
  "std_regex p =
     (case pattern_alt (3 * length p + 3) 1 p of
        Some (r, k, s) \<Rightarrow> if s = [] then Some r else None
      | None \<Rightarrow> None)"

subsection \<open>Facts on matching\<close>

lemma one_char_simps [simp]:
  "one_char P ([], caps) = []"
  "one_char P (c # cs, caps) = (if P c then [(cs, caps)] else [])"
  by (simp_all add: one_char_def)

lemma fst_one_char: "st' \<in> set (one_char P st) \<longleftrightarrow> (\<exists>c. P c \<and> fst st = c # fst st' \<and> snd st' = snd st)"
  by (cases st; cases st') (auto simp: one_char_def split: list.splits if_splits)

text \<open>A repeated character class may take any number of the characters of the class that are next.\<close>

lemma star_runs_class:
  "length (fst st) \<le> n \<Longrightarrow> set (star_runs n greedy (one_char P) st)
     = {(v, snd st) | u v. fst st = u @ v \<and> list_all P u}"
proof (induction n arbitrary: st)
  case 0
  then show ?case by (cases st) auto
next
  case (Suc n)
  obtain s caps where st: "st = (s, caps)"
    by (cases st)
  show ?case
  proof (cases s)
    case Nil
    then show ?thesis
      by (auto simp: st)
  next
    case (Cons c cs)
    show ?thesis
    proof (cases "P c")
      case True
      have ih: "set (star_runs n greedy (one_char P) (cs, caps)) = {(v, caps) | u v. cs = u @ v \<and> list_all P u}"
        using Suc.IH [of "(cs, caps)"] Suc.prems Cons by (simp add: st)
      have step: "{(v, caps) | u v. c # cs = u @ v \<and> list_all P u}
          = insert (c # cs, caps) {(v, caps) | u v. cs = u @ v \<and> list_all P u}"
        using True by (auto simp: Cons_eq_append_conv)
      show ?thesis
        using True ih by (cases greedy) (simp_all add: st Cons Let_def step)
    next
      case False
      then show ?thesis
        by (auto simp: st Cons Let_def Cons_eq_append_conv)
    qed
  qed
qed

lemma find_eqI:
  assumes "x \<in> set xs" and "P x" and "\<And>y. y \<in> set xs \<Longrightarrow> P y \<Longrightarrow> g y = g x"
  shows "map_option g (find P xs) = Some (g x)"
proof (cases "find P xs")
  case None
  with assms(1,2) show ?thesis by (simp add: find_None_iff)
next
  case (Some y)
  then have "y \<in> set xs" and "P y"
    by (auto simp: find_Some_iff)
  with Some assms(3) show ?thesis by simp
qed

text \<open>A whole match is found when there is one, and its captures are known when they are unique.\<close>

lemma regex_match_eqI:
  assumes "([], caps) \<in> set (regex_run ic (length s) r (s, []))"
    and "\<And>caps'. ([], caps') \<in> set (regex_run ic (length s) r (s, [])) \<Longrightarrow> caps' = caps"
  shows "regex_match ic r s = Some caps"
proof -
  have "map_option snd (find (\<lambda>st. fst st = []) (regex_run ic (length s) r (s, []))) = Some (snd ([] :: string, caps))"
  proof (rule find_eqI [OF assms(1)])
    fix st assume "st \<in> set (regex_run ic (length s) r (s, []))" and "fst st = []"
    then show "snd st = snd ([] :: string, caps)"
      using assms(2) [of "snd st"] by (metis prod.collapse snd_conv)
  qed simp
  then show ?thesis
    by (simp add: regex_match_def)
qed

lemma regex_match_None_iff: "regex_match ic r s = None \<longleftrightarrow> (\<forall>caps. ([], caps) \<notin> set (regex_run ic (length s) r (s, [])))"
  by (auto simp: regex_match_def find_None_iff)

lemma regex_match_SomeD: "regex_match ic r s = Some caps \<Longrightarrow> ([], caps) \<in> set (regex_run ic (length s) r (s, []))"
proof -
  assume "regex_match ic r s = Some caps"
  then obtain st where "find (\<lambda>st. fst st = []) (regex_run ic (length s) r (s, [])) = Some st" and c: "snd st = caps"
    by (auto simp: regex_match_def)
  then have "st \<in> set (regex_run ic (length s) r (s, []))" and "fst st = []"
    by (auto simp: find_Some_iff)
  with c show ?thesis
    by (metis prod.collapse)
qed

subsection \<open>Patterns without special characters\<close>

primrec letters :: "string \<Rightarrow> regex" where
  "letters [] = Nothing"
| "letters (c # cs) = Then_both (Letter c) (letters cs)"

lemma run_letters:
  "regex_run False n (letters w) (s, caps) = (if prefix w s then [(drop (length w) s, caps)] else [])"
proof (induction w arbitrary: s)
  case (Cons c w)
  then show ?case by (cases s) (auto simp: one_char_def)
qed simp

lemma regex_match_letters: "regex_match False (letters w) s = (if s = w then Some [] else None)"
  by (auto simp: regex_match_def run_letters prefix_def)

lemma quantified_letter: "s = [] \<or> \<not> special (hd s) \<Longrightarrow> quantified r s = (r, s)"
  by (cases s) (auto simp: special_def)

lemma pattern_seq_letters:
  "list_all (\<lambda>c. \<not> special c) w \<Longrightarrow> 2 * length w < n \<Longrightarrow> pattern_seq n k w = Some (letters w, k, [])"
proof (induction w arbitrary: n)
  case Nil
  then show ?case by (cases n) auto
next
  case (Cons c w)
  obtain m where n: "n = Suc (Suc m)" and m: "2 * length w < Suc m"
    using Cons.prems(2) by (cases n; cases "n - 1") auto
  have q: "quantified (Letter c) w = (Letter c, w)"
    using Cons.prems(1) by (intro quantified_letter) (cases w, auto)
  have atom: "pattern_atom (Suc m) k (c # w) = Some (Letter c, k, w)"
    using Cons.prems(1) by (auto simp: special_def)
  have "c \<noteq> CHR ''|'' \<and> c \<noteq> CHR '')''"
    using Cons.prems(1) by (auto simp: special_def)
  then show ?case
    using Cons.IH [OF _ m] Cons.prems(1) atom q by (simp add: n)
qed

lemma std_regex_letters: "list_all (\<lambda>c. \<not> special c) w \<Longrightarrow> std_regex w = Some (letters w)"
proof -
  assume w: "list_all (\<lambda>c. \<not> special c) w"
  have "pattern_seq (3 * length w + 2) 1 w = Some (letters w, 1, [])"
    by (rule pattern_seq_letters [OF w]) simp
  then show ?thesis
    by (simp add: std_regex_def numeral_3_eq_3)
qed

end
