(* ===== verification/Http_Text_Props.thy ===== *)
theory Http_Text_Props
  imports Http_Text
begin

section \<open>Properties of the text helpers\<close>

text \<open>
  Characters and hexadecimal digits, percent encoding and its inverse, splitting, and the paths that
  \<open>is_valid_path\<close> accepts.
\<close>

subsection \<open>Characters and numbers\<close>

lemma code_of_nat: "code_of c = int (of_char c)"
  by (simp add: code_of_def of_nat_of_char)

lemma code_of_range [simp]: "0 \<le> code_of c" "code_of c < 256"
  using nat_of_char_less_256 [of c] unfolding code_of_nat by linarith+

lemma is_hex_digit: "d < 16 \<Longrightarrow> is_hex (hex_digit True d) = Some (int d)"
proof -
  assume "d < 16"
  then have "d = 0 \<or> d = 1 \<or> d = 2 \<or> d = 3 \<or> d = 4 \<or> d = 5 \<or> d = 6 \<or> d = 7 \<or> d = 8 \<or> d = 9 \<or> d = 10
      \<or> d = 11 \<or> d = 12 \<or> d = 13 \<or> d = 14 \<or> d = 15"
    by arith
  then show ?thesis
    by (elim disjE) (simp_all add: is_hex_def hex_digit_def code_of_nat is_decimal_def)
qed

lemma hex_digit_plain:
  "d < 16 \<Longrightarrow> hex_digit True d \<noteq> NUL \<and> hex_digit True d \<noteq> CHR ''u''"
  using is_hex_digit [of d] by (auto simp: is_hex_def code_of_def is_decimal_def split: if_splits)

subsection \<open>The hexadecimal reader stays inside its string\<close>

text \<open>
  Which characters lie beyond the terminating zero makes no difference to the loop of \<open>from_hex_to_i\<close>:
  it does not look at them.
\<close>

lemma hex_loop_in_bounds:
  assumes "\<And>j. j \<le> length s \<Longrightarrow> get j = char_at s j" and "i \<le> length s"
  shows "hex_loop get cnt i val = hex_loop (char_at s) cnt i val"
  using assms(2)
proof (induction cnt arbitrary: i val)
  case (Suc cnt)
  show ?case
  proof (cases "i = length s")
    case True
    then show ?thesis
      using assms(1) [of i] by (simp add: char_at_def)
  next
    case False
    then show ?thesis
      using Suc assms(1) [of i] by (simp split: option.split)
  qed
qed simp

subsection \<open>Percent encoding\<close>

lemma from_hex_percent:
  "from_hex_to_i (CHR ''%'' # hex_digit True d # hex_digit True e # rest) 1 2 = Some (int (16 * d + e))"
  if "d < 16" "e < 16"
  using that by (simp add: from_hex_to_i_def char_at_def numeral_2_eq_2 is_hex_digit hex_digit_plain)

lemma decode_percent: "decode_url (percent c @ rest) p = c # decode_url rest p"
proof -
  let ?n = "of_char c :: nat"
  have n: "?n div 16 < 16" "?n mod 16 < 16"
    using nat_of_char_less_256 [of c] by (simp_all add: less_mult_imp_div_less)
  have "char_of (int (16 * (?n div 16) + ?n mod 16)) = c"
    by simp
  then show ?thesis
    using n from_hex_percent [OF n, of rest] hex_digit_plain [OF n(1)]
    by (simp add: percent_def Let_def)
qed

lemma decode_plain: "c \<noteq> CHR ''%'' \<Longrightarrow> c \<noteq> CHR ''+'' \<Longrightarrow> decode_url (c # rest) p = c # decode_url rest p"
  by simp

lemma decode_query_char: "decode_url (query_char c @ rest) p = c # decode_url rest p"
proof (cases "query_char c = percent c")
  case True
  then show ?thesis by (simp add: decode_percent)
next
  case False
  then have "query_char c = [c]" and "c \<noteq> CHR ''%''" and "c \<noteq> CHR ''+''"
    by (auto simp: query_char_def is_alnum_def is_decimal_def code_of_def split: if_splits)
  then show ?thesis
    using decode_plain by simp
qed

lemma decode_url_char:
  assumes "c \<noteq> CHR ''%''"
  shows "decode_url (url_char c @ rest) False = c # decode_url rest False"
proof -
  have pc: "percent (CHR '' '') = ''%20''" "percent (CHR ''+'') = ''%2B''" "percent CR = ''%0D''" "percent LF = ''%0A''"
    "percent (CHR 0x27) = ''%27''" "percent (CHR '','') = ''%2C''" "percent (CHR '';'') = ''%3B''"
    by (simp_all add: percent_def hex_digit_def char_of_eq_iff)
  show ?thesis
  proof (cases "url_char c = [c]")
    case True
    then show ?thesis using assms by simp
  next
    case False
    then have "url_char c = percent c"
      by (auto simp: url_char_def pc split: if_splits)
    then show ?thesis by (simp add: decode_percent)
  qed
qed

text \<open>
  Decoding a query parameter gives back what was encoded, for every string of bytes and whether or
  not plus signs stand for spaces; decoding an encoded URL does so up to its first zero byte
  when it has no percent sign of its own.
\<close>

theorem percent_encoding_roundtrip:
  "decode_url (encode_query_param s) p = s
   \<and> (CHR ''%'' \<notin> set (c_str s) \<longrightarrow> decode_url (encode_url s) False = c_str s)"
proof -
  have "decode_url (encode_query_param s) p = s"
    by (induction s) (simp_all add: encode_query_param_def decode_query_char)
  moreover have "decode_url (concat (map url_char w)) False = w" if "CHR ''%'' \<notin> set w" for w
    using that by (induction w) (auto simp: decode_url_char)
  ultimately show ?thesis
    by (simp add: encode_url_def)
qed

theorem percent_encoding_witness:
  "decode_url (encode_query_param ''a b&c'') True = ''a b&c'' \<and> decode_url (encode_url ''a b+c'') False = ''a b+c''"
  using percent_encoding_roundtrip [of "''a b&c''" True] percent_encoding_roundtrip [of "''a b+c''" True]
  by (simp add: c_str_def)

subsection \<open>Splitting\<close>

text \<open>The reference: cut at every delimiter, strip blanks from both ends, and drop what is empty.\<close>

fun pieces :: "char \<Rightarrow> string \<Rightarrow> string list" where
  "pieces d [] = [[]]"
| "pieces d (c # cs) = (if c = d then [] # pieces d cs else (c # hd (pieces d cs)) # tl (pieces d cs))"

definition strip :: "string \<Rightarrow> string" where
  "strip s = rev (dropWhile is_space_or_tab (rev (dropWhile is_space_or_tab s)))"

definition stripped :: "string \<Rightarrow> string list" where
  "stripped w = (if strip w = [] then [] else [strip w])"

lemma pieces_ne [simp]: "pieces d s \<noteq> []"
  by (induction s) auto

lemma pieces_append: "d \<notin> set u \<Longrightarrow> pieces d (u @ s) = (u @ hd (pieces d s)) # tl (pieces d s)"
  by (induction u) auto

lemma trim_left_eq: "i \<le> length s \<Longrightarrow> trim_left s i = i + length (takeWhile is_space_or_tab (drop i s))"
proof (induction s i rule: trim_left.induct)
  case (1 s i)
  show ?case
  proof (cases "i < length s")
    case True
    then have "drop i s = s ! i # drop (Suc i) s"
      by (rule Cons_nth_drop_Suc [symmetric])
    then show ?thesis
      using 1 True by (subst trim_left.simps) simp
  next
    case False
    then show ?thesis
      using 1 by (subst trim_left.simps) simp
  qed
qed

lemma trim_right_eq: "i \<le> length s \<Longrightarrow> trim_right s i = length (dropWhile is_space_or_tab (rev (take i s)))"
  by (induction i) (simp_all add: take_Suc_conv_app_nth)

lemma core_split:
  assumes "\<not> list_all is_space_or_tab w"
  obtains a m b where "w = a @ m @ b" and "list_all is_space_or_tab a" and "list_all is_space_or_tab b"
    and "m \<noteq> []" and "\<not> is_space_or_tab (hd m)" and "\<not> is_space_or_tab (List.last m)"
proof -
  let ?P = is_space_or_tab
  define x where "x = dropWhile ?P w"
  have x: "x \<noteq> []" "\<not> ?P (hd x)"
    using assms hd_dropWhile [of ?P w] by (auto simp: x_def dropWhile_eq_Nil_conv list_all_iff)
  define m where "m = rev (dropWhile ?P (rev x))"
  define b where "b = rev (takeWhile ?P (rev x))"
  have xmb: "x = m @ b"
    by (metis b_def m_def rev_append rev_rev_ident takeWhile_dropWhile_id)
  have b: "list_all ?P b"
    by (auto simp: b_def list_all_iff dest: set_takeWhileD)
  have m: "m \<noteq> []"
    using x b xmb by (cases b) auto
  have "List.last m = hd (dropWhile ?P (rev x))"
    using m by (simp add: m_def last_rev)
  then have l: "\<not> ?P (List.last m)"
    using m hd_dropWhile [of ?P "rev x"] by (simp add: m_def)
  show ?thesis
  proof (rule that)
    show "w = takeWhile ?P w @ m @ b"
      by (metis x_def xmb takeWhile_dropWhile_id)
    show "list_all ?P (takeWhile ?P w)"
      by (auto simp: list_all_iff dest: set_takeWhileD)
    show "\<not> ?P (hd m)"
      using x m xmb by simp
  qed (fact b m l)+
qed

lemma takeWhile_all: "list_all P a \<Longrightarrow> takeWhile P (a @ m) = a @ takeWhile P m"
  by (induction a) auto

lemma dropWhile_all: "list_all P a \<Longrightarrow> dropWhile P (a @ m) = dropWhile P m"
  by (induction a) auto

lemma dropWhile_hd: "m \<noteq> [] \<Longrightarrow> \<not> P (hd m) \<Longrightarrow> dropWhile P (m @ b) = m @ b \<and> takeWhile P (m @ b) = []"
  by (cases m) auto

lemma piece_eq:
  assumes "beg \<le> i" and "i \<le> length s"
  shows "piece s beg i = stripped (take (i - beg) (drop beg s))"
proof -
  let ?P = is_space_or_tab
  define w where "w = take (i - beg) (drop beg s)"
  have db: "drop beg s = w @ drop i s" and ti: "take i s = take beg s @ w"
    using assms by (auto simp: w_def) (metis append_take_drop_id drop_drop le_add_diff_inverse2, metis le_add_diff_inverse take_add)
  have len: "beg + length w = i"
    using assms by (simp add: w_def)
  have left: "trim_left s beg = beg + length (takeWhile ?P (w @ drop i s))"
    using assms by (simp add: trim_left_eq db)
  have right: "trim_right s i = length (dropWhile ?P (rev w @ rev (take beg s)))"
    using assms by (simp add: trim_right_eq ti)
  show ?thesis
  proof (cases "list_all ?P w")
    case True
    then have "length w \<le> length (takeWhile ?P (w @ drop i s))"
      by (simp add: takeWhile_all)
    moreover have "length (dropWhile ?P (rev w @ rev (take beg s))) \<le> beg"
      using True length_dropWhile_le [of ?P "rev (take beg s)"] by (simp add: dropWhile_all)
    moreover have "strip w = []"
      using dropWhile_all [OF True, of "[]"] by (simp add: strip_def del: dropWhile_eq_Nil_conv)
    ultimately show ?thesis
      using len by (simp add: piece_def trim_def left right stripped_def flip: w_def)
  next
    case False
    then obtain a m b where w: "w = a @ m @ b" and ab: "list_all ?P a" "list_all ?P (rev b)" and m: "m \<noteq> []" "\<not> ?P (hd m)" "\<not> ?P (List.last m)"
      by (rule core_split) auto
    have rm: "rev m \<noteq> []" "\<not> ?P (hd (rev m))"
      using m by (simp_all add: hd_rev)
    have l: "trim_left s beg = beg + length a"
      using ab m dropWhile_hd [of m ?P] by (simp add: left w takeWhile_all)
    have r: "trim_right s i = beg + length a + length m"
      using ab m assms len dropWhile_hd [of "rev m" ?P, OF rm] by (simp add: right w dropWhile_all)
    have "strip w = m"
      using ab m dropWhile_hd [of m ?P, OF m(1,2)] dropWhile_hd [of "rev m" ?P, OF rm, of "[]"] by (simp add: strip_def w dropWhile_all)
    moreover have "drop (beg + length a) s = m @ b @ drop i s"
      using drop_drop [of "length a" beg s] by (simp add: db w add.commute)
    ultimately show ?thesis
      using m by (simp add: piece_def trim_def l r stripped_def flip: w_def)
  qed
qed

lemma split_loop_eq:
  assumes "beg \<le> i" and "i \<le> length s" and "d \<notin> set (take (i - beg) (drop beg s))"
  shows "split_loop s d i beg = concat (map stripped (pieces d (drop beg s)))"
  using assms
proof (induction s d i beg rule: split_loop.induct)
  case (1 s d i beg)
  define w where "w = take (i - beg) (drop beg s)"
  have db: "drop beg s = w @ drop i s"
    using "1.prems" by (auto simp: w_def) (metis append_take_drop_id drop_drop le_add_diff_inverse2)
  have p: "pieces d (drop beg s) = (w @ hd (pieces d (drop i s))) # tl (pieces d (drop i s))"
    using "1.prems"(3) unfolding w_def [symmetric] by (simp add: db pieces_append)
  show ?case
  proof (cases "i < length s")
    case True
    have di: "drop i s = s ! i # drop (Suc i) s"
      using True by (rule Cons_nth_drop_Suc [symmetric])
    show ?thesis
    proof (cases "s ! i = d")
      case d: True
      then show ?thesis
        using "1.IH"(1) [OF True d] True "1.prems"
        by (subst split_loop.simps) (simp add: p di piece_eq flip: w_def)
    next
      case d: False
      have "take (Suc i - beg) (drop beg s) = w @ [s ! i]"
        using "1.prems" True by (simp add: w_def Suc_diff_le take_Suc_conv_app_nth)
      then show ?thesis
        using "1.IH"(2) [OF True d] True d "1.prems"
        by (subst split_loop.simps) (simp flip: w_def)
    qed
  next
    case False
    then have i: "i = length s"
      using "1.prems" by simp
    show ?thesis
    proof (cases "i = 0")
      case True
      then show ?thesis
        using i by (subst split_loop.simps) (simp add: stripped_def strip_def)
    next
      case z: False
      have "w = drop beg s"
        by (simp add: w_def i)
      then show ?thesis
        using z i "1.prems" p by (subst split_loop.simps) (simp add: piece_eq)
    qed
  qed
qed

lemma split_eq: "split s d = concat (map stripped (pieces d s))"
  using split_loop_eq [of 0 0 s d] by (simp add: split_def)

subsection \<open>Paths\<close>

text \<open>
  The components of a path are the non-empty pieces between slashes. \<open>depth\<close> is the number of
  directories a sequence of components descends below where it starts, as an integer.
\<close>

definition components :: "string \<Rightarrow> string list" where
  "components path = filter (\<lambda>w. w \<noteq> []) (pieces (CHR ''/'') path)"

definition depth_of :: "string \<Rightarrow> int" where
  "depth_of w = (if w = ''.'' then 0 else if w = ''..'' then -1 else 1)"

definition depth :: "string list \<Rightarrow> int" where
  "depth cs = sum_list (map depth_of cs)"

lemma components_slashes: "components (dropWhile (\<lambda>c. c = CHR ''/'') s) = components s"
  by (induction s) (auto simp: components_def)

lemma components_cons:
  assumes "s \<noteq> []" and "hd s \<noteq> CHR ''/''"
  shows "components s = takeWhile (\<lambda>c. c \<noteq> CHR ''/'') s # components (dropWhile (\<lambda>c. c \<noteq> CHR ''/'') s)"
proof -
  let ?P = "\<lambda>c. c \<noteq> CHR ''/''"
  have n: "CHR ''/'' \<notin> set (takeWhile ?P s)"
    by (auto dest: set_takeWhileD)
  have ne: "takeWhile ?P s \<noteq> []"
    using assms by (cases s) auto
  have "pieces (CHR ''/'') s
      = (takeWhile ?P s @ hd (pieces (CHR ''/'') (dropWhile ?P s))) # tl (pieces (CHR ''/'') (dropWhile ?P s))"
    using pieces_append [OF n, of "dropWhile ?P s"] by simp
  moreover have "hd (pieces (CHR ''/'') (dropWhile ?P s)) = []"
  proof (cases "dropWhile ?P s")
    case Nil
    show ?thesis unfolding Nil by simp
  next
    case (Cons c cs)
    then have "c = CHR ''/''"
      using hd_dropWhile [of ?P s] by simp
    with Cons show ?thesis by simp
  qed
  moreover obtain u us where "pieces (CHR ''/'') (dropWhile ?P s) = u # us"
    by (meson list.exhaust pieces_ne)
  ultimately show ?thesis
    using ne by (simp add: components_def)
qed

lemma prefixes_depth_Cons:
  "(\<forall>cs. prefix cs (w # ws) \<longrightarrow> 0 \<le> n + depth cs) \<longleftrightarrow>
     0 \<le> n \<and> (\<forall>cs. prefix cs ws \<longrightarrow> 0 \<le> (n + depth_of w) + depth cs)" (is "?l \<longleftrightarrow> ?r")
proof
  assume l: ?l
  have "0 \<le> (n + depth_of w) + depth cs" if "prefix cs ws" for cs
    using l [rule_format, of "w # cs"] that by (simp add: depth_def)
  moreover have "0 \<le> n"
    using l [rule_format, of "[]"] by (simp add: depth_def)
  ultimately show ?r by blast
next
  assume r: ?r
  show ?l
  proof (intro allI impI)
    fix cs assume "prefix cs (w # ws)"
    then show "0 \<le> n + depth cs"
      using r by (cases cs) (auto simp: depth_def)
  qed
qed

lemma path_loop_depth:
  "s = [] \<or> hd s \<noteq> CHR ''/'' \<Longrightarrow>
     path_loop level s \<longleftrightarrow> (\<forall>cs. prefix cs (components s) \<longrightarrow> 0 \<le> int level + depth cs)"
proof (induction level s rule: path_loop.induct)
  case (1 level s)
  show ?case
  proof (cases "s = []")
    case True
    then show ?thesis
      by (subst path_loop.simps) (simp add: components_def depth_def)
  next
    case False
    let ?w = "takeWhile (\<lambda>c. c \<noteq> CHR ''/'') s"
    let ?t = "dropWhile (\<lambda>c. c \<noteq> CHR ''/'') s"
    let ?rest = "dropWhile (\<lambda>c. c = CHR ''/'') ?t"
    have c: "components s = ?w # components ?rest"
      using components_cons [OF False] "1.prems" False by (simp add: components_slashes)
    have h: "?rest = [] \<or> hd ?rest \<noteq> CHR ''/''"
      using hd_dropWhile [of "\<lambda>c. c = CHR ''/''" ?t] by blast
    have p: "(\<forall>cs. prefix cs (components s) \<longrightarrow> 0 \<le> int level + depth cs)
        \<longleftrightarrow> (\<forall>cs. prefix cs (components ?rest) \<longrightarrow> 0 \<le> (int level + depth_of ?w) + depth cs)"
      unfolding c prefixes_depth_Cons by simp
    consider "?w = ''.''" | "?w = ''..''" "level = 0" | "?w = ''..''" "level \<noteq> 0" | "?w \<noteq> ''.''" "?w \<noteq> ''..''"
      by blast
    then show ?thesis
    proof cases
      case w: 1
      then show ?thesis
        using "1.IH"(1) [OF False refl refl w h] False unfolding p
        by (subst path_loop.simps) (simp add: depth_of_def)
    next
      case w: 2
      then have "\<not> path_loop level s"
        using False by (subst path_loop.simps) simp
      moreover have "\<not> (\<forall>cs. prefix cs (components ?rest) \<longrightarrow> 0 \<le> (int level + depth_of ?w) + depth cs)"
        using w by (auto simp: depth_of_def depth_def intro!: exI [of _ "[]"])
      ultimately show ?thesis
        unfolding p by blast
    next
      case w: 3
      have "?w \<noteq> ''.''"
        using w by simp
      then show ?thesis
        using "1.IH"(2) [OF False refl refl _ w h] False w unfolding p
        by (subst path_loop.simps) (simp add: depth_of_def of_nat_diff)
    next
      case w: 4
      then show ?thesis
        using "1.IH"(3) [OF False refl refl w h] False unfolding p
        by (subst path_loop.simps) (simp add: depth_of_def algebra_simps)
    qed
  qed
qed

text \<open>
  \<open>is_valid_path\<close> accepts a path exactly when no leading part of it climbs above the directory it
  starts in, however slashes are repeated and whatever dots occur in names.
\<close>

theorem valid_path_stays_inside:
  "is_valid_path path \<longleftrightarrow> (\<forall>cs. prefix cs (components path) \<longrightarrow> 0 \<le> depth cs)"
proof -
  let ?s = "dropWhile (\<lambda>c. c = CHR ''/'') path"
  have "?s = [] \<or> hd ?s \<noteq> CHR ''/''"
    using hd_dropWhile [of "\<lambda>c. c = CHR ''/''" path] by blast
  then show ?thesis
    using path_loop_depth [of ?s 0] by (simp add: is_valid_path_def components_slashes)
qed

theorem valid_path_witness:
  "\<not> is_valid_path ''/a/../../b'' \<and> is_valid_path ''/a//../b..''"
  using valid_path_stays_inside [of "''/a/../../b''"] by (simp add: is_valid_path_def path_loop.simps)

end
