(* ===== verification/Http_Headers.thy ===== *)
theory Http_Headers
  imports Http_Text_Props
begin

section \<open>Headers, requests and responses: \<open>httplib.h\<close>\<close>

subsection \<open>Multimaps\<close>

text \<open>
  A \<open>std::multimap\<close> is the list of its entries in the order of iteration, sorted by the order
  \<open>lt\<close> of its keys. \<open>emplace\<close> puts a new entry behind those with an equivalent key.
\<close>

primrec mm_emplace :: "('k \<Rightarrow> 'k \<Rightarrow> bool) \<Rightarrow> 'k \<Rightarrow> 'v \<Rightarrow> ('k \<times> 'v) list \<Rightarrow> ('k \<times> 'v) list" where
  "mm_emplace lt k v [] = [(k, v)]"
| "mm_emplace lt k v (e # es) = (if lt k (fst e) then (k, v) # e # es else e # mm_emplace lt k v es)"

definition mm_position :: "('k \<Rightarrow> 'k \<Rightarrow> bool) \<Rightarrow> 'k \<Rightarrow> ('k \<times> 'v) list \<Rightarrow> nat" where
  "mm_position lt k es = length (takeWhile (\<lambda>e. \<not> lt k (fst e)) es)"

definition mm_equal_range :: "('k \<Rightarrow> 'k \<Rightarrow> bool) \<Rightarrow> 'k \<Rightarrow> ('k \<times> 'v) list \<Rightarrow> 'v list" where
  "mm_equal_range lt k es = map snd (filter (\<lambda>e. \<not> lt k (fst e) \<and> \<not> lt (fst e) k) es)"

definition mm_erase :: "('k \<Rightarrow> 'k \<Rightarrow> bool) \<Rightarrow> 'k \<Rightarrow> ('k \<times> 'v) list \<Rightarrow> ('k \<times> 'v) list" where
  "mm_erase lt k es = filter (\<lambda>e. lt k (fst e) \<or> lt (fst e) k) es"

definition mm_sorted :: "('k \<Rightarrow> 'k \<Rightarrow> bool) \<Rightarrow> ('k \<times> 'v) list \<Rightarrow> bool" where
  "mm_sorted lt es = sorted_wrt (\<lambda>a b. \<not> lt (fst b) (fst a)) es"

text \<open>What the library asks of the order of a multimap, and what the multimap then promises.\<close>

locale key_order =
  fixes lt :: "'k \<Rightarrow> 'k \<Rightarrow> bool"
  assumes irrefl: "\<not> lt a a"
    and trans: "lt a b \<Longrightarrow> lt b c \<Longrightarrow> lt a c"
    and incomparable_trans: "\<not> lt a b \<Longrightarrow> \<not> lt b a \<Longrightarrow> \<not> lt b c \<Longrightarrow> \<not> lt c b \<Longrightarrow> \<not> lt a c"
begin

lemma not_less_trans: "\<not> lt b a \<Longrightarrow> \<not> lt c b \<Longrightarrow> \<not> lt c a"
  using trans incomparable_trans by metis

lemma equivalent_less:
  assumes "\<not> lt a b" and "\<not> lt b a"
  shows "lt a c \<longleftrightarrow> lt b c" and "lt c a \<longleftrightarrow> lt c b"
  using assms not_less_trans trans by metis+

lemma emplace_sorted: "mm_sorted lt es \<Longrightarrow> mm_sorted lt (mm_emplace lt k v es)"
proof (induction es)
  case (Cons e es)
  have set_emplace: "set (mm_emplace lt k v es) = insert (k, v) (set es)"
    by (induction es) auto
  show ?case
  proof (cases "lt k (fst e)")
    case True
    have "\<not> lt (fst d) k" if "d \<in> set (e # es)" for d
    proof
      assume "lt (fst d) k"
      then have "lt (fst d) (fst e)"
        using True by (rule trans)
      then show False
        using that Cons.prems irrefl by (auto simp: mm_sorted_def)
    qed
    then show ?thesis
      using True Cons.prems by (simp add: mm_sorted_def)
  next
    case False
    then show ?thesis
      using Cons set_emplace by (auto simp: mm_sorted_def)
  qed
qed (simp add: mm_sorted_def)

lemma erase_sorted: "mm_sorted lt es \<Longrightarrow> mm_sorted lt (mm_erase lt k es)"
  by (simp add: mm_sorted_def mm_erase_def sorted_wrt_filter)

lemma equal_range_emplace_other:
  "lt j k \<or> lt k j \<Longrightarrow> mm_equal_range lt j (mm_emplace lt k v es) = mm_equal_range lt j es"
  by (induction es) (auto simp: mm_equal_range_def)

lemma equal_range_emplace:
  assumes "mm_sorted lt es" and "\<not> lt j k" and "\<not> lt k j"
  shows "mm_equal_range lt j (mm_emplace lt k v es) = mm_equal_range lt j es @ [v]"
  using assms(1)
proof (induction es)
  case Nil
  then show ?case using assms by (simp add: mm_equal_range_def)
next
  case (Cons e es)
  show ?case
  proof (cases "lt k (fst e)")
    case True
    then have e: "lt j (fst e)"
      using equivalent_less(1) [OF assms(2,3)] by blast
    have "lt j (fst d)" if "d \<in> set (e # es)" for d
    proof (cases "d = e")
      case False
      then have "\<not> lt (fst d) (fst e)"
        using that Cons.prems by (simp add: mm_sorted_def)
      then show ?thesis
        using not_less_trans e by blast
    qed (simp add: e)
    then have "filter (\<lambda>d. \<not> lt j (fst d) \<and> \<not> lt (fst d) j) (e # es) = []"
      by (simp add: filter_empty_conv)
    then show ?thesis
      using True assms by (simp add: mm_equal_range_def)
  next
    case False
    then show ?thesis
      using Cons by (simp add: mm_equal_range_def mm_sorted_def)
  qed
qed

lemma equal_range_erase [simp]: "mm_equal_range lt k (mm_erase lt k es) = []"
  by (auto simp: mm_equal_range_def mm_erase_def filter_empty_conv)

lemma equal_range_erase_other:
  "lt j k \<or> lt k j \<Longrightarrow> mm_equal_range lt j (mm_erase lt k es) = mm_equal_range lt j es"
proof (induction es)
  case (Cons e es)
  then show ?case
    using equivalent_less [of j "fst e" k] by (auto simp: mm_equal_range_def mm_erase_def)
qed (simp add: mm_equal_range_def mm_erase_def)

end

fun lex_less :: "(char \<Rightarrow> int) \<Rightarrow> string \<Rightarrow> string \<Rightarrow> bool" where
  "lex_less f s [] = False"
| "lex_less f [] (d # ds) = True"
| "lex_less f (c # cs) (d # ds) = (f c < f d \<or> f c = f d \<and> lex_less f cs ds)"

lemma lex_less_irrefl: "\<not> lex_less f s s"
  by (induction s) auto

lemma lex_less_trans: "lex_less f s t \<Longrightarrow> lex_less f t u \<Longrightarrow> lex_less f s u"
proof (induction f s t arbitrary: u rule: lex_less.induct)
  case (3 f c cs d ds)
  then show ?case by (cases u) auto
qed (auto elim: lex_less.elims)

lemma lex_less_equiv: "\<not> lex_less f s t \<and> \<not> lex_less f t s \<longleftrightarrow> map f s = map f t"
  by (induction f s t rule: lex_less.induct) (auto dest: sym elim: lex_less.elims)

text \<open>Header names compare without regard to the case of letters, parameter names byte by byte.\<close>

definition ci :: "string \<Rightarrow> string \<Rightarrow> bool" where
  "ci = lex_less (\<lambda>c. code_of (to_lower_char c))"

definition str_less :: "string \<Rightarrow> string \<Rightarrow> bool" where
  "str_less = lex_less code_of"

interpretation headers: key_order ci
proof
  show "\<not> ci a c" if "\<not> ci a b" "\<not> ci b a" "\<not> ci b c" "\<not> ci c b" for a b c
    using that lex_less_equiv unfolding ci_def by metis
qed (auto simp: ci_def lex_less_irrefl intro: lex_less_trans)

interpretation params: key_order str_less
proof
  show "\<not> str_less a c" if "\<not> str_less a b" "\<not> str_less b a" "\<not> str_less b c" "\<not> str_less c b" for a b c
    using that lex_less_equiv unfolding str_less_def by metis
qed (auto simp: str_less_def lex_less_irrefl intro: lex_less_trans)

definition same_name :: "string \<Rightarrow> string \<Rightarrow> bool" where
  "same_name a b \<longleftrightarrow> map to_lower_char a = map to_lower_char b"

lemma inj_code_of: "inj code_of"
  by (rule injI) (simp add: code_of_nat)

lemma ci_equiv: "\<not> ci a b \<and> \<not> ci b a \<longleftrightarrow> same_name a b"
proof -
  have "map (\<lambda>c. code_of (to_lower_char c)) a = map (\<lambda>c. code_of (to_lower_char c)) b
      \<longleftrightarrow> map code_of (map to_lower_char a) = map code_of (map to_lower_char b)"
    by (simp add: comp_def)
  then show ?thesis
    unfolding ci_def lex_less_equiv same_name_def by (metis inj_code_of inj_map_eq_map)
qed

subsection \<open>Requests and responses\<close>

text \<open>
  \<open>Request\<close> and \<open>Response\<close> with the members the server uses. Nothing in the program sets a content
  provider (\<open>set_content_provider\<close> and its variants have no caller), so \<open>content_provider_\<close> stays empty
  and \<open>content_length_\<close> stays 0 and the members are left out, with the branches that need them. The
  status -1 says that none was chosen.
\<close>

record MultipartFormData =
  mp_name :: string
  mp_content :: string
  mp_filename :: string
  mp_content_type :: string

type_synonym Headers = "(string \<times> string) list"
type_synonym Params = "(string \<times> string) list"
type_synonym Files = "(string \<times> MultipartFormData) list"
type_synonym Range = "int \<times> int"

record Request =
  req_method :: string
  req_path :: string
  req_headers :: Headers
  req_body :: string
  remote_addr :: string
  remote_port :: int
  req_version :: string
  req_target :: string
  req_params :: Params
  req_files :: Files
  req_ranges :: "Range list"
  req_matches :: "(nat \<times> capture) list"

record Response =
  res_version :: string
  res_status :: int
  res_headers :: Headers
  res_body :: string

definition new_Request :: Request where
  "new_Request =
     \<lparr>req_method = [], req_path = [], req_headers = [], req_body = [], remote_addr = [], remote_port = -1,
      req_version = [], req_target = [], req_params = [], req_files = [], req_ranges = [], req_matches = []\<rparr>"

definition new_Response :: Response where
  "new_Response = \<lparr>res_version = [], res_status = -1, res_headers = [], res_body = []\<rparr>"

definition has_header :: "Headers \<Rightarrow> string \<Rightarrow> bool" where
  "has_header headers key \<longleftrightarrow> mm_equal_range ci key headers \<noteq> []"

text \<open>The first value of a header, as a C string; the server asks for no other.\<close>

definition get_header_value :: "Headers \<Rightarrow> string \<Rightarrow> string" where
  "get_header_value headers key = (case mm_equal_range ci key headers of v # _ \<Rightarrow> c_str v | [] \<Rightarrow> [])"

definition set_header :: "string \<Rightarrow> string \<Rightarrow> Headers \<Rightarrow> Headers" where
  "set_header key val headers =
     (if \<not> has_crlf key \<and> \<not> has_crlf val then mm_emplace ci key val headers else headers)"

abbreviation res_set_header :: "string \<Rightarrow> string \<Rightarrow> Response \<Rightarrow> Response" where
  "res_set_header key val res \<equiv> res\<lparr>res_headers := set_header key val (res_headers res)\<rparr>"

definition set_content :: "string \<Rightarrow> string \<Rightarrow> Response \<Rightarrow> Response" where
  "set_content s content_type res =
     res\<lparr>res_body := s,
         res_headers := set_header ''Content-Type'' content_type (mm_erase ci ''Content-Type'' (res_headers res))\<rparr>"

definition set_redirect :: "string \<Rightarrow> int \<Rightarrow> Response \<Rightarrow> Response" where
  "set_redirect url stat res =
     (if has_crlf url then res
      else (res_set_header ''Location'' url res)\<lparr>res_status := (if 300 \<le> stat \<and> stat < 400 then stat else 302)\<rparr>)"

definition is_multipart_form_data :: "Request \<Rightarrow> bool" where
  "is_multipart_form_data req \<longleftrightarrow> prefix ''multipart/form-data'' (get_header_value (req_headers req) ''Content-Type'')"

subsection \<open>Numbers in text\<close>

text \<open>
  \<open>strtoull\<close> with base 10 and \<open>strtoul\<close> with base 16: leading blanks, a sign, digits; a value that
  is too large becomes the largest one, a minus sign negates in the unsigned type. \<open>None\<close> says
  that nothing was converted. \<open>stoll\<close> throws (\<open>None\<close>) when the value does not fit.
\<close>

definition value_of :: "int \<Rightarrow> (char \<Rightarrow> int option) \<Rightarrow> string \<Rightarrow> int" where
  "value_of base digit ds = foldl (\<lambda>v c. v * base + the (digit c)) 0 ds"

definition unsigned_value :: "bool \<Rightarrow> int \<Rightarrow> u64" where
  "unsigned_value neg v = (if v \<ge> 2 ^ 64 then - 1 else if neg then - word_of_int v else word_of_int v)"

definition signed_text :: "string \<Rightarrow> bool \<times> string" where
  "signed_text s =
     (let t = dropWhile is_white (c_str s) in
      if t \<noteq> [] \<and> hd t = CHR ''-'' then (True, tl t) else if t \<noteq> [] \<and> hd t = CHR ''+'' then (False, tl t) else (False, t))"

definition strtoull :: "string \<Rightarrow> u64" where
  "strtoull s =
     (case signed_text s of (neg, t) \<Rightarrow>
        let ds = takeWhile is_decimal t in unsigned_value neg (value_of 10 is_hex ds))"

definition strtoul16 :: "string \<Rightarrow> u64 option" where
  "strtoul16 s =
     (case signed_text s of (neg, t) \<Rightarrow>
        let t1 = (if length t > 2 \<and> t ! 0 = CHR ''0'' \<and> (t ! 1 = CHR ''x'' \<or> t ! 1 = CHR ''X'') \<and> is_hex (t ! 2) \<noteq> None
                  then drop 2 t else t);
            ds = takeWhile (\<lambda>c. is_hex c \<noteq> None) t1 in
        if ds = [] then None else Some (unsigned_value neg (value_of 16 is_hex ds)))"

definition stoll :: "string \<Rightarrow> int option" where
  "stoll ds = (let v = value_of 10 is_hex ds in if v < 2 ^ 63 then Some v else None)"

definition get_header_value_u64 :: "Headers \<Rightarrow> string \<Rightarrow> u64" where
  "get_header_value_u64 headers key = (case mm_equal_range ci key headers of v # _ \<Rightarrow> strtoull v | [] \<Rightarrow> 0)"

end
