(* ===== verification/Http_Stream.thy ===== *)
theory Http_Stream
  imports Http_Headers
begin

section \<open>Sockets, streams and lines: \<open>httplib.h\<close>\<close>

subsection \<open>A connection\<close>

text \<open>
  What a connection will do is a script of events: data arrives in pieces, nothing happens for a
  number of milliseconds, the peer resets the connection, or the descriptor becomes unusable;
  the end of the script is the end of the stream. Time is a clock in milliseconds that moves while
  the server waits. What the peer's side of the socket takes when the server sends is a second
  script; when it is used up everything is taken. \<open>sock_out\<close> records what was sent. System calls
  that a signal interrupts are repeated (\<open>handle_EINTR\<close>), so interruptions are not events.
\<close>

datatype peer_event = Data string | Pause nat | Reset | Broken

datatype send_event = Takes nat | Blocked | Send_error

record socket =
  sock_fd :: int
  sock_in :: "peer_event list"
  sock_clock :: nat
  sock_sends :: "send_event list"
  sock_out :: string

definition FD_SETSIZE :: int where "FD_SETSIZE = 1024"
definition read_timeout :: nat where "read_timeout = 5000"
definition read_buff_size :: nat where "read_buff_size = 4096"

text \<open>
  \<open>wait_data t es\<close> waits at most \<open>t\<close> milliseconds: the time that passed, the result of \<open>select\<close>, and
  the events that are left.
\<close>

fun wait_data :: "nat \<Rightarrow> peer_event list \<Rightarrow> nat \<times> int \<times> peer_event list" where
  "wait_data t [] = (0, 1, [])"
| "wait_data t (Data s # es) = (if s = [] then wait_data t es else (0, 1, Data s # es))"
| "wait_data t (Pause n # es) =
     (if n \<le> t then (case wait_data (t - n) es of (e, r, es') \<Rightarrow> (n + e, r, es')) else (t, 0, Pause (n - t) # es))"
| "wait_data t (Reset # es) = (0, 1, Reset # es)"
| "wait_data t (Broken # es) = (0, -1, Broken # es)"

definition select_read :: "nat \<Rightarrow> socket \<Rightarrow> int \<times> socket" where
  "select_read ms s =
     (if sock_fd s \<ge> FD_SETSIZE then (1, s)
      else case wait_data ms (sock_in s) of (e, r, es) \<Rightarrow> (r, s\<lparr>sock_in := es, sock_clock := sock_clock s + e\<rparr>))"

text \<open>
  \<open>recv\<close> on a blocking socket whose receive timeout is the read timeout: \<open>None\<close> is -1, \<open>Some []\<close> is
  the end of the stream.
\<close>

definition read_socket :: "nat \<Rightarrow> socket \<Rightarrow> string option \<times> socket" where
  "read_socket len s =
     (case wait_data read_timeout (sock_in s) of (e, r, es) \<Rightarrow>
        let s1 = s\<lparr>sock_in := es, sock_clock := sock_clock s + e\<rparr> in
        if r = 1
        then (case es of
                [] \<Rightarrow> (Some [], s1)
              | Data w # es' \<Rightarrow>
                  if length w \<le> len then (Some w, s1\<lparr>sock_in := es'\<rparr>)
                  else (Some (take len w), s1\<lparr>sock_in := Data (drop len w) # es'\<rparr>)
              | _ \<Rightarrow> (None, s1))
        else (None, s1))"

definition send_socket :: "string \<Rightarrow> socket \<Rightarrow> nat option \<times> socket" where
  "send_socket w s =
     (case sock_sends s of
        [] \<Rightarrow> (Some (length w), s\<lparr>sock_out := sock_out s @ w\<rparr>)
      | Takes k # es \<Rightarrow>
          (Some (min k (length w)), s\<lparr>sock_sends := es, sock_out := sock_out s @ take (min k (length w)) w\<rparr>)
      | _ # es \<Rightarrow> (None, s\<lparr>sock_sends := es\<rparr>))"

fun elapse :: "nat \<Rightarrow> peer_event list \<Rightarrow> peer_event list" where
  "elapse k (Pause n # es) = (if n \<le> k then elapse (k - n) es else Pause (n - k) # es)"
| "elapse k es = es"

definition sleep_ms :: "nat \<Rightarrow> socket \<Rightarrow> socket" where
  "sleep_ms k s = s\<lparr>sock_in := elapse k (sock_in s), sock_clock := sock_clock s + k\<rparr>"

subsection \<open>\<open>SocketStream\<close>\<close>

text \<open>
  \<open>read_buff\<close> holds the \<open>read_buff_content_size_\<close> bytes that the last \<open>recv\<close> put into the buffer. A request
  for more than \<open>SSIZE_MAX\<close> bytes, which the code cuts down, does not occur.
\<close>

record SocketStream =
  ss_sock :: socket
  read_buff :: string
  read_buff_off :: nat

definition new_SocketStream :: "socket \<Rightarrow> SocketStream" where
  "new_SocketStream s = \<lparr>ss_sock = s, read_buff = [], read_buff_off = 0\<rparr>"

definition ss_read :: "nat \<Rightarrow> SocketStream \<Rightarrow> string option \<times> SocketStream" where
  "ss_read len st =
     (if read_buff_off st < length (read_buff st)
      then let w = take len (drop (read_buff_off st) (read_buff st)) in
           (Some w, st\<lparr>read_buff_off := read_buff_off st + length w\<rparr>)
      else case select_read read_timeout (ss_sock st) of (val, s1) \<Rightarrow>
        if val \<le> 0 then (None, st\<lparr>ss_sock := s1\<rparr>)
        else if len < read_buff_size
        then (case read_socket read_buff_size s1 of
                (None, s2) \<Rightarrow> (None, \<lparr>ss_sock = s2, read_buff = [], read_buff_off = 0\<rparr>)
              | (Some w, s2) \<Rightarrow>
                  if length w \<le> len then (Some w, \<lparr>ss_sock = s2, read_buff = [], read_buff_off = 0\<rparr>)
                  else (Some (take len w), \<lparr>ss_sock = s2, read_buff = w, read_buff_off = len\<rparr>))
        else (case read_socket len s1 of
                (r, s2) \<Rightarrow> (r, \<lparr>ss_sock = s2, read_buff = [], read_buff_off = 0\<rparr>)))"

definition ss_write :: "string \<Rightarrow> SocketStream \<Rightarrow> nat option \<times> SocketStream" where
  "ss_write w st = (case send_socket w (ss_sock st) of (r, s) \<Rightarrow> (r, st\<lparr>ss_sock := s\<rparr>))"

text \<open>
  The bytes that can still be read before the stream ends or a read fails, and whether it is the
  end of the stream that stops them. A read fails when nothing comes for longer than the timeout.
\<close>

fun flow :: "nat \<Rightarrow> peer_event list \<Rightarrow> string \<times> bool" where
  "flow t [] = ([], True)"
| "flow t (Data s # es) = (if s = [] then flow t es else (s @ fst (flow read_timeout es), snd (flow read_timeout es)))"
| "flow t (Pause n # es) = (if n \<le> t then flow (t - n) es else ([], False))"
| "flow t (Reset # es) = ([], False)"
| "flow t (Broken # es) = ([], False)"

definition stream_view :: "SocketStream \<Rightarrow> string \<times> bool" where
  "stream_view st =
     (drop (read_buff_off st) (read_buff st) @ fst (flow read_timeout (sock_in (ss_sock st))),
      snd (flow read_timeout (sock_in (ss_sock st))))"

lemma wait_data_flow:
  assumes "wait_data t es = (e, r, es')"
  shows "r \<le> 0 \<longrightarrow> flow t es = ([], False)"
    and "r > 0 \<longrightarrow> r = 1 \<and> (es' = [] \<and> flow t es = ([], True)
            \<or> (\<exists>w rest. es' = Data w # rest \<and> w \<noteq> []
                 \<and> flow t es = (w @ fst (flow read_timeout rest), snd (flow read_timeout rest)))
            \<or> (\<exists>rest. es' = Reset # rest \<and> flow t es = ([], False)))"
  using assms by (induction t es arbitrary: e r es' rule: wait_data.induct) (auto split: if_splits prod.splits)

lemma wait_data_again: "wait_data t es = (e, r, es') \<Longrightarrow> r = 1 \<Longrightarrow> wait_data t' es' = (0, 1, es')"
  by (induction t es arbitrary: e es' rule: wait_data.induct) (auto split: if_splits prod.splits)

text \<open>Receiving, after waiting or not, takes the next bytes of the flow.\<close>

lemma read_socket_flow:
  assumes "read_socket len s = (r, s')" and "len > 0"
  shows "r = None \<longrightarrow> flow read_timeout (sock_in s) = ([], False)"
    and "r = Some [] \<longrightarrow> flow read_timeout (sock_in s) = ([], True) \<and> sock_in s' = []"
    and "r = Some w \<longrightarrow> w \<noteq> [] \<longrightarrow> length w \<le> len \<and>
           flow read_timeout (sock_in s) = (w @ fst (flow read_timeout (sock_in s')), snd (flow read_timeout (sock_in s')))"
proof -
  obtain e v es where wd: "wait_data read_timeout (sock_in s) = (e, v, es)"
    by (metis prod_cases3)
  note f = wait_data_flow [OF wd]
  have cut: "flow t (Data w # rest) = (take len w @ fst (flow read_timeout (Data (drop len w) # rest)),
      snd (flow read_timeout (Data (drop len w) # rest)))" if "len < length w" for t w rest
    using that by auto
  show "r = None \<longrightarrow> flow read_timeout (sock_in s) = ([], False)"
    using f assms by (auto simp: read_socket_def wd Let_def split: list.splits peer_event.splits if_splits)
  show "r = Some [] \<longrightarrow> flow read_timeout (sock_in s) = ([], True) \<and> sock_in s' = []"
    using f assms by (auto simp: read_socket_def wd Let_def split: list.splits peer_event.splits if_splits)
  show "r = Some w \<longrightarrow> w \<noteq> [] \<longrightarrow> length w \<le> len \<and>
           flow read_timeout (sock_in s) = (w @ fst (flow read_timeout (sock_in s')), snd (flow read_timeout (sock_in s')))"
    using f assms cut by (auto simp: read_socket_def wd Let_def split: list.splits peer_event.splits if_splits)
qed

lemma take_drop_append: "take n u @ drop n u @ x = u @ x"
  by (simp flip: append_assoc)

lemma select_read_flow:
  assumes "select_read read_timeout s = (v, s1)"
  shows "v \<le> 0 \<longrightarrow> flow read_timeout (sock_in s) = ([], False)"
    and "v > 0 \<longrightarrow> flow read_timeout (sock_in s1) = flow read_timeout (sock_in s)"
proof -
  obtain e r es where wd: "wait_data read_timeout (sock_in s) = (e, r, es)"
    by (metis prod_cases3)
  note f = wait_data_flow [OF wd]
  show "v \<le> 0 \<longrightarrow> flow read_timeout (sock_in s) = ([], False)"
    using f assms by (auto simp: select_read_def wd split: if_splits)
  show "v > 0 \<longrightarrow> flow read_timeout (sock_in s1) = flow read_timeout (sock_in s)"
    using f assms by (auto simp: select_read_def wd split: if_splits)
qed

text \<open>
  A read of at least one byte gives the next bytes of the view, at most as many as asked for, says
  that the stream has ended exactly when nothing is left of it, or fails.
\<close>

lemma ss_read_from_buffer:
  assumes "ss_read len st = (r, st')" and "len > 0" and "read_buff_off st < length (read_buff st)"
  obtains w where "r = Some w" "w \<noteq> []" "length w \<le> len" "stream_view st = (w @ fst (stream_view st'), snd (stream_view st'))"
proof -
  define b where "b = drop (read_buff_off st) (read_buff st)"
  have b: "b \<noteq> []"
    using assms(3) by (simp add: b_def)
  have st': "r = Some (take len b)" "st' = st\<lparr>read_buff_off := read_buff_off st + length (take len b)\<rparr>"
    using assms(1,3) by (auto simp: ss_read_def b_def Let_def)
  have "drop (length (take len b)) b = drop len b"
    by (cases "len \<le> length b") simp_all
  then have "drop (read_buff_off st + length (take len b)) (read_buff st) = drop len b"
    by (simp add: b_def add.commute)
  then have v': "stream_view st' = (drop len b @ fst (flow read_timeout (sock_in (ss_sock st))), snd (flow read_timeout (sock_in (ss_sock st))))"
    by (simp add: st'(2) stream_view_def)
  have "stream_view st = (take len b @ fst (stream_view st'), snd (stream_view st'))"
    unfolding v' by (simp add: stream_view_def flip: append_assoc b_def)
  then show ?thesis
    using st'(1) b assms(2) by (intro that [of "take len b"]) simp_all
qed

lemma ss_read_view:
  assumes "ss_read len st = (r, st')" and "len > 0"
  shows "r = None \<longrightarrow> stream_view st = ([], False)"
    and "r = Some [] \<longrightarrow> stream_view st = ([], True) \<and> stream_view st' = ([], True)"
    and "r = Some w \<longrightarrow> w \<noteq> [] \<longrightarrow> length w \<le> len \<and> stream_view st = (w @ fst (stream_view st'), snd (stream_view st'))"
proof -
  obtain v s1 where sel: "select_read read_timeout (ss_sock st) = (v, s1)"
    by fastforce
  note sf = select_read_flow [OF sel]
  obtain r1 s2 where rd1: "read_socket read_buff_size s1 = (r1, s2)"
    by fastforce
  obtain r2 s3 where rd2: "read_socket len s1 = (r2, s3)"
    by fastforce
  have big: "read_buff_size > 0"
    by (simp add: read_buff_size_def)
  note f1 = read_socket_flow [OF rd1 big] and f2 = read_socket_flow [OF rd2 assms(2)]
  consider (buffered) "read_buff_off st < length (read_buff st)"
    | (silent) "\<not> read_buff_off st < length (read_buff st)" "v \<le> 0"
    | (small) "\<not> read_buff_off st < length (read_buff st)" "v > 0" "len < read_buff_size"
    | (large) "\<not> read_buff_off st < length (read_buff st)" "v > 0" "\<not> len < read_buff_size"
    by linarith
  then have "(r = None \<longrightarrow> stream_view st = ([], False))
    \<and> (r = Some [] \<longrightarrow> stream_view st = ([], True) \<and> stream_view st' = ([], True))
    \<and> (r = Some w \<longrightarrow> w \<noteq> [] \<longrightarrow> length w \<le> len \<and> stream_view st = (w @ fst (stream_view st'), snd (stream_view st')))"
  proof cases
    case buffered
    then show ?thesis
      using ss_read_from_buffer [OF assms] by blast
  next
    case silent
    then show ?thesis
      using assms(1) sf by (auto simp: ss_read_def sel stream_view_def)
  next
    case small
    show ?thesis
    proof (cases r1)
      case None
      then show ?thesis
        using assms(1) small sf f1(1) by (simp add: ss_read_def sel rd1 stream_view_def)
    next
      case (Some u)
      then show ?thesis
        using assms small sf f1(2) f1(3) [of u] by (cases "u = []") (auto simp: ss_read_def sel rd1 stream_view_def take_drop_append split: if_splits)
    qed
  next
    case large
    then show ?thesis
      using assms(1) sf f2(1,2) f2(3) [of w] by (simp add: ss_read_def sel rd2 stream_view_def) auto
  qed
  then show "r = None \<longrightarrow> stream_view st = ([], False)"
    and "r = Some [] \<longrightarrow> stream_view st = ([], True) \<and> stream_view st' = ([], True)"
    and "r = Some w \<longrightarrow> w \<noteq> [] \<longrightarrow> length w \<le> len \<and> stream_view st = (w @ fst (stream_view st'), snd (stream_view st'))"
    by blast+
qed

text \<open>Reading does not touch the sending side.\<close>

definition send_side :: "SocketStream \<Rightarrow> int \<times> send_event list \<times> string" where
  "send_side st = (sock_fd (ss_sock st), sock_sends (ss_sock st), sock_out (ss_sock st))"

lemma ss_read_send_side: "ss_read len st = (r, st') \<Longrightarrow> send_side st' = send_side st"
  by (auto simp: ss_read_def select_read_def read_socket_def send_side_def Let_def
      split: if_splits prod.splits option.splits list.splits peer_event.splits)

subsection \<open>\<open>stream_line_reader\<close>\<close>

text \<open>
  A line is collected in a buffer of fixed size, kept terminated by a zero, and moves to a string
  when it outgrows it. The name \<open>glowable_buffer_\<close> is the code's.
\<close>

record line_reader =
  fixed_buffer :: string
  fixed_used :: nat
  glowable :: string

definition new_line_reader :: "nat \<Rightarrow> line_reader" where
  "new_line_reader n = \<lparr>fixed_buffer = replicate n NUL, fixed_used = 0, glowable = []\<rparr>"

definition lr_append :: "char \<Rightarrow> line_reader \<Rightarrow> line_reader" where
  "lr_append c lr =
     (if fixed_used lr < length (fixed_buffer lr) - 1
      then lr\<lparr>fixed_buffer := (fixed_buffer lr)[fixed_used lr := c, Suc (fixed_used lr) := NUL],
              fixed_used := Suc (fixed_used lr)\<rparr>
      else let g = (if glowable lr = [] then take (fixed_used lr) (fixed_buffer lr) else glowable lr) in
           lr\<lparr>glowable := g @ [c]\<rparr>)"

text \<open>\<open>lr_ptr\<close> is the line as the C string that \<open>ptr()\<close> points to, \<open>lr_text\<close> its \<open>size()\<close> bytes.\<close>

definition lr_ptr :: "line_reader \<Rightarrow> string" where
  "lr_ptr lr = (if glowable lr = [] then c_str (fixed_buffer lr) else c_str (glowable lr))"

definition lr_text :: "line_reader \<Rightarrow> string" where
  "lr_text lr = (if glowable lr = [] then take (fixed_used lr) (fixed_buffer lr) else glowable lr)"

definition end_with_crlf :: "line_reader \<Rightarrow> bool" where
  "end_with_crlf lr = (length (lr_text lr) \<ge> 2 \<and> drop (length (lr_text lr) - 2) (lr_text lr) = crlf)"

function getline_loop :: "nat \<Rightarrow> line_reader \<Rightarrow> SocketStream \<Rightarrow> bool \<times> line_reader \<times> SocketStream" where
  "getline_loop i lr st =
     (case ss_read 1 st of
        (None, st') \<Rightarrow> (False, lr, st')
      | (Some [], st') \<Rightarrow> (if i = 0 then (False, lr, st') else (True, lr, st'))
      | (Some (c # cs), st') \<Rightarrow>
          if c = LF then (True, lr_append c lr, st') else getline_loop (Suc i) (lr_append c lr) st')"
  by auto
termination
proof (relation "measure (\<lambda>(i, lr, st). length (fst (stream_view st)))", goal_cases)
  case (2 i lr st x y w c cs)
  then have "ss_read 1 st = (Some (c # cs), y)"
    by simp
  from ss_read_view(3) [OF this, of "c # cs"] show ?case
    by simp
qed simp

declare getline_loop.simps [simp del]

definition getline :: "line_reader \<Rightarrow> SocketStream \<Rightarrow> bool \<times> line_reader \<times> SocketStream" where
  "getline lr st = getline_loop 0 (lr\<lparr>fixed_used := 0, glowable := []\<rparr>) st"

text \<open>The invariant of the reader, and what its buffers represent.\<close>

definition lr_ok :: "line_reader \<Rightarrow> bool" where
  "lr_ok lr \<longleftrightarrow> fixed_used lr < length (fixed_buffer lr)
     \<and> (fixed_used lr > 0 \<longrightarrow> fixed_buffer lr ! fixed_used lr = NUL)
     \<and> (glowable lr \<noteq> [] \<longrightarrow> Suc (fixed_used lr) = length (fixed_buffer lr))"

lemma lr_append_ok:
  assumes "lr_ok lr" and "length (fixed_buffer lr) > 1"
  shows "lr_ok (lr_append c lr)" and "lr_text (lr_append c lr) = lr_text lr @ [c]"
    and "length (fixed_buffer (lr_append c lr)) = length (fixed_buffer lr)"
    and "fixed_used (lr_append c lr) > 0"
proof -
  have t: "take (Suc (fixed_used lr)) ((fixed_buffer lr)[fixed_used lr := c, Suc (fixed_used lr) := NUL])
      = take (fixed_used lr) (fixed_buffer lr) @ [c]" if "fixed_used lr < length (fixed_buffer lr)"
    using that by (simp add: take_Suc_conv_app_nth)
  show "lr_ok (lr_append c lr)"
    using assms by (auto simp: lr_ok_def lr_append_def Let_def)
  show "lr_text (lr_append c lr) = lr_text lr @ [c]"
    using assms t by (auto simp: lr_ok_def lr_append_def lr_text_def Let_def)
  show "length (fixed_buffer (lr_append c lr)) = length (fixed_buffer lr)"
    by (simp add: lr_append_def Let_def)
  show "fixed_used (lr_append c lr) > 0"
    using assms by (auto simp: lr_ok_def lr_append_def Let_def)
qed

lemma lr_ptr_text:
  assumes "lr_ok lr" and "fixed_used lr > 0"
  shows "lr_ptr lr = c_str (lr_text lr)"
proof (cases "glowable lr = []")
  case True
  let ?n = "fixed_used lr" and ?b = "fixed_buffer lr"
  have "?b = take ?n ?b @ NUL # drop (Suc ?n) ?b"
    using assms by (metis lr_ok_def id_take_nth_drop)
  then have "takeWhile (\<lambda>c. c \<noteq> NUL) ?b = takeWhile (\<lambda>c. c \<noteq> NUL) (take ?n ?b @ NUL # drop (Suc ?n) ?b)"
    by simp
  also have "\<dots> = takeWhile (\<lambda>c. c \<noteq> NUL) (take ?n ?b)"
    by (simp add: takeWhile_append takeWhile_eq_all_conv [THEN iffD2])
  finally show ?thesis
    using True by (simp add: lr_ptr_def lr_text_def c_str_def)
qed (simp add: lr_ptr_def lr_text_def)

subsection \<open>Reading a line, whatever the pieces\<close>

text \<open>
  The reference: a line reaches to the next line feed; when there is none, the end of the stream
  ends a line that is not empty, and a failing read leaves no line.
\<close>

fun next_line :: "string \<Rightarrow> bool \<Rightarrow> (string \<times> string) option" where
  "next_line [] eof = (if eof then Some ([], []) else None)"
| "next_line (c # cs) eof =
     (if c = LF then Some ([c], cs) else map_option (\<lambda>(l, r). (c # l, r)) (next_line cs eof))"

lemma getline_loop_view:
  assumes "lr_ok lr" and "length (fixed_buffer lr) > 1" and "i > 0 \<longrightarrow> fixed_used lr > 0"
    and "getline_loop i lr st = (ok, lr', st')"
  shows "case next_line (fst (stream_view st)) (snd (stream_view st)) of
      None \<Rightarrow> \<not> ok
    | Some (l, rest) \<Rightarrow>
        if l = [] \<and> i = 0 then \<not> ok
        else ok \<and> lr_ok lr' \<and> length (fixed_buffer lr') = length (fixed_buffer lr) \<and> fixed_used lr' > 0
          \<and> lr_text lr' = lr_text lr @ l \<and> stream_view st' = (rest, snd (stream_view st))"
  using assms
proof (induction i lr st rule: getline_loop.induct)
  case (1 i lr st)
  obtain r st1 where rd: "ss_read 1 st = (r, st1)"
    by fastforce
  note v = ss_read_view [OF rd zero_less_one]
  note lra = lr_append_ok [OF "1.prems"(1,2)]
  consider "r = None" | "r = Some []" | c cs where "r = Some (c # cs)"
    by (metis list.exhaust option.exhaust)
  then show ?case
  proof cases
    case 1
    then show ?thesis
      using "1.prems"(4) rd v(1) by (subst (asm) getline_loop.simps) simp
  next
    case 2
    then show ?thesis
      using "1.prems" rd v(2) by (subst (asm) getline_loop.simps) (auto split: if_splits)
  next
    case (3 c cs)
    have w: "cs = []" "stream_view st = (c # fst (stream_view st1), snd (stream_view st1))"
      using v(3) [of "c # cs"] 3 by auto
    show ?thesis
    proof (cases "c = LF")
      case True
      have "ok \<and> lr_append LF lr = lr' \<and> st1 = st'"
        using "1.prems"(4) rd 3 True by (subst (asm) getline_loop.simps) simp
      then show ?thesis
        using w lra [of LF] True by auto
    next
      case False
      have step: "getline_loop (Suc i) (lr_append c lr) st1 = (ok, lr', st')"
        using "1.prems"(4) rd 3 w False by (subst (asm) getline_loop.simps) simp
      note ih = "1.IH" [OF rd [symmetric] 3 refl False lra(1) _ _ step]
      show ?thesis
        using ih lra "1.prems"(2) w False by (auto split: option.splits if_splits)
    qed
  qed
qed

lemma getline_view:
  assumes "length (fixed_buffer lr) > 1" and "getline lr st = (ok, lr', st')"
  shows "case next_line (fst (stream_view st)) (snd (stream_view st)) of
      None \<Rightarrow> \<not> ok
    | Some (l, rest) \<Rightarrow>
        if l = [] then \<not> ok
        else ok \<and> length (fixed_buffer lr') = length (fixed_buffer lr) \<and> lr_text lr' = l \<and> lr_ptr lr' = c_str l
          \<and> stream_view st' = (rest, snd (stream_view st))"
proof -
  let ?lr = "lr\<lparr>fixed_used := 0, glowable := []\<rparr>"
  have ok: "lr_ok ?lr" and l: "length (fixed_buffer ?lr) > 1" and t: "lr_text ?lr = []"
    using assms(1) by (auto simp: lr_ok_def lr_text_def)
  have "getline_loop 0 ?lr st = (ok, lr', st')"
    using assms(2) by (simp add: getline_def)
  from getline_loop_view [OF ok l _ this] show ?thesis
    using t by (auto simp: lr_ptr_text split: option.splits if_splits)
qed

lemma getline_loop_send_side: "getline_loop i lr st = (ok, lr', st') \<Longrightarrow> send_side st' = send_side st"
proof (induction i lr st rule: getline_loop.induct)
  case (1 i lr st)
  obtain r st1 where rd: "ss_read 1 st = (r, st1)"
    by fastforce
  note s = ss_read_send_side [OF rd]
  show ?case
  proof (cases "\<exists>c cs. r = Some (c # cs) \<and> c \<noteq> LF")
    case True
    then obtain c cs where c: "r = Some (c # cs)" "c \<noteq> LF"
      by blast
    then show ?thesis
      using "1.IH" [OF rd [symmetric] c(1) refl c(2)] "1.prems" rd s by (subst (asm) (2) getline_loop.simps) simp
  next
    case False
    then show ?thesis
      using "1.prems" rd s by (subst (asm) getline_loop.simps) (auto split: option.splits list.splits if_splits)
  qed
qed

lemma getline_send_side: "getline lr st = (ok, lr', st') \<Longrightarrow> send_side st' = send_side st"
  unfolding getline_def by (rule getline_loop_send_side)

subsection \<open>Writing\<close>

function write_data :: "string \<Rightarrow> SocketStream \<Rightarrow> bool \<times> SocketStream" where
  "write_data d st =
     (if d = [] then (True, st)
      else case ss_write d st of
             (None, st') \<Rightarrow> (False, st')
           | (Some n, st') \<Rightarrow> write_data (drop n d) st')"
  by auto
termination
proof (relation "measure (\<lambda>(d, st). length d + length (sock_sends (ss_sock st)))", goal_cases)
  case (2 d st x st' n)
  then show ?case
    by (auto simp: ss_write_def send_socket_def split: list.splits send_event.splits)
qed simp

declare write_data.simps [simp del]

text \<open>
  \<open>write_format\<close> formats into a buffer of 2048 bytes, and into larger and larger ones when \<open>snprintf\<close>
  says that the text does not fit. \<open>snprintf n w\<close> is its result and what it leaves in a buffer of
  which it may use \<open>n\<close> bytes, without the terminating zero.
\<close>

definition snprintf :: "nat \<Rightarrow> string \<Rightarrow> nat \<times> string" where
  "snprintf n w = (length w, take (n - 1) w)"

function format_grow :: "nat \<Rightarrow> nat \<Rightarrow> string \<Rightarrow> string \<Rightarrow> string" where
  "format_grow len n w buf =
     (if n \<ge> len - 1 \<and> len > 0
      then (case snprintf (len * 2 - 1) w of (n', buf') \<Rightarrow> format_grow (len * 2) n' w buf')
      else take n buf)"
  by auto
termination
  by (relation "measure (\<lambda>(len, n, w, buf). (if n = length w then 0 else 1) + (length w + 2 - len))")
    (auto simp: snprintf_def)

declare format_grow.simps [simp del]

definition format_text :: "string \<Rightarrow> string" where
  "format_text w =
     (case snprintf 2047 w of (n, buf) \<Rightarrow> if n \<ge> 2047 then format_grow 2048 n w [] else take n buf)"

lemma format_grow_exact:
  assumes "n = length w" and "len > 1" and "n \<ge> len - 1 \<or> buf = w"
  shows "format_grow len n w buf = w"
  using assms
proof (induction len n w buf rule: format_grow.induct)
  case (1 len n w buf)
  show ?case
  proof (cases "n \<ge> len - 1")
    case True
    have "n \<ge> len * 2 - 1 \<or> take (len * 2 - 2) w = w"
      using "1.prems" by (cases "n \<ge> len * 2 - 1") auto
    then show ?thesis
      using "1.IH" [of n "take (len * 2 - 1 - 1) w"] "1.prems" True
      by (subst format_grow.simps) (simp add: snprintf_def numeral_2_eq_2)
  next
    case False
    then show ?thesis
      using "1.prems" by (subst format_grow.simps) auto
  qed
qed

lemma format_text_exact: "format_text w = w"
  by (auto simp: format_text_def snprintf_def intro: format_grow_exact)

text \<open>What is written is a beginning of the data, and all of it exactly when the write succeeds.\<close>

lemma write_data_prefix:
  assumes "write_data d st = (ok, st')"
  obtains k where "k \<le> length d" and "sock_out (ss_sock st') = sock_out (ss_sock st) @ take k d"
    and "ok \<longleftrightarrow> k = length d"
proof -
  have "\<exists>k \<le> length d. sock_out (ss_sock st') = sock_out (ss_sock st) @ take k d \<and> (ok \<longleftrightarrow> k = length d)"
    using assms
  proof (induction d st rule: write_data.induct)
    case (1 d st)
    show ?case
    proof (cases "d = []")
      case True
      then show ?thesis
        using "1.prems" by (subst (asm) write_data.simps) auto
    next
      case False
      obtain r st1 where w: "ss_write d st = (r, st1)"
        by fastforce
      show ?thesis
      proof (cases r)
        case None
        then have "sock_out (ss_sock st1) = sock_out (ss_sock st)"
          using w by (auto simp: ss_write_def send_socket_def split: list.splits send_event.splits)
        moreover have "ok = False" "st' = st1"
          using "1.prems" False w None by (subst (asm) write_data.simps; simp)+
        ultimately show ?thesis
          using False by (intro exI [of _ 0]) simp
      next
        case (Some n)
        then have n: "n \<le> length d" "sock_out (ss_sock st1) = sock_out (ss_sock st) @ take n d"
          using w by (auto simp: ss_write_def send_socket_def split: list.splits send_event.splits)
        have "write_data (drop n d) st1 = (ok, st')"
          using "1.prems" False w Some by (subst (asm) write_data.simps) simp
        from "1.IH" [OF False w [symmetric] Some this] obtain k where
          k: "k \<le> length d - n" "sock_out (ss_sock st') = sock_out (ss_sock st1) @ take k (drop n d)" "ok \<longleftrightarrow> k = length d - n"
          by auto
        then show ?thesis
          using n by (intro exI [of _ "n + k"]) (auto simp: take_add)
      qed
    qed
  qed
  then show ?thesis
    using that by blast
qed

text \<open>
  Writing only uses up the outcomes of \<open>send\<close>, and succeeds when none of them is a failure: what a call
  did not take is offered again.
\<close>

definition takes :: "send_event \<Rightarrow> bool" where
  "takes e \<longleftrightarrow> (case e of Takes k \<Rightarrow> True | _ \<Rightarrow> False)"

lemma write_data_sends:
  assumes "write_data d st = (ok, st')"
  shows "set (sock_sends (ss_sock st')) \<subseteq> set (sock_sends (ss_sock st))
    \<and> (list_all takes (sock_sends (ss_sock st)) \<longrightarrow> ok)"
  using assms
proof (induction d st rule: write_data.induct)
  case (1 d st)
  show ?case
  proof (cases "d = []")
    case True
    then show ?thesis
      using "1.prems" by (subst (asm) write_data.simps) auto
  next
    case False
    obtain r st1 where w: "ss_write d st = (r, st1)"
      by fastforce
    then have s: "set (sock_sends (ss_sock st1)) \<subseteq> set (sock_sends (ss_sock st))"
      "list_all takes (sock_sends (ss_sock st)) \<Longrightarrow> r \<noteq> None \<and> list_all takes (sock_sends (ss_sock st1))"
      by (auto simp: ss_write_def send_socket_def takes_def split: list.splits send_event.splits)
    show ?thesis
    proof (cases r)
      case None
      then have "st' = st1"
        using "1.prems" False w by (subst (asm) write_data.simps) simp
      then show ?thesis
        using s None by auto
    next
      case (Some n)
      then have "write_data (drop n d) st1 = (ok, st')"
        using "1.prems" False w by (subst (asm) write_data.simps) simp
      from "1.IH" [OF False w [symmetric] Some this] show ?thesis
        using s by auto
    qed
  qed
qed

lemma write_data_all:
  assumes "sock_sends (ss_sock st) = []"
  shows "write_data d st = (True, st\<lparr>ss_sock := (ss_sock st)\<lparr>sock_out := sock_out (ss_sock st) @ d\<rparr>\<rparr>)"
proof (cases "d = []")
  case False
  then show ?thesis
    using assms by (simp add: write_data.simps ss_write_def send_socket_def)
qed (simp add: write_data.simps)

subsection \<open>Waiting for the next request\<close>

lemma wait_data_timeout: "wait_data t es = (e, 0, es') \<Longrightarrow> e = t"
  by (induction t es arbitrary: e es' rule: wait_data.induct) (auto split: if_splits prod.splits)

text \<open>
  \<open>keep_alive\<close> polls every 10 ms, and sleeps for 1 ms after each vain attempt, until the time is up.
\<close>

function keep_alive_loop :: "nat \<Rightarrow> nat \<Rightarrow> socket \<Rightarrow> bool \<times> socket" where
  "keep_alive_loop t0 timeout s =
     (case select_read 10 s of (val, s1) \<Rightarrow>
        if val < 0 then (False, s1)
        else if val = 0 then
          if sock_clock s1 - t0 > timeout then (False, s1)
          else keep_alive_loop t0 timeout (sleep_ms 1 s1)
        else (True, s1))"
  by auto
termination
proof (relation "measure (\<lambda>(b, timeout, s). b + timeout + 1 - sock_clock s)", goal_cases)
  case (2 b timeout s val s1)
  then have "sock_clock s1 = sock_clock s + 10"
    by (auto simp: select_read_def dest: wait_data_timeout split: if_splits prod.splits)
  then show ?case
    using 2 by (auto simp: sleep_ms_def)
qed simp

declare keep_alive_loop.simps [simp del]

definition keep_alive :: "nat \<Rightarrow> socket \<Rightarrow> bool \<times> socket" where
  "keep_alive timeout_sec s = keep_alive_loop (sock_clock s) (timeout_sec * 1000) s"

end
