(* ===== verification/Http_Request.thy ===== *)
theory Http_Request
  imports Http_Stream
begin

section \<open>Reading a request: \<open>httplib.h\<close>\<close>

text \<open>
  From the lines of a request to its record: the query, the request line, headers and ranges, and
  the text of a \<open>Range\<close> header that a client writes.
\<close>

subsection \<open>Query text\<close>

definition query_pair :: "string \<Rightarrow> string \<times> string" where
  "query_pair kv =
     fold (\<lambda>w (key, val). if key = [] then (w, val) else (key, w)) (split kv (CHR ''='')) ([], [])"

definition query_step :: "string \<Rightarrow> string list \<times> Params \<Rightarrow> string list \<times> Params" where
  "query_step kv cp =
     (case cp of (cache, params) \<Rightarrow>
        if kv \<in> set cache then (cache, params)
        else case query_pair kv of (key, val) \<Rightarrow>
          (kv # cache,
           if key \<noteq> [] then mm_emplace str_less (decode_url key True) (decode_url val True) params else params))"

definition parse_query_text :: "string \<Rightarrow> Params \<Rightarrow> Params" where
  "parse_query_text s params = snd (fold query_step (split s (CHR ''&'')) ([], params))"

subsection \<open>The request line\<close>

definition methods :: "string list" where
  "methods = [''GET'', ''HEAD'', ''POST'', ''PUT'', ''DELETE'', ''CONNECT'', ''OPTIONS'', ''TRACE'', ''PATCH'', ''PRI'']"

definition request_words :: "string list \<Rightarrow> Request \<Rightarrow> Request" where
  "request_words ws req =
     (case ws of
        [] \<Rightarrow> req
      | [m] \<Rightarrow> req\<lparr>req_method := m\<rparr>
      | [m, t] \<Rightarrow> req\<lparr>req_method := m, req_target := t\<rparr>
      | m # t # v # _ \<Rightarrow> req\<lparr>req_method := m, req_target := t, req_version := v\<rparr>)"

definition target_parts :: "string list \<Rightarrow> Request \<Rightarrow> Request" where
  "target_parts ws req =
     (case ws of
        [] \<Rightarrow> req
      | [p] \<Rightarrow> req\<lparr>req_path := decode_url p False\<rparr>
      | p # q # _ \<Rightarrow> req\<lparr>req_path := decode_url p False, req_params := parse_query_text q (req_params req)\<rparr>)"

definition parse_request_line :: "string \<Rightarrow> Request \<Rightarrow> bool \<times> Request" where
  "parse_request_line s req =
     (let len = length s in
      if len < 2 \<or> s ! (len - 2) \<noteq> CR \<or> s ! (len - 1) \<noteq> LF then (False, req)
      else
        let ws = split (take (len - 2) s) (CHR '' '');
            req1 = request_words ws req in
        if length ws \<noteq> 3 then (False, req1)
        else if req_method req1 \<notin> set methods then (False, req1)
        else if req_version req1 \<noteq> ''HTTP/1.1'' \<and> req_version req1 \<noteq> ''HTTP/1.0'' then (False, req1)
        else
          let req2 = req1\<lparr>req_target := takeWhile (\<lambda>c. c \<noteq> CHR ''#'') (req_target req1)\<rparr>;
              ps = split (req_target req2) (CHR ''?'') in
          (length ps \<le> 2, target_parts ps req2))"

subsection \<open>Headers\<close>

definition parse_header :: "string \<Rightarrow> (string \<times> string) option" where
  "parse_header line =
     (let s = rev (dropWhile is_space_or_tab (rev line));
          key = takeWhile (\<lambda>c. c \<noteq> CHR '':'') s;
          rest = dropWhile (\<lambda>c. c \<noteq> CHR '':'') s in
      if rest = [] then None
      else let val = dropWhile is_space_or_tab (tl rest) in
           if val \<noteq> [] then Some (key, decode_url val False) else None)"

definition HEADER_MAX_LENGTH :: nat where "HEADER_MAX_LENGTH = 8192"
definition REQUEST_URI_MAX_LENGTH :: nat where "REQUEST_URI_MAX_LENGTH = 8192"

definition add_header :: "string \<Rightarrow> Headers \<Rightarrow> Headers" where
  "add_header line headers =
     (case parse_header (take (length line - 2) line) of
        Some (key, val) \<Rightarrow> mm_emplace ci key val headers
      | None \<Rightarrow> headers)"

text \<open>Reading a line uses up part of the stream.\<close>

lemma getline_loop_shorter:
  "getline_loop i lr st = (True, lr', st') \<Longrightarrow>
     length (fst (stream_view st')) \<le> length (fst (stream_view st)) \<and> (i = 0 \<longrightarrow> length (fst (stream_view st')) < length (fst (stream_view st)))"
proof (induction i lr st rule: getline_loop.induct)
  case (1 i lr st)
  obtain r st1 where rd: "ss_read 1 st = (r, st1)"
    by fastforce
  note v = ss_read_view [OF rd zero_less_one]
  consider "r = None" | "r = Some []" | c cs where "r = Some (c # cs)"
    by (metis list.exhaust option.exhaust)
  then show ?case
  proof cases
    case 1
    then show ?thesis
      using "1.prems" rd by (subst (asm) getline_loop.simps) simp
  next
    case 2
    then show ?thesis
      using "1.prems" rd v(2) by (subst (asm) getline_loop.simps) (auto split: if_splits)
  next
    case (3 c cs)
    have w: "fst (stream_view st) = c # fst (stream_view st1)"
      using v(3) [of "c # cs"] 3 by auto
    show ?thesis
    proof (cases "c = LF")
      case True
      then show ?thesis
        using "1.prems" rd 3 w by (subst (asm) getline_loop.simps) auto
    next
      case False
      have "getline_loop (Suc i) (lr_append c lr) st1 = (True, lr', st')"
        using "1.prems" rd 3 False by (subst (asm) getline_loop.simps) simp
      then show ?thesis
        using "1.IH" [OF rd [symmetric] 3 refl False] w by simp
    qed
  qed
qed

lemma getline_shorter: "getline lr st = (True, lr', st') \<Longrightarrow> length (fst (stream_view st')) < length (fst (stream_view st))"
  unfolding getline_def by (auto dest: getline_loop_shorter)

function read_headers_loop :: "line_reader \<Rightarrow> Headers \<Rightarrow> SocketStream \<Rightarrow> bool \<times> Headers \<times> SocketStream" where
  "read_headers_loop lr headers st =
     (case getline lr st of
        (False, lr', st') \<Rightarrow> (False, headers, st')
      | (True, lr', st') \<Rightarrow>
          if end_with_crlf lr'
          then if length (lr_text lr') = 2 then (True, headers, st')
               else if length (lr_text lr') > HEADER_MAX_LENGTH then (False, headers, st')
               else read_headers_loop lr' (add_header (lr_text lr') headers) st'
          else read_headers_loop lr' headers st')"
  by auto
termination
  by (relation "measure (\<lambda>(lr, headers, st). length (fst (stream_view st)))") (auto dest: getline_shorter sym)

declare read_headers_loop.simps [simp del]

definition read_headers :: "Headers \<Rightarrow> SocketStream \<Rightarrow> bool \<times> Headers \<times> SocketStream" where
  "read_headers headers st = read_headers_loop (new_line_reader 2048) headers st"

subsection \<open>Ranges\<close>

definition first_range_pattern :: string where
  "first_range_pattern = ''bytes=('' @ [CHR 0x5C] @ ''d*-'' @ [CHR 0x5C] @ ''d*(?:,'' @ [CHR 0x5C] @ ''s*'' @ [CHR 0x5C] @ ''d*-''
     @ [CHR 0x5C] @ ''d*)*)''"

definition another_range_pattern :: string where
  "another_range_pattern = [CHR 0x5C] @ ''s*('' @ [CHR 0x5C] @ ''d*)-('' @ [CHR 0x5C] @ ''d*)''"

text \<open>An empty number stands for -1; \<open>None\<close> is the exception of \<open>stoll\<close>.\<close>

definition range_bound :: "string \<Rightarrow> int option" where
  "range_bound w = (if w = [] then Some (- 1) else stoll w)"

text \<open>
  \<open>Inl\<close> is the state in which an exception left the ranges, \<open>Inr\<close> the flag \<open>all_valid_ranges\<close> and the
  ranges.
\<close>

definition range_step :: "regex \<Rightarrow> string \<Rightarrow> Range list + (bool \<times> Range list) \<Rightarrow> Range list + (bool \<times> Range list)" where
  "range_step re b acc =
     (case acc of
        Inl rs \<Rightarrow> Inl rs
      | Inr (valid, rs) \<Rightarrow>
          if \<not> valid then acc
          else case regex_match False re b of
                 None \<Rightarrow> acc
               | Some cm \<Rightarrow>
                   (case (range_bound (group_text 1 cm), range_bound (group_text 2 cm)) of
                      (Some lo, Some hi) \<Rightarrow>
                        if lo \<noteq> - 1 \<and> hi \<noteq> - 1 \<and> lo > hi then Inr (False, rs) else Inr (True, rs @ [(lo, hi)])
                    | _ \<Rightarrow> Inl rs))"

definition parse_range_header :: "string \<Rightarrow> Range list \<Rightarrow> bool \<times> Range list" where
  "parse_range_header s ranges =
     (case (std_regex first_range_pattern, std_regex another_range_pattern) of
        (Some re_first_range, Some re_another_range) \<Rightarrow>
          (case regex_match False re_first_range s of
             None \<Rightarrow> (False, ranges)
           | Some m \<Rightarrow>
               (case fold (range_step re_another_range) (split (group_text 1 m) (CHR '','')) (Inr (True, ranges)) of
                  Inl rs \<Rightarrow> (False, rs)
                | Inr (valid, rs) \<Rightarrow> (valid, rs)))
      | _ \<Rightarrow> (False, ranges))"

text \<open>The client's side: the header that asks for ranges.\<close>

definition bound_text :: "int \<Rightarrow> string" where
  "bound_text b = (if b \<noteq> - 1 then to_string_int b else [])"

definition range_text :: "Range \<Rightarrow> string" where
  "range_text r = bound_text (fst r) @ ''-'' @ bound_text (snd r)"

primrec more_ranges :: "Range list \<Rightarrow> string" where
  "more_ranges [] = []"
| "more_ranges (r # rs) = '', '' @ range_text r @ more_ranges rs"

definition make_range_header :: "Range list \<Rightarrow> string" where
  "make_range_header rs = ''bytes='' @ (case rs of [] \<Rightarrow> [] | r # rs' \<Rightarrow> range_text r @ more_ranges rs')"

end
