(* ===== verification/Http_Request_Props.thy ===== *)
theory Http_Request_Props
  imports Http_Request
begin

section \<open>Properties of reading a request\<close>

text \<open>
  Decimal numbers, splitting and the two patterns of \<open>parse_range_header\<close>, up to its round trip with
  \<open>make_range_header\<close>.
\<close>

subsection \<open>Decimal numbers\<close>

lemma to_string_snoc: "to_string n = (if n < 10 then [] else to_string (n div 10)) @ [char_of (48 + n mod 10)]"
  by (subst to_string.simps) simp

lemma digit_char: "d < 10 \<Longrightarrow> is_decimal (char_of (48 + d)) \<and> is_hex (char_of (48 + d)) = Some (int d)" for d :: nat
  by (simp add: is_hex_def is_decimal_def code_of_nat)

lemma to_string_digits: "list_all is_decimal (to_string n)"
proof (induction n rule: to_string.induct)
  case (1 n)
  then show ?case
    using digit_char [of "n mod 10"] by (subst to_string_snoc) simp
qed

lemma to_string_ne [simp]: "to_string n \<noteq> []"
  by (subst to_string_snoc) simp

lemma value_of_snoc: "value_of b f (ds @ [c]) = value_of b f ds * b + the (f c)"
  by (simp add: value_of_def)

lemma value_to_string: "value_of 10 is_hex (to_string n) = int n"
proof (induction n rule: to_string.induct)
  case (1 n)
  show ?case
  proof (cases "n < 10")
    case True
    then show ?thesis
      using digit_char [of n] by (subst to_string_snoc) (simp add: value_of_def)
  next
    case False
    have "int (n div 10) * 10 + int (n mod 10) = int n"
      by (metis div_mult_mod_eq of_nat_add of_nat_mult of_nat_numeral)
    then show ?thesis
      using 1 False digit_char [of "n mod 10"] by (subst to_string_snoc) (simp add: value_of_snoc)
  qed
qed

subsection \<open>Regular expressions without groups\<close>

primrec capture_free :: "regex \<Rightarrow> bool" where
  "capture_free Nothing = True"
| "capture_free (Letter c) = True"
| "capture_free Any_char = True"
| "capture_free Digit = True"
| "capture_free White = True"
| "capture_free Non_white = True"
| "capture_free (Ranges_of rs) = True"
| "capture_free Line_start = True"
| "capture_free Line_end = True"
| "capture_free (Then_both r s) = (capture_free r \<and> capture_free s)"
| "capture_free (Either r s) = (capture_free r \<and> capture_free s)"
| "capture_free (Repeat g r) = capture_free r"
| "capture_free (Maybe r) = capture_free r"
| "capture_free (Capture k r) = False"

lemma star_runs_snd:
  assumes "\<And>st st'. st' \<in> set (f st) \<Longrightarrow> snd st' = snd st"
  shows "st' \<in> set (star_runs n g f st) \<Longrightarrow> snd st' = snd st"
proof (induction n arbitrary: st)
  case (Suc n)
  then consider "st' = st" | st1 where "st1 \<in> set (f st)" and "st' \<in> set (star_runs n g f st1)"
    by (auto simp: Let_def split: if_splits)
  then show ?case
    using Suc.IH assms by cases metis+
qed simp

lemma run_capture_free: "capture_free r \<Longrightarrow> st' \<in> set (regex_run ic n r st) \<Longrightarrow> snd st' = snd st"
proof (induction r arbitrary: st st')
  case (Repeat g r)
  have "snd b = snd a" if "b \<in> set (regex_run ic n r a)" for a b
    using Repeat.IH [of b a] Repeat.prems(1) that by simp
  moreover have "st' \<in> set (star_runs (length (fst st)) g (regex_run ic n r) st)"
    using Repeat.prems(2) by simp
  ultimately show ?case
    by (rule star_runs_snd)
next
  case (Then_both r s)
  then obtain st1 where "st1 \<in> set (regex_run ic n r st)" and "st' \<in> set (regex_run ic n s st1)"
    by auto
  then show ?case
    using Then_both.IH(1) [of st1 st] Then_both.IH(2) [of st' st1] Then_both.prems(1) by simp
next
  case (Either r s)
  then have "st' \<in> set (regex_run ic n r st) \<or> st' \<in> set (regex_run ic n s st)"
    by simp
  then show ?case
    using Either.IH(1) [of st' st] Either.IH(2) [of st' st] Either.prems(1) by (elim disjE) simp_all
next
  case (Maybe r)
  then have "st' \<in> set (regex_run ic n r st) \<or> st' = st"
    by auto
  then show ?case
    using Maybe.IH [of st' st] Maybe.prems(1) by (elim disjE) simp_all
qed (auto simp: fst_one_char split: if_splits)

lemma run_class:
  assumes "\<And>st. regex_run ic n r st = one_char P st"
  shows "set (regex_run ic n (Repeat g r) (s, caps)) = {(v, caps) | u v. s = u @ v \<and> list_all P u}"
proof -
  have "regex_run ic n r = one_char P"
    using assms by (rule ext)
  then show ?thesis
    using star_runs_class [of "(s, caps)" "length s" g P] by simp
qed

lemma run_digits: "set (regex_run ic n (Repeat g Digit) (s, caps)) = {(v, caps) | u v. s = u @ v \<and> list_all is_decimal u}"
  by (rule run_class) simp

lemma run_whites: "set (regex_run ic n (Repeat g White) (s, caps)) = {(v, caps) | u v. s = u @ v \<and> list_all is_white u}"
  by (rule run_class) simp

text \<open>Ways to match, one after the other.\<close>

lemma run_then: "st1 \<in> set (regex_run ic n r st) \<Longrightarrow> st2 \<in> set (regex_run ic n s st1) \<Longrightarrow> st2 \<in> set (regex_run ic n (Then_both r s) st)"
  by auto

lemma run_letter: "(cs, caps) \<in> set (regex_run ic n (Letter c) (c # cs, caps))"
  by simp

lemma run_digits_mem: "list_all is_decimal u \<Longrightarrow> (v, caps) \<in> set (regex_run ic n (Repeat g Digit) (u @ v, caps))"
  unfolding run_digits by blast

lemma run_whites_mem: "list_all is_white u \<Longrightarrow> (v, caps) \<in> set (regex_run ic n (Repeat g White) (u @ v, caps))"
  unfolding run_whites by blast

lemma run_nothing: "st \<in> set (regex_run ic n Nothing st)"
  by simp

subsection \<open>Ranges\<close>

definition range_tail :: regex where
  "range_tail = Then_both (Letter (CHR '','')) (Then_both (Repeat True White)
     (Then_both (Repeat True Digit) (Then_both (Letter (CHR ''-'')) (Then_both (Repeat True Digit) Nothing))))"

definition ranges_regex :: regex where
  "ranges_regex = Then_both (Repeat True Digit) (Then_both (Letter (CHR ''-''))
     (Then_both (Repeat True Digit) (Then_both (Repeat True range_tail) Nothing)))"

definition another_regex :: regex where
  "another_regex = Then_both (Repeat True White) (Then_both (Capture 1 (Then_both (Repeat True Digit) Nothing))
     (Then_both (Letter (CHR ''-'')) (Then_both (Capture 2 (Then_both (Repeat True Digit) Nothing)) Nothing)))"

lemma first_range_compiled:
  "std_regex first_range_pattern =
     Some (Then_both (Letter (CHR ''b'')) (Then_both (Letter (CHR ''y'')) (Then_both (Letter (CHR ''t''))
       (Then_both (Letter (CHR ''e'')) (Then_both (Letter (CHR ''s'')) (Then_both (Letter (CHR ''=''))
       (Then_both (Capture 1 ranges_regex) Nothing)))))))"
  by code_simp

lemma another_range_compiled: "std_regex another_range_pattern = Some another_regex"
  by code_simp

text \<open>Which ranges a header can ask for: bounds of 63 bits, -1 for an open end.\<close>

definition valid_range :: "Range \<Rightarrow> bool" where
  "valid_range r \<longleftrightarrow> - 1 \<le> fst r \<and> - 1 \<le> snd r \<and> fst r < 2 ^ 63 \<and> snd r < 2 ^ 63
     \<and> (fst r = - 1 \<or> snd r = - 1 \<or> fst r \<le> snd r)"

lemma bound_text_digits: "- 1 \<le> b \<Longrightarrow> list_all is_decimal (bound_text b)"
  by (simp add: bound_text_def to_string_int_def to_string_digits)

lemma range_bound_text: "- 1 \<le> b \<Longrightarrow> b < 2 ^ 63 \<Longrightarrow> range_bound (bound_text b) = Some b"
  by (auto simp: bound_text_def to_string_int_def range_bound_def stoll_def value_to_string)

lemma digit_facts:
  assumes "is_decimal c"
  shows "\<not> is_white c" and "c \<noteq> CHR ''-''" and "c \<noteq> CHR '',''" and "\<not> is_space_or_tab c"
  using assms by (auto simp: is_decimal_def is_white_def is_space_or_tab_def code_of_nat)

lemma digits_split:
  assumes "list_all is_decimal u" and "list_all is_decimal d" and "u @ CHR ''-'' # v = d @ CHR ''-'' # e"
  shows "u = d \<and> v = e"
  using assms
proof (induction u arbitrary: d)
  case Nil
  then show ?case by (cases d) (auto dest: digit_facts)
next
  case (Cons c u)
  then show ?case by (cases d) (auto dest: digit_facts)
qed

lemma another_match:
  assumes d: "list_all is_decimal d" "list_all is_decimal e"
  shows "\<exists>cm. regex_match False another_regex (d @ CHR ''-'' # e) = Some cm \<and> group_text 1 cm = d \<and> group_text 2 cm = e"
proof -
  let ?s = "d @ CHR ''-'' # e"
  let ?n = "length ?s"
  let ?cm = "[(2, (length d + 1, e)), (1, (0, d))]"
  have mem: "([], caps) \<in> set (regex_run False ?n another_regex (?s, [])) \<longleftrightarrow> caps = ?cm" for caps
  proof
    assume "([], caps) \<in> set (regex_run False ?n another_regex (?s, []))"
    then obtain ws u w where ws: "?s = ws @ u @ CHR ''-'' # w" "list_all is_white ws" and u: "list_all is_decimal u"
      and caps: "caps = [(2, Suc (length d + length e) - length w, w), (1, length d + length e - (length u + length w), u)]"
      unfolding another_regex_def by (auto simp: run_digits run_whites fst_one_char simp del: regex_run.simps(12))
    have "ws = []"
      using ws u d(1) by (cases ws; cases d) (auto simp: is_white_def code_of_nat dest: digit_facts)
    then have "u = d \<and> w = e"
      using digits_split [of u d w e] ws u d by simp
    then show "caps = ?cm"
      by (simp add: caps)
  next
    assume "caps = ?cm"
    then show "([], caps) \<in> set (regex_run False ?n another_regex (?s, []))"
      using d unfolding another_regex_def
      by (simp add: run_digits run_whites del: regex_run.simps(12))
        (intro exI [of _ ?s] conjI exI [of _ "[]"] exI [of _ "CHR ''-'' # e"] exI [of _ d];
          simp add: run_digits del: regex_run.simps(12))
  qed
  have "regex_match False another_regex ?s = Some ?cm"
    by (rule regex_match_eqI) (simp_all only: mem)
  then show ?thesis
    by (simp add: group_text_def)
qed

lemma range_step_text:
  assumes "valid_range r"
  shows "range_step another_regex (range_text r) (Inr (True, rs)) = Inr (True, rs @ [r])"
proof -
  have d: "list_all is_decimal (bound_text (fst r))" "list_all is_decimal (bound_text (snd r))"
    using assms by (simp_all add: valid_range_def bound_text_digits)
  obtain cm where "regex_match False another_regex (range_text r) = Some cm"
    and "group_text 1 cm = bound_text (fst r)" and "group_text 2 cm = bound_text (snd r)"
    using another_match [OF d] by (auto simp: range_text_def)
  moreover have "range_bound (bound_text (fst r)) = Some (fst r)" "range_bound (bound_text (snd r)) = Some (snd r)"
    using assms by (simp_all add: valid_range_def range_bound_text)
  ultimately show ?thesis
    using assms by (auto simp: range_step_def valid_range_def)
qed

text \<open>The pattern matches the rendered ranges, and its group is all of them.\<close>

lemma run_tail:
  assumes "list_all is_decimal d" and "list_all is_decimal e"
  shows "(w, caps) \<in> set (regex_run ic n range_tail ('', '' @ d @ ''-'' @ e @ w, caps))"
proof -
  have "is_white (CHR '' '')"
    by (simp add: is_white_def code_of_nat)
  then show ?thesis
    using run_then [OF run_letter run_then [OF run_whites_mem [of "'' ''"] run_then [OF run_digits_mem [OF assms(1)]
          run_then [OF run_letter run_then [OF run_digits_mem [OF assms(2)] run_nothing]]]]]
    by (simp add: range_tail_def del: regex_run.simps)
qed

lemma run_more_ranges:
  assumes "list_all valid_range rs" and "length (more_ranges rs) \<le> k"
  shows "([], caps) \<in> set (star_runs k True (regex_run ic n range_tail) (more_ranges rs, caps))"
  using assms
proof (induction rs arbitrary: k)
  case Nil
  then show ?case by (cases k) (simp_all add: Let_def)
next
  case (Cons r rs)
  then obtain m where k: "k = Suc m" and m: "length (more_ranges rs) \<le> m"
    by (cases k) auto
  have "(more_ranges rs, caps) \<in> set (regex_run ic n range_tail (more_ranges (r # rs), caps))"
    using run_tail [of "bound_text (fst r)" "bound_text (snd r)" "more_ranges rs" caps ic n] Cons.prems
    by (simp add: range_text_def valid_range_def bound_text_digits)
  moreover have "length (more_ranges rs) < length (more_ranges (r # rs))"
    by simp
  ultimately show ?case
    using Cons.IH [OF _ m] Cons.prems unfolding k star_runs.simps Let_def
    by (auto intro!: bexI [of _ "(more_ranges rs, caps)"] simp del: more_ranges.simps)
qed

lemma run_ranges:
  assumes "valid_range r" and "list_all valid_range rs"
  shows "([], caps) \<in> set (regex_run ic n ranges_regex (range_text r @ more_ranges rs, caps))"
proof -
  have d: "list_all is_decimal (bound_text (fst r))" "list_all is_decimal (bound_text (snd r))"
    using assms by (simp_all add: valid_range_def bound_text_digits)
  have tail: "([], caps) \<in> set (regex_run ic n (Repeat True range_tail) (more_ranges rs, caps))"
    using run_more_ranges [OF assms(2) order_refl] by simp
  show ?thesis
    using run_then [OF run_digits_mem [OF d(1)] run_then [OF run_letter run_then [OF run_digits_mem [OF d(2)]
          run_then [OF tail run_nothing]]]]
    by (simp add: ranges_regex_def range_text_def del: regex_run.simps)
qed

lemma first_range_match:
  assumes "valid_range r" and "list_all valid_range rs" and "std_regex first_range_pattern = Some re"
  shows "regex_match False re (make_range_header (r # rs)) = Some [(1, 6, range_text r @ more_ranges rs)]"
proof -
  let ?t = "range_text r @ more_ranges rs"
  let ?s = "''bytes='' @ ?t"
  have re: "regex_run False (length ?s) re (?s, []) = regex_run False (length ?s) (Then_both (Capture 1 ranges_regex) Nothing) (?t, [])"
  proof -
    have "re = Then_both (Letter (CHR ''b'')) (Then_both (Letter (CHR ''y'')) (Then_both (Letter (CHR ''t''))
       (Then_both (Letter (CHR ''e'')) (Then_both (Letter (CHR ''s'')) (Then_both (Letter (CHR ''=''))
       (Then_both (Capture 1 ranges_regex) Nothing))))))"
      using assms(3) by (simp add: first_range_compiled)
    then show ?thesis
      by (simp del: regex_run.simps(14))
  qed
  have free: "capture_free ranges_regex"
    by (simp add: ranges_regex_def range_tail_def)
  have "regex_match False re ?s = Some [(1, 6, ?t)]"
  proof (rule regex_match_eqI)
    show "([], [(1, 6, ?t)]) \<in> set (regex_run False (length ?s) re (?s, []))"
      using run_ranges [OF assms(1,2), of "[]" False "length ?s"] unfolding re by force
  next
    fix caps assume "([], caps) \<in> set (regex_run False (length ?s) re (?s, []))"
    then show "caps = [(1, 6, ?t)]"
      using run_capture_free [OF free, of _ False "length ?s" "(?t, [])"] unfolding re by force
  qed
  then show ?thesis
    by (simp add: make_range_header_def)
qed

lemma strip_plain: "w \<noteq> [] \<Longrightarrow> \<not> is_space_or_tab (hd w) \<Longrightarrow> \<not> is_space_or_tab (List.last w) \<Longrightarrow> strip w = w"
  using dropWhile_hd [of w is_space_or_tab "[]"] dropWhile_hd [of "rev w" is_space_or_tab "[]"]
  by (simp add: strip_def hd_rev)

lemma range_text_plain:
  assumes "valid_range r"
  shows "list_all (\<lambda>c. \<not> is_space_or_tab c \<and> c \<noteq> CHR '','') (range_text r)"
proof -
  have "list_all is_decimal (bound_text (fst r))" "list_all is_decimal (bound_text (snd r))"
    using assms by (simp_all add: valid_range_def bound_text_digits)
  then have "is_decimal c \<or> c = CHR ''-''" if "c \<in> set (range_text r)" for c
    using that by (auto simp: range_text_def list_all_iff)
  moreover have "\<not> is_space_or_tab c \<and> c \<noteq> CHR '',''" if "is_decimal c \<or> c = CHR ''-''" for c
    using that digit_facts [of c] by (auto simp: is_space_or_tab_def)
  ultimately show ?thesis
    by (simp add: list_all_iff)
qed

lemma stripped_range:
  assumes "valid_range r"
  shows "stripped (range_text r) = [range_text r]" and "stripped (CHR '' '' # range_text r) = [range_text r]"
proof -
  have "range_text r \<noteq> []"
    by (simp add: range_text_def)
  moreover from this have "\<not> is_space_or_tab (hd (range_text r)) \<and> \<not> is_space_or_tab (List.last (range_text r))"
    using range_text_plain [OF assms] by (simp add: list_all_iff)
  ultimately show "stripped (range_text r) = [range_text r]"
    by (simp add: stripped_def strip_plain)
  moreover have "strip (CHR '' '' # range_text r) = strip (range_text r)"
    by (simp add: strip_def is_space_or_tab_def)
  ultimately show "stripped (CHR '' '' # range_text r) = [range_text r]"
    by (simp add: stripped_def split: if_splits)
qed

lemma split_ranges:
  assumes "valid_range r" and "list_all valid_range rs"
  shows "split (range_text r @ more_ranges rs) (CHR '','') = map range_text (r # rs)"
proof -
  have pieces_more: "concat (map stripped (pieces (CHR '','') (u @ more_ranges rs))) = stripped u @ map range_text rs"
    if "CHR '','' \<notin> set u" for u
    using that assms(2)
  proof (induction rs arbitrary: u)
    case Nil
    then show ?case
      using pieces_append [of "CHR '',''" u "[]"] by simp
  next
    case (Cons q rs)
    have "CHR '','' \<notin> set (CHR '' '' # range_text q)"
      using range_text_plain [of q] Cons.prems(2) by (auto simp: list_all_iff)
    then show ?case
      using Cons.IH [of "CHR '' '' # range_text q"] Cons.prems pieces_append [of "CHR '',''" u "more_ranges (q # rs)"]
      by (simp add: stripped_range)
  qed
  have "CHR '','' \<notin> set (range_text r)"
    using range_text_plain [OF assms(1)] by (auto simp: list_all_iff)
  then show ?thesis
    using pieces_more stripped_range(1) [OF assms(1)] by (simp add: split_eq)
qed

text \<open>
  C13. A server reads from a \<open>Range\<close> header exactly the ranges that a client put into it: through the
  two patterns, the splitting at commas and the conversion of the numbers, for any number of
  ranges with bounds of 63 bits and open ends on either side.
\<close>

theorem range_header_roundtrip:
  assumes "rs \<noteq> []" and "list_all valid_range rs"
  shows "parse_range_header (make_range_header rs) [] = (True, rs)"
proof -
  obtain r rs' where rs: "rs = r # rs'"
    using assms(1) by (cases rs) auto
  have steps: "fold (range_step another_regex) (map range_text qs) (Inr (True, acc)) = Inr (True, acc @ qs)"
    if "list_all valid_range qs" for qs acc
    using that by (induction qs arbitrary: acc) (simp_all add: range_step_text)
  obtain re where re: "std_regex first_range_pattern = Some re"
    by (simp add: first_range_compiled)
  have "regex_match False re (make_range_header rs) = Some [(1, 6, range_text r @ more_ranges rs')]"
    using first_range_match [OF _ _ re, of r rs'] assms(2) by (simp add: rs)
  moreover have "split (range_text r @ more_ranges rs') (CHR '','') = map range_text rs"
    using split_ranges [of r rs'] assms(2) by (simp add: rs)
  ultimately show ?thesis
    using steps [OF assms(2), of "[]"] by (simp add: parse_range_header_def re another_range_compiled group_text_def)
qed

theorem range_header_roundtrip_witness:
  "make_range_header [(0, 4), (7, - 1)] = ''bytes=0-4, 7-''
   \<and> parse_range_header ''bytes=0-4, 7-'' [] = (True, [(0, 4), (7, - 1)])"
proof -
  have m: "make_range_header [(0, 4), (7, - 1)] = ''bytes=0-4, 7-''"
    by (simp add: make_range_header_def range_text_def bound_text_def to_string_int_def to_string.simps char_of_eq_iff)
  show ?thesis
    using range_header_roundtrip [of "[(0, 4), (7, - 1)]"] unfolding m by (simp add: valid_range_def)
qed

end
