(* ===== verification/Http_Lines.thy ===== *)
theory Http_Lines
  imports Http_Request_Props
begin

section \<open>Requests as lines of a byte stream\<close>

text \<open>
  Reading a request line and headers from a socket, in whatever pieces and with whatever pauses the
  bytes come, is reading lines from the bytes themselves: the functions below have no sockets and
  no buffers, and the code's refine them.
\<close>

lemma next_line_append: "next_line bs eof = Some (l, rest) \<Longrightarrow> bs = l @ rest"
  by (induction bs arbitrary: l) (auto split: if_splits)

lemma next_line_LF: "LF \<notin> set l \<Longrightarrow> next_line (l @ LF # rest) eof = Some (l @ [LF], rest)"
  by (induction l) auto

definition crlf_line :: "string \<Rightarrow> bool" where
  "crlf_line l \<longleftrightarrow> length l \<ge> 2 \<and> drop (length l - 2) l = crlf"

function read_block :: "string \<Rightarrow> bool \<Rightarrow> Headers \<Rightarrow> (Headers \<times> string) option" where
  "read_block bs eof hs =
     (case next_line bs eof of
        None \<Rightarrow> None
      | Some (l, rest) \<Rightarrow>
          if l = [] then None
          else if crlf_line l
          then if length l = 2 then Some (hs, rest)
               else if length l > HEADER_MAX_LENGTH then None
               else read_block rest eof (add_header l hs)
          else read_block rest eof hs)"
  by auto
termination
  by (relation "measure (\<lambda>(bs, eof, hs). length bs)") (auto dest: next_line_append)

declare read_block.simps [simp del]

lemma read_headers_loop_view:
  assumes "length (fixed_buffer lr) > 1" and "read_headers_loop lr hs st = (ok, hs', st')"
  shows "case read_block (fst (stream_view st)) (snd (stream_view st)) hs of
      None \<Rightarrow> \<not> ok
    | Some (hs2, rest) \<Rightarrow> ok \<and> hs' = hs2 \<and> stream_view st' = (rest, snd (stream_view st))"
  using assms
proof (induction lr hs st rule: read_headers_loop.induct)
  case (1 lr hs st)
  obtain ok1 lr1 st1 where g: "getline lr st = (ok1, lr1, st1)"
    by (metis prod_cases3)
  note gv = getline_view [OF "1.prems"(1) g]
  show ?case
  proof (cases "next_line (fst (stream_view st)) (snd (stream_view st))")
    case None
    then show ?thesis
      using gv g "1.prems"(2) by (subst (asm) read_headers_loop.simps) (simp add: read_block.simps)
  next
    case (Some lrest)
    obtain l rest where l: "next_line (fst (stream_view st)) (snd (stream_view st)) = Some (l, rest)"
      using Some by (cases lrest) simp
    show ?thesis
    proof (cases "l = []")
      case True
      then show ?thesis
        using gv g l "1.prems"(2) by (subst (asm) read_headers_loop.simps) (simp add: read_block.simps)
    next
      case False
      have t: "ok1" "length (fixed_buffer lr1) > 1" "lr_text lr1 = l" "stream_view st1 = (rest, snd (stream_view st))"
        using gv l False "1.prems"(1) by simp_all
      have e: "end_with_crlf lr1 \<longleftrightarrow> crlf_line l"
        by (simp add: end_with_crlf_def crlf_line_def t)
      have g1: "getline lr st = (True, lr1, st1)"
        using g t by simp
      note unf = "1.prems"(2) [unfolded read_headers_loop.simps [of lr] g1, simplified]
      consider "crlf_line l" "length l = 2" | "crlf_line l" "length l \<noteq> 2" "length l > HEADER_MAX_LENGTH"
        | "crlf_line l" "length l \<noteq> 2" "\<not> length l > HEADER_MAX_LENGTH" | "\<not> crlf_line l"
        by blast
      then show ?thesis
      proof cases
        case 1
        then show ?thesis
          using unf False l t e by (simp add: read_block.simps)
      next
        case 2
        then show ?thesis
          using unf False l t e by (simp add: read_block.simps)
      next
        case 3
        then have "read_headers_loop lr1 (add_header l hs) st1 = (ok, hs', st')"
          using unf e t by simp
        then show ?thesis
          using "1.IH"(1) [OF g1 [symmetric] refl refl] 3 e t l False by (subst read_block.simps) (auto split: option.splits)
      next
        case 4
        then have "read_headers_loop lr1 hs st1 = (ok, hs', st')"
          using unf e t by simp
        then show ?thesis
          using "1.IH"(2) [OF g1 [symmetric] refl refl] 4 e t l False by (subst read_block.simps) (auto split: option.splits)
      qed
    qed
  qed
qed

lemma read_headers_view:
  assumes "read_headers hs st = (ok, hs', st')"
  shows "case read_block (fst (stream_view st)) (snd (stream_view st)) hs of
      None \<Rightarrow> \<not> ok
    | Some (hs2, rest) \<Rightarrow> ok \<and> hs' = hs2 \<and> stream_view st' = (rest, snd (stream_view st))"
  using read_headers_loop_view [of "new_line_reader 2048" hs st ok hs' st'] assms
  by (simp add: read_headers_def new_line_reader_def)

lemma read_headers_send_side: "read_headers hs st = (ok, hs', st') \<Longrightarrow> send_side st' = send_side st"
proof -
  have "read_headers_loop lr hs st = (ok, hs', st') \<Longrightarrow> send_side st' = send_side st" for lr
  proof (induction lr hs st rule: read_headers_loop.induct)
    case (1 lr hs st)
    obtain ok1 lr1 st1 where g: "getline lr st = (ok1, lr1, st1)"
      by (metis prod_cases3)
    note s = getline_send_side [OF g]
    show ?case
    proof (cases ok1)
      case True
      with g have g1: "getline lr st = (True, lr1, st1)"
        by simp
      show ?thesis
        using "1.prems" "1.IH"(1) [OF g1 [symmetric] refl refl] "1.IH"(2) [OF g1 [symmetric] refl refl] s
        unfolding read_headers_loop.simps [of lr] g1 by (auto split: if_splits)
    next
      case False
      then show ?thesis
        using "1.prems" s unfolding read_headers_loop.simps [of lr] g by simp
    qed
  qed
  then show "read_headers hs st = (ok, hs', st') \<Longrightarrow> send_side st' = send_side st"
    by (simp add: read_headers_def)
qed

end
