(* ===== verification/Http_Multipart.thy ===== *)
theory Http_Multipart
  imports Http_Lines
begin

section \<open>Multipart bodies: \<open>httplib.h\<close>, \<open>MultipartFormDataParser\<close>\<close>

text \<open>
  The parser is fed with pieces of a body and reports entries and content to callbacks, which work
  on a state of their own and may ask it to stop. \<open>mp_buf\<close> is the part of \<open>buf_\<close> between \<open>buf_spos_\<close>
  and \<open>buf_epos_\<close>; erasing moves the start and appending copies the rest to the front, which a list
  does not show.
\<close>

record MultipartFormDataParser =
  mp_boundary :: string
  mp_state :: nat
  mp_is_valid :: bool
  mp_file :: MultipartFormData
  mp_buf :: string

type_synonym 'a content_receiver = "string \<Rightarrow> 'a \<Rightarrow> bool \<times> 'a"
type_synonym 'a header_receiver = "MultipartFormData \<Rightarrow> 'a \<Rightarrow> bool \<times> 'a"

definition empty_file :: MultipartFormData where
  "empty_file = \<lparr>mp_name = [], mp_content = [], mp_filename = [], mp_content_type = []\<rparr>"

definition new_parser :: "string \<Rightarrow> MultipartFormDataParser" where
  "new_parser boundary = \<lparr>mp_boundary = boundary, mp_state = 0, mp_is_valid = False, mp_file = empty_file, mp_buf = []\<rparr>"

definition parse_multipart_boundary :: "string \<Rightarrow> string option" where
  "parse_multipart_boundary content_type =
     (case find (\<lambda>i. prefix ''boundary='' (drop i content_type)) [0..<Suc (length content_type)] of
        None \<Rightarrow> None
      | Some pos \<Rightarrow>
          let b = drop (pos + 9) content_type;
              b1 = (if length b \<ge> 2 \<and> hd b = CHR 0x22 \<and> List.last b = CHR 0x22 then butlast (tl b) else b) in
          if b1 \<noteq> [] then Some b1 else None)"

fun buf_find :: "string \<Rightarrow> string \<Rightarrow> nat" where
  "buf_find s [] = 0"
| "buf_find s (c # cs) =
     (if c = hd s \<and> length s > length (c # cs) then length (c # cs)
      else if prefix s (c # cs) then 0
      else Suc (buf_find s cs))"

abbreviation buf_erase :: "nat \<Rightarrow> MultipartFormDataParser \<Rightarrow> MultipartFormDataParser" where
  "buf_erase n p \<equiv> p\<lparr>mp_buf := drop n (mp_buf p)\<rparr>"

definition start_with_case_ignore :: "string \<Rightarrow> string \<Rightarrow> bool" where
  "start_with_case_ignore a b \<longleftrightarrow> prefix (map to_lower_char b) (map to_lower_char a)"

definition disposition_pattern :: string where
  "disposition_pattern =
     ''^Content-Disposition:'' @ [CHR 0x5C] @ ''s*form-data;'' @ [CHR 0x5C] @ ''s*name='' @ [CHR 0x22] @ ''(.*?)'' @ [CHR 0x22]
     @ ''(?:;'' @ [CHR 0x5C] @ ''s*filename='' @ [CHR 0x22] @ ''(.*?)'' @ [CHR 0x22] @ '')?(?:;'' @ [CHR 0x5C] @ ''s*filename''
     @ [CHR 0x5C] @ ''*='' @ [CHR 0x5C] @ ''S+)?'' @ [CHR 0x5C] @ ''s*$''"

definition file_header :: "string \<Rightarrow> MultipartFormData \<Rightarrow> MultipartFormData" where
  "file_header header file =
     (if start_with_case_ignore header ''content-type:'' then file\<lparr>mp_content_type := trim_copy (drop 13 header)\<rparr>
      else case Option.bind (std_regex disposition_pattern) (\<lambda>re. regex_match True re header) of
             Some m \<Rightarrow> file\<lparr>mp_name := group_text 1 m, mp_filename := group_text 2 m\<rparr>
           | None \<Rightarrow> file)"

text \<open>A pass of the loop of \<open>parse\<close> either goes on or returns from \<open>parse\<close>.\<close>

datatype 'a parse_pass =
    Goes_on MultipartFormDataParser 'a
  | Returns bool MultipartFormDataParser 'a

definition pass_initial :: "MultipartFormDataParser \<Rightarrow> 'a \<Rightarrow> 'a parse_pass" where
  "pass_initial p a =
     (let pattern = ''--'' @ mp_boundary p @ crlf;
          p1 = buf_erase (buf_find pattern (mp_buf p)) p in
      if length pattern > length (mp_buf p1) then Returns True p1 a
      else if \<not> prefix pattern (mp_buf p1) then Returns False p1 a
      else Goes_on ((buf_erase (length pattern) p1)\<lparr>mp_state := 1\<rparr>) a)"

definition pass_entry :: "MultipartFormDataParser \<Rightarrow> 'a \<Rightarrow> 'a parse_pass" where
  "pass_entry p a =
     Goes_on (p\<lparr>mp_file := (mp_file p)\<lparr>mp_name := [], mp_filename := [], mp_content_type := []\<rparr>, mp_state := 2\<rparr>) a"

lemma buf_find_le: "buf_find s b \<le> length b"
  by (induction b) auto

function header_lines :: "'a header_receiver \<Rightarrow> MultipartFormDataParser \<Rightarrow> 'a \<Rightarrow> 'a parse_pass" where
  "header_lines header_callback p a =
     (let pos = buf_find crlf (mp_buf p) in
      if pos < length (mp_buf p)
      then if pos = 0
           then (case header_callback (mp_file p) a of
                   (False, a') \<Rightarrow> Returns False (p\<lparr>mp_is_valid := False\<rparr>) a'
                 | (True, a') \<Rightarrow> Goes_on ((buf_erase 2 p)\<lparr>mp_state := 3\<rparr>) a')
           else header_lines header_callback
                  (buf_erase (pos + 2) (p\<lparr>mp_file := file_header (take pos (mp_buf p)) (mp_file p)\<rparr>)) a
      else Returns True p a)"
  by auto
termination by (relation "measure (\<lambda>(h, p, a). length (mp_buf p))") auto

declare header_lines.simps [simp del]

definition pass_headers :: "'a header_receiver \<Rightarrow> MultipartFormDataParser \<Rightarrow> 'a \<Rightarrow> 'a parse_pass" where
  "pass_headers header_callback p a =
     (if buf_find crlf (mp_buf p) > HEADER_MAX_LENGTH then Returns False p a else header_lines header_callback p a)"

definition pass_body :: "'a content_receiver \<Rightarrow> MultipartFormDataParser \<Rightarrow> 'a \<Rightarrow> 'a parse_pass" where
  "pass_body content_callback p a =
     (let pattern = crlf @ ''--'' in
      if length pattern > length (mp_buf p) then Returns True p a
      else let pos = buf_find pattern (mp_buf p) in
        case content_callback (take pos (mp_buf p)) a of
          (False, a') \<Rightarrow> Returns False (p\<lparr>mp_is_valid := False\<rparr>) a'
        | (True, a') \<Rightarrow>
            let p1 = buf_erase pos p; pattern1 = crlf @ ''--'' @ mp_boundary p in
            if length pattern1 > length (mp_buf p1) then Returns True p1 a'
            else let pos1 = buf_find pattern1 (mp_buf p1) in
              if pos1 < length (mp_buf p1)
              then (case content_callback (take pos1 (mp_buf p1)) a' of
                      (False, a2) \<Rightarrow> Returns False (p1\<lparr>mp_is_valid := False\<rparr>) a2
                    | (True, a2) \<Rightarrow> Goes_on ((buf_erase (pos1 + length pattern1) p1)\<lparr>mp_state := 4\<rparr>) a2)
              else (case content_callback (take (length pattern1) (mp_buf p1)) a' of
                      (False, a2) \<Rightarrow> Returns False (p1\<lparr>mp_is_valid := False\<rparr>) a2
                    | (True, a2) \<Rightarrow> Goes_on (buf_erase (length pattern1) p1) a2))"

definition pass_boundary :: "MultipartFormDataParser \<Rightarrow> 'a \<Rightarrow> 'a parse_pass" where
  "pass_boundary p a =
     (if 2 > length (mp_buf p) then Returns True p a
      else if prefix crlf (mp_buf p) then Goes_on ((buf_erase 2 p)\<lparr>mp_state := 1\<rparr>) a
      else let pattern = ''--'' @ crlf in
        if length pattern > length (mp_buf p) then Returns True p a
        else if prefix pattern (mp_buf p) then Goes_on (p\<lparr>mp_is_valid := True, mp_buf := []\<rparr>) a
        else Returns True p a)"

definition mp_pass :: "'a content_receiver \<Rightarrow> 'a header_receiver \<Rightarrow> MultipartFormDataParser \<Rightarrow> 'a \<Rightarrow> 'a parse_pass" where
  "mp_pass content_callback header_callback p a =
     (if mp_state p = 0 then pass_initial p a
      else if mp_state p = 1 then pass_entry p a
      else if mp_state p = 2 then pass_headers header_callback p a
      else if mp_state p = 3 then pass_body content_callback p a
      else pass_boundary p a)"

text \<open>Every pass that goes on uses up some of the buffer, or moves from a new entry to its headers.\<close>

definition pass_measure :: "MultipartFormDataParser \<Rightarrow> nat" where
  "pass_measure p = 2 * length (mp_buf p) + (if mp_state p = 1 then 1 else 0)"

lemma header_lines_shorter:
  "header_lines h p a = Goes_on p' a' \<Longrightarrow> length (mp_buf p') < length (mp_buf p) \<and> mp_state p' = 3"
proof (induction h p a rule: header_lines.induct)
  case (1 h p a)
  let ?pos = "buf_find crlf (mp_buf p)"
  show ?case
  proof (cases "?pos < length (mp_buf p) \<and> ?pos \<noteq> 0")
    case True
    then have "header_lines h (buf_erase (?pos + 2) (p\<lparr>mp_file := file_header (take ?pos (mp_buf p)) (mp_file p)\<rparr>)) a
        = Goes_on p' a'"
      using "1.prems" by (subst (asm) header_lines.simps) (simp add: Let_def)
    from "1.IH" [OF refl _ _ this] True show ?thesis
      by auto
  next
    case False
    then show ?thesis
      using "1.prems" by (subst (asm) header_lines.simps) (auto simp: Let_def split: if_splits prod.splits bool.splits)
  qed
qed

lemma mp_pass_measure:
  assumes "mp_pass c h p a = Goes_on p' a'" and "mp_buf p \<noteq> []"
  shows "pass_measure p' < pass_measure p"
proof -
  have *: "\<And>n b. 0 < n \<Longrightarrow> b \<noteq> [] \<Longrightarrow> length (drop n b) < length b"
    by simp
  consider "mp_state p = 0" | "mp_state p = 1" | "mp_state p = 2" | "mp_state p = 3" | "mp_state p > 3"
    by linarith
  then show ?thesis
  proof cases
    case 1
    then show ?thesis
      using assms by (auto simp: mp_pass_def pass_initial_def pass_measure_def Let_def split: if_splits)
  next
    case 2
    then show ?thesis
      using assms by (auto simp: mp_pass_def pass_entry_def pass_measure_def)
  next
    case 3
    then show ?thesis
      using assms header_lines_shorter [of h p a p' a']
      by (auto simp: mp_pass_def pass_headers_def pass_measure_def split: if_splits)
  next
    case 4
    then show ?thesis
      using assms by (auto simp: mp_pass_def pass_body_def pass_measure_def Let_def split: if_splits prod.splits bool.splits)
  next
    case 5
    then show ?thesis
      using assms by (auto simp: mp_pass_def pass_boundary_def pass_measure_def Let_def split: if_splits)
  qed
qed

function mp_parse_loop :: "'a content_receiver \<Rightarrow> 'a header_receiver \<Rightarrow> MultipartFormDataParser \<Rightarrow> 'a
    \<Rightarrow> bool \<times> MultipartFormDataParser \<times> 'a" where
  "mp_parse_loop c h p a =
     (if mp_buf p = [] then (True, p, a)
      else case mp_pass c h p a of
             Goes_on p' a' \<Rightarrow> mp_parse_loop c h p' a'
           | Returns r p' a' \<Rightarrow> (r, p', a'))"
  by auto
termination by (relation "measure (\<lambda>(c, h, p, a). pass_measure p)") (auto intro: mp_pass_measure)

declare mp_parse_loop.simps [simp del]

definition mp_parse :: "string \<Rightarrow> 'a content_receiver \<Rightarrow> 'a header_receiver \<Rightarrow> MultipartFormDataParser \<Rightarrow> 'a
    \<Rightarrow> bool \<times> MultipartFormDataParser \<times> 'a" where
  "mp_parse buf c h p a = mp_parse_loop c h (p\<lparr>mp_buf := mp_buf p @ buf\<rparr>) a"

end
