(* ===== verification/Http_Content.thy ===== *)
theory Http_Content
  imports Http_Multipart
begin

section \<open>Reading the body of a request: \<open>httplib.h\<close>\<close>

text \<open>
  Bodies with a length, in chunks or up to the end of the stream, and what the server does with
  them: storing a body, parsing form parameters, or feeding the parser of multipart forms.
\<close>

definition RECV_BUFSIZ :: nat where "RECV_BUFSIZ = 4096"
definition FORM_URL_ENCODED_PAYLOAD_MAX_LENGTH :: nat where "FORM_URL_ENCODED_PAYLOAD_MAX_LENGTH = 8192"
definition body_max_size :: int where "body_max_size = 2 ^ 63 - 1"

subsection \<open>The three ways a body is delimited\<close>

text \<open>A receiver that refuses a piece ends the reading. \<open>r\<close> of the code is what has been read of \<open>len\<close>.\<close>

function read_content_with_length :: "nat \<Rightarrow> 'a content_receiver \<Rightarrow> 'a \<Rightarrow> SocketStream \<Rightarrow> bool \<times> 'a \<times> SocketStream" where
  "read_content_with_length left out a st =
     (if left = 0 then (True, a, st)
      else case ss_read (min left RECV_BUFSIZ) st of
             (None, st') \<Rightarrow> (False, a, st')
           | (Some w, st') \<Rightarrow>
               if w = [] then (False, a, st')
               else case out w a of
                      (False, a') \<Rightarrow> (False, a', st')
                    | (True, a') \<Rightarrow> read_content_with_length (left - length w) out a' st')"
  by auto
termination
proof (relation "measure (\<lambda>(left, out, a, st). left)", goal_cases)
  case (2 left out a st x y w z aa)
  then show ?case by (cases w) auto
qed simp

function skip_content_with_length :: "nat \<Rightarrow> SocketStream \<Rightarrow> SocketStream" where
  "skip_content_with_length left st =
     (if left = 0 then st
      else case ss_read (min left RECV_BUFSIZ) st of
             (None, st') \<Rightarrow> st'
           | (Some w, st') \<Rightarrow> if w = [] then st' else skip_content_with_length (left - length w) st')"
  by auto
termination
proof (relation "measure (\<lambda>(left, st). left)", goal_cases)
  case (2 left st x y w)
  then show ?case by (cases w) auto
qed simp

lemma recv_bufsiz_pos: "RECV_BUFSIZ > 0"
  by (simp add: RECV_BUFSIZ_def)

function read_content_without_length :: "'a content_receiver \<Rightarrow> 'a \<Rightarrow> SocketStream \<Rightarrow> bool \<times> 'a \<times> SocketStream" where
  "read_content_without_length out a st =
     (case ss_read RECV_BUFSIZ st of
        (None, st') \<Rightarrow> (False, a, st')
      | (Some w, st') \<Rightarrow>
          if w = [] then (True, a, st')
          else case out w a of
                 (False, a') \<Rightarrow> (False, a', st')
               | (True, a') \<Rightarrow> read_content_without_length out a' st')"
  by auto
termination
proof (relation "measure (\<lambda>(out, a, st). length (fst (stream_view st)))", goal_cases)
  case (2 out a st x st' w y a')
  then have "ss_read RECV_BUFSIZ st = (Some w, st')"
    by simp
  from ss_read_view(3) [OF this recv_bufsiz_pos, of w] 2 show ?case
    by simp
qed simp

declare read_content_with_length.simps [simp del] skip_content_with_length.simps [simp del]
  read_content_without_length.simps [simp del]

lemma read_content_with_length_view:
  "read_content_with_length left out a st = (True, a', st') \<Longrightarrow> length (fst (stream_view st')) \<le> length (fst (stream_view st))"
proof (induction left out a st rule: read_content_with_length.induct)
  case (1 left out a st)
  show ?case
  proof (cases "left = 0")
    case True
    then show ?thesis
      using "1.prems" by (subst (asm) read_content_with_length.simps) simp
  next
    case False
    then have pos: "min left RECV_BUFSIZ > 0"
      by (simp add: RECV_BUFSIZ_def)
    obtain r st1 where rd: "ss_read (min left RECV_BUFSIZ) st = (r, st1)"
      by fastforce
    obtain w a1 where w: "r = Some w" "w \<noteq> []" "out w a = (True, a1)"
      and rest: "read_content_with_length (left - length w) out a1 st1 = (True, a', st')"
      using "1.prems" False rd
      by (subst (asm) read_content_with_length.simps) (auto split: option.splits if_splits prod.splits bool.splits)
    from "1.IH" [OF False rd [symmetric] w(1,2) w(3) [symmetric] refl rest] show ?thesis
      using ss_read_view(3) [OF rd pos, of w] w by simp
  qed
qed

text \<open>
  A chunk that is not followed by an empty line ends the body, which then counts as complete: the
  loop is left with a length that is not 0.
\<close>

function chunk_loop :: "line_reader \<Rightarrow> 'a content_receiver \<Rightarrow> 'a \<Rightarrow> SocketStream \<Rightarrow> bool \<times> 'a \<times> SocketStream" where
  "chunk_loop lr out a st =
     (case strtoul16 (lr_ptr lr) of
        None \<Rightarrow> (False, a, st)
      | Some chunk_len \<Rightarrow>
          if chunk_len = - 1 then (False, a, st)
          else if chunk_len = 0
          then (case getline lr st of (ok, lr1, st1) \<Rightarrow> (ok \<and> lr_ptr lr1 = crlf, a, st1))
          else case read_content_with_length (unat chunk_len) out a st of
                 (False, a1, st1) \<Rightarrow> (False, a1, st1)
               | (True, a1, st1) \<Rightarrow>
                   (case getline lr st1 of
                      (False, lr2, st2) \<Rightarrow> (False, a1, st2)
                    | (True, lr2, st2) \<Rightarrow>
                        if lr_ptr lr2 \<noteq> crlf then (True, a1, st2)
                        else case getline lr2 st2 of
                               (False, lr3, st3) \<Rightarrow> (False, a1, st3)
                             | (True, lr3, st3) \<Rightarrow> chunk_loop lr3 out a1 st3))"
  by auto
termination
proof (relation "measure (\<lambda>(lr, out, a, st). length (fst (stream_view st)))", goal_cases)
  case (2 lr out a st n x y a1 st1 u v lr2 st2 u' v' lr3 st3)
  have "length (fst (stream_view st1)) \<le> length (fst (stream_view st))"
    using 2 read_content_with_length_view [of "unat n" out a st a1 st1] by auto
  moreover have "length (fst (stream_view st2)) < length (fst (stream_view st1))"
    using 2 getline_shorter [of lr st1 lr2 st2] by auto
  moreover have "length (fst (stream_view st3)) < length (fst (stream_view st2))"
    using 2 getline_shorter [of lr2 st2 lr3 st3] by auto
  ultimately show ?case by simp
qed simp

declare chunk_loop.simps [simp del]

definition read_content_chunked :: "'a content_receiver \<Rightarrow> 'a \<Rightarrow> SocketStream \<Rightarrow> bool \<times> 'a \<times> SocketStream" where
  "read_content_chunked out a st =
     (case getline (new_line_reader 16) st of
        (False, lr, st') \<Rightarrow> (False, a, st')
      | (True, lr, st') \<Rightarrow> chunk_loop lr out a st')"

definition is_chunked_transfer_encoding :: "Headers \<Rightarrow> bool" where
  "is_chunked_transfer_encoding headers = same_name (get_header_value headers ''Transfer-Encoding'') ''chunked''"

definition contains :: "string \<Rightarrow> string \<Rightarrow> bool" where
  "contains s w \<longleftrightarrow> list_ex (\<lambda>i. prefix w (drop i s)) [0..<Suc (length s)]"

text \<open>
  The library is built without zlib and brotli, so a compressed body is refused. \<open>None\<close> says that
  the status stays as it is.
\<close>

definition unsupported_encoding :: "string \<Rightarrow> bool" where
  "unsupported_encoding encoding \<longleftrightarrow> encoding = ''gzip'' \<or> encoding = ''deflate'' \<or> contains encoding ''br''"

definition detail_read_content ::
  "Headers \<Rightarrow> u64 \<Rightarrow> 'a content_receiver \<Rightarrow> 'a \<Rightarrow> SocketStream \<Rightarrow> int option \<times> bool \<times> 'a \<times> SocketStream" where
  "detail_read_content headers payload_max_length receiver a st =
     (if unsupported_encoding (get_header_value headers ''Content-Encoding'') then (Some 415, False, a, st)
      else if is_chunked_transfer_encoding headers
      then (case read_content_chunked receiver a st of (ok, a', st') \<Rightarrow> (if ok then None else Some 400, ok, a', st'))
      else if \<not> has_header headers ''Content-Length''
      then (case read_content_without_length receiver a st of (ok, a', st') \<Rightarrow> (if ok then None else Some 400, ok, a', st'))
      else let len = get_header_value_u64 headers ''Content-Length'' in
        if len > payload_max_length then (Some 413, False, a, skip_content_with_length (unat len) st)
        else if len > 0
        then (case read_content_with_length (unat len) receiver a st of
                (ok, a', st') \<Rightarrow> (if ok then None else Some 400, ok, a', st'))
        else (None, True, a, st))"

subsection \<open>What the server does with the pieces\<close>

text \<open>
  The receivers of \<open>Server::read_content\<close> fill the request; the number is the iterator \<open>cur\<close>, the
  position of the entry that content goes to.
\<close>

type_synonym filling = "Request \<times> nat"

definition regular_receiver :: "filling content_receiver" where
  "regular_receiver buf a =
     (case a of (req, cur) \<Rightarrow>
        if int (length (req_body req)) + int (length buf) > body_max_size then (False, a)
        else (True, req\<lparr>req_body := req_body req @ buf\<rparr>, cur))"

definition multipart_header :: "filling header_receiver" where
  "multipart_header file a =
     (case a of (req, cur) \<Rightarrow>
        (True, req\<lparr>req_files := mm_emplace str_less (mp_name file) file (req_files req)\<rparr>,
         mm_position str_less (mp_name file) (req_files req)))"

definition multipart_receiver :: "filling content_receiver" where
  "multipart_receiver buf a =
     (case a of (req, cur) \<Rightarrow>
        let entry = req_files req ! cur; content = mp_content (snd entry) in
        if int (length content) + int (length buf) > body_max_size then (False, a)
        else (True, req\<lparr>req_files := (req_files req)[cur := (fst entry, (snd entry)\<lparr>mp_content := content @ buf\<rparr>)]\<rparr>, cur))"

definition parsing_receiver :: "(MultipartFormDataParser \<times> filling) content_receiver" where
  "parsing_receiver buf pa =
     (case pa of (p, a) \<Rightarrow>
        case mp_parse buf multipart_receiver multipart_header p a of (ok, p', a') \<Rightarrow> (ok, p', a'))"

text \<open>The status that is set, if any, the verdict, the request and the stream.\<close>

definition read_content_core :: "u64 \<Rightarrow> Request \<Rightarrow> SocketStream \<Rightarrow> int option \<times> bool \<times> Request \<times> SocketStream" where
  "read_content_core payload_max_length req st =
     (if is_multipart_form_data req
      then (case parse_multipart_boundary (get_header_value (req_headers req) ''Content-Type'') of
              None \<Rightarrow> (Some 400, False, req, st)
            | Some boundary \<Rightarrow>
                if req_method req = ''DELETE'' \<and> \<not> has_header (req_headers req) ''Content-Length'' then (None, True, req, st)
                else (case detail_read_content (req_headers req) payload_max_length parsing_receiver
                             (new_parser boundary, req, 0) st of
                        (s, False, (p, req', cur), st') \<Rightarrow> (s, False, req', st')
                      | (s, True, (p, req', cur), st') \<Rightarrow>
                          if mp_is_valid p then (s, True, req', st') else (Some 400, False, req', st')))
      else if req_method req = ''DELETE'' \<and> \<not> has_header (req_headers req) ''Content-Length'' then (None, True, req, st)
      else case detail_read_content (req_headers req) payload_max_length regular_receiver (req, 0) st of
             (s, ok, (req', cur), st') \<Rightarrow> (s, ok, req', st'))"

definition read_content :: "u64 \<Rightarrow> Request \<Rightarrow> SocketStream \<Rightarrow> int option \<times> bool \<times> Request \<times> SocketStream" where
  "read_content payload_max_length req st =
     (case read_content_core payload_max_length req st of
        (s, False, req', st') \<Rightarrow> (s, False, req', st')
      | (s, True, req', st') \<Rightarrow>
          if prefix ''application/x-www-form-urlencoded'' (get_header_value (req_headers req') ''Content-Type'')
          then if length (req_body req') > FORM_URL_ENCODED_PAYLOAD_MAX_LENGTH then (Some 413, False, req', st')
               else (s, True, req'\<lparr>req_params := parse_query_text (req_body req') (req_params req')\<rparr>, st')
          else (s, True, req', st'))"

end
