(* ===== verification/Http_Response.thy ===== *)
theory Http_Response
  imports Http_Content
begin

section \<open>Writing a response: \<open>httplib.h\<close>\<close>

text \<open>
  The server object, applying ranges to a body, the headers that are added to every response, and
  writing it to the connection.
\<close>

subsection \<open>Ranges of a body\<close>

text \<open>\<open>size_t\<close> is 64 bits wide; bodies are shorter than \<open>2 ^ 63\<close> bytes.\<close>

definition get_range_offset_and_length :: "Range \<Rightarrow> nat \<Rightarrow> u64 \<times> u64" where
  "get_range_offset_and_length r content_length =
     (if fst r = - 1 \<and> snd r = - 1 then (0, of_nat content_length)
      else let slen = int content_length;
               r1 = (if fst r = - 1 then (max 0 (slen - snd r), slen - 1) else r);
               r2 = (if snd r1 = - 1 then (fst r1, slen - 1) else r1) in
           (word_of_int (fst r2), word_of_int (snd r2 - fst r2) + 1))"

definition make_content_range_header_field :: "u64 \<Rightarrow> u64 \<Rightarrow> nat \<Rightarrow> string" where
  "make_content_range_header_field offset len content_length =
     ''bytes '' @ to_string (unat offset) @ ''-'' @ to_string (unat (offset + len - 1)) @ ''/'' @ to_string content_length"

definition boundary_chars :: string where
  "boundary_chars = ''0123456789ABCDEFGHIJKLMNOPQRSTUVWXYZabcdefghijklmnopqrstuvwxyz''"

text \<open>\<open>rnd\<close> are the numbers the random engine gives.\<close>

definition make_multipart_data_boundary :: "(nat \<Rightarrow> nat) \<Rightarrow> string" where
  "make_multipart_data_boundary rnd =
     ''--cpp-httplib-multipart-data-'' @ map (\<lambda>i. boundary_chars ! (rnd i mod 62)) [0..<16]"

text \<open>\<open>None\<close> says that a range begins behind the end of the body.\<close>

primrec ranges_data :: "string \<Rightarrow> string \<Rightarrow> string \<Rightarrow> Range list \<Rightarrow> string option" where
  "ranges_data body boundary content_type [] = Some (''--'' @ boundary @ ''--'' @ crlf)"
| "ranges_data body boundary content_type (r # rs) =
     (case get_range_offset_and_length r (length body) of (offset, len) \<Rightarrow>
        if unat offset < length body
        then map_option (\<lambda>rest.
               ''--'' @ boundary @ crlf @ (if content_type \<noteq> [] then ''Content-Type: '' @ content_type @ crlf else [])
               @ ''Content-Range: '' @ make_content_range_header_field offset len (length body) @ crlf @ crlf
               @ take (unat len) (drop (unat offset) body) @ crlf @ rest)
             (ranges_data body boundary content_type rs)
        else None)"

definition make_multipart_ranges_data :: "Range list \<Rightarrow> string \<Rightarrow> string \<Rightarrow> string \<Rightarrow> string option" where
  "make_multipart_ranges_data ranges body boundary content_type = ranges_data body boundary content_type ranges"

fun erase_first :: "string \<Rightarrow> Headers \<Rightarrow> Headers" where
  "erase_first key [] = []"
| "erase_first key (e # es) = (if \<not> ci key (fst e) \<and> \<not> ci (fst e) key then es else e # erase_first key es)"

text \<open>
  Without compression libraries \<open>encoding_type\<close> is always \<open>None\<close>, so the body is sent as it is.
\<close>

definition multipart_type :: "(nat \<Rightarrow> nat) \<Rightarrow> Request \<Rightarrow> Response \<Rightarrow> Response" where
  "multipart_type rnd req res =
     (if length (req_ranges req) > 1
      then res\<lparr>res_headers := mm_emplace ci ''Content-Type''
                 (''multipart/byteranges; boundary='' @ make_multipart_data_boundary rnd)
                 (erase_first ''Content-Type'' (res_headers res))\<rparr>
      else res)"

definition old_type :: "Request \<Rightarrow> Response \<Rightarrow> string" where
  "old_type req res =
     (if length (req_ranges req) > 1
      then (case mm_equal_range ci ''Content-Type'' (res_headers res) of v # _ \<Rightarrow> v | [] \<Rightarrow> []) else [])"

definition range_body :: "(nat \<Rightarrow> nat) \<Rightarrow> Request \<Rightarrow> string \<Rightarrow> Response \<Rightarrow> Response" where
  "range_body rnd req content_type res =
     (case req_ranges req of
        [] \<Rightarrow> res
      | [r] \<Rightarrow>
          (case get_range_offset_and_length r (length (res_body res)) of (offset, len) \<Rightarrow>
             let res1 = res_set_header ''Content-Range''
                          (make_content_range_header_field offset len (length (res_body res))) res in
             if unat offset < length (res_body res)
             then res1\<lparr>res_body := take (unat len) (drop (unat offset) (res_body res))\<rparr>
             else res1\<lparr>res_body := [], res_status := 416\<rparr>)
      | _ \<Rightarrow>
          (case make_multipart_ranges_data (req_ranges req) (res_body res) (make_multipart_data_boundary rnd) content_type of
             Some data \<Rightarrow> res\<lparr>res_body := data\<rparr>
           | None \<Rightarrow> res\<lparr>res_body := [], res_status := 416\<rparr>))"

definition apply_ranges :: "(nat \<Rightarrow> nat) \<Rightarrow> Request \<Rightarrow> Response \<Rightarrow> Response" where
  "apply_ranges rnd req res =
     (let res1 = multipart_type rnd req res in
      if res_body res1 = [] then res1
      else let res2 = range_body rnd req (old_type req res) res1 in
           res_set_header ''Content-Length'' (to_string (length (res_body res2))) res2)"

subsection \<open>The server object\<close>

text \<open>
  A handler returns normally or throws, an exception with a text or something else, with the
  response as it had become. \<open>Server\<close> has the members that requests depend on. Handlers
  with a content reader and a logger are left out: the program registers none, and the code does
  nothing with empty ones.
\<close>

datatype handler_result = Returned Response | Threw string Response | Threw_unknown Response

type_synonym handler = "Request \<Rightarrow> Response \<Rightarrow> handler_result"
type_synonym handlers = "(regex \<times> handler) list"

record mount_entry =
  mount_point :: string
  base_dir :: string
  mount_headers :: Headers

record Server =
  svr_sock :: int
  is_running :: bool
  base_dirs :: "mount_entry list"
  mime_map :: "(string \<times> string) list"
  file_request_handler :: "(Request \<Rightarrow> Response \<Rightarrow> Response) option"
  get_handlers :: handlers
  post_handlers :: handlers
  put_handlers :: handlers
  patch_handlers :: handlers
  delete_handlers :: handlers
  options_handlers :: handlers
  error_handler :: "(Request \<Rightarrow> Response \<Rightarrow> bool \<times> Response) option"
  exception_handler :: "(Request \<Rightarrow> Response \<Rightarrow> string \<Rightarrow> Response) option"
  pre_routing_handler :: "(Request \<Rightarrow> Response \<Rightarrow> bool \<times> Response) option"
  post_routing_handler :: "(Request \<Rightarrow> Response \<Rightarrow> Response) option"
  expect_100_continue_handler :: "(Request \<Rightarrow> Response \<Rightarrow> int \<times> Response) option"
  default_headers :: Headers
  keep_alive_max_count :: nat
  keep_alive_timeout_sec :: nat
  payload_max_length :: u64

definition INVALID_SOCKET :: int where "INVALID_SOCKET = - 1"

definition new_Server :: Server where
  "new_Server =
     \<lparr>svr_sock = INVALID_SOCKET, is_running = False, base_dirs = [], mime_map = [], file_request_handler = None,
      get_handlers = [], post_handlers = [], put_handlers = [], patch_handlers = [], delete_handlers = [],
      options_handlers = [], error_handler = None, exception_handler = None, pre_routing_handler = None,
      post_routing_handler = None, expect_100_continue_handler = None, default_headers = [],
      keep_alive_max_count = 5, keep_alive_timeout_sec = 5, payload_max_length = - 1\<rparr>"

text \<open>\<open>None\<close> is the exception of a pattern that is not a regular expression.\<close>

definition Server_Get :: "string \<Rightarrow> handler \<Rightarrow> Server \<Rightarrow> Server option" where
  "Server_Get pattern handler s =
     map_option (\<lambda>re. s\<lparr>get_handlers := get_handlers s @ [(re, handler)]\<rparr>) (std_regex pattern)"

subsection \<open>The response on the wire\<close>

definition connection_headers :: "Server \<Rightarrow> bool \<Rightarrow> Request \<Rightarrow> Response \<Rightarrow> Response" where
  "connection_headers svr close_connection req res =
     (if close_connection \<or> get_header_value (req_headers req) ''Connection'' = ''close''
      then res_set_header ''Connection'' ''close'' res
      else res_set_header ''Keep-Alive''
             (''timeout='' @ to_string (keep_alive_timeout_sec svr) @ '', max='' @ to_string (keep_alive_max_count svr)) res)"

definition additional_headers :: "Server \<Rightarrow> bool \<Rightarrow> Request \<Rightarrow> Response \<Rightarrow> Response" where
  "additional_headers svr close_connection req res =
     (let res1 = connection_headers svr close_connection req res;
          res2 = (if \<not> has_header (res_headers res1) ''Content-Type'' \<and> res_body res1 \<noteq> []
                  then res_set_header ''Content-Type'' ''text/plain'' res1 else res1);
          res3 = (if \<not> has_header (res_headers res2) ''Content-Length'' \<and> res_body res2 = []
                  then res_set_header ''Content-Length'' ''0'' res2 else res2) in
      if \<not> has_header (res_headers res3) ''Accept-Ranges'' \<and> req_method req = ''HEAD''
      then res_set_header ''Accept-Ranges'' ''bytes'' res3 else res3)"

definition header_line :: "string \<times> string \<Rightarrow> string" where
  "header_line h = format_text (c_str (fst h) @ '': '' @ c_str (snd h) @ crlf)"

definition write_headers :: "Headers \<Rightarrow> string" where
  "write_headers headers = concat (map header_line headers) @ crlf"

definition status_line :: "int \<Rightarrow> string" where
  "status_line status = format_text (''HTTP/1.1 '' @ to_string_int status @ '' '' @ status_message status @ crlf)"

text \<open>
  The verdict, the response as it was sent and the stream. \<open>None\<close> is a failed assertion: the status
  was never set. Headers and body are written by separate calls of \<open>write_data\<close>, and the verdict of
  the first is discarded.
\<close>

definition write_response_core ::
  "(nat \<Rightarrow> nat) \<Rightarrow> Server \<Rightarrow> bool \<Rightarrow> Request \<Rightarrow> Response \<Rightarrow> bool \<Rightarrow> SocketStream \<Rightarrow> (bool \<times> Response \<times> SocketStream) option" where
  "write_response_core rnd svr close_connection req res need_apply_ranges st =
     (if res_status res = - 1 then None
      else
        let (handled, res1) = (case error_handler svr of
              Some h \<Rightarrow> if 400 \<le> res_status res then h req res else (False, res)
            | None \<Rightarrow> (False, res));
            res2 = (if need_apply_ranges \<or> handled then apply_ranges rnd req res1 else res1);
            res3 = additional_headers svr close_connection req res2;
            res4 = (case post_routing_handler svr of Some h \<Rightarrow> h req res3 | None \<Rightarrow> res3);
            st1 = snd (write_data (status_line (res_status res4) @ write_headers (res_headers res4)) st) in
        if req_method req \<noteq> ''HEAD'' \<and> res_body res4 \<noteq> []
        then (case write_data (res_body res4) st1 of (ok, st2) \<Rightarrow> Some (ok, res4, st2))
        else Some (True, res4, st1))"

definition write_response ::
  "(nat \<Rightarrow> nat) \<Rightarrow> Server \<Rightarrow> bool \<Rightarrow> Request \<Rightarrow> Response \<Rightarrow> SocketStream \<Rightarrow> (bool \<times> Response \<times> SocketStream) option" where
  "write_response rnd svr close_connection req res st = write_response_core rnd svr close_connection req res False st"

definition write_response_with_content ::
  "(nat \<Rightarrow> nat) \<Rightarrow> Server \<Rightarrow> bool \<Rightarrow> Request \<Rightarrow> Response \<Rightarrow> SocketStream \<Rightarrow> (bool \<times> Response \<times> SocketStream) option" where
  "write_response_with_content rnd svr close_connection req res st = write_response_core rnd svr close_connection req res True st"

end
