(* ===== verification/Http_Serve.thy ===== *)
theory Http_Serve
  imports Http_Response
begin

section \<open>Serving requests: \<open>httplib.h\<close>, \<open>Server\<close>\<close>

text \<open>
  What the server sees of the world besides the connection: the files, the address of the peer
  (empty and -1 when the system does not tell), random numbers, and at which times the listening
  socket is still open, which another thread may close.
\<close>

record http_env =
  env_files :: "string \<Rightarrow> string option"
  env_remote :: "string \<times> int"
  env_random :: "nat \<Rightarrow> nat"
  env_open :: "nat \<Rightarrow> bool"

subsection \<open>Finding a handler\<close>

definition file_response :: "Server \<Rightarrow> mount_entry \<Rightarrow> Request \<Rightarrow> string \<Rightarrow> string \<Rightarrow> Response \<Rightarrow> Response" where
  "file_response svr entry req path content res =
     (let res1 = res\<lparr>res_body := content\<rparr>;
          res2 = (case find_content_type path (mime_map svr) of
                    Some t \<Rightarrow> res_set_header ''Content-Type'' (c_str t) res1 | None \<Rightarrow> res1);
          res3 = fold (\<lambda>kv r. res_set_header (c_str (fst kv)) (snd kv) r) (mount_headers entry) res2 in
      res3\<lparr>res_status := (if has_header (req_headers req) ''Range'' then 206 else 200)\<rparr>)"

fun handle_file_entries :: "(string \<Rightarrow> string option) \<Rightarrow> Server \<Rightarrow> mount_entry list \<Rightarrow> Request \<Rightarrow> Response \<Rightarrow> bool \<Rightarrow> Response option" where
  "handle_file_entries files svr [] req res head = None"
| "handle_file_entries files svr (entry # entries) req res head =
     (if prefix (mount_point entry) (req_path req)
         \<and> is_valid_path (CHR ''/'' # drop (length (mount_point entry)) (req_path req))
      then let sub_path = CHR ''/'' # drop (length (mount_point entry)) (req_path req);
               path = base_dir entry @ sub_path;
               path1 = (if List.last path = CHR ''/'' then path @ ''index.html'' else path) in
           case files path1 of
             Some content \<Rightarrow>
               (let r = file_response svr entry req path1 content res in
                Some (case file_request_handler svr of Some h \<Rightarrow> if head then r else h req r | None \<Rightarrow> r))
           | None \<Rightarrow> handle_file_entries files svr entries req res head
      else handle_file_entries files svr entries req res head)"

definition handle_file_request :: "(string \<Rightarrow> string option) \<Rightarrow> Server \<Rightarrow> Request \<Rightarrow> Response \<Rightarrow> bool \<Rightarrow> Response option" where
  "handle_file_request files svr req res head = handle_file_entries files svr (base_dirs svr) req res head"

definition expect_content :: "Request \<Rightarrow> bool" where
  "expect_content req \<longleftrightarrow> req_method req \<in> {''POST'', ''PUT'', ''PATCH'', ''PRI'', ''DELETE''}"

text \<open>The outcome of routing: whether a handler answered, or what was thrown (\<open>None\<close> for no text).\<close>

datatype routing_result =
    Routed bool Request Response SocketStream
  | Raised "string option" Request Response SocketStream

fun dispatch_request :: "handlers \<Rightarrow> Request \<Rightarrow> Response \<Rightarrow> SocketStream \<Rightarrow> routing_result" where
  "dispatch_request [] req res st = Routed False req res st"
| "dispatch_request ((pattern, handler) # hs) req res st =
     (case regex_match False pattern (req_path req) of
        Some m \<Rightarrow>
          (let req1 = req\<lparr>req_matches := m\<rparr> in
           case handler req1 res of
             Returned r \<Rightarrow> Routed True req1 r st
           | Threw what r \<Rightarrow> Raised (Some what) req1 r st
           | Threw_unknown r \<Rightarrow> Raised None req1 r st)
      | None \<Rightarrow> dispatch_request hs (req\<lparr>req_matches := []\<rparr>) res st)"

definition regular_handler :: "Server \<Rightarrow> Request \<Rightarrow> Response \<Rightarrow> SocketStream \<Rightarrow> routing_result" where
  "regular_handler svr req res st =
     (let m = req_method req in
      if m = ''GET'' \<or> m = ''HEAD'' then dispatch_request (get_handlers svr) req res st
      else if m = ''POST'' then dispatch_request (post_handlers svr) req res st
      else if m = ''PUT'' then dispatch_request (put_handlers svr) req res st
      else if m = ''DELETE'' then dispatch_request (delete_handlers svr) req res st
      else if m = ''OPTIONS'' then dispatch_request (options_handlers svr) req res st
      else if m = ''PATCH'' then dispatch_request (patch_handlers svr) req res st
      else Routed False req (res\<lparr>res_status := 400\<rparr>) st)"

definition route_content :: "Server \<Rightarrow> Request \<Rightarrow> Response \<Rightarrow> SocketStream \<Rightarrow> routing_result" where
  "route_content svr req res st =
     (if expect_content req
      then (case read_content (payload_max_length svr) req st of
              (s, ok, req1, st1) \<Rightarrow>
                (let res1 = (case s of Some code \<Rightarrow> res\<lparr>res_status := code\<rparr> | None \<Rightarrow> res) in
                 if ok then regular_handler svr req1 res1 st1 else Routed False req1 res1 st1))
      else regular_handler svr req res st)"

definition routing :: "http_env \<Rightarrow> Server \<Rightarrow> Request \<Rightarrow> Response \<Rightarrow> SocketStream \<Rightarrow> routing_result" where
  "routing env svr req res st =
     (case (case pre_routing_handler svr of Some h \<Rightarrow> h req res | None \<Rightarrow> (False, res)) of
        (True, res1) \<Rightarrow> Routed True req res1 st
      | (False, res1) \<Rightarrow>
          let is_head = req_method req = ''HEAD'' in
          case (if req_method req = ''GET'' \<or> is_head then handle_file_request (env_files env) svr req res1 is_head else None) of
            Some r \<Rightarrow> Routed True req r st
          | None \<Rightarrow> route_content svr req res1 st)"

subsection \<open>One request\<close>

definition first_response :: "Server \<Rightarrow> Response" where
  "first_response svr =
     new_Response\<lparr>res_version := ''HTTP/1.1'',
       res_headers := fold (\<lambda>h hs. if has_header hs (fst h) then hs else mm_emplace ci (fst h) (snd h) hs) (default_headers svr) []\<rparr>"

definition closes_connection :: "Request \<Rightarrow> bool" where
  "closes_connection req \<longleftrightarrow> get_header_value (req_headers req) ''Connection'' = ''close''
     \<or> req_version req = ''HTTP/1.0'' \<and> get_header_value (req_headers req) ''Connection'' \<noteq> ''Keep-Alive''"

definition with_remote :: "http_env \<Rightarrow> Request \<Rightarrow> Request" where
  "with_remote env req =
     req\<lparr>remote_addr := fst (env_remote env), remote_port := snd (env_remote env),
         req_headers := set_header ''REMOTE_PORT'' (to_string_int (snd (env_remote env)))
                          (set_header ''REMOTE_ADDR'' (fst (env_remote env)) (req_headers req))\<rparr>"

text \<open>
  A result is the verdict, the flag \<open>connection_closed\<close> and the stream; \<open>None\<close> is a failed assertion.
  \<open>answer\<close> writes a response, with ranges applied when \<open>ranged\<close>.
\<close>

type_synonym request_result = "(bool \<times> bool \<times> SocketStream) option"

definition answer :: "http_env \<Rightarrow> Server \<Rightarrow> bool \<Rightarrow> bool \<Rightarrow> bool \<Rightarrow> Request \<Rightarrow> Response \<Rightarrow> SocketStream \<Rightarrow> request_result" where
  "answer env svr ranged close_connection connection_closed req res st =
     map_option (\<lambda>(ok, r, st'). (ok, connection_closed, st'))
       (if ranged then write_response_with_content (env_random env) svr close_connection req res st
        else write_response (env_random env) svr close_connection req res st)"

definition conclude :: "http_env \<Rightarrow> Server \<Rightarrow> bool \<Rightarrow> bool \<Rightarrow> routing_result \<Rightarrow> request_result" where
  "conclude env svr close_connection connection_closed r =
     (let (routed, req, res, st) =
        (case r of
           Routed b req res st \<Rightarrow> (b, req, res, st)
         | Raised (Some what) req res st \<Rightarrow>
             (case exception_handler svr of
                Some h \<Rightarrow> (True, req, h req res what, st)
              | None \<Rightarrow> (False, req, res_set_header ''EXCEPTION_WHAT'' what (res\<lparr>res_status := 500\<rparr>), st))
         | Raised None req res st \<Rightarrow>
             (False, req, res_set_header ''EXCEPTION_WHAT'' ''UNKNOWN'' (res\<lparr>res_status := 500\<rparr>), st)) in
      if routed
      then answer env svr True close_connection connection_closed req
             (if res_status res = - 1 then res\<lparr>res_status := (if req_ranges req = [] then 200 else 206)\<rparr> else res) st
      else answer env svr False close_connection connection_closed req
             (if res_status res = - 1 then res\<lparr>res_status := 404\<rparr> else res) st)"

definition expect_step :: "http_env \<Rightarrow> Server \<Rightarrow> bool \<Rightarrow> bool \<Rightarrow> Request \<Rightarrow> Response \<Rightarrow> SocketStream \<Rightarrow> request_result" where
  "expect_step env svr close_connection connection_closed req res st =
     (if get_header_value (req_headers req) ''Expect'' = ''100-continue''
      then let (status, res1) = (case expect_100_continue_handler svr of Some h \<Rightarrow> h req res | None \<Rightarrow> (100, res)) in
           if status = 100 \<or> status = 417
           then conclude env svr close_connection connection_closed
                  (routing env svr req res1 (snd (ss_write (status_line status @ crlf) st)))
           else answer env svr False close_connection connection_closed req res1 st
      else conclude env svr close_connection connection_closed (routing env svr req res st))"

definition after_headers :: "http_env \<Rightarrow> Server \<Rightarrow> bool \<Rightarrow> Request \<Rightarrow> Response \<Rightarrow> SocketStream \<Rightarrow> request_result" where
  "after_headers env svr close_connection req res st =
     (let closed = closes_connection req; req1 = with_remote env req in
      if has_header (req_headers req1) ''Range''
      then (case parse_range_header (get_header_value (req_headers req1) ''Range'') (req_ranges req1) of
              (True, rs) \<Rightarrow> expect_step env svr close_connection closed (req1\<lparr>req_ranges := rs\<rparr>) res st
            | (False, rs) \<Rightarrow>
                answer env svr False close_connection closed (req1\<lparr>req_ranges := rs\<rparr>) (res\<lparr>res_status := 416\<rparr>) st)
      else expect_step env svr close_connection closed req1 res st)"

definition process_request :: "http_env \<Rightarrow> Server \<Rightarrow> bool \<Rightarrow> SocketStream \<Rightarrow> request_result" where
  "process_request env svr close_connection st =
     (case getline (new_line_reader 2048) st of
        (False, lr, st1) \<Rightarrow> Some (False, False, st1)
      | (True, lr, st1) \<Rightarrow>
          let res = first_response svr in
          if sock_fd (ss_sock st1) \<ge> FD_SETSIZE
          then answer env svr False close_connection False new_Request (res\<lparr>res_status := 500\<rparr>) (snd (snd (read_headers [] st1)))
          else if length (lr_text lr) > REQUEST_URI_MAX_LENGTH
          then answer env svr False close_connection False new_Request (res\<lparr>res_status := 414\<rparr>) (snd (snd (read_headers [] st1)))
          else (case parse_request_line (lr_ptr lr) new_Request of
                  (False, req) \<Rightarrow> answer env svr False close_connection False req (res\<lparr>res_status := 400\<rparr>) st1
                | (True, req) \<Rightarrow>
                    (case read_headers (req_headers req) st1 of
                       (False, hs, st2) \<Rightarrow>
                         answer env svr False close_connection False (req\<lparr>req_headers := hs\<rparr>) (res\<lparr>res_status := 400\<rparr>) st2
                     | (True, hs, st2) \<Rightarrow> after_headers env svr close_connection (req\<lparr>req_headers := hs\<rparr>) res st2)))"

subsection \<open>One connection\<close>

text \<open>
  Every request gets a stream of its own: what the stream of one request had read ahead is not
  given to the next.
\<close>

primrec process_server_socket_core :: "http_env \<Rightarrow> Server \<Rightarrow> nat \<Rightarrow> bool \<Rightarrow> socket \<Rightarrow> (bool \<times> socket) option" where
  "process_server_socket_core env svr 0 ret s = Some (ret, s)"
| "process_server_socket_core env svr (Suc n) ret s =
     (if \<not> env_open env (sock_clock s) then Some (ret, s)
      else case keep_alive (keep_alive_timeout_sec svr) s of
             (False, s1) \<Rightarrow> Some (ret, s1)
           | (True, s1) \<Rightarrow>
               (case process_request env svr (n = 0) (new_SocketStream s1) of
                  None \<Rightarrow> None
                | Some (ok, connection_closed, st) \<Rightarrow>
                    if \<not> ok \<or> connection_closed then Some (ok, ss_sock st)
                    else process_server_socket_core env svr n ok (ss_sock st)))"

text \<open>The connection is shut down and closed afterwards; what is left is what was exchanged.\<close>

definition process_and_close_socket :: "http_env \<Rightarrow> Server \<Rightarrow> socket \<Rightarrow> (bool \<times> socket) option" where
  "process_and_close_socket env svr s = process_server_socket_core env svr (keep_alive_max_count svr) False s"

end
