(* ===== verification/Thread_Pool.thy ===== *)
theory Thread_Pool
  imports Prelude "HOL-Library.Multiset"
begin

section \<open>The thread pool: \<open>httplib.h\<close>, \<open>ThreadPool\<close>\<close>

text \<open>
  Accepted connections are handed to worker threads through a queue of jobs. A state has the jobs
  that wait, the flag \<open>shutdown_\<close> and what each worker does; \<open>pool_enqueued\<close>, \<open>pool_started\<close> and
  \<open>pool_finished\<close> record the history. A step is what a thread does inside one critical section: a
  worker that waits on the condition variable looks again whenever a step of another thread may
  have made its predicate true, so taking a job and leaving are steps that are possible exactly
  when the predicate holds.
\<close>

datatype 'j worker = Waiting | Running 'j | Left

record 'j pool =
  pool_jobs :: "'j list"
  pool_down :: bool
  pool_workers :: "'j worker list"
  pool_enqueued :: "'j list"
  pool_started :: "'j list"
  pool_finished :: "'j list"

definition new_pool :: "nat \<Rightarrow> 'j pool" where
  "new_pool n = \<lparr>pool_jobs = [], pool_down = False, pool_workers = replicate n Waiting,
                 pool_enqueued = [], pool_started = [], pool_finished = []\<rparr>"

definition enqueue_job :: "'j \<Rightarrow> 'j pool \<Rightarrow> 'j pool" where
  "enqueue_job j p = p\<lparr>pool_jobs := pool_jobs p @ [j], pool_enqueued := pool_enqueued p @ [j]\<rparr>"

definition shutdown_pool :: "'j pool \<Rightarrow> 'j pool" where
  "shutdown_pool p = p\<lparr>pool_down := True\<rparr>"

definition worker_wakes :: "'j pool \<Rightarrow> bool" where
  "worker_wakes p \<longleftrightarrow> pool_jobs p \<noteq> [] \<or> pool_down p"

definition worker_section :: "nat \<Rightarrow> 'j pool \<Rightarrow> 'j pool" where
  "worker_section i p =
     (if pool_down p \<and> pool_jobs p = [] then p\<lparr>pool_workers := (pool_workers p)[i := Left]\<rparr>
      else p\<lparr>pool_jobs := tl (pool_jobs p), pool_workers := (pool_workers p)[i := Running (hd (pool_jobs p))],
             pool_started := pool_started p @ [hd (pool_jobs p)]\<rparr>)"

definition worker_returns :: "nat \<Rightarrow> 'j \<Rightarrow> 'j pool \<Rightarrow> 'j pool" where
  "worker_returns i j p =
     p\<lparr>pool_workers := (pool_workers p)[i := Waiting], pool_finished := pool_finished p @ [j]\<rparr>"

text \<open>The listening thread enqueues, and shuts down once at the end; the workers go their own pace.\<close>

inductive thread_pool_step :: "'j pool \<Rightarrow> 'j pool \<Rightarrow> bool" where
  step_enqueue: "\<not> pool_down p \<Longrightarrow> thread_pool_step p (enqueue_job j p)"
| step_shutdown: "\<not> pool_down p \<Longrightarrow> thread_pool_step p (shutdown_pool p)"
| step_section: "i < length (pool_workers p) \<Longrightarrow> pool_workers p ! i = Waiting \<Longrightarrow> worker_wakes p
    \<Longrightarrow> thread_pool_step p (worker_section i p)"
| step_returns: "i < length (pool_workers p) \<Longrightarrow> pool_workers p ! i = Running j
    \<Longrightarrow> thread_pool_step p (worker_returns i j p)"

inductive_cases thread_pool_stepE: "thread_pool_step p q"

text \<open>\<open>shutdown\<close> returns when it has joined every worker.\<close>

definition joined :: "'j pool \<Rightarrow> bool" where
  "joined p \<longleftrightarrow> pool_down p \<and> list_all (\<lambda>w. w = Left) (pool_workers p)"

primrec running_job :: "'j worker \<Rightarrow> 'j multiset" where
  "running_job Waiting = {#}"
| "running_job (Running j) = {#j#}"
| "running_job Left = {#}"

definition running_jobs :: "'j pool \<Rightarrow> 'j multiset" where
  "running_jobs p = sum_list (map running_job (pool_workers p))"

text \<open>
  The invariant: jobs are started in the order in which they came; every started job runs or has
  finished; and a worker leaves only when no job waits and none can come.
\<close>

definition pool_inv :: "nat \<Rightarrow> 'j pool \<Rightarrow> bool" where
  "pool_inv n p \<longleftrightarrow> length (pool_workers p) = n
     \<and> pool_enqueued p = pool_started p @ pool_jobs p
     \<and> mset (pool_started p) = running_jobs p + mset (pool_finished p)
     \<and> (Left \<in> set (pool_workers p) \<longrightarrow> pool_down p \<and> pool_jobs p = [])"

lemma running_jobs_update:
  assumes "i < length ws"
  shows "sum_list (map running_job (ws[i := w])) + running_job (ws ! i) = sum_list (map running_job ws) + running_job w"
proof -
  have "mset (ws[i := w]) + {#ws ! i#} = mset ws + {#w#}"
    using assms by (simp add: mset_update)
  then have "sum_mset (image_mset running_job (mset (ws[i := w]) + {#ws ! i#}))
      = sum_mset (image_mset running_job (mset ws + {#w#}))"
    by simp
  then show ?thesis
    by (simp add: sum_mset_sum_list [symmetric] add.commute)
qed

lemma pool_inv_new: "pool_inv n (new_pool n)"
proof -
  have "sum_list (map running_job (replicate n Waiting)) = {#}"
    by (induction n) auto
  then show ?thesis
    by (auto simp: pool_inv_def new_pool_def running_jobs_def)
qed

lemma pool_inv_step: "thread_pool_step p q \<Longrightarrow> pool_inv n p \<Longrightarrow> pool_inv n q"
proof (induction rule: thread_pool_step.induct)
  case (step_section i p)
  note u = running_jobs_update [OF step_section(1)]
  show ?case
  proof (cases "pool_down p \<and> pool_jobs p = []")
    case True
    then show ?thesis
      using step_section u [of Left] by (simp add: pool_inv_def worker_section_def running_jobs_def)
  next
    case False
    then obtain j js where j: "pool_jobs p = j # js"
      using step_section(3) by (cases "pool_jobs p") (auto simp: worker_wakes_def)
    have "Left \<notin> set ((pool_workers p)[i := Running j])"
      using step_section j set_update_subset_insert [of "pool_workers p" i "Running j"] by (auto simp: pool_inv_def)
    then show ?thesis
      using step_section j u [of "Running j"] by (simp add: pool_inv_def worker_section_def running_jobs_def)
  qed
next
  case (step_returns i p j)
  have "Left \<in> set ((pool_workers p)[i := Waiting]) \<Longrightarrow> Left \<in> set (pool_workers p)"
    using set_update_subset_insert [of "pool_workers p" i Waiting] by auto
  then show ?case
    using step_returns running_jobs_update [OF step_returns(1), of Waiting]
    by (auto simp: pool_inv_def worker_returns_def running_jobs_def)
qed (auto simp: pool_inv_def enqueue_job_def shutdown_pool_def running_jobs_def)

lemma pool_inv_reachable: "thread_pool_step\<^sup>*\<^sup>* (new_pool n) p \<Longrightarrow> pool_inv n p"
  by (induction rule: rtranclp_induct) (auto intro: pool_inv_new pool_inv_step)

lemma joined_running: "list_all (\<lambda>w. w = Left) ws \<Longrightarrow> sum_list (map running_job ws) = {#}"
  by (induction ws) auto

text \<open>What is left to do after the shutdown.\<close>

primrec worker_work :: "'j worker \<Rightarrow> nat" where
  "worker_work Waiting = 1"
| "worker_work (Running j) = 2"
| "worker_work Left = 0"

definition pool_work :: "'j pool \<Rightarrow> nat" where
  "pool_work p = 3 * length (pool_jobs p) + sum_list (map worker_work (pool_workers p))"

lemma pool_work_update:
  "i < length ws \<Longrightarrow> sum_list (map (f :: _ \<Rightarrow> nat) (ws[i := w])) + f (ws ! i) = sum_list (map f ws) + f w"
  by (induction ws arbitrary: i) (auto simp: nth_Cons split: nat.split)

lemma thread_pool_step_down:
  assumes "thread_pool_step p q" and "pool_down p"
  shows "pool_down q \<and> pool_work q < pool_work p"
  using assms(1)
proof cases
  case (step_section i)
  then show ?thesis
    using assms pool_work_update [OF step_section(2), of worker_work Left]
      pool_work_update [OF step_section(2), of worker_work "Running (hd (pool_jobs p))"]
    by (cases "pool_jobs p") (auto simp: worker_section_def pool_work_def)
next
  case (step_returns i j)
  then show ?thesis
    using assms pool_work_update [OF step_returns(2), of worker_work Waiting]
    by (auto simp: worker_returns_def pool_work_def)
qed (use assms in \<open>auto simp: enqueue_job_def shutdown_pool_def\<close>)

lemma pool_progress:
  assumes "pool_down p" and "\<not> joined p"
  shows "\<exists>q. thread_pool_step p q"
proof -
  obtain i where i: "i < length (pool_workers p)" "pool_workers p ! i \<noteq> Left"
    using assms by (auto simp: joined_def list_all_length)
  show ?thesis
  proof (cases "pool_workers p ! i")
    case Waiting
    then show ?thesis
      using i assms(1) step_section [OF i(1)] by (auto simp: worker_wakes_def)
  next
    case (Running j)
    then show ?thesis
      using step_returns [OF i(1)] by blast
  qed (use i in simp)
qed

text \<open>
  C12. Every connection that is handed to the pool is served once: jobs are started in the order in
  which they came, a job that was started runs or has finished and none does twice; after the
  shutdown the pool cannot get stuck before all its workers have left, each step brings that end
  nearer, and when \<open>shutdown\<close> returns every job has been finished.
\<close>

theorem thread_pool_serves_all:
  assumes "thread_pool_step\<^sup>*\<^sup>* (new_pool n) p" and "n > 0"
  shows "pool_enqueued p = pool_started p @ pool_jobs p
    \<and> mset (pool_started p) = running_jobs p + mset (pool_finished p)
    \<and> (pool_down p \<longrightarrow> \<not> joined p \<longrightarrow> (\<exists>q. thread_pool_step p q))
    \<and> (\<forall>q. pool_down p \<longrightarrow> thread_pool_step p q \<longrightarrow> pool_down q \<and> pool_work q < pool_work p)
    \<and> (joined p \<longrightarrow> mset (pool_finished p) = mset (pool_enqueued p))"
proof -
  have inv: "pool_inv n p"
    by (rule pool_inv_reachable [OF assms(1)])
  have "mset (pool_finished p) = mset (pool_enqueued p)" if "joined p"
  proof -
    have "Left \<in> set (pool_workers p)"
      using that assms(2) inv by (cases "pool_workers p") (auto simp: joined_def pool_inv_def)
    then show ?thesis
      using inv that joined_running [of "pool_workers p"] by (simp add: pool_inv_def joined_def running_jobs_def)
  qed
  then show ?thesis
    using inv pool_progress [of p] thread_pool_step_down [of p] by (simp add: pool_inv_def)
qed

text \<open>One worker serves one connection and leaves.\<close>

definition demo_thread_pool :: "nat pool" where
  "demo_thread_pool = worker_section 0 (shutdown_pool (worker_returns 0 7 (worker_section 0 (enqueue_job 7 (new_pool 1)))))"

lemma demo_thread_pool_reachable: "thread_pool_step\<^sup>*\<^sup>* (new_pool 1) demo_thread_pool"
proof -
  note defs = new_pool_def enqueue_job_def worker_section_def worker_returns_def shutdown_pool_def worker_wakes_def
  let ?p1 = "enqueue_job 7 (new_pool 1) :: nat pool"
  let ?p2 = "worker_section 0 ?p1"
  let ?p3 = "worker_returns 0 7 ?p2"
  let ?p4 = "shutdown_pool ?p3"
  have "thread_pool_step\<^sup>*\<^sup>* (new_pool 1) ?p1"
    by (rule r_into_rtranclp, rule step_enqueue) (simp add: defs)
  also have "thread_pool_step ?p1 ?p2"
    by (rule step_section) (simp_all add: defs)
  also have "thread_pool_step ?p2 ?p3"
    by (rule step_returns) (simp_all add: defs)
  also have "thread_pool_step ?p3 ?p4"
    by (rule step_shutdown) (simp add: defs)
  also have "thread_pool_step ?p4 demo_thread_pool"
    unfolding demo_thread_pool_def by (rule step_section) (simp_all add: defs)
  finally show ?thesis .
qed

theorem thread_pool_witness: "joined demo_thread_pool \<and> mset (pool_finished demo_thread_pool) = {#7#}"
proof -
  note defs = new_pool_def enqueue_job_def worker_section_def worker_returns_def shutdown_pool_def demo_thread_pool_def joined_def
  have j: "joined demo_thread_pool" and e: "pool_enqueued demo_thread_pool = [7]"
    by (simp_all add: defs)
  show ?thesis
    using thread_pool_serves_all [OF demo_thread_pool_reachable zero_less_one, THEN conjunct2, THEN conjunct2, THEN conjunct2, THEN conjunct2] j e
    by simp
qed

end
