(* ===== verification/Http_Listen.thy ===== *)
theory Http_Listen
  imports Http_Serve Thread_Pool
begin

section \<open>Listening: \<open>httplib.h\<close>, \<open>Server::listen\<close> and \<open>Server::stop\<close>\<close>

text \<open>
  An address that \<open>getaddrinfo\<close> offers is the socket that can be made for it (-1 if none), whether
  the close-on-exec flag can be set on it, and whether it can be bound and listened on. What \<open>accept\<close>
  will give is a script: connections, a lack of descriptors, a failure, or a failure because
  another thread has called \<open>stop\<close>.
\<close>

record address =
  addr_sock :: int
  addr_cloexec :: bool
  addr_bind :: bool

datatype accept_event = Accepts socket | Out_of_descriptors | Accept_fails | Stop_called

record network =
  net_addresses :: "string \<Rightarrow> int \<Rightarrow> address list option"
  net_sockname :: "int option"
  net_accepts :: "accept_event list"

text \<open>The socket that was bound, and those that stay open although they are of no use.\<close>

fun create_socket :: "address list \<Rightarrow> int \<times> int list" where
  "create_socket [] = (INVALID_SOCKET, [])"
| "create_socket (a # as) =
     (if addr_sock a = INVALID_SOCKET then create_socket as
      else if \<not> addr_cloexec a then (case create_socket as of (s, open_ones) \<Rightarrow> (s, addr_sock a # open_ones))
      else if addr_bind a then (addr_sock a, [])
      else create_socket as)"

definition create_server_socket :: "network \<Rightarrow> string \<Rightarrow> int \<Rightarrow> int \<times> int list" where
  "create_server_socket net host port =
     (case net_addresses net (c_str host) port of None \<Rightarrow> (INVALID_SOCKET, []) | Some as \<Rightarrow> create_socket as)"

definition bind_internal :: "network \<Rightarrow> string \<Rightarrow> int \<Rightarrow> Server \<Rightarrow> int \<times> Server" where
  "bind_internal net host port svr =
     (let s = fst (create_server_socket net host port); svr1 = svr\<lparr>svr_sock := s\<rparr> in
      if s = INVALID_SOCKET then (- 1, svr1)
      else if port = 0 then (case net_sockname net of Some p \<Rightarrow> (p, svr1) | None \<Rightarrow> (- 1, svr1))
      else (port, svr1))"

definition bind_to_port :: "network \<Rightarrow> string \<Rightarrow> int \<Rightarrow> Server \<Rightarrow> bool \<times> Server" where
  "bind_to_port net host port svr = (case bind_internal net host port svr of (r, svr1) \<Rightarrow> (\<not> r < 0, svr1))"

text \<open>
  The loop of \<open>listen_internal\<close> with an idle interval of 0: the return value, whether \<open>stop\<close> has
  invalidated the listening socket, and the connections that were handed to the thread pool.
  \<open>None\<close> says that the loop still waits for a connection when the script ends.
\<close>

fun accept_loop :: "accept_event list \<Rightarrow> (bool \<times> bool \<times> socket list) option" where
  "accept_loop [] = None"
| "accept_loop (Accepts s # es) = map_option (\<lambda>(r, gone, ss). (r, gone, s # ss)) (accept_loop es)"
| "accept_loop (Out_of_descriptors # es) = accept_loop es"
| "accept_loop (Accept_fails # es) = Some (False, False, [])"
| "accept_loop (Stop_called # es) = Some (True, True, [])"

fun accepted :: "accept_event list \<Rightarrow> socket list" where
  "accepted [] = []"
| "accepted (Accepts s # es) = s # accepted es"
| "accepted (Out_of_descriptors # es) = accepted es"
| "accepted (Accept_fails # es) = []"
| "accepted (Stop_called # es) = []"

datatype listen_outcome =
    Serving Server "socket list"
  | Stopped bool Server "socket list"

definition listen_internal :: "network \<Rightarrow> Server \<Rightarrow> listen_outcome" where
  "listen_internal net svr =
     (let svr1 = svr\<lparr>is_running := True\<rparr> in
      if svr_sock svr1 = INVALID_SOCKET then Stopped True (svr1\<lparr>is_running := False\<rparr>) []
      else case accept_loop (net_accepts net) of
             None \<Rightarrow> Serving svr1 (accepted (net_accepts net))
           | Some (ret, gone, ss) \<Rightarrow>
               Stopped ret (svr1\<lparr>is_running := False, svr_sock := (if gone then INVALID_SOCKET else svr_sock svr1)\<rparr>) ss)"

definition Server_listen :: "network \<Rightarrow> string \<Rightarrow> int \<Rightarrow> Server \<Rightarrow> listen_outcome" where
  "Server_listen net host port svr =
     (case bind_to_port net host port svr of
        (False, svr1) \<Rightarrow> Stopped False svr1 []
      | (True, svr1) \<Rightarrow> listen_internal net svr1)"

text \<open>\<open>None\<close> is the failed assertion that a running server has a socket.\<close>

definition Server_stop :: "Server \<Rightarrow> Server option" where
  "Server_stop svr =
     (if is_running svr
      then if svr_sock svr = INVALID_SOCKET then None else Some (svr\<lparr>svr_sock := INVALID_SOCKET\<rparr>)
      else Some svr)"

text \<open>
  The conversations of the accepted connections. Each is a job of the pool, which runs every job
  once (\<open>thread_pool_serves_all\<close>); they share the server only for reading, so the order in which they
  run does not matter.
\<close>

definition conversations :: "http_env \<Rightarrow> Server \<Rightarrow> socket list \<Rightarrow> (bool \<times> socket) option list" where
  "conversations env svr ss = map (process_and_close_socket env svr) ss"

lemma accepted_loop: "accept_loop es = Some (r, gone, ss) \<Longrightarrow> ss = accepted es"
  by (induction es arbitrary: ss rule: accept_loop.induct) auto

end
