(* ===== verification/Http_Server.thy ===== *)
theory Http_Server
  imports Json_Serializer Http_Listen
begin

section \<open>The HTTP front end: \<open>src/core/http/http_server.cpp\<close>, \<open>http_result.hpp\<close>\<close>

subsection \<open>The server\<close>

text \<open>
  The object owns an httplib \<open>Server\<close>. \<open>set_routes\<close> registers the one route, and \<open>start\<close> listens until
  the server stops and discards its verdict. \<open>None\<close> would be the exception of a bad pattern.
\<close>

record HTTPServer =
  http_host :: string
  http_port :: int
  http_srv :: Server

definition new_HTTPServer :: "string \<Rightarrow> int \<Rightarrow> HTTPServer" where
  "new_HTTPServer host port = \<lparr>http_host = host, http_port = port, http_srv = new_Server\<rparr>"

definition hello_handler :: handler where
  "hello_handler req res = Returned (set_content ''Hello, World!'' ''text/plain'' res)"

definition set_routes :: "HTTPServer \<Rightarrow> HTTPServer option" where
  "set_routes s = map_option (\<lambda>svr. s\<lparr>http_srv := svr\<rparr>) (Server_Get ''/hello'' hello_handler (http_srv s))"

datatype http_outcome = Http_serving HTTPServer "socket list" | Http_done HTTPServer "socket list"

definition start :: "network \<Rightarrow> HTTPServer \<Rightarrow> http_outcome option" where
  "start net s =
     Option.bind (set_routes s) (\<lambda>s1.
       case Server_listen net (http_host s1) (http_port s1) (http_srv s1) of
         Serving svr ss \<Rightarrow> Some (Http_serving (s1\<lparr>http_srv := svr\<rparr>) ss)
       | Stopped ret svr ss \<Rightarrow> Some (Http_done (s1\<lparr>http_srv := svr\<rparr>) ss))"

definition stop_http :: "HTTPServer \<Rightarrow> HTTPServer option" where
  "stop_http s = map_option (\<lambda>svr. s\<lparr>http_srv := svr\<rparr>) (Server_stop (http_srv s))"

definition HTTPServer_destroy :: "HTTPServer \<Rightarrow> HTTPServer option" where
  "HTTPServer_destroy s = stop_http s"

subsection \<open>The response envelope\<close>

text \<open>
  \<open>HttpResponse\<close> is dumped as a JSON object. \<open>None\<close> would be the exception of indexing a value that
  is not an object; \<open>Inl\<close> is the exception of the serializer.
\<close>

record HttpResponse =
  code :: int
  msg :: "byte list"
  data :: json_value

definition success :: "json_value \<Rightarrow> byte list \<Rightarrow> HttpResponse" where
  "success d m = \<lparr>code = 200, msg = m, data = d\<rparr>"

definition error :: "int \<Rightarrow> byte list \<Rightarrow> json_value \<Rightarrow> HttpResponse" where
  "error c m d = \<lparr>code = c, msg = m, data = d\<rparr>"

definition dump_json :: "HttpResponse \<Rightarrow> json_value option" where
  "dump_json r =
     Option.bind (json_set (lit ''code'') (Number_integer (word_of_int (code r))) Null) (\<lambda>j1.
     Option.bind (json_set (lit ''msg'') (String_value (msg r)) j1) (\<lambda>j2.
     if data r \<noteq> Null then json_set (lit ''data'') (data r) j2
     else json_set (lit ''data'') (Object []) j2))"

definition dump :: "HttpResponse \<Rightarrow> (json_error + byte list) option" where
  "dump r = map_option dump_default (dump_json r)"

text \<open>
  Every response, success or error, serializes as one object with exactly the members \<open>code\<close>,
  \<open>data\<close> and \<open>msg\<close>, in that order; \<open>data\<close> is never null, a null value being sent as an empty object.
  Building it never throws.
\<close>

theorem response_envelope:
  "dump r
   = Some (dump_default
       (Object [(lit ''code'', Number_integer (word_of_int (code r))),
                (lit ''data'', if data r = Null then Object [] else data r),
                (lit ''msg'', String_value (msg r))]))"
  by (simp add: dump_def dump_json_def json_set_def lit_def)

text \<open>Sending it throws when the message or the data hold a string that is not UTF-8.\<close>

lemma response_throws:
  "(\<exists>err. dump r = Some (Inl err)) \<longleftrightarrow> \<not> (utf8_text (msg r) \<and> list_all utf8_text (json_strings (data r)))"
proof -
  have k: "utf8_text (lit ''code'')" "utf8_text (lit ''data'')" "utf8_text (lit ''msg'')"
    by (auto simp: lit_def)
  show ?thesis
    unfolding response_envelope
    using dump_default_cases [of "Object [(lit ''code'', Number_integer (word_of_int (code r))),
                (lit ''data'', if data r = Null then Object [] else data r), (lit ''msg'', String_value (msg r))]"] k
    by (auto split: if_splits)
qed

end
