(* ===== verification/Lite_Monitor.thy ===== *)
theory Lite_Monitor
  imports Config Path_Utils Logger Http_Server
begin

section \<open>The program: \<open>src/lite_monitor.cpp\<close>\<close>

text \<open>
  \<open>main\<close> composed of the components above. \<open>p0\<close> is the content of the \<open>Parameters\<close> object before
  anything is loaded; its integers are not initialised by the program. The outcome is the exception
  of \<open>getModuleDir\<close>, the undefined behaviour of \<open>initLogger\<close>, a failed assertion, or the HTTP server
  that still serves or has stopped, with the logger that was installed, if any, and the connections
  it has accepted.
\<close>

record 'n platform =
  pf_exe :: "string option"
  pf_yaml :: "'n yaml"
  pf_file_exists :: "string \<Rightarrow> bool"
  pf_mkdir :: "string \<Rightarrow> bool"
  pf_can_open :: "string \<Rightarrow> bool"
  pf_net :: network

datatype main_outcome =
    Uncaught string
  | Undefined_behaviour
  | Assertion_failed
  | Serves "logger option" HTTPServer "socket list"
  | Exits "logger option" HTTPServer "socket list"

definition main_config_path :: "string option \<Rightarrow> string list \<Rightarrow> string + string" where
  "main_config_path exe argv =
     map_sum id (\<lambda>default. if length argv > 1 then argv ! 1 else default) (getConfigsPath exe)"

definition run_http :: "network \<Rightarrow> string \<Rightarrow> int \<Rightarrow> logger option \<Rightarrow> main_outcome" where
  "run_http net host port lg =
     (case start net (new_HTTPServer host port) of
        None \<Rightarrow> Uncaught ''regex_error''
      | Some (Http_serving s ss) \<Rightarrow> Serves lg s ss
      | Some (Http_done s ss) \<Rightarrow>
          (case HTTPServer_destroy s of None \<Rightarrow> Assertion_failed | Some s' \<Rightarrow> Exits lg s' ss))"

definition lite_monitor_main :: "'n platform \<Rightarrow> Parameters \<Rightarrow> string list \<Rightarrow> main_outcome" where
  "lite_monitor_main pf p0 argv =
     (case main_config_path (pf_exe pf) argv of
        Inl e \<Rightarrow> Uncaught e
      | Inr config_path \<Rightarrow>
          (let params = snd (initConfigs (pf_yaml pf) (pf_file_exists pf) config_path p0);
               run = run_http (pf_net pf) (srv_host (http_server_params params)) (srv_port (http_server_params params)) in
           case initLogger (pf_file_exists pf) (pf_mkdir pf) (pf_can_open pf) (log_params params) of
             Undefined \<Rightarrow> Undefined_behaviour
           | Installs lg \<Rightarrow> run (Some lg)
           | Keeps_default \<Rightarrow> run None))"

text \<open>The server with the one route, as it listens.\<close>

definition hello_server :: "int \<Rightarrow> bool \<Rightarrow> Server" where
  "hello_server fd running = new_Server\<lparr>svr_sock := fd, is_running := running, get_handlers := [(letters ''/hello'', hello_handler)]\<rparr>"

lemma hello_compiled: "std_regex ''/hello'' = Some (letters ''/hello'')"
  by (rule std_regex_letters) (simp add: special_def)

lemma set_routes_hello:
  "set_routes (new_HTTPServer host port) = Some \<lparr>http_host = host, http_port = port, http_srv = hello_server INVALID_SOCKET False\<rparr>"
  by (simp add: set_routes_def new_HTTPServer_def Server_Get_def hello_compiled hello_server_def new_Server_def)

text \<open>What the program serves: the connections that arrive when the address can be bound, and none otherwise.\<close>

definition served :: "network \<Rightarrow> string \<Rightarrow> int \<Rightarrow> socket list" where
  "served net host port =
     (if fst (create_server_socket net host port) = INVALID_SOCKET then [] else accepted (net_accepts net))"

lemma run_http_serves:
  assumes "port > 0"
  shows "\<exists>fd r. let s = \<lparr>http_host = host, http_port = port, http_srv = hello_server fd r\<rparr> in
           run_http net host port lg \<in> {Serves lg s (served net host port), Exits lg s (served net host port)}"
proof -
  define fd where "fd = fst (create_server_socket net host port)"
  let ?s = "\<lambda>fd r. \<lparr>http_host = host, http_port = port, http_srv = hello_server fd r\<rparr>"
  have start: "start net (new_HTTPServer host port) =
      (case Server_listen net host port (hello_server INVALID_SOCKET False) of
         Serving svr ss \<Rightarrow> Some (Http_serving (?s 0 False\<lparr>http_srv := svr\<rparr>) ss)
       | Stopped ret svr ss \<Rightarrow> Some (Http_done (?s 0 False\<lparr>http_srv := svr\<rparr>) ss))"
    by (simp add: start_def set_routes_hello split: listen_outcome.split)
  have destroy: "HTTPServer_destroy (?s f False) = Some (?s f False)" for f
    by (simp add: HTTPServer_destroy_def stop_http_def Server_stop_def hello_server_def)
  have upd: "(hello_server INVALID_SOCKET False)\<lparr>svr_sock := f\<rparr> = hello_server f False"
    "(hello_server f False)\<lparr>is_running := b\<rparr> = hello_server f b"
    "(hello_server f True)\<lparr>is_running := False, svr_sock := g\<rparr> = hello_server g False"
    "svr_sock (hello_server f b) = f" for f b g
    by (simp_all add: hello_server_def)
  show ?thesis
  proof (cases "fd = INVALID_SOCKET")
    case True
    then have "Server_listen net host port (hello_server INVALID_SOCKET False) = Stopped False (hello_server INVALID_SOCKET False) []"
      by (simp add: Server_listen_def bind_to_port_def bind_internal_def Let_def upd flip: fd_def)
    then show ?thesis
      using True destroy [of INVALID_SOCKET] by (auto simp: run_http_def start served_def Let_def simp flip: fd_def)
  next
    case False
    then have l: "Server_listen net host port (hello_server INVALID_SOCKET False) = listen_internal net (hello_server fd False)"
      using assms by (simp add: Server_listen_def bind_to_port_def bind_internal_def Let_def upd flip: fd_def)
    show ?thesis
    proof (cases "accept_loop (net_accepts net)")
      case None
      then show ?thesis
        using False by (auto simp: run_http_def start l listen_internal_def Let_def upd served_def simp flip: fd_def)
    next
      case (Some x)
      then obtain ret gone ss where x: "accept_loop (net_accepts net) = Some (ret, gone, ss)"
        by (cases x) auto
      show ?thesis
        using False destroy accepted_loop [OF x]
        by (auto simp: run_http_def start l listen_internal_def Let_def upd x served_def simp flip: fd_def)
    qed
  qed
qed

text \<open>
  A correct start: with a readable executable link and a configuration that \<open>initConfigs\<close>
  accepts, and a log size limit below 2048 MB, the program serves HTTP on the configured host and
  port, which is a valid one, with the \<open>/hello\<close> route registered before it listens. It serves every
  connection that is accepted, and no assertion of the server fails when it ends.
\<close>

theorem main_serves_configured:
  assumes "main_config_path (pf_exe pf) argv = Inr path"
    and "initConfigs (pf_yaml pf) (pf_file_exists pf) path p0 = (True, p)"
    and "max_log_file_size (log_params p) < 2048"
  shows "\<exists>lg s fd r. lite_monitor_main pf p0 argv \<in> {Serves lg s (served (pf_net pf) (http_host s) (http_port s)),
              Exits lg s (served (pf_net pf) (http_host s) (http_port s))}
           \<and> http_host s = srv_host (http_server_params p) \<and> http_port s = srv_port (http_server_params p)
           \<and> valid_port (http_port s) \<and> http_srv s = hello_server fd r"
proof -
  have v: "valid_config p"
    by (rule initConfigs_valid [OF assms(2)])
  have port: "valid_port (srv_port (http_server_params p))"
    using v by (simp add: valid_config_def repairs_left_def)
  then have pos: "srv_port (http_server_params p) > 0"
    by (simp add: valid_port_def)
  have "initLogger (pf_file_exists pf) (pf_mkdir pf) (pf_can_open pf) (log_params p) \<noteq> Undefined"
    using initLogger_defined [OF v] assms(3) by simp
  then obtain lg where "lite_monitor_main pf p0 argv =
      run_http (pf_net pf) (srv_host (http_server_params p)) (srv_port (http_server_params p)) lg"
    using assms(1,2)
    by (cases "initLogger (pf_file_exists pf) (pf_mkdir pf) (pf_can_open pf) (log_params p)")
      (auto simp: lite_monitor_main_def)
  then show ?thesis
    using run_http_serves [OF pos, of "srv_host (http_server_params p)" "pf_net pf" lg] port
    by (fastforce simp: Let_def)
qed

text \<open>
  \<open>main\<close> ignores the verdict of \<open>initConfigs\<close>: when the configuration file does not exist the
  parameters stay as they were, uninitialised, and unless the logger's size computation overflows
  on them the program goes on to serve HTTP on that host and port, valid or not.
\<close>

theorem main_ignores_missing_config:
  assumes "main_config_path (pf_exe pf) argv = Inr path" and "\<not> pf_file_exists pf path"
    and "initLogger (pf_file_exists pf) (pf_mkdir pf) (pf_can_open pf) (log_params p0) \<noteq> Undefined"
  shows "\<exists>lg. lite_monitor_main pf p0 argv
           = run_http (pf_net pf) (srv_host (http_server_params p0)) (srv_port (http_server_params p0)) lg"
proof -
  have i: "initConfigs (pf_yaml pf) (pf_file_exists pf) path p0 = (False, p0)"
    using assms(2) by (simp add: initConfigs_def)
  then show ?thesis
    using assms(1,3)
    by (cases "initLogger (pf_file_exists pf) (pf_mkdir pf) (pf_can_open pf) (log_params p0)")
      (auto simp: lite_monitor_main_def)
qed

subsection \<open>Witnesses\<close>

text \<open>A platform with a configuration file, on which one socket can be bound and nobody connects.\<close>

definition demo_network :: "accept_event list \<Rightarrow> network" where
  "demo_network es =
     \<lparr>net_addresses = (\<lambda>h p. Some [\<lparr>addr_sock = 3, addr_cloexec = True, addr_bind = True\<rparr>]), net_sockname = None,
      net_accepts = es\<rparr>"

definition demo_platform :: "accept_event list \<Rightarrow> demo_node platform" where
  "demo_platform es =
     \<lparr>pf_exe = Some ''/b/lm'', pf_yaml = demo_yaml demo_file, pf_file_exists = (\<lambda>f. f = ''c.yaml''),
      pf_mkdir = (\<lambda>d. True), pf_can_open = (\<lambda>f. True), pf_net = demo_network es\<rparr>"

lemma demo_main_path: "main_config_path (pf_exe (demo_platform es)) [''lm'', f] = Inr f"
  by (simp add: main_config_path_def demo_platform_def getConfigsPath_def getModuleDir_def readlink_def
      PATH_MAX_def find_last_def)

lemma demo_main_config:
  "initConfigs (pf_yaml (demo_platform es)) (pf_file_exists (demo_platform es)) ''c.yaml'' demo_params = (True, demo_loaded)"
  using demo_initConfigs by (simp add: demo_platform_def)

end
