(* ===== verification/Http_Hello.thy ===== *)
theory Http_Hello
  imports Lite_Monitor
begin

section \<open>The answer to a request\<close>

text \<open>
  What a client that asks for \<open>/hello\<close> gets, through reading the lines, parsing, routing and writing,
  however the request is cut into segments and whatever else it says in its headers.
\<close>

subsection \<open>Well-formed headers\<close>

definition plain_key :: "string \<Rightarrow> bool" where
  "plain_key k = list_all (\<lambda>c. c \<noteq> CHR '':'' \<and> c \<noteq> CR \<and> c \<noteq> LF \<and> c \<noteq> NUL) k"

definition plain_value :: "string \<Rightarrow> bool" where
  "plain_value v \<longleftrightarrow> v \<noteq> [] \<and> \<not> is_space_or_tab (hd v) \<and> \<not> is_space_or_tab (List.last v)
     \<and> list_all (\<lambda>c. c \<noteq> CR \<and> c \<noteq> LF \<and> c \<noteq> NUL \<and> c \<noteq> CHR ''%'') v"

definition plain_header :: "string \<times> string \<Rightarrow> bool" where
  "plain_header h \<longleftrightarrow> plain_key (fst h) \<and> plain_value (snd h)"

definition short_header :: "string \<times> string \<Rightarrow> bool" where
  "short_header h \<longleftrightarrow> length (fst h) + length (snd h) + 4 \<le> HEADER_MAX_LENGTH"

definition header_text :: "string \<times> string \<Rightarrow> string" where
  "header_text h = fst h @ '': '' @ snd h @ crlf"

lemma decode_url_plain: "CHR ''%'' \<notin> set v \<Longrightarrow> decode_url v False = v"
  by (induction v) auto

lemma parse_header_plain:
  assumes "plain_header (k, v)"
  shows "parse_header (k @ '': '' @ v) = Some (k, v)"
proof -
  have v: "v \<noteq> []" "\<not> is_space_or_tab (hd v)" "\<not> is_space_or_tab (hd (rev v))" "CHR ''%'' \<notin> set v"
    using assms by (auto simp: plain_header_def plain_value_def hd_rev list_all_iff)
  have k: "CHR '':'' \<notin> set k"
    using assms by (auto simp: plain_header_def plain_key_def list_all_iff)
  have "rev v \<noteq> []"
    using v by simp
  then have s: "rev (dropWhile is_space_or_tab (rev (k @ '': '' @ v))) = k @ '': '' @ v"
    using v dropWhile_hd [of "rev v" is_space_or_tab "rev (k @ '': '')"] by simp
  have "takeWhile (\<lambda>c. c \<noteq> CHR '':'') (k @ '': '' @ v) = k"
    using k by (induction k) auto
  moreover have "dropWhile (\<lambda>c. c \<noteq> CHR '':'') (k @ '': '' @ v) = '': '' @ v"
    using k by (induction k) auto
  moreover have "dropWhile is_space_or_tab (CHR '' '' # v) = v"
    using v dropWhile_hd [of v is_space_or_tab "[]"] by (simp add: is_space_or_tab_def)
  ultimately show ?thesis
    using v unfolding parse_header_def s Let_def by (simp add: decode_url_plain)
qed

lemma read_block_header:
  assumes "plain_header h" and "short_header h"
  shows "read_block (header_text h @ rest) eof hs = read_block rest eof (mm_emplace ci (fst h) (snd h) hs)"
proof -
  obtain k v where h: "h = (k, v)"
    by (cases h)
  let ?l = "k @ '': '' @ v @ [CR]"
  have "LF \<notin> set ?l"
    using assms(1) by (auto simp: h plain_header_def plain_key_def plain_value_def list_all_iff)
  then have n: "next_line (header_text h @ rest) eof = Some (?l @ [LF], rest)"
    using next_line_LF [of ?l rest eof] by (simp add: h header_text_def)
  have c: "crlf_line (?l @ [LF])"
    by (simp add: crlf_line_def)
  have a: "add_header (?l @ [LF]) hs = mm_emplace ci k v hs"
    using parse_header_plain assms(1) by (simp add: h add_header_def)
  show ?thesis
    using assms(2) c a by (subst read_block.simps, subst n) (simp add: h short_header_def)
qed

lemma read_block_end: "read_block (crlf @ rest) eof hs = Some (hs, rest)"
  by (subst read_block.simps) (simp add: crlf_line_def)

text \<open>Reading headers gives back the headers that were written.\<close>

definition put_headers :: "Headers \<Rightarrow> Headers \<Rightarrow> Headers" where
  "put_headers hs acc = fold (\<lambda>h. mm_emplace ci (fst h) (snd h)) hs acc"

lemma read_block_headers:
  "list_all plain_header hs \<Longrightarrow> list_all short_header hs \<Longrightarrow>
     read_block (concat (map header_text hs) @ crlf @ rest) eof acc = Some (put_headers hs acc, rest)"
proof (induction hs arbitrary: acc)
  case Nil
  then show ?case
    using read_block_end by (simp add: put_headers_def)
next
  case (Cons h hs)
  then show ?case
    using read_block_header [of h "concat (map header_text hs) @ crlf @ rest" eof acc] by (simp add: put_headers_def)
qed

lemma ci_other: "\<not> same_name j k \<Longrightarrow> ci j k \<or> ci k j"
  using ci_equiv by blast

lemma put_headers_other:
  "list_all (\<lambda>h. \<not> same_name key (fst h)) hs \<Longrightarrow> mm_equal_range ci key (put_headers hs acc) = mm_equal_range ci key acc"
  by (induction hs arbitrary: acc) (simp_all add: put_headers_def ci_other headers.equal_range_emplace_other)

lemma no_header_value [simp]: "mm_equal_range ci key hs = [] \<Longrightarrow> get_header_value hs key = []"
  by (simp add: get_header_value_def)

lemma set_header_other:
  "\<not> same_name key k \<Longrightarrow> mm_equal_range ci key (set_header k v hs) = mm_equal_range ci key hs"
  by (simp add: set_header_def ci_other headers.equal_range_emplace_other)

subsection \<open>The request for \<open>/hello\<close>\<close>

definition hello_request :: "Headers \<Rightarrow> string" where
  "hello_request hs = ''GET /hello HTTP/1.1'' @ crlf @ concat (map header_text hs) @ crlf"

definition ordinary_header :: "string \<times> string \<Rightarrow> bool" where
  "ordinary_header h \<longleftrightarrow> plain_header h \<and> short_header h
     \<and> \<not> same_name ''Range'' (fst h) \<and> \<not> same_name ''Expect'' (fst h) \<and> \<not> same_name ''Connection'' (fst h)"

definition hello_response :: "bool \<Rightarrow> string" where
  "hello_response close_connection =
     ''HTTP/1.1 200 OK'' @ crlf
     @ (if close_connection then ''Connection: close'' @ crlf else [])
     @ ''Content-Length: 13'' @ crlf @ ''Content-Type: text/plain'' @ crlf
     @ (if close_connection then [] else ''Keep-Alive: timeout=5, max=5'' @ crlf)
     @ crlf @ ''Hello, World!''"

definition hello_parsed :: Request where
  "hello_parsed = new_Request\<lparr>req_method := ''GET'', req_path := ''/hello'', req_version := ''HTTP/1.1'', req_target := ''/hello''\<rparr>"

lemma hello_line_parsed: "parse_request_line (''GET /hello HTTP/1.1'' @ crlf) new_Request = (True, hello_parsed)"
  by code_simp

lemma hello_headers:
  "set_header ''Connection'' ''close'' (set_header ''Content-Length'' ''13'' (set_header ''Content-Type'' ''text/plain'' []))
     = [(''Connection'', ''close''), (''Content-Length'', ''13''), (''Content-Type'', ''text/plain'')]"
  "set_header ''Keep-Alive'' ''timeout=5, max=5'' (set_header ''Content-Length'' ''13'' (set_header ''Content-Type'' ''text/plain'' []))
     = [(''Content-Length'', ''13''), (''Content-Type'', ''text/plain''), (''Keep-Alive'', ''timeout=5, max=5'')]"
  by code_simp+

lemma small_numbers: "to_string 5 = ''5''" "to_string 13 = ''13''" "to_string 0 = ''0''" "to_string_int 200 = ''200''"
  by (simp_all add: to_string_int_def to_string.simps char_of_eq_iff)

lemma header_line_text: "plain_header h \<Longrightarrow> header_line h = header_text h"
proof -
  assume "plain_header h"
  then have "NUL \<notin> set (fst h)" "NUL \<notin> set (snd h)"
    by (auto simp: plain_header_def plain_key_def plain_value_def list_all_iff)
  then have "c_str (fst h) = fst h" "c_str (snd h) = snd h"
    by (auto simp: c_str_def takeWhile_eq_all_conv)
  then show ?thesis
    by (simp add: header_line_def header_text_def format_text_exact)
qed

lemma hello_length: "to_string (length ''Hello, World!'') = ''13''"
proof -
  have "length ''Hello, World!'' = 13" by simp
  then show ?thesis by (simp only: small_numbers)
qed

text \<open>The handler's response, completed and written.\<close>

lemma hello_written:
  assumes "sock_sends (ss_sock st) = []" and "req_method req \<noteq> ''HEAD''" and "req_ranges req = []"
    and "get_header_value (req_headers req) ''Connection'' \<noteq> ''close''"
  shows "write_response_with_content rnd (hello_server fd r) close_connection req
      (set_content ''Hello, World!'' ''text/plain'' (first_response (hello_server fd r))\<lparr>res_status := 200\<rparr>) st
    = Some (True, set_content ''Hello, World!'' ''text/plain'' new_Response
            \<lparr>res_version := ''HTTP/1.1'', res_status := 200,
             res_headers := (if close_connection
               then [(''Connection'', ''close''), (''Content-Length'', ''13''), (''Content-Type'', ''text/plain'')]
               else [(''Content-Length'', ''13''), (''Content-Type'', ''text/plain''), (''Keep-Alive'', ''timeout=5, max=5'')])\<rparr>,
       st\<lparr>ss_sock := (ss_sock st)\<lparr>sock_out := sock_out (ss_sock st) @ hello_response close_connection\<rparr>\<rparr>)"
proof -
  have f: "res_headers (first_response (hello_server fd r)) = []"
    by (simp add: first_response_def hello_server_def new_Server_def)
  have h: "has_header [(''Connection'', ''close''), (''Content-Length'', ''13''), (''Content-Type'', ''text/plain'')] ''Content-Type''"
    "has_header [(''Connection'', ''close''), (''Content-Length'', ''13''), (''Content-Type'', ''text/plain'')] ''Content-Length''"
    "has_header [(''Content-Length'', ''13''), (''Content-Type'', ''text/plain''), (''Keep-Alive'', ''timeout=5, max=5'')] ''Content-Type''"
    "has_header [(''Content-Length'', ''13''), (''Content-Type'', ''text/plain''), (''Keep-Alive'', ''timeout=5, max=5'')] ''Content-Length''"
    by code_simp+
  have sl: "status_line 200 = ''HTTP/1.1 200 OK'' @ crlf"
    by (simp add: status_line_def status_message_def format_text_exact small_numbers)
  have wh: "write_headers [(''Connection'', ''close''), (''Content-Length'', ''13''), (''Content-Type'', ''text/plain'')]
      = ''Connection: close'' @ crlf @ ''Content-Length: 13'' @ crlf @ ''Content-Type: text/plain'' @ crlf @ crlf"
    "write_headers [(''Content-Length'', ''13''), (''Content-Type'', ''text/plain''), (''Keep-Alive'', ''timeout=5, max=5'')]
      = ''Content-Length: 13'' @ crlf @ ''Content-Type: text/plain'' @ crlf @ ''Keep-Alive: timeout=5, max=5'' @ crlf @ crlf"
    by (simp_all add: write_headers_def header_line_def format_text_exact c_str_def)
  have conn: "connection_headers (hello_server fd r) close_connection req
      (x\<lparr>res_headers := set_header ''Content-Length'' ''13'' (set_header ''Content-Type'' ''text/plain'' [])\<rparr>)
    = x\<lparr>res_headers := (if close_connection
               then [(''Connection'', ''close''), (''Content-Length'', ''13''), (''Content-Type'', ''text/plain'')]
               else [(''Content-Length'', ''13''), (''Content-Type'', ''text/plain''), (''Keep-Alive'', ''timeout=5, max=5'')])\<rparr>" for x
    using assms(4) hello_headers by (simp add: connection_headers_def hello_server_def new_Server_def small_numbers)
  define x where "x = (first_response (hello_server fd r))\<lparr>res_body := ''Hello, World!'', res_status := 200\<rparr>"
  have ranged: "apply_ranges rnd req (set_content ''Hello, World!'' ''text/plain'' (first_response (hello_server fd r))\<lparr>res_status := 200\<rparr>)
      = x\<lparr>res_headers := set_header ''Content-Length'' ''13'' (set_header ''Content-Type'' ''text/plain'' [])\<rparr>"
    by (simp add: apply_ranges_def multipart_type_def range_body_def assms(3) set_content_def f hello_length x_def mm_erase_def
        del: list.size(4))
  have hx: "additional_headers (hello_server fd r) close_connection req
      (x\<lparr>res_headers := set_header ''Content-Length'' ''13'' (set_header ''Content-Type'' ''text/plain'' [])\<rparr>)
    = x\<lparr>res_headers := (if close_connection
               then [(''Connection'', ''close''), (''Content-Length'', ''13''), (''Content-Type'', ''text/plain'')]
               else [(''Content-Length'', ''13''), (''Content-Type'', ''text/plain''), (''Keep-Alive'', ''timeout=5, max=5'')])\<rparr>"
    using assms(2) h by (simp add: additional_headers_def conn Let_def)
  have srv: "error_handler (hello_server fd r) = None" "post_routing_handler (hello_server fd r) = None"
    by (simp_all add: hello_server_def new_Server_def)
  show ?thesis
    using assms(1,2)
    by (simp add: write_response_with_content_def write_response_core_def ranged hx srv write_data_all)
      (simp add: x_def first_response_def hello_server_def new_Server_def set_content_def sl wh hello_response_def write_data_all)
qed

subsection \<open>From the socket to the answer\<close>

lemma hello_routed:
  assumes "req_method req = ''GET''" and "req_path req = ''/hello''"
  shows "routing env (hello_server fd r) req res st
    = Routed True (req\<lparr>req_matches := []\<rparr>) (set_content ''Hello, World!'' ''text/plain'' res) st"
  using assms regex_match_letters [of "''/hello''" "''/hello''"]
  by (simp add: routing_def hello_server_def new_Server_def handle_file_request_def route_content_def expect_content_def
      regular_handler_def hello_handler_def Let_def del: letters.simps)

lemma remote_names:
  "\<not> same_name ''Range'' ''REMOTE_PORT''" "\<not> same_name ''Range'' ''REMOTE_ADDR''"
  "\<not> same_name ''Expect'' ''REMOTE_PORT''" "\<not> same_name ''Expect'' ''REMOTE_ADDR''"
  "\<not> same_name ''Connection'' ''REMOTE_PORT''" "\<not> same_name ''Connection'' ''REMOTE_ADDR''"
  by code_simp+

lemma hello_after_headers:
  assumes "mm_equal_range ci ''Range'' hs = []" and "mm_equal_range ci ''Expect'' hs = []"
    and "mm_equal_range ci ''Connection'' hs = []" and "sock_sends (ss_sock st) = []"
  shows "after_headers env (hello_server fd r) close_connection (hello_parsed\<lparr>req_headers := hs\<rparr>)
      (first_response (hello_server fd r)) st
    = Some (True, False, st\<lparr>ss_sock := (ss_sock st)\<lparr>sock_out := sock_out (ss_sock st) @ hello_response close_connection\<rparr>\<rparr>)"
proof -
  let ?req = "with_remote env (hello_parsed\<lparr>req_headers := hs\<rparr>)"
  have none: "mm_equal_range ci ''Range'' (req_headers ?req) = []" "mm_equal_range ci ''Expect'' (req_headers ?req) = []"
    "mm_equal_range ci ''Connection'' (req_headers ?req) = []"
    using assms by (simp_all add: with_remote_def set_header_other remote_names)
  have fields: "req_method ?req = ''GET''" "req_path ?req = ''/hello''" "req_ranges ?req = []"
    by (simp_all add: with_remote_def hello_parsed_def new_Request_def)
  have open_conn: "\<not> closes_connection (hello_parsed\<lparr>req_headers := hs\<rparr>)"
    using assms(3) by (simp add: closes_connection_def hello_parsed_def)
  have status: "res_status (set_content b t (first_response (hello_server fd r))) = - 1" for b t
    by (simp add: set_content_def first_response_def new_Response_def)
  have "expect_step env (hello_server fd r) close_connection False ?req (first_response (hello_server fd r)) st
    = Some (True, False, st\<lparr>ss_sock := (ss_sock st)\<lparr>sock_out := sock_out (ss_sock st) @ hello_response close_connection\<rparr>\<rparr>)"
    using none fields assms(4) hello_written [of st "?req\<lparr>req_matches := []\<rparr>"]
    by (simp add: expect_step_def conclude_def hello_routed status answer_def)
  then show ?thesis
    using none open_conn by (simp add: after_headers_def has_header_def Let_def)
qed

lemma process_hello:
  assumes "stream_view st = (hello_request hs @ rest, eof)" and "list_all ordinary_header hs"
    and "sock_fd (ss_sock st) < FD_SETSIZE" and "sock_sends (ss_sock st) = []"
    and g: "getline (new_line_reader 2048) st = (ok, lr, st1)" and rh: "read_headers [] st1 = (ok2, hs2, st2)"
  shows "\<exists>st'. process_request env (hello_server fd r) close_connection st = Some (True, False, st')
      \<and> sock_out (ss_sock st') = sock_out (ss_sock st) @ hello_response close_connection
      \<and> sock_sends (ss_sock st') = [] \<and> sock_fd (ss_sock st') = sock_fd (ss_sock st) \<and> stream_view st' = (rest, eof)
      \<and> sock_in (ss_sock st') = sock_in (ss_sock st2)"
proof -
  have nl: "next_line (fst (stream_view st)) (snd (stream_view st)) = Some (''GET /hello HTTP/1.1'' @ crlf, concat (map header_text hs) @ crlf @ rest)"
    using next_line_LF [of "''GET /hello HTTP/1.1'' @ [CR]"] by (simp add: assms(1) hello_request_def)
  have "length (fixed_buffer (new_line_reader 2048)) > 1"
    by (simp add: new_line_reader_def)
  from getline_view [OF this g] have ok: "ok" and t: "lr_text lr = ''GET /hello HTTP/1.1'' @ crlf"
    and p: "lr_ptr lr = ''GET /hello HTTP/1.1'' @ crlf" and v: "stream_view st1 = (concat (map header_text hs) @ crlf @ rest, eof)"
    using nl assms(1) by (simp_all add: c_str_def)
  have pl: "list_all plain_header hs" "list_all short_header hs"
    using assms(2) by (simp_all add: list_all_iff ordinary_header_def)
  have ok2: "ok2" and hs2: "hs2 = put_headers hs []" and v2: "stream_view st2 = (rest, eof)"
    using read_headers_view [OF rh] read_block_headers [OF pl, of rest eof "[]"] by (simp_all add: v)
  have none: "mm_equal_range ci ''Range'' hs2 = []" "mm_equal_range ci ''Expect'' hs2 = []" "mm_equal_range ci ''Connection'' hs2 = []"
    using assms(2) unfolding hs2
    by (simp_all add: put_headers_other list_all_iff ordinary_header_def) (simp_all add: mm_equal_range_def)
  have side: "send_side st2 = send_side st"
    using getline_send_side [OF g] read_headers_send_side [OF rh] by simp
  then have s: "sock_sends (ss_sock st2) = []" "sock_fd (ss_sock st2) = sock_fd (ss_sock st)" "sock_out (ss_sock st2) = sock_out (ss_sock st)"
    using assms(4) by (simp_all add: send_side_def)
  have fd: "\<not> sock_fd (ss_sock st1) \<ge> FD_SETSIZE"
    using getline_send_side [OF g] assms(3) by (simp add: send_side_def)
  have len: "\<not> length (lr_text lr) > REQUEST_URI_MAX_LENGTH"
    by (simp add: t REQUEST_URI_MAX_LENGTH_def)
  have hp: "req_headers hello_parsed = []"
    by (simp add: hello_parsed_def new_Request_def)
  have "process_request env (hello_server fd r) close_connection st
    = Some (True, False, st2\<lparr>ss_sock := (ss_sock st2)\<lparr>sock_out := sock_out (ss_sock st2) @ hello_response close_connection\<rparr>\<rparr>)"
    using g ok fd len p ok2 hello_after_headers [OF none s(1), of env fd r close_connection]
    unfolding process_request_def g Let_def
    by (simp add: hello_line_parsed hp rh del: append.simps append_Cons)
  then show ?thesis
    using s v2 by (simp add: stream_view_def)
qed

text \<open>
  C8. Whoever asks for \<open>/hello\<close> gets the greeting: when the bytes of a request line for \<open>/hello\<close> with any
  ordinary headers arrive on a connection, in any segments and with pauses below the read
  timeout, and the socket, whose number \<open>select\<close> can handle, takes all it is sent, then the server of
  the program reads exactly the request, keeps the connection open and sends exactly this response,
  with a correct length.
\<close>

theorem hello_answered:
  assumes "stream_view st = (hello_request hs @ rest, eof)" and "list_all ordinary_header hs"
    and "sock_fd (ss_sock st) < FD_SETSIZE" and "sock_sends (ss_sock st) = []"
  shows "\<exists>st'. process_request env (hello_server fd r) close_connection st = Some (True, False, st')
      \<and> sock_out (ss_sock st') = sock_out (ss_sock st) @ hello_response close_connection
      \<and> stream_view st' = (rest, eof)"
proof -
  obtain ok lr st1 where g: "getline (new_line_reader 2048) st = (ok, lr, st1)"
    by (metis prod_cases3)
  obtain ok2 hs2 st2 where rh: "read_headers [] st1 = (ok2, hs2, st2)"
    by (metis prod_cases3)
  from process_hello [OF assms g rh] show ?thesis by blast
qed

end
