(* ===== verification/Http_Connection.thy ===== *)
theory Http_Connection
  imports Http_Hello
begin

section \<open>Requests that follow each other on a connection\<close>

text \<open>
  Keeping a connection alive: waiting for the next request, what is lost when requests arrive
  together, and the five requests that a connection is good for.
\<close>

subsection \<open>Waiting for data\<close>

text \<open>How long nothing happens at first, and what comes then.\<close>

fun quiet :: "peer_event list \<Rightarrow> nat" where
  "quiet (Pause n # es) = n + quiet es"
| "quiet (Data s # es) = (if s = [] then quiet es else 0)"
| "quiet es = 0"

fun awake :: "peer_event list \<Rightarrow> peer_event list" where
  "awake (Pause n # es) = awake es"
| "awake (Data s # es) = (if s = [] then awake es else Data s # es)"
| "awake es = es"

definition broken :: "peer_event list \<Rightarrow> bool" where
  "broken es \<longleftrightarrow> (\<exists>rest. awake es = Broken # rest)"

lemma wait_data_early: "quiet es \<le> t \<Longrightarrow> wait_data t es = (quiet es, if broken es then - 1 else 1, awake es)"
  by (induction t es rule: wait_data.induct) (auto simp: broken_def)

lemma wait_data_late:
  "t < quiet es \<Longrightarrow> \<exists>n es'. wait_data t es = (t, 0, Pause n # es') \<and> n > 0
     \<and> n + quiet es' = quiet es - t \<and> awake es' = awake es"
proof (induction t es rule: wait_data.induct)
  case (3 t n es)
  show ?case
  proof (cases "n \<le> t")
    case True
    then have "t - n < quiet es"
      using 3 by simp
    from "3.IH" [OF True this] obtain m es' where "wait_data (t - n) es = (t - n, 0, Pause m # es')" "m > 0"
      "m + quiet es' = quiet es - (t - n)" "awake es' = awake es"
      by blast
    then show ?thesis
      using True by auto
  next
    case False
    then show ?thesis by auto
  qed
qed (auto split: if_splits)

lemma elapse_pause:
  assumes "n > 0"
  shows "quiet (elapse 1 (Pause n # es)) = n + quiet es - 1" and "awake (elapse 1 (Pause n # es)) = awake es"
proof -
  have "quiet (elapse 0 es) = quiet es \<and> awake (elapse 0 es) = awake es"
    by (induction "0 :: nat" es rule: elapse.induct) auto
  then show "quiet (elapse 1 (Pause n # es)) = n + quiet es - 1" and "awake (elapse 1 (Pause n # es)) = awake es"
    using assms by auto
qed

lemma flow_awake: "quiet es \<le> t \<Longrightarrow> flow t es = flow t' (awake es)"
  by (induction t es rule: flow.induct) auto

lemma keep_alive_loop_early:
  assumes "sock_fd s < FD_SETSIZE" and "\<not> broken (sock_in s)" and "t0 \<le> sock_clock s"
    and "sock_clock s - t0 + quiet (sock_in s) \<le> timeout"
  shows "\<exists>c. keep_alive_loop t0 timeout s = (True, s\<lparr>sock_in := awake (sock_in s), sock_clock := c\<rparr>)"
  using assms
proof (induction t0 timeout s rule: keep_alive_loop.induct)
  case (1 t0 timeout s)
  show ?case
  proof (cases "quiet (sock_in s) \<le> 10")
    case True
    have "select_read 10 s = (1, s\<lparr>sock_in := awake (sock_in s), sock_clock := sock_clock s + quiet (sock_in s)\<rparr>)"
      using "1.prems"(1,2) wait_data_early [OF True] by (simp add: select_read_def)
    then show ?thesis
      by (subst keep_alive_loop.simps) auto
  next
    case False
    then obtain n es where w: "wait_data 10 (sock_in s) = (10, 0, Pause n # es)" and n: "n > 0"
      "n + quiet es = quiet (sock_in s) - 10" "awake es = awake (sock_in s)"
      using wait_data_late [of 10 "sock_in s"] by auto
    define s1 where "s1 = s\<lparr>sock_in := Pause n # es, sock_clock := sock_clock s + 10\<rparr>"
    have sel: "select_read 10 s = (0, s1)"
      using "1.prems"(1) by (simp add: select_read_def w s1_def)
    have fits: "\<not> sock_clock s1 - t0 > timeout"
      using "1.prems"(3,4) n False by (simp add: s1_def)
    have q: "quiet (sock_in (sleep_ms 1 s1)) = quiet (sock_in s) - 11" "awake (sock_in (sleep_ms 1 s1)) = awake (sock_in s)"
      using elapse_pause [OF n(1), of es] n by (simp_all add: sleep_ms_def s1_def del: elapse.simps)
    have c: "sock_clock (sleep_ms 1 s1) = sock_clock s + 11" "sock_fd (sleep_ms 1 s1) = sock_fd s"
      "sock_sends (sleep_ms 1 s1) = sock_sends s" "sock_out (sleep_ms 1 s1) = sock_out s"
      by (simp_all add: sleep_ms_def s1_def)
    have "\<exists>c. keep_alive_loop t0 timeout (sleep_ms 1 s1) = (True, (sleep_ms 1 s1)\<lparr>sock_in := awake (sock_in (sleep_ms 1 s1)), sock_clock := c\<rparr>)"
      using "1.IH" [OF sel [symmetric]] fits "1.prems" q c n False by (simp add: broken_def)
    moreover have "(sleep_ms 1 s1)\<lparr>sock_in := x, sock_clock := y\<rparr> = s\<lparr>sock_in := x, sock_clock := y\<rparr>" for x y
      by (simp add: sleep_ms_def s1_def)
    ultimately show ?thesis
      using fits q by (subst keep_alive_loop.simps) (simp add: sel)
  qed
qed

lemma keep_alive_early:
  assumes "sock_fd s < FD_SETSIZE" and "\<not> broken (sock_in s)" and "quiet (sock_in s) \<le> n * 1000"
  shows "\<exists>c. keep_alive n s = (True, s\<lparr>sock_in := awake (sock_in s), sock_clock := c\<rparr>)"
  using keep_alive_loop_early [OF assms(1,2), of "sock_clock s" "n * 1000"] assms(3) by (simp add: keep_alive_def)

subsection \<open>What one segment holds is read ahead\<close>

definition in_buffer :: "string \<Rightarrow> peer_event list \<Rightarrow> SocketStream \<Rightarrow> bool" where
  "in_buffer w es st \<longleftrightarrow> read_buff st = w \<and> sock_in (ss_sock st) = es \<and> read_buff_off st \<le> length w"

definition ahead :: "SocketStream \<Rightarrow> string" where
  "ahead st = drop (read_buff_off st) (read_buff st)"

lemma ss_read_buffered:
  assumes "in_buffer w es st" and "ahead st = c # cs"
  shows "\<exists>st'. ss_read 1 st = (Some [c], st') \<and> in_buffer w es st' \<and> ahead st' = cs"
proof -
  have l: "read_buff_off st < length (read_buff st)"
    using assms(2) by (auto simp: ahead_def intro: ccontr)
  have "drop (Suc (read_buff_off st)) (read_buff st) = cs"
    using assms(2) by (simp add: ahead_def drop_Suc flip: tl_drop)
  then show ?thesis
    using assms l by (simp add: ss_read_def ahead_def in_buffer_def)
qed

lemma getline_loop_buffered:
  assumes "in_buffer w es st" and "next_line (ahead st) False = Some (l, rest)"
  shows "\<exists>lr' st'. getline_loop i lr st = (True, lr', st') \<and> in_buffer w es st' \<and> ahead st' = rest"
  using assms
proof (induction "ahead st" arbitrary: i lr st l)
  case Nil
  then show ?case by simp
next
  case (Cons c cs)
  obtain st1 where rd: "ss_read 1 st = (Some [c], st1)" and b: "in_buffer w es st1" and a: "ahead st1 = cs"
    using ss_read_buffered [OF Cons.prems(1) Cons.hyps(2) [symmetric]] by blast
  show ?case
  proof (cases "c = LF")
    case True
    then show ?thesis
      using Cons.prems(2) rd b a unfolding Cons.hyps(2) [symmetric] by (subst getline_loop.simps) auto
  next
    case False
    then obtain l' where "next_line (ahead st1) False = Some (l', rest)"
      using Cons.prems(2) unfolding Cons.hyps(2) [symmetric] by (auto simp: a)
    from Cons.hyps(1) [OF a [symmetric] b this] show ?thesis
      using rd False by (subst getline_loop.simps) simp
  qed
qed

lemma getline_buffered:
  assumes "in_buffer w es st" and "next_line (ahead st) False = Some (l, rest)"
  shows "\<exists>lr' st'. getline lr st = (True, lr', st') \<and> in_buffer w es st' \<and> ahead st' = rest"
  unfolding getline_def by (rule getline_loop_buffered [OF assms])

lemma read_headers_buffered:
  assumes "length (fixed_buffer lr) > 1" and "in_buffer w es st"
    and "read_block (ahead st) False hs = Some (hs', rest)"
    and "read_headers_loop lr hs st = (ok, hs2, st')"
  shows "in_buffer w es st'"
  using assms
proof (induction "ahead st" False hs arbitrary: lr st rule: read_block.induct)
  case (1 hs)
  note prems = "1.prems"
  obtain l r where nl: "next_line (ahead st) False = Some (l, r)" and l: "l \<noteq> []"
    using prems(3) by (subst (asm) read_block.simps) (auto split: option.splits if_splits)
  obtain lr1 st1 where g: "getline lr st = (True, lr1, st1)" and b: "in_buffer w es st1" and a: "ahead st1 = r"
    using getline_buffered [OF prems(2) nl] by blast
  have ne: "next_line (fst (stream_view st)) (snd (stream_view st)) = Some (l, r @ fst (flow read_timeout es))"
  proof -
    have "next_line (x @ y) e = Some (l, r @ y)" if "next_line x False = Some (l, r)" for x y e l r
      using that by (induction x arbitrary: l) (auto split: if_splits)
    from this [OF nl] show ?thesis
      using prems(2) by (simp add: stream_view_def ahead_def in_buffer_def)
  qed
  have t: "lr_text lr1 = l" "length (fixed_buffer lr1) > 1"
    using getline_view [OF prems(1) g] ne l prems(1) by simp_all
  have e: "end_with_crlf lr1 \<longleftrightarrow> crlf_line l"
    by (simp add: end_with_crlf_def crlf_line_def t)
  have nl1: "next_line (ahead st) False = Some (l, ahead st1)"
    by (simp add: nl a)
  note step = prems(4) [unfolded read_headers_loop.simps [of lr] g, simplified]
  note rb = prems(3) [unfolded read_block.simps [of "ahead st"] nl, simplified]
  consider "crlf_line l" "length l = 2" | "crlf_line l" "length l \<noteq> 2" "\<not> length l > HEADER_MAX_LENGTH" | "\<not> crlf_line l"
    using rb l by (auto split: if_splits)
  then show ?case
  proof cases
    case c: 1
    then show ?thesis
      using step e t b by simp
  next
    case c: 2
    have "read_block (ahead st1) False (add_header l hs) = Some (hs', rest)"
      "read_headers_loop lr1 (add_header l hs) st1 = (ok, hs2, st')"
      using rb step c l e t a by simp_all
    with c show ?thesis
      using "1.hyps"(1) [OF nl1 refl l c(1,2,3) t(2) b] by blast
  next
    case c: 3
    have "read_block (ahead st1) False hs = Some (hs', rest)" "read_headers_loop lr1 hs st1 = (ok, hs2, st')"
      using rb step c l e t a by simp_all
    with c show ?thesis
      using "1.hyps"(2) [OF nl1 refl l c t(2) b] by blast
  qed
qed

text \<open>
  A request that arrives in one segment, with whatever follows it in the segment, is answered and
  leaves the socket as if the rest of the segment had never come.
\<close>

lemma hello_buffered:
  assumes "sock_in s = Data (hello_request hs @ rest) # es" and "list_all ordinary_header hs"
    and "length (hello_request hs @ rest) \<le> read_buff_size"
    and "sock_fd s < FD_SETSIZE" and "sock_sends s = []"
  shows "\<exists>st'. process_request env (hello_server fd r) close_connection (new_SocketStream s) = Some (True, False, st')
      \<and> sock_out (ss_sock st') = sock_out s @ hello_response close_connection
      \<and> sock_in (ss_sock st') = es \<and> sock_sends (ss_sock st') = [] \<and> sock_fd (ss_sock st') = sock_fd s"
proof -
  define w where "w = hello_request hs @ rest"
  let ?st = "new_SocketStream s"
  let ?line = "''GET /hello HTTP/1.1'' @ crlf"
  let ?block = "concat (map header_text hs) @ crlf @ rest"
  have w: "w = ?line @ ?block"
    by (simp add: w_def hello_request_def)
  have v: "stream_view ?st = (hello_request hs @ rest @ fst (flow read_timeout es), snd (flow read_timeout es))"
    by (simp add: stream_view_def new_SocketStream_def assms(1) hello_request_def)
  have fst_read: "\<exists>st1. ss_read 1 ?st = (Some ''G'', st1) \<and> in_buffer w es st1 \<and> ahead st1 = tl w"
  proof -
    have len: "\<not> length w \<le> 1" "length w \<le> read_buff_size"
      using assms(3) by (simp_all add: w w_def [symmetric])
    have "wait_data t (sock_in s) = (0, 1, sock_in s)" for t
      by (simp add: assms(1) hello_request_def)
    then have "ss_read 1 ?st = (Some (take 1 w), \<lparr>ss_sock = s\<lparr>sock_in := es\<rparr>, read_buff = w, read_buff_off = 1\<rparr>)"
      using len assms(1,4)
      by (simp add: ss_read_def new_SocketStream_def select_read_def read_socket_def read_buff_size_def Let_def flip: w_def)
    then show ?thesis
      using len by (simp add: w in_buffer_def ahead_def drop_Suc)
  qed
  obtain lr1 st1 where g: "getline (new_line_reader 2048) ?st = (True, lr1, st1)" and b1: "in_buffer w es st1"
    and a1: "ahead st1 = ?block"
  proof -
    obtain st0 where rd: "ss_read 1 ?st = (Some ''G'', st0)" and b0: "in_buffer w es st0" and a0: "ahead st0 = tl w"
      using fst_read by blast
    have nl: "next_line (ahead st0) False = Some (tl ?line, ?block)"
      using next_line_LF [of "''ET /hello HTTP/1.1'' @ [CR]" ?block False] by (simp add: a0 w)
    have "\<exists>lr' st'. getline_loop 0 lr ?st = (True, lr', st') \<and> in_buffer w es st' \<and> ahead st' = ?block" for lr
      using getline_loop_buffered [OF b0 nl, of "Suc 0" "lr_append (CHR ''G'') lr"] rd
      by (subst getline_loop.simps) simp
    then show ?thesis
      using that unfolding getline_def by blast
  qed
  have pl: "list_all plain_header hs" "list_all short_header hs"
    using assms(2) by (simp_all add: list_all_iff ordinary_header_def)
  obtain ok2 hs2 st2 where rh: "read_headers [] st1 = (ok2, hs2, st2)"
    by (metis prod_cases3)
  have b2: "in_buffer w es st2"
  proof (rule read_headers_buffered)
    show "1 < length (fixed_buffer (new_line_reader 2048))"
      by (simp add: new_line_reader_def)
    show "read_block (ahead st1) False [] = Some (put_headers hs [], rest)"
      unfolding a1 by (rule read_block_headers [OF pl])
    show "read_headers_loop (new_line_reader 2048) [] st1 = (ok2, hs2, st2)"
      using rh by (simp add: read_headers_def)
  qed (rule b1)
  show ?thesis
    using process_hello [OF v assms(2) _ _ g rh, of env fd r close_connection] b2 assms(4,5)
    by (auto simp: in_buffer_def new_SocketStream_def)
qed

subsection \<open>A whole connection\<close>

lemma hello_server_params [simp]:
  "keep_alive_timeout_sec (hello_server fd r) = 5" "keep_alive_max_count (hello_server fd r) = 5"
  by (simp_all add: hello_server_def new_Server_def)

text \<open>At the end of the stream the server gives up without an answer.\<close>

lemma process_nothing:
  assumes "stream_view st = ([], eof)"
  shows "\<exists>st'. process_request env svr close_connection st = Some (False, False, st') \<and> send_side st' = send_side st"
proof -
  obtain ok lr st1 where g: "getline (new_line_reader 2048) st = (ok, lr, st1)"
    by (metis prod_cases3)
  have "length (fixed_buffer (new_line_reader 2048)) > 1"
    by (simp add: new_line_reader_def)
  from getline_view [OF this g] have "\<not> ok"
    using assms by (cases eof) simp_all
  then show ?thesis
    using g getline_send_side [OF g] by (auto simp: process_request_def)
qed

lemma connection_end:
  assumes "env_open env (sock_clock s)" and "sock_in s = []" and "sock_fd s < FD_SETSIZE"
  shows "\<exists>s'. process_server_socket_core env (hello_server fd r) (Suc n) ret s = Some (False, s') \<and> sock_out s' = sock_out s"
proof -
  obtain c where k: "keep_alive 5 s = (True, s\<lparr>sock_in := [], sock_clock := c\<rparr>)"
    using keep_alive_early [of s 5] assms by (auto simp: broken_def)
  have "stream_view (new_SocketStream (s\<lparr>sock_in := [], sock_clock := c\<rparr>)) = ([], True)"
    by (simp add: stream_view_def new_SocketStream_def)
  from process_nothing [OF this, of env "hello_server fd r" "n = 0"] show ?thesis
    using assms(1) k by (auto simp: send_side_def new_SocketStream_def)
qed

text \<open>
  One request in one segment, and whatever is in the segment behind it: the first request of the
  rest of the connection is the one of the next segment.
\<close>

lemma connection_step:
  assumes "\<And>t. env_open env t" and "sock_in s = Data (hello_request hs @ rest) # es" and "list_all ordinary_header hs"
    and "length (hello_request hs @ rest) \<le> read_buff_size" and "sock_fd s < FD_SETSIZE" and "sock_sends s = []"
  shows "\<exists>s'. process_server_socket_core env (hello_server fd r) (Suc n) ret s
        = process_server_socket_core env (hello_server fd r) n True s'
      \<and> sock_in s' = es \<and> sock_out s' = sock_out s @ hello_response (n = 0) \<and> sock_fd s' = sock_fd s \<and> sock_sends s' = []"
proof -
  have "quiet (sock_in s) = 0" "awake (sock_in s) = sock_in s" "\<not> broken (sock_in s)"
    using assms(2) by (simp_all add: hello_request_def broken_def)
  then obtain c where k: "keep_alive 5 s = (True, s\<lparr>sock_in := sock_in s, sock_clock := c\<rparr>)"
    using keep_alive_early [OF assms(5), of 5] by auto
  let ?s1 = "s\<lparr>sock_in := sock_in s, sock_clock := c\<rparr>"
  obtain st' where "process_request env (hello_server fd r) (n = 0) (new_SocketStream ?s1) = Some (True, False, st')"
    and "sock_out (ss_sock st') = sock_out s @ hello_response (n = 0)" "sock_in (ss_sock st') = es"
    "sock_sends (ss_sock st') = []" "sock_fd (ss_sock st') = sock_fd s"
    using hello_buffered [of ?s1 hs rest es env fd r "n = 0"] assms by auto
  then show ?thesis
    using assms(1) k by auto
qed

lemma connection_requests:
  assumes "\<And>t. env_open env t" and "sock_in s = map (\<lambda>hs. Data (hello_request hs)) hss"
    and "\<forall>hs \<in> set hss. list_all ordinary_header hs \<and> length (hello_request hs) \<le> read_buff_size"
    and "sock_fd s < FD_SETSIZE" and "sock_sends s = []"
  shows "\<exists>ok s'. process_server_socket_core env (hello_server fd r) n ret s = Some (ok, s')
      \<and> sock_out s' = sock_out s @ concat (map (\<lambda>i. hello_response (Suc i = n)) [0..<min n (length hss)])"
  using assms
proof (induction n arbitrary: hss s ret)
  case 0
  then show ?case by simp
next
  case (Suc n)
  show ?case
  proof (cases hss)
    case Nil
    then show ?thesis
      using connection_end [of env s fd r n ret] Suc.prems by auto
  next
    case (Cons hs hss')
    obtain s1 where step: "process_server_socket_core env (hello_server fd r) (Suc n) ret s
        = process_server_socket_core env (hello_server fd r) n True s1"
      and s1: "sock_in s1 = map (\<lambda>hs. Data (hello_request hs)) hss'" "sock_out s1 = sock_out s @ hello_response (n = 0)"
        "sock_fd s1 = sock_fd s" "sock_sends s1 = []"
      using connection_step [of env s hs "[]" "map (\<lambda>hs. Data (hello_request hs)) hss'" fd r n ret] Suc.prems Cons by auto
    obtain ok s' where r: "process_server_socket_core env (hello_server fd r) n True s1 = Some (ok, s')"
      "sock_out s' = sock_out s1 @ concat (map (\<lambda>i. hello_response (Suc i = n)) [0..<min n (length hss')])"
      using Suc.IH [of s1 hss' True] Suc.prems Cons s1 by auto
    have "[0..<min (Suc n) (length hss)] = 0 # map Suc [0..<min n (length hss')]"
      by (simp add: Cons map_Suc_upt upt_conv_Cons del: upt_Suc)
    then have "concat (map (\<lambda>i. hello_response (Suc i = Suc n)) [0..<min (Suc n) (length hss)])
        = hello_response (n = 0) @ concat (map (\<lambda>i. hello_response (Suc i = n)) [0..<min n (length hss')])"
      by (simp add: comp_def eq_commute [of 0])
    then show ?thesis
      using step r s1 by simp
  qed
qed

text \<open>
  C10. A connection carries at most five requests: of the requests for \<open>/hello\<close> with ordinary headers that a
  client sends one by one, each in a segment of its own of at most 4096 bytes, on a socket that
  takes all it is sent, the first five are answered in order, the fifth answer announces the end of
  the connection, and no later request gets an answer.
\<close>

theorem keep_alive_serves_five:
  assumes "\<And>t. env_open env t" and "sock_in s = map (\<lambda>hs. Data (hello_request hs)) hss"
    and "\<forall>hs \<in> set hss. list_all ordinary_header hs \<and> length (hello_request hs) \<le> read_buff_size"
    and "sock_fd s < FD_SETSIZE" and "sock_sends s = []"
  shows "\<exists>ok s'. process_and_close_socket env (hello_server fd r) s = Some (ok, s')
      \<and> sock_out s' = sock_out s @ concat (map (\<lambda>i. hello_response (i = 4)) [0..<min 5 (length hss)])"
proof -
  have "(Suc i = 5) = (i = 4)" for i :: nat
    by auto
  then show ?thesis
    using connection_requests [OF assms, of fd r 5 False] by (simp add: process_and_close_socket_def)
qed

text \<open>
  C9. Requests that a client sends without waiting for the answers are lost: what arrives in the same
  segment behind a request for \<open>/hello\<close> with ordinary headers is read ahead into the stream of that request and
  thrown away with it, whatever it is, so that a second request in the segment is never answered. This
  is for a segment of at most 4096 bytes, which one read takes whole, on a socket that takes
  all it is sent.
\<close>

theorem pipelined_requests_lost:
  assumes "\<And>t. env_open env t" and "sock_in s = [Data (hello_request hs @ rest)]" and "list_all ordinary_header hs"
    and "length (hello_request hs @ rest) \<le> read_buff_size" and "sock_fd s < FD_SETSIZE" and "sock_sends s = []"
  shows "\<exists>s'. process_and_close_socket env (hello_server fd r) s = Some (False, s')
      \<and> sock_out s' = sock_out s @ hello_response False"
proof -
  obtain s1 where "process_server_socket_core env (hello_server fd r) 5 False s
      = process_server_socket_core env (hello_server fd r) (Suc 3) True s1"
    and s1: "sock_in s1 = []" "sock_out s1 = sock_out s @ hello_response False" "sock_fd s1 = sock_fd s"
    using connection_step [OF assms, of fd r 4 False] by (auto simp: eval_nat_numeral)
  then show ?thesis
    using connection_end [of env s1 fd r 3 True] assms by (auto simp: process_and_close_socket_def)
qed

subsection \<open>Witnesses\<close>

definition demo_env :: http_env where
  "demo_env = \<lparr>env_files = (\<lambda>f. None), env_remote = (''127.0.0.1'', 40000), env_random = id, env_open = (\<lambda>t. True)\<rparr>"

definition demo_socket :: "peer_event list \<Rightarrow> socket" where
  "demo_socket es = \<lparr>sock_fd = 7, sock_in = es, sock_clock = 0, sock_sends = [], sock_out = []\<rparr>"

definition demo_headers :: Headers where
  "demo_headers = [(''Host'', ''monitor:8080'')]"

lemma demo_ordinary: "list_all ordinary_header demo_headers"
proof -
  have "short_header (''Host'', ''monitor:8080'')"
    by (simp add: short_header_def HEADER_MAX_LENGTH_def)
  moreover have "plain_header (''Host'', ''monitor:8080'')"
    by code_simp
  moreover have "\<not> same_name ''Range'' ''Host''" "\<not> same_name ''Expect'' ''Host''" "\<not> same_name ''Connection'' ''Host''"
    by code_simp+
  ultimately show ?thesis
    by (simp add: ordinary_header_def demo_headers_def)
qed

lemma demo_length: "length (hello_request demo_headers @ hello_request demo_headers) \<le> read_buff_size"
  "length (hello_request demo_headers) \<le> read_buff_size"
  by (simp_all add: hello_request_def demo_headers_def header_text_def read_buff_size_def)

lemma demo_fields [simp]: "sock_fd (demo_socket es) < FD_SETSIZE" "sock_sends (demo_socket es) = []" "sock_in (demo_socket es) = es"
  "sock_out (demo_socket es) = []" "env_open demo_env t"
  by (simp_all add: demo_socket_def demo_env_def FD_SETSIZE_def)

text \<open>A request in three segments with a pause of four seconds.\<close>

theorem hello_answered_witness:
  "\<exists>st'. process_request demo_env (hello_server 3 True) False
      (new_SocketStream (demo_socket [Data (take 7 (hello_request demo_headers)), Pause 4000, Data (drop 7 (hello_request demo_headers))]))
      = Some (True, False, st') \<and> sock_out (ss_sock st') = hello_response False"
proof -
  let ?st = "new_SocketStream (demo_socket [Data (take 7 (hello_request demo_headers)), Pause 4000, Data (drop 7 (hello_request demo_headers))])"
  have "drop 7 (hello_request demo_headers) \<noteq> []" "take 7 (hello_request demo_headers) \<noteq> []"
    by (simp_all add: hello_request_def demo_headers_def header_text_def)
  then have "stream_view ?st = (hello_request demo_headers @ [], True)"
    by (simp add: stream_view_def new_SocketStream_def demo_socket_def read_timeout_def)
  from hello_answered [OF this demo_ordinary] show ?thesis
    by (simp add: new_SocketStream_def) blast
qed

theorem keep_alive_witness:
  "\<exists>ok s'. process_and_close_socket demo_env (hello_server 3 True)
        (demo_socket (map (\<lambda>hs. Data (hello_request hs)) [demo_headers, []])) = Some (ok, s')
      \<and> sock_out s' = hello_response False @ hello_response False"
proof -
  have l: "length (hello_request []) \<le> read_buff_size"
    by (simp add: hello_request_def read_buff_size_def)
  have "[0..<min 5 (length [demo_headers, []])] = [0, 1]"
    by (simp add: upt_rec)
  then show ?thesis
    using keep_alive_serves_five [of demo_env "demo_socket (map (\<lambda>hs. Data (hello_request hs)) [demo_headers, []])" "[demo_headers, []]" 3 True]
      demo_ordinary demo_length l by simp
qed

theorem pipelined_witness:
  "\<exists>s'. process_and_close_socket demo_env (hello_server 3 True)
        (demo_socket [Data (hello_request demo_headers @ hello_request demo_headers)]) = Some (False, s')
      \<and> sock_out s' = hello_response False"
  using pipelined_requests_lost [of demo_env "demo_socket [Data (hello_request demo_headers @ hello_request demo_headers)]"
      demo_headers "hello_request demo_headers" 3 True] demo_ordinary demo_length by simp

end
