(* ===== verification/Http_Body_Reads.thy ===== *)
theory Http_Body_Reads
  imports Http_Connection
begin

section \<open>What reading a body leaves alone\<close>

text \<open>
  However a body is delimited and whatever receives it, reading it does not touch the sending side
  of the connection; and the statuses that a failed reading sets are these three.
\<close>

lemma read_content_with_length_send_side:
  "read_content_with_length n out a st = (ok, a', st') \<Longrightarrow> send_side st' = send_side st"
proof (induction n out a st rule: read_content_with_length.induct)
  case (1 n out a st)
  obtain r st1 where rd: "ss_read (min n RECV_BUFSIZ) st = (r, st1)"
    by fastforce
  have s: "send_side st1 = send_side st"
    by (rule ss_read_send_side [OF rd])
  show ?case
  proof (cases "n \<noteq> 0 \<and> (\<exists>w a1. r = Some w \<and> w \<noteq> [] \<and> out w a = (True, a1))")
    case True
    then obtain w a1 where w: "n \<noteq> 0" "r = Some w" "w \<noteq> []" "out w a = (True, a1)"
      by blast
    have "read_content_with_length (n - length w) out a1 st1 = (ok, a', st')"
      using "1.prems" w rd by (subst (asm) read_content_with_length.simps) simp
    from "1.IH" [OF w(1) rd [symmetric] w(2,3) w(4) [symmetric] refl this] s show ?thesis
      by simp
  next
    case False
    then show ?thesis
      using "1.prems" rd s
      by (subst (asm) read_content_with_length.simps) (auto split: if_splits option.splits prod.splits bool.splits)
  qed
qed

lemma skip_content_send_side: "send_side (skip_content_with_length n st) = send_side st"
proof (induction n st rule: skip_content_with_length.induct)
  case (1 n st)
  obtain r st1 where rd: "ss_read (min n RECV_BUFSIZ) st = (r, st1)"
    by fastforce
  then show ?case
    using "1.IH" [OF _ rd [symmetric]] ss_read_send_side [OF rd]
    by (subst skip_content_with_length.simps) (auto split: option.splits)
qed

lemma read_content_without_length_send_side:
  "read_content_without_length out a st = (ok, a', st') \<Longrightarrow> send_side st' = send_side st"
proof (induction out a st rule: read_content_without_length.induct)
  case (1 out a st)
  obtain r st1 where rd: "ss_read RECV_BUFSIZ st = (r, st1)"
    by fastforce
  have s: "send_side st1 = send_side st"
    by (rule ss_read_send_side [OF rd])
  show ?case
  proof (cases "\<exists>w a1. r = Some w \<and> w \<noteq> [] \<and> out w a = (True, a1)")
    case True
    then obtain w a1 where w: "r = Some w" "w \<noteq> []" "out w a = (True, a1)"
      by blast
    have "read_content_without_length out a1 st1 = (ok, a', st')"
      using "1.prems" w rd by (subst (asm) read_content_without_length.simps) simp
    from "1.IH" [OF rd [symmetric] w(1,2) w(3) [symmetric] refl this] s show ?thesis
      by simp
  next
    case False
    then show ?thesis
      using "1.prems" rd s
      by (subst (asm) read_content_without_length.simps) (auto split: if_splits option.splits prod.splits bool.splits)
  qed
qed

lemma chunk_loop_send_side: "chunk_loop lr out a st = (ok, a', st') \<Longrightarrow> send_side st' = send_side st"
proof (induction lr out a st rule: chunk_loop.induct)
  case (1 lr out a st)
  show ?case
  proof (cases "strtoul16 (lr_ptr lr)")
    case None
    then show ?thesis
      using "1.prems" by (subst (asm) chunk_loop.simps) simp
  next
    case (Some n)
    consider "n = - 1" | "n = 0" | "n \<noteq> - 1" "n \<noteq> 0"
      by blast
    then show ?thesis
    proof cases
      case 1
      then show ?thesis
        using "1.prems" Some by (subst (asm) chunk_loop.simps) simp
    next
      case 2
      then show ?thesis
        using "1.prems" Some by (subst (asm) chunk_loop.simps) (auto split: prod.splits dest: getline_send_side)
    next
      case 3
      obtain ok1 a1 st1 where r: "read_content_with_length (unat n) out a st = (ok1, a1, st1)"
        by (metis prod_cases3)
      obtain ok2 lr2 st2 where g: "getline lr st1 = (ok2, lr2, st2)"
        by (metis prod_cases3)
      obtain ok3 lr3 st3 where g2: "getline lr2 st2 = (ok3, lr3, st3)"
        by (metis prod_cases3)
      have s: "send_side st1 = send_side st" "send_side st2 = send_side st" "send_side st3 = send_side st"
        using read_content_with_length_send_side [OF r] getline_send_side [OF g] getline_send_side [OF g2] by simp_all
      have unf: "chunk_loop lr out a st = (if \<not> ok1 then (False, a1, st1) else if \<not> ok2 then (False, a1, st2)
          else if lr_ptr lr2 \<noteq> crlf then (True, a1, st2) else if \<not> ok3 then (False, a1, st3) else chunk_loop lr3 out a1 st3)"
        using Some 3 r g g2 by (subst chunk_loop.simps) simp
      show ?thesis
      proof (cases "ok1 \<and> ok2 \<and> lr_ptr lr2 = crlf \<and> ok3")
        case True
        then have eqs: "read_content_with_length (unat n) out a st = (True, a1, st1)" "getline lr st1 = (True, lr2, st2)"
          "getline lr2 st2 = (True, lr3, st3)" "chunk_loop lr3 out a1 st3 = (ok, a', st')" "lr_ptr lr2 = crlf"
          using r g g2 unf "1.prems" by simp_all
        have "send_side st' = send_side st3"
          using "1.IH" [OF Some 3(1,2) eqs(1) [symmetric] refl refl eqs(2) [symmetric] refl refl _ eqs(3) [symmetric] refl refl eqs(4)] eqs(5)
          by simp
        then show ?thesis
          using s by simp
      next
        case False
        then show ?thesis
          using unf "1.prems" s by (auto split: if_splits)
      qed
    qed
  qed
qed

lemma read_content_chunked_send_side:
  assumes "read_content_chunked out a st = (ok, a', st')"
  shows "send_side st' = send_side st"
proof -
  obtain ok1 lr st1 where g: "getline (new_line_reader 16) st = (ok1, lr, st1)"
    by (metis prod_cases3)
  then show ?thesis
    using assms getline_send_side [OF g] chunk_loop_send_side [of lr out a st1 ok a' st']
    by (cases ok1) (auto simp: read_content_chunked_def)
qed

lemma detail_read_content_send_side:
  assumes "detail_read_content hs n out a st = (s, ok, a', st')"
  shows "send_side st' = send_side st"
  using assms
  by (auto simp: detail_read_content_def Let_def skip_content_send_side
      split: if_splits prod.splits bool.splits
      dest: read_content_without_length_send_side read_content_with_length_send_side read_content_chunked_send_side)

lemma read_content_core_send_side:
  assumes "read_content_core n req st = (s, ok, req', st')"
  shows "send_side st' = send_side st"
  using assms
  by (auto simp: read_content_core_def split: if_splits prod.splits bool.splits option.splits dest: detail_read_content_send_side)

lemma read_content_send_side:
  assumes "read_content n req st = (s, ok, req', st')"
  shows "send_side st' = send_side st"
  using assms
  by (auto simp: read_content_def split: if_splits prod.splits bool.splits dest: read_content_core_send_side)

text \<open>Which statuses a body that is not accepted gives.\<close>

lemma detail_read_content_status:
  "detail_read_content hs n out a st = (s, ok, a', st') \<Longrightarrow> s \<in> {None, Some 400, Some 413, Some 415} \<and> (ok \<longrightarrow> s = None)"
  by (auto simp: detail_read_content_def Let_def split: if_splits prod.splits)

lemma read_content_core_status:
  "read_content_core n req st = (s, ok, req', st') \<Longrightarrow> s \<in> {None, Some 400, Some 413, Some 415} \<and> (ok \<longrightarrow> s = None)"
  by (auto simp: read_content_core_def split: if_splits prod.splits bool.splits option.splits dest: detail_read_content_status)

lemma read_content_status:
  "read_content n req st = (s, ok, req', st') \<Longrightarrow> s \<in> {None, Some 400, Some 413, Some 415} \<and> (ok \<longrightarrow> s = None)"
  by (auto simp: read_content_def split: if_splits prod.splits bool.splits dest: read_content_core_status)

end
