(* ===== verification/Http_Replies.thy ===== *)
theory Http_Replies
  imports Http_Body_Reads
begin

section \<open>Whatever a client sends\<close>

text \<open>
  The answers of the program's server to arbitrary input: any bytes in any segments, with resets
  and pauses. The server never fails an assertion, and what it sends is a sequence of
  responses that a client can take apart.
\<close>

subsection \<open>Replies\<close>

text \<open>
  A reply is an interim response or a final one, with the flag that its body is not sent because
  the request's method was \<open>HEAD\<close>.
\<close>

datatype reply = Interim | Final bool Response

fun reply_head :: "reply \<Rightarrow> string" where
  "reply_head Interim = ''HTTP/1.1 100 Continue'' @ crlf @ crlf"
| "reply_head (Final head res) =
     ''HTTP/1.1 '' @ to_string_int (res_status res) @ '' '' @ status_message (res_status res) @ crlf
     @ concat (map header_text (res_headers res)) @ crlf"

fun reply_tail :: "reply \<Rightarrow> string" where
  "reply_tail Interim = []"
| "reply_tail (Final head res) = (if head then [] else res_body res)"

definition reply_text :: "reply \<Rightarrow> string" where
  "reply_text r = reply_head r @ reply_tail r"

definition clean :: "string \<Rightarrow> bool" where
  "clean s \<longleftrightarrow> CR \<notin> set s \<and> LF \<notin> set s \<and> NUL \<notin> set s"

text \<open>
  A final reply is good when no header can be mistaken for two or for the end of the headers, the
  only length it announces is that of its body, and status and body agree.
\<close>

definition good_response :: "Response \<Rightarrow> bool" where
  "good_response res \<longleftrightarrow>
     (\<forall>h \<in> set (res_headers res). clean (fst h) \<and> CHR '':'' \<notin> set (fst h) \<and> clean (snd h))
     \<and> mm_equal_range ci ''Content-Length'' (res_headers res) = [to_string (length (res_body res))]
     \<and> res_status res \<in> {200, 206, 400, 404, 413, 414, 415, 416, 500}
     \<and> (res_status res = 200 \<longrightarrow> res_body res = ''Hello, World!'')
     \<and> (res_status res \<ge> 400 \<longrightarrow> res_body res = [])"

fun good_reply :: "reply \<Rightarrow> bool" where
  "good_reply Interim = True"
| "good_reply (Final head res) = good_response res"

fun is_final :: "reply \<Rightarrow> bool" where
  "is_final Interim = False"
| "is_final (Final head res) = True"

text \<open>
  \<open>wire es r w\<close>: with \<open>es\<close> the outcomes of \<open>send\<close> to come, \<open>w\<close> is what leaves the server of the reply \<open>r\<close>.
  Head and body go out by calls of their own and the verdict of the first is discarded, so that
  each of the two may be cut. A final response is complete when no \<open>send\<close> fails; an interim one goes
  out in a single call of \<open>send\<close>, which must also take all of it.
\<close>

definition wire :: "send_event list \<Rightarrow> reply \<Rightarrow> string \<Rightarrow> bool" where
  "wire es r w \<longleftrightarrow> (\<exists>i j. w = take i (reply_head r) @ take j (reply_tail r))
     \<and> (es = [] \<or> is_final r \<and> list_all takes es \<longrightarrow> w = reply_text r)"

lemma wire_mono: "wire es' r w \<Longrightarrow> set es' \<subseteq> set es \<Longrightarrow> wire es r w"
  by (auto simp: wire_def list_all_iff)

lemma wire_all: "list_all2 (wire []) rs ws \<Longrightarrow> ws = map reply_text rs"
  by (induction rule: list_all2_induct) (simp_all add: wire_def)

lemma write_reply:
  assumes "res_status res \<noteq> - 1"
    and res4: "res4 = additional_headers (hello_server fd r) cc req (if ranged then apply_ranges rnd req res else res)"
    and "\<forall>h \<in> set (res_headers res4). clean (fst h) \<and> clean (snd h)"
  shows "\<exists>ok st' w. write_response_core rnd (hello_server fd r) cc req res ranged st = Some (ok, res4, st')
    \<and> set (sock_sends (ss_sock st')) \<subseteq> set (sock_sends (ss_sock st))
    \<and> sock_out (ss_sock st') = sock_out (ss_sock st) @ w
    \<and> wire (sock_sends (ss_sock st)) (Final (req_method req = ''HEAD'') res4) w"
proof -
  let ?r = "Final (req_method req = ''HEAD'') res4"
  have srv: "error_handler (hello_server fd r) = None" "post_routing_handler (hello_server fd r) = None"
    by (simp_all add: hello_server_def new_Server_def)
  have "header_line h = header_text h" if "h \<in> set (res_headers res4)" for h
  proof -
    have "c_str (fst h) = fst h" "c_str (snd h) = snd h"
      using that assms(3) by (auto simp: clean_def c_str_def takeWhile_eq_all_conv)
    then show ?thesis
      by (simp add: header_line_def header_text_def format_text_exact)
  qed
  then have "map header_line (res_headers res4) = map header_text (res_headers res4)"
    by simp
  then have wh: "write_headers (res_headers res4) = concat (map header_text (res_headers res4)) @ crlf"
    by (simp only: write_headers_def)
  have h: "status_line (res_status res4) @ write_headers (res_headers res4) = reply_head ?r"
    by (simp add: wh status_line_def format_text_exact)
  obtain ok1 st1 where w1: "write_data (reply_head ?r) st = (ok1, st1)"
    by fastforce
  obtain i where i: "sock_out (ss_sock st1) = sock_out (ss_sock st) @ take i (reply_head ?r)" "ok1 \<longleftrightarrow> i = length (reply_head ?r)"
    using write_data_prefix [OF w1] by metis
  note s1 = write_data_sends [OF w1]
  obtain ok2 st2 where w2: "write_data (reply_tail ?r) st1 = (ok2, st2)"
    by fastforce
  obtain j where j: "sock_out (ss_sock st2) = sock_out (ss_sock st1) @ take j (reply_tail ?r)" "ok2 \<longleftrightarrow> j = length (reply_tail ?r)"
    using write_data_prefix [OF w2] by metis
  note s2 = write_data_sends [OF w2]
  have "write_response_core rnd (hello_server fd r) cc req res ranged st = Some (ok2, res4, st2)"
  proof (cases "req_method req = ''HEAD'' \<or> res_body res4 = []")
    case True
    then have "reply_tail ?r = []"
      by auto
    then have "ok2" "st2 = st1"
      using w2 by (simp_all add: write_data.simps)
    then show ?thesis
      using assms(1) True w1 by (auto simp: write_response_core_def srv h simp del: reply_head.simps simp flip: res4)
  next
    case False
    then show ?thesis
      using assms(1) w1 w2 by (simp add: write_response_core_def srv h del: reply_head.simps flip: res4)
  qed
  moreover have "wire (sock_sends (ss_sock st)) ?r (take i (reply_head ?r) @ take j (reply_tail ?r))"
    unfolding wire_def reply_text_def
  proof (intro conjI impI)
    show "\<exists>i' j'. take i (reply_head ?r) @ take j (reply_tail ?r) = take i' (reply_head ?r) @ take j' (reply_tail ?r)"
      by blast
  next
    assume "sock_sends (ss_sock st) = [] \<or> is_final ?r \<and> list_all takes (sock_sends (ss_sock st))"
    then have "ok1" "ok2"
      using s1 s2 by (auto simp: list_all_iff)
    then show "take i (reply_head ?r) @ take j (reply_tail ?r) = reply_head ?r @ reply_tail ?r"
      using i j by (simp del: reply_head.simps reply_tail.simps)
  qed
  ultimately show ?thesis
    using s1 s2 i(1) j(1) by (intro exI conjI) (assumption | auto simp del: reply_head.simps reply_tail.simps)+
qed

subsection \<open>Headers of the responses\<close>

text \<open>\<open>fit hs ls\<close>: no header can be misread, and \<open>ls\<close> are the lengths that are announced.\<close>

definition fit :: "Headers \<Rightarrow> string list \<Rightarrow> bool" where
  "fit hs ls \<longleftrightarrow> (\<forall>h \<in> set hs. clean (fst h) \<and> CHR '':'' \<notin> set (fst h) \<and> clean (snd h))
     \<and> mm_sorted ci hs \<and> mm_equal_range ci ''Content-Length'' hs = ls"

lemma set_emplace: "set (mm_emplace lt k v es) = insert (k, v) (set es)"
  by (induction es) auto

lemma fit_Nil [simp]: "fit [] []"
  by (simp add: fit_def mm_sorted_def mm_equal_range_def)

lemma clean_Nil [simp]: "clean []"
  by (simp add: clean_def)

lemma clean_Cons [simp]: "clean (c # s) \<longleftrightarrow> c \<noteq> CR \<and> c \<noteq> LF \<and> c \<noteq> NUL \<and> clean s"
  by (auto simp: clean_def)

lemma clean_append [simp]: "clean (s @ t) \<longleftrightarrow> clean s \<and> clean t"
  by (auto simp: clean_def)

lemma clean_to_string [simp]: "clean (to_string n)"
proof -
  have "c \<noteq> CR \<and> c \<noteq> LF \<and> c \<noteq> NUL" if "is_decimal c" for c
    using that by (auto simp: is_decimal_def code_of_nat)
  then show ?thesis
    using to_string_digits [of n] by (auto simp: clean_def list_all_iff)
qed

lemma set_header_clean: "clean k \<Longrightarrow> clean v \<Longrightarrow> set_header k v hs = mm_emplace ci k v hs"
proof -
  have "\<not> has_crlf s" if "clean s" for s
    using that by (induction s) (auto simp: has_crlf_def c_str_def)
  then show "clean k \<Longrightarrow> clean v \<Longrightarrow> set_header k v hs = mm_emplace ci k v hs"
    by (simp add: set_header_def)
qed

lemma fit_other:
  assumes "fit hs ls" and "clean k" and "CHR '':'' \<notin> set k" and "clean v" and "\<not> same_name ''Content-Length'' k"
  shows "fit (set_header k v hs) ls"
  using assms by (simp add: fit_def set_header_clean set_emplace headers.emplace_sorted headers.equal_range_emplace_other ci_other)

lemma fit_length:
  assumes "fit hs ls" and "clean v"
  shows "fit (set_header ''Content-Length'' v hs) (ls @ [v])"
proof -
  have "\<not> ci ''Content-Length'' ''Content-Length''"
    by (rule headers.irrefl)
  then show ?thesis
    using assms by (simp add: fit_def set_header_clean set_emplace headers.emplace_sorted headers.equal_range_emplace)
qed

lemma reply_names:
  "\<not> same_name ''Content-Length'' ''Connection''" "\<not> same_name ''Content-Length'' ''Keep-Alive''"
  "\<not> same_name ''Content-Length'' ''Content-Type''" "\<not> same_name ''Content-Length'' ''Accept-Ranges''"
  "\<not> same_name ''Content-Length'' ''Content-Range''"
  by code_simp+

text \<open>The headers that are added at the end.\<close>

lemma additional_good:
  assumes "fit (res_headers res) ls" and "ls = [to_string (length (res_body res))] \<or> ls = [] \<and> res_body res = []"
  shows "fit (res_headers (additional_headers (hello_server fd r) cc req res)) [to_string (length (res_body res))]"
    and "res_body (additional_headers (hello_server fd r) cc req res) = res_body res"
    and "res_status (additional_headers (hello_server fd r) cc req res) = res_status res"
proof -
  let ?S = "hello_server fd r"
  let ?n = "to_string (length (res_body res))"
  define r1 where "r1 = connection_headers ?S cc req res"
  define r2 where "r2 = (if \<not> has_header (res_headers r1) ''Content-Type'' \<and> res_body r1 \<noteq> []
    then res_set_header ''Content-Type'' ''text/plain'' r1 else r1)"
  define r3 where "r3 = (if \<not> has_header (res_headers r2) ''Content-Length'' \<and> res_body r2 = []
    then res_set_header ''Content-Length'' ''0'' r2 else r2)"
  define r4 where "r4 = (if \<not> has_header (res_headers r3) ''Accept-Ranges'' \<and> req_method req = ''HEAD''
    then res_set_header ''Accept-Ranges'' ''bytes'' r3 else r3)"
  have r4: "additional_headers ?S cc req res = r4"
    by (simp only: additional_headers_def Let_def r4_def r3_def r2_def r1_def)
  have k1: "fit (res_headers r1) ls" "res_body r1 = res_body res" "res_status r1 = res_status res"
    using assms(1) unfolding r1_def connection_headers_def by (simp_all add: fit_other reply_names)
  have k2: "fit (res_headers r2) ls" "res_body r2 = res_body res" "res_status r2 = res_status res"
    using k1 by (simp_all add: r2_def fit_other reply_names)
  have k3: "fit (res_headers r3) [?n]"
    using assms(2)
  proof
    assume "ls = [?n]"
    then show ?thesis
      using k2 by (simp add: r3_def has_header_def fit_def)
  next
    assume l: "ls = [] \<and> res_body res = []"
    then have "fit (set_header ''Content-Length'' ''0'' (res_headers r2)) ([] @ [''0''])"
      using k2 by (intro fit_length) simp_all
    moreover have "\<not> has_header (res_headers r2) ''Content-Length''"
      using k2 l by (simp add: has_header_def fit_def)
    ultimately show ?thesis
      using l k2 by (simp add: r3_def small_numbers)
  qed
  have b3: "res_body r3 = res_body res" "res_status r3 = res_status res"
    using k2 by (simp_all add: r3_def)
  show "fit (res_headers (additional_headers ?S cc req res)) [?n]"
    unfolding r4 using k3 by (simp add: r4_def fit_other reply_names)
  show "res_body (additional_headers ?S cc req res) = res_body res"
    and "res_status (additional_headers ?S cc req res) = res_status res"
    unfolding r4 using b3 by (simp_all add: r4_def)
qed

text \<open>The greeting with ranges applied.\<close>

lemma clean_boundary: "clean (make_multipart_data_boundary rnd)"
proof -
  have "clean boundary_chars" "length boundary_chars = 62"
    by (simp_all add: boundary_chars_def)
  then have "boundary_chars ! (n mod 62) \<in> set boundary_chars" for n
    by (intro nth_mem) simp
  then have "boundary_chars ! (n mod 62) \<notin> {CR, LF, NUL}" for n
    using \<open>clean boundary_chars\<close> by (metis clean_def empty_iff insertE)
  then have "clean (map (\<lambda>i. boundary_chars ! (rnd i mod 62)) is)" for "is"
    by (induction "is") auto
  then show ?thesis
    by (simp add: make_multipart_data_boundary_def)
qed

lemma clean_content_range: "clean (make_content_range_header_field offset len n)"
  by (simp add: make_content_range_header_field_def)

lemma fit_content_type: "clean v \<Longrightarrow> fit [(''Content-Type'', v)] []"
  using fit_other [of "[]" "[]" "''Content-Type''" v] by (simp add: set_header_clean reply_names)

lemma multipart_type_headers:
  assumes "res_headers res = [(''Content-Type'', ''text/plain'')]"
  shows "\<exists>v. clean v \<and> multipart_type rnd req res = res\<lparr>res_headers := [(''Content-Type'', v)]\<rparr>"
proof (cases "length (req_ranges req) > 1")
  case True
  let ?v = "''multipart/byteranges; boundary='' @ make_multipart_data_boundary rnd"
  have "erase_first ''Content-Type'' [(''Content-Type'', ''text/plain'')] = []"
    by (simp add: headers.irrefl)
  then have "multipart_type rnd req res = res\<lparr>res_headers := [(''Content-Type'', ?v)]\<rparr>"
    using True by (simp add: multipart_type_def assms del: erase_first.simps append.simps append_Cons)
  then show ?thesis
    using clean_boundary [of rnd] by (intro exI [of _ ?v]) simp
next
  case False
  then have "multipart_type rnd req res = res\<lparr>res_headers := [(''Content-Type'', ''text/plain'')]\<rparr>"
    by (simp add: multipart_type_def flip: assms)
  then show ?thesis
    by (intro exI [of _ "''text/plain''"]) simp
qed

text \<open>Cutting a body to ranges leaves the status as it was, or refuses the ranges.\<close>

lemma range_body_outcome:
  assumes "res_headers res = [(''Content-Type'', v)]" and "clean v"
  shows "\<exists>hs body status. range_body rnd req t res = res\<lparr>res_headers := hs, res_body := body, res_status := status\<rparr>
      \<and> fit hs [] \<and> (status = res_status res \<or> status = 416 \<and> body = []) \<and> (req_ranges req = [] \<longrightarrow> body = res_body res \<and> status = res_status res)"
proof -
  have pack: ?thesis if "range_body rnd req t res = res\<lparr>res_headers := hs, res_body := body, res_status := status\<rparr>" "fit hs []"
    "status = res_status res \<or> status = 416 \<and> body = []" "req_ranges req = [] \<longrightarrow> body = res_body res \<and> status = res_status res" for hs body status
    using that by blast
  have f: "fit (res_headers res) []"
    using fit_content_type [OF assms(2)] by (simp add: assms(1))
  consider "req_ranges req = []" | rg where "req_ranges req = [rg]" | r1 r2 rs where "req_ranges req = r1 # r2 # rs"
    by (metis neq_Nil_conv)
  then show ?thesis
  proof cases
    case 1
    then show ?thesis
      using f by (intro pack [where hs = "res_headers res" and body = "res_body res" and status = "res_status res"]) (simp_all add: range_body_def)
  next
    case 2
    obtain offset len where ol: "get_range_offset_and_length rg (length (res_body res)) = (offset, len)"
      by fastforce
    let ?hs = "set_header ''Content-Range'' (make_content_range_header_field offset len (length (res_body res))) (res_headers res)"
    have fr: "fit ?hs []"
      using f by (rule fit_other) (simp_all add: clean_content_range reply_names)
    show ?thesis
    proof (cases "unat offset < length (res_body res)")
      case True
      then show ?thesis
        using 2 ol fr
        by (intro pack [where hs = ?hs and body = "take (unat len) (drop (unat offset) (res_body res))" and status = "res_status res"])
          (simp_all add: range_body_def Let_def)
    next
      case False
      then show ?thesis
        using 2 ol fr by (intro pack [where hs = ?hs and body = "[]" and status = 416]) (simp_all add: range_body_def Let_def)
    qed
  next
    case 3
    show ?thesis
    proof (cases "make_multipart_ranges_data (req_ranges req) (res_body res) (make_multipart_data_boundary rnd) t")
      case None
      then show ?thesis
        using 3 f by (intro pack [where hs = "res_headers res" and body = "[]" and status = 416]) (simp_all add: range_body_def)
    next
      case (Some data)
      then show ?thesis
        using 3 f by (intro pack [where hs = "res_headers res" and body = data and status = "res_status res"]) (simp_all add: range_body_def)
    qed
  qed
qed

lemma hello_ranged:
  fixes req fd r
  defines "res \<equiv> (set_content ''Hello, World!'' ''text/plain'' (first_response (hello_server fd r)))
      \<lparr>res_status := (if req_ranges req = [] then 200 else 206)\<rparr>"
  shows "\<exists>hs body status. apply_ranges rnd req res = res\<lparr>res_headers := hs, res_body := body, res_status := status\<rparr>
    \<and> fit hs [to_string (length body)] \<and> status \<in> {200, 206, 416}
    \<and> (status = 200 \<longrightarrow> body = ''Hello, World!'') \<and> (status = 416 \<longrightarrow> body = [])"
proof -
  have h: "res_headers res = [(''Content-Type'', ''text/plain'')]" "res_body res = ''Hello, World!''"
    "res_status res = (if req_ranges req = [] then 200 else 206)"
    by (simp_all add: res_def set_content_def first_response_def hello_server_def new_Server_def new_Response_def mm_erase_def
        set_header_clean)
  define res1 where "res1 = multipart_type rnd req res"
  obtain v where v: "clean v" "res1 = res\<lparr>res_headers := [(''Content-Type'', v)]\<rparr>"
    using multipart_type_headers [OF h(1)] unfolding res1_def by blast
  define res2 where "res2 = range_body rnd req (old_type req res) res1"
  have "res_headers res1 = [(''Content-Type'', v)]"
    by (simp add: v(2))
  then obtain hs body status where r: "res2 = res1\<lparr>res_headers := hs, res_body := body, res_status := status\<rparr>" "fit hs []"
    "status = res_status res1 \<or> status = 416 \<and> body = []" "req_ranges req = [] \<longrightarrow> body = res_body res1 \<and> status = res_status res1"
    unfolding res2_def using range_body_outcome [OF _ v(1)] by metis
  have r2: "res2 = res\<lparr>res_headers := hs, res_body := body, res_status := status\<rparr>"
    using r(1) by (simp add: v(2))
  have s: "status \<in> {200, 206, 416}" "status = 200 \<longrightarrow> body = ''Hello, World!''" "status = 416 \<longrightarrow> body = []"
    using r(3,4) h v(2) by (auto split: if_splits)
  have "apply_ranges rnd req res = res2\<lparr>res_headers := set_header ''Content-Length'' (to_string (length body)) hs\<rparr>"
    unfolding apply_ranges_def Let_def res1_def [symmetric] res2_def [symmetric] using h v(2) r2 by simp
  then have "apply_ranges rnd req res
      = res\<lparr>res_headers := set_header ''Content-Length'' (to_string (length body)) hs, res_body := body, res_status := status\<rparr>"
    using r2 by simp
  moreover have "fit (set_header ''Content-Length'' (to_string (length body)) hs) ([] @ [to_string (length body)])"
    using r(2) by (rule fit_length) simp
  ultimately show ?thesis
    using s by auto
qed

end
