(* ===== verification/Http_Any_Client.thy ===== *)
theory Http_Any_Client
  imports Http_Replies
begin

section \<open>Requests and connections with arbitrary input\<close>

subsection \<open>Answers\<close>

text \<open>An answer without content, for a request that was not routed or not even understood.\<close>

definition empty_response :: "int \<Rightarrow> Server \<Rightarrow> Response" where
  "empty_response status svr = (first_response svr)\<lparr>res_status := status\<rparr>"

text \<open>
  \<open>replies n st result\<close>: a result without a failed assertion, and at most \<open>n\<close> final replies went out,
  as far as the outcomes of \<open>send\<close> let them.
\<close>

definition replies :: "nat \<Rightarrow> SocketStream \<Rightarrow> request_result \<Rightarrow> bool" where
  "replies n st result \<longleftrightarrow>
     (\<exists>ok ended st' rs ws. result = Some (ok, ended, st')
        \<and> set (sock_sends (ss_sock st')) \<subseteq> set (sock_sends (ss_sock st))
        \<and> sock_out (ss_sock st') = sock_out (ss_sock st) @ concat ws
        \<and> list_all2 (wire (sock_sends (ss_sock st))) rs ws
        \<and> list_all good_reply rs \<and> length (filter is_final rs) \<le> n)"

lemma replies_written:
  assumes "set (sock_sends (ss_sock st')) \<subseteq> set (sock_sends (ss_sock st))"
    and "sock_out (ss_sock st') = sock_out (ss_sock st) @ w"
    and "wire (sock_sends (ss_sock st)) (Final head res) w" and "good_response res"
  shows "replies 1 st (Some (ok, ended, st'))"
  using assms unfolding replies_def
  by (intro exI [of _ ok] exI [of _ ended] exI [of _ st'] exI [of _ "[Final head res]"] exI [of _ "[w]"]) simp

lemma answer_empty:
  assumes "status \<in> {400, 404, 413, 414, 415, 416, 500}"
  shows "replies 1 st (answer env (hello_server fd r) False cc ended req (empty_response status (hello_server fd r)) st)"
proof -
  let ?res = "empty_response status (hello_server fd r)"
  let ?res4 = "additional_headers (hello_server fd r) cc req ?res"
  have e: "res_headers ?res = []" "res_body ?res = []" "res_status ?res = status"
    by (simp_all add: empty_response_def first_response_def hello_server_def new_Server_def new_Response_def)
  have g: "fit (res_headers ?res4) [to_string 0]" "res_body ?res4 = []" "res_status ?res4 = status"
    using additional_good [of ?res "[]" fd r cc req] by (simp_all add: e)
  then have good: "good_response ?res4"
    using assms by (auto simp: good_response_def fit_def)
  have "res_status ?res \<noteq> - 1" "\<forall>h \<in> set (res_headers ?res4). clean (fst h) \<and> clean (snd h)"
    using assms g(1) by (auto simp: e fit_def)
  then obtain ok st' w where
    "write_response_core (env_random env) (hello_server fd r) cc req ?res False st = Some (ok, ?res4, st')"
    and "set (sock_sends (ss_sock st')) \<subseteq> set (sock_sends (ss_sock st))"
    "sock_out (ss_sock st') = sock_out (ss_sock st) @ w"
    "wire (sock_sends (ss_sock st)) (Final (req_method req = ''HEAD'') ?res4) w"
    using write_reply [of ?res ?res4 fd r cc req False "env_random env" st] by auto
  then show ?thesis
    using replies_written good by (simp add: answer_def write_response_def)
qed

lemma answer_hello:
  "replies 1 st (answer env (hello_server fd r) True cc ended req
      ((set_content ''Hello, World!'' ''text/plain'' (first_response (hello_server fd r)))
        \<lparr>res_status := (if req_ranges req = [] then 200 else 206)\<rparr>) st)"
proof -
  let ?res = "(set_content ''Hello, World!'' ''text/plain'' (first_response (hello_server fd r)))
        \<lparr>res_status := (if req_ranges req = [] then 200 else 206)\<rparr>"
  obtain hs body status where a: "apply_ranges (env_random env) req ?res
      = ?res\<lparr>res_headers := hs, res_body := body, res_status := status\<rparr>"
    and h: "fit hs [to_string (length body)]" "status \<in> {200, 206, 416}"
      "status = 200 \<longrightarrow> body = ''Hello, World!''" "status = 416 \<longrightarrow> body = []"
    using hello_ranged [of "env_random env" req fd r] by blast
  let ?res2 = "?res\<lparr>res_headers := hs, res_body := body, res_status := status\<rparr>"
  let ?res4 = "additional_headers (hello_server fd r) cc req ?res2"
  have g: "fit (res_headers ?res4) [to_string (length body)]" "res_body ?res4 = body" "res_status ?res4 = status"
    using additional_good [of ?res2 "[to_string (length body)]" fd r cc req] h(1) by simp_all
  then have good: "good_response ?res4"
    using h by (auto simp: good_response_def fit_def)
  have "res_status ?res \<noteq> - 1" "\<forall>h \<in> set (res_headers ?res4). clean (fst h) \<and> clean (snd h)"
    using g(1) by (auto simp: fit_def)
  then obtain ok st' w where
    "write_response_core (env_random env) (hello_server fd r) cc req ?res True st = Some (ok, ?res4, st')"
    and "set (sock_sends (ss_sock st')) \<subseteq> set (sock_sends (ss_sock st))"
    "sock_out (ss_sock st') = sock_out (ss_sock st) @ w"
    "wire (sock_sends (ss_sock st)) (Final (req_method req = ''HEAD'') ?res4) w"
    using write_reply [of ?res ?res4 fd r cc req True "env_random env" st] by (auto simp: a)
  then show ?thesis
    using replies_written good by (simp add: answer_def write_response_with_content_def)
qed

subsection \<open>Routing\<close>

lemma hello_server_empty [simp]:
  "pre_routing_handler (hello_server fd r) = None" "base_dirs (hello_server fd r) = []"
  "post_handlers (hello_server fd r) = []" "put_handlers (hello_server fd r) = []" "delete_handlers (hello_server fd r) = []"
  "options_handlers (hello_server fd r) = []" "patch_handlers (hello_server fd r) = []"
  "expect_100_continue_handler (hello_server fd r) = None" "exception_handler (hello_server fd r) = None"
  "get_handlers (hello_server fd r) = [(letters ''/hello'', hello_handler)]"
  by (simp_all add: hello_server_def new_Server_def)

lemma hello_dispatch:
  "\<exists>b req'. dispatch_request (get_handlers (hello_server fd r)) req res st
    = Routed b req' (if b then set_content ''Hello, World!'' ''text/plain'' res else res) st"
proof (cases "regex_match False (letters ''/hello'') (req_path req)")
  case None
  then show ?thesis
    by (intro exI [of _ False] exI [of _ "req\<lparr>req_matches := []\<rparr>"]) simp
next
  case (Some m)
  then show ?thesis
    by (intro exI [of _ True] exI [of _ "req\<lparr>req_matches := m\<rparr>"]) (simp add: hello_handler_def Let_def)
qed

lemma hello_regular:
  "\<exists>b req' res'. regular_handler (hello_server fd r) req res st = Routed b req' res' st
    \<and> (if b then res' = set_content ''Hello, World!'' ''text/plain'' res else res' = res \<or> res' = res\<lparr>res_status := 400\<rparr>)"
proof (cases "req_method req = ''GET'' \<or> req_method req = ''HEAD''")
  case True
  obtain b req' where "dispatch_request (get_handlers (hello_server fd r)) req res st
      = Routed b req' (if b then set_content ''Hello, World!'' ''text/plain'' res else res) st"
    using hello_dispatch by blast
  moreover have "regular_handler (hello_server fd r) req res st = dispatch_request (get_handlers (hello_server fd r)) req res st"
    unfolding regular_handler_def Let_def using True by (simp only: if_True)
  ultimately have "regular_handler (hello_server fd r) req res st
      = Routed b req' (if b then set_content ''Hello, World!'' ''text/plain'' res else res) st"
    by (simp only:)
  then show ?thesis
    by (intro exI [of _ b] exI [of _ req'] exI [of _ "if b then set_content ''Hello, World!'' ''text/plain'' res else res"]) simp
next
  case False
  then have "\<exists>res' \<in> {res, res\<lparr>res_status := 400\<rparr>}. regular_handler (hello_server fd r) req res st = Routed False req res' st"
    unfolding regular_handler_def Let_def by simp
  then show ?thesis
    by auto
qed

text \<open>Routing ends with the greeting or with an empty response, and has sent nothing.\<close>

lemma hello_routing:
  "\<exists>b req' res' st'. routing env (hello_server fd r) req (first_response (hello_server fd r)) st = Routed b req' res' st'
    \<and> send_side st' = send_side st
    \<and> (if b then res' = set_content ''Hello, World!'' ''text/plain'' (first_response (hello_server fd r))
       else \<exists>status \<in> {- 1, 400, 413, 415}. res' = empty_response status (hello_server fd r))"
proof -
  let ?svr = "hello_server fd r" and ?res = "first_response (hello_server fd r)"
  let ?good = "\<lambda>b res'. if b then res' = set_content ''Hello, World!'' ''text/plain'' ?res
       else \<exists>status \<in> {- 1, 400, 413, 415}. res' = empty_response status ?svr"
  have res: "empty_response (- 1) ?svr = ?res"
    by (simp add: empty_response_def first_response_def new_Response_def)
  have pack: ?thesis if "routing env ?svr req ?res st = Routed b req' res' st'" "send_side st' = send_side st" "?good b res'"
    for b req' res' st'
    using that by blast
  have "(if b then handle_file_request f ?svr req ?res h else None) = None" for b f h
    by (simp add: handle_file_request_def)
  then have result: "routing env ?svr req ?res st = route_content ?svr req ?res st"
    by (simp add: routing_def Let_def)
  have regular: "\<exists>b req' res'. regular_handler ?svr req1 ?res st1 = Routed b req' res' st1 \<and> ?good b res'" for req1 st1
    using hello_regular [of fd r req1 ?res st1] res by (metis empty_response_def insertCI)
  show ?thesis
  proof (cases "expect_content req")
    case False
    moreover obtain b req' res' where "regular_handler ?svr req ?res st = Routed b req' res' st" and "?good b res'"
      using regular [of req st] by blast
    ultimately show ?thesis
      by (intro pack [of b req' res' st]) (simp_all add: result route_content_def)
  next
    case True
    obtain s ok req1 st1 where rc: "read_content (payload_max_length ?svr) req st = (s, ok, req1, st1)"
      by (metis prod_cases4)
    note side = read_content_send_side [OF rc] and status = read_content_status [OF rc]
    show ?thesis
    proof (cases ok)
      case ok: True
      obtain b req' res' where "regular_handler ?svr req1 ?res st1 = Routed b req' res' st1" and "?good b res'"
        using regular [of req1 st1] by blast
      then show ?thesis
        using True ok rc side status by (intro pack [of b req' res' st1]) (simp_all add: result route_content_def)
    next
      case False
      have "\<exists>c \<in> {- 1, 400, 413, 415}. (case s of Some c \<Rightarrow> ?res\<lparr>res_status := c\<rparr> | None \<Rightarrow> ?res) = empty_response c ?svr"
        using status res by (cases s) (auto simp: empty_response_def)
      then show ?thesis
        using True False rc side by (intro pack [of False req1 _ st1]) (auto simp: result route_content_def)
    qed
  qed
qed

subsection \<open>One request\<close>

lemma replies_before:
  assumes "replies n st' result" and "sock_out (ss_sock st') = sock_out (ss_sock st) @ concat ws"
    and "set (sock_sends (ss_sock st')) \<subseteq> set (sock_sends (ss_sock st))"
    and "list_all2 (wire (sock_sends (ss_sock st))) rs ws"
    and "list_all good_reply rs" and "length (filter is_final rs) = 0"
  shows "replies n st result"
proof -
  obtain ok ended st2 rs2 ws2 where r: "result = Some (ok, ended, st2)"
    "set (sock_sends (ss_sock st2)) \<subseteq> set (sock_sends (ss_sock st'))"
    "sock_out (ss_sock st2) = sock_out (ss_sock st') @ concat ws2" "list_all2 (wire (sock_sends (ss_sock st'))) rs2 ws2"
    "list_all good_reply rs2" "length (filter is_final rs2) \<le> n"
    using assms(1) unfolding replies_def by blast
  have "list_all2 (wire (sock_sends (ss_sock st))) rs2 ws2"
    using r(4) by (rule list_all2_mono) (rule wire_mono [OF _ assms(3)])
  then show ?thesis
    using assms(2-6) r unfolding replies_def
    by (intro exI [of _ ok] exI [of _ ended] exI [of _ st2] exI [of _ "rs @ rs2"] exI [of _ "ws @ ws2"])
      (auto intro: list_all2_appendI)
qed

lemma replies_same_side: "replies n st' result \<Longrightarrow> send_side st' = send_side st \<Longrightarrow> replies n st result"
  using replies_before [of n st' result st "[]" "[]"] by (simp add: send_side_def)

lemma conclude_replies:
  "replies 1 st (conclude env (hello_server fd r) cc ended
      (routing env (hello_server fd r) req (first_response (hello_server fd r)) st))"
proof -
  let ?svr = "hello_server fd r"
  obtain b req' res' st' where rt: "routing env ?svr req (first_response ?svr) st = Routed b req' res' st'"
    and side: "send_side st' = send_side st"
    and b: "if b then res' = set_content ''Hello, World!'' ''text/plain'' (first_response ?svr)
       else \<exists>status \<in> {- 1, 400, 413, 415}. res' = empty_response status ?svr"
    using hello_routing by blast
  have "replies 1 st' (conclude env ?svr cc ended (Routed b req' res' st'))"
  proof (cases b)
    case True
    then have "res_status res' = - 1"
      using b by (simp add: set_content_def first_response_def new_Response_def)
    then show ?thesis
      using True b answer_hello [of st' env fd r cc ended req'] by (simp add: conclude_def)
  next
    case False
    then obtain c where c: "c \<in> {- 1, 400, 413, 415}" "res' = empty_response c ?svr"
      using b by auto
    then have "(if res_status res' = - 1 then res'\<lparr>res_status := 404\<rparr> else res') = empty_response (if c = - 1 then 404 else c) ?svr"
      by (simp add: empty_response_def)
    then show ?thesis
      using False c answer_empty [of "if c = - 1 then 404 else c" st' env fd r cc ended req'] by (auto simp: conclude_def)
  qed
  then show ?thesis
    using replies_same_side [OF _ side] by (simp only: rt)
qed

lemma interim_wire:
  assumes "ss_write (reply_text Interim) st = (v, st')"
  shows "\<exists>w. set (sock_sends (ss_sock st')) \<subseteq> set (sock_sends (ss_sock st))
    \<and> sock_out (ss_sock st') = sock_out (ss_sock st) @ w \<and> wire (sock_sends (ss_sock st)) Interim w"
proof -
  have r: "reply_text Interim = reply_head Interim"
    by (simp add: reply_text_def del: reply_head.simps)
  have whole: "wire es Interim (reply_head Interim)" for es
    unfolding wire_def r by (intro conjI exI [of _ "length (reply_head Interim)"] exI [of _ 0]) (simp_all del: reply_head.simps)
  have part: "wire (e # es) Interim (take i (reply_head Interim))" for e es i
    unfolding wire_def by (intro conjI exI [of _ i] exI [of _ 0]) (simp_all del: reply_head.simps)
  have none: "wire (e # es) Interim []" for e es
    using part [of e es 0] by (simp del: reply_head.simps)
  show ?thesis
    using assms whole part none unfolding r
    by (auto simp: ss_write_def send_socket_def simp del: reply_head.simps split: list.splits send_event.splits)
qed

lemma expect_replies:
  "replies 1 st (expect_step env (hello_server fd r) cc ended req (first_response (hello_server fd r)) st)"
proof (cases "get_header_value (req_headers req) ''Expect'' = ''100-continue''")
  case True
  let ?st1 = "snd (ss_write (status_line 100 @ crlf) st)"
  have "status_line 100 @ crlf = reply_text Interim"
    by (simp add: reply_text_def status_line_def format_text_exact status_message_def to_string_int_def to_string.simps char_of_eq_iff)
  then obtain w where w: "set (sock_sends (ss_sock ?st1)) \<subseteq> set (sock_sends (ss_sock st))"
    "sock_out (ss_sock ?st1) = sock_out (ss_sock st) @ concat [w]" "wire (sock_sends (ss_sock st)) Interim w"
    using interim_wire [of st "fst (ss_write (status_line 100 @ crlf) st)" ?st1] by auto
  have "replies 1 st (conclude env (hello_server fd r) cc ended
      (routing env (hello_server fd r) req (first_response (hello_server fd r)) ?st1))"
    by (rule replies_before [OF conclude_replies w(2,1), of "[Interim]"]) (simp_all add: w(3))
  then show ?thesis
    using True by (simp add: expect_step_def)
next
  case False
  then show ?thesis
    using conclude_replies by (simp add: expect_step_def)
qed

lemma empty_status: "(first_response svr)\<lparr>res_status := status\<rparr> = empty_response status svr"
  by (simp add: empty_response_def)

lemma parsed_no_headers: "parse_request_line w new_Request = (ok, req) \<Longrightarrow> req_headers req = []"
  by (auto simp: parse_request_line_def request_words_def target_parts_def new_Request_def Let_def split: if_splits list.splits)

lemma process_replies:
  "replies 1 st (process_request env (hello_server fd r) cc st)"
proof -
  let ?svr = "hello_server fd r"
  obtain ok lr st1 where g: "getline (new_line_reader 2048) st = (ok, lr, st1)"
    by (metis prod_cases3)
  obtain ok2 hs2 st2 where rh: "read_headers [] st1 = (ok2, hs2, st2)"
    by (metis prod_cases3)
  obtain ok3 req where pl: "parse_request_line (lr_ptr lr) new_Request = (ok3, req)"
    by fastforce
  note rq = parsed_no_headers [OF pl]
  have side: "send_side st1 = send_side st" "send_side st2 = send_side st"
    using getline_send_side [OF g] read_headers_send_side [OF rh] by simp_all
  have empty: "replies 1 st (answer env ?svr False cc ended req' (empty_response c ?svr) st')"
    if "c \<in> {400, 404, 413, 414, 415, 416, 500}" "st' \<in> {st1, st2}" for c st' req' ended
    using answer_empty [OF that(1), of st' env fd r cc ended req'] that(2) side replies_same_side by blast
  have after: "replies 1 st (after_headers env ?svr cc req' (first_response ?svr) st2)" for req'
    using expect_replies [of st2 env fd r cc] empty [of 416 st2] replies_same_side [OF _ side(2)]
    by (simp add: after_headers_def Let_def empty_status split: prod.split bool.split)
  show ?thesis
  proof (cases ok)
    case False
    then show ?thesis
      using g side unfolding replies_def process_request_def
      by (intro exI [of _ False] exI [of _ False] exI [of _ st1] exI [of _ "[]"]) (simp add: send_side_def)
  next
    case True
    show ?thesis
      using True g rh pl rq empty [of 500 st2] empty [of 414 st2] empty [of 400 st1] empty [of 400 st2] after
      unfolding process_request_def by (simp add: Let_def empty_status split: prod.split bool.split)
  qed
qed

subsection \<open>A connection\<close>

lemma keep_alive_loop_send_side:
  "keep_alive_loop t0 t s = (b, s') \<Longrightarrow> sock_sends s' = sock_sends s \<and> sock_out s' = sock_out s"
proof (induction t0 t s rule: keep_alive_loop.induct)
  case (1 t0 t s)
  obtain v s1 where sel: "select_read 10 s = (v, s1)"
    by fastforce
  then have "sock_sends s1 = sock_sends s \<and> sock_out s1 = sock_out s"
    by (auto simp: select_read_def split: if_splits prod.splits)
  then show ?case
    using "1.IH" [OF sel [symmetric]] "1.prems" sel
    by (subst (asm) keep_alive_loop.simps) (auto simp: sleep_ms_def split: if_splits)
qed

lemma connection_replies:
  "\<exists>ok s' rs ws. process_server_socket_core env (hello_server fd r) n ret s = Some (ok, s')
    \<and> sock_out s' = sock_out s @ concat ws \<and> list_all2 (wire (sock_sends s)) rs ws
    \<and> list_all good_reply rs \<and> length (filter is_final rs) \<le> n"
proof (induction n arbitrary: s ret)
  case 0
  then show ?case
    by (intro exI [of _ ret] exI [of _ s] exI [of _ "[]"]) simp
next
  case (Suc n)
  let ?svr = "hello_server fd r"
  have stop: ?case if "process_server_socket_core env ?svr (Suc n) ret s = Some (ok, s')" "sock_out s' = sock_out s" for ok s'
    using that by (intro exI [of _ ok] exI [of _ s'] exI [of _ "[]"]) simp
  obtain b s1 where k: "keep_alive (keep_alive_timeout_sec ?svr) s = (b, s1)"
    by fastforce
  have s1: "sock_sends s1 = sock_sends s" "sock_out s1 = sock_out s"
    using keep_alive_loop_send_side k by (metis keep_alive_def)+
  show ?case
  proof (cases "env_open env (sock_clock s) \<and> b")
    case False
    then have "process_server_socket_core env ?svr (Suc n) ret s = Some (ret, if env_open env (sock_clock s) then s1 else s)"
      using k by (cases "env_open env (sock_clock s)") simp_all
    then show ?thesis
      by (rule stop) (simp add: s1)
  next
    case True
    have "replies 1 (new_SocketStream s1) (process_request env ?svr (n = 0) (new_SocketStream s1))"
      by (rule process_replies)
    then obtain ok ended st rs ws where p: "process_request env ?svr (n = 0) (new_SocketStream s1) = Some (ok, ended, st)"
      "set (sock_sends (ss_sock st)) \<subseteq> set (sock_sends s)" "sock_out (ss_sock st) = sock_out s @ concat ws"
      "list_all2 (wire (sock_sends s)) rs ws" "list_all good_reply rs" "length (filter is_final rs) \<le> 1"
      using s1 unfolding replies_def by (auto simp: new_SocketStream_def)
    show ?thesis
    proof (cases "\<not> ok \<or> ended")
      case stops: True
      then have "process_server_socket_core env ?svr (Suc n) ret s = Some (ok, ss_sock st)"
        using True k p(1) by simp
      then show ?thesis
        using p by (intro exI [of _ ok] exI [of _ "ss_sock st"] exI [of _ rs] exI [of _ ws]) simp
    next
      case False
      then have step: "process_server_socket_core env ?svr (Suc n) ret s = process_server_socket_core env ?svr n ok (ss_sock st)"
        using True k p(1) by simp
      obtain ok' s' rs' ws' where r: "process_server_socket_core env ?svr n ok (ss_sock st) = Some (ok', s')"
        "sock_out s' = sock_out (ss_sock st) @ concat ws'" "list_all2 (wire (sock_sends (ss_sock st))) rs' ws'"
        "list_all good_reply rs'" "length (filter is_final rs') \<le> n"
        using Suc.IH [of ok "ss_sock st"] by blast
      have "list_all2 (wire (sock_sends s)) rs' ws'"
        using r(3) by (rule list_all2_mono) (rule wire_mono [OF _ p(2)])
      then show ?thesis
        using step p r
        by (intro exI [of _ ok'] exI [of _ s'] exI [of _ "rs @ rs'"] exI [of _ "ws @ ws'"]) (auto intro: list_all2_appendI)
    qed
  qed
qed



end
