(* ===== verification/Whole_Program.thy ===== *)
theory Whole_Program
  imports Http_Any_Client
begin

section \<open>The program and its clients\<close>

text \<open>
  Start-up, listening and serving together: from the configuration file to the bytes that each
  client receives.
\<close>

definition request_script :: "Headers list \<Rightarrow> peer_event list" where
  "request_script hss = map (\<lambda>hs. Data (hello_request hs)) hss"

definition ordinary_client :: "socket \<Rightarrow> Headers list \<Rightarrow> bool" where
  "ordinary_client c hss \<longleftrightarrow> sock_in c = request_script hss \<and> sock_sends c = [] \<and> sock_fd c < FD_SETSIZE
     \<and> (\<forall>hs \<in> set hss. list_all ordinary_header hs \<and> length (hello_request hs) \<le> read_buff_size)"

lemma server_serves_client:
  assumes "\<And>t. env_open env t"
  shows "\<exists>ok c' rs ws. process_and_close_socket env (hello_server fd r) c = Some (ok, c')
      \<and> sock_out c' = sock_out c @ concat ws \<and> list_all2 (wire (sock_sends c)) rs ws
      \<and> list_all good_reply rs \<and> length (filter is_final rs) \<le> 5
      \<and> (\<forall>hss. ordinary_client c hss \<longrightarrow>
           sock_out c' = sock_out c @ concat (map (\<lambda>i. hello_response (i = 4)) [0..<min 5 (length hss)]))"
proof -
  have run: "process_and_close_socket env (hello_server fd r) c = process_server_socket_core env (hello_server fd r) 5 False c"
    by (simp add: process_and_close_socket_def)
  obtain ok c' rs ws where c': "process_and_close_socket env (hello_server fd r) c = Some (ok, c')"
    "sock_out c' = sock_out c @ concat ws" "list_all2 (wire (sock_sends c)) rs ws"
    "list_all good_reply rs" "length (filter is_final rs) \<le> 5"
    using connection_replies [of env fd r 5 False c] by (auto simp: run)
  have "sock_out c' = sock_out c @ concat (map (\<lambda>i. hello_response (i = 4)) [0..<min 5 (length hss)])"
    if "ordinary_client c hss" for hss
  proof -
    have "(Suc i = 5) = (i = 4)" for i :: nat
      by auto
    then show ?thesis
      using connection_requests [OF assms(1), of c hss fd r 5 False] that c'(1)
      by (auto simp: ordinary_client_def request_script_def run)
  qed
  with c' show ?thesis by blast
qed

text \<open>
  C1. With a valid configuration whose log files stay below 2048 MB (validation accepts more, for
  which the size in bytes overflows before anything is served), and as long as the server is not
  stopped, the program serves every connection that it accepts on the configured address. However
  a client behaves and however the calls of \<open>send\<close> end, what it gets belongs to a sequence of
  well-formed responses, at most five of them final: of each a beginning of the head and a
  beginning of the body, and all of a final one when no \<open>send\<close> fails. A client whose socket takes all
  it is sent and that asks for \<open>/hello\<close> with ordinary headers, in segments of its own of at most 4096
  bytes, gets exactly the greeting for each of its first five requests.
\<close>

theorem main_serves_clients:
  assumes "main_config_path (pf_exe pf) argv = Inr path"
    and "initConfigs (pf_yaml pf) (pf_file_exists pf) path p0 = (True, p)"
    and "max_log_file_size (log_params p) < 2048" and "\<And>t. env_open env t"
  shows "\<exists>lg s cs. lite_monitor_main pf p0 argv \<in> {Serves lg s cs, Exits lg s cs}
    \<and> cs = served (pf_net pf) (srv_host (http_server_params p)) (srv_port (http_server_params p))
    \<and> (\<forall>c \<in> set cs.
        (\<exists>ok c' rs ws. process_and_close_socket env (http_srv s) c = Some (ok, c')
          \<and> sock_out c' = sock_out c @ concat ws \<and> list_all2 (wire (sock_sends c)) rs ws
          \<and> list_all good_reply rs \<and> length (filter is_final rs) \<le> 5
          \<and> (\<forall>hss. ordinary_client c hss \<longrightarrow>
               sock_out c' = sock_out c @ concat (map (\<lambda>i. hello_response (i = 4)) [0..<min 5 (length hss)]))))"
proof -
  obtain lg s fd r where m: "lite_monitor_main pf p0 argv \<in> {Serves lg s (served (pf_net pf) (http_host s) (http_port s)),
              Exits lg s (served (pf_net pf) (http_host s) (http_port s))}"
    and s: "http_host s = srv_host (http_server_params p)" "http_port s = srv_port (http_server_params p)"
      "http_srv s = hello_server fd r"
    using main_serves_configured [OF assms(1-3)] by blast
  note client = server_serves_client [OF assms(4), where fd = fd and r = r, folded s(3)]
  show ?thesis
    using m [unfolded s(1,2)] by (intro exI [of _ lg] exI [of _ s] exI conjI) (assumption, rule refl, blast intro: client)
qed

text \<open>One client that asks for the greeting.\<close>

theorem main_serves_clients_witness:
  "\<exists>lg s ok c'. lite_monitor_main (demo_platform [Accepts (demo_socket [Data (hello_request demo_headers)])]) demo_params [''lm'', ''c.yaml'']
        \<in> {Serves lg s [demo_socket [Data (hello_request demo_headers)]], Exits lg s [demo_socket [Data (hello_request demo_headers)]]}
     \<and> process_and_close_socket demo_env (http_srv s) (demo_socket [Data (hello_request demo_headers)]) = Some (ok, c')
     \<and> sock_out c' = hello_response False"
proof -
  let ?c = "demo_socket [Data (hello_request demo_headers)]"
  let ?pf = "demo_platform [Accepts ?c]"
  have o: "ordinary_client ?c [demo_headers]"
    using demo_ordinary demo_length by (simp add: ordinary_client_def request_script_def)
  have b: "served (pf_net ?pf) h n = [?c]" for h n
    by (simp add: served_def demo_platform_def demo_network_def create_server_socket_def INVALID_SOCKET_def)
  have l: "max_log_file_size (log_params demo_loaded) < 2048"
    by code_simp
  have e: "env_open demo_env t" for t
    by simp
  obtain lg s cs where m: "lite_monitor_main ?pf demo_params [''lm'', ''c.yaml''] \<in> {Serves lg s cs, Exits lg s cs}" "cs = [?c]"
    and c: "\<forall>c \<in> set cs.
        (\<exists>ok c' rs ws. process_and_close_socket demo_env (http_srv s) c = Some (ok, c')
          \<and> sock_out c' = sock_out c @ concat ws \<and> list_all2 (wire (sock_sends c)) rs ws
          \<and> list_all good_reply rs \<and> length (filter is_final rs) \<le> 5
          \<and> (\<forall>hss. ordinary_client c hss \<longrightarrow>
               sock_out c' = sock_out c @ concat (map (\<lambda>i. hello_response (i = 4)) [0..<min 5 (length hss)])))"
    using main_serves_clients [OF demo_main_path demo_main_config l, of demo_env "[Accepts ?c]"] e unfolding b by blast
  obtain ok c' where c': "process_and_close_socket demo_env (http_srv s) ?c = Some (ok, c')"
    "\<forall>hss. ordinary_client ?c hss \<longrightarrow> sock_out c' = sock_out ?c @ concat (map (\<lambda>i. hello_response (i = 4)) [0..<min 5 (length hss)])"
    using c m(2) by auto
  then have "sock_out c' = hello_response False"
    using o by (force simp: upt_rec)
  with m c'(1) show ?thesis
    by blast
qed

end
