(* ===== verification/Http_Multipart_Props.thy ===== *)
theory Http_Multipart_Props
  imports Http_Connection
begin

section \<open>What multipart bodies become\<close>

text \<open>
  A form that arrives in one piece is stored part by part; the parser does not survive a boundary that
  is cut in two.
\<close>

subsection \<open>Searching in the buffer\<close>

text \<open>
  \<open>buf_find\<close> gives the first position at which the pattern stands, and the end of the buffer when it
  stands nowhere, although it stops looking as soon as too little is left.
\<close>

lemma buf_find_none:
  assumes "s \<noteq> []" and "\<forall>i. \<not> prefix s (drop i b)"
  shows "buf_find s b = length b"
  using assms(2)
proof (induction b)
  case (Cons c b)
  have "\<not> prefix s (drop 0 (c # b))" "\<forall>i. \<not> prefix s (drop i b)"
    using Cons.prems by (blast, metis drop_Suc_Cons)
  then show ?case
    using Cons.IH by simp
qed simp

lemma buf_find_first:
  assumes "s \<noteq> []" and "\<forall>i < length u. \<not> prefix s (drop i (u @ s))"
  shows "buf_find s (u @ s @ rest) = length u"
  using assms(2)
proof (induction u)
  case Nil
  then show ?case
    using assms(1) by (cases s) auto
next
  case (Cons c u)
  have "\<not> prefix s (c # u @ s)"
    using Cons.prems [rule_format, of 0] by simp
  moreover have "prefix s (c # u @ s)" if "prefix s (c # u @ s @ rest)"
    using prefix_length_prefix [OF that, of "c # u @ s"] by simp
  ultimately have "\<not> prefix s (c # u @ s @ rest)"
    by blast
  moreover have "\<not> prefix s (drop i (u @ s))" if "i < length u" for i
    using Cons.prems [rule_format, of "Suc i"] that by simp
  ultimately show ?case
    using Cons.IH assms(1) by (cases s) auto
qed

lemma buf_find_before: "buf_find s (u @ s @ rest) \<le> length u"
proof (induction u)
  case Nil
  then show ?case by (cases s; cases rest) auto
qed auto

lemma buf_find_line: "CR \<notin> set l \<Longrightarrow> buf_find crlf (l @ crlf @ rest) = length l"
proof (rule buf_find_first)
  show "\<forall>i < length l. \<not> prefix crlf (drop i (l @ crlf))" if "CR \<notin> set l"
  proof (intro allI impI)
    fix i assume "i < length l"
    then have "drop i (l @ crlf) = l ! i # drop (Suc i) (l @ crlf)" and "l ! i \<noteq> CR"
      using that by (simp add: nth_append Cons_nth_drop_Suc [symmetric] del: drop_append) (metis \<open>i < length l\<close> nth_mem that)
    then show "\<not> prefix crlf (drop i (l @ crlf))"
      by simp
  qed
qed simp

subsection \<open>A boundary that is cut in two is lost\<close>

text \<open>
  While it waits for the first boundary the parser keeps nothing: a piece in which the boundary
  does not stand as a whole is forgotten, even if it ends with the beginning of one.
\<close>

lemma mp_parse_forgets:
  assumes "\<forall>i. \<not> prefix (''--'' @ b @ crlf) (drop i w)"
  shows "mp_parse w c h (new_parser b) a = (True, new_parser b, a)"
proof (cases "w = []")
  case True
  then show ?thesis
    by (simp add: mp_parse_def mp_parse_loop.simps new_parser_def)
next
  case False
  have "buf_find (''--'' @ b @ crlf) w = length w"
    by (rule buf_find_none) (use assms in simp_all)
  then have "mp_pass c h ((new_parser b)\<lparr>mp_buf := w\<rparr>) a = Returns True (new_parser b) a"
    by (simp add: mp_pass_def pass_initial_def new_parser_def Let_def)
  then show ?thesis
    using False by (simp add: mp_parse_def mp_parse_loop.simps [of c h "(new_parser b)\<lparr>mp_buf := w\<rparr>"]) (simp add: mp_parse_def new_parser_def mp_parse_loop.simps)
qed

subsection \<open>A body that arrives in one piece\<close>

text \<open>A part is its header lines and its content.\<close>

type_synonym part = "string list \<times> string"

definition part_block :: "part \<Rightarrow> string" where
  "part_block q = concat (map (\<lambda>l. l @ crlf) (fst q)) @ crlf @ snd q"

primrec part_tail :: "string \<Rightarrow> part list \<Rightarrow> string" where
  "part_tail b [] = ''--'' @ crlf"
| "part_tail b (q # qs) = crlf @ part_block q @ crlf @ ''--'' @ b @ part_tail b qs"

definition multipart_text :: "string \<Rightarrow> part list \<Rightarrow> string" where
  "multipart_text b qs = ''--'' @ b @ part_tail b qs"

text \<open>What the server stores of a part.\<close>

definition store_part :: "part \<Rightarrow> Files \<Rightarrow> Files" where
  "store_part q files =
     (let entry = fold file_header (fst q) empty_file in
      mm_emplace str_less (mp_name entry) (entry\<lparr>mp_content := snd q\<rparr>) files)"

definition good_part :: "string \<Rightarrow> part \<Rightarrow> bool" where
  "good_part b q \<longleftrightarrow>
     list_all (\<lambda>l. l \<noteq> [] \<and> CR \<notin> set l \<and> length l \<le> HEADER_MAX_LENGTH) (fst q)
     \<and> int (length (snd q)) \<le> body_max_size
     \<and> (\<forall>i < length (snd q). \<not> prefix (crlf @ ''--'' @ b) (drop i (snd q @ crlf @ ''--'' @ b)))"

lemma mp_step:
  "mp_buf p \<noteq> [] \<Longrightarrow> mp_pass c h p a = Goes_on p' a' \<Longrightarrow> mp_parse_loop c h p a = mp_parse_loop c h p' a'"
  by (simp add: mp_parse_loop.simps [of c h p])

lemma file_header_content: "mp_content (file_header l f) = mp_content f"
  by (auto simp: file_header_def split: option.split)

lemma fold_file_header_content: "mp_content (fold file_header ls f) = mp_content f"
  by (induction ls arbitrary: f) (simp_all add: file_header_content)

lemma header_lines_block:
  assumes "list_all (\<lambda>l. l \<noteq> [] \<and> CR \<notin> set l) ls" and "mp_buf p = concat (map (\<lambda>l. l @ crlf) ls) @ crlf @ rest"
    and "h (fold file_header ls (mp_file p)) a = (True, a')"
  shows "header_lines h p a = Goes_on (p\<lparr>mp_file := fold file_header ls (mp_file p), mp_buf := rest, mp_state := 3\<rparr>) a'"
  using assms
proof (induction ls arbitrary: p)
  case Nil
  have "buf_find crlf (mp_buf p) = 0"
    using buf_find_line [of "[]" rest] Nil.prems(2) by simp
  then show ?case
    using Nil.prems by (subst header_lines.simps) (simp add: Let_def)
next
  case (Cons l ls)
  let ?p = "buf_erase (length l + 2) (p\<lparr>mp_file := file_header l (mp_file p)\<rparr>)"
  have b: "mp_buf p = l @ crlf @ concat (map (\<lambda>l. l @ crlf) ls) @ crlf @ rest"
    using Cons.prems(2) by simp
  have pos: "buf_find crlf (mp_buf p) = length l"
    unfolding b using Cons.prems(1) by (intro buf_find_line) simp
  have "header_lines h p a = header_lines h ?p a"
    using Cons.prems(1) pos by (subst header_lines.simps) (simp add: Let_def b)
  also have "\<dots> = Goes_on (?p\<lparr>mp_file := fold file_header ls (mp_file ?p), mp_buf := rest, mp_state := 3\<rparr>) a'"
    using Cons.prems b by (intro Cons.IH) simp_all
  finally show ?case by simp
qed

text \<open>The content goes to the receiver in two pieces, which end up together.\<close>

lemma emplace_position: "(mm_emplace lt k v es) ! (mm_position lt k es) = (k, v)"
  by (induction es) (simp_all add: mm_position_def)

lemma emplace_update: "(mm_emplace lt k v es)[mm_position lt k es := (k, v')] = mm_emplace lt k v' es"
  by (induction es) (simp_all add: mm_position_def)

lemma multipart_receiver_entry:
  assumes "req_files req = mm_emplace str_less k v files" and "int (length (mp_content v)) + int (length w) \<le> body_max_size"
  shows "multipart_receiver w (req, mm_position str_less k files)
    = (True, req\<lparr>req_files := mm_emplace str_less k (v\<lparr>mp_content := mp_content v @ w\<rparr>) files\<rparr>, mm_position str_less k files)"
  using assms by (simp add: multipart_receiver_def emplace_position emplace_update Let_def)

lemma pass_body_found:
  assumes "mp_buf p = u @ w @ s @ tail" and s: "s = crlf @ ''--'' @ mp_boundary p"
    and "buf_find (crlf @ ''--'') (mp_buf p) = length u" and "buf_find s (w @ s @ tail) = length w"
    and "c u a = (True, a1)" and "c w a1 = (True, a2)"
  shows "pass_body c p a = Goes_on (p\<lparr>mp_buf := tail, mp_state := 4\<rparr>) a2"
proof -
  have ne: "length s \<ge> 4"
    by (simp add: s)
  have "\<not> length (crlf @ ''--'') > length (mp_buf p)" "\<not> length s > length (w @ s @ tail)"
    using ne by (simp_all add: assms(1))
  moreover have "s \<noteq> []"
    using ne by auto
  ultimately show ?thesis
    using assms(3-6) unfolding pass_body_def Let_def s [symmetric]
    by (simp add: assms(1) del: append_Cons)
qed

lemma pass_body_block:
  assumes "mp_state p = 3" and "mp_buf p = snd q @ crlf @ ''--'' @ mp_boundary p @ tail" and "tail \<noteq> []"
    and "good_part (mp_boundary p) q" and "req_files req = mm_emplace str_less k v files" and "mp_content v = []"
  shows "mp_pass multipart_receiver h p (req, mm_position str_less k files)
    = Goes_on (p\<lparr>mp_buf := tail, mp_state := 4\<rparr>)
        (req\<lparr>req_files := mm_emplace str_less k (v\<lparr>mp_content := snd q\<rparr>) files\<rparr>, mm_position str_less k files)"
proof -
  let ?s = "crlf @ ''--''" and ?s1 = "crlf @ ''--'' @ mp_boundary p"
  define pos where "pos = buf_find ?s (mp_buf p)"
  define u where "u = take pos (snd q)"
  define w where "w = drop pos (snd q)"
  have "mp_buf p = snd q @ ?s @ mp_boundary p @ tail"
    unfolding assms(2) by simp
  then have pos: "pos \<le> length (snd q)"
    using buf_find_before [of ?s "snd q" "mp_boundary p @ tail"] by (simp only: pos_def)
  have uw: "snd q = u @ w" "length u = pos"
    using pos by (simp_all add: u_def w_def)
  have b: "mp_buf p = u @ w @ ?s1 @ tail"
    unfolding assms(2) uw(1) by simp
  have "\<not> prefix ?s1 (drop i (w @ ?s1))" if "i < length w" for i
  proof -
    have d: "drop (pos + i) (snd q @ ?s1) = drop i (w @ ?s1)"
      unfolding uw(1) uw(2) [symmetric] by simp
    have "pos + i < length (snd q)"
      using that uw by simp
    moreover have "\<forall>i < length (snd q). \<not> prefix ?s1 (drop i (snd q @ ?s1))"
      using assms(4) unfolding good_part_def by (elim conjE)
    ultimately have "\<not> prefix ?s1 (drop (pos + i) (snd q @ ?s1))"
      by blast
    then show ?thesis
      unfolding d .
  qed
  then have pos1: "buf_find ?s1 (w @ ?s1 @ tail) = length w"
    by (intro buf_find_first) simp_all
  have small: "int (length (snd q)) \<le> body_max_size"
    using assms(4) by (simp add: good_part_def)
  let ?req1 = "req\<lparr>req_files := mm_emplace str_less k (v\<lparr>mp_content := u\<rparr>) files\<rparr>"
  have r1: "multipart_receiver u (req, mm_position str_less k files) = (True, ?req1, mm_position str_less k files)"
    using multipart_receiver_entry [OF assms(5), of u] small uw(1) assms(6) by simp
  have r2: "multipart_receiver w (?req1, mm_position str_less k files)
      = (True, ?req1\<lparr>req_files := mm_emplace str_less k (v\<lparr>mp_content := snd q\<rparr>) files\<rparr>, mm_position str_less k files)"
    using multipart_receiver_entry [of ?req1 k "v\<lparr>mp_content := u\<rparr>" files w] small uw(1) by simp
  have "pass_body multipart_receiver p (req, mm_position str_less k files) = Goes_on (p\<lparr>mp_buf := tail, mp_state := 4\<rparr>)
      (?req1\<lparr>req_files := mm_emplace str_less k (v\<lparr>mp_content := snd q\<rparr>) files\<rparr>, mm_position str_less k files)"
    using pos1 uw(2) by (intro pass_body_found [OF b refl _ _ r1 r2]) (simp_all add: pos_def)
  then show ?thesis
    using assms(1) by (simp add: mp_pass_def)
qed

text \<open>One part after another.\<close>

lemma part_tail_ne [simp]: "part_tail b qs \<noteq> []"
  by (cases qs) simp_all

lemma mp_part:
  assumes "mp_state p = 1" and "mp_boundary p = b" and "mp_content (mp_file p) = []" and "good_part b q"
    and "mp_buf p = part_block q @ crlf @ ''--'' @ b @ tail" and "tail \<noteq> []"
  shows "\<exists>p' cur'. mp_parse_loop multipart_receiver multipart_header p (req, cur)
        = mp_parse_loop multipart_receiver multipart_header p' (req\<lparr>req_files := store_part q (req_files req)\<rparr>, cur')
      \<and> mp_state p' = 4 \<and> mp_boundary p' = b \<and> mp_content (mp_file p') = [] \<and> mp_buf p' = tail"
proof -
  define entry where "entry = fold file_header (fst q) empty_file"
  have content: "mp_content entry = []"
    by (simp add: entry_def fold_file_header_content empty_file_def)
  have cleared: "(mp_file p)\<lparr>mp_name := [], mp_filename := [], mp_content_type := []\<rparr> = empty_file"
    using assms(3) by (cases "mp_file p") (simp add: empty_file_def)
  let ?p1 = "p\<lparr>mp_file := empty_file, mp_state := 2\<rparr>"
  let ?body = "snd q @ crlf @ ''--'' @ b @ tail"
  let ?p2 = "?p1\<lparr>mp_file := entry, mp_buf := ?body, mp_state := 3\<rparr>"
  let ?k = "mp_name entry" and ?cur = "mm_position str_less (mp_name entry) (req_files req)"
  let ?req1 = "req\<lparr>req_files := mm_emplace str_less ?k entry (req_files req)\<rparr>"
  have ne: "mp_buf p \<noteq> []"
    by (simp add: assms(5))
  have block: "mp_buf p = concat (map (\<lambda>l. l @ crlf) (fst q)) @ crlf @ ?body"
    unfolding assms(5) part_block_def by simp
  have lines: "list_all (\<lambda>l. l \<noteq> [] \<and> CR \<notin> set l) (fst q)" "\<forall>l \<in> set (fst q). length l \<le> HEADER_MAX_LENGTH"
    using assms(4) by (auto simp: good_part_def list_all_iff)
  have s1: "mp_parse_loop multipart_receiver multipart_header p (req, cur)
      = mp_parse_loop multipart_receiver multipart_header ?p1 (req, cur)"
    using ne by (rule mp_step) (simp add: mp_pass_def pass_entry_def assms(1) cleared)
  have "buf_find crlf (mp_buf p) \<le> HEADER_MAX_LENGTH"
  proof (cases "fst q")
    case Nil
    then show ?thesis
      unfolding block using buf_find_line [of "[]" ?body] by simp
  next
    case (Cons l ls)
    then show ?thesis
      unfolding block using lines buf_find_line [of l "concat (map (\<lambda>l. l @ crlf) ls) @ crlf @ ?body"] by simp
  qed
  moreover have "header_lines multipart_header ?p1 (req, cur) = Goes_on ?p2 (?req1, ?cur)"
    using header_lines_block [of "fst q" ?p1 ?body multipart_header "(req, cur)" "(?req1, ?cur)"] lines(1) block
    by (simp add: multipart_header_def flip: entry_def)
  ultimately have "mp_pass multipart_receiver multipart_header ?p1 (req, cur) = Goes_on ?p2 (?req1, ?cur)"
    by (simp add: mp_pass_def pass_headers_def)
  then have s2: "mp_parse_loop multipart_receiver multipart_header ?p1 (req, cur)
      = mp_parse_loop multipart_receiver multipart_header ?p2 (?req1, ?cur)"
    by (intro mp_step) (simp_all add: ne)
  have "mp_pass multipart_receiver multipart_header ?p2 (?req1, ?cur)
      = Goes_on (?p2\<lparr>mp_buf := tail, mp_state := 4\<rparr>)
          (?req1\<lparr>req_files := mm_emplace str_less ?k (entry\<lparr>mp_content := snd q\<rparr>) (req_files req)\<rparr>, ?cur)"
    using assms content by (intro pass_body_block) simp_all
  then have s3: "mp_parse_loop multipart_receiver multipart_header ?p2 (?req1, ?cur)
      = mp_parse_loop multipart_receiver multipart_header (?p2\<lparr>mp_buf := tail, mp_state := 4\<rparr>)
          (req\<lparr>req_files := store_part q (req_files req)\<rparr>, ?cur)"
    by (subst mp_step) (simp_all add: store_part_def Let_def flip: entry_def)
  show ?thesis
    unfolding s1 s2 s3 using assms(2) content
    by (intro exI [of _ "?p2\<lparr>mp_buf := tail, mp_state := 4\<rparr>"] exI [of _ ?cur]) simp
qed

lemma mp_parts:
  assumes "mp_state p = 4" and "mp_boundary p = b" and "mp_content (mp_file p) = []" and "list_all (good_part b) qs"
    and "mp_buf p = part_tail b qs"
  shows "\<exists>p' cur'. mp_parse_loop multipart_receiver multipart_header p (req, cur)
      = (True, p', req\<lparr>req_files := fold store_part qs (req_files req)\<rparr>, cur') \<and> mp_is_valid p'"
  using assms
proof (induction qs arbitrary: p req cur)
  case Nil
  have "mp_pass multipart_receiver multipart_header p (req, cur) = Goes_on (p\<lparr>mp_is_valid := True, mp_buf := []\<rparr>) (req, cur)"
    using Nil.prems by (simp add: mp_pass_def pass_boundary_def)
  then have "mp_parse_loop multipart_receiver multipart_header p (req, cur)
      = mp_parse_loop multipart_receiver multipart_header (p\<lparr>mp_is_valid := True, mp_buf := []\<rparr>) (req, cur)"
    using Nil.prems by (intro mp_step) simp_all
  then show ?case
    by (simp add: mp_parse_loop.simps)
next
  case (Cons q qs)
  let ?rest = "part_block q @ crlf @ ''--'' @ b @ part_tail b qs"
  have b: "mp_buf p = crlf @ ?rest"
    using Cons.prems(5) by simp
  have "mp_pass multipart_receiver multipart_header p (req, cur) = Goes_on (p\<lparr>mp_buf := ?rest, mp_state := 1\<rparr>) (req, cur)"
    using Cons.prems(1) by (simp add: mp_pass_def pass_boundary_def b)
  then have s: "mp_parse_loop multipart_receiver multipart_header p (req, cur)
      = mp_parse_loop multipart_receiver multipart_header (p\<lparr>mp_buf := ?rest, mp_state := 1\<rparr>) (req, cur)"
    using b by (intro mp_step) simp_all
  obtain p' cur' where "mp_parse_loop multipart_receiver multipart_header (p\<lparr>mp_buf := ?rest, mp_state := 1\<rparr>) (req, cur)
        = mp_parse_loop multipart_receiver multipart_header p' (req\<lparr>req_files := store_part q (req_files req)\<rparr>, cur')"
      "mp_state p' = 4" "mp_boundary p' = b" "mp_content (mp_file p') = []" "mp_buf p' = part_tail b qs"
    using mp_part [of "p\<lparr>mp_buf := ?rest, mp_state := 1\<rparr>" b q "part_tail b qs" req cur] Cons.prems by auto
  then show ?case
    using Cons.IH [of p' "req\<lparr>req_files := store_part q (req_files req)\<rparr>" cur'] Cons.prems(4) s by simp
qed

lemma mp_parse_text:
  assumes "qs \<noteq> []" and "list_all (good_part b) qs"
  shows "\<exists>p' cur'. mp_parse (multipart_text b qs) multipart_receiver multipart_header (new_parser b) (req, cur)
      = (True, p', req\<lparr>req_files := fold store_part qs (req_files req)\<rparr>, cur') \<and> mp_is_valid p'"
proof -
  obtain q qs' where qs: "qs = q # qs'"
    using assms(1) by (cases qs) auto
  let ?rest = "part_block q @ crlf @ ''--'' @ b @ part_tail b qs'"
  let ?p = "(new_parser b)\<lparr>mp_buf := multipart_text b qs\<rparr>"
  have t: "multipart_text b qs = (''--'' @ b @ crlf) @ ?rest"
    unfolding multipart_text_def qs by simp
  have "buf_find (''--'' @ b @ crlf) ([] @ (''--'' @ b @ crlf) @ ?rest) = length ([] :: string)"
    by (rule buf_find_first) simp_all
  then have f: "buf_find (''--'' @ b @ crlf) (multipart_text b qs) = 0"
    unfolding t by simp
  have "mp_pass multipart_receiver multipart_header ?p (req, cur) = Goes_on (?p\<lparr>mp_buf := ?rest, mp_state := 1\<rparr>) (req, cur)"
    using f by (simp add: mp_pass_def pass_initial_def new_parser_def Let_def) (simp add: t)
  moreover have "multipart_text b qs \<noteq> []"
    by (simp add: t)
  ultimately have s: "mp_parse (multipart_text b qs) multipart_receiver multipart_header (new_parser b) (req, cur)
      = mp_parse_loop multipart_receiver multipart_header (?p\<lparr>mp_buf := ?rest, mp_state := 1\<rparr>) (req, cur)"
    by (simp add: mp_parse_def mp_step new_parser_def)
  obtain p' cur' where "mp_parse_loop multipart_receiver multipart_header (?p\<lparr>mp_buf := ?rest, mp_state := 1\<rparr>) (req, cur)
        = mp_parse_loop multipart_receiver multipart_header p' (req\<lparr>req_files := store_part q (req_files req)\<rparr>, cur')"
      "mp_state p' = 4" "mp_boundary p' = b" "mp_content (mp_file p') = []" "mp_buf p' = part_tail b qs'"
    using mp_part [of "?p\<lparr>mp_buf := ?rest, mp_state := 1\<rparr>" b q "part_tail b qs'" req cur] assms(2)
    by (auto simp: qs new_parser_def empty_file_def)
  then show ?thesis
    using mp_parts [of p' b qs' "req\<lparr>req_files := store_part q (req_files req)\<rparr>" cur'] assms(2) s by (simp add: qs)
qed

subsection \<open>Bodies in segments\<close>

text \<open>A stream with nothing in its buffer gives out one segment per read.\<close>

definition drained :: "peer_event list \<Rightarrow> SocketStream \<Rightarrow> bool" where
  "drained es st \<longleftrightarrow> read_buff_off st \<ge> length (read_buff st) \<and> sock_in (ss_sock st) = es \<and> sock_fd (ss_sock st) < FD_SETSIZE"

lemma read_segment:
  assumes "drained (Data w # es) st" and "w \<noteq> []" and "length w \<le> RECV_BUFSIZ" and "length w \<le> n"
  shows "\<exists>st'. ss_read (min n RECV_BUFSIZ) st = (Some w, st') \<and> drained es st'"
proof -
  have "wait_data t (sock_in (ss_sock st)) = (0, 1, Data w # es)" for t
    using assms by (simp add: drained_def)
  then have sel: "select_read read_timeout (ss_sock st) = (1, ss_sock st)" and
    rd: "read_socket k (ss_sock st) = (Some w, (ss_sock st)\<lparr>sock_in := es\<rparr>)" if "length w \<le> k" for k
    using assms that by (simp_all add: select_read_def read_socket_def drained_def)
  show ?thesis
    using assms sel [of RECV_BUFSIZ] rd
    by (auto simp: ss_read_def drained_def RECV_BUFSIZ_def read_buff_size_def)
qed

primrec fed :: "'a content_receiver \<Rightarrow> string list \<Rightarrow> 'a \<Rightarrow> 'a \<Rightarrow> bool" where
  "fed out [] a a' \<longleftrightarrow> a = a'"
| "fed out (w # ws) a a' \<longleftrightarrow> (\<exists>b. out w a = (True, b) \<and> fed out ws b a')"

lemma read_segments:
  assumes "drained (map Data ws @ es) st" and "\<forall>w \<in> set ws. w \<noteq> [] \<and> length w \<le> RECV_BUFSIZ" and "fed out ws a a'"
  shows "\<exists>st'. read_content_with_length (length (concat ws)) out a st = (True, a', st') \<and> drained es st'"
  using assms
proof (induction ws arbitrary: a st)
  case Nil
  then show ?case
    by (subst read_content_with_length.simps) simp
next
  case (Cons w ws)
  obtain b where b: "out w a = (True, b)" "fed out ws b a'"
    using Cons.prems(3) by auto
  obtain st1 where st1: "ss_read (min (length (concat (w # ws))) RECV_BUFSIZ) st = (Some w, st1)" "drained (map Data ws @ es) st1"
    using read_segment [of w "map Data ws @ es" st "length (concat (w # ws))"] Cons.prems(1,2) by auto
  obtain st' where "read_content_with_length (length (concat ws)) out b st1 = (True, a', st')" "drained es st'"
    using Cons.IH [OF st1(2) _ b(2)] Cons.prems(2) by auto
  then show ?case
    using Cons.prems(2) st1 b(1) by (subst read_content_with_length.simps) simp
qed

text \<open>A request whose body is multipart form data of a known length.\<close>

definition announces_form :: "u64 \<Rightarrow> Request \<Rightarrow> string \<Rightarrow> nat \<Rightarrow> bool" where
  "announces_form limit req b n \<longleftrightarrow>
     is_multipart_form_data req \<and> parse_multipart_boundary (get_header_value (req_headers req) ''Content-Type'') = Some b
     \<and> \<not> unsupported_encoding (get_header_value (req_headers req) ''Content-Encoding'')
     \<and> \<not> is_chunked_transfer_encoding (req_headers req) \<and> has_header (req_headers req) ''Content-Length''
     \<and> get_header_value_u64 (req_headers req) ''Content-Length'' = of_nat n \<and> 0 < n \<and> n < 2 ^ 64 \<and> of_nat n \<le> limit"

lemma read_form:
  assumes "announces_form limit req b (length (concat ws))" and "drained (map Data ws @ es) st"
    and "\<forall>w \<in> set ws. w \<noteq> [] \<and> length w \<le> RECV_BUFSIZ" and "fed parsing_receiver ws (new_parser b, req, 0) (p, req', cur)"
    and "req_headers req' = req_headers req"
  shows "\<exists>st'. read_content limit req st = ((if mp_is_valid p then None else Some 400), mp_is_valid p, req', st')"
proof -
  let ?n = "length (concat ws)"
  have n: "0 < ?n" "?n < 2 ^ 64"
    using assms(1) by (simp_all only: announces_form_def)
  then have len: "unat (of_nat ?n :: u64) = ?n"
    by (simp add: unat_of_nat take_bit_nat_eq_self)
  then have pos: "(of_nat ?n :: u64) > 0"
    using n(1) by (metis unat_0 word_gt_0 nat_less_le)
  obtain st' where r: "read_content_with_length ?n parsing_receiver (new_parser b, req, 0) st = (True, (p, req', cur), st')"
    using read_segments [OF assms(2-4)] by blast
  have d: "detail_read_content (req_headers req) limit parsing_receiver (new_parser b, req, 0) st = (None, True, (p, req', cur), st')"
    using assms(1) len pos r by (simp add: detail_read_content_def announces_form_def Let_def not_less)
  have c: "read_content_core limit req st = ((if mp_is_valid p then None else Some 400), mp_is_valid p, req', st')"
    using assms(1) d by (simp add: read_content_core_def announces_form_def)
  have "\<not> prefix ''application/x-www-form-urlencoded'' (get_header_value (req_headers req') ''Content-Type'')"
    using assms(1,5) by (auto simp: announces_form_def is_multipart_form_data_def prefix_def)
  then show ?thesis
    by (cases "mp_is_valid p") (simp_all add: read_content_def c)
qed

text \<open>
  C11. A form that arrives in one segment of at most 4096 bytes, announced by its length and boundary in
  the request's headers, is stored as it was sent: every part whose content the boundary does not
  occur in becomes one entry, with exactly its content, and with the name, file name and type that
  reading its header lines one after the other gives.
\<close>

theorem form_in_one_segment:
  assumes "qs \<noteq> []" and "list_all (good_part b) qs" and "length (multipart_text b qs) \<le> RECV_BUFSIZ"
    and "announces_form limit req b (length (multipart_text b qs))" and "drained (Data (multipart_text b qs) # es) st"
  shows "\<exists>st'. read_content limit req st = (None, True, req\<lparr>req_files := fold store_part qs (req_files req)\<rparr>, st')"
proof -
  let ?w = "multipart_text b qs"
  obtain p' cur' where p: "mp_parse ?w multipart_receiver multipart_header (new_parser b) (req, 0)
      = (True, p', req\<lparr>req_files := fold store_part qs (req_files req)\<rparr>, cur')" "mp_is_valid p'"
    using mp_parse_text [OF assms(1,2), of req 0] by blast
  have "fed parsing_receiver [?w] (new_parser b, req, 0) (p', req\<lparr>req_files := fold store_part qs (req_files req)\<rparr>, cur')"
    using p(1) by (simp add: parsing_receiver_def)
  from read_form [of limit req b "[?w]" es st, OF _ _ _ this] assms(3-5) p(2) show ?thesis
    by (simp add: multipart_text_def)
qed

text \<open>
  C33. The same form is rejected when it is cut in the wrong place: if no segment of the body holds the
  first boundary line as a whole, the parser has forgotten its beginning when the rest of it comes,
  and the request fails with status 400 and nothing stored, whatever the body is.
\<close>

theorem form_with_cut_boundary:
  assumes "announces_form limit req b (length (concat ws))" and "drained (map Data ws @ es) st"
    and "\<forall>w \<in> set ws. w \<noteq> [] \<and> length w \<le> RECV_BUFSIZ \<and> (\<forall>i. \<not> prefix (''--'' @ b @ crlf) (drop i w))"
  shows "\<exists>st'. read_content limit req st = (Some 400, False, req, st')"
proof -
  have "fed parsing_receiver ws (new_parser b, req, 0) (new_parser b, req, 0)"
    using assms(3)
  proof (induction ws)
    case (Cons w ws)
    then show ?case
      using mp_parse_forgets [of b w multipart_receiver multipart_header "(req, 0)"] by (simp add: parsing_receiver_def)
  qed simp
  from read_form [OF assms(1,2) _ this] assms(3) show ?thesis
    by (simp add: new_parser_def)
qed

subsection \<open>Witnesses\<close>

text \<open>A form with one field, in one segment, and cut after the first character.\<close>

definition demo_part :: part where
  "demo_part = ([''Content-Type: text/plain''], ''5'')"

definition demo_form :: string where
  "demo_form = multipart_text ''XY'' [demo_part]"

definition demo_form_request :: Request where
  "demo_form_request = new_Request\<lparr>req_method := ''POST'',
     req_headers := [(''Content-Length'', ''45''), (''Content-Type'', ''multipart/form-data; boundary=XY'')]\<rparr>"

lemma demo_form_text: "demo_form = ''--XY'' @ crlf @ ''Content-Type: text/plain'' @ crlf @ crlf @ ''5'' @ crlf @ ''--XY--'' @ crlf"
  by (simp add: demo_form_def demo_part_def multipart_text_def part_block_def)

lemma demo_form_length: "length demo_form = 45"
  by (simp add: demo_form_text)

lemma demo_announces: "announces_form (- 1) demo_form_request ''XY'' 45"
proof -
  have "is_multipart_form_data demo_form_request"
    "parse_multipart_boundary (get_header_value (req_headers demo_form_request) ''Content-Type'') = Some ''XY''"
    "\<not> unsupported_encoding (get_header_value (req_headers demo_form_request) ''Content-Encoding'')"
    "\<not> is_chunked_transfer_encoding (req_headers demo_form_request)" "has_header (req_headers demo_form_request) ''Content-Length''"
    by code_simp+
  moreover have "get_header_value_u64 (req_headers demo_form_request) ''Content-Length'' = 45"
    by code_simp
  ultimately show ?thesis
    by (simp add: announces_form_def)
qed

lemma demo_good: "good_part ''XY'' demo_part"
  by (simp add: good_part_def demo_part_def HEADER_MAX_LENGTH_def body_max_size_def)

theorem form_witness:
  "\<exists>st'. read_content (- 1) demo_form_request (new_SocketStream (demo_socket [Data demo_form]))
     = (None, True, demo_form_request\<lparr>req_files := [([], empty_file\<lparr>mp_content_type := ''text/plain'', mp_content := ''5''\<rparr>)]\<rparr>, st')"
proof -
  have s: "store_part demo_part [] = [([], empty_file\<lparr>mp_content_type := ''text/plain'', mp_content := ''5''\<rparr>)]"
    by code_simp
  have "drained [Data (multipart_text ''XY'' [demo_part])] (new_SocketStream (demo_socket [Data demo_form]))"
    by (simp add: drained_def new_SocketStream_def flip: demo_form_def)
  from form_in_one_segment [OF _ _ _ _ this, of "- 1" demo_form_request] demo_good demo_form_length demo_announces s
  show ?thesis
    by (simp add: RECV_BUFSIZ_def demo_form_request_def new_Request_def flip: demo_form_def)
qed

theorem cut_form_witness:
  "\<exists>st'. read_content (- 1) demo_form_request
       (new_SocketStream (demo_socket [Data (take 1 demo_form), Data (drop 1 demo_form)]))
     = (Some 400, False, demo_form_request, st')"
proof -
  let ?p = "''--'' @ ''XY'' @ crlf"
  have "\<not> prefix ?p (drop i (take 1 demo_form))" for i
    by (cases i) (simp_all add: demo_form_text)
  moreover have "\<not> prefix ?p (drop i (drop 1 demo_form))" for i
  proof -
    have "\<forall>i \<in> set [0..<45]. \<not> prefix ?p (drop i (drop 1 demo_form))"
      by code_simp
    moreover have "drop i (drop 1 demo_form) = []" if "i \<ge> 44"
      using that by (simp add: demo_form_length)
    ultimately show ?thesis
      by (cases "i < 45") auto
  qed
  moreover have "take 1 demo_form \<noteq> []" "drop 1 demo_form \<noteq> []" "length (drop 1 demo_form) \<le> RECV_BUFSIZ"
    "length (take 1 demo_form) \<le> RECV_BUFSIZ"
    using demo_form_length by (auto simp: RECV_BUFSIZ_def)
  moreover have "drained (map Data [take 1 demo_form, drop 1 demo_form] @ [])
      (new_SocketStream (demo_socket [Data (take 1 demo_form), Data (drop 1 demo_form)]))"
    by (simp add: drained_def new_SocketStream_def)
  ultimately show ?thesis
    using form_with_cut_boundary [of "- 1" demo_form_request "''XY''" "[take 1 demo_form, drop 1 demo_form]" "[]"] demo_announces
    by (simp add: demo_form_length)
qed

end
