(* ===== verification/Models.thy ===== *)
theory Models
  imports Prelude
begin

section \<open>The data model: \<open>include/model/host.h\<close>, \<open>item.h\<close>, \<open>history.h\<close>\<close>

text \<open>
  The three value classes. A getter is the record's field; every setter is a definition. What a
  getter and its setter owe each other is the locale \<open>accessor\<close>, interpreted for every field.
\<close>

record Host =
  h_host_id :: u64
  host_name :: string
  ip :: string
  h_status :: "8 word"
  h_create_time :: u64

definition new_Host :: Host where
  "new_Host = \<lparr>h_host_id = 0, host_name = [], ip = [], h_status = 0, h_create_time = 0\<rparr>"

definition setHostId :: "u64 \<Rightarrow> Host \<Rightarrow> Host" where "setHostId v h = h\<lparr>h_host_id := v\<rparr>"
definition setHostName :: "string \<Rightarrow> Host \<Rightarrow> Host" where "setHostName v h = h\<lparr>host_name := v\<rparr>"
definition setIp :: "string \<Rightarrow> Host \<Rightarrow> Host" where "setIp v h = h\<lparr>ip := v\<rparr>"
definition setStatus :: "8 word \<Rightarrow> Host \<Rightarrow> Host" where "setStatus v h = h\<lparr>h_status := v\<rparr>"
definition setCreateTime :: "u64 \<Rightarrow> Host \<Rightarrow> Host" where "setCreateTime v h = h\<lparr>h_create_time := v\<rparr>"

record Item =
  item_id :: u64
  host_id :: u64
  item_key :: string
  value_type :: "8 word"
  units :: string
  interval_sec :: "32 word"
  status :: "8 word"
  create_time :: u64

definition new_Item :: Item where
  "new_Item = \<lparr>item_id = 0, host_id = 0, item_key = [], value_type = 0, units = [], interval_sec = 0,
           status = 0, create_time = 0\<rparr>"

definition item_setItemId :: "u64 \<Rightarrow> Item \<Rightarrow> Item" where "item_setItemId v i = i\<lparr>item_id := v\<rparr>"
definition item_setHostId :: "u64 \<Rightarrow> Item \<Rightarrow> Item" where "item_setHostId v i = i\<lparr>host_id := v\<rparr>"
definition setItemKey :: "string \<Rightarrow> Item \<Rightarrow> Item" where "setItemKey v i = i\<lparr>item_key := v\<rparr>"
definition setValueType :: "8 word \<Rightarrow> Item \<Rightarrow> Item" where "setValueType v i = i\<lparr>value_type := v\<rparr>"
definition setUnits :: "string \<Rightarrow> Item \<Rightarrow> Item" where "setUnits v i = i\<lparr>units := v\<rparr>"
definition setIntervalSec :: "32 word \<Rightarrow> Item \<Rightarrow> Item" where "setIntervalSec v i = i\<lparr>interval_sec := v\<rparr>"
definition item_setStatus :: "8 word \<Rightarrow> Item \<Rightarrow> Item" where "item_setStatus v i = i\<lparr>status := v\<rparr>"
definition item_setCreateTime :: "u64 \<Rightarrow> Item \<Rightarrow> Item" where "item_setCreateTime v i = i\<lparr>create_time := v\<rparr>"

record 't History =
  itemid :: u64
  clock :: u64
  hvalue :: 't
  ns :: "32 word"

text \<open>\<open>zero\<close> is \<open>T()\<close>.\<close>

definition new_History :: "'t \<Rightarrow> 't History" where
  "new_History zero = \<lparr>itemid = 0, clock = 0, hvalue = zero, ns = 0\<rparr>"

definition hist_setItemId :: "u64 \<Rightarrow> 't History \<Rightarrow> 't History" where "hist_setItemId v h = h\<lparr>itemid := v\<rparr>"
definition setClock :: "u64 \<Rightarrow> 't History \<Rightarrow> 't History" where "setClock v h = h\<lparr>clock := v\<rparr>"
definition setValue :: "'t \<Rightarrow> 't History \<Rightarrow> 't History" where "setValue v h = h\<lparr>hvalue := v\<rparr>"
definition setNs :: "32 word \<Rightarrow> 't History \<Rightarrow> 't History" where "setNs v h = h\<lparr>ns := v\<rparr>"

subsection \<open>Accessor contract\<close>

locale accessor =
  fixes get :: "'s \<Rightarrow> 'v" and put :: "'v \<Rightarrow> 's \<Rightarrow> 's"
  assumes get_put: "get (put v s) = v"
    and put_get: "put (get s) s = s"
    and put_put: "put v (put w s) = put v s"
begin

lemma put_injective: "put v s = put w s \<longleftrightarrow> v = w"
  using get_put by metis

lemma put_same_iff: "put v s = s \<longleftrightarrow> get s = v"
  using get_put put_get by metis

lemma last_put: "vs \<noteq> [] \<Longrightarrow> fold put vs s = put (last vs) s"
  by (induction vs arbitrary: s) (auto simp: put_put)

end

interpretation host_id_acc: accessor h_host_id setHostId by unfold_locales (simp_all add: setHostId_def)
interpretation host_name_acc: accessor host_name setHostName by unfold_locales (simp_all add: setHostName_def)
interpretation host_ip_acc: accessor ip setIp by unfold_locales (simp_all add: setIp_def)
interpretation host_status_acc: accessor h_status setStatus by unfold_locales (simp_all add: setStatus_def)
interpretation host_time_acc: accessor h_create_time setCreateTime by unfold_locales (simp_all add: setCreateTime_def)
interpretation item_id_acc: accessor item_id item_setItemId by unfold_locales (simp_all add: item_setItemId_def)
interpretation item_host_acc: accessor host_id item_setHostId by unfold_locales (simp_all add: item_setHostId_def)
interpretation item_key_acc: accessor item_key setItemKey by unfold_locales (simp_all add: setItemKey_def)
interpretation item_type_acc: accessor value_type setValueType by unfold_locales (simp_all add: setValueType_def)
interpretation item_units_acc: accessor units setUnits by unfold_locales (simp_all add: setUnits_def)
interpretation item_interval_acc: accessor interval_sec setIntervalSec by unfold_locales (simp_all add: setIntervalSec_def)
interpretation item_status_acc: accessor status item_setStatus by unfold_locales (simp_all add: item_setStatus_def)
interpretation item_time_acc: accessor create_time item_setCreateTime by unfold_locales (simp_all add: item_setCreateTime_def)
interpretation hist_id_acc: accessor itemid hist_setItemId by unfold_locales (simp_all add: hist_setItemId_def)
interpretation hist_clock_acc: accessor clock setClock by unfold_locales (simp_all add: setClock_def)
interpretation hist_value_acc: accessor hvalue setValue by unfold_locales (simp_all add: setValue_def)
interpretation hist_ns_acc: accessor ns setNs by unfold_locales (simp_all add: setNs_def)

subsection \<open>Building a value by setters\<close>

lemmas item_setters = item_setItemId_def item_setHostId_def setItemKey_def setValueType_def
  setUnits_def setIntervalSec_def item_setStatus_def item_setCreateTime_def

lemmas host_setters = setHostId_def setHostName_def setIp_def setStatus_def setCreateTime_def

lemmas history_setters = hist_setItemId_def setClock_def setValue_def setNs_def

text \<open>
  The eight setters of \<open>Item\<close> reach eight different fields: every item is obtained from
  any other, the default one included, by calling each setter once with the values wanted.
\<close>

theorem item_built_by_setters:
  "item_setItemId (item_id x) (item_setHostId (host_id x) (setItemKey (item_key x)
     (setValueType (value_type x) (setUnits (units x) (setIntervalSec (interval_sec x)
     (item_setStatus (status x) (item_setCreateTime (create_time x) y))))))) = (x :: Item)"
  by (simp add: item_setters)

end
