(* ===== verification/Varint.thy ===== *)
theory Varint
  imports Prelude
begin

section \<open>Varints and their sizes\<close>

text \<open>
  Varint encoding as the vendored \<open>io/coded_stream.h\<close> does it, and the branch-free size computation
  of \<open>coded_stream.h\<close> and \<open>stubs/port.h\<close>.
\<close>

subsection \<open>Writing varints\<close>

lemma unat_drop_bit_7: "unat (drop_bit 7 v :: 'a::len word) = unat v div 128"
  by (simp only: unat_drop_bit_eq) (simp add: drop_bit_eq_div)

function UnsafeVarint :: "u64 \<Rightarrow> byte list" where
  "UnsafeVarint v =
     (if v < 0x80 then [ucast v] else (ucast v OR 0x80) # UnsafeVarint (drop_bit 7 v))"
  by pat_completeness auto
termination
proof (relation "measure unat")
  fix v :: u64
  assume "\<not> v < 0x80"
  then have "128 \<le> unat v"
    by (simp add: word_less_nat_alt)
  then have "unat v div 128 < unat v"
    by simp
  then show "(drop_bit 7 v, v) \<in> measure unat"
    by (simp only: in_measure unat_drop_bit_7)
qed simp

declare UnsafeVarint.simps [simp del]

text \<open>The same on natural numbers: seven bits at a time, low ones first.\<close>

fun venc :: "nat \<Rightarrow> byte list" where
  "venc n = (if n < 128 then [of_nat n] else of_nat (n mod 128 + 128) # venc (n div 128))"

declare venc.simps [simp del]

lemma bit_80: "bit (0x80 :: byte) i \<longleftrightarrow> i = 7"
proof -
  have "(0x80 :: byte) = push_bit 7 1"
    by simp
  then show ?thesis
    by (simp only: bit_push_bit_iff) (auto simp: bit_1_iff)
qed

lemma unat_ucast_8: "unat (ucast v :: byte) = unat (v :: 'a::len word) mod 256"
  by (simp add: unsigned_ucast_eq take_bit_eq_mod)

lemma low_byte_cont: "(ucast v OR 0x80 :: byte) = of_nat (unat (v :: u64) mod 128 + 128)"
proof -
  let ?b = "ucast v :: byte"
  have "?b OR 0x80 = take_bit 7 ?b OR 0x80"
  proof (rule bit_word_eqI)
    fix n assume "n < LENGTH(8)"
    then have "n = 7 \<or> n < 7" by auto
    then show "bit (?b OR 0x80) n = bit (take_bit 7 ?b OR 0x80) n"
      unfolding bit_or_iff bit_take_bit_iff bit_80 by auto
  qed
  also have "\<dots> = take_bit 7 ?b + 0x80"
    by (rule disjunctive_add [symmetric]) (unfold bit_80 bit_take_bit_iff, simp)
  also have "take_bit 7 ?b = of_nat (unat v mod 128)"
  proof -
    have "unat (take_bit 7 ?b) = take_bit 7 (unat v mod 256)"
      by (simp only: unsigned_take_bit_eq unat_ucast_8)
    also have "\<dots> = unat v mod 128"
      by (simp add: take_bit_eq_mod mod_mod_cancel)
    finally have "of_nat (unat (take_bit 7 ?b)) = (of_nat (unat v mod 128) :: byte)"
      by (rule arg_cong)
    then show ?thesis
      by (simp only: of_nat_unat ucast_id)
  qed
  finally show ?thesis by simp
qed

lemma ucast_of_unat: "(ucast v :: 'b::len word) = of_nat (unat (v :: 'a::len word))"
  by simp

lemma UnsafeVarint_venc: "UnsafeVarint v = venc (unat v)"
proof (induction v rule: UnsafeVarint.induct)
  case (1 v)
  show ?case
  proof (cases "v < 0x80")
    case True
    then have "unat v < 128" by (simp add: word_less_nat_alt)
    then show ?thesis
      unfolding UnsafeVarint.simps [of v] venc.simps [of "unat v"] using True
      by (simp only: if_True) (rule arg_cong [OF ucast_of_unat])
  next
    case False
    have "\<not> unat v < 128" using False by (simp add: word_less_nat_alt)
    then show ?thesis
      unfolding UnsafeVarint.simps [of v] venc.simps [of "unat v"] using False 1 [OF False]
      by (simp only: if_False low_byte_cont unat_drop_bit_7)
  qed
qed

lemma venc_not_Nil [simp]: "venc n \<noteq> []"
  by (subst venc.simps) simp

lemma venc_small: "n < 128 \<Longrightarrow> venc n = [of_nat n]"
  by (simp add: venc.simps)

subsection \<open>Sizes of varints\<close>

text \<open>\<open>Bits::Log2FloorNonZero\<close>, as its portable version computes it, by halving shifts.\<close>

definition log2_step :: "nat \<Rightarrow> nat \<times> u32 \<Rightarrow> nat \<times> u32" where
  "log2_step i s =
     (case s of (log, value) \<Rightarrow>
        (let shift = 2 ^ i; x = drop_bit shift value in
         if x \<noteq> 0 then (log + shift, x) else (log, value)))"

definition Log2FloorNonZero :: "u32 \<Rightarrow> nat" where
  "Log2FloorNonZero n = fst (fold log2_step [4, 3, 2, 1, 0] (0, n))"

definition Log2FloorNonZero64 :: "u64 \<Rightarrow> nat" where
  "Log2FloorNonZero64 n =
     (let topbits = ucast (drop_bit 32 n) :: u32 in
      if topbits = 0 then Log2FloorNonZero (ucast n) else 32 + Log2FloorNonZero topbits)"

definition VarintSize32 :: "u32 \<Rightarrow> nat" where
  "VarintSize32 v = (let log2value = Log2FloorNonZero (v OR 1) in (log2value * 9 + 73) div 64)"

definition VarintSize64 :: "u64 \<Rightarrow> nat" where
  "VarintSize64 v = (let log2value = Log2FloorNonZero64 (v OR 1) in (log2value * 9 + 73) div 64)"

definition VarintSize64PlusOne :: "u64 \<Rightarrow> nat" where
  "VarintSize64PlusOne v =
     (let log2value = Log2FloorNonZero64 (v OR 1) in (log2value * 9 + 73 + 64) div 64)"

definition log2_inv :: "u32 \<Rightarrow> nat \<Rightarrow> nat \<times> u32 \<Rightarrow> bool" where
  "log2_inv n i s \<longleftrightarrow>
     unat (snd s) = unat n div 2 ^ fst s \<and> snd s \<noteq> 0 \<and> unat (snd s) < 2 ^ (2 ^ i)"

lemma unat_drop_bit: "unat (drop_bit k v :: 'a::len word) = unat v div 2 ^ k"
  by (simp only: unat_drop_bit_eq) (simp add: drop_bit_eq_div)

lemma unat_lt: "unat (w :: 'a::len word) < 2 ^ LENGTH('a)"
  by (rule unsigned_less)

lemma log2_step_inv:
  assumes "log2_inv n (Suc i) s"
  shows "log2_inv n i (log2_step i s)"
proof -
  obtain l v where s: "s = (l, v)" by (cases s)
  have inv: "unat v = unat n div 2 ^ l" "v \<noteq> 0" "unat v < 2 ^ (2 ^ i + 2 ^ i)"
    using assms by (simp_all add: log2_inv_def s mult_2)
  let ?x = "drop_bit (2 ^ i) v"
  have x: "unat ?x = unat v div 2 ^ (2 ^ i)"
    by (rule unat_drop_bit)
  show ?thesis
  proof (cases "?x = 0")
    case True
    then have "unat v div 2 ^ (2 ^ i) = 0"
      using x by simp
    then have "unat v < 2 ^ (2 ^ i)"
      by (simp add: div_eq_0_iff)
    then show ?thesis
      using True inv by (simp add: log2_inv_def log2_step_def s Let_def)
  next
    case False
    have "unat ?x < 2 ^ (2 ^ i)"
      using inv(3) x by (simp add: less_mult_imp_div_less power_add)
    moreover have "unat ?x = unat n div 2 ^ (l + 2 ^ i)"
      using x inv(1) by (simp add: power_add div_mult2_eq)
    ultimately show ?thesis
      using False by (simp add: log2_inv_def log2_step_def s Let_def)
  qed
qed

lemma bits_order: "rev [0..<5] = [4, 3, 2, 1, 0 :: nat]"
  by code_simp

lemma log2_fold_inv: "log2_inv n k s \<Longrightarrow> log2_inv n 0 (fold log2_step (rev [0..<k]) s)"
  by (induction k arbitrary: s) (simp_all add: log2_step_inv)

definition is_log2 :: "nat \<Rightarrow> nat \<Rightarrow> bool" where
  "is_log2 l n \<longleftrightarrow> 2 ^ l \<le> n \<and> n < 2 ^ Suc l"

lemma is_log2_div:
  assumes "n div 2 ^ l = 1"
  shows "is_log2 l n"
proof -
  have "n = 2 ^ l + n mod 2 ^ l"
    using div_mult_mod_eq [of n "2 ^ l"] assms by simp
  moreover have "n mod 2 ^ l < 2 ^ l"
    by simp
  ultimately show ?thesis
    unfolding is_log2_def power_Suc by linarith
qed

lemma is_log2_div_one:
  assumes "is_log2 l n"
  shows "n div 2 ^ l = 1"
  using assms by (intro div_nat_eqI) (simp_all add: is_log2_def)

lemma is_log2_bound: "is_log2 l n \<Longrightarrow> n < 2 ^ k \<Longrightarrow> l < k"
  unfolding is_log2_def by (meson order_le_less_trans power_less_imp_less_exp one_less_numeral_iff semiring_norm(76))

lemma Log2FloorNonZero_log2:
  assumes "n \<noteq> 0"
  shows "is_log2 (Log2FloorNonZero n) (unat n)"
proof -
  have "log2_inv n 5 (0, n)"
    using assms unat_lt [of n] by (simp add: log2_inv_def)
  from log2_fold_inv [OF this] have e: "log2_inv n 0 (fold log2_step [4, 3, 2, 1, 0] (0, n))"
    by (simp only: bits_order)
  obtain l v where s: "fold log2_step [4, 3, 2, 1, 0] (0, n) = (l, v)"
    by (cases "fold log2_step [4, 3, 2, 1, 0] (0, n)") simp
  have "v \<noteq> 0" "unat v < 2" "unat v = unat n div 2 ^ l"
    using e unfolding s by (simp_all add: log2_inv_def)
  then have "unat n div 2 ^ l = 1"
    by (metis less_2_cases unsigned_eq_0_iff One_nat_def)
  then show ?thesis
    unfolding Log2FloorNonZero_def s fst_conv by (rule is_log2_div)
qed

lemma Log2FloorNonZero64_log2:
  assumes "n \<noteq> 0"
  shows "is_log2 (Log2FloorNonZero64 n) (unat n)"
proof -
  let ?top = "ucast (drop_bit 32 n) :: u32"
  have lt: "unat n div 2 ^ 32 < 2 ^ 32"
    using unat_lt [of n] by (simp add: less_mult_imp_div_less)
  then have top: "unat ?top = unat n div 2 ^ 32"
    by (simp only: unsigned_ucast_eq unat_drop_bit) (simp add: take_bit_eq_mod)
  show ?thesis
  proof (cases "?top = 0")
    case True
    then have small: "unat n < 2 ^ 32"
      using top by (simp add: div_eq_0_iff)
    then have low: "unat (ucast n :: u32) = unat n"
      by (simp add: unsigned_ucast_eq take_bit_eq_mod)
    then have "(ucast n :: u32) \<noteq> 0"
      using assms by (metis unsigned_0 unsigned_eq_0_iff)
    from Log2FloorNonZero_log2 [OF this] show ?thesis
      using True low by (simp add: Log2FloorNonZero64_def Let_def)
  next
    case False
    have "is_log2 (Log2FloorNonZero ?top) (unat n div 2 ^ 32)"
      using Log2FloorNonZero_log2 [OF False] top by simp
    then have "unat n div 2 ^ 32 div 2 ^ Log2FloorNonZero ?top = 1"
      by (rule is_log2_div_one)
    then have "unat n div 2 ^ (32 + Log2FloorNonZero ?top) = 1"
      by (simp only: div_mult2_eq [symmetric] power_add)
    then show ?thesis
      using False by (simp add: Log2FloorNonZero64_def Let_def is_log2_div)
  qed
qed

lemma length_venc_log2:
  "is_log2 l n \<Longrightarrow> length (venc n) = l div 7 + 1"
proof (induction n arbitrary: l rule: venc.induct)
  case (1 n)
  have b: "2 ^ l \<le> n" "n < 2 ^ Suc l"
    using "1.prems" by (simp_all only: is_log2_def)
  show ?case
  proof (cases "n < 128")
    case True
    then have "(2 :: nat) ^ l < 2 ^ 7"
      using b(1) by simp
    then have "l < 7"
      by (simp only: power_strict_increasing_iff [of 2 l 7] one_less_numeral_iff semiring_norm)
    then show ?thesis
      using True by (simp add: venc_small)
  next
    case False
    then have "(2 :: nat) ^ 7 < 2 ^ Suc l"
      using b(2) by simp
    then have "7 < Suc l"
      by (rule power_less_imp_less_exp [rotated]) simp
    then have l: "7 \<le> l"
      by simp
    then obtain k where k: "l = 7 + k"
      using le_Suc_ex by blast
    have "is_log2 k (n div 128)"
    proof (rule is_log2_div)
      have "n div 2 ^ l = 1"
        by (rule is_log2_div_one [OF "1.prems"])
      then show "n div 128 div 2 ^ k = 1"
        by (simp add: k power_add div_mult2_eq)
    qed
    from "1.IH" [OF False this] show ?thesis
      using False by (simp add: venc.simps [of n] k)
  qed
qed

lemma log2_or_1:
  assumes "is_log2 l (unat (v OR 1 :: 'a::len word))"
  shows "length (venc (unat v)) = l div 7 + 1"
proof (cases "v = 0")
  case True
  then have "l = 0"
    using is_log2_bound [OF assms, of 1] by simp
  then show ?thesis
    using True by (simp add: venc_small)
next
  case False
  have o: "unat (v OR 1) = unat v OR 1"
    by (simp add: unsigned_or_eq)
  have "is_log2 l (unat v)"
  proof (cases "even (unat v)")
    case True
    then have "unat v OR 1 = Suc (unat v)"
      by (simp only: or_one_eq) simp
    then have b: "2 ^ l \<le> Suc (unat v)" "Suc (unat v) < 2 ^ Suc l"
      using assms o by (simp_all add: is_log2_def)
    have "2 ^ l \<noteq> Suc (unat v)"
    proof
      assume e: "2 ^ l = Suc (unat v)"
      then have "odd ((2 :: nat) ^ l)"
        using True by simp
      then have "l = 0"
        by (simp add: even_power)
      then show False
        using e False by (simp add: unsigned_eq_0_iff)
    qed
    then show ?thesis
      using b by (simp add: is_log2_def)
  next
    case odd: False
    then have "unat v OR 1 = unat v"
      by (simp only: or_one_eq) simp
    then show ?thesis
      using assms o by simp
  qed
  then show ?thesis
    by (rule length_venc_log2)
qed

lemma nine_for_seven:
  assumes "l < 64"
  shows "(l * 9 + 73) div 64 = l div 7 + (1 :: nat)"
proof -
  have "list_all (\<lambda>l. (l * 9 + 73) div 64 = l div 7 + (1 :: nat)) [0..<64]"
    by code_simp
  then show ?thesis
    using assms by (simp add: list_all_iff)
qed

lemma or_1_nonzero: "(v OR 1 :: 'a::len word) \<noteq> 0"
proof
  assume "(v OR 1 :: 'a word) = 0"
  then have "bit (v OR 1 :: 'a word) 0 = bit (0 :: 'a word) 0"
    by simp
  then show False
    by (simp add: bit_or_iff bit_1_iff)
qed

text \<open>
  The size computation without a loop, a multiplication by 9 and a shift of the position of
  the highest bit, is exactly the number of bytes the encoder writes, for every 64-bit value.
\<close>

theorem VarintSize64_exact: "VarintSize64 v = length (UnsafeVarint v)"
proof -
  have l: "is_log2 (Log2FloorNonZero64 (v OR 1)) (unat (v OR 1))"
    by (rule Log2FloorNonZero64_log2 [OF or_1_nonzero])
  have "Log2FloorNonZero64 (v OR 1) < 64"
    using is_log2_bound [OF l, of 64] unat_lt [of "v OR 1"] by simp
  then show ?thesis
    using log2_or_1 [OF l] by (simp add: VarintSize64_def Let_def nine_for_seven UnsafeVarint_venc)
qed

lemma VarintSize64_length: "VarintSize64 v = length (venc (unat v))"
  using UnsafeVarint_venc [of v] nine_for_seven
    log2_or_1 [OF Log2FloorNonZero64_log2 [OF or_1_nonzero]]
    is_log2_bound [OF Log2FloorNonZero64_log2 [OF or_1_nonzero], of v 64]
    unat_lt [of "v OR 1"]
  by (simp add: VarintSize64_def Let_def)

lemma VarintSize64PlusOne_length: "VarintSize64PlusOne v = Suc (length (venc (unat v)))"
proof -
  have "VarintSize64PlusOne v = Suc (VarintSize64 v)"
    by (simp add: VarintSize64PlusOne_def VarintSize64_def Let_def)
  then show ?thesis
    by (simp add: VarintSize64_length)
qed

lemma VarintSize32_length: "VarintSize32 v = length (venc (unat v))"
proof -
  have l: "is_log2 (Log2FloorNonZero (v OR 1)) (unat (v OR 1))"
    by (rule Log2FloorNonZero_log2 [OF or_1_nonzero])
  have "Log2FloorNonZero (v OR 1) < 64"
    using is_log2_bound [OF l, of 32] unat_lt [of "v OR 1"] by simp
  then show ?thesis
    using log2_or_1 [OF l] by (simp add: VarintSize32_def Let_def nine_for_seven)
qed

lemma length_venc_le: "n < 128 ^ Suc k \<Longrightarrow> length (venc n) \<le> Suc k"
proof (induction k arbitrary: n)
  case 0
  then show ?case by (simp add: venc_small)
next
  case (Suc k)
  then have "n div 128 < 128 ^ Suc k"
    by (simp add: less_mult_imp_div_less mult.commute)
  from Suc.IH [OF this] show ?case
    by (cases "n < 128") (simp add: venc_small, simp only: venc.simps [of n] if_False list.size)
qed

lemma length_venc_u64: "length (venc (unat (v :: u64))) \<le> 10"
proof -
  have "unat v < 2 ^ 64"
    using unat_lt [of v] by simp
  then show ?thesis
    using length_venc_le [of "unat v" 9] by simp
qed

end
