(* ===== verification/Wire_Format.thy ===== *)
theory Wire_Format
  imports Varint
begin

section \<open>The protobuf wire format: fields and the parse loop\<close>

text \<open>
  The routines of the vendored protobuf headers (\<open>thirdpart/include/google/protobuf\<close>) that the
  generated messages of \<open>include/proto\<close> are made of: decoding and the parse loop (\<open>parse_context.h\<close>),
  the writers and the sizes (\<open>wire_format_lite.h\<close>). What these headers only declare, because it is
  compiled into the library, is a parameter: the record \<open>pb_lib\<close>.
\<close>

subsection \<open>The library's compiled part\<close>

text \<open>
  Only declared in the headers: the slow paths of varint, tag and size decoding, string parsing and
  checking, unknown fields (the set of a message is a \<open>'u\<close>), and the writers for long strings and
  for sub-messages. \<open>room\<close> tells whether the output stream's buffer has space for a short string.
  A parser returns \<open>None\<close> for the null pointer, else its value and the rest of the input.
\<close>

type_synonym 'a parse = "('a \<times> byte list) option"

record 'u pb_lib =
  VarintParseSlow32 :: "byte list \<Rightarrow> u32 \<Rightarrow> u32 parse"
  VarintParseSlow64 :: "byte list \<Rightarrow> u32 \<Rightarrow> u64 parse"
  ReadTagFallback :: "byte list \<Rightarrow> u32 \<Rightarrow> u32 parse"
  ReadSizeFallback :: "byte list \<Rightarrow> u32 \<Rightarrow> u32 parse"
  InlineGreedyStringParser :: "byte list \<Rightarrow> byte list parse"
  VerifyUTF8 :: "byte list \<Rightarrow> bool"
  UnknownFieldParse :: "u32 \<Rightarrow> 'u \<Rightarrow> byte list \<Rightarrow> 'u parse"
  unknown_none :: 'u
  have_unknown_fields :: "'u \<Rightarrow> bool"
  SerializeUnknownFields :: "'u \<Rightarrow> byte list"
  ComputeUnknownFieldsSize :: "'u \<Rightarrow> nat"
  MergeUnknown :: "'u \<Rightarrow> 'u \<Rightarrow> 'u"
  room :: "byte list \<Rightarrow> bool"
  WriteStringOutline :: "u32 \<Rightarrow> byte list \<Rightarrow> byte list"
  InternalWriteMessage :: "u32 \<Rightarrow> nat \<Rightarrow> byte list \<Rightarrow> byte list"

subsection \<open>Reading\<close>

definition two_bytes :: "byte \<Rightarrow> byte \<Rightarrow> u32" where
  "two_bytes b0 b1 = ucast b0 + push_bit 7 (ucast b1 - 1)"

definition VarintParse64 :: "'u pb_lib \<Rightarrow> byte list \<Rightarrow> u64 parse" where
  "VarintParse64 lib p =
     (case p of
        [] \<Rightarrow> None
      | b0 # p1 \<Rightarrow>
          if b0 AND 0x80 = 0 then Some (ucast b0, p1)
          else (case p1 of
                  [] \<Rightarrow> None
                | b1 # p2 \<Rightarrow>
                    if b1 AND 0x80 = 0 then Some (ucast (two_bytes b0 b1), p2)
                    else VarintParseSlow64 lib p (two_bytes b0 b1)))"

definition VarintParse32 :: "'u pb_lib \<Rightarrow> byte list \<Rightarrow> u32 parse" where
  "VarintParse32 lib p =
     (case p of
        [] \<Rightarrow> None
      | b0 # p1 \<Rightarrow>
          if b0 AND 0x80 = 0 then Some (ucast b0, p1)
          else (case p1 of
                  [] \<Rightarrow> None
                | b1 # p2 \<Rightarrow>
                    if b1 AND 0x80 = 0 then Some (two_bytes b0 b1, p2)
                    else VarintParseSlow32 lib p (two_bytes b0 b1)))"

definition ReadVarint64 :: "'u pb_lib \<Rightarrow> byte list \<Rightarrow> u64 parse" where
  "ReadVarint64 lib p = VarintParse64 lib p"

definition ReadVarint32 :: "'u pb_lib \<Rightarrow> byte list \<Rightarrow> u32 parse" where
  "ReadVarint32 lib p = VarintParse32 lib p"

definition ReadTag :: "'u pb_lib \<Rightarrow> byte list \<Rightarrow> u32 parse" where
  "ReadTag lib p =
     (case p of
        [] \<Rightarrow> None
      | b0 # p1 \<Rightarrow>
          if b0 < 128 then Some (ucast b0, p1)
          else (case p1 of
                  [] \<Rightarrow> None
                | b1 # p2 \<Rightarrow>
                    if b1 < 128 then Some (two_bytes b0 b1, p2)
                    else ReadTagFallback lib p (two_bytes b0 b1)))"

definition ReadSize :: "'u pb_lib \<Rightarrow> byte list \<Rightarrow> u32 parse" where
  "ReadSize lib p =
     (case p of
        [] \<Rightarrow> None
      | b0 # p1 \<Rightarrow> if b0 < 128 then Some (ucast b0, p1) else ReadSizeFallback lib p (ucast b0))"

text \<open>\<open>UnalignedLoad<double>\<close>: a double is its 64-bit pattern, little-endian on the wire.\<close>

definition UnalignedLoad64 :: "byte list \<Rightarrow> u64 parse" where
  "UnalignedLoad64 p = (if length p < 8 then None else Some (le_value (take 8 p), drop 8 p))"

subsection \<open>The parse loop\<close>

text \<open>
  How a message parser ends: at the limit, at a tag 0 or an end-group tag (\<open>SetLastTag\<close>), or with the
  null pointer. One field: parsed, failed, or left to \<open>handle_unusual\<close>.
\<close>

datatype 'm parse_end = AtLimit 'm | AtTag 'm u32 "byte list" | Failure

datatype 'm field_result = Parsed 'm "byte list" | Failed | Unusual

text \<open>
  The loop shared by the generated parsers, with their \<open>switch\<close> as a parameter; \<open>get_u\<close> and \<open>put_u\<close>
  access the unknown fields. Each round reads at least a tag, so the input's length bounds the
  rounds.
\<close>

primrec parse_loop ::
  "'u pb_lib \<Rightarrow> ('m \<Rightarrow> 'u) \<Rightarrow> ('u \<Rightarrow> 'm \<Rightarrow> 'm) \<Rightarrow> (u32 \<Rightarrow> 'm \<Rightarrow> byte list \<Rightarrow> 'm field_result) \<Rightarrow>
   nat \<Rightarrow> byte list \<Rightarrow> 'm \<Rightarrow> 'm parse_end"
where
  "parse_loop lib get_u put_u switch 0 p m = Failure"
| "parse_loop lib get_u put_u switch (Suc n) p m =
     (if p = [] then AtLimit m
      else (case ReadTag lib p of
              None \<Rightarrow> Failure
            | Some (tag, p1) \<Rightarrow>
                (case switch tag m p1 of
                   Parsed m1 p2 \<Rightarrow> parse_loop lib get_u put_u switch n p2 m1
                 | Failed \<Rightarrow> Failure
                 | Unusual \<Rightarrow>
                     if tag = 0 \<or> tag AND 7 = 4 then AtTag m tag p1
                     else (case UnknownFieldParse lib tag (get_u m) p1 of
                             None \<Rightarrow> Failure
                           | Some (u, p2) \<Rightarrow> parse_loop lib get_u put_u switch n p2 (put_u u m)))))"

text \<open>\<open>case k: if (static_cast<uint8_t>(tag) == b) ... else goto handle_unusual;\<close>\<close>

definition tag_is :: "byte \<Rightarrow> u32 \<Rightarrow> bool" where
  "tag_is b tag \<longleftrightarrow> (ucast tag :: byte) = b"

definition parse_string ::
  "'u pb_lib \<Rightarrow> (byte list \<Rightarrow> 'm \<Rightarrow> 'm) \<Rightarrow> 'm \<Rightarrow> byte list \<Rightarrow> 'm field_result" where
  "parse_string lib upd m p =
     (case InlineGreedyStringParser lib p of
        None \<Rightarrow> Failed
      | Some (s, p1) \<Rightarrow> if VerifyUTF8 lib s then Parsed (upd s m) p1 else Failed)"

definition parse_int32 :: "'u pb_lib \<Rightarrow> (u32 \<Rightarrow> 'm \<Rightarrow> 'm) \<Rightarrow> 'm \<Rightarrow> byte list \<Rightarrow> 'm field_result" where
  "parse_int32 lib upd m p =
     (case ReadVarint32 lib p of None \<Rightarrow> Failed | Some (v, p1) \<Rightarrow> Parsed (upd v m) p1)"

definition parse_int64 :: "'u pb_lib \<Rightarrow> (u64 \<Rightarrow> 'm \<Rightarrow> 'm) \<Rightarrow> 'm \<Rightarrow> byte list \<Rightarrow> 'm field_result" where
  "parse_int64 lib upd m p =
     (case ReadVarint64 lib p of None \<Rightarrow> Failed | Some (v, p1) \<Rightarrow> Parsed (upd v m) p1)"

definition parse_double :: "(u64 \<Rightarrow> 'm \<Rightarrow> 'm) \<Rightarrow> 'm \<Rightarrow> byte list \<Rightarrow> 'm field_result" where
  "parse_double upd m p =
     (case UnalignedLoad64 p of None \<Rightarrow> Failed | Some (v, p1) \<Rightarrow> Parsed (upd v m) p1)"

text \<open>
  \<open>ParseContext::ParseMessage\<close>: the size, and the sub-message's parser on exactly that many bytes; it
  must end at its limit. \<open>parse_msgs\<close> is the generated \<open>do ... while\<close> over consecutive elements, whose
  one-byte tag is \<open>b\<close>; every element takes at least its size byte.
\<close>

definition ParseMessage ::
  "'u pb_lib \<Rightarrow> (byte list \<Rightarrow> 'e \<Rightarrow> 'e parse_end) \<Rightarrow> 'e \<Rightarrow> byte list \<Rightarrow> 'e parse" where
  "ParseMessage lib parse e p =
     (case ReadSize lib p of
        None \<Rightarrow> None
      | Some (len, p1) \<Rightarrow>
          if length p1 < unat len then None
          else (case parse (take (unat len) p1) e of
                  AtLimit e1 \<Rightarrow> Some (e1, drop (unat len) p1)
                | _ \<Rightarrow> None))"

primrec parse_msgs ::
  "(byte list \<Rightarrow> 'e parse) \<Rightarrow> ('e \<Rightarrow> 'm \<Rightarrow> 'm) \<Rightarrow> byte \<Rightarrow> nat \<Rightarrow> 'm \<Rightarrow> byte list \<Rightarrow> 'm field_result" where
  "parse_msgs parse add b 0 m p = Failed"
| "parse_msgs parse add b (Suc n) m p =
     (case parse p of
        None \<Rightarrow> Failed
      | Some (e, p1) \<Rightarrow>
          if p1 \<noteq> [] \<and> hd p1 = b then parse_msgs parse add b n (add e m) (tl p1)
          else Parsed (add e m) p1)"

subsection \<open>Writing\<close>

definition WriteTag :: "u32 \<Rightarrow> u32 \<Rightarrow> byte list" where
  "WriteTag num wt = UnsafeVarint (ucast (push_bit 3 num OR wt))"

definition WriteInt32ToArray :: "u32 \<Rightarrow> u32 \<Rightarrow> byte list" where
  "WriteInt32ToArray num v = WriteTag num 0 @ UnsafeVarint (scast v)"

definition WriteInt64ToArray :: "u32 \<Rightarrow> u64 \<Rightarrow> byte list" where
  "WriteInt64ToArray num v = WriteTag num 0 @ UnsafeVarint v"

definition WriteEnumToArray :: "u32 \<Rightarrow> u32 \<Rightarrow> byte list" where
  "WriteEnumToArray num v = WriteTag num 0 @ UnsafeVarint (scast v)"

definition WriteBoolToArray :: "u32 \<Rightarrow> bool \<Rightarrow> byte list" where
  "WriteBoolToArray num v = WriteTag num 0 @ UnsafeVarint (if v then 1 else 0)"

definition WriteDoubleToArray :: "u32 \<Rightarrow> u64 \<Rightarrow> byte list" where
  "WriteDoubleToArray num v = WriteTag num 1 @ le_bytes 8 v"

definition WriteStringMaybeAliased :: "'u pb_lib \<Rightarrow> u32 \<Rightarrow> byte list \<Rightarrow> byte list" where
  "WriteStringMaybeAliased lib num s =
     (if length s \<ge> 128 \<or> \<not> room lib s then WriteStringOutline lib num s
      else UnsafeVarint (ucast (push_bit 3 num OR 2)) @ [of_nat (length s)] @ s)"

subsection \<open>Sizes\<close>

definition LengthDelimitedSize :: "nat \<Rightarrow> nat" where
  "LengthDelimitedSize n = n + VarintSize32 (of_nat n)"

definition StringSize :: "byte list \<Rightarrow> nat" where
  "StringSize s = LengthDelimitedSize (length s)"

definition Int32SizePlusOne :: "u32 \<Rightarrow> nat" where
  "Int32SizePlusOne v = VarintSize64PlusOne (scast v)"

definition Int64SizePlusOne :: "u64 \<Rightarrow> nat" where
  "Int64SizePlusOne v = VarintSize64PlusOne v"

definition EnumSize :: "u32 \<Rightarrow> nat" where
  "EnumSize v = VarintSize64 (scast v)"

definition MaybeComputeUnknownFieldsSize :: "'u pb_lib \<Rightarrow> nat \<Rightarrow> 'u \<Rightarrow> nat" where
  "MaybeComputeUnknownFieldsSize lib n u =
     (if have_unknown_fields lib u then n + ComputeUnknownFieldsSize lib u else n)"

subsection \<open>What is relied on of the compiled part\<close>

text \<open>
  The wire format as documented: the slow paths decode what the encoder writes (the 32-bit one the
  low half of it), sizes and strings up to the library's 2 GiB limit are read back, the outlined
  writers write tag, size and content, and an empty set of unknown fields is one.
\<close>

definition pb_max :: nat where "pb_max = 2 ^ 31 - 16"

definition slow_ok :: "'u pb_lib \<Rightarrow> bool" where
  "slow_ok lib \<longleftrightarrow>
     (\<forall>v b0 b1 tl rest. UnsafeVarint v = b0 # b1 # tl \<and> tl \<noteq> [] \<longrightarrow>
        VarintParseSlow64 lib (UnsafeVarint v @ rest) (two_bytes b0 b1) = Some (v, rest)
        \<and> VarintParseSlow32 lib (UnsafeVarint v @ rest) (two_bytes b0 b1) = Some (ucast v, rest))"

definition sizes_ok :: "'u pb_lib \<Rightarrow> bool" where
  "sizes_ok lib \<longleftrightarrow>
     (\<forall>n rest. 128 \<le> n \<and> n < pb_max \<longrightarrow>
        ReadSizeFallback lib (UnsafeVarint (of_nat n) @ rest) (ucast (hd (UnsafeVarint (of_nat n))))
        = Some (of_nat n, rest))
     \<and> (\<forall>s rest. length s < pb_max \<longrightarrow>
          InlineGreedyStringParser lib (UnsafeVarint (of_nat (length s)) @ s @ rest) = Some (s, rest))"

definition writers_ok :: "'u pb_lib \<Rightarrow> bool" where
  "writers_ok lib \<longleftrightarrow>
     (\<forall>num s. WriteStringOutline lib num s = WriteTag num 2 @ UnsafeVarint (of_nat (length s)) @ s)
     \<and> (\<forall>num n body. InternalWriteMessage lib num n body = WriteTag num 2 @ UnsafeVarint (of_nat n) @ body)"

definition unknown_ok :: "'u pb_lib \<Rightarrow> bool" where
  "unknown_ok lib \<longleftrightarrow>
     \<not> have_unknown_fields lib (unknown_none lib) \<and> (\<forall>u. MergeUnknown lib u (unknown_none lib) = u)"

definition lib_ok :: "'u pb_lib \<Rightarrow> bool" where
  "lib_ok lib \<longleftrightarrow> slow_ok lib \<and> sizes_ok lib \<and> writers_ok lib \<and> unknown_ok lib"

subsection \<open>Reading back what was written\<close>

lemma byte_high_bit: "(b :: byte) AND 0x80 = 0 \<longleftrightarrow> unat b < 128"
proof -
  have "(b AND 0x80 = 0) = (\<not> bit b 7)"
  proof
    assume "b AND 0x80 = 0"
    then have "\<not> bit (b AND 0x80) 7" by simp
    then show "\<not> bit b 7" unfolding bit_and_iff bit_80 by simp
  next
    assume n: "\<not> bit b 7"
    show "b AND 0x80 = 0"
      by (rule bit_word_eqI) (use n in \<open>unfold bit_and_iff bit_80, auto\<close>)
  qed
  also have "bit b 7 = odd (unat b div 128)"
  proof -
    have "bit (unat b) 7 = bit b 7"
      by (simp only: bit_unsigned_iff) simp
    moreover have "bit (unat b) 7 = odd (unat b div 2 ^ 7)"
      by (rule bit_iff_odd)
    ultimately show ?thesis by simp
  qed
  also have "odd (unat b div 128) = (128 \<le> unat b)"
  proof -
    have "unat b < 2 ^ 8" using unat_lt [of b] by simp
    then have "unat b div 128 < 2" by simp
    then have "unat b div 128 = 0 \<or> unat b div 128 = 1" by auto
    moreover have "unat b div 128 = 0 \<longleftrightarrow> unat b < 128" by (simp add: div_eq_0_iff)
    ultimately show ?thesis by auto
  qed
  finally show ?thesis by auto
qed

lemma unat_of_byte: "n < 256 \<Longrightarrow> unat (of_nat n :: byte) = n"
  by (simp add: unat_of_nat)

lemma two_bytes_value:
  assumes "128 \<le> m" and "m < 16384"
  shows "two_bytes (of_nat (m mod 128 + 128)) (of_nat (m div 128)) = of_nat m"
proof -
  have u: "(ucast (of_nat k :: byte) :: u32) = of_nat k" if "k < 256" for k
    using that by (simp add: ucast_of_unat unat_of_byte)
  have d: "m div 128 < 256"
    using assms(2) by (simp add: less_mult_imp_div_less)
  have "two_bytes (of_nat (m mod 128 + 128)) (of_nat (m div 128))
        = (of_nat (m mod 128 + 128) :: u32) + (of_nat (m div 128) - 1) * 128"
    unfolding two_bytes_def by (simp only: u [OF d] u [of "m mod 128 + 128"]) (simp add: push_bit_eq_mult u)
  also have "\<dots> = of_nat (m mod 128) + of_nat (m div 128) * 128"
    by (simp only: of_nat_add of_nat_numeral) (simp add: algebra_simps)
  also have "\<dots> = of_nat m"
    by (metis mod_div_mult_eq of_nat_add of_nat_mult of_nat_numeral)
  finally show ?thesis .
qed

lemma venc_two:
  "128 \<le> n \<Longrightarrow> n < 16384 \<Longrightarrow> venc n = [of_nat (n mod 128 + 128), of_nat (n div 128)]"
  by (simp add: venc.simps [of n] venc_small less_mult_imp_div_less)

lemma venc_long:
  assumes "16384 \<le> n"
  shows "\<exists>tl. venc n = of_nat (n mod 128 + 128) # of_nat (n div 128 mod 128 + 128) # tl \<and> tl \<noteq> []"
proof -
  have "128 \<le> n div 128"
    using assms div_le_mono [of 16384 n 128] by simp
  then show ?thesis
    using assms by (simp add: venc.simps [of n] venc.simps [of "n div 128"])
qed

lemma high_bit_of_nat:
  "n < 128 \<Longrightarrow> (of_nat n :: byte) AND 0x80 = 0"
  "n < 128 \<Longrightarrow> (of_nat (n + 128) :: byte) AND 0x80 \<noteq> 0"
  by (simp_all only: byte_high_bit) (simp_all add: unat_of_byte del: of_nat_add)

lemma venc_cases:
  obtains (one) "n < 128" "venc n = [of_nat n]"
  | (two) "128 \<le> n" "n < 16384" "venc n = [of_nat (n mod 128 + 128), of_nat (n div 128)]"
  | (long) tl where "16384 \<le> n"
      "venc n = of_nat (n mod 128 + 128) # of_nat (n div 128 mod 128 + 128) # tl" "tl \<noteq> []"
  using venc_small [of n] venc_two [of n] venc_long [of n] by (meson not_le)

lemma ucast_small: "n < 256 \<Longrightarrow> (ucast (of_nat n :: byte) :: 'a::len word) = of_nat n"
  by (simp add: ucast_of_unat unat_of_byte)

lemma of_nat_unat_id: "of_nat (unat v) = (v :: 'a::len word)"
  by simp

lemma unat_of_u32: "n < 16384 \<Longrightarrow> unat (of_nat n :: u32) = n"
  by (simp add: unat_of_nat)

lemma VarintParse64_enc:
  assumes "slow_ok lib"
  shows "VarintParse64 lib (UnsafeVarint v @ rest) = Some (v, rest)"
proof (rule venc_cases [of "unat v"])
  assume "unat v < 128" "venc (unat v) = [of_nat (unat v)]"
  then show ?thesis
    unfolding UnsafeVarint_venc VarintParse64_def
    by (simp only: append_Cons append_Nil list.case high_bit_of_nat simp_thms if_True ucast_small of_nat_unat_id)
next
  assume v: "128 \<le> unat v" "unat v < 16384"
    and e: "venc (unat v) = [of_nat (unat v mod 128 + 128), of_nat (unat v div 128)]"
  have hb: "(of_nat (unat v mod 128 + 128) :: byte) AND 0x80 \<noteq> 0" "(of_nat (unat v div 128) :: byte) AND 0x80 = 0"
    using v(2) by (intro high_bit_of_nat; simp add: less_mult_imp_div_less)+
  have "(ucast (of_nat (unat v) :: u32) :: u64) = v"
    using v(2) by (simp only: ucast_of_unat unat_of_u32 of_nat_unat_id)
  then show ?thesis
    unfolding UnsafeVarint_venc VarintParse64_def e
    by (simp only: append_Cons append_Nil list.case hb simp_thms if_False if_True two_bytes_value [OF v])
next
  fix tl assume v: "16384 \<le> unat v"
    and e: "venc (unat v) = of_nat (unat v mod 128 + 128) # of_nat (unat v div 128 mod 128 + 128) # tl" "tl \<noteq> []"
  have "VarintParseSlow64 lib (UnsafeVarint v @ rest)
      (two_bytes (of_nat (unat v mod 128 + 128)) (of_nat (unat v div 128 mod 128 + 128))) = Some (v, rest)"
    using assms e unfolding slow_ok_def UnsafeVarint_venc by metis
  moreover have "(of_nat (unat v mod 128 + 128) :: byte) AND 0x80 \<noteq> 0"
    "(of_nat (unat v div 128 mod 128 + 128) :: byte) AND 0x80 \<noteq> 0"
    by (intro high_bit_of_nat; simp)+
  ultimately show ?thesis
    unfolding UnsafeVarint_venc VarintParse64_def e
    by (simp only: append_Cons append_Nil list.case if_False)
qed

lemma VarintParse32_enc:
  assumes "slow_ok lib"
  shows "VarintParse32 lib (UnsafeVarint v @ rest) = Some (ucast v, rest)"
proof (rule venc_cases [of "unat v"])
  assume v: "unat v < 128" "venc (unat v) = [of_nat (unat v)]"
  have "(ucast (of_nat (unat v) :: byte) :: u32) = ucast v"
    using v(1) by (simp only: ucast_small) (simp only: ucast_of_unat [of v])
  then show ?thesis
    unfolding UnsafeVarint_venc VarintParse32_def v(2)
    by (simp only: append_Cons append_Nil list.case high_bit_of_nat [OF v(1)] simp_thms if_True)
next
  assume v: "128 \<le> unat v" "unat v < 16384"
    and e: "venc (unat v) = [of_nat (unat v mod 128 + 128), of_nat (unat v div 128)]"
  have hb: "(of_nat (unat v mod 128 + 128) :: byte) AND 0x80 \<noteq> 0" "(of_nat (unat v div 128) :: byte) AND 0x80 = 0"
    using v(2) by (intro high_bit_of_nat; simp add: less_mult_imp_div_less)+
  show ?thesis
    unfolding UnsafeVarint_venc VarintParse32_def e
    by (simp only: append_Cons append_Nil list.case hb simp_thms if_False if_True two_bytes_value [OF v]
        ucast_of_unat [of v, symmetric])
next
  fix tl assume v: "16384 \<le> unat v"
    and e: "venc (unat v) = of_nat (unat v mod 128 + 128) # of_nat (unat v div 128 mod 128 + 128) # tl" "tl \<noteq> []"
  have "VarintParseSlow32 lib (UnsafeVarint v @ rest)
      (two_bytes (of_nat (unat v mod 128 + 128)) (of_nat (unat v div 128 mod 128 + 128))) = Some (ucast v, rest)"
    using assms e unfolding slow_ok_def UnsafeVarint_venc by metis
  moreover have "(of_nat (unat v mod 128 + 128) :: byte) AND 0x80 \<noteq> 0"
    "(of_nat (unat v div 128 mod 128 + 128) :: byte) AND 0x80 \<noteq> 0"
    by (intro high_bit_of_nat; simp)+
  ultimately show ?thesis
    unfolding UnsafeVarint_venc VarintParse32_def e
    by (simp only: append_Cons append_Nil list.case if_False)
qed

lemma ReadTag_small: "b < 128 \<Longrightarrow> ReadTag lib (b # rest) = Some (ucast b, rest)"
  by (simp add: ReadTag_def)

lemma ReadSize_enc:
  assumes "sizes_ok lib" and "n < pb_max"
  shows "ReadSize lib (UnsafeVarint (of_nat n) @ rest) = Some (of_nat n, rest)"
proof -
  have n: "n < 2 ^ 64"
    using assms(2) by (simp add: pb_max_def)
  then have u: "unat (of_nat n :: u64) = n"
    by (simp add: unat_of_nat)
  show ?thesis
  proof (cases "n < 128")
    case True
    have "(of_nat n :: byte) < 128"
      using True by (simp add: word_less_nat_alt unat_of_byte)
    then show ?thesis
      unfolding UnsafeVarint_venc u venc_small [OF True] ReadSize_def
      using True by (simp add: ucast_small del: ucast_of_unat)
  next
    case False
    then have "\<not> (of_nat (n mod 128 + 128) :: byte) < 128"
      by (simp only: word_less_nat_alt) (simp add: unat_of_byte del: of_nat_add)
    moreover have "venc n = of_nat (n mod 128 + 128) # venc (n div 128)"
      using False by (simp only: venc.simps [of n] if_False)
    moreover have "ReadSizeFallback lib (UnsafeVarint (of_nat n) @ rest) (ucast (hd (UnsafeVarint (of_nat n))))
        = Some (of_nat n, rest)"
      using assms False unfolding sizes_ok_def by simp
    ultimately show ?thesis
      unfolding UnsafeVarint_venc u ReadSize_def
      by (simp only: append_Cons list.case list.sel if_False)
  qed
qed

end
