(* ===== verification/Wire_Fields.thy ===== *)
theory Wire_Fields
  imports Wire_Format
begin

section \<open>Parsing what was serialized, field by field\<close>

text \<open>
  The lemmas the generated messages share. \<open>reads\<close> says that the parse loop consumes a piece of
  input and turns one message into another, whatever follows; pieces compose. Each kind of field
  has a lemma for its parser on its writer's output, and one for its size.
\<close>

definition reads ::
  "'u pb_lib \<Rightarrow> ('m \<Rightarrow> 'u) \<Rightarrow> ('u \<Rightarrow> 'm \<Rightarrow> 'm) \<Rightarrow> (u32 \<Rightarrow> 'm \<Rightarrow> byte list \<Rightarrow> 'm field_result) \<Rightarrow>
   byte list \<Rightarrow> 'm \<Rightarrow> 'm \<Rightarrow> bool" where
  "reads lib gu pu sw bs m m' \<longleftrightarrow>
     (\<exists>k \<le> length bs. \<forall>n rest. parse_loop lib gu pu sw (k + n) (bs @ rest) m = parse_loop lib gu pu sw n rest m')"

lemma reads_Nil: "reads lib gu pu sw [] m m"
  by (simp add: reads_def)

lemma reads_append:
  assumes "reads lib gu pu sw xs m m1" and "reads lib gu pu sw ys m1 m2"
  shows "reads lib gu pu sw (xs @ ys) m m2"
proof -
  obtain j where j: "j \<le> length xs"
    "\<And>n rest. parse_loop lib gu pu sw (j + n) (xs @ rest) m = parse_loop lib gu pu sw n rest m1"
    using assms(1) by (auto simp: reads_def)
  obtain k where k: "k \<le> length ys"
    "\<And>n rest. parse_loop lib gu pu sw (k + n) (ys @ rest) m1 = parse_loop lib gu pu sw n rest m2"
    using assms(2) by (auto simp: reads_def)
  have "parse_loop lib gu pu sw (j + k + n) ((xs @ ys) @ rest) m = parse_loop lib gu pu sw n rest m2" for n rest
    using j(2) [of "k + n" "ys @ rest"] k(2) [of n rest] by (simp add: add.assoc)
  then show ?thesis
    unfolding reads_def using j(1) k(1) by (intro exI [of _ "j + k"]) simp
qed

lemma reads_field:
  assumes "b < 128" and "\<And>rest. sw (ucast b) m (bs @ rest) = Parsed m' rest"
  shows "reads lib gu pu sw (b # bs) m m'"
  unfolding reads_def
  by (rule exI [of _ 1]) (simp add: ReadTag_small [OF assms(1)] assms(2))

lemma reads_tail:
  assumes "reads lib gu pu sw bs m m1" and "ys = [] \<Longrightarrow> m' = m1"
    and "\<And>n. ys \<noteq> [] \<Longrightarrow> parse_loop lib gu pu sw (Suc (Suc n)) ys m1 = AtLimit m'"
  shows "parse_loop lib gu pu sw (Suc (length (bs @ ys))) (bs @ ys) m = AtLimit m'"
proof -
  obtain k where k: "k \<le> length bs"
    "\<And>n rest. parse_loop lib gu pu sw (k + n) (bs @ rest) m = parse_loop lib gu pu sw n rest m1"
    using assms(1) by (auto simp: reads_def)
  define j where "j = length bs - k + length ys"
  have "parse_loop lib gu pu sw (k + Suc j) (bs @ ys) m = parse_loop lib gu pu sw (Suc j) ys m1"
    by (rule k(2))
  moreover have "k + Suc j = Suc (length (bs @ ys))"
    using k(1) by (simp add: j_def)
  moreover have "parse_loop lib gu pu sw (Suc j) ys m1 = AtLimit m'"
  proof (cases "ys = []")
    case True
    then show ?thesis using assms(2) by simp
  next
    case False
    then obtain i where "j = Suc i"
      by (cases j) (auto simp: j_def)
    then show ?thesis using assms(3) [OF False] by (simp only:)
  qed
  ultimately show ?thesis by (simp only:)
qed

lemma reads_whole:
  assumes "reads lib gu pu sw bs m m'"
  shows "parse_loop lib gu pu sw (Suc (length bs)) bs m = AtLimit m'"
  using reads_tail [OF assms, of "[]" m'] by simp

lemma reads_opt:
  assumes "c \<Longrightarrow> reads lib gu pu sw bs m m'"
  shows "reads lib gu pu sw (if c then bs else []) m (if c then m' else m)"
  using assms by (simp add: reads_Nil)

subsection \<open>Fields\<close>

text \<open>A string that can be sent: within the size limit and valid for the UTF-8 check.\<close>

definition str_ok :: "'u pb_lib \<Rightarrow> byte list \<Rightarrow> bool" where
  "str_ok lib s \<longleftrightarrow> length s < pb_max \<and> VerifyUTF8 lib s"

lemma WriteTag_values:
  "WriteTag 1 0 = [8]" "WriteTag 2 0 = [16]" "WriteTag 3 0 = [24]" "WriteTag 5 0 = [40]"
  "WriteTag 7 0 = [56]" "WriteTag 6 1 = [49]" "WriteTag 1 2 = [10]" "WriteTag 2 2 = [18]"
  "WriteTag 3 2 = [26]" "WriteTag 4 2 = [34]"
  by code_simp+

lemma WriteString_eq:
  assumes "lib_ok lib"
  shows "WriteStringMaybeAliased lib num s = WriteTag num 2 @ UnsafeVarint (of_nat (length s)) @ s"
proof (cases "length s \<ge> 128 \<or> \<not> room lib s")
  case True
  then show ?thesis
    using assms by (simp add: WriteStringMaybeAliased_def lib_ok_def writers_ok_def)
next
  case False
  then have "length s < 128" by simp
  moreover from this have "unat (of_nat (length s) :: u64) = length s"
    by (simp add: unat_of_nat)
  ultimately show ?thesis
    using False by (simp add: WriteStringMaybeAliased_def WriteTag_def UnsafeVarint_venc venc_small)
qed

lemma parse_string_enc:
  assumes "lib_ok lib" and "length s < pb_max" and "VerifyUTF8 lib s"
  shows "parse_string lib upd m ((UnsafeVarint (of_nat (length s)) @ s) @ rest) = Parsed (upd s m) rest"
  using assms by (simp add: parse_string_def lib_ok_def sizes_ok_def)

lemma ucast_scast_64: "(ucast (scast (v :: u32) :: u64) :: u32) = v"
  by (rule bit_word_eqI) (simp add: bit_unsigned_iff bit_signed_iff)

lemma parse_int32_enc:
  assumes "lib_ok lib"
  shows "parse_int32 lib upd m (UnsafeVarint (scast v) @ rest) = Parsed (upd v m) rest"
  using VarintParse32_enc [of lib "scast v" rest] assms
  by (simp add: parse_int32_def ReadVarint32_def lib_ok_def ucast_scast_64)

lemma parse_int64_enc:
  assumes "lib_ok lib"
  shows "parse_int64 lib upd m (UnsafeVarint v @ rest) = Parsed (upd v m) rest"
  using VarintParse64_enc [of lib v rest] assms
  by (simp add: parse_int64_def ReadVarint64_def lib_ok_def)

lemma parse_double_enc: "parse_double upd m (le_bytes 8 v @ rest) = Parsed (upd v m) rest"
  by (simp add: parse_double_def UnalignedLoad64_def le_value_le_bytes)

subsection \<open>Sub-messages\<close>

lemma ParseMessage_enc:
  assumes "lib_ok lib" and "length body < pb_max" and "parse body e = AtLimit e'"
  shows "ParseMessage lib parse e (UnsafeVarint (of_nat (length body)) @ body @ rest) = Some (e', rest)"
proof -
  have "unat (of_nat (length body) :: u32) = length body"
    using assms(2) by (simp add: pb_max_def unat_of_nat)
  moreover have "ReadSize lib (UnsafeVarint (of_nat (length body)) @ body @ rest)
      = Some (of_nat (length body), body @ rest)"
    using assms(1,2) by (intro ReadSize_enc) (simp_all add: lib_ok_def)
  ultimately show ?thesis
    using assms(3) by (simp add: ParseMessage_def)
qed

lemma parse_msgs_map:
  assumes "\<And>e rest. e \<in> set (e0 # es) \<Longrightarrow> parse (enc e @ rest) = Some (g e, rest)" and "length es < n"
  shows "parse_msgs parse add b n m (enc e0 @ concat (map (\<lambda>e. b # enc e) es))
         = Parsed (fold add (map g (e0 # es)) m) []"
  using assms
proof (induction es arbitrary: e0 n m)
  case Nil
  then obtain k where "n = Suc k" by (cases n) auto
  then show ?case using Nil.prems(1) [of e0 "[]"] by simp
next
  case (Cons e es)
  then obtain k where k: "n = Suc k" "length es < k" by (cases n) auto
  have "parse_msgs parse add b k (add (g e0) m) (enc e @ concat (map (\<lambda>e. b # enc e) es))
        = Parsed (fold add (map g (e # es)) (add (g e0) m)) []"
    using Cons.prems(1) k(2) by (intro Cons.IH) auto
  then show ?case
    using Cons.prems(1) [of e0 "b # enc e @ concat (map (\<lambda>e. b # enc e) es)"] k(1) by simp
qed

lemma parse_msgs_enc:
  assumes "\<And>e rest. e \<in> set (e0 # es) \<Longrightarrow> parse (enc e @ rest) = Some (e, rest)" and "length es < n"
  shows "parse_msgs parse add b n m (enc e0 @ concat (map (\<lambda>e. b # enc e) es))
         = Parsed (fold add (e0 # es) m) []"
  using parse_msgs_map [of e0 es parse enc "\<lambda>e. e" n add b m] assms by simp

subsection \<open>Sizes\<close>

lemma length_WriteString:
  assumes "lib_ok lib" and "length s < 2 ^ 32" and "length (WriteTag num 2) = 1"
  shows "length (WriteStringMaybeAliased lib num s) = 1 + StringSize s"
proof -
  have "unat (of_nat (length s) :: u32) = length s" "unat (of_nat (length s) :: u64) = length s"
    using assms(2) by (simp_all add: unat_of_nat)
  then show ?thesis
    using assms(3) unfolding WriteString_eq [OF assms(1)]
    by (simp add: StringSize_def LengthDelimitedSize_def VarintSize32_length UnsafeVarint_venc)
qed

lemma length_WriteInt32: "length (WriteTag num 0) = 1 \<Longrightarrow> length (WriteInt32ToArray num v) = Int32SizePlusOne v"
  by (simp add: WriteInt32ToArray_def Int32SizePlusOne_def VarintSize64PlusOne_length UnsafeVarint_venc)

lemma length_WriteInt64: "length (WriteTag num 0) = 1 \<Longrightarrow> length (WriteInt64ToArray num v) = Int64SizePlusOne v"
  by (simp add: WriteInt64ToArray_def Int64SizePlusOne_def VarintSize64PlusOne_length UnsafeVarint_venc)

lemma length_WriteEnum: "length (WriteTag num 0) = 1 \<Longrightarrow> length (WriteEnumToArray num v) = 1 + EnumSize v"
  by (simp add: WriteEnumToArray_def EnumSize_def VarintSize64_length UnsafeVarint_venc)

lemma length_WriteBool: "length (WriteTag num 0) = 1 \<Longrightarrow> length (WriteBoolToArray num v) = 1 + 1"
  by (simp add: WriteBoolToArray_def UnsafeVarint_venc venc_small)

lemma length_WriteDouble: "length (WriteTag num 1) = 1 \<Longrightarrow> length (WriteDoubleToArray num v) = 1 + 8"
  by (simp add: WriteDoubleToArray_def)

lemma length_InternalWriteMessage:
  assumes "lib_ok lib" and "length (WriteTag num 2) = 1" and "n = length body" and "n < 2 ^ 32"
  shows "length (InternalWriteMessage lib num n body) = 1 + LengthDelimitedSize n"
proof -
  have "unat (of_nat n :: u32) = n" "unat (of_nat n :: u64) = n"
    using assms(4) by (simp_all add: unat_of_nat)
  then show ?thesis
    using assms(1-3) by (simp add: lib_ok_def writers_ok_def LengthDelimitedSize_def VarintSize32_length UnsafeVarint_venc)
qed

end
