(* ===== verification/Items_Proto.thy ===== *)
theory Items_Proto
  imports Wire_Fields
begin

section \<open>Item requests and responses: the other generated messages\<close>

text \<open>
  \<open>Item\<close> and \<open>ResponseItems\<close> with the enumeration \<open>CollectType\<close> (\<open>include/proto/response_items.pb.h\<close>
  and \<open>.cc\<close>), \<open>RequestItems\<close> (\<open>request_items.pb.h\<close> and \<open>.cc\<close>) and \<open>ResponseMessage\<close>
  (\<open>response_message.pb.h\<close> and \<open>.cc\<close>), with the same conventions as the reports.
\<close>

subsection \<open>\<open>CollectType\<close>\<close>

text \<open>
  An open enumeration: a message holds any \<open>int\<close>, and only \<open>IsValid\<close> knows which values have a name.
\<close>

datatype CollectType = UNKNOWN | PREDEFINED | USER_PARAMTER | HTTP_AGENT

primrec CollectType_value :: "CollectType \<Rightarrow> u32" where
  "CollectType_value UNKNOWN = 0"
| "CollectType_value PREDEFINED = 1"
| "CollectType_value USER_PARAMTER = 2"
| "CollectType_value HTTP_AGENT = 3"

definition CollectType_IsValid :: "u32 \<Rightarrow> bool" where
  "CollectType_IsValid v \<longleftrightarrow> v = 0 \<or> v = 1 \<or> v = 2 \<or> v = 3"

subsection \<open>\<open>Item\<close>\<close>

record 'u Item =
  it_name :: "byte list"
  it_data_type :: "byte list"
  it_collect_type :: u32
  it_unknown :: 'u

definition Item_default :: "'u pb_lib \<Rightarrow> 'u Item" where
  "Item_default lib = \<lparr>it_name = [], it_data_type = [], it_collect_type = 0, it_unknown = unknown_none lib\<rparr>"

definition Item_clear_name :: "'u Item \<Rightarrow> 'u Item" where
  "Item_clear_name m = m\<lparr>it_name := []\<rparr>"

definition Item_set_name :: "byte list \<Rightarrow> 'u Item \<Rightarrow> 'u Item" where
  "Item_set_name s m = m\<lparr>it_name := s\<rparr>"

definition Item_mutable_name :: "(byte list \<Rightarrow> byte list) \<Rightarrow> 'u Item \<Rightarrow> 'u Item" where
  "Item_mutable_name g m = m\<lparr>it_name := g (it_name m)\<rparr>"

definition Item_release_name :: "'u Item \<Rightarrow> byte list \<times> 'u Item" where
  "Item_release_name m = (it_name m, m\<lparr>it_name := []\<rparr>)"

definition Item_set_allocated_name :: "byte list option \<Rightarrow> 'u Item \<Rightarrow> 'u Item" where
  "Item_set_allocated_name s m = m\<lparr>it_name := (case s of None \<Rightarrow> [] | Some v \<Rightarrow> v)\<rparr>"

definition Item_clear_data_type :: "'u Item \<Rightarrow> 'u Item" where
  "Item_clear_data_type m = m\<lparr>it_data_type := []\<rparr>"

definition Item_set_data_type :: "byte list \<Rightarrow> 'u Item \<Rightarrow> 'u Item" where
  "Item_set_data_type s m = m\<lparr>it_data_type := s\<rparr>"

definition Item_mutable_data_type :: "(byte list \<Rightarrow> byte list) \<Rightarrow> 'u Item \<Rightarrow> 'u Item" where
  "Item_mutable_data_type g m = m\<lparr>it_data_type := g (it_data_type m)\<rparr>"

definition Item_release_data_type :: "'u Item \<Rightarrow> byte list \<times> 'u Item" where
  "Item_release_data_type m = (it_data_type m, m\<lparr>it_data_type := []\<rparr>)"

definition Item_set_allocated_data_type :: "byte list option \<Rightarrow> 'u Item \<Rightarrow> 'u Item" where
  "Item_set_allocated_data_type s m = m\<lparr>it_data_type := (case s of None \<Rightarrow> [] | Some v \<Rightarrow> v)\<rparr>"

definition Item_clear_collect_type :: "'u Item \<Rightarrow> 'u Item" where
  "Item_clear_collect_type m = m\<lparr>it_collect_type := 0\<rparr>"

definition Item_set_collect_type :: "u32 \<Rightarrow> 'u Item \<Rightarrow> 'u Item" where
  "Item_set_collect_type v m = m\<lparr>it_collect_type := v\<rparr>"

definition Item_copy :: "'u pb_lib \<Rightarrow> 'u Item \<Rightarrow> 'u Item" where
  "Item_copy lib from =
     (let m0 = (Item_default lib)\<lparr>it_unknown := MergeUnknown lib (unknown_none lib) (it_unknown from)\<rparr>;
          m1 = (if it_name from \<noteq> [] then Item_set_name (it_name from) m0 else m0);
          m2 = (if it_data_type from \<noteq> [] then Item_set_data_type (it_data_type from) m1 else m1) in
      m2\<lparr>it_collect_type := it_collect_type from\<rparr>)"

definition Item_Clear :: "'u pb_lib \<Rightarrow> 'u Item \<Rightarrow> 'u Item" where
  "Item_Clear lib m =
     (Item_clear_data_type (Item_clear_name m))\<lparr>it_collect_type := 0, it_unknown := unknown_none lib\<rparr>"

definition Item_MergeImpl :: "'u pb_lib \<Rightarrow> 'u Item \<Rightarrow> 'u Item \<Rightarrow> 'u Item" where
  "Item_MergeImpl lib m from =
     (let m1 = (if it_name from \<noteq> [] then Item_set_name (it_name from) m else m);
          m2 = (if it_data_type from \<noteq> [] then Item_set_data_type (it_data_type from) m1 else m1);
          m3 = (if it_collect_type from \<noteq> 0 then Item_set_collect_type (it_collect_type from) m2 else m2) in
      m3\<lparr>it_unknown := MergeUnknown lib (it_unknown m3) (it_unknown from)\<rparr>)"

definition Item_CopyFrom :: "'u pb_lib \<Rightarrow> 'u Item \<Rightarrow> 'u Item \<Rightarrow> 'u Item" where
  "Item_CopyFrom lib m from = Item_MergeImpl lib (Item_Clear lib m) from"

definition Item_InternalSwap :: "'u Item \<Rightarrow> 'u Item \<Rightarrow> 'u Item \<times> 'u Item" where
  "Item_InternalSwap a b = (b, a)"

definition Item_move :: "'u pb_lib \<Rightarrow> bool \<Rightarrow> 'u Item \<Rightarrow> 'u Item \<Rightarrow> 'u Item \<times> 'u Item" where
  "Item_move lib same_arena m from =
     (if same_arena then Item_InternalSwap m from else (Item_CopyFrom lib m from, from))"

definition Item_IsInitialized :: "'u Item \<Rightarrow> bool" where
  "Item_IsInitialized m \<longleftrightarrow> True"

definition Item_switch :: "'u pb_lib \<Rightarrow> u32 \<Rightarrow> 'u Item \<Rightarrow> byte list \<Rightarrow> 'u Item field_result" where
  "Item_switch lib tag m p =
     (let field = drop_bit 3 tag in
      if field = 1 then
        (if tag_is 10 tag then parse_string lib (\<lambda>s. Item_mutable_name (\<lambda>_. s)) m p else Unusual)
      else if field = 2 then
        (if tag_is 18 tag then parse_string lib (\<lambda>s. Item_mutable_data_type (\<lambda>_. s)) m p else Unusual)
      else if field = 3 then
        (if tag_is 24 tag then parse_int64 lib (\<lambda>v. Item_set_collect_type (ucast v)) m p else Unusual)
      else Unusual)"

definition Item_InternalParse :: "'u pb_lib \<Rightarrow> byte list \<Rightarrow> 'u Item \<Rightarrow> 'u Item parse_end" where
  "Item_InternalParse lib p m =
     parse_loop lib it_unknown (\<lambda>u m. m\<lparr>it_unknown := u\<rparr>) (Item_switch lib) (Suc (length p)) p m"

definition Item_InternalSerialize :: "'u pb_lib \<Rightarrow> 'u Item \<Rightarrow> byte list" where
  "Item_InternalSerialize lib m =
     (if it_name m \<noteq> [] then WriteStringMaybeAliased lib 1 (it_name m) else [])
     @ (if it_data_type m \<noteq> [] then WriteStringMaybeAliased lib 2 (it_data_type m) else [])
     @ (if it_collect_type m \<noteq> 0 then WriteEnumToArray 3 (it_collect_type m) else [])
     @ (if have_unknown_fields lib (it_unknown m) then SerializeUnknownFields lib (it_unknown m) else [])"

definition Item_ByteSizeLong :: "'u pb_lib \<Rightarrow> 'u Item \<Rightarrow> nat" where
  "Item_ByteSizeLong lib m =
     MaybeComputeUnknownFieldsSize lib
       ((if it_name m \<noteq> [] then 1 + StringSize (it_name m) else 0)
        + (if it_data_type m \<noteq> [] then 1 + StringSize (it_data_type m) else 0)
        + (if it_collect_type m \<noteq> 0 then 1 + EnumSize (it_collect_type m) else 0))
       (it_unknown m)"

subsection \<open>\<open>ResponseItems\<close>\<close>

record 'u ResponseItems =
  ri_items :: "'u Item list"
  ri_message_type :: "byte list"
  ri_unknown :: 'u

definition ResponseItems_default :: "'u pb_lib \<Rightarrow> 'u ResponseItems" where
  "ResponseItems_default lib = \<lparr>ri_items = [], ri_message_type = [], ri_unknown = unknown_none lib\<rparr>"

definition ResponseItems_clear_message_type :: "'u ResponseItems \<Rightarrow> 'u ResponseItems" where
  "ResponseItems_clear_message_type m = m\<lparr>ri_message_type := []\<rparr>"

definition ResponseItems_set_message_type :: "byte list \<Rightarrow> 'u ResponseItems \<Rightarrow> 'u ResponseItems" where
  "ResponseItems_set_message_type s m = m\<lparr>ri_message_type := s\<rparr>"

definition ResponseItems_mutable_message_type :: "(byte list \<Rightarrow> byte list) \<Rightarrow> 'u ResponseItems \<Rightarrow> 'u ResponseItems" where
  "ResponseItems_mutable_message_type g m = m\<lparr>ri_message_type := g (ri_message_type m)\<rparr>"

definition ResponseItems_release_message_type :: "'u ResponseItems \<Rightarrow> byte list \<times> 'u ResponseItems" where
  "ResponseItems_release_message_type m = (ri_message_type m, m\<lparr>ri_message_type := []\<rparr>)"

definition ResponseItems_set_allocated_message_type :: "byte list option \<Rightarrow> 'u ResponseItems \<Rightarrow> 'u ResponseItems" where
  "ResponseItems_set_allocated_message_type s m = m\<lparr>ri_message_type := (case s of None \<Rightarrow> [] | Some v \<Rightarrow> v)\<rparr>"

definition ResponseItems_items_size :: "'u ResponseItems \<Rightarrow> nat" where
  "ResponseItems_items_size m = length (ri_items m)"

definition ResponseItems_clear_items :: "'u ResponseItems \<Rightarrow> 'u ResponseItems" where
  "ResponseItems_clear_items m = m\<lparr>ri_items := []\<rparr>"

definition ResponseItems_items :: "nat \<Rightarrow> 'u ResponseItems \<Rightarrow> 'u Item option" where
  "ResponseItems_items i m = (if i < length (ri_items m) then Some (ri_items m ! i) else None)"

definition ResponseItems_mutable_items ::
  "nat \<Rightarrow> ('u Item \<Rightarrow> 'u Item) \<Rightarrow> 'u ResponseItems \<Rightarrow> 'u ResponseItems option" where
  "ResponseItems_mutable_items i f m =
     (if i < length (ri_items m) then Some (m\<lparr>ri_items := (ri_items m)[i := f (ri_items m ! i)]\<rparr>) else None)"

definition ResponseItems_add_items ::
  "'u pb_lib \<Rightarrow> ('u Item \<Rightarrow> 'u Item) \<Rightarrow> 'u ResponseItems \<Rightarrow> 'u ResponseItems" where
  "ResponseItems_add_items lib f m = m\<lparr>ri_items := ri_items m @ [f (Item_default lib)]\<rparr>"

definition copy_items :: "'u pb_lib \<Rightarrow> 'u Item list \<Rightarrow> 'u Item list" where
  "copy_items lib is = map (Item_MergeImpl lib (Item_default lib)) is"

definition ResponseItems_copy :: "'u pb_lib \<Rightarrow> 'u ResponseItems \<Rightarrow> 'u ResponseItems" where
  "ResponseItems_copy lib from =
     (let m0 = (ResponseItems_default lib)
            \<lparr>ri_items := copy_items lib (ri_items from),
             ri_unknown := MergeUnknown lib (unknown_none lib) (ri_unknown from)\<rparr> in
      if ri_message_type from \<noteq> [] then ResponseItems_set_message_type (ri_message_type from) m0 else m0)"

definition ResponseItems_Clear :: "'u pb_lib \<Rightarrow> 'u ResponseItems \<Rightarrow> 'u ResponseItems" where
  "ResponseItems_Clear lib m =
     (ResponseItems_clear_message_type (ResponseItems_clear_items m))\<lparr>ri_unknown := unknown_none lib\<rparr>"

definition ResponseItems_MergeImpl ::
  "'u pb_lib \<Rightarrow> 'u ResponseItems \<Rightarrow> 'u ResponseItems \<Rightarrow> 'u ResponseItems" where
  "ResponseItems_MergeImpl lib m from =
     (let m1 = m\<lparr>ri_items := ri_items m @ copy_items lib (ri_items from)\<rparr>;
          m2 = (if ri_message_type from \<noteq> []
                then ResponseItems_set_message_type (ri_message_type from) m1 else m1) in
      m2\<lparr>ri_unknown := MergeUnknown lib (ri_unknown m2) (ri_unknown from)\<rparr>)"

definition ResponseItems_CopyFrom :: "'u pb_lib \<Rightarrow> 'u ResponseItems \<Rightarrow> 'u ResponseItems \<Rightarrow> 'u ResponseItems" where
  "ResponseItems_CopyFrom lib m from = ResponseItems_MergeImpl lib (ResponseItems_Clear lib m) from"

definition ResponseItems_InternalSwap :: "'u ResponseItems \<Rightarrow> 'u ResponseItems \<Rightarrow> 'u ResponseItems \<times> 'u ResponseItems" where
  "ResponseItems_InternalSwap a b = (b, a)"

definition ResponseItems_move :: "'u pb_lib \<Rightarrow> bool \<Rightarrow> 'u ResponseItems \<Rightarrow> 'u ResponseItems \<Rightarrow> 'u ResponseItems \<times> 'u ResponseItems" where
  "ResponseItems_move lib same_arena m from =
     (if same_arena then ResponseItems_InternalSwap m from else (ResponseItems_CopyFrom lib m from, from))"

definition ResponseItems_IsInitialized :: "'u ResponseItems \<Rightarrow> bool" where
  "ResponseItems_IsInitialized m \<longleftrightarrow> True"

definition ResponseItems_switch ::
  "'u pb_lib \<Rightarrow> u32 \<Rightarrow> 'u ResponseItems \<Rightarrow> byte list \<Rightarrow> 'u ResponseItems field_result" where
  "ResponseItems_switch lib tag m p =
     (let field = drop_bit 3 tag in
      if field = 1 then
        (if tag_is 10 tag then parse_string lib (\<lambda>s. ResponseItems_mutable_message_type (\<lambda>_. s)) m p else Unusual)
      else if field = 2 then
        (if tag_is 18 tag
         then parse_msgs (ParseMessage lib (Item_InternalParse lib) (Item_default lib))
                (\<lambda>i. ResponseItems_add_items lib (\<lambda>_. i)) 18 (Suc (length p)) m p
         else Unusual)
      else Unusual)"

definition ResponseItems_InternalParse :: "'u pb_lib \<Rightarrow> byte list \<Rightarrow> 'u ResponseItems \<Rightarrow> 'u ResponseItems parse_end" where
  "ResponseItems_InternalParse lib p m =
     parse_loop lib ri_unknown (\<lambda>u m. m\<lparr>ri_unknown := u\<rparr>) (ResponseItems_switch lib) (Suc (length p)) p m"

definition ResponseItems_InternalSerialize :: "'u pb_lib \<Rightarrow> 'u ResponseItems \<Rightarrow> byte list" where
  "ResponseItems_InternalSerialize lib m =
     (if ri_message_type m \<noteq> [] then WriteStringMaybeAliased lib 1 (ri_message_type m) else [])
     @ concat (map (\<lambda>i. InternalWriteMessage lib 2 (Item_ByteSizeLong lib i) (Item_InternalSerialize lib i))
                 (ri_items m))
     @ (if have_unknown_fields lib (ri_unknown m) then SerializeUnknownFields lib (ri_unknown m) else [])"

definition ResponseItems_ByteSizeLong :: "'u pb_lib \<Rightarrow> 'u ResponseItems \<Rightarrow> nat" where
  "ResponseItems_ByteSizeLong lib m =
     MaybeComputeUnknownFieldsSize lib
       (1 * ResponseItems_items_size m
        + sum_list (map (\<lambda>i. LengthDelimitedSize (Item_ByteSizeLong lib i)) (ri_items m))
        + (if ri_message_type m \<noteq> [] then 1 + StringSize (ri_message_type m) else 0))
       (ri_unknown m)"

subsection \<open>\<open>RequestItems\<close>\<close>

record 'u RequestItems =
  rq_message_type :: "byte list"
  rq_host :: "byte list"
  rq_unknown :: 'u

definition RequestItems_default :: "'u pb_lib \<Rightarrow> 'u RequestItems" where
  "RequestItems_default lib = \<lparr>rq_message_type = [], rq_host = [], rq_unknown = unknown_none lib\<rparr>"

definition RequestItems_clear_message_type :: "'u RequestItems \<Rightarrow> 'u RequestItems" where
  "RequestItems_clear_message_type m = m\<lparr>rq_message_type := []\<rparr>"

definition RequestItems_set_message_type :: "byte list \<Rightarrow> 'u RequestItems \<Rightarrow> 'u RequestItems" where
  "RequestItems_set_message_type s m = m\<lparr>rq_message_type := s\<rparr>"

definition RequestItems_mutable_message_type :: "(byte list \<Rightarrow> byte list) \<Rightarrow> 'u RequestItems \<Rightarrow> 'u RequestItems" where
  "RequestItems_mutable_message_type g m = m\<lparr>rq_message_type := g (rq_message_type m)\<rparr>"

definition RequestItems_release_message_type :: "'u RequestItems \<Rightarrow> byte list \<times> 'u RequestItems" where
  "RequestItems_release_message_type m = (rq_message_type m, m\<lparr>rq_message_type := []\<rparr>)"

definition RequestItems_set_allocated_message_type :: "byte list option \<Rightarrow> 'u RequestItems \<Rightarrow> 'u RequestItems" where
  "RequestItems_set_allocated_message_type s m = m\<lparr>rq_message_type := (case s of None \<Rightarrow> [] | Some v \<Rightarrow> v)\<rparr>"

definition RequestItems_clear_host :: "'u RequestItems \<Rightarrow> 'u RequestItems" where
  "RequestItems_clear_host m = m\<lparr>rq_host := []\<rparr>"

definition RequestItems_set_host :: "byte list \<Rightarrow> 'u RequestItems \<Rightarrow> 'u RequestItems" where
  "RequestItems_set_host s m = m\<lparr>rq_host := s\<rparr>"

definition RequestItems_mutable_host :: "(byte list \<Rightarrow> byte list) \<Rightarrow> 'u RequestItems \<Rightarrow> 'u RequestItems" where
  "RequestItems_mutable_host g m = m\<lparr>rq_host := g (rq_host m)\<rparr>"

definition RequestItems_release_host :: "'u RequestItems \<Rightarrow> byte list \<times> 'u RequestItems" where
  "RequestItems_release_host m = (rq_host m, m\<lparr>rq_host := []\<rparr>)"

definition RequestItems_set_allocated_host :: "byte list option \<Rightarrow> 'u RequestItems \<Rightarrow> 'u RequestItems" where
  "RequestItems_set_allocated_host s m = m\<lparr>rq_host := (case s of None \<Rightarrow> [] | Some v \<Rightarrow> v)\<rparr>"

definition RequestItems_copy :: "'u pb_lib \<Rightarrow> 'u RequestItems \<Rightarrow> 'u RequestItems" where
  "RequestItems_copy lib from =
     (let m0 = (RequestItems_default lib)\<lparr>rq_unknown := MergeUnknown lib (unknown_none lib) (rq_unknown from)\<rparr>;
          m1 = (if rq_message_type from \<noteq> []
                then RequestItems_set_message_type (rq_message_type from) m0 else m0) in
      if rq_host from \<noteq> [] then RequestItems_set_host (rq_host from) m1 else m1)"

definition RequestItems_Clear :: "'u pb_lib \<Rightarrow> 'u RequestItems \<Rightarrow> 'u RequestItems" where
  "RequestItems_Clear lib m =
     (RequestItems_clear_host (RequestItems_clear_message_type m))\<lparr>rq_unknown := unknown_none lib\<rparr>"

definition RequestItems_MergeImpl ::
  "'u pb_lib \<Rightarrow> 'u RequestItems \<Rightarrow> 'u RequestItems \<Rightarrow> 'u RequestItems" where
  "RequestItems_MergeImpl lib m from =
     (let m1 = (if rq_message_type from \<noteq> []
                then RequestItems_set_message_type (rq_message_type from) m else m);
          m2 = (if rq_host from \<noteq> [] then RequestItems_set_host (rq_host from) m1 else m1) in
      m2\<lparr>rq_unknown := MergeUnknown lib (rq_unknown m2) (rq_unknown from)\<rparr>)"

definition RequestItems_CopyFrom :: "'u pb_lib \<Rightarrow> 'u RequestItems \<Rightarrow> 'u RequestItems \<Rightarrow> 'u RequestItems" where
  "RequestItems_CopyFrom lib m from = RequestItems_MergeImpl lib (RequestItems_Clear lib m) from"

definition RequestItems_InternalSwap :: "'u RequestItems \<Rightarrow> 'u RequestItems \<Rightarrow> 'u RequestItems \<times> 'u RequestItems" where
  "RequestItems_InternalSwap a b = (b, a)"

definition RequestItems_move :: "'u pb_lib \<Rightarrow> bool \<Rightarrow> 'u RequestItems \<Rightarrow> 'u RequestItems \<Rightarrow> 'u RequestItems \<times> 'u RequestItems" where
  "RequestItems_move lib same_arena m from =
     (if same_arena then RequestItems_InternalSwap m from else (RequestItems_CopyFrom lib m from, from))"

definition RequestItems_IsInitialized :: "'u RequestItems \<Rightarrow> bool" where
  "RequestItems_IsInitialized m \<longleftrightarrow> True"

definition RequestItems_switch ::
  "'u pb_lib \<Rightarrow> u32 \<Rightarrow> 'u RequestItems \<Rightarrow> byte list \<Rightarrow> 'u RequestItems field_result" where
  "RequestItems_switch lib tag m p =
     (let field = drop_bit 3 tag in
      if field = 1 then
        (if tag_is 10 tag then parse_string lib (\<lambda>s. RequestItems_mutable_message_type (\<lambda>_. s)) m p else Unusual)
      else if field = 2 then
        (if tag_is 18 tag then parse_string lib (\<lambda>s. RequestItems_mutable_host (\<lambda>_. s)) m p else Unusual)
      else Unusual)"

definition RequestItems_InternalParse :: "'u pb_lib \<Rightarrow> byte list \<Rightarrow> 'u RequestItems \<Rightarrow> 'u RequestItems parse_end" where
  "RequestItems_InternalParse lib p m =
     parse_loop lib rq_unknown (\<lambda>u m. m\<lparr>rq_unknown := u\<rparr>) (RequestItems_switch lib) (Suc (length p)) p m"

definition RequestItems_InternalSerialize :: "'u pb_lib \<Rightarrow> 'u RequestItems \<Rightarrow> byte list" where
  "RequestItems_InternalSerialize lib m =
     (if rq_message_type m \<noteq> [] then WriteStringMaybeAliased lib 1 (rq_message_type m) else [])
     @ (if rq_host m \<noteq> [] then WriteStringMaybeAliased lib 2 (rq_host m) else [])
     @ (if have_unknown_fields lib (rq_unknown m) then SerializeUnknownFields lib (rq_unknown m) else [])"

definition RequestItems_ByteSizeLong :: "'u pb_lib \<Rightarrow> 'u RequestItems \<Rightarrow> nat" where
  "RequestItems_ByteSizeLong lib m =
     MaybeComputeUnknownFieldsSize lib
       ((if rq_message_type m \<noteq> [] then 1 + StringSize (rq_message_type m) else 0)
        + (if rq_host m \<noteq> [] then 1 + StringSize (rq_host m) else 0))
       (rq_unknown m)"

subsection \<open>\<open>ResponseMessage\<close>\<close>

record 'u ResponseMessage =
  rp_id :: u32
  rp_success :: bool
  rp_unknown :: 'u

definition ResponseMessage_default :: "'u pb_lib \<Rightarrow> 'u ResponseMessage" where
  "ResponseMessage_default lib = \<lparr>rp_id = 0, rp_success = False, rp_unknown = unknown_none lib\<rparr>"

definition ResponseMessage_clear_id :: "'u ResponseMessage \<Rightarrow> 'u ResponseMessage" where
  "ResponseMessage_clear_id m = m\<lparr>rp_id := 0\<rparr>"

definition ResponseMessage_set_id :: "u32 \<Rightarrow> 'u ResponseMessage \<Rightarrow> 'u ResponseMessage" where
  "ResponseMessage_set_id v m = m\<lparr>rp_id := v\<rparr>"

definition ResponseMessage_clear_success :: "'u ResponseMessage \<Rightarrow> 'u ResponseMessage" where
  "ResponseMessage_clear_success m = m\<lparr>rp_success := False\<rparr>"

definition ResponseMessage_set_success :: "bool \<Rightarrow> 'u ResponseMessage \<Rightarrow> 'u ResponseMessage" where
  "ResponseMessage_set_success v m = m\<lparr>rp_success := v\<rparr>"

definition ResponseMessage_copy :: "'u pb_lib \<Rightarrow> 'u ResponseMessage \<Rightarrow> 'u ResponseMessage" where
  "ResponseMessage_copy lib from =
     (ResponseMessage_default lib)
       \<lparr>rp_unknown := MergeUnknown lib (unknown_none lib) (rp_unknown from),
        rp_id := rp_id from, rp_success := rp_success from\<rparr>"

definition ResponseMessage_Clear :: "'u pb_lib \<Rightarrow> 'u ResponseMessage \<Rightarrow> 'u ResponseMessage" where
  "ResponseMessage_Clear lib m = m\<lparr>rp_id := 0, rp_success := False, rp_unknown := unknown_none lib\<rparr>"

definition ResponseMessage_MergeImpl ::
  "'u pb_lib \<Rightarrow> 'u ResponseMessage \<Rightarrow> 'u ResponseMessage \<Rightarrow> 'u ResponseMessage" where
  "ResponseMessage_MergeImpl lib m from =
     (let m1 = (if rp_id from \<noteq> 0 then ResponseMessage_set_id (rp_id from) m else m);
          m2 = (if rp_success from then ResponseMessage_set_success (rp_success from) m1 else m1) in
      m2\<lparr>rp_unknown := MergeUnknown lib (rp_unknown m2) (rp_unknown from)\<rparr>)"

definition ResponseMessage_CopyFrom :: "'u pb_lib \<Rightarrow> 'u ResponseMessage \<Rightarrow> 'u ResponseMessage \<Rightarrow> 'u ResponseMessage" where
  "ResponseMessage_CopyFrom lib m from = ResponseMessage_MergeImpl lib (ResponseMessage_Clear lib m) from"

definition ResponseMessage_InternalSwap :: "'u ResponseMessage \<Rightarrow> 'u ResponseMessage \<Rightarrow> 'u ResponseMessage \<times> 'u ResponseMessage" where
  "ResponseMessage_InternalSwap a b = (b, a)"

definition ResponseMessage_move :: "'u pb_lib \<Rightarrow> bool \<Rightarrow> 'u ResponseMessage \<Rightarrow> 'u ResponseMessage \<Rightarrow> 'u ResponseMessage \<times> 'u ResponseMessage" where
  "ResponseMessage_move lib same_arena m from =
     (if same_arena then ResponseMessage_InternalSwap m from else (ResponseMessage_CopyFrom lib m from, from))"

definition ResponseMessage_IsInitialized :: "'u ResponseMessage \<Rightarrow> bool" where
  "ResponseMessage_IsInitialized m \<longleftrightarrow> True"

text \<open>A \<open>uint64_t\<close> assigned to a \<open>bool\<close> is whether it is not 0.\<close>

definition ResponseMessage_switch ::
  "'u pb_lib \<Rightarrow> u32 \<Rightarrow> 'u ResponseMessage \<Rightarrow> byte list \<Rightarrow> 'u ResponseMessage field_result" where
  "ResponseMessage_switch lib tag m p =
     (let field = drop_bit 3 tag in
      if field = 1 then
        (if tag_is 8 tag then parse_int32 lib (\<lambda>v m. m\<lparr>rp_id := v\<rparr>) m p else Unusual)
      else if field = 2 then
        (if tag_is 16 tag then parse_int64 lib (\<lambda>v m. m\<lparr>rp_success := (v \<noteq> 0)\<rparr>) m p else Unusual)
      else Unusual)"

definition ResponseMessage_InternalParse :: "'u pb_lib \<Rightarrow> byte list \<Rightarrow> 'u ResponseMessage \<Rightarrow> 'u ResponseMessage parse_end" where
  "ResponseMessage_InternalParse lib p m =
     parse_loop lib rp_unknown (\<lambda>u m. m\<lparr>rp_unknown := u\<rparr>) (ResponseMessage_switch lib) (Suc (length p)) p m"

definition ResponseMessage_InternalSerialize :: "'u pb_lib \<Rightarrow> 'u ResponseMessage \<Rightarrow> byte list" where
  "ResponseMessage_InternalSerialize lib m =
     (if rp_id m \<noteq> 0 then WriteInt32ToArray 1 (rp_id m) else [])
     @ (if rp_success m then WriteBoolToArray 2 (rp_success m) else [])
     @ (if have_unknown_fields lib (rp_unknown m) then SerializeUnknownFields lib (rp_unknown m) else [])"

definition ResponseMessage_ByteSizeLong :: "'u pb_lib \<Rightarrow> 'u ResponseMessage \<Rightarrow> nat" where
  "ResponseMessage_ByteSizeLong lib m =
     MaybeComputeUnknownFieldsSize lib
       ((if rp_id m \<noteq> 0 then Int32SizePlusOne (rp_id m) else 0) + (if rp_success m then 1 + 1 else 0))
       (rp_unknown m)"

end
