(* ===== verification/Wire_Instance.thy ===== *)
theory Wire_Instance
  imports Wire_Fields
begin

section \<open>An instance of the compiled library\<close>

text \<open>
  A library that meets what \<open>lib_ok\<close> asks for, with a recursive varint decoder for all its slow
  paths, an ASCII check for the UTF-8 one and no unknown fields.
\<close>

fun vdec :: "byte list \<Rightarrow> (nat \<times> byte list) option" where
  "vdec [] = None"
| "vdec (b # p) =
     (if unat b < 128 then Some (unat b, p)
      else map_option (map_prod (\<lambda>n. unat b - 128 + 128 * n) id) (vdec p))"

lemma vdec_venc: "vdec (venc n @ rest) = Some (n, rest)"
proof (induction n rule: venc.induct)
  case (1 n)
  show ?case
  proof (cases "n < 128")
    case True
    then show ?thesis by (simp add: venc_small unat_of_byte)
  next
    case False
    then have "venc n @ rest = of_nat (n mod 128 + 128) # venc (n div 128) @ rest"
      by (simp only: venc.simps [of n] if_False append_Cons)
    moreover have "unat (of_nat (n mod 128 + 128) :: byte) = n mod 128 + 128"
      by (rule unat_of_byte) (simp add: mod_less_divisor [of 128 n, THEN less_le_trans])
    ultimately show ?thesis
      using "1" [OF False] by (simp del: of_nat_add)
  qed
qed

definition demo_pb :: "unit pb_lib" where
  "demo_pb =
     \<lparr>VarintParseSlow32 = (\<lambda>p r. map_option (map_prod of_nat id) (vdec p)),
      VarintParseSlow64 = (\<lambda>p r. map_option (map_prod of_nat id) (vdec p)),
      ReadTagFallback = (\<lambda>p r. map_option (map_prod of_nat id) (vdec p)),
      ReadSizeFallback = (\<lambda>p r. map_option (map_prod of_nat id) (vdec p)),
      InlineGreedyStringParser =
        (\<lambda>p. case vdec p of None \<Rightarrow> None
              | Some (n, q) \<Rightarrow> if n \<le> length q then Some (take n q, drop n q) else None),
      VerifyUTF8 = list_all (\<lambda>b. b < 128),
      UnknownFieldParse = (\<lambda>tag u p. None), unknown_none = (), have_unknown_fields = (\<lambda>u. False),
      SerializeUnknownFields = (\<lambda>u. []), ComputeUnknownFieldsSize = (\<lambda>u. 0), MergeUnknown = (\<lambda>u v. ()),
      room = (\<lambda>s. True),
      WriteStringOutline = (\<lambda>num s. WriteTag num 2 @ UnsafeVarint (of_nat (length s)) @ s),
      InternalWriteMessage = (\<lambda>num n body. WriteTag num 2 @ UnsafeVarint (of_nat n) @ body)\<rparr>"

lemma demo_pb_ok: "lib_ok demo_pb"
proof -
  have slow: "slow_ok demo_pb"
  proof (unfold slow_ok_def UnsafeVarint_venc, intro allI impI)
    fix v b0 b1 tl rest
    show "VarintParseSlow64 demo_pb (venc (unat v) @ rest) (two_bytes b0 b1) = Some (v, rest)
        \<and> VarintParseSlow32 demo_pb (venc (unat v) @ rest) (two_bytes b0 b1) = Some (ucast v, rest)"
      by (simp add: demo_pb_def vdec_venc)
  qed
  have u: "unat (of_nat n :: u64) = n" if "n < pb_max" for n
    using that by (simp add: pb_max_def unat_of_nat)
  have sizes: "sizes_ok demo_pb"
    unfolding sizes_ok_def UnsafeVarint_venc by (simp add: demo_pb_def vdec_venc u)
  have "writers_ok demo_pb"
    unfolding writers_ok_def by (simp add: demo_pb_def)
  moreover have "unknown_ok demo_pb"
    unfolding unknown_ok_def by (simp add: demo_pb_def)
  ultimately show ?thesis
    using slow sizes by (simp add: lib_ok_def)
qed

end
