(* ===== verification/Items_Props.thy ===== *)
theory Items_Props
  imports Items_Proto Wire_Instance
begin

section \<open>Item requests and responses survive the wire\<close>

text \<open>
  For each of the four messages of \<open>Items_Proto\<close>: parsing what was serialized merges, into a cleared
  object it restores the message, and \<open>ByteSizeLong\<close> is the number of bytes written.
\<close>

lemma CollectType_IsValid_iff: "CollectType_IsValid v \<longleftrightarrow> (\<exists>c. v = CollectType_value c)"
proof
  assume "CollectType_IsValid v"
  then have "v = CollectType_value UNKNOWN \<or> v = CollectType_value PREDEFINED
      \<or> v = CollectType_value USER_PARAMTER \<or> v = CollectType_value HTTP_AGENT"
    by (simp add: CollectType_IsValid_def)
  then show "\<exists>c. v = CollectType_value c" by blast
next
  assume "\<exists>c. v = CollectType_value c"
  then obtain c where "v = CollectType_value c" ..
  then show "CollectType_IsValid v"
    by (cases c) (simp_all add: CollectType_IsValid_def)
qed

lemma length_field_string:
  assumes "lib_ok lib" and "str_ok lib s" and "num = 1 \<or> num = 2"
  shows "length (WriteStringMaybeAliased lib num s) = 1 + StringSize s"
  using assms(2,3) length_WriteString [OF assms(1), of s num] by (auto simp: str_ok_def pb_max_def WriteTag_values)

lemma no_unknown: "lib_ok lib \<Longrightarrow> \<not> have_unknown_fields lib (unknown_none lib)"
  by (simp add: lib_ok_def unknown_ok_def)

lemma merge_unknown: "lib_ok lib \<Longrightarrow> MergeUnknown lib u (unknown_none lib) = u"
  by (simp add: lib_ok_def unknown_ok_def)

subsection \<open>\<open>Item\<close>\<close>

definition it_ok :: "'u pb_lib \<Rightarrow> 'u Item \<Rightarrow> bool" where
  "it_ok lib m \<longleftrightarrow>
     (it_name m = [] \<or> str_ok lib (it_name m)) \<and> (it_data_type m = [] \<or> str_ok lib (it_data_type m))
     \<and> it_unknown m = unknown_none lib \<and> Item_ByteSizeLong lib m < pb_max"

abbreviation it_reads where
  "it_reads lib \<equiv> reads lib it_unknown (\<lambda>u m. m\<lparr>it_unknown := u\<rparr>) (Item_switch lib)"

lemma it_switch_tags:
  "Item_switch lib 10 m p = parse_string lib (\<lambda>s. Item_mutable_name (\<lambda>_. s)) m p"
  "Item_switch lib 18 m p = parse_string lib (\<lambda>s. Item_mutable_data_type (\<lambda>_. s)) m p"
  "Item_switch lib 24 m p = parse_int64 lib (\<lambda>v. Item_set_collect_type (ucast v)) m p"
  by (simp_all add: Item_switch_def tag_is_def Let_def)

lemma it_reads_name:
  "lib_ok lib \<Longrightarrow> str_ok lib s \<Longrightarrow> it_reads lib (WriteStringMaybeAliased lib 1 s) a (a\<lparr>it_name := s\<rparr>)"
  by (simp add: WriteString_eq WriteTag_values)
    (rule reads_field; simp add: it_switch_tags parse_string_enc [simplified] str_ok_def Item_mutable_name_def)

lemma it_reads_data_type:
  "lib_ok lib \<Longrightarrow> str_ok lib s \<Longrightarrow> it_reads lib (WriteStringMaybeAliased lib 2 s) a (a\<lparr>it_data_type := s\<rparr>)"
  by (simp add: WriteString_eq WriteTag_values)
    (rule reads_field; simp add: it_switch_tags parse_string_enc [simplified] str_ok_def Item_mutable_data_type_def)

lemma it_reads_collect_type:
  "lib_ok lib \<Longrightarrow> it_reads lib (WriteEnumToArray 3 v) a (a\<lparr>it_collect_type := v\<rparr>)"
  by (simp add: WriteEnumToArray_def WriteTag_values)
    (rule reads_field; simp add: it_switch_tags parse_int64_enc Item_set_collect_type_def ucast_scast_64)

lemma Item_parse_merges:
  assumes "lib_ok lib" and "it_ok lib m"
  shows "Item_InternalParse lib (Item_InternalSerialize lib m) a = AtLimit (Item_MergeImpl lib a m)"
proof -
  let ?a1 = "if it_name m \<noteq> [] then a\<lparr>it_name := it_name m\<rparr> else a"
  let ?a2 = "if it_data_type m \<noteq> [] then ?a1\<lparr>it_data_type := it_data_type m\<rparr> else ?a1"
  let ?a3 = "if it_collect_type m \<noteq> 0 then ?a2\<lparr>it_collect_type := it_collect_type m\<rparr> else ?a2"
  have u: "it_unknown m = unknown_none lib"
    using assms(2) by (simp add: it_ok_def)
  have r1: "it_reads lib (if it_name m \<noteq> [] then WriteStringMaybeAliased lib 1 (it_name m) else []) a ?a1"
    using assms(2) by (intro reads_opt it_reads_name [OF assms(1)]) (simp add: it_ok_def)
  have r2: "it_reads lib (if it_data_type m \<noteq> [] then WriteStringMaybeAliased lib 2 (it_data_type m) else []) ?a1 ?a2"
    using assms(2) by (intro reads_opt it_reads_data_type [OF assms(1)]) (simp add: it_ok_def)
  have r3: "it_reads lib (if it_collect_type m \<noteq> 0 then WriteEnumToArray 3 (it_collect_type m) else []) ?a2 ?a3"
    by (rule reads_opt [OF it_reads_collect_type [OF assms(1)]])
  have "it_reads lib (Item_InternalSerialize lib m) a ?a3"
    using reads_append [OF r1 reads_append [OF r2 r3]] no_unknown [OF assms(1)]
    by (simp only: Item_InternalSerialize_def u if_False append_Nil2)
  then have "Item_InternalParse lib (Item_InternalSerialize lib m) a = AtLimit ?a3"
    unfolding Item_InternalParse_def by (rule reads_whole)
  moreover have "?a3 = Item_MergeImpl lib a m"
    using merge_unknown [OF assms(1)] u
    by (simp add: Item_MergeImpl_def Item_set_name_def Item_set_data_type_def Item_set_collect_type_def Let_def)
  ultimately show ?thesis by simp
qed

lemma Item_merge_default:
  assumes "lib_ok lib" and "it_unknown m = unknown_none lib"
  shows "Item_MergeImpl lib (Item_default lib) m = m"
  using assms merge_unknown [OF assms(1)]
  by (cases m)
    (simp add: Item_MergeImpl_def Item_default_def Item_set_name_def Item_set_data_type_def
      Item_set_collect_type_def Let_def)

lemma Item_size:
  assumes "lib_ok lib" and "it_ok lib m"
  shows "Item_ByteSizeLong lib m = length (Item_InternalSerialize lib m)"
  using assms(2) length_field_string [OF assms(1), of "it_name m" 1]
    length_field_string [OF assms(1), of "it_data_type m" 2] no_unknown [OF assms(1)]
  by (auto simp: it_ok_def Item_ByteSizeLong_def Item_InternalSerialize_def MaybeComputeUnknownFieldsSize_def
      length_WriteEnum WriteTag_values)

subsection \<open>\<open>ResponseItems\<close>\<close>

definition ri_ok :: "'u pb_lib \<Rightarrow> 'u ResponseItems \<Rightarrow> bool" where
  "ri_ok lib m \<longleftrightarrow>
     (ri_message_type m = [] \<or> str_ok lib (ri_message_type m))
     \<and> list_all (it_ok lib) (ri_items m) \<and> ri_unknown m = unknown_none lib"

abbreviation ri_reads where
  "ri_reads lib \<equiv> reads lib ri_unknown (\<lambda>u m. m\<lparr>ri_unknown := u\<rparr>) (ResponseItems_switch lib)"

lemma ri_switch_tags:
  "ResponseItems_switch lib 10 m p = parse_string lib (\<lambda>s. ResponseItems_mutable_message_type (\<lambda>_. s)) m p"
  "ResponseItems_switch lib 18 m p
     = parse_msgs (ParseMessage lib (Item_InternalParse lib) (Item_default lib))
         (\<lambda>i. ResponseItems_add_items lib (\<lambda>_. i)) 18 (Suc (length p)) m p"
  by (simp_all add: ResponseItems_switch_def tag_is_def Let_def)

lemma ri_reads_type:
  "lib_ok lib \<Longrightarrow> str_ok lib s \<Longrightarrow> ri_reads lib (WriteStringMaybeAliased lib 1 s) a (a\<lparr>ri_message_type := s\<rparr>)"
  by (simp add: WriteString_eq WriteTag_values)
    (rule reads_field; simp add: ri_switch_tags parse_string_enc [simplified] str_ok_def
      ResponseItems_mutable_message_type_def)

definition it_enc :: "'u pb_lib \<Rightarrow> 'u Item \<Rightarrow> byte list" where
  "it_enc lib i = UnsafeVarint (of_nat (length (Item_InternalSerialize lib i))) @ Item_InternalSerialize lib i"

definition items_bytes :: "'u pb_lib \<Rightarrow> 'u Item list \<Rightarrow> byte list" where
  "items_bytes lib is = concat (map (\<lambda>i. 18 # it_enc lib i) is)"

lemma ri_serialize_eq:
  assumes "lib_ok lib" and "ri_ok lib m"
  shows "ResponseItems_InternalSerialize lib m =
     (if ri_message_type m \<noteq> [] then WriteStringMaybeAliased lib 1 (ri_message_type m) else [])
     @ items_bytes lib (ri_items m)"
proof -
  have "map (\<lambda>i. InternalWriteMessage lib 2 (Item_ByteSizeLong lib i) (Item_InternalSerialize lib i)) (ri_items m)
        = map (\<lambda>i. 18 # it_enc lib i) (ri_items m)"
  proof (rule map_cong [OF refl])
    fix i assume "i \<in> set (ri_items m)"
    then have "it_ok lib i"
      using assms(2) by (simp add: ri_ok_def list_all_iff)
    then show "InternalWriteMessage lib 2 (Item_ByteSizeLong lib i) (Item_InternalSerialize lib i) = 18 # it_enc lib i"
      using assms(1) Item_size [OF assms(1)] by (simp add: lib_ok_def writers_ok_def WriteTag_values it_enc_def)
  qed
  then have "concat (map (\<lambda>i. InternalWriteMessage lib 2 (Item_ByteSizeLong lib i) (Item_InternalSerialize lib i))
      (ri_items m)) = items_bytes lib (ri_items m)"
    by (simp only: items_bytes_def)
  moreover have "\<not> have_unknown_fields lib (ri_unknown m)"
    using assms(2) no_unknown [OF assms(1)] by (simp add: ri_ok_def)
  ultimately show ?thesis
    by (simp only: ResponseItems_InternalSerialize_def if_False append_Nil2)
qed

lemma it_parse_element:
  assumes "lib_ok lib" and "it_ok lib i"
  shows "ParseMessage lib (Item_InternalParse lib) (Item_default lib) (it_enc lib i @ rest) = Some (i, rest)"
proof -
  have "Item_InternalParse lib (Item_InternalSerialize lib i) (Item_default lib) = AtLimit i"
    using Item_parse_merges [OF assms] Item_merge_default [OF assms(1)] assms(2) by (simp add: it_ok_def)
  moreover have "length (Item_InternalSerialize lib i) < pb_max"
    using Item_size [OF assms] assms(2) by (simp add: it_ok_def)
  ultimately show ?thesis
    using ParseMessage_enc [OF assms(1)] by (simp add: it_enc_def)
qed

lemma fold_add_items:
  "fold (\<lambda>i. ResponseItems_add_items lib (\<lambda>_. i)) is m = m\<lparr>ri_items := ri_items m @ is\<rparr>"
  by (induction "is" arbitrary: m) (simp_all add: ResponseItems_add_items_def)

lemma length_items_bytes: "length is \<le> length (items_bytes lib is)"
  by (induction "is") (simp_all add: items_bytes_def)

lemma ri_parse_items:
  assumes "lib_ok lib" and "list_all (it_ok lib) (i # is)"
  shows "parse_loop lib ri_unknown (\<lambda>u m. m\<lparr>ri_unknown := u\<rparr>) (ResponseItems_switch lib) (Suc (Suc n))
           (items_bytes lib (i # is)) m = AtLimit (m\<lparr>ri_items := ri_items m @ i # is\<rparr>)"
proof -
  let ?p = "it_enc lib i @ items_bytes lib is"
  have "length is < Suc (length ?p)"
    using length_items_bytes [of "is" lib] by simp
  then have "ResponseItems_switch lib 18 m ?p = Parsed (m\<lparr>ri_items := ri_items m @ i # is\<rparr>) []"
    unfolding ri_switch_tags items_bytes_def fold_add_items [of lib, symmetric] using assms it_parse_element
    by (intro parse_msgs_enc) (auto simp: list_all_iff)
  moreover have "ReadTag lib (18 # ?p) = Some (18, ?p)"
    using ReadTag_small [of 18 lib ?p] by simp
  moreover have "items_bytes lib (i # is) = 18 # ?p"
    by (simp add: items_bytes_def)
  ultimately show ?thesis
    by simp
qed

lemma copy_items_ok: "lib_ok lib \<Longrightarrow> list_all (it_ok lib) is \<Longrightarrow> copy_items lib is = is"
  by (induction "is") (simp_all add: copy_items_def Item_merge_default it_ok_def)

lemma items_merges:
  assumes "lib_ok lib" and "ri_ok lib m"
  shows "ResponseItems_InternalParse lib (ResponseItems_InternalSerialize lib m) a
         = AtLimit (ResponseItems_MergeImpl lib a m)"
proof -
  let ?a1 = "if ri_message_type m \<noteq> [] then a\<lparr>ri_message_type := ri_message_type m\<rparr> else a"
  let ?a2 = "?a1\<lparr>ri_items := ri_items ?a1 @ ri_items m\<rparr>"
  have r: "ri_reads lib (if ri_message_type m \<noteq> [] then WriteStringMaybeAliased lib 1 (ri_message_type m) else []) a ?a1"
    using assms(2) by (intro reads_opt ri_reads_type [OF assms(1)]) (simp add: ri_ok_def)
  have "is": "list_all (it_ok lib) (ri_items m)"
    using assms(2) by (simp add: ri_ok_def)
  have "ResponseItems_InternalParse lib (ResponseItems_InternalSerialize lib m) a = AtLimit ?a2"
    unfolding ResponseItems_InternalParse_def ri_serialize_eq [OF assms]
  proof (rule reads_tail [OF r])
    show "?a2 = ?a1" if "items_bytes lib (ri_items m) = []"
      using that length_items_bytes [of "ri_items m" lib] by simp
    show "parse_loop lib ri_unknown (\<lambda>u m. m\<lparr>ri_unknown := u\<rparr>) (ResponseItems_switch lib) (Suc (Suc n))
        (items_bytes lib (ri_items m)) ?a1 = AtLimit ?a2" if "items_bytes lib (ri_items m) \<noteq> []" for n
    proof (cases "ri_items m")
      case Nil
      then show ?thesis using that by (simp add: items_bytes_def)
    next
      case (Cons i es)
      then show ?thesis
        using ri_parse_items [OF assms(1), of i es] "is" by simp
    qed
  qed
  moreover have "?a2 = ResponseItems_MergeImpl lib a m"
    using assms(2) merge_unknown [OF assms(1)] copy_items_ok [OF assms(1) "is"]
    by (simp add: ResponseItems_MergeImpl_def ResponseItems_set_message_type_def Let_def ri_ok_def)
  ultimately show ?thesis by simp
qed

lemma items_merge_empty:
  assumes "lib_ok lib" and "ri_ok lib m"
  shows "ResponseItems_MergeImpl lib (ResponseItems_Clear lib a) m = m"
  using assms copy_items_ok [of lib "ri_items m"] merge_unknown [OF assms(1)]
  by (cases m)
    (simp add: ResponseItems_MergeImpl_def ResponseItems_Clear_def ResponseItems_clear_message_type_def
      ResponseItems_clear_items_def ResponseItems_set_message_type_def Let_def ri_ok_def)

text \<open>
  A list of items survives the wire: serialized and parsed into any \<open>ResponseItems\<close> it is merged
  into it, items appended in order, and into a cleared one it comes back unchanged; the announced
  size is the number of bytes written. Any value of the open enumeration is carried, valid or not.
\<close>

theorem response_items_roundtrip:
  assumes "lib_ok lib" and "ri_ok lib m"
  shows "ResponseItems_InternalParse lib (ResponseItems_InternalSerialize lib m) a
           = AtLimit (ResponseItems_MergeImpl lib a m)
         \<and> ResponseItems_InternalParse lib (ResponseItems_InternalSerialize lib m) (ResponseItems_Clear lib a)
           = AtLimit m
         \<and> ResponseItems_ByteSizeLong lib m = length (ResponseItems_InternalSerialize lib m)"
proof -
  have e: "length (InternalWriteMessage lib 2 (Item_ByteSizeLong lib i) (Item_InternalSerialize lib i))
      = 1 + LengthDelimitedSize (Item_ByteSizeLong lib i)" if "it_ok lib i" for i
    using that Item_size [OF assms(1) that]
    by (intro length_InternalWriteMessage [OF assms(1)]) (auto simp: it_ok_def pb_max_def WriteTag_values)
  have d: "length (concat (map (\<lambda>i. InternalWriteMessage lib 2 (Item_ByteSizeLong lib i)
        (Item_InternalSerialize lib i)) is))
      = length is + sum_list (map (\<lambda>i. LengthDelimitedSize (Item_ByteSizeLong lib i)) is)"
    if "list_all (it_ok lib) is" for "is"
    using that by (induction "is") (simp_all add: e)
  have "ResponseItems_ByteSizeLong lib m = length (ResponseItems_InternalSerialize lib m)"
    using assms(2) d [of "ri_items m"] length_field_string [OF assms(1), of "ri_message_type m" 1]
      no_unknown [OF assms(1)]
    by (auto simp: ResponseItems_ByteSizeLong_def ResponseItems_InternalSerialize_def ResponseItems_items_size_def
        MaybeComputeUnknownFieldsSize_def ri_ok_def)
  then show ?thesis
    using items_merges [OF assms] items_merge_empty [OF assms] by simp
qed

subsection \<open>\<open>RequestItems\<close>\<close>

definition rq_ok :: "'u pb_lib \<Rightarrow> 'u RequestItems \<Rightarrow> bool" where
  "rq_ok lib m \<longleftrightarrow>
     (rq_message_type m = [] \<or> str_ok lib (rq_message_type m)) \<and> (rq_host m = [] \<or> str_ok lib (rq_host m))
     \<and> rq_unknown m = unknown_none lib"

abbreviation rq_reads where
  "rq_reads lib \<equiv> reads lib rq_unknown (\<lambda>u m. m\<lparr>rq_unknown := u\<rparr>) (RequestItems_switch lib)"

lemma rq_switch_tags:
  "RequestItems_switch lib 10 m p = parse_string lib (\<lambda>s. RequestItems_mutable_message_type (\<lambda>_. s)) m p"
  "RequestItems_switch lib 18 m p = parse_string lib (\<lambda>s. RequestItems_mutable_host (\<lambda>_. s)) m p"
  by (simp_all add: RequestItems_switch_def tag_is_def Let_def)

lemma rq_reads_type:
  "lib_ok lib \<Longrightarrow> str_ok lib s \<Longrightarrow> rq_reads lib (WriteStringMaybeAliased lib 1 s) a (a\<lparr>rq_message_type := s\<rparr>)"
  by (simp add: WriteString_eq WriteTag_values)
    (rule reads_field; simp add: rq_switch_tags parse_string_enc [simplified] str_ok_def
      RequestItems_mutable_message_type_def)

lemma rq_reads_host:
  "lib_ok lib \<Longrightarrow> str_ok lib s \<Longrightarrow> rq_reads lib (WriteStringMaybeAliased lib 2 s) a (a\<lparr>rq_host := s\<rparr>)"
  by (simp add: WriteString_eq WriteTag_values)
    (rule reads_field; simp add: rq_switch_tags parse_string_enc [simplified] str_ok_def RequestItems_mutable_host_def)

lemma request_merges:
  assumes "lib_ok lib" and "rq_ok lib m"
  shows "RequestItems_InternalParse lib (RequestItems_InternalSerialize lib m) a
         = AtLimit (RequestItems_MergeImpl lib a m)"
proof -
  let ?a1 = "if rq_message_type m \<noteq> [] then a\<lparr>rq_message_type := rq_message_type m\<rparr> else a"
  let ?a2 = "if rq_host m \<noteq> [] then ?a1\<lparr>rq_host := rq_host m\<rparr> else ?a1"
  have u: "rq_unknown m = unknown_none lib"
    using assms(2) by (simp add: rq_ok_def)
  have r1: "rq_reads lib (if rq_message_type m \<noteq> [] then WriteStringMaybeAliased lib 1 (rq_message_type m) else []) a ?a1"
    using assms(2) by (intro reads_opt rq_reads_type [OF assms(1)]) (simp add: rq_ok_def)
  have r2: "rq_reads lib (if rq_host m \<noteq> [] then WriteStringMaybeAliased lib 2 (rq_host m) else []) ?a1 ?a2"
    using assms(2) by (intro reads_opt rq_reads_host [OF assms(1)]) (simp add: rq_ok_def)
  have "rq_reads lib (RequestItems_InternalSerialize lib m) a ?a2"
    using reads_append [OF r1 r2] no_unknown [OF assms(1)]
    by (simp only: RequestItems_InternalSerialize_def u if_False append_Nil2)
  then have "RequestItems_InternalParse lib (RequestItems_InternalSerialize lib m) a = AtLimit ?a2"
    unfolding RequestItems_InternalParse_def by (rule reads_whole)
  moreover have "?a2 = RequestItems_MergeImpl lib a m"
    using merge_unknown [OF assms(1)] u
    by (simp add: RequestItems_MergeImpl_def RequestItems_set_message_type_def RequestItems_set_host_def Let_def)
  ultimately show ?thesis by simp
qed

text \<open>
  A request for items survives the wire: serialized and parsed into any \<open>RequestItems\<close> it
  replaces the strings it sets, into a cleared one it comes back unchanged, and the announced size
  is the number of bytes written.
\<close>

theorem request_items_roundtrip:
  assumes "lib_ok lib" and "rq_ok lib m"
  shows "RequestItems_InternalParse lib (RequestItems_InternalSerialize lib m) a
           = AtLimit (RequestItems_MergeImpl lib a m)
         \<and> RequestItems_InternalParse lib (RequestItems_InternalSerialize lib m) (RequestItems_Clear lib a)
           = AtLimit m
         \<and> RequestItems_ByteSizeLong lib m = length (RequestItems_InternalSerialize lib m)"
proof -
  have "RequestItems_ByteSizeLong lib m = length (RequestItems_InternalSerialize lib m)"
    using assms(2) length_field_string [OF assms(1), of "rq_message_type m" 1]
      length_field_string [OF assms(1), of "rq_host m" 2] no_unknown [OF assms(1)]
    by (auto simp: RequestItems_ByteSizeLong_def RequestItems_InternalSerialize_def
        MaybeComputeUnknownFieldsSize_def rq_ok_def)
  moreover have "RequestItems_MergeImpl lib (RequestItems_Clear lib a) m = m"
    using assms(2) merge_unknown [OF assms(1)]
    by (cases m)
      (simp add: RequestItems_MergeImpl_def RequestItems_Clear_def RequestItems_clear_message_type_def
        RequestItems_clear_host_def RequestItems_set_message_type_def RequestItems_set_host_def Let_def rq_ok_def)
  ultimately show ?thesis
    using request_merges [OF assms] by simp
qed

subsection \<open>\<open>ResponseMessage\<close>\<close>

abbreviation rp_reads where
  "rp_reads lib \<equiv> reads lib rp_unknown (\<lambda>u m. m\<lparr>rp_unknown := u\<rparr>) (ResponseMessage_switch lib)"

lemma rp_switch_tags:
  "ResponseMessage_switch lib 8 m p = parse_int32 lib (\<lambda>v m. m\<lparr>rp_id := v\<rparr>) m p"
  "ResponseMessage_switch lib 16 m p = parse_int64 lib (\<lambda>v m. m\<lparr>rp_success := (v \<noteq> 0)\<rparr>) m p"
  by (simp_all add: ResponseMessage_switch_def tag_is_def Let_def)

lemma rp_reads_id: "lib_ok lib \<Longrightarrow> rp_reads lib (WriteInt32ToArray 1 v) a (a\<lparr>rp_id := v\<rparr>)"
  by (simp add: WriteInt32ToArray_def WriteTag_values)
    (rule reads_field; simp add: rp_switch_tags parse_int32_enc)

lemma rp_reads_success: "lib_ok lib \<Longrightarrow> rp_reads lib (WriteBoolToArray 2 True) a (a\<lparr>rp_success := True\<rparr>)"
  unfolding WriteBoolToArray_def WriteTag_values append_Cons append_Nil
  by (rule reads_field; simp add: rp_switch_tags parse_int64_enc)

lemma response_merges:
  assumes "lib_ok lib" and u: "rp_unknown m = unknown_none lib"
  shows "ResponseMessage_InternalParse lib (ResponseMessage_InternalSerialize lib m) a
         = AtLimit (ResponseMessage_MergeImpl lib a m)"
proof -
  let ?a1 = "if rp_id m \<noteq> 0 then a\<lparr>rp_id := rp_id m\<rparr> else a"
  let ?a2 = "if rp_success m then ?a1\<lparr>rp_success := True\<rparr> else ?a1"
  have r1: "rp_reads lib (if rp_id m \<noteq> 0 then WriteInt32ToArray 1 (rp_id m) else []) a ?a1"
    by (rule reads_opt [OF rp_reads_id [OF assms(1)]])
  have "rp_reads lib (if rp_success m then WriteBoolToArray 2 True else []) ?a1 ?a2"
    by (rule reads_opt [OF rp_reads_success [OF assms(1)]])
  moreover have "(if rp_success m then WriteBoolToArray 2 (rp_success m) else [])
      = (if rp_success m then WriteBoolToArray 2 True else [])"
    by simp
  ultimately have r2: "rp_reads lib (if rp_success m then WriteBoolToArray 2 (rp_success m) else []) ?a1 ?a2"
    by (simp only:)
  have "rp_reads lib (ResponseMessage_InternalSerialize lib m) a ?a2"
    using reads_append [OF r1 r2] no_unknown [OF assms(1)]
    by (simp only: ResponseMessage_InternalSerialize_def u if_False append_Nil2)
  then have "ResponseMessage_InternalParse lib (ResponseMessage_InternalSerialize lib m) a = AtLimit ?a2"
    unfolding ResponseMessage_InternalParse_def by (rule reads_whole)
  moreover have "?a2 = ResponseMessage_MergeImpl lib a m"
    using merge_unknown [OF assms(1)] u
    by (simp add: ResponseMessage_MergeImpl_def ResponseMessage_set_id_def ResponseMessage_set_success_def Let_def)
  ultimately show ?thesis by simp
qed

text \<open>
  An acknowledgement survives the wire: serialized and parsed into any \<open>ResponseMessage\<close> it is
  merged into it, so that a success once set is kept, into a cleared one it comes back unchanged,
  negative ids included, and the announced size, at most 13 bytes, is the number of bytes written.
\<close>

theorem response_message_roundtrip:
  assumes "lib_ok lib" and "rp_unknown m = unknown_none lib"
  shows "ResponseMessage_InternalParse lib (ResponseMessage_InternalSerialize lib m) a
           = AtLimit (ResponseMessage_MergeImpl lib a m)
         \<and> ResponseMessage_InternalParse lib (ResponseMessage_InternalSerialize lib m) (ResponseMessage_Clear lib a)
           = AtLimit m
         \<and> ResponseMessage_ByteSizeLong lib m = length (ResponseMessage_InternalSerialize lib m)
         \<and> ResponseMessage_ByteSizeLong lib m \<le> 13"
proof -
  have "ResponseMessage_ByteSizeLong lib m = length (ResponseMessage_InternalSerialize lib m)"
    using assms(2) no_unknown [OF assms(1)]
    by (auto simp: ResponseMessage_ByteSizeLong_def ResponseMessage_InternalSerialize_def
        MaybeComputeUnknownFieldsSize_def length_WriteInt32 length_WriteBool WriteTag_values)
  moreover have "ResponseMessage_ByteSizeLong lib m \<le> 13"
    using assms(2) no_unknown [OF assms(1)] length_venc_u64 [of "scast (rp_id m)"]
    by (simp add: ResponseMessage_ByteSizeLong_def MaybeComputeUnknownFieldsSize_def Int32SizePlusOne_def
        VarintSize64PlusOne_length VarintSize64_length)
  moreover have "ResponseMessage_MergeImpl lib (ResponseMessage_Clear lib a) m = m"
    using assms(2) merge_unknown [OF assms(1)]
    by (cases m)
      (simp add: ResponseMessage_MergeImpl_def ResponseMessage_Clear_def ResponseMessage_set_id_def
        ResponseMessage_set_success_def Let_def)
  ultimately show ?thesis
    using response_merges [OF assms] by simp
qed

subsection \<open>Concrete messages\<close>

definition demo_items :: "unit ResponseItems" where
  "demo_items =
     \<lparr>ri_items = [\<lparr>it_name = [99, 112, 117], it_data_type = [105], it_collect_type = 3, it_unknown = ()\<rparr>,
                \<lparr>it_name = [], it_data_type = [], it_collect_type = -1, it_unknown = ()\<rparr>],
      ri_message_type = [114], ri_unknown = ()\<rparr>"

lemma demo_items_sizes: "map (Item_ByteSizeLong demo_pb) (ri_items demo_items) = [10, 11]"
  by code_simp

lemma demo_items_ok: "ri_ok demo_pb demo_items"
proof -
  have "Item_ByteSizeLong demo_pb i < pb_max" if "i \<in> set (ri_items demo_items)" for i
  proof -
    have "Item_ByteSizeLong demo_pb i \<in> set (map (Item_ByteSizeLong demo_pb) (ri_items demo_items))"
      using that by simp
    then show ?thesis
      unfolding demo_items_sizes by (auto simp: pb_max_def)
  qed
  moreover have "str_ok demo_pb [99, 112, 117]" "str_ok demo_pb [105]" "str_ok demo_pb [114]"
    by (simp_all add: str_ok_def demo_pb_def pb_max_def)
  ultimately show ?thesis
    by (simp add: ri_ok_def it_ok_def demo_items_def)
qed

theorem response_items_roundtrip_witness:
  "ResponseItems_InternalParse demo_pb (ResponseItems_InternalSerialize demo_pb demo_items)
     (ResponseItems_Clear demo_pb demo_items) = AtLimit demo_items"
  using response_items_roundtrip [OF demo_pb_ok demo_items_ok, of demo_items] by simp

definition demo_request :: "unit RequestItems" where
  "demo_request = \<lparr>rq_message_type = [105], rq_host = [104, 49], rq_unknown = ()\<rparr>"

lemma demo_request_ok: "rq_ok demo_pb demo_request"
proof -
  have "str_ok demo_pb [105]" "str_ok demo_pb [104, 49]"
    by (simp_all add: str_ok_def demo_pb_def pb_max_def)
  then show ?thesis
    by (simp add: rq_ok_def demo_request_def)
qed

theorem request_items_roundtrip_witness:
  "RequestItems_InternalParse demo_pb (RequestItems_InternalSerialize demo_pb demo_request)
     (RequestItems_Clear demo_pb demo_request) = AtLimit demo_request"
  using request_items_roundtrip [OF demo_pb_ok demo_request_ok, of demo_request] by simp

theorem response_message_roundtrip_witness:
  "ResponseMessage_InternalParse demo_pb
     (ResponseMessage_InternalSerialize demo_pb \<lparr>rp_id = -1, rp_success = True, rp_unknown = ()\<rparr>)
     (ResponseMessage_Clear demo_pb \<lparr>rp_id = 5, rp_success = False, rp_unknown = ()\<rparr>)
   = AtLimit \<lparr>rp_id = -1, rp_success = True, rp_unknown = ()\<rparr>"
  using response_message_roundtrip [OF demo_pb_ok, of "\<lparr>rp_id = -1, rp_success = True, rp_unknown = ()\<rparr>"
      "\<lparr>rp_id = 5, rp_success = False, rp_unknown = ()\<rparr>"] by simp

end
