(* ===== verification/Report_Proto.thy ===== *)
theory Report_Proto
  imports Wire_Fields
begin

section \<open>Reports: the generated \<open>include/proto/report_message.pb.h\<close> and \<open>.cc\<close>\<close>

text \<open>
  \<open>MonitorData\<close>, one measurement with a oneof of three value types, and \<open>ReportMessage\<close>, a host's list
  of them: fields, accessors, merging, parsing, serialization and size. A double is its bit
  pattern. Two message objects are always different ones here, so that the guards against an
  object being copied to or swapped with itself have nothing to do; arenas only decide where
  memory comes from.
\<close>

subsection \<open>\<open>MonitorData\<close>: state and accessors\<close>

text \<open>
  The union of the three values, without its tag: which member was last put into it. A string member
  either stands for the shared empty string or owns a string. \<open>Misused\<close> is what comes of
  undefined behaviour: using a member that is not there, or overwriting a string that is owned and
  was not destroyed, which loses it.
  Of the string's operations \<open>InitDefault\<close>, \<open>InitAllocated\<close> and \<open>Get\<close> are in the vendored
  \<open>arenastring.h\<close>; \<open>Set\<close>, \<open>Mutable\<close>, \<open>Release\<close> and \<open>Destroy\<close> are declared there and do what its comments say.
\<close>

datatype value_union =
    Constinit
  | String_default
  | String_owned "byte list"
  | String_dead
  | Int_member u64
  | Double_member u64
  | Misused

definition overwritable :: "value_union \<Rightarrow> bool" where
  "overwritable u \<longleftrightarrow> (case u of String_owned _ \<Rightarrow> False | Misused \<Rightarrow> False | _ \<Rightarrow> True)"

definition string_InitDefault :: "value_union \<Rightarrow> value_union" where
  "string_InitDefault u = (if overwritable u then String_default else Misused)"

definition string_InitAllocated :: "byte list \<Rightarrow> value_union \<Rightarrow> value_union" where
  "string_InitAllocated s u = (if overwritable u then String_owned s else Misused)"

definition string_Get :: "value_union \<Rightarrow> byte list" where
  "string_Get u = (case u of String_owned s \<Rightarrow> s | _ \<Rightarrow> [])"

definition string_Mutable :: "(byte list \<Rightarrow> byte list) \<Rightarrow> value_union \<Rightarrow> value_union" where
  "string_Mutable f u =
     (case u of String_default \<Rightarrow> String_owned (f []) | String_owned s \<Rightarrow> String_owned (f s) | _ \<Rightarrow> Misused)"

definition string_Set :: "byte list \<Rightarrow> value_union \<Rightarrow> value_union" where
  "string_Set s u = string_Mutable (\<lambda>_. s) u"

definition string_Release :: "value_union \<Rightarrow> byte list option \<times> value_union" where
  "string_Release u =
     (case u of
        String_owned s \<Rightarrow> (Some s, String_default)
      | String_default \<Rightarrow> (None, String_default)
      | _ \<Rightarrow> (None, Misused))"

definition string_Destroy :: "value_union \<Rightarrow> value_union" where
  "string_Destroy u = (case u of String_default \<Rightarrow> String_dead | String_owned _ \<Rightarrow> String_dead | _ \<Rightarrow> Misused)"

definition store_int :: "u64 \<Rightarrow> value_union \<Rightarrow> value_union" where
  "store_int v u = (if overwritable u then Int_member v else Misused)"

definition load_int :: "value_union \<Rightarrow> u64" where
  "load_int u = (case u of Int_member v \<Rightarrow> v | _ \<Rightarrow> 0)"

definition store_double :: "u64 \<Rightarrow> value_union \<Rightarrow> value_union" where
  "store_double v u = (if overwritable u then Double_member v else Misused)"

definition load_double :: "value_union \<Rightarrow> u64" where
  "load_double u = (case u of Double_member v \<Rightarrow> v | _ \<Rightarrow> 0)"

text \<open>The numbers of \<open>ValueCase\<close>; the tag is a number of its own.\<close>

abbreviation (input) "VALUE_NOT_SET \<equiv> 0 :: nat"
abbreviation (input) "kStringValue \<equiv> 4 :: nat"
abbreviation (input) "kIntValue \<equiv> 5 :: nat"
abbreviation (input) "kDoubleValue \<equiv> 6 :: nat"

record 'u MonitorData =
  md_item :: "byte list"
  md_timestamp :: u64
  md_id :: u32
  md_union :: value_union
  md_oneof_case :: nat
  md_unknown :: 'u

definition MonitorData_default :: "'u pb_lib \<Rightarrow> 'u MonitorData" where
  "MonitorData_default lib =
     \<lparr>md_item = [], md_timestamp = 0, md_id = 0, md_union = Constinit, md_oneof_case = VALUE_NOT_SET,
      md_unknown = unknown_none lib\<rparr>"

definition MonitorData_clear_id :: "'u MonitorData \<Rightarrow> 'u MonitorData" where
  "MonitorData_clear_id m = m\<lparr>md_id := 0\<rparr>"

definition MonitorData_set_id :: "u32 \<Rightarrow> 'u MonitorData \<Rightarrow> 'u MonitorData" where
  "MonitorData_set_id v m = m\<lparr>md_id := v\<rparr>"

definition MonitorData_clear_timestamp :: "'u MonitorData \<Rightarrow> 'u MonitorData" where
  "MonitorData_clear_timestamp m = m\<lparr>md_timestamp := 0\<rparr>"

definition MonitorData_set_timestamp :: "u64 \<Rightarrow> 'u MonitorData \<Rightarrow> 'u MonitorData" where
  "MonitorData_set_timestamp v m = m\<lparr>md_timestamp := v\<rparr>"

definition MonitorData_clear_item :: "'u MonitorData \<Rightarrow> 'u MonitorData" where
  "MonitorData_clear_item m = m\<lparr>md_item := []\<rparr>"

definition MonitorData_set_item :: "byte list \<Rightarrow> 'u MonitorData \<Rightarrow> 'u MonitorData" where
  "MonitorData_set_item s m = m\<lparr>md_item := s\<rparr>"

text \<open>A \<open>mutable\<close> accessor is given what the caller does to the string it points to.\<close>

definition MonitorData_mutable_item :: "(byte list \<Rightarrow> byte list) \<Rightarrow> 'u MonitorData \<Rightarrow> 'u MonitorData" where
  "MonitorData_mutable_item f m = m\<lparr>md_item := f (md_item m)\<rparr>"

definition MonitorData_release_item :: "'u MonitorData \<Rightarrow> byte list \<times> 'u MonitorData" where
  "MonitorData_release_item m = (md_item m, m\<lparr>md_item := []\<rparr>)"

definition MonitorData_set_allocated_item :: "byte list option \<Rightarrow> 'u MonitorData \<Rightarrow> 'u MonitorData" where
  "MonitorData_set_allocated_item s m = m\<lparr>md_item := (case s of None \<Rightarrow> [] | Some v \<Rightarrow> v)\<rparr>"

definition MonitorData_value_case :: "'u MonitorData \<Rightarrow> nat" where
  "MonitorData_value_case m = md_oneof_case m"

definition MonitorData_has_value :: "'u MonitorData \<Rightarrow> bool" where
  "MonitorData_has_value m \<longleftrightarrow> MonitorData_value_case m \<noteq> VALUE_NOT_SET"

definition MonitorData_clear_has_value :: "'u MonitorData \<Rightarrow> 'u MonitorData" where
  "MonitorData_clear_has_value m = m\<lparr>md_oneof_case := VALUE_NOT_SET\<rparr>"

definition MonitorData_clear_value :: "'u MonitorData \<Rightarrow> 'u MonitorData" where
  "MonitorData_clear_value m =
     (if MonitorData_value_case m = kStringValue then m\<lparr>md_union := string_Destroy (md_union m)\<rparr> else m)
       \<lparr>md_oneof_case := VALUE_NOT_SET\<rparr>"

definition MonitorData_has_string_value :: "'u MonitorData \<Rightarrow> bool" where
  "MonitorData_has_string_value m \<longleftrightarrow> MonitorData_value_case m = kStringValue"

definition MonitorData_set_has_string_value :: "'u MonitorData \<Rightarrow> 'u MonitorData" where
  "MonitorData_set_has_string_value m = m\<lparr>md_oneof_case := kStringValue\<rparr>"

definition MonitorData_string_value :: "'u MonitorData \<Rightarrow> byte list" where
  "MonitorData_string_value m = (if MonitorData_has_string_value m then string_Get (md_union m) else [])"

definition MonitorData_clear_string_value :: "'u MonitorData \<Rightarrow> 'u MonitorData" where
  "MonitorData_clear_string_value m =
     (if MonitorData_has_string_value m
      then MonitorData_clear_has_value (m\<lparr>md_union := string_Destroy (md_union m)\<rparr>) else m)"

text \<open>Without a string in the union the old member is cleared and an empty string put in its place.\<close>

definition MonitorData_init_string :: "'u MonitorData \<Rightarrow> 'u MonitorData" where
  "MonitorData_init_string m =
     (if \<not> MonitorData_has_string_value m
      then (let m1 = MonitorData_set_has_string_value (MonitorData_clear_value m) in
            m1\<lparr>md_union := string_InitDefault (md_union m1)\<rparr>)
      else m)"

definition MonitorData_set_string_value :: "byte list \<Rightarrow> 'u MonitorData \<Rightarrow> 'u MonitorData" where
  "MonitorData_set_string_value s m =
     (let m1 = MonitorData_init_string m in m1\<lparr>md_union := string_Set s (md_union m1)\<rparr>)"

definition MonitorData_mutable_string_value ::
  "(byte list \<Rightarrow> byte list) \<Rightarrow> 'u MonitorData \<Rightarrow> 'u MonitorData" where
  "MonitorData_mutable_string_value f m =
     (let m1 = MonitorData_init_string m in m1\<lparr>md_union := string_Mutable f (md_union m1)\<rparr>)"

definition MonitorData_release_string_value :: "'u MonitorData \<Rightarrow> byte list option \<times> 'u MonitorData" where
  "MonitorData_release_string_value m =
     (if MonitorData_has_string_value m
      then (let m1 = MonitorData_clear_has_value m in
            case string_Release (md_union m1) of (s, u) \<Rightarrow> (s, m1\<lparr>md_union := u\<rparr>))
      else (None, m))"

definition MonitorData_set_allocated_string_value ::
  "byte list option \<Rightarrow> 'u MonitorData \<Rightarrow> 'u MonitorData" where
  "MonitorData_set_allocated_string_value s m =
     (let m1 = (if MonitorData_has_value m then MonitorData_clear_value m else m) in
      case s of
        None \<Rightarrow> m1
      | Some v \<Rightarrow> (MonitorData_set_has_string_value m1)\<lparr>md_union := string_InitAllocated v (md_union m1)\<rparr>)"

definition MonitorData_has_int_value :: "'u MonitorData \<Rightarrow> bool" where
  "MonitorData_has_int_value m \<longleftrightarrow> MonitorData_value_case m = kIntValue"

definition MonitorData_set_has_int_value :: "'u MonitorData \<Rightarrow> 'u MonitorData" where
  "MonitorData_set_has_int_value m = m\<lparr>md_oneof_case := kIntValue\<rparr>"

definition MonitorData_int_value :: "'u MonitorData \<Rightarrow> u64" where
  "MonitorData_int_value m = (if MonitorData_has_int_value m then load_int (md_union m) else 0)"

definition MonitorData_clear_int_value :: "'u MonitorData \<Rightarrow> 'u MonitorData" where
  "MonitorData_clear_int_value m =
     (if MonitorData_has_int_value m
      then MonitorData_clear_has_value (m\<lparr>md_union := store_int 0 (md_union m)\<rparr>) else m)"

definition MonitorData_set_int_value :: "u64 \<Rightarrow> 'u MonitorData \<Rightarrow> 'u MonitorData" where
  "MonitorData_set_int_value v m =
     (let m1 = (if \<not> MonitorData_has_int_value m
                then MonitorData_set_has_int_value (MonitorData_clear_value m) else m) in
      m1\<lparr>md_union := store_int v (md_union m1)\<rparr>)"

definition MonitorData_has_double_value :: "'u MonitorData \<Rightarrow> bool" where
  "MonitorData_has_double_value m \<longleftrightarrow> MonitorData_value_case m = kDoubleValue"

definition MonitorData_set_has_double_value :: "'u MonitorData \<Rightarrow> 'u MonitorData" where
  "MonitorData_set_has_double_value m = m\<lparr>md_oneof_case := kDoubleValue\<rparr>"

definition MonitorData_double_value :: "'u MonitorData \<Rightarrow> u64" where
  "MonitorData_double_value m = (if MonitorData_has_double_value m then load_double (md_union m) else 0)"

definition MonitorData_clear_double_value :: "'u MonitorData \<Rightarrow> 'u MonitorData" where
  "MonitorData_clear_double_value m =
     (if MonitorData_has_double_value m
      then MonitorData_clear_has_value (m\<lparr>md_union := store_double 0 (md_union m)\<rparr>) else m)"

definition MonitorData_set_double_value :: "u64 \<Rightarrow> 'u MonitorData \<Rightarrow> 'u MonitorData" where
  "MonitorData_set_double_value v m =
     (let m1 = (if \<not> MonitorData_has_double_value m
                then MonitorData_set_has_double_value (MonitorData_clear_value m) else m) in
      m1\<lparr>md_union := store_double v (md_union m1)\<rparr>)"

text \<open>What the copy constructor and \<open>MergeImpl\<close> do with the union, by the case of the source.\<close>

definition MonitorData_take_value :: "'u MonitorData \<Rightarrow> 'u MonitorData \<Rightarrow> 'u MonitorData" where
  "MonitorData_take_value from m =
     (if MonitorData_value_case from = kStringValue
      then MonitorData_set_string_value (MonitorData_string_value from) m
      else if MonitorData_value_case from = kIntValue
      then MonitorData_set_int_value (MonitorData_int_value from) m
      else if MonitorData_value_case from = kDoubleValue
      then MonitorData_set_double_value (MonitorData_double_value from) m
      else m)"

subsection \<open>\<open>MonitorData\<close>: whole messages\<close>

text \<open>The copy constructor starts from the unknown fields, the union copied by case.\<close>

definition MonitorData_copy :: "'u pb_lib \<Rightarrow> 'u MonitorData \<Rightarrow> 'u MonitorData" where
  "MonitorData_copy lib from =
     (let m0 = (MonitorData_default lib)\<lparr>md_unknown := MergeUnknown lib (unknown_none lib) (md_unknown from)\<rparr>;
          m1 = (if md_item from \<noteq> [] then MonitorData_set_item (md_item from) m0 else m0);
          m2 = m1\<lparr>md_timestamp := md_timestamp from, md_id := md_id from\<rparr> in
      MonitorData_take_value from (MonitorData_clear_has_value m2))"

definition MonitorData_Clear :: "'u pb_lib \<Rightarrow> 'u MonitorData \<Rightarrow> 'u MonitorData" where
  "MonitorData_Clear lib m =
     (MonitorData_clear_value ((MonitorData_clear_item m)\<lparr>md_timestamp := 0, md_id := 0\<rparr>))
       \<lparr>md_unknown := unknown_none lib\<rparr>"

definition MonitorData_MergeImpl :: "'u pb_lib \<Rightarrow> 'u MonitorData \<Rightarrow> 'u MonitorData \<Rightarrow> 'u MonitorData" where
  "MonitorData_MergeImpl lib m from =
     (let m1 = (if md_item from \<noteq> [] then MonitorData_set_item (md_item from) m else m);
          m2 = (if md_timestamp from \<noteq> 0 then MonitorData_set_timestamp (md_timestamp from) m1 else m1);
          m3 = (if md_id from \<noteq> 0 then MonitorData_set_id (md_id from) m2 else m2);
          m4 = MonitorData_take_value from m3 in
      m4\<lparr>md_unknown := MergeUnknown lib (md_unknown m4) (md_unknown from)\<rparr>)"

definition MonitorData_CopyFrom :: "'u pb_lib \<Rightarrow> 'u MonitorData \<Rightarrow> 'u MonitorData \<Rightarrow> 'u MonitorData" where
  "MonitorData_CopyFrom lib m from = MonitorData_MergeImpl lib (MonitorData_Clear lib m) from"

definition MonitorData_InternalSwap ::
  "'u MonitorData \<Rightarrow> 'u MonitorData \<Rightarrow> 'u MonitorData \<times> 'u MonitorData" where
  "MonitorData_InternalSwap a b = (b, a)"

text \<open>Move assignment: a swap on the same arena, else a copy that leaves the source as it is.\<close>

definition MonitorData_move ::
  "'u pb_lib \<Rightarrow> bool \<Rightarrow> 'u MonitorData \<Rightarrow> 'u MonitorData \<Rightarrow> 'u MonitorData \<times> 'u MonitorData" where
  "MonitorData_move lib same_arena m from =
     (if same_arena then MonitorData_InternalSwap m from else (MonitorData_CopyFrom lib m from, from))"

definition MonitorData_IsInitialized :: "'u MonitorData \<Rightarrow> bool" where
  "MonitorData_IsInitialized m \<longleftrightarrow> True"

definition MonitorData_switch ::
  "'u pb_lib \<Rightarrow> u32 \<Rightarrow> 'u MonitorData \<Rightarrow> byte list \<Rightarrow> 'u MonitorData field_result" where
  "MonitorData_switch lib tag m p =
     (let field = drop_bit 3 tag in
      if field = 1 then (if tag_is 8 tag then parse_int32 lib (\<lambda>v m. m\<lparr>md_id := v\<rparr>) m p else Unusual)
      else if field = 3 then
        (if tag_is 26 tag then parse_string lib (\<lambda>s. MonitorData_mutable_item (\<lambda>_. s)) m p else Unusual)
      else if field = 4 then
        (if tag_is 34 tag then parse_string lib (\<lambda>s. MonitorData_mutable_string_value (\<lambda>_. s)) m p else Unusual)
      else if field = 5 then
        (if tag_is 40 tag then parse_int64 lib MonitorData_set_int_value m p else Unusual)
      else if field = 6 then
        (if tag_is 49 tag then parse_double MonitorData_set_double_value m p else Unusual)
      else if field = 7 then
        (if tag_is 56 tag then parse_int64 lib (\<lambda>v m. m\<lparr>md_timestamp := v\<rparr>) m p else Unusual)
      else Unusual)"

definition MonitorData_InternalParse ::
  "'u pb_lib \<Rightarrow> byte list \<Rightarrow> 'u MonitorData \<Rightarrow> 'u MonitorData parse_end" where
  "MonitorData_InternalParse lib p m =
     parse_loop lib md_unknown (\<lambda>u m. m\<lparr>md_unknown := u\<rparr>) (MonitorData_switch lib) (Suc (length p)) p m"

definition MonitorData_InternalSerialize :: "'u pb_lib \<Rightarrow> 'u MonitorData \<Rightarrow> byte list" where
  "MonitorData_InternalSerialize lib m =
     (if md_id m \<noteq> 0 then WriteInt32ToArray 1 (md_id m) else [])
     @ (if md_item m \<noteq> [] then WriteStringMaybeAliased lib 3 (md_item m) else [])
     @ (if MonitorData_has_string_value m
        then WriteStringMaybeAliased lib 4 (MonitorData_string_value m) else [])
     @ (if MonitorData_has_int_value m then WriteInt64ToArray 5 (MonitorData_int_value m) else [])
     @ (if MonitorData_has_double_value m then WriteDoubleToArray 6 (MonitorData_double_value m) else [])
     @ (if md_timestamp m \<noteq> 0 then WriteInt64ToArray 7 (md_timestamp m) else [])
     @ (if have_unknown_fields lib (md_unknown m) then SerializeUnknownFields lib (md_unknown m) else [])"

definition MonitorData_ByteSizeLong :: "'u pb_lib \<Rightarrow> 'u MonitorData \<Rightarrow> nat" where
  "MonitorData_ByteSizeLong lib m =
     MaybeComputeUnknownFieldsSize lib
       ((if md_item m \<noteq> [] then 1 + StringSize (md_item m) else 0)
        + (if md_timestamp m \<noteq> 0 then Int64SizePlusOne (md_timestamp m) else 0)
        + (if md_id m \<noteq> 0 then Int32SizePlusOne (md_id m) else 0)
        + (if MonitorData_value_case m = kStringValue then 1 + StringSize (MonitorData_string_value m)
           else if MonitorData_value_case m = kIntValue then Int64SizePlusOne (MonitorData_int_value m)
           else if MonitorData_value_case m = kDoubleValue then 1 + 8
           else 0))
       (md_unknown m)"

subsection \<open>\<open>ReportMessage\<close>\<close>

record 'u ReportMessage =
  rm_data :: "'u MonitorData list"
  rm_message_type :: "byte list"
  rm_host :: "byte list"
  rm_unknown :: 'u

definition ReportMessage_default :: "'u pb_lib \<Rightarrow> 'u ReportMessage" where
  "ReportMessage_default lib =
     \<lparr>rm_data = [], rm_message_type = [], rm_host = [], rm_unknown = unknown_none lib\<rparr>"

definition ReportMessage_data_size :: "'u ReportMessage \<Rightarrow> nat" where
  "ReportMessage_data_size m = length (rm_data m)"

definition ReportMessage_clear_data :: "'u ReportMessage \<Rightarrow> 'u ReportMessage" where
  "ReportMessage_clear_data m = m\<lparr>rm_data := []\<rparr>"

text \<open>\<open>Get\<close> and \<open>Mutable\<close> of a repeated field do not check the index: \<open>None\<close> is out of range.\<close>

definition ReportMessage_data :: "nat \<Rightarrow> 'u ReportMessage \<Rightarrow> 'u MonitorData option" where
  "ReportMessage_data i m = (if i < length (rm_data m) then Some (rm_data m ! i) else None)"

definition ReportMessage_mutable_data ::
  "nat \<Rightarrow> ('u MonitorData \<Rightarrow> 'u MonitorData) \<Rightarrow> 'u ReportMessage \<Rightarrow> 'u ReportMessage option" where
  "ReportMessage_mutable_data i f m =
     (if i < length (rm_data m) then Some (m\<lparr>rm_data := (rm_data m)[i := f (rm_data m ! i)]\<rparr>) else None)"

text \<open>\<open>add_data\<close> appends a cleared element, which the caller then fills.\<close>

definition ReportMessage_add_data ::
  "'u pb_lib \<Rightarrow> ('u MonitorData \<Rightarrow> 'u MonitorData) \<Rightarrow> 'u ReportMessage \<Rightarrow> 'u ReportMessage" where
  "ReportMessage_add_data lib f m = m\<lparr>rm_data := rm_data m @ [f (MonitorData_default lib)]\<rparr>"

definition ReportMessage_clear_message_type :: "'u ReportMessage \<Rightarrow> 'u ReportMessage" where
  "ReportMessage_clear_message_type m = m\<lparr>rm_message_type := []\<rparr>"

definition ReportMessage_set_message_type :: "byte list \<Rightarrow> 'u ReportMessage \<Rightarrow> 'u ReportMessage" where
  "ReportMessage_set_message_type s m = m\<lparr>rm_message_type := s\<rparr>"

definition ReportMessage_mutable_message_type ::
  "(byte list \<Rightarrow> byte list) \<Rightarrow> 'u ReportMessage \<Rightarrow> 'u ReportMessage" where
  "ReportMessage_mutable_message_type f m = m\<lparr>rm_message_type := f (rm_message_type m)\<rparr>"

definition ReportMessage_release_message_type :: "'u ReportMessage \<Rightarrow> byte list \<times> 'u ReportMessage" where
  "ReportMessage_release_message_type m = (rm_message_type m, m\<lparr>rm_message_type := []\<rparr>)"

definition ReportMessage_set_allocated_message_type ::
  "byte list option \<Rightarrow> 'u ReportMessage \<Rightarrow> 'u ReportMessage" where
  "ReportMessage_set_allocated_message_type s m =
     m\<lparr>rm_message_type := (case s of None \<Rightarrow> [] | Some v \<Rightarrow> v)\<rparr>"

definition ReportMessage_clear_host :: "'u ReportMessage \<Rightarrow> 'u ReportMessage" where
  "ReportMessage_clear_host m = m\<lparr>rm_host := []\<rparr>"

definition ReportMessage_set_host :: "byte list \<Rightarrow> 'u ReportMessage \<Rightarrow> 'u ReportMessage" where
  "ReportMessage_set_host s m = m\<lparr>rm_host := s\<rparr>"

definition ReportMessage_mutable_host ::
  "(byte list \<Rightarrow> byte list) \<Rightarrow> 'u ReportMessage \<Rightarrow> 'u ReportMessage" where
  "ReportMessage_mutable_host f m = m\<lparr>rm_host := f (rm_host m)\<rparr>"

definition ReportMessage_release_host :: "'u ReportMessage \<Rightarrow> byte list \<times> 'u ReportMessage" where
  "ReportMessage_release_host m = (rm_host m, m\<lparr>rm_host := []\<rparr>)"

definition ReportMessage_set_allocated_host :: "byte list option \<Rightarrow> 'u ReportMessage \<Rightarrow> 'u ReportMessage" where
  "ReportMessage_set_allocated_host s m = m\<lparr>rm_host := (case s of None \<Rightarrow> [] | Some v \<Rightarrow> v)\<rparr>"

text \<open>Copying the repeated field copies its elements by merging them into new ones.\<close>

definition copy_data :: "'u pb_lib \<Rightarrow> 'u MonitorData list \<Rightarrow> 'u MonitorData list" where
  "copy_data lib ds = map (MonitorData_MergeImpl lib (MonitorData_default lib)) ds"

definition ReportMessage_copy :: "'u pb_lib \<Rightarrow> 'u ReportMessage \<Rightarrow> 'u ReportMessage" where
  "ReportMessage_copy lib from =
     (let m0 = (ReportMessage_default lib)
            \<lparr>rm_data := copy_data lib (rm_data from),
             rm_unknown := MergeUnknown lib (unknown_none lib) (rm_unknown from)\<rparr>;
          m1 = (if rm_message_type from \<noteq> []
                then ReportMessage_set_message_type (rm_message_type from) m0 else m0) in
      if rm_host from \<noteq> [] then ReportMessage_set_host (rm_host from) m1 else m1)"

definition ReportMessage_Clear :: "'u pb_lib \<Rightarrow> 'u ReportMessage \<Rightarrow> 'u ReportMessage" where
  "ReportMessage_Clear lib m =
     (ReportMessage_clear_host (ReportMessage_clear_message_type (ReportMessage_clear_data m)))
       \<lparr>rm_unknown := unknown_none lib\<rparr>"

definition ReportMessage_MergeImpl ::
  "'u pb_lib \<Rightarrow> 'u ReportMessage \<Rightarrow> 'u ReportMessage \<Rightarrow> 'u ReportMessage" where
  "ReportMessage_MergeImpl lib m from =
     (let m1 = m\<lparr>rm_data := rm_data m @ copy_data lib (rm_data from)\<rparr>;
          m2 = (if rm_message_type from \<noteq> []
                then ReportMessage_set_message_type (rm_message_type from) m1 else m1);
          m3 = (if rm_host from \<noteq> [] then ReportMessage_set_host (rm_host from) m2 else m2) in
      m3\<lparr>rm_unknown := MergeUnknown lib (rm_unknown m3) (rm_unknown from)\<rparr>)"

definition ReportMessage_CopyFrom ::
  "'u pb_lib \<Rightarrow> 'u ReportMessage \<Rightarrow> 'u ReportMessage \<Rightarrow> 'u ReportMessage" where
  "ReportMessage_CopyFrom lib m from = ReportMessage_MergeImpl lib (ReportMessage_Clear lib m) from"

definition ReportMessage_InternalSwap ::
  "'u ReportMessage \<Rightarrow> 'u ReportMessage \<Rightarrow> 'u ReportMessage \<times> 'u ReportMessage" where
  "ReportMessage_InternalSwap a b = (b, a)"

definition ReportMessage_move ::
  "'u pb_lib \<Rightarrow> bool \<Rightarrow> 'u ReportMessage \<Rightarrow> 'u ReportMessage \<Rightarrow> 'u ReportMessage \<times> 'u ReportMessage" where
  "ReportMessage_move lib same_arena m from =
     (if same_arena then ReportMessage_InternalSwap m from else (ReportMessage_CopyFrom lib m from, from))"

definition ReportMessage_IsInitialized :: "'u ReportMessage \<Rightarrow> bool" where
  "ReportMessage_IsInitialized m \<longleftrightarrow> True"

definition ReportMessage_switch ::
  "'u pb_lib \<Rightarrow> u32 \<Rightarrow> 'u ReportMessage \<Rightarrow> byte list \<Rightarrow> 'u ReportMessage field_result" where
  "ReportMessage_switch lib tag m p =
     (let field = drop_bit 3 tag in
      if field = 1 then
        (if tag_is 10 tag then parse_string lib (\<lambda>s. ReportMessage_mutable_message_type (\<lambda>_. s)) m p else Unusual)
      else if field = 2 then
        (if tag_is 18 tag then parse_string lib (\<lambda>s. ReportMessage_mutable_host (\<lambda>_. s)) m p else Unusual)
      else if field = 3 then
        (if tag_is 26 tag
         then parse_msgs (ParseMessage lib (MonitorData_InternalParse lib) (MonitorData_default lib))
                (\<lambda>d. ReportMessage_add_data lib (\<lambda>_. d)) 26 (Suc (length p)) m p
         else Unusual)
      else Unusual)"

definition ReportMessage_InternalParse ::
  "'u pb_lib \<Rightarrow> byte list \<Rightarrow> 'u ReportMessage \<Rightarrow> 'u ReportMessage parse_end" where
  "ReportMessage_InternalParse lib p m =
     parse_loop lib rm_unknown (\<lambda>u m. m\<lparr>rm_unknown := u\<rparr>) (ReportMessage_switch lib) (Suc (length p)) p m"

text \<open>The cached size of an element is what \<open>ByteSizeLong\<close> left there before serializing.\<close>

definition ReportMessage_InternalSerialize :: "'u pb_lib \<Rightarrow> 'u ReportMessage \<Rightarrow> byte list" where
  "ReportMessage_InternalSerialize lib m =
     (if rm_message_type m \<noteq> [] then WriteStringMaybeAliased lib 1 (rm_message_type m) else [])
     @ (if rm_host m \<noteq> [] then WriteStringMaybeAliased lib 2 (rm_host m) else [])
     @ concat (map (\<lambda>d. InternalWriteMessage lib 3 (MonitorData_ByteSizeLong lib d)
                          (MonitorData_InternalSerialize lib d)) (rm_data m))
     @ (if have_unknown_fields lib (rm_unknown m) then SerializeUnknownFields lib (rm_unknown m) else [])"

definition ReportMessage_ByteSizeLong :: "'u pb_lib \<Rightarrow> 'u ReportMessage \<Rightarrow> nat" where
  "ReportMessage_ByteSizeLong lib m =
     MaybeComputeUnknownFieldsSize lib
       (1 * ReportMessage_data_size m
        + sum_list (map (\<lambda>d. LengthDelimitedSize (MonitorData_ByteSizeLong lib d)) (rm_data m))
        + (if rm_message_type m \<noteq> [] then 1 + StringSize (rm_message_type m) else 0)
        + (if rm_host m \<noteq> [] then 1 + StringSize (rm_host m) else 0))
       (rm_unknown m)"

end
