(* ===== verification/Report_Props.thy ===== *)
theory Report_Props
  imports Report_Proto Wire_Instance
begin

section \<open>Reports survive the wire\<close>

text \<open>
  Parsing a serialized message into any message is merging the two, hence parsing into an empty
  message gives the original back; and \<open>ByteSizeLong\<close> announces exactly the bytes written. Both for
  \<open>MonitorData\<close> and for \<open>ReportMessage\<close>, whose elements are length-delimited by that size.
\<close>

subsection \<open>\<open>MonitorData\<close>\<close>

definition md_ok :: "'u pb_lib \<Rightarrow> 'u MonitorData \<Rightarrow> bool" where
  "md_ok lib m \<longleftrightarrow>
     (md_item m = [] \<or> str_ok lib (md_item m))
     \<and> (MonitorData_has_string_value m \<longrightarrow> str_ok lib (MonitorData_string_value m))
     \<and> md_unknown m = unknown_none lib \<and> MonitorData_ByteSizeLong lib m < pb_max"

abbreviation md_reads where
  "md_reads lib \<equiv> reads lib md_unknown (\<lambda>u m. m\<lparr>md_unknown := u\<rparr>) (MonitorData_switch lib)"

lemma md_switch_tags:
  "MonitorData_switch lib 8 m p = parse_int32 lib (\<lambda>v m. m\<lparr>md_id := v\<rparr>) m p"
  "MonitorData_switch lib 26 m p = parse_string lib (\<lambda>s. MonitorData_mutable_item (\<lambda>_. s)) m p"
  "MonitorData_switch lib 34 m p
     = parse_string lib (\<lambda>s. MonitorData_mutable_string_value (\<lambda>_. s)) m p"
  "MonitorData_switch lib 40 m p = parse_int64 lib MonitorData_set_int_value m p"
  "MonitorData_switch lib 49 m p = parse_double MonitorData_set_double_value m p"
  "MonitorData_switch lib 56 m p = parse_int64 lib (\<lambda>v m. m\<lparr>md_timestamp := v\<rparr>) m p"
  by (simp_all add: MonitorData_switch_def tag_is_def Let_def)

lemma md_reads_id:
  "lib_ok lib \<Longrightarrow> md_reads lib (WriteInt32ToArray 1 v) a (a\<lparr>md_id := v\<rparr>)"
  by (simp add: WriteInt32ToArray_def WriteTag_values) (rule reads_field; simp add: md_switch_tags parse_int32_enc)

lemma md_reads_item:
  "lib_ok lib \<Longrightarrow> str_ok lib s \<Longrightarrow> md_reads lib (WriteStringMaybeAliased lib 3 s) a (a\<lparr>md_item := s\<rparr>)"
  by (simp add: WriteString_eq WriteTag_values)
    (rule reads_field; simp add: md_switch_tags parse_string_enc [simplified] str_ok_def MonitorData_mutable_item_def)

lemma mutable_string_const [simp]: "MonitorData_mutable_string_value (\<lambda>_. s) m = MonitorData_set_string_value s m"
  by (simp add: MonitorData_mutable_string_value_def MonitorData_set_string_value_def string_Set_def)

lemma md_reads_string:
  "lib_ok lib \<Longrightarrow> str_ok lib s
   \<Longrightarrow> md_reads lib (WriteStringMaybeAliased lib 4 s) a (MonitorData_set_string_value s a)"
  by (simp add: WriteString_eq WriteTag_values)
    (rule reads_field; simp add: md_switch_tags parse_string_enc [simplified] str_ok_def)

lemma md_reads_int:
  "lib_ok lib \<Longrightarrow> md_reads lib (WriteInt64ToArray 5 v) a (MonitorData_set_int_value v a)"
  by (simp add: WriteInt64ToArray_def WriteTag_values) (rule reads_field; simp add: md_switch_tags parse_int64_enc)

lemma md_reads_double:
  "md_reads lib (WriteDoubleToArray 6 v) a (MonitorData_set_double_value v a)"
  by (simp add: WriteDoubleToArray_def WriteTag_values) (rule reads_field; simp add: md_switch_tags parse_double_enc)

lemma md_reads_timestamp:
  "lib_ok lib \<Longrightarrow> md_reads lib (WriteInt64ToArray 7 v) a (a\<lparr>md_timestamp := v\<rparr>)"
  by (simp add: WriteInt64ToArray_def WriteTag_values) (rule reads_field; simp add: md_switch_tags parse_int64_enc)

text \<open>The bytes of the union, one of three writers or none.\<close>

definition md_value_bytes :: "'u pb_lib \<Rightarrow> 'u MonitorData \<Rightarrow> byte list" where
  "md_value_bytes lib m =
     (if MonitorData_value_case m = kStringValue then WriteStringMaybeAliased lib 4 (MonitorData_string_value m)
      else if MonitorData_value_case m = kIntValue then WriteInt64ToArray 5 (MonitorData_int_value m)
      else if MonitorData_value_case m = kDoubleValue then WriteDoubleToArray 6 (MonitorData_double_value m)
      else [])"

lemmas md_has_defs = MonitorData_has_string_value_def MonitorData_has_int_value_def MonitorData_has_double_value_def

lemma md_serialize_eq:
  assumes "lib_ok lib" and "md_unknown m = unknown_none lib"
  shows "MonitorData_InternalSerialize lib m =
     (if md_id m \<noteq> 0 then WriteInt32ToArray 1 (md_id m) else [])
     @ (if md_item m \<noteq> [] then WriteStringMaybeAliased lib 3 (md_item m) else [])
     @ md_value_bytes lib m
     @ (if md_timestamp m \<noteq> 0 then WriteInt64ToArray 7 (md_timestamp m) else [])"
  using assms by (auto simp: MonitorData_InternalSerialize_def md_value_bytes_def md_has_defs lib_ok_def unknown_ok_def)

lemma md_reads_value:
  assumes "lib_ok lib" and "md_ok lib m"
  shows "md_reads lib (md_value_bytes lib m) a (MonitorData_take_value m a)"
  using assms
  by (simp add: md_value_bytes_def MonitorData_take_value_def md_ok_def md_reads_string md_reads_int md_reads_double
      reads_Nil md_has_defs)

text \<open>The timestamp is read after the union and merged before it.\<close>

lemma set_value_timestamp:
  "MonitorData_set_string_value s (m\<lparr>md_timestamp := t\<rparr>) = (MonitorData_set_string_value s m)\<lparr>md_timestamp := t\<rparr>"
  "MonitorData_set_int_value v (m\<lparr>md_timestamp := t\<rparr>) = (MonitorData_set_int_value v m)\<lparr>md_timestamp := t\<rparr>"
  "MonitorData_set_double_value v (m\<lparr>md_timestamp := t\<rparr>) = (MonitorData_set_double_value v m)\<lparr>md_timestamp := t\<rparr>"
  by (simp_all add: MonitorData_set_string_value_def MonitorData_init_string_def MonitorData_set_int_value_def
      MonitorData_set_double_value_def MonitorData_clear_value_def MonitorData_set_has_string_value_def
      MonitorData_set_has_int_value_def MonitorData_set_has_double_value_def md_has_defs
      MonitorData_value_case_def Let_def)

lemma take_value_timestamp:
  "MonitorData_take_value from (m\<lparr>md_timestamp := t\<rparr>) = (MonitorData_take_value from m)\<lparr>md_timestamp := t\<rparr>"
  by (simp add: MonitorData_take_value_def set_value_timestamp)

lemma set_value_unknown:
  "md_unknown (MonitorData_set_string_value s m) = md_unknown m"
  "md_unknown (MonitorData_set_int_value v m) = md_unknown m"
  "md_unknown (MonitorData_set_double_value v m) = md_unknown m"
  by (simp_all add: MonitorData_set_string_value_def MonitorData_init_string_def MonitorData_set_int_value_def
      MonitorData_set_double_value_def MonitorData_clear_value_def MonitorData_set_has_string_value_def
      MonitorData_set_has_int_value_def MonitorData_set_has_double_value_def Let_def)

lemma take_value_unknown [simp]: "md_unknown (MonitorData_take_value from m) = md_unknown m"
  by (simp add: MonitorData_take_value_def set_value_unknown)

lemma MonitorData_parse_merges:
  assumes "lib_ok lib" and "md_ok lib m"
  shows "MonitorData_InternalParse lib (MonitorData_InternalSerialize lib m) a
         = AtLimit (MonitorData_MergeImpl lib a m)"
proof -
  let ?a1 = "if md_id m \<noteq> 0 then a\<lparr>md_id := md_id m\<rparr> else a"
  let ?a2 = "if md_item m \<noteq> [] then ?a1\<lparr>md_item := md_item m\<rparr> else ?a1"
  let ?a3 = "MonitorData_take_value m ?a2"
  let ?a4 = "if md_timestamp m \<noteq> 0 then ?a3\<lparr>md_timestamp := md_timestamp m\<rparr> else ?a3"
  have u: "md_unknown m = unknown_none lib"
    using assms(2) by (simp add: md_ok_def)
  have r1: "md_reads lib (if md_id m \<noteq> 0 then WriteInt32ToArray 1 (md_id m) else []) a ?a1"
    by (rule reads_opt [OF md_reads_id [OF assms(1)]])
  have r2: "md_reads lib (if md_item m \<noteq> [] then WriteStringMaybeAliased lib 3 (md_item m) else []) ?a1 ?a2"
    using assms(2) by (intro reads_opt md_reads_item [OF assms(1)]) (simp add: md_ok_def)
  have r3: "md_reads lib (md_value_bytes lib m) ?a2 ?a3"
    by (rule md_reads_value [OF assms])
  have r4: "md_reads lib (if md_timestamp m \<noteq> 0 then WriteInt64ToArray 7 (md_timestamp m) else []) ?a3 ?a4"
    by (rule reads_opt [OF md_reads_timestamp [OF assms(1)]])
  have "md_reads lib (MonitorData_InternalSerialize lib m) a ?a4"
    unfolding md_serialize_eq [OF assms(1) u]
    by (rule reads_append [OF r1 reads_append [OF r2 reads_append [OF r3 r4]]])
  then have "MonitorData_InternalParse lib (MonitorData_InternalSerialize lib m) a = AtLimit ?a4"
    unfolding MonitorData_InternalParse_def by (rule reads_whole)
  moreover have "?a4 = MonitorData_MergeImpl lib a m"
    using assms(1) u
    by (auto simp: MonitorData_MergeImpl_def MonitorData_set_id_def MonitorData_set_item_def
        MonitorData_set_timestamp_def Let_def lib_ok_def unknown_ok_def simp flip: take_value_timestamp
        intro!: arg_cong [where f = "MonitorData_take_value m"])
  ultimately show ?thesis by simp
qed

text \<open>
  The union of a message that was made by setting at most one value: tag and member agree, and no member is
  left over from before.
\<close>

definition md_fresh :: "'u MonitorData \<Rightarrow> bool" where
  "md_fresh m \<longleftrightarrow>
     (md_oneof_case m = kStringValue \<and> md_union m = String_owned (MonitorData_string_value m))
     \<or> (md_oneof_case m = kIntValue \<and> md_union m = Int_member (MonitorData_int_value m))
     \<or> (md_oneof_case m = kDoubleValue \<and> md_union m = Double_member (MonitorData_double_value m))
     \<or> (md_oneof_case m = VALUE_NOT_SET \<and> md_union m = Constinit)"

lemmas set_value_defs = MonitorData_set_string_value_def MonitorData_init_string_def MonitorData_set_int_value_def
  MonitorData_set_double_value_def MonitorData_clear_value_def MonitorData_set_has_string_value_def
  MonitorData_set_has_int_value_def MonitorData_set_has_double_value_def

lemmas union_defs = overwritable_def string_InitDefault_def string_InitAllocated_def string_Get_def string_Mutable_def
  string_Set_def string_Release_def string_Destroy_def store_int_def load_int_def store_double_def load_double_def

lemma MonitorData_merge_default:
  assumes "lib_ok lib" and "md_unknown m = unknown_none lib" and "md_fresh m"
  shows "MonitorData_MergeImpl lib (MonitorData_default lib) m = m"
  using assms
  by (cases m)
    (auto simp: MonitorData_MergeImpl_def MonitorData_default_def MonitorData_set_id_def
      MonitorData_set_item_def MonitorData_set_timestamp_def Let_def lib_ok_def unknown_ok_def md_fresh_def
      MonitorData_take_value_def set_value_defs md_has_defs MonitorData_value_case_def union_defs)

lemma MonitorData_size:
  assumes "lib_ok lib" and "md_ok lib m"
  shows "MonitorData_ByteSizeLong lib m = length (MonitorData_InternalSerialize lib m)"
proof -
  have u: "md_unknown m = unknown_none lib"
    using assms(2) by (simp add: md_ok_def)
  have s: "length (WriteStringMaybeAliased lib num t) = 1 + StringSize t"
    if "str_ok lib t" "num = 3 \<or> num = 4" for t num
    using that length_WriteString [OF assms(1), of t num]
    by (auto simp: str_ok_def pb_max_def WriteTag_values)
  have v: "length (md_value_bytes lib m) =
      (if MonitorData_value_case m = kStringValue then 1 + StringSize (MonitorData_string_value m)
       else if MonitorData_value_case m = kIntValue then Int64SizePlusOne (MonitorData_int_value m)
       else if MonitorData_value_case m = kDoubleValue then 1 + 8 else 0)"
    using assms(2) by (simp add: md_value_bytes_def md_ok_def md_has_defs s length_WriteInt64 length_WriteDouble WriteTag_values)
  have i: "md_item m \<noteq> [] \<Longrightarrow> length (WriteStringMaybeAliased lib 3 (md_item m)) = 1 + StringSize (md_item m)"
    using assms(2) by (intro s) (simp_all add: md_ok_def)
  show ?thesis
    unfolding md_serialize_eq [OF assms(1) u] using assms(1) u
    by (simp add: MonitorData_ByteSizeLong_def MaybeComputeUnknownFieldsSize_def lib_ok_def unknown_ok_def
        v i length_WriteInt32 length_WriteInt64 WriteTag_values)
qed

subsection \<open>\<open>ReportMessage\<close>\<close>

definition rm_ok :: "'u pb_lib \<Rightarrow> 'u ReportMessage \<Rightarrow> bool" where
  "rm_ok lib m \<longleftrightarrow>
     (rm_message_type m = [] \<or> str_ok lib (rm_message_type m))
     \<and> (rm_host m = [] \<or> str_ok lib (rm_host m))
     \<and> list_all (md_ok lib) (rm_data m) \<and> rm_unknown m = unknown_none lib"

abbreviation rm_reads where
  "rm_reads lib \<equiv> reads lib rm_unknown (\<lambda>u m. m\<lparr>rm_unknown := u\<rparr>) (ReportMessage_switch lib)"

lemma rm_switch_tags:
  "ReportMessage_switch lib 10 m p = parse_string lib (\<lambda>s. ReportMessage_mutable_message_type (\<lambda>_. s)) m p"
  "ReportMessage_switch lib 18 m p = parse_string lib (\<lambda>s. ReportMessage_mutable_host (\<lambda>_. s)) m p"
  "ReportMessage_switch lib 26 m p
     = parse_msgs (ParseMessage lib (MonitorData_InternalParse lib) (MonitorData_default lib))
         (\<lambda>d. ReportMessage_add_data lib (\<lambda>_. d)) 26 (Suc (length p)) m p"
  by (simp_all add: ReportMessage_switch_def tag_is_def Let_def)

lemma rm_reads_type:
  "lib_ok lib \<Longrightarrow> str_ok lib s \<Longrightarrow> rm_reads lib (WriteStringMaybeAliased lib 1 s) a (a\<lparr>rm_message_type := s\<rparr>)"
  by (simp add: WriteString_eq WriteTag_values)
    (rule reads_field; simp add: rm_switch_tags parse_string_enc [simplified] str_ok_def
      ReportMessage_mutable_message_type_def)

lemma rm_reads_host:
  "lib_ok lib \<Longrightarrow> str_ok lib s \<Longrightarrow> rm_reads lib (WriteStringMaybeAliased lib 2 s) a (a\<lparr>rm_host := s\<rparr>)"
  by (simp add: WriteString_eq WriteTag_values)
    (rule reads_field; simp add: rm_switch_tags parse_string_enc [simplified] str_ok_def
      ReportMessage_mutable_host_def)

definition md_enc :: "'u pb_lib \<Rightarrow> 'u MonitorData \<Rightarrow> byte list" where
  "md_enc lib d =
     UnsafeVarint (of_nat (length (MonitorData_InternalSerialize lib d))) @ MonitorData_InternalSerialize lib d"

definition data_bytes :: "'u pb_lib \<Rightarrow> 'u MonitorData list \<Rightarrow> byte list" where
  "data_bytes lib ds = concat (map (\<lambda>d. 26 # md_enc lib d) ds)"

lemma rm_serialize_eq:
  assumes "lib_ok lib" and "rm_ok lib m"
  shows "ReportMessage_InternalSerialize lib m =
     ((if rm_message_type m \<noteq> [] then WriteStringMaybeAliased lib 1 (rm_message_type m) else [])
      @ (if rm_host m \<noteq> [] then WriteStringMaybeAliased lib 2 (rm_host m) else []))
     @ data_bytes lib (rm_data m)"
proof -
  have "map (\<lambda>d. InternalWriteMessage lib 3 (MonitorData_ByteSizeLong lib d) (MonitorData_InternalSerialize lib d)) (rm_data m)
        = map (\<lambda>d. 26 # md_enc lib d) (rm_data m)"
  proof (rule map_cong [OF refl])
    fix d assume "d \<in> set (rm_data m)"
    then have "md_ok lib d"
      using assms(2) by (simp add: rm_ok_def list_all_iff)
    then show "InternalWriteMessage lib 3 (MonitorData_ByteSizeLong lib d) (MonitorData_InternalSerialize lib d)
        = 26 # md_enc lib d"
      using assms(1) MonitorData_size [OF assms(1)]
      by (simp add: lib_ok_def writers_ok_def WriteTag_values md_enc_def)
  qed
  then have "concat (map (\<lambda>d. InternalWriteMessage lib 3 (MonitorData_ByteSizeLong lib d)
      (MonitorData_InternalSerialize lib d)) (rm_data m)) = data_bytes lib (rm_data m)"
    by (simp only: data_bytes_def)
  moreover have "\<not> have_unknown_fields lib (rm_unknown m)"
    using assms by (simp add: rm_ok_def lib_ok_def unknown_ok_def)
  ultimately show ?thesis
    by (simp only: ReportMessage_InternalSerialize_def if_False append_Nil2 append_assoc)
qed

lemma md_parse_element:
  assumes "lib_ok lib" and "md_ok lib d"
  shows "ParseMessage lib (MonitorData_InternalParse lib) (MonitorData_default lib) (md_enc lib d @ rest)
         = Some (MonitorData_MergeImpl lib (MonitorData_default lib) d, rest)"
proof -
  have "length (MonitorData_InternalSerialize lib d) < pb_max"
    using MonitorData_size [OF assms] assms(2) by (simp add: md_ok_def)
  then show ?thesis
    unfolding md_enc_def append_assoc by (intro ParseMessage_enc assms(1) MonitorData_parse_merges [OF assms])
qed

lemma fold_add_data:
  "fold (\<lambda>d. ReportMessage_add_data lib (\<lambda>_. d)) ds m = m\<lparr>rm_data := rm_data m @ ds\<rparr>"
  by (induction ds arbitrary: m) (simp_all add: ReportMessage_add_data_def)

lemma length_data_bytes: "length ds \<le> length (data_bytes lib ds)"
  by (induction ds) (simp_all add: data_bytes_def)

lemma rm_parse_data:
  assumes "lib_ok lib" and "list_all (md_ok lib) (d # ds)"
  shows "parse_loop lib rm_unknown (\<lambda>u m. m\<lparr>rm_unknown := u\<rparr>) (ReportMessage_switch lib) (Suc (Suc n))
           (data_bytes lib (d # ds)) m = AtLimit (m\<lparr>rm_data := rm_data m @ copy_data lib (d # ds)\<rparr>)"
proof -
  let ?p = "md_enc lib d @ data_bytes lib ds"
  have "length ds < Suc (length ?p)"
    using length_data_bytes [of ds lib] by simp
  then have "ReportMessage_switch lib 26 m ?p = Parsed (m\<lparr>rm_data := rm_data m @ copy_data lib (d # ds)\<rparr>) []"
    unfolding rm_switch_tags data_bytes_def fold_add_data [of lib, symmetric] copy_data_def
    using assms md_parse_element by (intro parse_msgs_map) (auto simp: list_all_iff)
  moreover have "ReadTag lib (26 # ?p) = Some (26, ?p)"
    using ReadTag_small [of 26 lib ?p] by simp
  moreover have "data_bytes lib (d # ds) = 26 # ?p"
    by (simp add: data_bytes_def)
  ultimately show ?thesis
    by simp
qed

definition rm_fresh :: "'u ReportMessage \<Rightarrow> bool" where
  "rm_fresh m \<longleftrightarrow> list_all md_fresh (rm_data m)"

lemma copy_data_ok: "lib_ok lib \<Longrightarrow> list_all (md_ok lib) ds \<Longrightarrow> list_all md_fresh ds \<Longrightarrow> copy_data lib ds = ds"
  by (induction ds) (simp_all add: copy_data_def MonitorData_merge_default md_ok_def)

lemma report_merges:
  assumes "lib_ok lib" and "rm_ok lib m"
  shows "ReportMessage_InternalParse lib (ReportMessage_InternalSerialize lib m) a
         = AtLimit (ReportMessage_MergeImpl lib a m)"
proof -
  let ?a1 = "if rm_message_type m \<noteq> [] then a\<lparr>rm_message_type := rm_message_type m\<rparr> else a"
  let ?a2 = "if rm_host m \<noteq> [] then ?a1\<lparr>rm_host := rm_host m\<rparr> else ?a1"
  let ?a3 = "?a2\<lparr>rm_data := rm_data ?a2 @ copy_data lib (rm_data m)\<rparr>"
  have r1: "rm_reads lib (if rm_message_type m \<noteq> [] then WriteStringMaybeAliased lib 1 (rm_message_type m) else []) a ?a1"
    using assms(2) by (intro reads_opt rm_reads_type [OF assms(1)]) (simp add: rm_ok_def)
  have r2: "rm_reads lib (if rm_host m \<noteq> [] then WriteStringMaybeAliased lib 2 (rm_host m) else []) ?a1 ?a2"
    using assms(2) by (intro reads_opt rm_reads_host [OF assms(1)]) (simp add: rm_ok_def)
  have ds: "list_all (md_ok lib) (rm_data m)"
    using assms(2) by (simp add: rm_ok_def)
  have "ReportMessage_InternalParse lib (ReportMessage_InternalSerialize lib m) a = AtLimit ?a3"
    unfolding ReportMessage_InternalParse_def rm_serialize_eq [OF assms]
  proof (rule reads_tail [OF reads_append [OF r1 r2]])
    show "?a3 = ?a2" if "data_bytes lib (rm_data m) = []"
      using that length_data_bytes [of "rm_data m" lib] by (simp add: copy_data_def)
    show "parse_loop lib rm_unknown (\<lambda>u m. m\<lparr>rm_unknown := u\<rparr>) (ReportMessage_switch lib) (Suc (Suc n))
        (data_bytes lib (rm_data m)) ?a2 = AtLimit ?a3" if "data_bytes lib (rm_data m) \<noteq> []" for n
    proof (cases "rm_data m")
      case Nil
      then show ?thesis using that by (simp add: data_bytes_def)
    next
      case (Cons d es)
      then show ?thesis
        using rm_parse_data [OF assms(1), of d es] ds by simp
    qed
  qed
  moreover have "?a3 = ReportMessage_MergeImpl lib a m"
    using assms
    by (simp add: ReportMessage_MergeImpl_def ReportMessage_set_message_type_def ReportMessage_set_host_def
        Let_def rm_ok_def lib_ok_def unknown_ok_def)
  ultimately show ?thesis by simp
qed

lemma report_merge_empty:
  assumes "lib_ok lib" and "rm_ok lib m" and "rm_fresh m"
  shows "ReportMessage_MergeImpl lib (ReportMessage_Clear lib a) m = m"
  using assms copy_data_ok [of lib "rm_data m"]
  by (cases m)
    (simp add: ReportMessage_MergeImpl_def ReportMessage_Clear_def ReportMessage_clear_host_def
      ReportMessage_clear_message_type_def ReportMessage_clear_data_def ReportMessage_set_message_type_def
      ReportMessage_set_host_def Let_def rm_ok_def rm_fresh_def lib_ok_def unknown_ok_def)

lemma report_roundtrip:
  assumes "lib_ok lib" and "rm_ok lib m" and "rm_fresh m"
  shows "ReportMessage_InternalParse lib (ReportMessage_InternalSerialize lib m) (ReportMessage_Clear lib a)
         = AtLimit m"
  using report_merges [OF assms(1,2), of "ReportMessage_Clear lib a"] report_merge_empty [OF assms, of a] by simp

text \<open>
  C17. Parsing concatenates: a serialized report parsed into any report merges the two, that is, the
  measurements are appended and the non-empty strings replace the old ones. All of the input is
  consumed and nothing of the message is lost. This is for reports that hold no unknown fields, whose
  strings pass the UTF-8 check and whose measurements are smaller than the library's limit.
\<close>

theorem report_parse_merges:
  assumes "lib_ok lib" and "rm_ok lib m"
  shows "ReportMessage_InternalParse lib (ReportMessage_InternalSerialize lib m) a
         = AtLimit (ReportMessage_MergeImpl lib a m)"
  by (rule report_merges [OF assms])

text \<open>
  Copies: \<open>CopyFrom\<close>, the copy constructor and a serialization parsed into a cleared object all
  reproduce the report, whatever the target held before; moving exchanges the two reports or
  copies.
\<close>

theorem report_copies:
  assumes "lib_ok lib" and "rm_ok lib m" and "rm_fresh m"
  shows "ReportMessage_CopyFrom lib a m = m \<and> ReportMessage_copy lib m = m
         \<and> ReportMessage_InternalParse lib (ReportMessage_InternalSerialize lib m) (ReportMessage_Clear lib a) = AtLimit m
         \<and> fst (ReportMessage_move lib same_arena a m) = m"
proof -
  have "ReportMessage_copy lib m = m"
    using assms copy_data_ok [of lib "rm_data m"]
    by (cases m)
      (simp add: ReportMessage_copy_def ReportMessage_default_def ReportMessage_set_message_type_def
        ReportMessage_set_host_def Let_def rm_ok_def rm_fresh_def lib_ok_def unknown_ok_def)
  then show ?thesis
    using report_roundtrip [OF assms] report_merge_empty [OF assms]
    by (simp add: ReportMessage_CopyFrom_def ReportMessage_move_def ReportMessage_InternalSwap_def)
qed

lemma report_size:
  assumes "lib_ok lib" and "rm_ok lib m"
  shows "ReportMessage_ByteSizeLong lib m = length (ReportMessage_InternalSerialize lib m)"
proof -
  have s: "length (WriteStringMaybeAliased lib num t) = 1 + StringSize t"
    if "str_ok lib t" "num = 1 \<or> num = 2" for t num
    using that length_WriteString [OF assms(1), of t num]
    by (auto simp: str_ok_def pb_max_def WriteTag_values)
  have e: "length (InternalWriteMessage lib 3 (MonitorData_ByteSizeLong lib d) (MonitorData_InternalSerialize lib d))
      = 1 + LengthDelimitedSize (MonitorData_ByteSizeLong lib d)" if "md_ok lib d" for d
    using that MonitorData_size [OF assms(1) that]
    by (intro length_InternalWriteMessage [OF assms(1)]) (auto simp: md_ok_def pb_max_def WriteTag_values)
  have d: "length (concat (map (\<lambda>d. InternalWriteMessage lib 3 (MonitorData_ByteSizeLong lib d)
        (MonitorData_InternalSerialize lib d)) ds))
      = length ds + sum_list (map (\<lambda>d. LengthDelimitedSize (MonitorData_ByteSizeLong lib d)) ds)"
    if "list_all (md_ok lib) ds" for ds
    using that by (induction ds) (simp_all add: e)
  show ?thesis
    using assms d [of "rm_data m"] s
    by (auto simp: ReportMessage_ByteSizeLong_def ReportMessage_InternalSerialize_def ReportMessage_data_size_def
        MaybeComputeUnknownFieldsSize_def rm_ok_def lib_ok_def unknown_ok_def)
qed

text \<open>
  \<open>ByteSizeLong\<close> of a report, the sum the serializer's buffer is allocated by, is the number of
  bytes \<open>_InternalSerialize\<close> writes, element sizes and their length prefixes included.
\<close>

theorem report_size_exact:
  assumes "lib_ok lib" and "rm_ok lib m"
  shows "ReportMessage_ByteSizeLong lib m = length (ReportMessage_InternalSerialize lib m)"
  by (rule report_size [OF assms])

subsection \<open>A concrete report\<close>

definition demo_report :: "unit ReportMessage" where
  "demo_report =
     \<lparr>rm_data = [\<lparr>md_item = [99, 112, 117], md_timestamp = 300, md_id = 7,
                 md_union = Double_member 0x3FF8000000000000, md_oneof_case = kDoubleValue, md_unknown = ()\<rparr>,
               \<lparr>md_item = [], md_timestamp = 0, md_id = -1, md_union = String_owned [], md_oneof_case = kStringValue, md_unknown = ()\<rparr>],
      rm_message_type = [114], rm_host = [], rm_unknown = ()\<rparr>"

lemma demo_report_sizes: "map (MonitorData_ByteSizeLong demo_pb) (rm_data demo_report) = [19, 13]"
  by code_simp

lemma demo_report_ok: "rm_ok demo_pb demo_report"
proof -
  have "MonitorData_ByteSizeLong demo_pb d < pb_max" if "d \<in> set (rm_data demo_report)" for d
  proof -
    have "MonitorData_ByteSizeLong demo_pb d \<in> set (map (MonitorData_ByteSizeLong demo_pb) (rm_data demo_report))"
      using that by simp
    then show ?thesis
      unfolding demo_report_sizes by (auto simp: pb_max_def)
  qed
  moreover have "str_ok demo_pb [99, 112, 117]" "str_ok demo_pb []" "str_ok demo_pb [114]"
    by (simp_all add: str_ok_def demo_pb_def pb_max_def)
  ultimately show ?thesis
    by (simp add: rm_ok_def md_ok_def demo_report_def md_has_defs MonitorData_value_case_def MonitorData_string_value_def
        string_Get_def)
qed

lemma demo_report_fresh: "rm_fresh demo_report"
  by (simp add: rm_fresh_def md_fresh_def demo_report_def md_has_defs MonitorData_value_case_def MonitorData_string_value_def
      MonitorData_double_value_def union_defs)

theorem report_parse_merges_witness:
  "ReportMessage_InternalParse demo_pb (ReportMessage_InternalSerialize demo_pb demo_report) demo_report
   = AtLimit (demo_report\<lparr>rm_data := rm_data demo_report @ rm_data demo_report\<rparr>)"
proof -
  have "copy_data demo_pb (rm_data demo_report) = rm_data demo_report"
    using copy_data_ok [OF demo_pb_ok] demo_report_ok demo_report_fresh by (simp add: rm_ok_def rm_fresh_def)
  then have "ReportMessage_MergeImpl demo_pb demo_report demo_report
      = demo_report\<lparr>rm_data := rm_data demo_report @ rm_data demo_report\<rparr>"
    by (simp add: ReportMessage_MergeImpl_def ReportMessage_set_message_type_def demo_report_def demo_pb_def)
  then show ?thesis
    using report_parse_merges [OF demo_pb_ok demo_report_ok, of demo_report] by simp
qed

theorem report_copies_witness:
  "ReportMessage_copy demo_pb demo_report = demo_report"
  using report_copies [OF demo_pb_ok demo_report_ok demo_report_fresh, of demo_report False] by simp

theorem report_size_exact_witness:
  "ReportMessage_ByteSizeLong demo_pb demo_report = length (ReportMessage_InternalSerialize demo_pb demo_report)"
  by (rule report_size_exact [OF demo_pb_ok demo_report_ok])

end
