(* ===== verification/Report_Oneof.thy ===== *)
theory Report_Oneof
  imports Report_Props
begin

section \<open>The oneof of \<open>MonitorData\<close> is never misused\<close>

text \<open>
  The union has no tag of its own: reading a member that was not stored, or overwriting a string that
  is still owned, is undefined. Every operation of the generated class keeps tag and union in
  agreement, parsing of arbitrary input included.
\<close>

definition oneof_ok :: "'u MonitorData \<Rightarrow> bool" where
  "oneof_ok m \<longleftrightarrow>
     md_oneof_case m \<in> {VALUE_NOT_SET, kStringValue, kIntValue, kDoubleValue}
     \<and> md_union m \<noteq> Misused
     \<and> (md_oneof_case m = kStringValue \<longleftrightarrow> (\<exists>s. md_union m = String_owned s))
     \<and> (md_oneof_case m = kIntValue \<longrightarrow> (\<exists>v. md_union m = Int_member v))
     \<and> (md_oneof_case m = kDoubleValue \<longrightarrow> (\<exists>v. md_union m = Double_member v))"

text \<open>
  The messages a program can make: new ones and copies, changed by the accessors, by merging, copying,
  swapping and by parsing any bytes that are not rejected.
\<close>

inductive MonitorData_made :: "'u pb_lib \<Rightarrow> 'u MonitorData \<Rightarrow> bool" for lib where
  made_new: "MonitorData_made lib (MonitorData_default lib)"
| made_copy: "MonitorData_made lib from \<Longrightarrow> MonitorData_made lib (MonitorData_copy lib from)"
| made_item: "MonitorData_made lib m \<Longrightarrow> MonitorData_made lib (MonitorData_mutable_item f m)"
| made_set_item: "MonitorData_made lib m \<Longrightarrow> MonitorData_made lib (MonitorData_set_item s m)"
| made_clear_item: "MonitorData_made lib m \<Longrightarrow> MonitorData_made lib (MonitorData_clear_item m)"
| made_release_item: "MonitorData_made lib m \<Longrightarrow> MonitorData_made lib (snd (MonitorData_release_item m))"
| made_allocated_item: "MonitorData_made lib m \<Longrightarrow> MonitorData_made lib (MonitorData_set_allocated_item so m)"
| made_id: "MonitorData_made lib m \<Longrightarrow> MonitorData_made lib (MonitorData_set_id i m)"
| made_clear_id: "MonitorData_made lib m \<Longrightarrow> MonitorData_made lib (MonitorData_clear_id m)"
| made_timestamp: "MonitorData_made lib m \<Longrightarrow> MonitorData_made lib (MonitorData_set_timestamp t m)"
| made_clear_timestamp: "MonitorData_made lib m \<Longrightarrow> MonitorData_made lib (MonitorData_clear_timestamp m)"
| made_clear_value: "MonitorData_made lib m \<Longrightarrow> MonitorData_made lib (MonitorData_clear_value m)"
| made_string: "MonitorData_made lib m \<Longrightarrow> MonitorData_made lib (MonitorData_set_string_value s m)"
| made_mutable: "MonitorData_made lib m \<Longrightarrow> MonitorData_made lib (MonitorData_mutable_string_value f m)"
| made_release: "MonitorData_made lib m \<Longrightarrow> MonitorData_made lib (snd (MonitorData_release_string_value m))"
| made_allocated: "MonitorData_made lib m \<Longrightarrow> MonitorData_made lib (MonitorData_set_allocated_string_value so m)"
| made_clear_string: "MonitorData_made lib m \<Longrightarrow> MonitorData_made lib (MonitorData_clear_string_value m)"
| made_int: "MonitorData_made lib m \<Longrightarrow> MonitorData_made lib (MonitorData_set_int_value v m)"
| made_clear_int: "MonitorData_made lib m \<Longrightarrow> MonitorData_made lib (MonitorData_clear_int_value m)"
| made_double: "MonitorData_made lib m \<Longrightarrow> MonitorData_made lib (MonitorData_set_double_value v m)"
| made_clear_double: "MonitorData_made lib m \<Longrightarrow> MonitorData_made lib (MonitorData_clear_double_value m)"
| made_Clear: "MonitorData_made lib m \<Longrightarrow> MonitorData_made lib (MonitorData_Clear lib m)"
| made_merge: "MonitorData_made lib m \<Longrightarrow> MonitorData_made lib from \<Longrightarrow> MonitorData_made lib (MonitorData_MergeImpl lib m from)"
| made_assign: "MonitorData_made lib m \<Longrightarrow> MonitorData_made lib from
    \<Longrightarrow> MonitorData_made lib (fst (MonitorData_move lib same_arena m from))"
| made_moved: "MonitorData_made lib m \<Longrightarrow> MonitorData_made lib from
    \<Longrightarrow> MonitorData_made lib (snd (MonitorData_move lib same_arena m from))"
| made_parsed: "MonitorData_made lib m \<Longrightarrow> MonitorData_InternalParse lib p m = AtLimit m'
    \<Longrightarrow> MonitorData_made lib m'"
| made_parsed_tag: "MonitorData_made lib m \<Longrightarrow> MonitorData_InternalParse lib p m = AtTag m' tag rest
    \<Longrightarrow> MonitorData_made lib m'"

subsection \<open>The operations on the union\<close>

lemma oneof_other_fields [simp]:
  "oneof_ok (m\<lparr>md_item := s\<rparr>) = oneof_ok m" "oneof_ok (m\<lparr>md_timestamp := t\<rparr>) = oneof_ok m"
  "oneof_ok (m\<lparr>md_id := i\<rparr>) = oneof_ok m" "oneof_ok (m\<lparr>md_unknown := u\<rparr>) = oneof_ok m"
  by (simp_all add: oneof_ok_def)

lemma oneof_clear:
  assumes "oneof_ok m"
  shows "oneof_ok (MonitorData_clear_value m)" and "overwritable (md_union (MonitorData_clear_value m))"
    and "md_oneof_case (MonitorData_clear_value m) = VALUE_NOT_SET"
  using assms by (auto simp: oneof_ok_def MonitorData_clear_value_def MonitorData_value_case_def union_defs
      split: value_union.splits)

lemma oneof_overwritable: "oneof_ok m \<Longrightarrow> md_oneof_case m \<noteq> kStringValue \<Longrightarrow> overwritable (md_union m)"
  by (auto simp: oneof_ok_def overwritable_def split: value_union.splits)

lemma oneof_init_string:
  assumes "oneof_ok m"
  shows "md_oneof_case (MonitorData_init_string m) = kStringValue"
    and "\<exists>s. md_union (MonitorData_init_string m) \<in> {String_default, String_owned s}"
  using assms oneof_clear(2) [OF assms]
  by (auto simp: MonitorData_init_string_def MonitorData_set_has_string_value_def MonitorData_has_string_value_def
      MonitorData_value_case_def string_InitDefault_def Let_def oneof_ok_def)

lemma oneof_mutable: "oneof_ok m \<Longrightarrow> oneof_ok (MonitorData_mutable_string_value f m)"
  using oneof_init_string [of m]
  by (auto simp: MonitorData_mutable_string_value_def string_Mutable_def oneof_ok_def Let_def)

lemma oneof_set_string: "oneof_ok m \<Longrightarrow> oneof_ok (MonitorData_set_string_value s m)"
  using oneof_mutable [of m "\<lambda>_. s"] by simp

lemma oneof_set_int: "oneof_ok m \<Longrightarrow> oneof_ok (MonitorData_set_int_value v m)"
  using oneof_clear(2) [of m] oneof_overwritable [of m]
  by (auto simp: MonitorData_set_int_value_def MonitorData_set_has_int_value_def MonitorData_has_int_value_def
      MonitorData_value_case_def store_int_def oneof_ok_def Let_def)

lemma oneof_set_double: "oneof_ok m \<Longrightarrow> oneof_ok (MonitorData_set_double_value v m)"
  using oneof_clear(2) [of m] oneof_overwritable [of m]
  by (auto simp: MonitorData_set_double_value_def MonitorData_set_has_double_value_def MonitorData_has_double_value_def
      MonitorData_value_case_def store_double_def oneof_ok_def Let_def)

lemma oneof_clear_members:
  assumes "oneof_ok m"
  shows "oneof_ok (MonitorData_clear_string_value m)" "oneof_ok (MonitorData_clear_int_value m)"
    "oneof_ok (MonitorData_clear_double_value m)" "oneof_ok (snd (MonitorData_release_string_value m))"
  using assms
  by (auto simp: oneof_ok_def MonitorData_clear_string_value_def MonitorData_clear_int_value_def
      MonitorData_clear_double_value_def MonitorData_release_string_value_def MonitorData_clear_has_value_def
      md_has_defs MonitorData_value_case_def union_defs Let_def)

lemma oneof_set_allocated: "oneof_ok m \<Longrightarrow> oneof_ok (MonitorData_set_allocated_string_value so m)"
  using oneof_clear [of m] oneof_overwritable [of m]
  by (auto simp: MonitorData_set_allocated_string_value_def MonitorData_set_has_string_value_def
      MonitorData_has_value_def MonitorData_value_case_def string_InitAllocated_def Let_def split: option.split)
    (auto simp: oneof_ok_def)

lemma oneof_take: "oneof_ok m \<Longrightarrow> oneof_ok (MonitorData_take_value from m)"
  by (simp add: MonitorData_take_value_def oneof_set_string oneof_set_int oneof_set_double)

subsection \<open>Whole messages\<close>

lemma oneof_default: "oneof_ok (MonitorData_default lib)"
  by (simp add: oneof_ok_def MonitorData_default_def)

lemma oneof_unset: "md_oneof_case m = VALUE_NOT_SET \<Longrightarrow> md_union m = Constinit \<Longrightarrow> oneof_ok m"
  by (simp add: oneof_ok_def)

lemma oneof_copy: "oneof_ok (MonitorData_copy lib from)"
  unfolding MonitorData_copy_def Let_def
  by (rule oneof_take, rule oneof_unset)
    (simp_all add: MonitorData_clear_has_value_def MonitorData_set_item_def MonitorData_default_def)

lemma oneof_Clear: "oneof_ok m \<Longrightarrow> oneof_ok (MonitorData_Clear lib m)"
  by (simp add: MonitorData_Clear_def MonitorData_clear_item_def oneof_clear)

lemma oneof_merge: "oneof_ok m \<Longrightarrow> oneof_ok (MonitorData_MergeImpl lib m from)"
  by (simp add: MonitorData_MergeImpl_def MonitorData_set_item_def MonitorData_set_timestamp_def
      MonitorData_set_id_def Let_def oneof_take)

text \<open>A parse loop keeps what its switch keeps.\<close>

lemma parse_loop_keeps:
  assumes "\<And>tag m p m1 p1. P m \<Longrightarrow> switch tag m p = Parsed m1 p1 \<Longrightarrow> P m1" and "\<And>u m. P m \<Longrightarrow> P (put_u u m)" and "P m"
  shows "case parse_loop lib get_u put_u switch n p m of AtLimit m' \<Rightarrow> P m' | AtTag m' tag rest \<Rightarrow> P m' | Failure \<Rightarrow> True"
  using assms(3)
proof (induction n arbitrary: p m)
  case (Suc n)
  show ?case
    using Suc.prems Suc.IH assms(1,2)
    by (auto split: option.split field_result.split)
qed simp

lemma oneof_switch:
  assumes "oneof_ok m" and "MonitorData_switch lib tag m p = Parsed m1 p1"
  shows "oneof_ok m1"
  using assms
  by (auto simp: MonitorData_switch_def parse_int32_def parse_int64_def parse_string_def parse_double_def Let_def
      MonitorData_mutable_item_def oneof_set_string oneof_set_int oneof_set_double
      split: if_splits option.splits)

lemma oneof_parse:
  assumes "oneof_ok m"
  shows "case MonitorData_InternalParse lib p m of AtLimit m' \<Rightarrow> oneof_ok m' | AtTag m' tag rest \<Rightarrow> oneof_ok m' | Failure \<Rightarrow> True"
  unfolding MonitorData_InternalParse_def
  by (rule parse_loop_keeps [where P = oneof_ok, OF oneof_switch _ assms]) simp_all

lemma made_oneof: "MonitorData_made lib m \<Longrightarrow> oneof_ok m"
proof (induction rule: MonitorData_made.induct)
  case (made_parsed m p m')
  then show ?case
    using oneof_parse [of m lib p] by simp
next
  case (made_parsed_tag m p m' tag rest)
  then show ?case
    using oneof_parse [of m lib p] by simp
next
  case (made_assign m "from" same_arena)
  then show ?case
    by (simp add: MonitorData_move_def MonitorData_InternalSwap_def MonitorData_CopyFrom_def oneof_merge oneof_Clear)
next
  case (made_moved m "from" same_arena)
  then show ?case
    by (simp add: MonitorData_move_def MonitorData_InternalSwap_def)
qed (simp_all add: oneof_default oneof_copy oneof_clear oneof_set_string oneof_mutable oneof_clear_members
    oneof_set_allocated oneof_set_int oneof_set_double oneof_Clear oneof_merge MonitorData_mutable_item_def
    MonitorData_set_item_def MonitorData_clear_item_def MonitorData_release_item_def MonitorData_set_allocated_item_def
    MonitorData_set_id_def MonitorData_clear_id_def MonitorData_set_timestamp_def MonitorData_clear_timestamp_def)

subsection \<open>Accessors\<close>

lemma oneof_getters:
  assumes "oneof_ok m"
  shows "md_union (MonitorData_set_string_value s m) = String_owned s"
    and "md_union (MonitorData_set_int_value v m) = Int_member v"
    and "md_union (MonitorData_set_double_value w m) = Double_member w"
  using oneof_set_string [OF assms, of s] oneof_set_int [OF assms, of v] oneof_set_double [OF assms, of w]
  by (auto simp: MonitorData_set_string_value_def MonitorData_set_int_value_def MonitorData_set_double_value_def
      string_Set_def string_Mutable_def store_int_def store_double_def oneof_ok_def Let_def
      split: value_union.splits if_splits)

lemma oneof_tags:
  "md_oneof_case (MonitorData_set_string_value s m) = kStringValue"
  "md_oneof_case (MonitorData_set_int_value v m) = kIntValue"
  "md_oneof_case (MonitorData_set_double_value w m) = kDoubleValue"
  by (auto simp: set_value_defs md_has_defs MonitorData_value_case_def Let_def)

text \<open>
  C40. The oneof of \<open>MonitorData\<close>. In every message that the class's operations can make, parsing of
  arbitrary bytes included, the tag names the member of the union that was stored last, no string
  is overwritten without having been destroyed, and none is kept when the tag names another
  member. Hence each setter's value is what its getter returns afterwards, with the other two
  getters at their defaults, and clearing one member clears the oneof exactly when that member is
  the one set.
\<close>

theorem MonitorData_oneof:
  assumes "MonitorData_made lib m"
  shows "oneof_ok m
   \<and> MonitorData_has_string_value (MonitorData_set_string_value s m)
   \<and> MonitorData_string_value (MonitorData_set_string_value s m) = s
   \<and> MonitorData_int_value (MonitorData_set_string_value s m) = 0
   \<and> MonitorData_double_value (MonitorData_set_string_value s m) = 0
   \<and> MonitorData_has_int_value (MonitorData_set_int_value v m)
   \<and> MonitorData_int_value (MonitorData_set_int_value v m) = v
   \<and> MonitorData_string_value (MonitorData_set_int_value v m) = []
   \<and> MonitorData_double_value (MonitorData_set_int_value v m) = 0
   \<and> MonitorData_has_double_value (MonitorData_set_double_value w m)
   \<and> MonitorData_double_value (MonitorData_set_double_value w m) = w
   \<and> MonitorData_string_value (MonitorData_set_double_value w m) = []
   \<and> MonitorData_int_value (MonitorData_set_double_value w m) = 0
   \<and> MonitorData_has_value (MonitorData_clear_string_value m)
       = (MonitorData_has_value m \<and> \<not> MonitorData_has_string_value m)
   \<and> MonitorData_has_value (MonitorData_clear_int_value m)
       = (MonitorData_has_value m \<and> \<not> MonitorData_has_int_value m)
   \<and> MonitorData_has_value (MonitorData_clear_double_value m)
       = (MonitorData_has_value m \<and> \<not> MonitorData_has_double_value m)"
  using made_oneof [OF assms] oneof_getters [OF made_oneof [OF assms]]
  by (simp add: oneof_tags md_has_defs MonitorData_value_case_def MonitorData_string_value_def MonitorData_int_value_def
      MonitorData_double_value_def string_Get_def load_int_def load_double_def MonitorData_has_value_def
      MonitorData_clear_string_value_def MonitorData_clear_int_value_def MonitorData_clear_double_value_def
      MonitorData_clear_has_value_def)

text \<open>A string replaced by a number.\<close>

theorem MonitorData_oneof_witness:
  "oneof_ok (MonitorData_set_string_value [114] (MonitorData_default demo_pb))
   \<and> MonitorData_int_value (MonitorData_set_int_value 7 (MonitorData_set_string_value [114] (MonitorData_default demo_pb))) = 7"
proof -
  have "MonitorData_made demo_pb (MonitorData_set_string_value [114] (MonitorData_default demo_pb))"
    by (intro MonitorData_made.intros)
  from MonitorData_oneof [OF this, of "[]" 7 0] show ?thesis
    by simp
qed

end
