(* ===== verification/Sender_Json.thy ===== *)
theory Sender_Json
  imports Sender_Props Json_Serializer
begin

section \<open>The packets of \<open>Sender\<close> with the serializer of the library\<close>

text \<open>
  \<open>Sender::buildPacket\<close> builds the object with the members \<open>type\<close> and \<open>items\<close> and dumps it. The theory
  \<open>Sender\<close> has the dump as a parameter; here it is \<open>dump_default\<close>, which may throw.
\<close>

definition batch_root :: "json_value list \<Rightarrow> json_value option" where
  "batch_root batch =
     Option.bind (json_set (lit ''type'') (String_value (lit ''data'')) Null) (\<lambda>root.
       json_set (lit ''items'') (Array batch) root)"

definition buildPacket_json ::
  "endian \<Rightarrow> json_value list \<Rightarrow> (json_error + byte list) option" where
  "buildPacket_json e batch =
     map_option (\<lambda>root. map_sum id (\<lambda>body. buildPacket e (\<lambda>_. body) batch) (dump_default root))
       (batch_root batch)"

lemma batch_root_eq:
  "batch_root batch = Some (Object [(lit ''items'', Array batch), (lit ''type'', String_value (lit ''data''))])"
  by (simp add: batch_root_def json_set_def lit_def)

lemma batch_strings:
  "list_all utf8_text (json_strings (Object [(lit ''items'', Array batch), (lit ''type'', String_value (lit ''data''))]))
   \<longleftrightarrow> list_all (\<lambda>v. list_all utf8_text (json_strings v)) batch"
proof -
  have "utf8_text (lit ''items'')" "utf8_text (lit ''type'')" "utf8_text (lit ''data'')"
    by (auto simp: lit_def)
  then show ?thesis
    by (simp add: list_all_iff)
qed

lemma buildPacket_json_cases:
  "if list_all (\<lambda>v. list_all utf8_text (json_strings v)) batch
         then \<exists>body. utf8_text body \<and> dump_default (the (batch_root batch)) = Inr body
                \<and> buildPacket_json e batch = Some (Inr (be_bytes 4 (of_nat (length body) :: u32) @ body))
         else \<exists>err. buildPacket_json e batch = Some (Inl err)"
proof -
  have b: "buildPacket e (\<lambda>_. body) batch = be_bytes 4 (of_nat (length body) :: u32) @ body" for body
    by (simp add: buildPacket_def Let_def net32.net_image)
  show ?thesis
    using dump_default_cases [of "the (batch_root batch)"] batch_strings [of batch]
    by (auto simp: buildPacket_json_def batch_root_eq b split: if_splits)
qed

text \<open>
  C22. Building a packet succeeds exactly when every string and every object key of the queued items is
  UTF-8. Otherwise \<open>dump\<close> throws, in the worker thread and outside of any handler, although
  \<open>enqueue\<close> had accepted the item. A packet that is built is the 32-bit length in network order
  and that many bytes of UTF-8.
\<close>

theorem buildPacket_json_outcome:
  "(\<exists>err. buildPacket_json e batch = Some (Inl err))
           = (\<not> list_all (\<lambda>v. list_all utf8_text (json_strings v)) batch)
         \<and> (\<exists>body. buildPacket_json e batch = Some (Inr (be_bytes 4 (of_nat (length body) :: u32) @ body))
              \<and> utf8_text body)
           = list_all (\<lambda>v. list_all utf8_text (json_strings v)) batch"
  using buildPacket_json_cases [of batch e] by (auto split: if_splits)

theorem buildPacket_json_outcome_witness:
  "\<exists>err. buildPacket_json LittleEndian [String_value [0xC3]] = Some (Inl err)"
proof -
  have d: "fst (decode_all (0, 0) [0xC3]) = 2"
    using decode_state [of 0 0 "0xC3"] by (simp add: decode_all_def first_state)
  have "\<not> utf8_text [0xC3]"
  proof
    assume "utf8_text [0xC3]"
    then obtain cs where "list_all scalar cs" "[0xC3] = concat (map utf8 cs)"
      unfolding utf8_text_def by blast
    then show False
      using decode_all_utf8 [of cs 0] d by simp
  qed
  then show ?thesis
    using buildPacket_json_outcome [of LittleEndian "[String_value [0xC3]]"] by simp
qed

end
