(* ===== verification/Spec2Isabelle.thy ===== *)
theory Spec2Isabelle
  imports Byte_Order Checksum Ring_Buffer Tcp_Server Sender_Props Message Config DB_Operator
    Path_Utils Log_Files Rotating_Faults Whole_Program Http_Multipart_Props Models Items_Props Report_Oneof Sender_Json
begin

text \<open>
  A verification development of lite_monitor, a monitoring server written in C++.

  \<^bold>\<open>The program.\<close> Agents queue measurements in a \<open>Sender\<close> (\<open>src/sender/sender.cpp\<close>), whose worker
  thread sends batches over TCP and reconnects with a back-off. The server side is the trapper
  \<open>TcpServer\<close> (\<open>src/core/trapper/tcp_server.cpp\<close>), an epoll loop that cuts the byte stream of each
  connection into frames for a callback; message bodies travel in the envelope \<open>Message\<close>
  (\<open>src/common/protocol/message.h\<close>) with helpers for byte order and CRC-16. Data is kept in MySQL
  behind a pool of connections (\<open>src/core/db\<close>), and buffered in a bounded \<open>RingBuffer\<close>
  (\<open>src/common/utils/ring_buffer.h\<close>). \<open>main\<close> (\<open>src/lite_monitor.cpp\<close>) finds the configuration file
  next to the executable, loads and validates it, starts logging and serves HTTP.

  \<^bold>\<open>Theories and what they model.\<close>
  \<^item> \<open>Prelude\<close>: words as little-endian bytes, searching in strings, the named collections.
  \<^item> \<open>Byte_Order\<close>, \<open>Checksum\<close>: \<open>byteorder_utils.h\<close> for both host orders (locale \<open>net_codec\<close>) and
    \<open>checksum_utils.h\<close>. The bitwise CRC loop equals polynomial division, has residue 0, and
    separates messages that differ within two adjacent bytes.
  \<^item> \<open>Fifo_Spec\<close>, \<open>Ring_Buffer\<close>: the contract of a bounded queue as a locale, and \<open>ring_buffer.h\<close>, one
    critical section per operation, which refines it: elements come out in order, once, and a
    stopped buffer drains.
  \<^item> \<open>Stream_Spec\<close>, \<open>Framing\<close>, \<open>Tcp_Server\<close>: the contract of a scanner that may be fed in pieces, the
    loop of \<open>processBuffer\<close> as such a scanner, and the whole server with system call results as
    inputs (\<open>read\<close>, \<open>accept\<close>, \<open>epoll_wait\<close>). The framing is independent of the cuts and inverts the
    frame format; connections do not disturb each other; but no run of the event loop ever
    delivers a frame, because \<open>handleRead\<close> keeps the result of \<open>read\<close> in an unsigned variable.
  \<^item> \<open>Sender\<close>, \<open>Sender_Props\<close>: the queue, the socket, the packets and the worker; \<open>sender_step\<close> interleaves
    the callers of \<open>enqueue\<close> and \<open>stop\<close> with the worker. Nothing is lost or duplicated, the queue is
    bounded, packets decode, partial sends add up, the back-off is bounded, \<open>stop\<close> flushes when
    the server works and does not return while it is unreachable.
  \<^item> \<open>Message\<close>: the envelope with \<open>serialize\<close> and \<open>deserialize\<close> on memory with explicit bounds. No call of
    \<open>serialize\<close> is defined, because it has no return statement; \<open>serialize_payload\<close> is what it does before.
  \<^item> \<open>Varint\<close>, \<open>Wire_Format\<close>, \<open>Wire_Fields\<close>: the parts of the vendored protobuf headers the generated code is
    made of: varints and their sizes, tags, field readers and writers, the parse loop. What those
    headers only declare is the parameter \<open>pb_lib\<close>, its documented behaviour the hypothesis \<open>lib_ok\<close>, which
    \<open>Wire_Instance\<close> shows to be satisfiable.
  \<^item> \<open>Report_Proto\<close>, \<open>Report_Props\<close>, \<open>Items_Proto\<close>, \<open>Items_Props\<close>: the generated messages of \<open>include/proto\<close>.
    Parsing what was serialized merges it into the target, sizes are exact, copies are faithful.
    \<open>Report_Oneof\<close> shows that tag and union of a oneof agree in every message that the operations of the
    class and parsing can make.
  \<^item> \<open>Utf8\<close>, \<open>Json_Numbers\<close>, \<open>Json_Escape\<close>, \<open>Json_Serializer\<close>: what \<open>dump()\<close> of the vendored
    \<open>include/nlohmann/json.hpp\<close> runs. The decoder's table accepts exactly UTF-8; integers are written in
    decimal inside their buffer; escaping is the concatenation of the escaped code points across
    refills of its 512-byte buffer; the whole \<open>dump\<close> throws exactly on strings that are not UTF-8.
    \<open>Sender_Json\<close> builds the packets of \<open>Sender\<close> with it.
  \<^item> \<open>Dtoa\<close>, \<open>Dtoa_Arith\<close>, \<open>Dtoa_Powers\<close>, \<open>Dtoa_Digits\<close>, \<open>Dtoa_Grisu\<close>, \<open>Dtoa_Text\<close>, \<open>Dtoa_Props\<close>: \<open>to_chars\<close> of \<open>json.hpp\<close>, the
    Grisu2 algorithm. The multiplication rounds the exact product, the table of powers of ten is
    correctly rounded, the digits generated lie between the neighbours of the double, at most 17
    of them, no assertion fails, and the text is a JSON number that reads back as the same double.
  \<^item> \<open>Config\<close>, \<open>Path_Utils\<close>, \<open>Logger\<close>, \<open>Http_Server\<close>, \<open>Lite_Monitor\<close>: start-up. Loading is characterised key by
    key, acceptance by \<open>initConfigs\<close> implies validity, a rejection repairs at most one field, logging is characterised by level and file,
    and \<open>lite_monitor_main\<close> composes them.
  \<^item> \<open>Std_Regex\<close>, \<open>Http_Text\<close>, \<open>Http_Headers\<close>, \<open>Http_Stream\<close>, \<open>Http_Request\<close>, \<open>Http_Multipart\<close>, \<open>Http_Content\<close>,
    \<open>Http_Response\<close>, \<open>Http_Serve\<close>, \<open>Thread_Pool\<close>, \<open>Http_Listen\<close>: the server half of the vendored
    \<open>thirdpart/include/http/httplib.h\<close>, which the program listens with, from \<open>Server::listen\<close> down to the reads and
    writes on a connection. A connection is a script of what the peer sends, with pauses and resets, and of
    what each send takes. \<open>Http_Text_Props\<close> and \<open>Http_Request_Props\<close> have the round trips of percent encoding
    and of range headers; \<open>Http_Lines\<close> shows that reading lines does not depend on how the bytes
    come; the pool finishes every job. \<open>Http_Multipart_Props\<close> shows that a form in one segment is
    stored as sent, and that a boundary line cut between two segments makes the server reject it.
  \<^item> \<open>Http_Hello\<close>, \<open>Http_Connection\<close>, \<open>Http_Body_Reads\<close>, \<open>Http_Replies\<close>, \<open>Http_Any_Client\<close>, \<open>Whole_Program\<close>: the
    program's server, from bytes to bytes. A request for \<open>/hello\<close> is answered by the greeting
    however it is cut; a connection serves five requests, and loses those that arrive together
    with another; any input at all is answered by well-formed responses only, of which failing or
    short sends let beginnings of heads and bodies through (\<open>wire\<close>). \<open>Whole_Program\<close> carries this from
    the configuration file, through \<open>main\<close>, to each client.
  \<^item> \<open>Pattern_Formatter\<close>, \<open>Log_Lines\<close>: how spdlog, which the program logs with, compiles a pattern and formats a
    message. For the pattern of \<open>initLogger\<close> the cached time never shows, and level and text can be read
    back from a line.
  \<^item> \<open>File_Helper\<close>, \<open>Rotating_Sink\<close>, \<open>Log_Dispatch\<close>: the log files, their rotation, and the way of a message
    from the logger to its sinks, on an explicit file system (\<open>world\<close>) with stdio buffers and a script of
    which calls fail. \<open>Rotation_Spec\<close> is the contract of a rotating log as a locale; \<open>Rotating_Props\<close> shows
    that a sink refines it and what it leaves alone, \<open>Log_Sinks\<close> and \<open>Log_Files\<close> extend that to the three
    logs of the program. \<open>Rotating_Faults\<close> covers failing calls: the log is never scrambled, but a
    failed reopening leads to a write through a null pointer.
  \<^item> \<open>DB_Connection\<close>, \<open>DB_Pool\<close>, \<open>DB_Result\<close>, \<open>DB_Operator\<close>: connections, the pool as a step relation over its
    critical sections (\<open>pool_step\<close>), result sets, and the facade, whose operations run their
    statement once, give the connection back and are sequences of pool steps. Handles are neither leaked nor shared and the pool can always be shut down.
  \<^item> \<open>Models\<close>: the value classes of \<open>include/model\<close> with the locale \<open>accessor\<close>.

  \<^bold>\<open>How code became definitions.\<close> Classes are records of their members, some with ghost fields that
  record history (what was enqueued, sent or dropped). A member function is one definition from
  the object, and the results of the system calls it makes, to the new object. Exceptions,
  undefined behaviour and reads out of bounds are values: \<open>None\<close>, \<open>Inl\<close> or a constructor named
  after them. Code shared between threads is cut at its lock operations, and step relations
  interleave the pieces. Libraries the program calls (MySQL, yaml-cpp, the
  declared-only part of protobuf) are records of functions passed as arguments; the few facts needed of them are
  predicates such as \<open>handles_tracked\<close> and \<open>res_ok\<close>, each with a concrete instance.

  \<^bold>\<open>Loops.\<close> Loops over data recurse on the data or on a length. A loop that waits for the outside
  world (\<open>run_loop\<close>, \<open>handleAccept\<close>, \<open>read_loop\<close>, \<open>sendAll\<close>) consumes a list of the results its system calls
  return; \<open>None\<close> then says that the list ended before the loop did, and the theorems that claim
  termination show which lists suffice. \<open>run_worker\<close> has one unit of fuel per pass of the worker's
  loop; \<open>stop_flushes_queue\<close> gives the number that is enough. The loops of the HTTP server end because each
  pass uses up part of a buffer, a script or the budget of a connection.

  \<^bold>\<open>Not modelled.\<close> The SQL scripts, the housekeeper and \<open>DBInit\<close> (declared without code); what goes
  to standard output and spdlog's reports on standard error; of \<open>httplib.h\<close> the client and TLS, which
  are compiled in but never instantiated, and compression, which is not compiled in; and content providers, content readers and
  the logger, which the program never sets; and memory order: the mutexes are taken to work,
  and data races that the code has are noted where they occur.
\<close>

section \<open>Sender and trapper together\<close>

lemma process_loop_no_tail:
  assumes "frame_tail \<notin> set xs"
  shows "fst (process_loop xs) = []"
proof -
  have "fst (deframe st xs) = []" for st
    using assms
  proof (induction xs arbitrary: st)
    case (Cons x xs)
    then show ?case
      by (cases st) (auto split: prod.split)
  qed simp
  from this [of Idle] show ?thesis
    by (cases "deframe Idle xs") (simp add: process_loop_deframe)
qed

text \<open>
  C34. The two ends of the wire do not speak the same protocol, with the actual JSON serializer: whatever
  values are queued, as long as \<open>dump\<close> does not throw on them and no length field contains the byte
  0xFF, the trapper's framing delivers nothing of the packets, however the stream is cut. The JSON
  text itself can never contain the closing byte, because it is UTF-8.
\<close>

theorem json_packets_never_framed:
  assumes "list_all2 (\<lambda>batch packet. buildPacket_json e batch = Some (Inr packet)) batches packets"
    and "\<forall>packet\<in>set packets. frame_tail \<notin> set (take 4 packet)"
    and "concat cs = concat packets"
  shows "fst (scan_chunks process_loop [] cs) = []"
proof -
  have "frame_tail \<notin> set packet" if p: "packet \<in> set packets" for packet
  proof -
    obtain batch where "buildPacket_json e batch = Some (Inr packet)"
      using assms(1) p unfolding list_all2_conv_all_nth in_set_conv_nth by metis
    then obtain body where body: "packet = be_bytes 4 (of_nat (length body) :: u32) @ body" "utf8_text body"
      using buildPacket_json_cases [of batch e] by (auto split: if_splits)
    have "frame_tail \<notin> set body"
      using utf8_text_bytes [OF body(2)] by (auto simp: list_all_iff frame_tail_def)
    moreover have "take 4 packet = be_bytes 4 (of_nat (length body) :: u32)"
      by (simp add: body(1) be_bytes_def)
    ultimately show ?thesis
      using assms(2) p body(1) by (metis Un_iff set_append)
  qed
  then have "frame_tail \<notin> set (concat packets)"
    by auto
  then show ?thesis
    using process_loop_no_tail assms(3) framing.chunks_all by simp
qed

lemma demo_dump:
  "dump_default (the (batch_root []))
   = Inr [123, 34, 105, 116, 101, 109, 115, 34, 58, 91, 93, 44, 34, 116, 121, 112, 101, 34, 58, 34, 100, 97, 116, 97, 34, 125]"
  by code_simp

lemma demo_packet:
  "buildPacket_json BigEndian []
   = Some (Inr [0, 0, 0, 26, 123, 34, 105, 116, 101, 109, 115, 34, 58, 91, 93, 44, 34, 116, 121, 112, 101, 34, 58, 34,
                100, 97, 116, 97, 34, 125])"
proof -
  have "be_bytes 4 (26 :: u32) = [0, 0, 0, 26]"
    by code_simp
  then show ?thesis
    using demo_dump by (simp add: buildPacket_json_def batch_root_eq buildPacket_def Let_def net32.net_image)
qed

theorem json_packets_never_framed_witness:
  "fst (scan_chunks process_loop []
     [[0, 0, 0, 26, 123, 34, 105, 116, 101, 109, 115, 34, 58, 91, 93, 44, 34],
      [116, 121, 112, 101, 34, 58, 34, 100, 97, 116, 97, 34, 125]]) = []"
proof (rule json_packets_never_framed [where batches = "[[]]"])
  show "list_all2 (\<lambda>batch packet. buildPacket_json BigEndian batch = Some (Inr packet)) [[]]
      [[0, 0, 0, 26, 123, 34, 105, 116, 101, 109, 115, 34, 58, 91, 93, 44, 34, 116, 121, 112, 101, 34, 58, 34,
        100, 97, 116, 97, 34, 125]]"
    by (simp add: demo_packet)
qed (simp_all add: frame_tail_def)

end
